(* ===== verification/Prelude.thy ===== *)
theory Prelude
  imports Complex_Main "HOL-Library.Word" "HOL-Library.AList" "HOL-Library.While_Combinator"
begin

text \<open>
  Shared vocabulary of the development: computations that may throw (a sum whose left part
  is the thrown error), the operations of JavaScript's insertion-ordered \<open>Map\<close> on association
  lists, big-endian byte strings, and the interface \<open>guarded_machine\<close> of a state machine whose
  operations either throw or return the next state and keep an invariant.
\<close>

section \<open>Types\<close>

type_synonym u8 = "8 word"
type_synonym u16 = "16 word"
type_synonym bytes = "u8 list"

text \<open>A JavaScript string is the list of its UTF-16 code units.\<close>

type_synonym jstr = "u16 list"

definition jlit :: "string \<Rightarrow> jstr" where
  "jlit s = map (\<lambda>c. word_of_nat (of_char c)) s"

text \<open>\<open>value || fallback\<close> on optional strings.\<close>

definition or_text :: "jstr option \<Rightarrow> jstr \<Rightarrow> jstr" where
  "or_text value fallback = (case value of None \<Rightarrow> fallback | Some s \<Rightarrow> if s = [] then fallback else s)"

section \<open>Computations that may throw\<close>

definition try_bind :: "'e + 'a \<Rightarrow> ('a \<Rightarrow> 'e + 'b) \<Rightarrow> 'e + 'b" where
  "try_bind m f = (case m of Inl e \<Rightarrow> Inl e | Inr a \<Rightarrow> f a)"

definition throw_if :: "bool \<Rightarrow> 'e \<Rightarrow> 'e + unit" where
  "throw_if c e = (if c then Inl e else Inr ())"

definition is_ok :: "'e + 'a \<Rightarrow> bool" where
  "is_ok m = (case m of Inl _ \<Rightarrow> False | Inr _ \<Rightarrow> True)"

lemma try_bind_simps [simp]:
  "try_bind (Inl e) f = Inl e"
  "try_bind (Inr a) f = f a"
  by (simp_all add: try_bind_def)

lemma try_bind_cong [fundef_cong]:
  assumes "m = m'" and "\<And>a. m' = Inr a \<Longrightarrow> f a = g a"
  shows "try_bind m f = try_bind m' g"
  using assms by (cases m') (simp_all add: try_bind_def)

lemma try_bind_eq_Inr: "try_bind m f = Inr b \<longleftrightarrow> (\<exists>a. m = Inr a \<and> f a = Inr b)"
  by (cases m) simp_all

lemma try_bind_eq_Inl:
  "try_bind m f = Inl e \<longleftrightarrow> m = Inl e \<or> (\<exists>a. m = Inr a \<and> f a = Inl e)"
  by (cases m) simp_all

lemma try_bindE:
  assumes "try_bind m f = Inr b"
  obtains a where "m = Inr a" and "f a = Inr b"
  using assms by (auto simp: try_bind_eq_Inr)

lemma throw_if_eq_Inr [simp]: "throw_if c e = Inr u \<longleftrightarrow> \<not> c"
  by (simp add: throw_if_def)

lemma throw_if_eq_Inl [simp]: "throw_if c e = Inl e' \<longleftrightarrow> c \<and> e' = e"
  by (auto simp: throw_if_def)

lemma throw_if_simps [simp]: "throw_if True e = Inl e" "throw_if False e = Inr ()"
  by (simp_all add: throw_if_def)

lemma is_ok_simps [simp]: "is_ok (Inr a)" "\<not> is_ok (Inl e)"
  by (simp_all add: is_ok_def)

lemma is_ok_iff: "is_ok m \<longleftrightarrow> (\<exists>a. m = Inr a)"
  by (cases m) auto

text \<open>A computation that also changes a state (the world of the callbacks, most often) keeps the change when it throws.\<close>

definition then_result :: "('e + 'a) \<times> 'w \<Rightarrow> ('a \<Rightarrow> 'w \<Rightarrow> ('e + 'b) \<times> 'w) \<Rightarrow> ('e + 'b) \<times> 'w" where
  "then_result m f = (case m of (Inl e, w) \<Rightarrow> (Inl e, w) | (Inr a, w) \<Rightarrow> f a w)"

lemma then_result_simps [simp]:
  "then_result (Inl e, w) f = (Inl e, w)"
  "then_result (Inr a, w) f = f a w"
  by (simp_all add: then_result_def)

lemma then_result_Inr: "then_result m f = (Inr b, w') \<longleftrightarrow> (\<exists>a w. m = (Inr a, w) \<and> f a w = (Inr b, w'))"
  by (auto simp: then_result_def split: prod.splits sum.splits)

section \<open>State machines that throw or step\<close>

text \<open>
  The classes of the program are objects whose methods either throw, leaving the caller with
  an error, or return after changing the object. Running a list of calls stops at the first
  throw, as an uncaught exception does.
\<close>

fun run_machine :: "('c \<Rightarrow> 's \<Rightarrow> 'e + 's) \<Rightarrow> 'c list \<Rightarrow> 's \<Rightarrow> 'e + 's" where
  "run_machine step [] s = Inr s"
| "run_machine step (c # cs) s = try_bind (step c s) (run_machine step cs)"

lemma run_machine_append:
  "run_machine step (cs @ ds) s = try_bind (run_machine step cs s) (run_machine step ds)"
proof (induction cs arbitrary: s)
  case Nil
  show ?case by simp
next
  case (Cons c cs)
  then show ?case by (cases "step c s") simp_all
qed

locale guarded_machine =
  fixes step :: "'c \<Rightarrow> 's \<Rightarrow> 'e + 's"
    and start :: "'s"
    and inv :: "'s \<Rightarrow> bool"
  assumes start_inv: "inv start"
    and step_inv: "inv s \<Longrightarrow> step c s = Inr s' \<Longrightarrow> inv s'"
begin

lemma run_inv: "inv s \<Longrightarrow> run_machine step cs s = Inr s' \<Longrightarrow> inv s'"
proof (induction cs arbitrary: s)
  case Nil
  then show ?case by simp
next
  case (Cons c cs)
  then show ?case by (auto simp: try_bind_eq_Inr intro: step_inv)
qed

lemma reachable_inv: "run_machine step cs start = Inr s \<Longrightarrow> inv s"
  by (rule run_inv [OF start_inv])

end

section \<open>Insertion-ordered maps\<close>

text \<open>
  A JavaScript \<open>Map\<close> whose order is observed is an association list: \<open>AList.update\<close> is \<open>set\<close>
  (an existing key keeps its place, a new one goes to the end), \<open>AList.delete\<close> is \<open>delete\<close>
  and \<open>map_of\<close> is \<open>get\<close>.
\<close>

lemma map_of_update [simp]: "map_of (AList.update k v al) = (map_of al)(k \<mapsto> v)"
  by (simp add: update_conv')

lemma map_of_delete [simp]: "map_of (AList.delete k al) = (map_of al)(k := None)"
  by (simp add: delete_conv')

lemma set_update_subset: "set (AList.update k v al) \<subseteq> insert (k, v) (set al)"
  by (induction al) auto

lemma ran_update_subset: "snd ` set (AList.update k v al) \<subseteq> insert v (snd ` set al)"
  using set_update_subset [of k v al] by force

section \<open>Big-endian byte strings\<close>

fun be_bytes :: "nat \<Rightarrow> nat \<Rightarrow> bytes" where
  "be_bytes 0 n = []"
| "be_bytes (Suc k) n = word_of_nat (n div 256 ^ k) # be_bytes k n"

definition be_nat :: "bytes \<Rightarrow> nat" where
  "be_nat bs = foldl (\<lambda>a b. a * 256 + unat b) 0 bs"

lemma length_be_bytes [simp]: "length (be_bytes k n) = k"
  by (induction k) simp_all

lemma be_bytes_eq_Nil [simp]: "be_bytes k n = [] \<longleftrightarrow> k = 0"
  by (cases k) simp_all

lemma unat_u8_of_nat [simp]: "unat (word_of_nat n :: u8) = n mod 256"
  by (simp add: unat_of_nat)

lemma unat_u8_less [simp]: "unat (b :: u8) < 256"
  using unsigned_less [of b] by simp

lemma foldl_be_nat:
  "foldl (\<lambda>a b. a * 256 + unat (b :: u8)) c bs = c * 256 ^ length bs + be_nat bs"
proof (induction bs arbitrary: c)
  case Nil
  show ?case by (simp add: be_nat_def)
next
  case (Cons b bs)
  have "be_nat (b # bs) = unat b * 256 ^ length bs + be_nat bs"
    using Cons.IH [of "unat b"] by (simp add: be_nat_def)
  then show ?case using Cons.IH [of "c * 256 + unat b"] by (simp add: algebra_simps)
qed

lemma be_nat_Nil [simp]: "be_nat [] = 0"
  by (simp add: be_nat_def)

lemma be_nat_Cons [simp]: "be_nat (b # bs) = unat b * 256 ^ length bs + be_nat bs"
  using foldl_be_nat [of "unat b" bs] by (simp add: be_nat_def)

lemma be_nat_less: "be_nat bs < 256 ^ length bs"
proof (induction bs)
  case Nil
  show ?case by simp
next
  case (Cons b bs)
  have "unat b + 1 \<le> 256" using unat_u8_less [of b] by linarith
  then have "(unat b + 1) * 256 ^ length bs \<le> 256 * 256 ^ length bs"
    by (rule mult_right_mono) simp
  moreover have "(unat b + 1) * 256 ^ length bs = unat b * 256 ^ length bs + 256 ^ length bs"
    by (simp add: algebra_simps)
  ultimately show ?case using Cons.IH unfolding be_nat_Cons length_Cons power_Suc by linarith
qed

lemma be_nat_be_bytes: "be_nat (be_bytes k n) = n mod 256 ^ k"
proof (induction k)
  case 0
  show ?case by simp
next
  case (Suc k)
  have "n mod 256 ^ Suc k = n div 256 ^ k mod 256 * 256 ^ k + n mod 256 ^ k"
    by (metis add.commute mod_mult2_eq mult.commute power_Suc)
  then show ?case using Suc.IH by simp
qed

lemma be_nat_be_bytes_small [simp]: "n < 256 ^ k \<Longrightarrow> be_nat (be_bytes k n) = n"
  by (simp add: be_nat_be_bytes)

lemma be_bytes_2: "be_bytes 2 n = [word_of_nat (n div 2 ^ 8), word_of_nat n]"
proof -
  have two: "(2::nat) = Suc (Suc 0)" by simp
  show ?thesis by (subst two) simp
qed

lemma be_bytes_add: "be_bytes (j + k) n = be_bytes j (n div 256 ^ k) @ be_bytes k n"
  by (induction j) (simp_all add: div_mult2_eq [symmetric] power_add mult.commute)

lemma be_bytes_4: "be_bytes 4 n =
    [word_of_nat (n div 2 ^ 24), word_of_nat (n div 2 ^ 16), word_of_nat (n div 2 ^ 8), word_of_nat n]"
  using be_bytes_add [of 2 2 n] by (simp add: be_bytes_2 div_mult2_eq [symmetric])

lemma be_bytes_mod: "be_bytes k (n mod 256 ^ k) = be_bytes k n"
proof -
  have shift: "be_bytes k (m * 256 ^ k + n) = be_bytes k n" for m n
  proof (induction k arbitrary: m)
    case 0
    show ?case by simp
  next
    case (Suc k)
    have "(m * 256 ^ Suc k + n) div 256 ^ k = m * 256 + n div 256 ^ k"
      by (simp add: mult.assoc [symmetric])
    moreover have "(word_of_nat (m * 256 + n div 256 ^ k) :: u8) = word_of_nat (n div 256 ^ k)"
      by (rule word_unat_eq_iff [THEN iffD2], unfold unat_u8_of_nat) simp
    ultimately show ?case using Suc.IH [of "m * 256"] by (simp add: mult.assoc)
  qed
  show ?thesis by (metis div_mult_mod_eq shift)
qed

lemma be_bytes_be_nat: "length bs = k \<Longrightarrow> be_bytes k (be_nat bs) = bs"
proof (induction bs arbitrary: k)
  case Nil
  then show ?case by simp
next
  case (Cons b bs)
  have head: "(unat b * 256 ^ length bs + be_nat bs) div 256 ^ length bs = unat b"
    using be_nat_less [of bs] by simp
  have "be_bytes (length bs) (unat b * 256 ^ length bs + be_nat bs) = be_bytes (length bs) (be_nat bs)"
    using be_bytes_mod [of "length bs" "unat b * 256 ^ length bs + be_nat bs"] be_nat_less [of bs] by simp
  with Cons head show ?case by auto
qed

text \<open>\<open>Uint8Array.set\<close>: the bytes overwrite the buffer from the given offset.\<close>

definition set_bytes :: "bytes \<Rightarrow> nat \<Rightarrow> bytes \<Rightarrow> bytes" where
  "set_bytes buf off bs = take off buf @ bs @ drop (off + length bs) buf"

lemma length_set_bytes [simp]: "off + length bs \<le> length buf \<Longrightarrow> length (set_bytes buf off bs) = length buf"
  by (simp add: set_bytes_def)

lemma take_set_bytes [simp]: "off + length bs \<le> length buf \<Longrightarrow> take (off + length bs) (set_bytes buf off bs) = take off buf @ bs"
  by (simp add: set_bytes_def)

end
