(* ===== verification/Js_Text.thy ===== *)
theory Js_Text
  imports Prelude
begin

text \<open>
  JavaScript text as the sources use it through the platform's \<open>TextEncoder\<close>,
  \<open>TextDecoder\<close> (with \<open>fatal\<close> and \<open>ignoreBOM\<close>) and \<open>Buffer.byteLength\<close>: a string is a list of
  UTF-16 code units, encoding replaces an unpaired surrogate by U+FFFD, and decoding rejects
  every byte sequence that is not well-formed UTF-8 (Unicode Table 3-7). The theory proves
  that decoding inverts encoding exactly on the strings without unpaired surrogates.
\<close>

section \<open>Code units and scalar values\<close>

lemma unat_u16_less: "unat (u :: u16) < 65536"
  using unsigned_less [of u] by simp

definition is_high :: "u16 \<Rightarrow> bool" where
  "is_high u \<longleftrightarrow> 0xD800 \<le> unat u \<and> unat u \<le> 0xDBFF"

definition is_low :: "u16 \<Rightarrow> bool" where
  "is_low u \<longleftrightarrow> 0xDC00 \<le> unat u \<and> unat u \<le> 0xDFFF"

definition pair_scalar :: "u16 \<Rightarrow> u16 \<Rightarrow> nat" where
  "pair_scalar h l = 0x10000 + (unat h - 0xD800) * 0x400 + (unat l - 0xDC00)"

definition is_scalar :: "nat \<Rightarrow> bool" where
  "is_scalar c \<longleftrightarrow> c < 0xD800 \<or> (0xE000 \<le> c \<and> c < 0x110000)"

fun scalars :: "jstr \<Rightarrow> nat list" where
  "scalars [] = []"
| "scalars [u] = [if is_high u \<or> is_low u then 0xFFFD else unat u]"
| "scalars (u # v # s) =
     (if is_high u \<and> is_low v then pair_scalar u v # scalars s
      else (if is_high u \<or> is_low u then 0xFFFD else unat u) # scalars (v # s))"

fun well_formed :: "jstr \<Rightarrow> bool" where
  "well_formed [] = True"
| "well_formed [u] = (\<not> is_high u \<and> \<not> is_low u)"
| "well_formed (u # v # s) =
     (if is_high u \<and> is_low v then well_formed s
      else \<not> is_high u \<and> \<not> is_low u \<and> well_formed (v # s))"

definition scalar_units :: "nat \<Rightarrow> jstr" where
  "scalar_units c =
     (if c < 0x10000 then [word_of_nat c]
      else [word_of_nat (0xD800 + (c - 0x10000) div 0x400),
            word_of_nat (0xDC00 + (c - 0x10000) mod 0x400)])"

section \<open>Encoding\<close>

definition scalar_bytes :: "nat \<Rightarrow> nat list" where
  "scalar_bytes c =
     (if c < 0x80 then [c]
      else if c < 0x800 then [0xC0 + c div 0x40, 0x80 + c mod 0x40]
      else if c < 0x10000 then [0xE0 + c div 0x1000, 0x80 + c div 0x40 mod 0x40, 0x80 + c mod 0x40]
      else [0xF0 + c div 0x40000, 0x80 + c div 0x1000 mod 0x40,
            0x80 + c div 0x40 mod 0x40, 0x80 + c mod 0x40])"

definition utf8_encode :: "jstr \<Rightarrow> bytes" where
  "utf8_encode s = map word_of_nat (concat (map scalar_bytes (scalars s)))"

section \<open>Decoding\<close>

definition is_cont :: "nat \<Rightarrow> bool" where
  "is_cont b \<longleftrightarrow> 0x80 \<le> b \<and> b < 0xC0"

text \<open>One scalar value from the front of a byte list, and the bytes that follow it.\<close>

definition next_scalar :: "nat list \<Rightarrow> (nat \<times> nat list) option" where
  "next_scalar bs = (case bs of
     [] \<Rightarrow> None
   | b0 # r0 \<Rightarrow>
       if b0 < 0x80 then Some (b0, r0)
       else if 0xC2 \<le> b0 \<and> b0 < 0xE0 then (case r0 of
           b1 # r1 \<Rightarrow> if is_cont b1 then Some ((b0 - 0xC0) * 0x40 + (b1 - 0x80), r1) else None
         | [] \<Rightarrow> None)
       else if 0xE0 \<le> b0 \<and> b0 < 0xF0 then (case r0 of
           b1 # b2 # r2 \<Rightarrow>
             if is_cont b1 \<and> is_cont b2 \<and> (b0 = 0xE0 \<longrightarrow> 0xA0 \<le> b1) \<and> (b0 = 0xED \<longrightarrow> b1 < 0xA0)
             then Some ((b0 - 0xE0) * 0x1000 + (b1 - 0x80) * 0x40 + (b2 - 0x80), r2) else None
         | _ \<Rightarrow> None)
       else if 0xF0 \<le> b0 \<and> b0 < 0xF5 then (case r0 of
           b1 # b2 # b3 # r3 \<Rightarrow>
             if is_cont b1 \<and> is_cont b2 \<and> is_cont b3 \<and> (b0 = 0xF0 \<longrightarrow> 0x90 \<le> b1) \<and> (b0 = 0xF4 \<longrightarrow> b1 < 0x90)
             then Some ((b0 - 0xF0) * 0x40000 + (b1 - 0x80) * 0x1000 + (b2 - 0x80) * 0x40 + (b3 - 0x80), r3)
             else None
         | _ \<Rightarrow> None)
       else None)"

lemma next_scalar_shorter: "next_scalar bs = Some (c, r) \<Longrightarrow> length r < length bs"
  by (auto simp: next_scalar_def split: list.splits if_splits)

function decode_scalars :: "nat list \<Rightarrow> nat list option" where
  "decode_scalars bs =
     (if bs = [] then Some []
      else case next_scalar bs of
        None \<Rightarrow> None
      | Some (c, r) \<Rightarrow> map_option (\<lambda>cs. c # cs) (decode_scalars r))"
  by pat_completeness auto
termination
  by (relation "measure length") (auto dest: next_scalar_shorter)

declare decode_scalars.simps [simp del]

definition utf8_decode :: "bytes \<Rightarrow> jstr option" where
  "utf8_decode bs = map_option (\<lambda>cs. concat (map scalar_units cs)) (decode_scalars (map unat bs))"

section \<open>Round trip\<close>

lemma scalars_are_scalar: "c \<in> set (scalars s) \<Longrightarrow> is_scalar c"
proof (induction s rule: scalars.induct)
  case 1
  then show ?case by simp
next
  case (2 u)
  have "unat u < 65536" by (rule unat_u16_less)
  then show ?case
    using 2 by (auto simp: is_scalar_def is_high_def is_low_def split: if_splits)
next
  case (3 u v s)
  have "unat u < 65536" by (rule unat_u16_less)
  moreover have "is_high u \<Longrightarrow> is_low v \<Longrightarrow> is_scalar (pair_scalar u v)"
    by (auto simp: is_scalar_def is_high_def is_low_def pair_scalar_def)
  ultimately show ?case
    using 3 by (auto simp: is_scalar_def is_high_def is_low_def split: if_splits)
qed

lemma scalar_bytes_less: "is_scalar c \<Longrightarrow> b \<in> set (scalar_bytes c) \<Longrightarrow> b < 256"
  by (auto simp: is_scalar_def scalar_bytes_def split: if_splits)

lemma div_4096: "(c::nat) div 0x1000 = c div 0x40 div 0x40"
  by (simp add: div_mult2_eq [symmetric])

lemma div_262144: "(c::nat) div 0x40000 = c div 0x40 div 0x40 div 0x40"
  by (simp add: div_mult2_eq [symmetric])

lemma div_mod_split3:
  "(c::nat) div 0x40 div 0x40 * 0x1000 + c div 0x40 mod 0x40 * 0x40 + c mod 0x40 = c"
  using div_mult_mod_eq [of c 64] div_mult_mod_eq [of "c div 64" 64] by linarith

lemma div_mod_split4:
  "(c::nat) div 0x40 div 0x40 div 0x40 * 0x40000 + c div 0x40 div 0x40 mod 0x40 * 0x1000
     + c div 0x40 mod 0x40 * 0x40 + c mod 0x40 = c"
  using div_mod_split3 [of c] div_mult_mod_eq [of "c div 64 div 64" 64] by linarith

lemma next_scalar_bytes:
  assumes "is_scalar c"
  shows "next_scalar (scalar_bytes c @ r) = Some (c, r)"
proof -
  define m1 where "m1 = c mod 0x40"
  define q1 where "q1 = c div 0x40"
  define m2 where "m2 = q1 mod 0x40"
  define q2 where "q2 = q1 div 0x40"
  define m3 where "m3 = q2 mod 0x40"
  define q3 where "q3 = q2 div 0x40"
  note defs = m1_def q1_def m2_def q2_def m3_def q3_def
  have m: "m1 < 64" "m2 < 64" "m3 < 64" by (simp_all add: defs)
  have c1: "c = q1 * 64 + m1" and c2: "q1 = q2 * 64 + m2" and c3: "q2 = q3 * 64 + m3"
    by (simp_all add: defs)
  have fold: "c mod 0x40 = m1" "c div 0x40 = q1" "q1 mod 0x40 = m2" "q1 div 0x40 = q2"
      "q2 mod 0x40 = m3" "q2 div 0x40 = q3"
    by (simp_all add: defs)
  have bound: "c < 0x110000" "c < 0xD800 \<or> 0xE000 \<le> c" using assms by (auto simp: is_scalar_def)
  consider "c < 0x80" | "0x80 \<le> c" "c < 0x800" | "0x800 \<le> c" "c < 0x10000" | "0x10000 \<le> c"
    by linarith
  then show ?thesis
  proof cases
    case 1
    then show ?thesis by (simp add: scalar_bytes_def next_scalar_def)
  next
    case 2
    then have "2 \<le> q1" "q1 < 32" using c1 m by linarith+
    moreover have "q1 * 64 + m1 = c" using c1 by simp
    ultimately show ?thesis
      using 2 m by (simp add: scalar_bytes_def next_scalar_def is_cont_def fold)
  next
    case 3
    have "q2 < 16" using 3 c1 c2 m by linarith
    moreover have "q2 = 0 \<Longrightarrow> 0x20 \<le> m2" using 3 c1 c2 m by linarith
    moreover have "q2 = 13 \<Longrightarrow> m2 < 0x20" using 3 bound c1 c2 m by linarith
    moreover have "q2 * 0x1000 + m2 * 0x40 + m1 = c" using c1 c2 by linarith
    ultimately show ?thesis
      using 3 m by (simp add: scalar_bytes_def next_scalar_def is_cont_def div_4096 fold)
  next
    case 4
    have "q3 < 5" using bound c1 c2 c3 m by linarith
    moreover have "q3 = 0 \<Longrightarrow> 0x10 \<le> m3" using 4 c1 c2 c3 m by linarith
    moreover have "q3 = 4 \<Longrightarrow> m3 < 0x10" using bound c1 c2 c3 m by linarith
    moreover have "q3 * 0x40000 + m3 * 0x1000 + m2 * 0x40 + m1 = c" using c1 c2 c3 by linarith
    ultimately show ?thesis
      using 4 m
      by (simp add: scalar_bytes_def next_scalar_def is_cont_def div_4096 div_262144 fold)
  qed
qed

lemma scalar_bytes_nonempty: "scalar_bytes c \<noteq> []"
  by (simp add: scalar_bytes_def)

lemma decode_scalars_encoded:
  "\<forall>c \<in> set cs. is_scalar c \<Longrightarrow> decode_scalars (concat (map scalar_bytes cs)) = Some cs"
proof (induction cs)
  case Nil
  show ?case by (simp add: decode_scalars.simps)
next
  case (Cons c cs)
  then show ?case
    by (subst decode_scalars.simps) (simp add: next_scalar_bytes scalar_bytes_nonempty)
qed

lemma unat_utf8_encode: "map unat (utf8_encode s) = concat (map scalar_bytes (scalars s))"
proof -
  have "\<forall>b \<in> set (concat (map scalar_bytes (scalars s))). b < 256"
    using scalars_are_scalar scalar_bytes_less by fastforce
  then show ?thesis
    unfolding utf8_encode_def map_map by (intro map_idI) (auto simp: unat_of_nat)
qed

lemma utf8_decode_encode: "utf8_decode (utf8_encode s) = Some (concat (map scalar_units (scalars s)))"
  by (simp add: utf8_decode_def unat_utf8_encode decode_scalars_encoded scalars_are_scalar)

text \<open>
  What the round trip produces: the string with each unpaired surrogate replaced, which is the
  string itself when there is none.
\<close>

definition to_well_formed :: "jstr \<Rightarrow> jstr" where
  "to_well_formed s = concat (map scalar_units (scalars s))"

lemma scalar_units_bmp: "unat u < 0x10000 \<Longrightarrow> scalar_units (unat (u :: u16)) = [u]"
  by (simp add: scalar_units_def)

lemma scalar_units_unit [simp]: "scalar_units (unat (u :: u16)) = [u]"
  using unat_u16_less [of u] by (simp add: scalar_units_def)

lemma scalar_units_pair:
  assumes "is_high h" and "is_low l"
  shows "scalar_units (pair_scalar h l) = [h, l]"
proof -
  define a where "a = unat h - 0xD800"
  define b where "b = unat l - 0xDC00"
  have ua: "unat h = 0xD800 + a" and ub: "unat l = 0xDC00 + b" and "b < 0x400"
    using assms by (auto simp: is_high_def is_low_def a_def b_def)
  then have ab: "(a * 0x400 + b) div 0x400 = a" "(a * 0x400 + b) mod 0x400 = b" by simp_all
  have "pair_scalar h l = 0x10000 + (a * 0x400 + b)"
    by (simp add: pair_scalar_def a_def b_def)
  then have "scalar_units (pair_scalar h l) = [word_of_nat (0xD800 + a), word_of_nat (0xDC00 + b)]"
    using ab by (simp add: scalar_units_def)
  moreover have "word_of_nat (unat h) = h" "word_of_nat (unat l) = l" by simp_all
  ultimately show ?thesis using ua ub by metis
qed

lemma to_well_formed_id: "well_formed s \<Longrightarrow> to_well_formed s = s"
  by (induction s rule: well_formed.induct)
    (auto simp: to_well_formed_def scalar_units_pair split: if_splits)

lemma scalar_units_replacement: "scalar_units 0xFFFD = [0xFFFD]"
  by (simp add: scalar_units_def)

lemma replacement_not_surrogate [simp]: "\<not> is_high 0xFFFD" "\<not> is_low 0xFFFD"
  by (simp_all add: is_high_def is_low_def)

lemma not_low_high: "is_high u \<Longrightarrow> \<not> is_low u"
  by (simp add: is_high_def is_low_def)

lemma well_formed_Cons: "\<not> is_high u \<Longrightarrow> \<not> is_low u \<Longrightarrow> well_formed (u # s) = well_formed s"
  by (cases s) auto

lemma well_formed_to_well_formed: "well_formed (to_well_formed s)"
proof (induction s rule: scalars.induct)
  case 1
  then show ?case by (simp add: to_well_formed_def)
next
  case (2 u)
  then show ?case by (simp add: to_well_formed_def scalar_units_replacement)
next
  case (3 u v s)
  then show ?case
    by (auto simp: to_well_formed_def scalar_units_replacement scalar_units_pair well_formed_Cons)
qed

lemma utf8_round_trip: "utf8_decode (utf8_encode s) = Some (to_well_formed s)"
  by (simp add: utf8_decode_encode to_well_formed_def)

lemma utf8_round_trip_iff: "utf8_decode (utf8_encode s) = Some s \<longleftrightarrow> well_formed s"
  using utf8_round_trip [of s] to_well_formed_id well_formed_to_well_formed [of s] by auto

end
