(* ===== verification/Js_Values.thy ===== *)
theory Js_Values
  imports Js_Text
begin

text \<open>
  JavaScript values as the program observes them: numbers (integral doubles by their integer,
  every other double by its IEEE-754 bits), strings, byte arrays, arrays and objects with the
  features that the codecs inspect (prototype, symbol keys, hidden properties, accessors,
  holes) and with an identity, so that a cyclic value is the finite unfolding in which an
  identity repeats among its own ancestors.
\<close>

section \<open>Numbers\<close>

datatype js_number =
    JInt int
  | JDouble "64 word"

text \<open>
  \<open>DataView.getFloat64\<close>: the double with the given bits. An integral value other than \<open>-0\<close> is
  \<open>JInt\<close>; the remaining doubles (\<open>-0\<close>, fractions, infinities and NaNs) keep their bits.
\<close>

definition double_exponent :: "nat \<Rightarrow> nat" where
  "double_exponent b = b div 2 ^ 52 mod 2048"

definition double_mantissa :: "nat \<Rightarrow> nat" where
  "double_mantissa b = b mod 2 ^ 52"

definition double_of_bits :: "64 word \<Rightarrow> js_number" where
  "double_of_bits w =
     (let b = unat w; e = double_exponent b; m = double_mantissa b;
          sign = (if 2 ^ 63 \<le> b then -1 else 1 :: int); sig = 2 ^ 52 + m
      in if b = 0 then JInt 0
         else if e = 0 \<or> e = 2047 then JDouble w
         else if 1075 \<le> e then JInt (sign * int (sig * 2 ^ (e - 1075)))
         else if 2 ^ (1075 - e) dvd sig then JInt (sign * int (sig div 2 ^ (1075 - e)))
         else JDouble w)"

fun is_finite :: "js_number \<Rightarrow> bool" where
  "is_finite (JInt n) = True"
| "is_finite (JDouble w) = (double_exponent (unat w) \<noteq> 2047)"

definition max_safe :: int where
  "max_safe = 2 ^ 53 - 1"

definition is_safe :: "int \<Rightarrow> bool" where
  "is_safe n \<longleftrightarrow> - max_safe \<le> n \<and> n \<le> max_safe"

text \<open>A \<open>JDouble\<close> that really is not integral (or is \<open>-0\<close>).\<close>

fun proper_number :: "js_number \<Rightarrow> bool" where
  "proper_number (JInt n) = True"
| "proper_number (JDouble w) = (double_of_bits w = JDouble w)"

section \<open>Values\<close>

datatype proto = ObjectProto | NullProto | OtherProto

datatype symbol_keys = NoSymbols | HiddenSymbols | VisibleSymbols

text \<open>
  An array whose prototype is not \<open>Array.prototype\<close>, and one with further own properties: how many
  of them are named by strings, and whether some are named by symbols.
\<close>

datatype array_kind = PlainArray | OddArray | ExtraArray nat bool

datatype exotic = BigInt | Symbol | Function

record object_kind =
  ok_proto :: proto
  ok_symbols :: symbol_keys
  ok_hidden :: bool

definition plain_object :: object_kind where
  "plain_object = \<lparr>ok_proto = ObjectProto, ok_symbols = NoSymbols, ok_hidden = False\<rparr>"

text \<open>
  \<open>JHole\<close> is an absent index of a sparse array and \<open>JGetter v\<close> a property whose read runs an
  accessor that returns \<open>v\<close>; both occur only as the content of an array slot or a property.
  The entries of an object are listed in the order of \<open>Object.keys\<close>.
\<close>

datatype 'o jsv =
    JUndefined
  | JHole
  | JNull
  | JBool bool
  | JNum js_number
  | JStr jstr
  | JBytes bytes
  | JArr 'o array_kind "'o jsv list"
  | JObj 'o object_kind "(jstr \<times> 'o jsv) list"
  | JExotic exotic
  | JGetter "'o jsv"

fun is_undefined :: "'o jsv \<Rightarrow> bool" where
  "is_undefined JUndefined = True"
| "is_undefined JHole = True"
| "is_undefined (JGetter v) = is_undefined v"
| "is_undefined _ = False"

section \<open>The order of own property keys\<close>

text \<open>
  An object lists its array-index keys (canonical decimal numerals below \<open>2^32 - 1\<close>) first, in
  ascending order, then its other string keys in the order in which they were defined.
\<close>

definition is_digit :: "u16 \<Rightarrow> bool" where
  "is_digit u \<longleftrightarrow> 48 \<le> unat u \<and> unat u \<le> 57"

definition decimal_value :: "jstr \<Rightarrow> nat" where
  "decimal_value s = foldl (\<lambda>n u. n * 10 + (unat u - 48)) 0 s"

definition array_index :: "jstr \<Rightarrow> nat option" where
  "array_index s =
     (if s \<noteq> [] \<and> list_all is_digit s \<and> (hd s \<noteq> 48 \<or> length s = 1) \<and> decimal_value s < 2 ^ 32 - 1
      then Some (decimal_value s) else None)"

definition key_before :: "jstr \<Rightarrow> jstr \<Rightarrow> bool" where
  "key_before a b = (case array_index a of
      Some i \<Rightarrow> (case array_index b of Some j \<Rightarrow> i < j | None \<Rightarrow> True)
    | None \<Rightarrow> array_index b = None)"

text \<open>\<open>Object.defineProperty\<close> of a key that the object does not have yet.\<close>

definition define_property :: "jstr \<Rightarrow> 'v \<Rightarrow> (jstr \<times> 'v) list \<Rightarrow> (jstr \<times> 'v) list" where
  "define_property k v es =
     takeWhile (\<lambda>e. key_before (fst e) k) es @ (k, v) # dropWhile (\<lambda>e. key_before (fst e) k) es"

definition keys_ordered :: "(jstr \<times> 'v) list \<Rightarrow> bool" where
  "keys_ordered es \<longleftrightarrow> sorted_wrt key_before (map fst es)"

lemma define_property_last:
  "\<forall>e \<in> set es. key_before (fst e) k \<Longrightarrow> define_property k v es = es @ [(k, v)]"
  by (simp add: define_property_def takeWhile_eq_all_conv [THEN iffD2] dropWhile_eq_Nil_conv [THEN iffD2])

lemma keys_ordered_snoc:
  "keys_ordered (es @ [(k, v)]) \<Longrightarrow> define_property k v es = es @ [(k, v)]"
  by (rule define_property_last) (auto simp: keys_ordered_def sorted_wrt_append)

lemma set_define_property: "set (define_property k v es) = insert (k, v) (set es)"
proof -
  have "set es = set (takeWhile (\<lambda>e. key_before (fst e) k) es) \<union> set (dropWhile (\<lambda>e. key_before (fst e) k) es)"
    by (metis set_append takeWhile_dropWhile_id)
  then show ?thesis by (auto simp: define_property_def)
qed

lemma length_define_property [simp]: "length (define_property k v es) = Suc (length es)"
proof -
  have "length (takeWhile (\<lambda>e. key_before (fst e) k) es) + length (dropWhile (\<lambda>e. key_before (fst e) k) es) = length es"
    by (metis length_append takeWhile_dropWhile_id)
  then show ?thesis by (simp add: define_property_def)
qed

lemma distinct_define_property:
  assumes "distinct (map fst es)" and "k \<notin> fst ` set es"
  shows "distinct (map fst (define_property k v es))"
proof -
  let ?t = "takeWhile (\<lambda>e. key_before (fst e) k) es" and ?d = "dropWhile (\<lambda>e. key_before (fst e) k) es"
  have "distinct (map fst (?t @ ?d))" using assms(1) by simp
  moreover have "k \<notin> fst ` set ?t" "k \<notin> fst ` set ?d"
    using assms(2) by (auto dest: set_takeWhileD set_dropWhileD)
  ultimately show ?thesis unfolding define_property_def by (simp del: takeWhile_dropWhile_id)
qed

section \<open>What a codec keeps of a value\<close>

text \<open>
  The data of a value: identities, getters and the kinds of objects are forgotten, and
  properties whose value is \<open>undefined\<close> are dropped.
\<close>

fun value_data :: "'o jsv \<Rightarrow> unit jsv" where
  "value_data (JArr _ _ vs) = JArr () PlainArray (map value_data vs)"
| "value_data (JObj _ _ es) =
     JObj () plain_object
       (map (\<lambda>(k, v). (k, value_data v)) (filter (\<lambda>(k, v). \<not> is_undefined v) es))"
| "value_data (JGetter v) = value_data v"
| "value_data (JBool b) = JBool b"
| "value_data (JNum n) = JNum n"
| "value_data (JStr s) = JStr s"
| "value_data (JBytes bs) = JBytes bs"
| "value_data (JExotic x) = JExotic x"
| "value_data JNull = JNull"
| "value_data JHole = JHole"
| "value_data JUndefined = JUndefined"

text \<open>Values whose numbers are canonical and whose objects list their keys in order.\<close>

fun proper_value :: "'o jsv \<Rightarrow> bool" where
  "proper_value (JNum n) = proper_number n"
| "proper_value (JArr _ _ vs) = (\<forall>v \<in> set vs. proper_value v)"
| "proper_value (JObj _ _ es) =
     (distinct (map fst es) \<and> keys_ordered es \<and> (\<forall>e \<in> set es. proper_value (snd e)))"
| "proper_value (JGetter v) = proper_value v"
| "proper_value _ = True"

lemma is_undefined_value_data: "is_undefined (value_data v) = is_undefined v"
  by (induction v rule: value_data.induct) simp_all

end
