(* ===== verification/Cbor_Encoder.thy ===== *)
theory Cbor_Encoder
  imports Js_Values
begin

text \<open>
  The strict, definite-length CBOR encoder of the protocol package
  (\<open>packages/protocol/src/cbor/options.ts\<close> and \<open>encoder.ts\<close>): the options and their
  validation, the growing byte buffer of \<open>CborWriter\<close> with its capacity and its limit, and
  \<open>encodeValue\<close> with its checks in the order of the code. The buffer is refined to the list of
  bytes written so far, and the whole encoder to a pure function that returns the encoding.
\<close>

section \<open>Options and errors\<close>

definition UINT32_BASE :: nat where "UINT32_BASE = 0x100000000"
definition MAX_UINT32 :: nat where "MAX_UINT32 = 0xFFFFFFFF"
definition MAX_CONFIGURED_DEPTH :: nat where "MAX_CONFIGURED_DEPTH = 512"
definition DEFAULT_MAX_CBOR_BYTE_LENGTH :: int where "DEFAULT_MAX_CBOR_BYTE_LENGTH = 16 * 1024 * 1024"
definition DEFAULT_MAX_CBOR_CONTAINER_LENGTH :: int where "DEFAULT_MAX_CBOR_CONTAINER_LENGTH = 1000000"
definition DEFAULT_MAX_CBOR_DEPTH :: int where "DEFAULT_MAX_CBOR_DEPTH = 64"

record cbor_options =
  opt_maxByteLength :: "js_number option"
  opt_maxContainerLength :: "js_number option"
  opt_maxDepth :: "js_number option"

record resolved_options =
  maxByteLength :: nat
  maxContainerLength :: nat
  maxDepth :: nat

datatype length_kind = ByteString | TextString | ArrayItems | MapEntries

datatype cbor_error =
    RangeError string nat
  | ByteLengthExceeded nat
  | DepthExceeded nat
  | LengthExceeded length_kind nat
  | NumberNotFinite
  | IntegerNotSafe
  | TextNotUnicode
  | ValueCycle
  | ArrayHole
  | KeyNotString
  | UnsupportedValue
  | TrailingData
  | Truncated
  | InvalidUtf8
  | DuplicateKey
  | TagNotSupported
  | BreakNotSupported
  | UnsupportedSimple
  | IndefiniteLength
  | MalformedInformation
  | ArgumentNotSafe

definition resolveLimit :: "string \<Rightarrow> js_number \<Rightarrow> nat \<Rightarrow> cbor_error + nat" where
  "resolveLimit name value maximum = (case value of
      JInt n \<Rightarrow> if \<not> is_safe n \<or> n < 0 \<or> n > int maximum then Inl (RangeError name maximum) else Inr (nat n)
    | JDouble w \<Rightarrow> if unat w = 2 ^ 63 then Inr 0 else Inl (RangeError name maximum))"

definition resolveOptions :: "cbor_options option \<Rightarrow> cbor_error + resolved_options" where
  "resolveOptions options =
     (let pick = (\<lambda>f d. case options of None \<Rightarrow> JInt d | Some o' \<Rightarrow> (case f o' of None \<Rightarrow> JInt d | Some v \<Rightarrow> v))
      in try_bind (resolveLimit ''maxByteLength'' (pick opt_maxByteLength DEFAULT_MAX_CBOR_BYTE_LENGTH) MAX_UINT32)
           (\<lambda>b. try_bind (resolveLimit ''maxContainerLength''
                   (pick opt_maxContainerLength DEFAULT_MAX_CBOR_CONTAINER_LENGTH) MAX_UINT32)
             (\<lambda>c. try_bind (resolveLimit ''maxDepth'' (pick opt_maxDepth DEFAULT_MAX_CBOR_DEPTH) MAX_CONFIGURED_DEPTH)
               (\<lambda>d. Inr \<lparr>maxByteLength = b, maxContainerLength = c, maxDepth = d\<rparr>))))"

section \<open>The writer\<close>

record cbor_writer =
  wr_buffer :: bytes
  wr_offset :: nat
  wr_max :: nat

definition new_writer :: "nat \<Rightarrow> cbor_writer" where
  "new_writer mx = \<lparr>wr_buffer = replicate (min 256 mx) 0, wr_offset = 0, wr_max = mx\<rparr>"

text \<open>
  The doubling loop of \<open>ensureCapacity\<close>. It is only entered when the required length is within
  the limit, and then one iteration is enough: \<open>grow_capacity_returns\<close> below.
\<close>

definition grow_capacity :: "nat \<Rightarrow> nat \<Rightarrow> nat \<Rightarrow> nat" where
  "grow_capacity mx required c = while (\<lambda>c. c < required) (\<lambda>c. min mx (max required (c * 2))) c"

definition ensureCapacity :: "nat \<Rightarrow> cbor_writer \<Rightarrow> cbor_error + cbor_writer" where
  "ensureCapacity additional w =
     (let required = wr_offset w + additional; len = length (wr_buffer w)
      in if required > wr_max w then Inl (ByteLengthExceeded (wr_max w))
         else if required \<le> len then Inr w
         else let capacity = grow_capacity (wr_max w) required (max 1 len)
              in Inr (w\<lparr>wr_buffer := wr_buffer w @ replicate (capacity - len) 0\<rparr>))"

definition writeBytes :: "bytes \<Rightarrow> cbor_writer \<Rightarrow> cbor_error + cbor_writer" where
  "writeBytes bs w = try_bind (ensureCapacity (length bs) w)
     (\<lambda>w. Inr (w\<lparr>wr_buffer := set_bytes (wr_buffer w) (wr_offset w) bs, wr_offset := wr_offset w + length bs\<rparr>))"

definition writeByte :: "nat \<Rightarrow> cbor_writer \<Rightarrow> cbor_error + cbor_writer" where
  "writeByte value w = try_bind (ensureCapacity 1 w)
     (\<lambda>w. Inr (w\<lparr>wr_buffer := (wr_buffer w)[wr_offset w := word_of_nat value], wr_offset := wr_offset w + 1\<rparr>))"

definition writeUint16 :: "nat \<Rightarrow> cbor_writer \<Rightarrow> cbor_error + cbor_writer" where
  "writeUint16 value w = try_bind (ensureCapacity 2 w)
     (\<lambda>w. Inr (w\<lparr>wr_buffer := (wr_buffer w)
          [wr_offset w := word_of_nat (value div 2 ^ 8), wr_offset w + 1 := word_of_nat value],
        wr_offset := wr_offset w + 2\<rparr>))"

definition writeUint32 :: "nat \<Rightarrow> cbor_writer \<Rightarrow> cbor_error + cbor_writer" where
  "writeUint32 value w = try_bind (ensureCapacity 4 w)
     (\<lambda>w. Inr (w\<lparr>wr_buffer := (wr_buffer w)
          [wr_offset w := word_of_nat (value div 2 ^ 24), wr_offset w + 1 := word_of_nat (value div 2 ^ 16),
           wr_offset w + 2 := word_of_nat (value div 2 ^ 8), wr_offset w + 3 := word_of_nat value],
        wr_offset := wr_offset w + 4\<rparr>))"

definition writeUint64 :: "nat \<Rightarrow> cbor_writer \<Rightarrow> cbor_error + cbor_writer" where
  "writeUint64 value w =
     (let high = value div UINT32_BASE; low = value - high * UINT32_BASE
      in try_bind (writeUint32 high w) (writeUint32 low))"

definition writeFloat64 :: "64 word \<Rightarrow> cbor_writer \<Rightarrow> cbor_error + cbor_writer" where
  "writeFloat64 value w = try_bind (ensureCapacity 9 w)
     (\<lambda>w. Inr (w\<lparr>wr_buffer := set_bytes ((wr_buffer w)[wr_offset w := 0xFB]) (wr_offset w + 1) (be_bytes 8 (unat value)),
        wr_offset := wr_offset w + 9\<rparr>))"

definition finish :: "cbor_writer \<Rightarrow> bytes" where
  "finish w = take (wr_offset w) (wr_buffer w)"

section \<open>The encoder\<close>

definition writeArgument :: "nat \<Rightarrow> nat \<Rightarrow> cbor_writer \<Rightarrow> cbor_error + cbor_writer" where
  "writeArgument majorType value w =
     (let prefix = majorType * 2 ^ 5
      in if value < 24 then writeByte (prefix + value) w
         else if value \<le> 0xFF then try_bind (writeByte (prefix + 24) w) (writeByte value)
         else if value \<le> 0xFFFF then try_bind (writeByte (prefix + 25) w) (writeUint16 value)
         else if value \<le> MAX_UINT32 then try_bind (writeByte (prefix + 26) w) (writeUint32 value)
         else try_bind (writeByte (prefix + 27) w) (writeUint64 value))"

definition encodeText :: "resolved_options \<Rightarrow> jstr \<Rightarrow> cbor_writer \<Rightarrow> cbor_error + cbor_writer" where
  "encodeText opts value w =
     (let bs = utf8_encode value
      in if length bs > maxByteLength opts then Inl (LengthExceeded TextString (maxByteLength opts))
         else if utf8_decode bs \<noteq> Some value then Inl TextNotUnicode
         else try_bind (writeArgument 3 (length bs) w) (writeBytes bs))"

definition encodeNumber :: "js_number \<Rightarrow> cbor_writer \<Rightarrow> cbor_error + cbor_writer" where
  "encodeNumber x w =
     (if \<not> is_finite x then Inl NumberNotFinite
      else case x of
        JInt n \<Rightarrow>
          if \<not> is_safe n then Inl IntegerNotSafe
          else if n \<ge> 0 then writeArgument 0 (nat n) w
          else writeArgument 1 (nat (-1 - n)) w
      | JDouble bits \<Rightarrow> writeFloat64 bits w)"

definition isPlainObject :: "object_kind \<Rightarrow> bool" where
  "isPlainObject k \<longleftrightarrow> ok_proto k = ObjectProto \<or> ok_proto k = NullProto"

fun encodeValue :: "resolved_options \<Rightarrow> 'o jsv \<Rightarrow> nat \<Rightarrow> 'o set \<Rightarrow> cbor_writer \<Rightarrow> cbor_error + cbor_writer"
  and encodeElements :: "resolved_options \<Rightarrow> 'o jsv list \<Rightarrow> nat \<Rightarrow> 'o set \<Rightarrow> cbor_writer \<Rightarrow> cbor_error + cbor_writer"
  and encodeEntries :: "resolved_options \<Rightarrow> (jstr \<times> 'o jsv) list \<Rightarrow> nat \<Rightarrow> 'o set \<Rightarrow> cbor_writer \<Rightarrow> cbor_error + cbor_writer"
where
  "encodeValue opts value depth ancestors w =
     (if depth > maxDepth opts then Inl (DepthExceeded (maxDepth opts))
      else case value of
        JNull \<Rightarrow> writeByte 0xF6 w
      | JBool b \<Rightarrow> writeByte (if b then 0xF5 else 0xF4) w
      | JNum x \<Rightarrow> encodeNumber x w
      | JStr s \<Rightarrow> encodeText opts s w
      | JBytes bs \<Rightarrow>
          if length bs > maxByteLength opts then Inl (LengthExceeded ByteString (maxByteLength opts))
          else try_bind (writeArgument 2 (length bs) w) (writeBytes bs)
      | JArr i _ vs \<Rightarrow>
          if i \<in> ancestors then Inl ValueCycle
          else if length vs > maxContainerLength opts then Inl (LengthExceeded ArrayItems (maxContainerLength opts))
          else try_bind (writeArgument 4 (length vs) w) (encodeElements opts vs depth (insert i ancestors))
      | JObj i k es \<Rightarrow>
          if \<not> isPlainObject k then Inl UnsupportedValue
          else if i \<in> ancestors then Inl ValueCycle
          else if ok_symbols k = VisibleSymbols then Inl KeyNotString
          else let n = length (filter (\<lambda>(_, v). \<not> is_undefined v) es)
               in if n > maxContainerLength opts then Inl (LengthExceeded MapEntries (maxContainerLength opts))
                  else try_bind (writeArgument 5 n w) (encodeEntries opts es depth (insert i ancestors))
      | JGetter v \<Rightarrow> encodeValue opts v depth ancestors w
      | JUndefined \<Rightarrow> Inl UnsupportedValue
      | JHole \<Rightarrow> Inl UnsupportedValue
      | JExotic _ \<Rightarrow> Inl UnsupportedValue)"
| "encodeElements opts [] depth ancestors w = Inr w"
| "encodeElements opts (v # vs) depth ancestors w =
     (if is_undefined v then Inl ArrayHole
      else try_bind (encodeValue opts v (depth + 1) ancestors w) (encodeElements opts vs depth ancestors))"
| "encodeEntries opts [] depth ancestors w = Inr w"
| "encodeEntries opts ((k, v) # es) depth ancestors w =
     (if is_undefined v then encodeEntries opts es depth ancestors w
      else try_bind (encodeText opts k w)
        (\<lambda>w. try_bind (encodeValue opts v (depth + 1) ancestors w) (encodeEntries opts es depth ancestors)))"

declare encodeValue.simps [simp del]

definition encodeCbor :: "'o jsv \<Rightarrow> cbor_options option \<Rightarrow> cbor_error + bytes" where
  "encodeCbor value options = try_bind (resolveOptions options)
     (\<lambda>resolved. try_bind (encodeValue resolved value 0 {} (new_writer (maxByteLength resolved)))
       (\<lambda>w. Inr (finish w)))"

section \<open>The writer refines appending to a byte list\<close>

definition wf_writer :: "cbor_writer \<Rightarrow> bool" where
  "wf_writer w \<longleftrightarrow> wr_offset w \<le> length (wr_buffer w) \<and> length (wr_buffer w) \<le> wr_max w"

text \<open>
  \<open>writes f bs\<close>: on a well-formed writer \<open>f\<close> appends exactly \<open>bs\<close> when they fit in the limit,
  and otherwise throws the limit error.
\<close>

definition writes :: "(cbor_writer \<Rightarrow> cbor_error + cbor_writer) \<Rightarrow> bytes \<Rightarrow> bool" where
  "writes f bs \<longleftrightarrow> (\<forall>w. wf_writer w \<longrightarrow>
     (if wr_offset w + length bs \<le> wr_max w
      then (\<exists>w'. f w = Inr w' \<and> wf_writer w' \<and> finish w' = finish w @ bs
              \<and> wr_offset w' = wr_offset w + length bs \<and> wr_max w' = wr_max w)
      else f w = Inl (ByteLengthExceeded (wr_max w))))"

lemma grow_capacity_returns:
  fixes c required mx :: nat
  assumes "required \<le> mx" and "c \<le> mx"
  shows "\<exists>c'. while_option (\<lambda>c. c < required) (\<lambda>c. min mx (max required (c * 2))) c = Some c'
           \<and> required \<le> c' \<and> c' \<le> mx \<and> c \<le> c'"
proof (cases "c < required")
  case True
  then have "\<not> min mx (max required (c * 2)) < required" using assms(1) by auto
  then have "while_option (\<lambda>c. c < required) (\<lambda>c. min mx (max required (c * 2))) c
      = Some (min mx (max required (c * 2)))"
    using True by (subst while_option_unfold) (simp add: while_option_unfold)
  then show ?thesis using assms True by auto
next
  case False
  then show ?thesis using assms by (simp add: while_option_unfold)
qed

lemma grow_capacity_bounds:
  assumes "required \<le> mx" and "c \<le> mx"
  shows "required \<le> grow_capacity mx required c \<and> grow_capacity mx required c \<le> mx \<and> c \<le> grow_capacity mx required c"
  using grow_capacity_returns [OF assms] by (auto simp: grow_capacity_def while_def)

lemma ensureCapacity_ok:
  assumes "wf_writer w" and "wr_offset w + n \<le> wr_max w"
  obtains w' where "ensureCapacity n w = Inr w'" and "wf_writer w'" and "finish w' = finish w"
    and "wr_offset w' = wr_offset w" and "wr_max w' = wr_max w" and "wr_offset w + n \<le> length (wr_buffer w')"
proof (cases "wr_offset w + n \<le> length (wr_buffer w)")
  case True
  with assms show ?thesis by (intro that) (auto simp: ensureCapacity_def Let_def)
next
  case False
  let ?c = "grow_capacity (wr_max w) (wr_offset w + n) (max 1 (length (wr_buffer w)))"
  have "max 1 (length (wr_buffer w)) \<le> wr_max w"
    using assms False by (auto simp: wf_writer_def)
  note c = grow_capacity_bounds [OF assms(2) this]
  let ?w' = "w\<lparr>wr_buffer := wr_buffer w @ replicate (?c - length (wr_buffer w)) 0\<rparr>"
  have "ensureCapacity n w = Inr ?w'"
    using False assms by (simp add: ensureCapacity_def Let_def)
  moreover have "wf_writer ?w'" using assms c by (auto simp: wf_writer_def)
  moreover have "finish ?w' = finish w" using assms by (simp add: finish_def wf_writer_def)
  ultimately show ?thesis using c by (intro that [of ?w']) auto
qed

lemma ensureCapacity_full:
  "wr_max w < wr_offset w + n \<Longrightarrow> ensureCapacity n w = Inl (ByteLengthExceeded (wr_max w))"
  by (simp add: ensureCapacity_def Let_def)

text \<open>Every primitive write stores its bytes at the offset, like \<open>set_bytes\<close>.\<close>

lemma writes_store:
  assumes "\<And>w. f w = try_bind (ensureCapacity (length bs) w)
      (\<lambda>w. Inr (w\<lparr>wr_buffer := g w, wr_offset := wr_offset w + length bs\<rparr>))"
    and "\<And>w. wr_offset w + length bs \<le> length (wr_buffer w) \<Longrightarrow>
      g w = set_bytes (wr_buffer w) (wr_offset w) bs"
  shows "writes f bs"
  unfolding writes_def
proof (intro allI impI)
  fix w assume wf: "wf_writer w"
  show "if wr_offset w + length bs \<le> wr_max w
        then \<exists>w'. f w = Inr w' \<and> wf_writer w' \<and> finish w' = finish w @ bs
              \<and> wr_offset w' = wr_offset w + length bs \<and> wr_max w' = wr_max w
        else f w = Inl (ByteLengthExceeded (wr_max w))"
  proof (cases "wr_offset w + length bs \<le> wr_max w")
    case True
    from ensureCapacity_ok [OF wf True] obtain v where
      v: "ensureCapacity (length bs) w = Inr v" "wf_writer v" "finish v = finish w"
        "wr_offset v = wr_offset w" "wr_max v = wr_max w" "wr_offset w + length bs \<le> length (wr_buffer v)" .
    have "g v = take (wr_offset v) (wr_buffer v) @ bs @ drop (wr_offset v + length bs) (wr_buffer v)"
      using assms(2) [of v] v by (simp add: set_bytes_def)
    moreover have "min (length (wr_buffer w)) (wr_offset w) = wr_offset w"
      using wf by (simp add: wf_writer_def)
    ultimately show ?thesis using True v assms(1) [of w]
      by (auto simp: wf_writer_def finish_def)
  next
    case False
    then show ?thesis using assms(1) [of w] by (simp add: ensureCapacity_full)
  qed
qed

lemma set_bytes_Cons:
  "off < length buf \<Longrightarrow> set_bytes (buf[off := b]) (Suc off) bs = set_bytes buf off (b # bs)"
  by (simp add: set_bytes_def take_Suc_conv_app_nth nth_list_update)

lemma set_bytes_Nil [simp]: "set_bytes buf off [] = buf"
  by (simp add: set_bytes_def)

lemma set_bytes_1: "off < length buf \<Longrightarrow> buf[off := a] = set_bytes buf off [a]"
  using set_bytes_Cons [of off buf a "[]"] by simp

lemma list_update_chain:
  "off + 2 \<le> length buf \<Longrightarrow> buf[off := a, off + 1 := b] = set_bytes buf off [a, b]"
  "off + 4 \<le> length buf \<Longrightarrow>
    buf[off := a, off + 1 := b, off + 2 := c, off + 3 := d] = set_bytes buf off [a, b, c, d]"
proof -
  show "off + 2 \<le> length buf \<Longrightarrow> buf[off := a, off + 1 := b] = set_bytes buf off [a, b]"
    using set_bytes_Cons [of off buf a "[b]"] set_bytes_1 [of "off + 1" "buf[off := a]" b] by simp
  show "off + 4 \<le> length buf \<Longrightarrow>
    buf[off := a, off + 1 := b, off + 2 := c, off + 3 := d] = set_bytes buf off [a, b, c, d]"
    using set_bytes_Cons [of off buf a "[b, c, d]"] set_bytes_Cons [of "off + 1" "buf[off := a]" b "[c, d]"]
      set_bytes_Cons [of "off + 2" "buf[off := a, off + 1 := b]" c "[d]"]
      set_bytes_1 [of "off + 3" "buf[off := a, off + 1 := b, off + 2 := c]" d]
    by (simp add: numeral_eq_Suc)
qed

end
