(* ===== verification/Cbor_Format.thy ===== *)
theory Cbor_Format
  imports Cbor_Encoder
begin

text \<open>
  The abstract encoding that the encoder implements: \<open>cbor_bytes\<close> is the RFC 8949 encoding of
  the data of a value with shortest heads and definite lengths, \<open>encodable\<close> says which values
  the options admit. The encoder succeeds exactly on the encodable values whose encoding fits,
  and then produces that encoding.
\<close>

section \<open>The format\<close>

definition cbor_head :: "nat \<Rightarrow> nat \<Rightarrow> bytes" where
  "cbor_head major n =
     (if n < 24 then [word_of_nat (major * 32 + n)]
      else if n < 2 ^ 8 then word_of_nat (major * 32 + 24) # be_bytes 1 n
      else if n < 2 ^ 16 then word_of_nat (major * 32 + 25) # be_bytes 2 n
      else if n < 2 ^ 32 then word_of_nat (major * 32 + 26) # be_bytes 4 n
      else word_of_nat (major * 32 + 27) # be_bytes 8 n)"

definition text_bytes :: "jstr \<Rightarrow> bytes" where
  "text_bytes s = cbor_head 3 (length (utf8_encode s)) @ utf8_encode s"

fun number_bytes :: "js_number \<Rightarrow> bytes" where
  "number_bytes (JInt n) = (if 0 \<le> n then cbor_head 0 (nat n) else cbor_head 1 (nat (-1 - n)))"
| "number_bytes (JDouble bits) = 0xFB # be_bytes 8 (unat bits)"

fun cbor_bytes :: "unit jsv \<Rightarrow> bytes" where
  "cbor_bytes JNull = [0xF6]"
| "cbor_bytes (JBool b) = [if b then 0xF5 else 0xF4]"
| "cbor_bytes (JNum x) = number_bytes x"
| "cbor_bytes (JStr s) = text_bytes s"
| "cbor_bytes (JBytes bs) = cbor_head 2 (length bs) @ bs"
| "cbor_bytes (JArr _ _ vs) = cbor_head 4 (length vs) @ concat (map cbor_bytes vs)"
| "cbor_bytes (JObj _ _ es) =
     cbor_head 5 (length es) @ concat (map (\<lambda>(k, v). text_bytes k @ cbor_bytes v) es)"
| "cbor_bytes _ = []"

section \<open>Encodable values\<close>

definition text_ok :: "resolved_options \<Rightarrow> jstr \<Rightarrow> bool" where
  "text_ok opts s \<longleftrightarrow> length (utf8_encode s) \<le> maxByteLength opts \<and> well_formed s"

fun number_ok :: "js_number \<Rightarrow> bool" where
  "number_ok (JInt n) = is_safe n"
| "number_ok (JDouble w) = is_finite (JDouble w)"

definition defined_entries :: "(jstr \<times> 'o jsv) list \<Rightarrow> (jstr \<times> 'o jsv) list" where
  "defined_entries es = filter (\<lambda>(_, v). \<not> is_undefined v) es"

fun encodable :: "resolved_options \<Rightarrow> nat \<Rightarrow> 'o set \<Rightarrow> 'o jsv \<Rightarrow> bool" where
  "encodable opts d A (JArr i k vs) =
     (d \<le> maxDepth opts \<and> i \<notin> A \<and> length vs \<le> maxContainerLength opts
      \<and> (\<forall>v \<in> set vs. \<not> is_undefined v \<and> encodable opts (d + 1) (insert i A) v))"
| "encodable opts d A (JObj i k es) =
     (d \<le> maxDepth opts \<and> isPlainObject k \<and> i \<notin> A \<and> ok_symbols k \<noteq> VisibleSymbols
      \<and> length (defined_entries es) \<le> maxContainerLength opts
      \<and> (\<forall>e \<in> set es. \<not> is_undefined (snd e) \<longrightarrow>
            text_ok opts (fst e) \<and> encodable opts (d + 1) (insert i A) (snd e)))"
| "encodable opts d A (JGetter v) = encodable opts d A v"
| "encodable opts d A (JNum x) = (d \<le> maxDepth opts \<and> number_ok x)"
| "encodable opts d A (JStr s) = (d \<le> maxDepth opts \<and> text_ok opts s)"
| "encodable opts d A (JBytes bs) = (d \<le> maxDepth opts \<and> length bs \<le> maxByteLength opts)"
| "encodable opts d A JNull = (d \<le> maxDepth opts)"
| "encodable opts d A (JBool b) = (d \<le> maxDepth opts)"
| "encodable opts d A _ = False"

section \<open>The primitive writes\<close>

lemma writes_writeBytes: "writes (writeBytes bs) bs"
  by (rule writes_store [where g = "\<lambda>w. set_bytes (wr_buffer w) (wr_offset w) bs"])
    (simp_all add: writeBytes_def)

lemma writes_writeByte: "writes (writeByte n) [word_of_nat n]"
  by (rule writes_store [where g = "\<lambda>w. (wr_buffer w)[wr_offset w := word_of_nat n]"])
    (simp_all add: writeByte_def set_bytes_1)

lemma writes_writeUint16: "writes (writeUint16 n) (be_bytes 2 n)"
  by (rule writes_store [where g = "\<lambda>w. (wr_buffer w)
          [wr_offset w := word_of_nat (n div 2 ^ 8), wr_offset w + 1 := word_of_nat n]"])
    (simp add: writeUint16_def, unfold be_bytes_2, rule list_update_chain, simp)

lemma writes_writeUint32: "writes (writeUint32 n) (be_bytes 4 n)"
  by (rule writes_store [where g = "\<lambda>w. (wr_buffer w)
          [wr_offset w := word_of_nat (n div 2 ^ 24), wr_offset w + 1 := word_of_nat (n div 2 ^ 16),
           wr_offset w + 2 := word_of_nat (n div 2 ^ 8), wr_offset w + 3 := word_of_nat n]"])
    (simp add: writeUint32_def, unfold be_bytes_4, rule list_update_chain, simp)

lemma writes_writeFloat64: "writes (writeFloat64 x) (0xFB # be_bytes 8 (unat x))"
  by (rule writes_store [where g = "\<lambda>w. set_bytes ((wr_buffer w)[wr_offset w := 0xFB]) (wr_offset w + 1) (be_bytes 8 (unat x))"])
    (simp_all add: writeFloat64_def set_bytes_Cons)

text \<open>Sequences of writes append the concatenation.\<close>

lemma writes_seq:
  assumes "writes f as" and "writes g bs"
  shows "writes (\<lambda>w. try_bind (f w) g) (as @ bs)"
  unfolding writes_def
proof (intro allI impI)
  fix w assume wf: "wf_writer w"
  show "if wr_offset w + length (as @ bs) \<le> wr_max w
        then \<exists>w'. try_bind (f w) g = Inr w' \<and> wf_writer w' \<and> finish w' = finish w @ as @ bs
              \<and> wr_offset w' = wr_offset w + length (as @ bs) \<and> wr_max w' = wr_max w
        else try_bind (f w) g = Inl (ByteLengthExceeded (wr_max w))"
  proof (cases "wr_offset w + length as \<le> wr_max w")
    case True
    with assms(1) wf obtain v where v: "f w = Inr v" "wf_writer v" "finish v = finish w @ as"
        "wr_offset v = wr_offset w + length as" "wr_max v = wr_max w"
      unfolding writes_def by metis
    have "if wr_offset v + length bs \<le> wr_max v
      then (\<exists>w'. g v = Inr w' \<and> wf_writer w' \<and> finish w' = finish v @ bs
              \<and> wr_offset w' = wr_offset v + length bs \<and> wr_max w' = wr_max v)
      else g v = Inl (ByteLengthExceeded (wr_max v))"
      using assms(2) v(2) unfolding writes_def by blast
    with v show ?thesis by (auto simp: add.assoc)
  next
    case False
    then have "f w = Inl (ByteLengthExceeded (wr_max w))"
      using assms(1) wf unfolding writes_def by metis
    with False show ?thesis by simp
  qed
qed

lemma writes_Nil: "writes Inr []"
  by (simp add: writes_def wf_writer_def)

lemma writes_writeUint64: "n < 2 ^ 64 \<Longrightarrow> writes (writeUint64 n) (be_bytes 8 n)"
proof -
  assume "n < 2 ^ 64"
  have e: "be_bytes 8 n = be_bytes 4 (n div UINT32_BASE) @ be_bytes 4 (n - n div UINT32_BASE * UINT32_BASE)"
    using be_bytes_add [of 4 4 n] be_bytes_mod [of 4 n]
    by (simp add: UINT32_BASE_def minus_div_mult_eq_mod)
  have "writeUint64 n = (\<lambda>w. try_bind (writeUint32 (n div UINT32_BASE) w) (writeUint32 (n - n div UINT32_BASE * UINT32_BASE)))"
    by (simp add: writeUint64_def Let_def fun_eq_iff)
  then show ?thesis unfolding e by (simp only: writes_seq writes_writeUint32)
qed

lemma writes_writeArgument: "n < 2 ^ 64 \<Longrightarrow> writes (writeArgument m n) (cbor_head m n)"
proof -
  assume "n < 2 ^ 64"
  note seq = writes_seq [OF writes_writeByte [of "m * 32 + _"], unfolded append_Cons append_Nil]
  have b1: "be_bytes (Suc 0) n = [word_of_nat n]" by simp
  consider "n < 24" | "24 \<le> n" "n < 2 ^ 8" | "2 ^ 8 \<le> n" "n < 2 ^ 16" | "2 ^ 16 \<le> n" "n < 2 ^ 32" | "2 ^ 32 \<le> n"
    by linarith
  then show ?thesis
  proof cases
    case 1
    then have "writeArgument m n = writeByte (m * 32 + n)" by (simp add: writeArgument_def fun_eq_iff)
    with 1 show ?thesis using writes_writeByte by (simp add: cbor_head_def del: of_nat_add of_nat_mult)
  next
    case 2
    then have "writeArgument m n = (\<lambda>w. try_bind (writeByte (m * 32 + 24) w) (writeByte n))"
      by (simp add: writeArgument_def fun_eq_iff)
    with 2 show ?thesis using seq [OF writes_writeByte, of 24 n] by (simp add: cbor_head_def b1 del: be_bytes.simps of_nat_add of_nat_mult)
  next
    case 3
    then have "writeArgument m n = (\<lambda>w. try_bind (writeByte (m * 32 + 25) w) (writeUint16 n))"
      by (simp add: writeArgument_def fun_eq_iff)
    with 3 show ?thesis using seq [OF writes_writeUint16, of 25 n] by (simp add: cbor_head_def del: of_nat_add of_nat_mult)
  next
    case 4
    then have "writeArgument m n = (\<lambda>w. try_bind (writeByte (m * 32 + 26) w) (writeUint32 n))"
      by (simp add: writeArgument_def fun_eq_iff MAX_UINT32_def)
    with 4 show ?thesis using seq [OF writes_writeUint32, of 26 n] by (simp add: cbor_head_def del: of_nat_add of_nat_mult)
  next
    case 5
    then have "writeArgument m n = (\<lambda>w. try_bind (writeByte (m * 32 + 27) w) (writeUint64 n))"
      by (simp add: writeArgument_def fun_eq_iff MAX_UINT32_def)
    with 5 show ?thesis using seq [OF writes_writeUint64 [OF \<open>n < 2 ^ 64\<close>], of 27] by (simp add: cbor_head_def del: of_nat_add of_nat_mult)
  qed
qed

section \<open>The encoder implements the format\<close>

definition options_ok :: "resolved_options \<Rightarrow> bool" where
  "options_ok opts \<longleftrightarrow> maxByteLength opts \<le> MAX_UINT32 \<and> maxContainerLength opts \<le> MAX_UINT32
     \<and> maxDepth opts \<le> MAX_CONFIGURED_DEPTH"

lemma resolveLimit_le: "resolveLimit name v m = Inr n \<Longrightarrow> n \<le> m"
  by (auto simp: resolveLimit_def split: js_number.splits if_splits)

lemma resolveOptions_ok: "resolveOptions options = Inr opts \<Longrightarrow> options_ok opts"
  by (auto simp: resolveOptions_def Let_def try_bind_eq_Inr options_ok_def dest: resolveLimit_le)

lemma options_ok_less:
  assumes "options_ok opts"
  shows "n \<le> maxByteLength opts \<Longrightarrow> n < 2 ^ 64" and "n \<le> maxContainerLength opts \<Longrightarrow> n < 2 ^ 64"
  using assms by (simp_all add: options_ok_def MAX_UINT32_def)

text \<open>A head followed by its content, for lengths within the limits.\<close>

lemma writes_head:
  assumes "options_ok opts" and "writes g bs"
  shows "n \<le> maxByteLength opts \<Longrightarrow> writes (\<lambda>w. try_bind (writeArgument m n w) g) (cbor_head m n @ bs)"
    and "n \<le> maxContainerLength opts \<Longrightarrow> writes (\<lambda>w. try_bind (writeArgument m n w) g) (cbor_head m n @ bs)"
  using assms by (auto intro!: writes_seq writes_writeArgument dest: options_ok_less)

lemma safe_less: "is_safe n \<Longrightarrow> 0 \<le> n \<Longrightarrow> nat n < 2 ^ 64"
  "is_safe n \<Longrightarrow> n < 0 \<Longrightarrow> nat (-1 - n) < 2 ^ 64"
  by (auto simp: is_safe_def max_safe_def)

lemma writes_encodeText:
  assumes "options_ok opts" and "text_ok opts s"
  shows "writes (encodeText opts s) (text_bytes s)"
proof -
  have "encodeText opts s = (\<lambda>w. try_bind (writeArgument 3 (length (utf8_encode s)) w) (writeBytes (utf8_encode s)))"
    using assms(2) by (auto simp: encodeText_def text_ok_def utf8_round_trip_iff fun_eq_iff Let_def)
  then show ?thesis
    using assms by (simp add: text_bytes_def writes_head writes_writeBytes text_ok_def)
qed

lemma encodeText_Inr: "encodeText opts s w = Inr w' \<Longrightarrow> text_ok opts s"
  by (auto simp: encodeText_def text_ok_def utf8_round_trip_iff Let_def split: if_splits)

lemma writes_encodeNumber:
  assumes "number_ok x"
  shows "writes (encodeNumber x) (number_bytes x)"
proof (cases x)
  case (JInt n)
  then have "is_safe n" using assms by simp
  then have "encodeNumber x = (if 0 \<le> n then writeArgument 0 (nat n) else writeArgument 1 (nat (-1 - n)))"
    by (auto simp: encodeNumber_def JInt fun_eq_iff)
  then show ?thesis
    using safe_less [OF \<open>is_safe n\<close>] by (auto simp: JInt intro: writes_writeArgument)
next
  case (JDouble bits)
  then have "encodeNumber x = writeFloat64 bits"
    using assms by (auto simp: encodeNumber_def fun_eq_iff)
  then show ?thesis by (simp add: JDouble writes_writeFloat64)
qed

lemma encodeNumber_Inr: "encodeNumber x w = Inr w' \<Longrightarrow> number_ok x"
  by (cases x) (auto simp: encodeNumber_def split: if_splits)

lemma writes_encodeElements:
  "\<forall>v \<in> set vs. \<not> is_undefined v \<and> writes (encodeValue opts v (d + 1) A) (f v) \<Longrightarrow>
    writes (encodeElements opts vs d A) (concat (map f vs))"
proof (induction vs)
  case Nil
  have "encodeElements opts [] d A = Inr" by (simp add: fun_eq_iff)
  then show ?case by (simp add: writes_Nil)
next
  case (Cons v vs)
  then have "encodeElements opts (v # vs) d A
      = (\<lambda>w. try_bind (encodeValue opts v (d + 1) A w) (encodeElements opts vs d A))"
    by (auto simp: fun_eq_iff)
  then show ?case using Cons by (simp add: writes_seq)
qed

lemma writes_encodeEntries:
  "\<forall>e \<in> set (defined_entries es). writes (encodeText opts (fst e)) (text_bytes (fst e))
      \<and> writes (encodeValue opts (snd e) (d + 1) A) (f (snd e)) \<Longrightarrow>
    writes (encodeEntries opts es d A) (concat (map (\<lambda>(k, v). text_bytes k @ f v) (defined_entries es)))"
proof (induction es)
  case Nil
  have "encodeEntries opts [] d A = Inr" by (simp add: fun_eq_iff)
  then show ?case by (simp add: writes_Nil defined_entries_def)
next
  case (Cons e es)
  obtain k v where e: "e = (k, v)" by fastforce
  let ?g = "\<lambda>(k, v). text_bytes k @ f v"
  have IH: "writes (encodeEntries opts es d A) (concat (map ?g (defined_entries es)))"
    by (rule Cons.IH) (use Cons.prems in \<open>auto simp: defined_entries_def\<close>)
  show ?case
  proof (cases "is_undefined v")
    case True
    then have "encodeEntries opts (e # es) d A = encodeEntries opts es d A" by (simp add: e fun_eq_iff)
    moreover have "defined_entries (e # es) = defined_entries es" using True by (simp add: e defined_entries_def)
    ultimately show ?thesis using IH by simp
  next
    case False
    then have "encodeEntries opts (e # es) d A
      = (\<lambda>w. try_bind (encodeText opts k w)
          (\<lambda>w. try_bind (encodeValue opts v (d + 1) A w) (encodeEntries opts es d A)))"
      by (simp add: e fun_eq_iff)
    moreover have "defined_entries (e # es) = (k, v) # defined_entries es"
      using False by (simp add: e defined_entries_def)
    ultimately show ?thesis using Cons.prems IH by (simp add: writes_seq)
  qed
qed

lemma cbor_bytes_object:
  "cbor_bytes (value_data (JObj i k es)) = cbor_head 5 (length (defined_entries es))
     @ concat (map (\<lambda>(k, v). text_bytes k @ cbor_bytes (value_data v)) (defined_entries es))"
  by (simp add: defined_entries_def comp_def case_prod_beta' prod.case_eq_if)

lemma encodeValue_within:
  "d \<le> maxDepth opts \<Longrightarrow> encodeValue opts (JArr i k vs) d A =
     (\<lambda>w. if i \<in> A then Inl ValueCycle
      else if length vs > maxContainerLength opts then Inl (LengthExceeded ArrayItems (maxContainerLength opts))
      else try_bind (writeArgument 4 (length vs) w) (encodeElements opts vs d (insert i A)))"
  "d \<le> maxDepth opts \<Longrightarrow> encodeValue opts (JGetter v) d A = encodeValue opts v d A"
  by (simp_all add: encodeValue.simps fun_eq_iff)

lemma encodable_depth: "encodable opts d A v \<Longrightarrow> d \<le> maxDepth opts"
  by (induction opts d A v rule: encodable.induct) simp_all

lemma writes_encodeValue:
  assumes "options_ok opts"
  shows "encodable opts d A v \<Longrightarrow> writes (encodeValue opts v d A) (cbor_bytes (value_data v))"
proof (induction v arbitrary: d A)
  case JNull
  then have "encodeValue opts JNull d A = writeByte 0xF6" by (simp add: encodeValue.simps fun_eq_iff)
  then show ?case using writes_writeByte [of "0xF6"] by simp
next
  case (JBool b)
  then have "encodeValue opts (JBool b) d A = writeByte (if b then 0xF5 else 0xF4)"
    by (simp add: encodeValue.simps fun_eq_iff)
  then show ?case using writes_writeByte [of "if b then 0xF5 else 0xF4"] by (cases b) simp_all
next
  case (JNum x)
  then have "encodeValue opts (JNum x) d A = encodeNumber x" by (simp add: encodeValue.simps fun_eq_iff)
  then show ?case using JNum by (simp add: writes_encodeNumber)
next
  case (JStr s)
  then have "encodeValue opts (JStr s) d A = encodeText opts s" by (simp add: encodeValue.simps fun_eq_iff)
  then show ?case using JStr assms by (simp add: writes_encodeText)
next
  case (JBytes bs)
  then have "encodeValue opts (JBytes bs) d A = (\<lambda>w. try_bind (writeArgument 2 (length bs) w) (writeBytes bs))"
    by (simp add: encodeValue.simps fun_eq_iff)
  then show ?case using JBytes assms
    by (simp add: writes_head writes_writeBytes)
next
  case (JArr i k vs)
  then have "encodeValue opts (JArr i k vs) d A
      = (\<lambda>w. try_bind (writeArgument 4 (length vs) w) (encodeElements opts vs d (insert i A)))"
    by (simp add: encodeValue_within fun_eq_iff)
  moreover have "writes (encodeElements opts vs d (insert i A)) (concat (map (\<lambda>v. cbor_bytes (value_data v)) vs))"
    using JArr by (intro writes_encodeElements) auto
  ultimately show ?case using JArr.prems assms
    by (simp add: writes_head comp_def)
next
  case (JObj i k es)
  then have "encodeValue opts (JObj i k es) d A
      = (\<lambda>w. try_bind (writeArgument 5 (length (defined_entries es)) w) (encodeEntries opts es d (insert i A)))"
    by (simp add: encodeValue.simps fun_eq_iff Let_def defined_entries_def)
  moreover have "writes (encodeEntries opts es d (insert i A))
      (concat (map (\<lambda>(k, v). text_bytes k @ cbor_bytes (value_data v)) (defined_entries es)))"
  proof (rule writes_encodeEntries, rule ballI)
    fix e assume "e \<in> set (defined_entries es)"
    then have e: "e \<in> set es" "\<not> is_undefined (snd e)" by (auto simp: defined_entries_def)
    then have ok: "text_ok opts (fst e)" "encodable opts (d + 1) (insert i A) (snd e)"
      using JObj.prems by auto
    have "snd e \<in> Basic_BNFs.snds e" by (cases e) simp
    with JObj.IH e ok show "writes (encodeText opts (fst e)) (text_bytes (fst e))
        \<and> writes (encodeValue opts (snd e) (d + 1) (insert i A)) (cbor_bytes (value_data (snd e)))"
      using assms by (blast intro: writes_encodeText)
  qed
  ultimately show ?case unfolding cbor_bytes_object
    using JObj.prems assms by (simp add: writes_head)
next
  case (JGetter v)
  then have "d \<le> maxDepth opts" by (auto dest: encodable_depth)
  with JGetter show ?case by (simp add: encodeValue_within)
qed simp_all

lemma encodeElements_Inr:
  "encodeElements opts vs d A w = Inr w' \<Longrightarrow> v \<in> set vs \<Longrightarrow>
    \<not> is_undefined v \<and> (\<exists>u u'. encodeValue opts v (d + 1) A u = Inr u')"
  by (induction vs arbitrary: w) (auto simp: try_bind_eq_Inr split: if_splits)

lemma encodeEntries_Inr:
  "encodeEntries opts es d A w = Inr w' \<Longrightarrow> (k, v) \<in> set es \<Longrightarrow> \<not> is_undefined v \<Longrightarrow>
    text_ok opts k \<and> (\<exists>u u'. encodeValue opts v (d + 1) A u = Inr u')"
proof (induction es arbitrary: w)
  case (Cons e es)
  then show ?case by (cases e) (auto simp: try_bind_eq_Inr dest: encodeText_Inr split: if_splits)
qed simp

lemma encodeValue_Inr: "encodeValue opts v d A w = Inr w' \<Longrightarrow> encodable opts d A v"
proof (induction v arbitrary: d A w w')
  case (JArr i k vs)
  then show ?case
    by (auto simp: encodeValue.simps [of opts "JArr i k vs"] try_bind_eq_Inr split: if_splits
        dest!: encodeElements_Inr)
next
  case (JObj i k es)
  then have "d \<le> maxDepth opts" "isPlainObject k" "i \<notin> A" "ok_symbols k \<noteq> VisibleSymbols"
    "length (defined_entries es) \<le> maxContainerLength opts"
    "\<exists>u. encodeEntries opts es d (insert i A) u = Inr w'"
    by (auto simp: encodeValue.simps [of opts "JObj i k es"] try_bind_eq_Inr Let_def defined_entries_def
        split: if_splits)
  moreover from this(6) have "text_ok opts (fst e) \<and> encodable opts (d + 1) (insert i A) (snd e)"
    if "e \<in> set es" "\<not> is_undefined (snd e)" for e
    using encodeEntries_Inr [of opts es d "insert i A" _ w' "fst e" "snd e"] JObj.IH [of e "snd e"] that
    by (cases e) force
  ultimately show ?case by simp
qed (auto simp: encodeValue.simps split: if_splits dest: encodeNumber_Inr encodeText_Inr)

end
