(* ===== verification/Cbor_Decoder.thy ===== *)
theory Cbor_Decoder
  imports Cbor_Format
begin

text \<open>
  The CBOR decoder (\<open>packages/protocol/src/cbor/decoder.ts\<close>): \<open>CborReader\<close> with its offset into
  the payload passed explicitly, every malformed input a thrown error. The theory proves that
  decoding inverts the encoder; what the reader accepts is the matter of Cbor_Reader_Bounds.
\<close>

section \<open>Reading bytes and arguments\<close>

definition readByte :: "bytes \<Rightarrow> nat \<Rightarrow> cbor_error + (nat \<times> nat)" where
  "readByte bs off = (if off \<ge> length bs then Inl Truncated else Inr (unat (bs ! off), off + 1))"

definition readBytes :: "bytes \<Rightarrow> nat \<Rightarrow> nat \<Rightarrow> cbor_error + (bytes \<times> nat)" where
  "readBytes bs len off =
     (if len > length bs - off then Inl Truncated else Inr (take len (drop off bs), off + len))"

text \<open>The two recursive calls of case 27 are calls of case 26.\<close>

definition readUint32 :: "bytes \<Rightarrow> nat \<Rightarrow> cbor_error + (nat \<times> nat)" where
  "readUint32 bs off = try_bind (readBytes bs 4 off)
     (\<lambda>(b, off). Inr (unat (b ! 0) * 0x1000000 + unat (b ! 1) * 0x10000 + unat (b ! 2) * 0x100 + unat (b ! 3), off))"

definition readArgument :: "bytes \<Rightarrow> nat \<Rightarrow> nat \<Rightarrow> cbor_error + (nat \<times> nat)" where
  "readArgument bs info off =
     (if info < 24 then Inr (info, off)
      else if info = 24 then readByte bs off
      else if info = 25 then try_bind (readBytes bs 2 off)
        (\<lambda>(b, off). Inr (unat (b ! 0) * 0x100 + unat (b ! 1), off))
      else if info = 26 then readUint32 bs off
      else if info = 27 then try_bind (readUint32 bs off)
        (\<lambda>(high, off). try_bind (readUint32 bs off)
          (\<lambda>(low, off). if high > 0x1FFFFF then Inl ArgumentNotSafe else Inr (high * UINT32_BASE + low, off)))
      else if info = 31 then Inl IndefiniteLength
      else Inl MalformedInformation)"

definition readLength :: "bytes \<Rightarrow> nat \<Rightarrow> length_kind \<Rightarrow> nat \<Rightarrow> nat \<Rightarrow> cbor_error + (nat \<times> nat)" where
  "readLength bs info kind limit off =
     (if info = 31 then Inl IndefiniteLength
      else try_bind (readArgument bs info off)
        (\<lambda>(len, off). if len > limit then Inl (LengthExceeded kind limit) else Inr (len, off)))"

definition readSimple :: "bytes \<Rightarrow> nat \<Rightarrow> nat \<Rightarrow> cbor_error + (unit jsv \<times> nat)" where
  "readSimple bs info off =
     (if info = 20 then Inr (JBool False, off)
      else if info = 21 then Inr (JBool True, off)
      else if info = 22 then Inr (JNull, off)
      else if info = 27 then try_bind (readBytes bs 8 off)
        (\<lambda>(b, off). let x = double_of_bits (word_of_nat (be_nat b))
          in if \<not> is_finite x then Inl NumberNotFinite
             else case x of
               JInt n \<Rightarrow> if \<not> is_safe n then Inl IntegerNotSafe else Inr (JNum x, off)
             | JDouble _ \<Rightarrow> Inr (JNum x, off))
      else if info = 31 then Inl BreakNotSupported
      else Inl UnsupportedSimple)"

section \<open>Reading items\<close>

function readItem :: "resolved_options \<Rightarrow> bytes \<Rightarrow> nat \<Rightarrow> nat \<Rightarrow> cbor_error + (unit jsv \<times> nat)"
  and readElements :: "resolved_options \<Rightarrow> bytes \<Rightarrow> nat \<Rightarrow> nat \<Rightarrow> nat \<Rightarrow> cbor_error + (unit jsv list \<times> nat)"
  and readEntries :: "resolved_options \<Rightarrow> bytes \<Rightarrow> nat \<Rightarrow> nat \<Rightarrow> jstr set \<Rightarrow> (jstr \<times> unit jsv) list \<Rightarrow> nat \<Rightarrow>
    cbor_error + ((jstr \<times> unit jsv) list \<times> nat)"
where
  "readItem opts bs depth off =
     (if depth > maxDepth opts then Inl (DepthExceeded (maxDepth opts))
      else try_bind (readByte bs off) (\<lambda>(initial, off).
        let majorType = initial div 2 ^ 5; info = initial mod 2 ^ 5
        in if majorType = 0 then try_bind (readArgument bs info off) (\<lambda>(n, off). Inr (JNum (JInt (int n)), off))
           else if majorType = 1 then try_bind (readArgument bs info off)
             (\<lambda>(n, off). let value = -1 - int n
               in if \<not> is_safe value then Inl IntegerNotSafe else Inr (JNum (JInt value), off))
           else if majorType = 2 then try_bind (readLength bs info ByteString (maxByteLength opts) off)
             (\<lambda>(len, off). try_bind (readBytes bs len off) (\<lambda>(b, off). Inr (JBytes b, off)))
           else if majorType = 3 then try_bind (readLength bs info TextString (maxByteLength opts) off)
             (\<lambda>(len, off). try_bind (readBytes bs len off)
               (\<lambda>(b, off). case utf8_decode b of None \<Rightarrow> Inl InvalidUtf8 | Some s \<Rightarrow> Inr (JStr s, off)))
           else if majorType = 4 then try_bind (readLength bs info ArrayItems (maxContainerLength opts) off)
             (\<lambda>(len, off). try_bind (readElements opts bs len (depth + 1) off)
               (\<lambda>(vs, off). Inr (JArr () PlainArray vs, off)))
           else if majorType = 5 then try_bind (readLength bs info MapEntries (maxContainerLength opts) off)
             (\<lambda>(len, off). try_bind (readEntries opts bs len (depth + 1) {} [] off)
               (\<lambda>(es, off). Inr (JObj () plain_object es, off)))
           else if majorType = 6 then Inl TagNotSupported
           else readSimple bs info off))"
| "readElements opts bs 0 depth off = Inr ([], off)"
| "readElements opts bs (Suc n) depth off = try_bind (readItem opts bs depth off)
     (\<lambda>(v, off). try_bind (readElements opts bs n depth off) (\<lambda>(vs, off). Inr (v # vs, off)))"
| "readEntries opts bs 0 depth keys result off = Inr (result, off)"
| "readEntries opts bs (Suc n) depth keys result off = try_bind (readItem opts bs depth off)
     (\<lambda>(key, off). case key of
        JStr k \<Rightarrow>
          if k \<in> keys then Inl DuplicateKey
          else try_bind (readItem opts bs depth off)
            (\<lambda>(v, off). readEntries opts bs n depth (insert k keys) (define_property k v result) off)
      | _ \<Rightarrow> Inl KeyNotString)"
  by pat_completeness auto
termination
  by (relation "measures
      [case_sum (\<lambda>(opts, bs, d, off). Suc (maxDepth opts) - d)
        (case_sum (\<lambda>(opts, bs, n, d, off). Suc (maxDepth opts) - d)
          (\<lambda>(opts, bs, n, d, keys, result, off). Suc (maxDepth opts) - d)),
       case_sum (\<lambda>_. 0)
        (case_sum (\<lambda>(opts, bs, n, d, off). Suc n) (\<lambda>(opts, bs, n, d, keys, result, off). Suc n))]")
    auto

declare readItem.simps [simp del]

definition decodeCbor :: "bytes \<Rightarrow> cbor_options option \<Rightarrow> cbor_error + unit jsv" where
  "decodeCbor bs options = try_bind (resolveOptions options)
     (\<lambda>resolved.
        if length bs > maxByteLength resolved then Inl (ByteLengthExceeded (maxByteLength resolved))
        else try_bind (readItem resolved bs 0 0)
          (\<lambda>(value, off). if off \<noteq> length bs then Inl TrailingData else Inr value))"

section \<open>Decoding inverts the format\<close>

text \<open>
  \<open>reads r bs x\<close>: wherever \<open>bs\<close> stands in a payload, the reader \<open>r\<close> started at its first byte
  returns \<open>x\<close> and stops right behind it.
\<close>

definition reads :: "(bytes \<Rightarrow> nat \<Rightarrow> 'e + ('a \<times> nat)) \<Rightarrow> bytes \<Rightarrow> 'a \<Rightarrow> bool" where
  "reads r bs x \<longleftrightarrow> (\<forall>pre post. r (pre @ bs @ post) (length pre) = Inr (x, length pre + length bs))"

lemma readsD: "reads r bs x \<Longrightarrow> r (pre @ bs @ post) (length pre) = Inr (x, length pre + length bs)"
  by (simp add: reads_def)

lemma reads_seq:
  assumes "reads r as x" and "reads (s x) bs y"
  shows "reads (\<lambda>B off. try_bind (r B off) (\<lambda>(x, off). s x B off)) (as @ bs) y"
  unfolding reads_def
proof (intro allI)
  fix pre post
  show "try_bind (r (pre @ (as @ bs) @ post) (length pre)) (\<lambda>(x, off). s x (pre @ (as @ bs) @ post) off)
      = Inr (y, length pre + length (as @ bs))"
    using readsD [OF assms(1), of pre "bs @ post"] readsD [OF assms(2), of "pre @ as" post]
    by (simp add: add.assoc)
qed

lemma reads_map:
  assumes "reads r bs x"
  shows "reads (\<lambda>B off. try_bind (r B off) (\<lambda>(x, off). Inr (f x, off))) bs (f x)"
  using assms by (simp add: reads_def)

lemma reads_seq_map:
  assumes "reads r as n" and "reads (s n) bs y"
  shows "reads (\<lambda>B off. try_bind (r B off)
    (\<lambda>(n, off). try_bind (s n B off) (\<lambda>(y, off). Inr (f y, off)))) (as @ bs) (f y)"
  using reads_seq [where s = "\<lambda>n B off. try_bind (s n B off) (\<lambda>(y, off). Inr (f y, off))",
      OF assms(1) reads_map [OF assms(2)]] .

lemma reads_readByte: "reads readByte [b] (unat b)"
  by (simp add: reads_def readByte_def nth_append)

lemma reads_readBytes: "reads (\<lambda>B. readBytes B (length bs)) bs bs"
  by (simp add: reads_def readBytes_def)

lemma nth_be_bytes_2: "unat (be_bytes 2 n ! 0) * 0x100 + unat (be_bytes 2 n ! 1) = be_nat (be_bytes 2 n)"
  by (simp add: be_bytes_2)

lemma nth_be_bytes_4: "unat (be_bytes 4 n ! 0) * 0x1000000 + unat (be_bytes 4 n ! 1) * 0x10000
    + unat (be_bytes 4 n ! 2) * 0x100 + unat (be_bytes 4 n ! 3) = be_nat (be_bytes 4 n)"
  by (simp add: be_bytes_4)

lemma reads_readUint32:
  assumes "n < 2 ^ 32"
  shows "reads readUint32 (be_bytes 4 n) n"
proof -
  have "be_nat (be_bytes 4 n) = n" using assms by simp
  note v = nth_be_bytes_4 [of n, unfolded this, simplified]
  show ?thesis using reads_readBytes [of "be_bytes 4 n"] v
    by (simp add: reads_def readUint32_def)
qed

definition head_info :: "nat \<Rightarrow> nat" where
  "head_info n = (if n < 24 then n else if n < 2 ^ 8 then 24 else if n < 2 ^ 16 then 25
     else if n < 2 ^ 32 then 26 else 27)"

definition head_rest :: "nat \<Rightarrow> bytes" where
  "head_rest n = (if n < 24 then [] else if n < 2 ^ 8 then be_bytes 1 n else if n < 2 ^ 16 then be_bytes 2 n
     else if n < 2 ^ 32 then be_bytes 4 n else be_bytes 8 n)"

lemma cbor_head_alt: "cbor_head m n = word_of_nat (m * 32 + head_info n) # head_rest n"
  by (simp add: cbor_head_def head_info_def head_rest_def)

lemma head_info_less: "head_info n < 28"
  by (simp add: head_info_def)

lemma reads_readArgument:
  assumes "n < 2 ^ 53"
  shows "reads (\<lambda>B. readArgument B (head_info n)) (head_rest n) n"
proof -
  consider "n < 24" | "24 \<le> n" "n < 2 ^ 8" | "2 ^ 8 \<le> n" "n < 2 ^ 16" | "2 ^ 16 \<le> n" "n < 2 ^ 32" | "2 ^ 32 \<le> n"
    by linarith
  then show ?thesis
  proof cases
    case 1
    then show ?thesis by (simp add: reads_def readArgument_def head_info_def head_rest_def)
  next
    case 2
    then show ?thesis using reads_readByte [of "word_of_nat n"]
      by (simp add: reads_def readArgument_def head_info_def head_rest_def)
  next
    case 3
    then have "be_nat (be_bytes 2 n) = n" by simp
    then show ?thesis using 3 reads_readBytes [of "be_bytes 2 n"] nth_be_bytes_2 [of n]
      by (simp add: reads_def readArgument_def head_info_def head_rest_def)
  next
    case 4
    then show ?thesis using reads_readUint32 [of n]
      by (simp add: reads_def readArgument_def head_info_def head_rest_def)
  next
    case 5
    define high where "high = n div UINT32_BASE"
    define low where "low = n mod UINT32_BASE"
    have split: "n = high * UINT32_BASE + low" by (simp add: high_def low_def)
    have "low < 2 ^ 32" by (simp add: low_def UINT32_BASE_def)
    moreover have hi: "high \<le> 0x1FFFFF"
    proof -
      have "high < 2 ^ 21" unfolding high_def UINT32_BASE_def
        by (rule less_mult_imp_div_less) (use assms in simp)
      then show ?thesis by simp
    qed
    moreover have "be_bytes 8 n = be_bytes 4 high @ be_bytes 4 low"
      using be_bytes_add [of 4 4 n] be_bytes_mod [of 4 n] by (simp add: high_def low_def UINT32_BASE_def)
    ultimately show ?thesis
      using 5 readsD [OF reads_readUint32 [of high], of _ "be_bytes 4 low @ _"]
        readsD [OF reads_readUint32 [of low], of "_ @ be_bytes 4 high"]
      by (simp add: reads_def readArgument_def head_info_def head_rest_def split [symmetric])
  qed
qed

lemma reads_readLength:
  assumes "n < 2 ^ 53" and "n \<le> limit"
  shows "reads (\<lambda>B. readLength B (head_info n) kind limit) (head_rest n) n"
  using reads_readArgument [OF assms(1)] assms(2) head_info_less [of n]
  by (simp add: reads_def readLength_def)

text \<open>What \<open>readItem\<close> does once the initial byte is split.\<close>

definition readMajor :: "resolved_options \<Rightarrow> nat \<Rightarrow> nat \<Rightarrow> nat \<Rightarrow> bytes \<Rightarrow> nat \<Rightarrow> cbor_error + (unit jsv \<times> nat)" where
  "readMajor opts depth majorType info bs off =
     (if majorType = 0 then try_bind (readArgument bs info off) (\<lambda>(n, off). Inr (JNum (JInt (int n)), off))
           else if majorType = 1 then try_bind (readArgument bs info off)
             (\<lambda>(n, off). let value = -1 - int n
               in if \<not> is_safe value then Inl IntegerNotSafe else Inr (JNum (JInt value), off))
           else if majorType = 2 then try_bind (readLength bs info ByteString (maxByteLength opts) off)
             (\<lambda>(len, off). try_bind (readBytes bs len off) (\<lambda>(b, off). Inr (JBytes b, off)))
           else if majorType = 3 then try_bind (readLength bs info TextString (maxByteLength opts) off)
             (\<lambda>(len, off). try_bind (readBytes bs len off)
               (\<lambda>(b, off). case utf8_decode b of None \<Rightarrow> Inl InvalidUtf8 | Some s \<Rightarrow> Inr (JStr s, off)))
           else if majorType = 4 then try_bind (readLength bs info ArrayItems (maxContainerLength opts) off)
             (\<lambda>(len, off). try_bind (readElements opts bs len (depth + 1) off)
               (\<lambda>(vs, off). Inr (JArr () PlainArray vs, off)))
           else if majorType = 5 then try_bind (readLength bs info MapEntries (maxContainerLength opts) off)
             (\<lambda>(len, off). try_bind (readEntries opts bs len (depth + 1) {} [] off)
               (\<lambda>(es, off). Inr (JObj () plain_object es, off)))
           else if majorType = 6 then Inl TagNotSupported
           else readSimple bs info off)"

lemma readItem_major:
  "readItem opts bs depth off =
     (if depth > maxDepth opts then Inl (DepthExceeded (maxDepth opts))
      else try_bind (readByte bs off)
        (\<lambda>(initial, off). readMajor opts depth (initial div 2 ^ 5) (initial mod 2 ^ 5) bs off))"
  by (subst readItem.simps) (simp add: readMajor_def [abs_def] Let_def)

lemma reads_item_byte:
  assumes "depth \<le> maxDepth opts" and "unat b = m * 32 + info" and "info < 32"
    and "reads (readMajor opts depth m info) bs v"
  shows "reads (\<lambda>B. readItem opts B depth) (b # bs) v"
proof -
  have "unat b div 2 ^ 5 = m" "unat b mod 2 ^ 5 = info" using assms(2,3) by simp_all
  then show ?thesis
    using assms(1) readsD [OF reads_readByte [of b], of _ "bs @ _"] readsD [OF assms(4), of "_ @ [b]"]
    by (simp add: readItem_major reads_def)
qed

lemma reads_item_head:
  assumes "depth \<le> maxDepth opts" and "m < 8" and "reads (readMajor opts depth m (head_info n)) (head_rest n @ bs) v"
  shows "reads (\<lambda>B. readItem opts B depth) (cbor_head m n @ bs) v"
proof -
  have "unat (word_of_nat (m * 32 + head_info n) :: u8) = m * 32 + head_info n"
    using assms(2) head_info_less [of n] by (simp del: of_nat_add of_nat_mult)
  with assms show ?thesis
    unfolding cbor_head_alt append_Cons
    using head_info_less [of n] by (intro reads_item_byte [where m = m and info = "head_info n"]) auto
qed

lemma readMajor_simps:
  "readMajor opts d 0 i = (\<lambda>bs off. try_bind (readArgument bs i off) (\<lambda>(n, off). Inr (JNum (JInt (int n)), off)))"
  "readMajor opts d 2 i = (\<lambda>bs off. try_bind (readLength bs i ByteString (maxByteLength opts) off)
             (\<lambda>(len, off). try_bind (readBytes bs len off) (\<lambda>(b, off). Inr (JBytes b, off))))"
  "readMajor opts d 3 i = (\<lambda>bs off. try_bind (readLength bs i TextString (maxByteLength opts) off)
             (\<lambda>(len, off). try_bind (readBytes bs len off)
               (\<lambda>(b, off). case utf8_decode b of None \<Rightarrow> Inl InvalidUtf8 | Some s \<Rightarrow> Inr (JStr s, off))))"
  "readMajor opts d 4 i = (\<lambda>bs off. try_bind (readLength bs i ArrayItems (maxContainerLength opts) off)
             (\<lambda>(len, off). try_bind (readElements opts bs len (d + 1) off)
               (\<lambda>(vs, off). Inr (JArr () PlainArray vs, off))))"
  "readMajor opts d 5 i = (\<lambda>bs off. try_bind (readLength bs i MapEntries (maxContainerLength opts) off)
             (\<lambda>(len, off). try_bind (readEntries opts bs len (d + 1) {} [] off)
               (\<lambda>(es, off). Inr (JObj () plain_object es, off))))"
  "readMajor opts d 7 i = (\<lambda>bs off. readSimple bs i off)"
  by (simp_all add: readMajor_def fun_eq_iff)

lemma options_ok_53:
  assumes "options_ok opts"
  shows "n \<le> maxByteLength opts \<Longrightarrow> n < 2 ^ 53" and "n \<le> maxContainerLength opts \<Longrightarrow> n < 2 ^ 53"
  using assms by (simp_all add: options_ok_def MAX_UINT32_def)

lemma reads_text:
  assumes "options_ok opts" and "d \<le> maxDepth opts" and "text_ok opts s"
  shows "reads (\<lambda>B. readItem opts B d) (text_bytes s) (JStr s)"
  unfolding text_bytes_def
proof (rule reads_item_head)
  let ?b = "utf8_encode s"
  have "utf8_decode ?b = Some s" using assms(3) by (simp add: text_ok_def utf8_round_trip_iff)
  then have "reads (\<lambda>B off. try_bind (readBytes B (length ?b) off)
      (\<lambda>(b, off). case utf8_decode b of None \<Rightarrow> Inl InvalidUtf8 | Some s \<Rightarrow> Inr (JStr s, off))) ?b (JStr s)"
    using reads_readBytes [of ?b] by (simp add: reads_def)
  moreover have "reads (\<lambda>B. readLength B (head_info (length ?b)) TextString (maxByteLength opts)) (head_rest (length ?b)) (length ?b)"
    using assms by (intro reads_readLength) (auto simp: text_ok_def dest: options_ok_53)
  ultimately show "reads (readMajor opts d 3 (head_info (length ?b))) (head_rest (length ?b) @ ?b) (JStr s)"
    unfolding readMajor_simps by (rule reads_seq [rotated])
qed (use assms in simp_all)

lemma reads_elements:
  "\<forall>v \<in> set vs. reads (\<lambda>B. readItem opts B d) (f v) (g v) \<Longrightarrow>
    reads (\<lambda>B. readElements opts B (length vs) d) (concat (map f vs)) (map g vs)"
proof (induction vs)
  case Nil
  then show ?case by (simp add: reads_def)
next
  case (Cons v vs)
  then have "reads (\<lambda>B. readItem opts B d) (f v) (g v)"
    and "reads (\<lambda>B. readElements opts B (length vs) d) (concat (map f vs)) (map g vs)"
    by simp_all
  from reads_seq [where s = "\<lambda>x B off. try_bind (readElements opts B (length vs) d off)
      (\<lambda>(vs, off). Inr (x # vs, off))", OF this(1) reads_map [OF this(2)]]
  show ?case by simp
qed

lemma reads_entries:
  assumes "options_ok opts"
    and "\<forall>e \<in> set es. d \<le> maxDepth opts \<and> text_ok opts (fst e)
      \<and> reads (\<lambda>B. readItem opts B d) (f (snd e)) (g (snd e))"
    and "distinct (map fst (result @ map (\<lambda>(k, v). (k, g v)) es))"
    and "keys_ordered (result @ map (\<lambda>(k, v). (k, g v)) es)"
  shows "reads (\<lambda>B. readEntries opts B (length es) d (fst ` set result) result)
    (concat (map (\<lambda>(k, v). text_bytes k @ f v) es)) (result @ map (\<lambda>(k, v). (k, g v)) es)"
  using assms(2-)
proof (induction es arbitrary: result)
  case Nil
  then show ?case by (simp add: reads_def)
next
  case (Cons e es)
  obtain k v where e: "e = (k, v)" by fastforce
  have ord: "keys_ordered (result @ [(k, g v)])"
    using Cons.prems(3) by (simp add: e keys_ordered_def sorted_wrt_append)
  note def = keys_ordered_snoc [OF ord]
  have "reads (\<lambda>B. readEntries opts B (length es) d (fst ` set (result @ [(k, g v)])) (result @ [(k, g v)]))
      (concat (map (\<lambda>(k, v). text_bytes k @ f v) es)) ((result @ [(k, g v)]) @ map (\<lambda>(k, v). (k, g v)) es)"
    using Cons.prems by (intro Cons.IH) (simp_all add: e)
  then have rest: "reads (\<lambda>B. readEntries opts B (length es) d (insert k (fst ` set result)) (define_property k (g v) result))
      (concat (map (\<lambda>(k, v). text_bytes k @ f v) es)) (result @ map (\<lambda>(k, v). (k, g v)) (e # es))"
    by (simp add: def e)
  have key: "reads (\<lambda>B. readItem opts B d) (text_bytes k) (JStr k)"
    using Cons.prems(1) assms(1) by (intro reads_text) (simp_all add: e)
  have val: "reads (\<lambda>B. readItem opts B d) (f v) (g v)" using Cons.prems(1) by (simp add: e)
  have "k \<notin> fst ` set result" using Cons.prems(2) by (auto simp: e)
  then show ?case
    using readsD [OF key, of _ "f v @ concat (map (\<lambda>(k, v). text_bytes k @ f v) es) @ _"]
      readsD [OF val, of "_ @ text_bytes k" "concat (map (\<lambda>(k, v). text_bytes k @ f v) es) @ _"]
      readsD [OF rest, of "_ @ text_bytes k @ f v"]
    by (simp add: reads_def e add.assoc)
qed

lemma reads_readSimple_double:
  assumes "proper_number (JDouble w)" and "is_finite (JDouble w)"
  shows "reads (\<lambda>B. readSimple B 27) (be_bytes 8 (unat w)) (JNum (JDouble w))"
proof -
  have "unat w < 256 ^ 8" using unsigned_less [of w] by simp
  then have "word_of_nat (be_nat (be_bytes 8 (unat w))) = w" by simp
  then show ?thesis
    using assms reads_readBytes [of "be_bytes 8 (unat w)"]
    by (auto simp: reads_def readSimple_def Let_def)
qed

lemma reads_number:
  assumes "d \<le> maxDepth opts" and "number_ok x" and "proper_number x"
  shows "reads (\<lambda>B. readItem opts B d) (number_bytes x) (JNum x)"
proof (cases x)
  case (JInt n)
  then have safe: "is_safe n" using assms(2) by simp
  show ?thesis
  proof (cases "0 \<le> n")
    case True
    then have "nat n < 2 ^ 53" using safe by (simp add: is_safe_def max_safe_def)
    from reads_map [OF reads_readArgument [OF this], of "\<lambda>n. JNum (JInt (int n))"]
    have "reads (readMajor opts d 0 (head_info (nat n))) (head_rest (nat n) @ []) (JNum x)"
      using True by (simp add: readMajor_simps JInt)
    from reads_item_head [OF assms(1) _ this] show ?thesis using True by (simp add: JInt)
  next
    case False
    then have "nat (-1 - n) < 2 ^ 53" using safe by (simp add: is_safe_def max_safe_def)
    from reads_readArgument [OF this]
    have "reads (readMajor opts d 1 (head_info (nat (-1 - n)))) (head_rest (nat (-1 - n)) @ []) (JNum x)"
      using False safe by (simp add: readMajor_def reads_def JInt Let_def)
    from reads_item_head [OF assms(1) _ this] show ?thesis using False by (simp add: JInt)
  qed
next
  case (JDouble w)
  then have "reads (readMajor opts d 7 27) (be_bytes 8 (unat w)) (JNum x)"
    using assms reads_readSimple_double [of w] by (simp add: readMajor_simps)
  from reads_item_byte [OF assms(1) _ _ this, of "0xFB"] show ?thesis by (simp add: JDouble)
qed

lemma keys_ordered_filter_map:
  "keys_ordered es \<Longrightarrow> keys_ordered (map (\<lambda>(k, v). (k, g v)) (filter P es))"
  by (simp add: keys_ordered_def sorted_wrt_map split_beta sorted_wrt_filter)

lemma reads_value:
  assumes "options_ok opts"
  shows "encodable opts d A v \<Longrightarrow> proper_value v \<Longrightarrow>
    reads (\<lambda>B. readItem opts B d) (cbor_bytes (value_data v)) (value_data v)"
proof (induction v arbitrary: d A)
  case JNull
  have "reads (readMajor opts d 7 22) [] JNull"
    by (simp add: readMajor_simps readSimple_def reads_def)
  from reads_item_byte [OF _ _ _ this, of "0xF6"] show ?case using JNull by simp
next
  case (JBool b)
  have "reads (readMajor opts d 7 (if b then 21 else 20)) [] (JBool b)"
    by (simp add: readMajor_simps readSimple_def reads_def)
  from reads_item_byte [OF _ _ _ this, of "if b then 0xF5 else 0xF4"] show ?case using JBool by simp
next
  case (JNum x)
  then show ?case by (simp add: reads_number)
next
  case (JStr s)
  then show ?case using assms by (simp add: reads_text)
next
  case (JBytes bs)
  have "reads (readMajor opts d 2 (head_info (length bs))) (head_rest (length bs) @ bs) (JBytes bs)"
    unfolding readMajor_simps
    using JBytes.prems(1) assms
    by (intro reads_seq_map [where f = JBytes and n = "length bs"] reads_readBytes reads_readLength) (auto dest: options_ok_53)
  from reads_item_head [OF _ _ this] show ?case using JBytes.prems by simp
next
  case (JArr i k vs)
  have "reads (\<lambda>B. readElements opts B (length vs) (d + 1))
      (concat (map (\<lambda>v. cbor_bytes (value_data v)) vs)) (map value_data vs)"
    using JArr by (intro reads_elements) auto
  then have "reads (readMajor opts d 4 (head_info (length vs)))
      (head_rest (length vs) @ concat (map (\<lambda>v. cbor_bytes (value_data v)) vs)) (JArr () PlainArray (map value_data vs))"
    unfolding readMajor_simps
    using JArr.prems(1) assms
    by (intro reads_seq_map [where f = "JArr () PlainArray" and n = "length vs"] reads_readLength) (auto dest: options_ok_53)
  from reads_item_head [OF _ _ this] show ?case using JArr.prems by (simp add: comp_def)
next
  case (JObj i k es)
  let ?es = "defined_entries es"
  let ?g = "\<lambda>(k, v). (k, value_data v)"
  have "\<forall>e \<in> set ?es. d + 1 \<le> maxDepth opts \<and> text_ok opts (fst e)
      \<and> reads (\<lambda>B. readItem opts B (d + 1)) (cbor_bytes (value_data (snd e))) (value_data (snd e))"
  proof
    fix e assume "e \<in> set ?es"
    then have e: "e \<in> set es" "\<not> is_undefined (snd e)" by (auto simp: defined_entries_def)
    then have ok: "text_ok opts (fst e)" "encodable opts (d + 1) (insert i A) (snd e)" "proper_value (snd e)"
      using JObj.prems by auto
    have "snd e \<in> Basic_BNFs.snds e" by (cases e) simp
    with JObj.IH e ok show "d + 1 \<le> maxDepth opts \<and> text_ok opts (fst e)
      \<and> reads (\<lambda>B. readItem opts B (d + 1)) (cbor_bytes (value_data (snd e))) (value_data (snd e))"
      by (blast dest: encodable_depth)
  qed
  moreover have "distinct (map fst (map ?g ?es))"
    using JObj.prems(2) by (simp add: defined_entries_def comp_def split_beta distinct_map_filter)
  moreover have "keys_ordered (map ?g ?es)"
    using JObj.prems(2) by (simp add: defined_entries_def keys_ordered_filter_map)
  ultimately have "reads (\<lambda>B. readEntries opts B (length ?es) (d + 1) {} [])
      (concat (map (\<lambda>(k, v). text_bytes k @ cbor_bytes (value_data v)) ?es)) (map ?g ?es)"
    using reads_entries [OF assms, of ?es "d + 1" "\<lambda>v. cbor_bytes (value_data v)" value_data "[]"] by simp
  then have "reads (readMajor opts d 5 (head_info (length ?es)))
      (head_rest (length ?es) @ concat (map (\<lambda>(k, v). text_bytes k @ cbor_bytes (value_data v)) ?es))
      (JObj () plain_object (map ?g ?es))"
    unfolding readMajor_simps
    using JObj.prems(1) assms
    by (intro reads_seq_map [where f = "JObj () plain_object" and n = "length ?es"] reads_readLength) (auto dest: options_ok_53)
  from reads_item_head [OF _ _ this] show ?case
    unfolding cbor_bytes_object using JObj.prems by (simp add: defined_entries_def)
next
  case (JGetter v)
  then show ?case by simp
qed simp_all

end
