(* ===== verification/Cbor_Reader_Bounds.thy ===== *)
theory Cbor_Reader_Bounds
  imports Cbor_Decoder
begin

text \<open>
  The reader of \<open>packages/protocol/src/cbor/decoder.ts\<close> on arbitrary payloads: it never leaves the
  payload, whatever it accepts is within the configured limits, and a payload that ends inside
  an item is never accepted.
\<close>

section \<open>What the reader accepts\<close>

text \<open>
  Whatever is accepted stays within the options: nesting, lengths, safe integers, finite
  numbers and distinct text keys.
\<close>

fun accepted :: "resolved_options \<Rightarrow> nat \<Rightarrow> unit jsv \<Rightarrow> bool" where
  "accepted opts d (JNum x) = (d \<le> maxDepth opts \<and> number_ok x)"
| "accepted opts d (JStr s) = (d \<le> maxDepth opts)"
| "accepted opts d (JBytes b) = (d \<le> maxDepth opts \<and> length b \<le> maxByteLength opts)"
| "accepted opts d (JArr _ _ vs) = (d \<le> maxDepth opts \<and> length vs \<le> maxContainerLength opts
     \<and> (\<forall>v \<in> set vs. accepted opts (d + 1) v))"
| "accepted opts d (JObj _ _ es) = (d \<le> maxDepth opts \<and> length es \<le> maxContainerLength opts
     \<and> distinct (map fst es) \<and> (\<forall>e \<in> set es. accepted opts (d + 1) (snd e)))"
| "accepted opts d JNull = (d \<le> maxDepth opts)"
| "accepted opts d (JBool _) = (d \<le> maxDepth opts)"
| "accepted opts d _ = False"

lemma readByte_off: "readByte bs off = Inr (b, off') \<Longrightarrow> off < off' \<and> off' \<le> length bs \<and> b < 256"
  by (auto simp: readByte_def split: if_splits)

lemma readBytes_off:
  "readBytes bs n off = Inr (b, off') \<Longrightarrow> off \<le> length bs \<Longrightarrow> off \<le> off' \<and> off' \<le> length bs \<and> length b = n"
  by (auto simp: readBytes_def split: if_splits)

lemma readUint32_off:
  assumes "readUint32 bs off = Inr (n, off')" and "off \<le> length bs"
  shows "off \<le> off' \<and> off' \<le> length bs \<and> n < 2 ^ 32"
proof -
  from assms(1) obtain b where b: "readBytes bs 4 off = Inr (b, off')"
    and n: "n = unat (b ! 0) * 0x1000000 + unat (b ! 1) * 0x10000 + unat (b ! 2) * 0x100 + unat (b ! 3)"
    by (auto simp: readUint32_def try_bind_eq_Inr)
  have "unat (b ! i) < 256" for i by (rule unat_u8_less)
  from this [of 0] this [of 1] this [of 2] this [of 3] have "n < 4294967296" unfolding n by linarith
  with readBytes_off [OF b assms(2)] show ?thesis by simp
qed

lemma readArgument_off:
  assumes "readArgument bs info off = Inr (n, off')" and "off \<le> length bs"
  shows "off \<le> off' \<and> off' \<le> length bs \<and> n < 2 ^ 53"
proof -
  consider (a) "info < 24" | (b) "info = 24" | (c) "info = 25" | (d) "info = 26" | (e) "info = 27" | (f) "27 < info"
    by linarith
  then show ?thesis
  proof cases
    case c
    then obtain b where b: "readBytes bs 2 off = Inr (b, off')" and n: "n = unat (b ! 0) * 0x100 + unat (b ! 1)"
      using assms by (auto simp: readArgument_def try_bind_eq_Inr)
    have "unat (b ! i) < 256" for i by (rule unat_u8_less)
    from this [of 0] this [of 1] have "n < 65536" unfolding n by linarith
    with readBytes_off [OF b assms(2)] show ?thesis by simp
  next
    case e
    then obtain high low off1 where r: "readUint32 bs off = Inr (high, off1)" "readUint32 bs off1 = Inr (low, off')"
      and n: "high \<le> 0x1FFFFF" "n = high * UINT32_BASE + low"
      using assms by (auto simp: readArgument_def try_bind_eq_Inr split: if_splits)
    from readUint32_off [OF r(1) assms(2)] readUint32_off [OF r(2)] n show ?thesis
      by (auto simp: UINT32_BASE_def)
  qed (use assms in \<open>auto simp: readArgument_def dest: readByte_off readUint32_off split: if_splits\<close>)
qed

lemma readLength_off:
  assumes "readLength bs info kind limit off = Inr (n, off')" and "off \<le> length bs"
  shows "off \<le> off' \<and> off' \<le> length bs \<and> n \<le> limit"
  using assms by (auto simp: readLength_def try_bind_eq_Inr dest: readArgument_off split: if_splits)

lemma readSimple_off:
  assumes "readSimple bs info off = Inr (v, off')" and "off \<le> length bs" and "d \<le> maxDepth opts"
  shows "off \<le> off' \<and> off' \<le> length bs \<and> accepted opts d v"
proof (cases "info = 27")
  case False
  with assms show ?thesis by (auto simp: readSimple_def split: if_splits)
next
  case True
  define x where "x b = double_of_bits (word_of_nat (be_nat b))" for b
  have "try_bind (readBytes bs 8 off) (\<lambda>(b, off). if \<not> is_finite (x b) then Inl NumberNotFinite
      else case x b of JInt n \<Rightarrow> if \<not> is_safe n then Inl IntegerNotSafe else Inr (JNum (x b), off)
        | JDouble _ \<Rightarrow> Inr (JNum (x b), off)) = Inr (v, off')"
    using assms(1) True unfolding readSimple_def x_def Let_def by simp
  then obtain b off1 where b: "readBytes bs 8 off = Inr (b, off1)"
    and r: "(if \<not> is_finite (x b) then Inl NumberNotFinite
      else case x b of JInt n \<Rightarrow> if \<not> is_safe n then Inl IntegerNotSafe else Inr (JNum (x b), off1)
        | JDouble _ \<Rightarrow> Inr (JNum (x b), off1)) = Inr (v, off')"
    by (auto simp only: try_bind_eq_Inr split: prod.splits)
  have "v = JNum (x b) \<and> number_ok (x b) \<and> off1 = off'"
    using r by (cases "x b") (simp_all split: if_splits)
  with readBytes_off [OF b assms(2)] assms(3) show ?thesis by simp
qed

text \<open>
  Facts about the three readers go by the depth that is left: what holds of items one level
  deeper holds of runs of elements and entries at that level, and so of items here.
\<close>

lemma readItem_depth_induct [case_names deep item]:
  assumes "\<And>d. maxDepth opts < d \<Longrightarrow> P d"
    and "\<And>d. d \<le> maxDepth opts \<Longrightarrow> P (d + 1) \<Longrightarrow> P d"
  shows "P d"
proof (induction "Suc (maxDepth opts) - d" arbitrary: d)
  case 0
  then show ?case by (simp add: assms(1))
next
  case (Suc k)
  have "P (d + 1)" by (rule Suc.hyps(1)) (use Suc.hyps(2) in simp)
  then show ?case by (rule assms(2) [rotated]) (use Suc.hyps(2) in simp)
qed

definition items_accepted :: "resolved_options \<Rightarrow> bytes \<Rightarrow> nat \<Rightarrow> bool" where
  "items_accepted opts bs d \<longleftrightarrow> (\<forall>off v off'. off \<le> length bs \<longrightarrow> readItem opts bs d off = Inr (v, off') \<longrightarrow>
     off < off' \<and> off' \<le> length bs \<and> accepted opts d v)"

lemma elements_accepted:
  assumes "items_accepted opts bs d"
  shows "off \<le> length bs \<Longrightarrow> readElements opts bs n d off = Inr (vs, off') \<Longrightarrow>
    off \<le> off' \<and> off' \<le> length bs \<and> length vs = n \<and> (\<forall>v \<in> set vs. accepted opts d v)"
proof (induction n arbitrary: off vs)
  case 0
  then show ?case by simp
next
  case (Suc n)
  then obtain v off1 ws where v: "readItem opts bs d off = Inr (v, off1)"
    and ws: "readElements opts bs n d off1 = Inr (ws, off')" and vs: "vs = v # ws"
    by (auto simp: try_bind_eq_Inr)
  have "off < off1 \<and> off1 \<le> length bs \<and> accepted opts d v"
    using assms Suc.prems(1) v unfolding items_accepted_def by blast
  with Suc.IH [OF _ ws] show ?case by (auto simp: vs)
qed

lemma readEntries_step:
  assumes "readEntries opts bs (Suc n) d keys result off = Inr (es, off')"
  obtains k off1 v off2 where "readItem opts bs d off = Inr (JStr k, off1)" and "k \<notin> keys"
    and "readItem opts bs d off1 = Inr (v, off2)"
    and "readEntries opts bs n d (insert k keys) (define_property k v result) off2 = Inr (es, off')"
proof -
  from assms obtain key off1 where "readItem opts bs d off = Inr (key, off1)"
    and r: "(case key of JStr k \<Rightarrow>
          if k \<in> keys then Inl DuplicateKey
          else try_bind (readItem opts bs d off1)
            (\<lambda>(v, off). readEntries opts bs n d (insert k keys) (define_property k v result) off)
      | _ \<Rightarrow> Inl KeyNotString) = Inr (es, off')"
    by (auto simp: try_bind_eq_Inr)
  moreover from r obtain k where "key = JStr k" by (cases key) simp_all
  ultimately have k: "readItem opts bs d off = Inr (JStr k, off1)" and "k \<notin> keys"
    and "try_bind (readItem opts bs d off1)
      (\<lambda>(v, off). readEntries opts bs n d (insert k keys) (define_property k v result) off) = Inr (es, off')"
    using r by (simp_all split: if_splits)
  then show ?thesis by (auto simp: try_bind_eq_Inr intro: that)
qed

lemma entries_accepted:
  assumes "items_accepted opts bs d"
  shows "off \<le> length bs \<Longrightarrow> readEntries opts bs n d (fst ` set result) result off = Inr (es, off') \<Longrightarrow>
    distinct (map fst result) \<Longrightarrow> \<forall>e \<in> set result. accepted opts d (snd e) \<Longrightarrow>
    off \<le> off' \<and> off' \<le> length bs \<and> length es = length result + n \<and> distinct (map fst es)
      \<and> (\<forall>e \<in> set es. accepted opts d (snd e))"
proof (induction n arbitrary: off result)
  case 0
  then show ?case by simp
next
  case (Suc n)
  from Suc.prems(2) obtain k off1 v off2 where
      k: "readItem opts bs d off = Inr (JStr k, off1)" "k \<notin> fst ` set result"
    and v: "readItem opts bs d off1 = Inr (v, off2)"
    and r: "readEntries opts bs n d (insert k (fst ` set result)) (define_property k v result) off2 = Inr (es, off')"
    by (elim readEntries_step)
  have o1: "off < off1 \<and> off1 \<le> length bs"
    using assms Suc.prems(1) k(1) unfolding items_accepted_def by blast
  then have o2: "off1 < off2 \<and> off2 \<le> length bs \<and> accepted opts d v"
    using assms v unfolding items_accepted_def by blast
  have keys: "insert k (fst ` set result) = fst ` set (define_property k v result)"
    by (simp add: set_define_property)
  have "off2 \<le> off' \<and> off' \<le> length bs \<and> length es = length (define_property k v result) + n
      \<and> distinct (map fst es) \<and> (\<forall>e \<in> set es. accepted opts d (snd e))"
  proof (rule Suc.IH)
    show "readEntries opts bs n d (fst ` set (define_property k v result)) (define_property k v result) off2 = Inr (es, off')"
      using r unfolding keys .
    show "distinct (map fst (define_property k v result))"
      using Suc.prems(3) k(2) by (rule distinct_define_property)
    show "\<forall>e \<in> set (define_property k v result). accepted opts d (snd e)"
      using Suc.prems(4) o2 by (simp add: set_define_property)
    show "off2 \<le> length bs" using o2 by simp
  qed
  then show ?case using o1 o2 by simp
qed

lemma readMajor_accepted:
  assumes m: "readMajor opts d major info bs off = Inr (v, off')" and off: "off \<le> length bs"
    and d: "d \<le> maxDepth opts" and deeper: "items_accepted opts bs (d + 1)"
  shows "off \<le> off' \<and> off' \<le> length bs \<and> accepted opts d v"
proof -
  consider (0) "major = 0" | (1) "major = 1" | (2) "major = 2" | (3) "major = 3" | (4) "major = 4"
    | (5) "major = 5" | (6) "major = 6" | (7) "6 < major" by linarith
  then show ?thesis
  proof cases
    case 0
    then obtain n where n: "readArgument bs info off = Inr (n, off')" and v: "v = JNum (JInt (int n))"
      using m by (auto simp: readMajor_def try_bind_eq_Inr)
    from readArgument_off [OF n off] d show ?thesis by (simp add: v is_safe_def max_safe_def)
  next
    case 1
    then obtain n where n: "readArgument bs info off = Inr (n, off')"
      and v: "v = JNum (JInt (-1 - int n))" "is_safe (-1 - int n)"
      using m by (auto simp: readMajor_def try_bind_eq_Inr Let_def split: if_splits)
    from readArgument_off [OF n off] d show ?thesis by (simp add: v)
  next
    case 2
    then obtain n off1 b where n: "readLength bs info ByteString (maxByteLength opts) off = Inr (n, off1)"
      and b: "readBytes bs n off1 = Inr (b, off')" and v: "v = JBytes b"
      using m by (auto simp: readMajor_def try_bind_eq_Inr)
    from readLength_off [OF n off] readBytes_off [OF b] d show ?thesis by (simp add: v)
  next
    case 3
    then obtain n off1 b s where n: "readLength bs info TextString (maxByteLength opts) off = Inr (n, off1)"
      and b: "readBytes bs n off1 = Inr (b, off')" and v: "v = JStr s"
      using m by (auto simp: readMajor_def try_bind_eq_Inr split: option.splits)
    from readLength_off [OF n off] readBytes_off [OF b] d show ?thesis by (simp add: v)
  next
    case 4
    then obtain n off1 vs where n: "readLength bs info ArrayItems (maxContainerLength opts) off = Inr (n, off1)"
      and vs: "readElements opts bs n (d + 1) off1 = Inr (vs, off')" and v: "v = JArr () PlainArray vs"
      using m by (auto simp: readMajor_def try_bind_eq_Inr)
    from readLength_off [OF n off] elements_accepted [OF deeper _ vs] d show ?thesis by (simp add: v)
  next
    case 5
    then obtain n off1 es where n: "readLength bs info MapEntries (maxContainerLength opts) off = Inr (n, off1)"
      and es: "readEntries opts bs n (d + 1) {} [] off1 = Inr (es, off')" and v: "v = JObj () plain_object es"
      using m by (auto simp: readMajor_def try_bind_eq_Inr)
    have "readEntries opts bs n (d + 1) (fst ` set ([] :: (jstr \<times> unit jsv) list)) [] off1 = Inr (es, off')"
      using es by simp
    from readLength_off [OF n off] entries_accepted [OF deeper _ this] d show ?thesis by (simp add: v)
  next
    case 6
    then show ?thesis using m by (simp add: readMajor_def)
  next
    case 7
    then have "readSimple bs info off = Inr (v, off')" using m by (simp add: readMajor_def)
    then show ?thesis using off d by (rule readSimple_off)
  qed
qed

lemma readItem_accepted: "items_accepted opts bs d"
proof (induction d rule: readItem_depth_induct [of opts])
  case (deep d)
  then show ?case by (simp add: items_accepted_def readItem_major)
next
  case (item d)
  show ?case unfolding items_accepted_def
  proof (intro allI impI)
    fix off v off'
    assume off: "off \<le> length bs" and r: "readItem opts bs d off = Inr (v, off')"
    obtain i off1 where b: "readByte bs off = Inr (i, off1)"
      and m: "readMajor opts d (i div 2 ^ 5) (i mod 2 ^ 5) bs off1 = Inr (v, off')"
      using r item.hyps by (auto simp: readItem_major try_bind_eq_Inr)
    have off1: "off < off1" "off1 \<le> length bs" using readByte_off [OF b] by simp_all
    have "off1 \<le> off' \<and> off' \<le> length bs \<and> accepted opts d v"
      using m off1(2) item.hyps item.IH by (rule readMajor_accepted)
    with off1 show "off < off' \<and> off' \<le> length bs \<and> accepted opts d v" by auto
  qed
qed

section \<open>More input does not change what was read\<close>

definition stable :: "(bytes \<Rightarrow> nat \<Rightarrow> 'e + 'a) \<Rightarrow> bool" where
  "stable r \<longleftrightarrow> (\<forall>B ext off x. r B off = Inr x \<longrightarrow> r (B @ ext) off = Inr x)"

lemma stableD: "stable r \<Longrightarrow> r B off = Inr x \<Longrightarrow> r (B @ ext) off = Inr x"
  by (simp add: stable_def)

named_theorems stable_rules

lemma stable_const [stable_rules]: "stable (\<lambda>B off. f off)"
  by (simp add: stable_def)

lemma stable_if [stable_rules]: "stable r \<Longrightarrow> stable s \<Longrightarrow> stable (\<lambda>B off. if c off then r B off else s B off)"
  by (simp add: stable_def)

lemma stable_bind [stable_rules]:
  assumes "stable r" and "\<And>x. stable (s x)"
  shows "stable (\<lambda>B off. try_bind (r B off) (\<lambda>(x, off). s x B off))"
  unfolding stable_def
proof (intro allI impI)
  fix B ext off y
  assume "try_bind (r B off) (\<lambda>(x, off). s x B off) = Inr y"
  then obtain x off1 where "r B off = Inr (x, off1)" and "s x B off1 = Inr y"
    by (auto simp: try_bind_eq_Inr)
  then show "try_bind (r (B @ ext) off) (\<lambda>(x, off). s x (B @ ext) off) = Inr y"
    using assms by (simp add: stableD)
qed

lemma stable_readByte [stable_rules]: "stable readByte"
  by (auto simp: stable_def readByte_def nth_append)

lemma stable_readBytes [stable_rules]: "stable (\<lambda>B. readBytes B n)"
  by (auto simp: stable_def readBytes_def split: if_splits)

lemma stable_readUint32 [stable_rules]: "stable readUint32"
  unfolding readUint32_def by (intro stable_rules)

lemma stable_readArgument [stable_rules]: "stable (\<lambda>B. readArgument B info)"
  unfolding readArgument_def by (intro stable_rules)

lemma stable_readLength [stable_rules]: "stable (\<lambda>B. readLength B info kind limit)"
  unfolding readLength_def by (intro stable_rules)

lemma stable_readSimple [stable_rules]: "stable (\<lambda>B. readSimple B info)"
  unfolding readSimple_def Let_def by (intro stable_rules)

lemma stable_elements:
  assumes "stable (\<lambda>B. readItem opts B d)"
  shows "stable (\<lambda>B. readElements opts B n d)"
proof (induction n)
  case 0
  show ?case by (simp add: stable_const)
next
  case (Suc n)
  show ?case unfolding readElements.simps by (intro stable_rules assms Suc.IH)
qed

lemma stable_key [stable_rules]:
  "(\<And>k. stable (r k)) \<Longrightarrow> stable (\<lambda>B off. case key of JStr k \<Rightarrow> r k B off | _ \<Rightarrow> Inl e)"
  by (cases key) (simp_all add: stable_const)

lemma stable_entries:
  assumes "stable (\<lambda>B. readItem opts B d)"
  shows "stable (\<lambda>B. readEntries opts B n d keys result)"
proof (induction n arbitrary: keys result)
  case 0
  show ?case by (simp add: stable_const)
next
  case (Suc n)
  show ?case unfolding readEntries.simps by (intro stable_rules assms Suc.IH)
qed

lemma stable_major:
  assumes "stable (\<lambda>B. readItem opts B (d + 1))"
  shows "stable (readMajor opts d m i)"
  unfolding readMajor_def Let_def by (intro stable_rules stable_elements stable_entries assms)

lemma stable_readItem: "stable (\<lambda>B. readItem opts B d)"
proof (induction d rule: readItem_depth_induct [of opts])
  case (deep d)
  then show ?case unfolding readItem_major by (simp add: stable_def)
next
  case (item d)
  show ?case unfolding readItem_major by (intro stable_rules stable_major item.IH)
qed

end
