(* ===== verification/Cbor_Codec.thy ===== *)
theory Cbor_Codec
  imports Cbor_Reader_Bounds
begin

text \<open>
  The two entry points of \<open>packages/protocol/src/cbor\<close> together: \<open>encodeCbor\<close> implements the
  abstract format, \<open>decodeCbor\<close> inverts it, accepts only what the limits allow, and rejects every
  payload that was cut short. They provide the interface \<open>payload_codec\<close> that the message codec
  is a client of.
\<close>

section \<open>The interface of a payload codec\<close>

text \<open>
  A payload codec turns values into bytes and bytes into values, both of which can fail, and
  the bytes of a value determine its data.
\<close>

locale payload_codec =
  fixes enc :: "'v \<Rightarrow> 'e + bytes"
    and dec :: "bytes \<Rightarrow> 'e + 'd"
    and content :: "'v \<Rightarrow> 'd"
    and proper :: "'v \<Rightarrow> bool"
  assumes dec_enc: "enc v = Inr bs \<Longrightarrow> proper v \<Longrightarrow> dec bs = Inr (content v)"
begin

lemma enc_inj: "enc v = Inr bs \<Longrightarrow> enc w = Inr bs \<Longrightarrow> proper v \<Longrightarrow> proper w \<Longrightarrow> content v = content w"
  using dec_enc by (metis sum.inject(2))

lemma dec_all:
  "list_all2 (\<lambda>v bs. enc v = Inr bs) vs bss \<Longrightarrow> \<forall>v \<in> set vs. proper v \<Longrightarrow> map dec bss = map (Inr \<circ> content) vs"
  by (induction rule: list_all2_induct) (simp_all add: dec_enc)

end

section \<open>The encoder\<close>

lemma wf_new_writer: "wf_writer (new_writer n)"
  by (simp add: wf_writer_def new_writer_def)

lemma new_writer_simps [simp]: "finish (new_writer n) = []" "wr_offset (new_writer n) = 0" "wr_max (new_writer n) = n"
  by (simp_all add: finish_def new_writer_def)

lemma encodeCbor_iff:
  "encodeCbor v options = Inr bs \<longleftrightarrow>
     (\<exists>opts. resolveOptions options = Inr opts \<and> encodable opts 0 {} v
        \<and> bs = cbor_bytes (value_data v) \<and> length bs \<le> maxByteLength opts)"
proof (cases "resolveOptions options")
  case (Inl e)
  then show ?thesis by (simp add: encodeCbor_def)
next
  case (Inr opts)
  let ?w = "new_writer (maxByteLength opts)"
  show ?thesis
  proof (cases "encodable opts 0 {} v")
    case True
    have "writes (encodeValue opts v 0 {}) (cbor_bytes (value_data v))"
      using writes_encodeValue [OF resolveOptions_ok [OF Inr] True] .
    then have w: "if length (cbor_bytes (value_data v)) \<le> maxByteLength opts
        then \<exists>w'. encodeValue opts v 0 {} ?w = Inr w' \<and> wf_writer w' \<and> finish w' = cbor_bytes (value_data v)
              \<and> wr_offset w' = length (cbor_bytes (value_data v)) \<and> wr_max w' = maxByteLength opts
        else encodeValue opts v 0 {} ?w = Inl (ByteLengthExceeded (maxByteLength opts))"
      using wf_new_writer [of "maxByteLength opts"] unfolding writes_def by fastforce
    show ?thesis
    proof (cases "length (cbor_bytes (value_data v)) \<le> maxByteLength opts")
      case fits: True
      with w obtain w' where "encodeValue opts v 0 {} ?w = Inr w'" "finish w' = cbor_bytes (value_data v)" by auto
      with Inr True fits show ?thesis by (auto simp: encodeCbor_def)
    next
      case False
      with w Inr show ?thesis by (auto simp: encodeCbor_def)
    qed
  next
    case False
    then have "encodeValue opts v 0 {} ?w \<noteq> Inr w'" for w' using encodeValue_Inr by blast
    with Inr False show ?thesis by (auto simp: encodeCbor_def try_bind_eq_Inr)
  qed
qed

text \<open>C29 (refinement). \<open>encodeCbor\<close>, with its growing buffer and its checks, returns bytes exactly when
  the options are valid, the value is one the options admit and its RFC 8949 encoding fits the
  byte limit; the bytes returned are that encoding.\<close>

theorem encodeCbor_refines_format:
  "encodeCbor v options = Inr bs \<longleftrightarrow>
     (\<exists>opts. resolveOptions options = Inr opts \<and> encodable opts 0 {} v
        \<and> bs = cbor_bytes (value_data v) \<and> length bs \<le> maxByteLength opts)"
  by (rule encodeCbor_iff)

section \<open>Round trip\<close>

lemma decodeCbor_encodeCbor:
  assumes "encodeCbor v options = Inr bs" and "proper_value v"
  shows "decodeCbor bs options = Inr (value_data v)"
proof -
  from assms(1) obtain opts where o: "resolveOptions options = Inr opts" and e: "encodable opts 0 {} v"
    and bs: "bs = cbor_bytes (value_data v)" "length bs \<le> maxByteLength opts"
    unfolding encodeCbor_iff by blast
  have "reads (\<lambda>B. readItem opts B 0) bs (value_data v)"
    unfolding bs(1) by (rule reads_value [OF resolveOptions_ok [OF o] e assms(2)])
  from readsD [OF this, of "[]" "[]"] have "readItem opts bs 0 0 = Inr (value_data v, length bs)" by simp
  with o bs(2) show ?thesis by (simp add: decodeCbor_def)
qed

text \<open>C7 (roundtrip). Whatever \<open>encodeCbor\<close> returns for a value of JavaScript (\<open>proper_value\<close>: objects as
  the engine keeps them, numbers in their canonical representation), \<open>decodeCbor\<close> with the same options reads back as the
  data of that value: undefined properties dropped, getters replaced by what they returned.\<close>

theorem decode_encode_roundtrip:
  assumes "encodeCbor v options = Inr bs" and "proper_value v"
  shows "decodeCbor bs options = Inr (value_data v)"
  using assms by (rule decodeCbor_encodeCbor)

lemma resolveOptions_None:
  "resolveOptions None = Inr \<lparr>maxByteLength = 16777216, maxContainerLength = 1000000, maxDepth = 64\<rparr>"
  by (simp add: resolveOptions_def resolveLimit_def is_safe_def max_safe_def DEFAULT_MAX_CBOR_BYTE_LENGTH_def
      DEFAULT_MAX_CBOR_CONTAINER_LENGTH_def DEFAULT_MAX_CBOR_DEPTH_def MAX_UINT32_def MAX_CONFIGURED_DEPTH_def)

lemma encodeCbor_default:
  assumes "encodable \<lparr>maxByteLength = 16777216, maxContainerLength = 1000000, maxDepth = 64\<rparr> 0 {} v"
    and "cbor_bytes (value_data v) = bs" and "length bs \<le> 16777216"
  shows "encodeCbor v None = Inr bs"
  using assms by (simp add: encodeCbor_iff resolveOptions_None)

lemmas cbor_eval =
  jlit_def utf8_encode_def scalar_bytes_def is_high_def is_low_def text_bytes_def cbor_head_def be_bytes_2
  text_ok_def is_safe_def max_safe_def plain_object_def isPlainObject_def defined_entries_def
  keys_ordered_def key_before_def array_index_def is_digit_def

definition sample_value :: "nat jsv" where
  "sample_value = JObj 1 plain_object
     [(jlit ''n'', JNum (JInt (-500))), (jlit ''x'', JUndefined),
      (jlit ''l'', JArr 2 PlainArray [JBool True, JNull, JStr (jlit ''hi'')])]"

lemma sample_encodes: "encodeCbor sample_value None
    = Inr [0xA2, 0x61, 0x6E, 0x39, 0x01, 0xF3, 0x61, 0x6C, 0x83, 0xF5, 0xF6, 0x62, 0x68, 0x69]"
  by (rule encodeCbor_default) (simp_all add: sample_value_def cbor_eval)

lemma sample_proper: "proper_value sample_value"
  by (simp add: sample_value_def cbor_eval)

lemma decode_encode_roundtrip_witness:
  "decodeCbor [0xA2, 0x61, 0x6E, 0x39, 0x01, 0xF3, 0x61, 0x6C, 0x83, 0xF5, 0xF6, 0x62, 0x68, 0x69] None
     = Inr (JObj () plain_object
        [(jlit ''n'', JNum (JInt (-500))),
         (jlit ''l'', JArr () PlainArray [JBool True, JNull, JStr (jlit ''hi'')])])"
  using decode_encode_roundtrip [OF sample_encodes sample_proper] by (simp add: sample_value_def)

interpretation cbor: payload_codec "\<lambda>v. encodeCbor v options" "\<lambda>bs. decodeCbor bs options" value_data proper_value
  for options
  by unfold_locales (rule decodeCbor_encodeCbor)

text \<open>The encoding is canonical: two values of JavaScript with the same encoding have the same data.\<close>

theorem encodeCbor_injective:
  fixes v w :: "'o jsv"
  assumes "encodeCbor v options = Inr bs" and "encodeCbor w options = Inr bs"
    and "proper_value v" and "proper_value w"
  shows "value_data v = value_data w"
  using assms by (rule cbor.enc_inj)

lemma encodeCbor_injective_witness:
  "value_data sample_value = value_data (JObj (7 :: nat) plain_object
     [(jlit ''n'', JNum (JInt (-500))), (jlit ''l'', JArr 2 PlainArray [JGetter (JBool True), JNull, JStr (jlit ''hi'')])])"
proof -
  have "encodeCbor (JObj (7 :: nat) plain_object
     [(jlit ''n'', JNum (JInt (-500))), (jlit ''l'', JArr 2 PlainArray [JGetter (JBool True), JNull, JStr (jlit ''hi'')])]) None
    = Inr [0xA2, 0x61, 0x6E, 0x39, 0x01, 0xF3, 0x61, 0x6C, 0x83, 0xF5, 0xF6, 0x62, 0x68, 0x69]"
    by (rule encodeCbor_default) (simp_all add: cbor_eval)
  from encodeCbor_injective [OF sample_encodes this sample_proper] show ?thesis by (simp add: cbor_eval)
qed

section \<open>Malformed and truncated payloads\<close>

text \<open>C30 (safety). Whatever bytes arrive, a value that \<open>decodeCbor\<close> returns is within the limits of its options:
  nested at most \<open>maxDepth\<close> deep, with every container and byte string within its length limit,
  every number finite and every integer safe, and no key repeated in an object.\<close>

theorem decodeCbor_accepts_bounded:
  assumes "decodeCbor bs options = Inr v"
  shows "\<exists>opts. resolveOptions options = Inr opts \<and> length bs \<le> maxByteLength opts \<and> accepted opts 0 v"
proof -
  from assms obtain opts where o: "resolveOptions options = Inr opts" "length bs \<le> maxByteLength opts"
    and r: "readItem opts bs 0 0 = Inr (v, length bs)"
    by (auto simp: decodeCbor_def try_bind_eq_Inr split: if_splits)
  have "accepted opts 0 v" using readItem_accepted [of opts bs 0] r unfolding items_accepted_def by blast
  with o show ?thesis by blast
qed

lemma decodeCbor_accepts_bounded_witness:
  "accepted \<lparr>maxByteLength = 16777216, maxContainerLength = 1000000, maxDepth = 64\<rparr> 0 (value_data sample_value)"
  using decodeCbor_accepts_bounded [OF decodeCbor_encodeCbor [OF sample_encodes sample_proper]]
  by (simp add: resolveOptions_None)

text \<open>The encoding is self-delimiting: a payload that was cut short anywhere is rejected, never
  read as another value.\<close>

theorem truncated_payload_rejected:
  assumes "encodeCbor v options = Inr bs" and "proper_value v" and "n < length bs"
  shows "\<exists>e. decodeCbor (take n bs) options = Inl e"
proof (cases "decodeCbor (take n bs) options")
  case (Inr x)
  then obtain opts where o: "resolveOptions options = Inr opts"
    and r: "readItem opts (take n bs) 0 0 = Inr (x, length (take n bs))"
    by (auto simp: decodeCbor_def try_bind_eq_Inr split: if_splits)
  from stableD [OF stable_readItem r, of "drop n bs"]
  have "readItem opts bs 0 0 = Inr (x, length (take n bs))" by simp
  with decodeCbor_encodeCbor [OF assms(1,2)] o assms(3) show ?thesis
    by (simp add: decodeCbor_def split: if_splits)
qed simp

lemma truncated_payload_rejected_witness:
  "\<exists>e. decodeCbor (take 5 [0xA2, 0x61, 0x6E, 0x39, 0x01, 0xF3, 0x61, 0x6C, 0x83, 0xF5, 0xF6, 0x62, 0x68, 0x69]) None = Inl e"
  by (rule truncated_payload_rejected [OF sample_encodes sample_proper]) simp

end
