(* ===== verification/Framing.thy ===== *)
theory Framing
  imports Js_Values
begin

text \<open>
  Length-prefixed framing (\<open>packages/protocol/src/framing.ts\<close>): \<open>encodeFrame\<close>,
  \<open>assertCompleteFrame\<close> and the incremental \<open>FrameDecoder\<close> with its header buffer, its payload
  blocks and its three states. The decoder is proved to return from every call, to refine the
  splitting of one byte buffer (\<open>split_frames\<close>), and so to give the same frames however the
  bytes are cut into chunks; \<open>encodeFrame\<close> is inverted by it.
\<close>

section \<open>Constants, errors and encoding\<close>

definition FRAME_HEADER_LENGTH :: nat where "FRAME_HEADER_LENGTH = 4"
definition MAX_UINT32_frame :: nat where "MAX_UINT32_frame = 0xFFFFFFFF"
definition PAYLOAD_BLOCK_SIZE :: nat where "PAYLOAD_BLOCK_SIZE = 64 * 1024"
definition DEFAULT_MAX_FRAME_LENGTH :: nat where "DEFAULT_MAX_FRAME_LENGTH = 16 * 1024 * 1024"

datatype frame_error =
    MaxFrameLengthRange
  | PayloadTooLong
  | IncompletePrefix
  | FrameLengthExceeded nat nat
  | NotExactlyOnePayload
  | FrameDecoderEnded
  | FrameDecoderFailed
  | TruncatedFrame

definition resolveMaxFrameLength :: "js_number option \<Rightarrow> frame_error + nat" where
  "resolveMaxFrameLength options =
     (let v = (case options of None \<Rightarrow> JInt (int DEFAULT_MAX_FRAME_LENGTH) | Some v \<Rightarrow> v)
      in case v of
           JInt n \<Rightarrow> if \<not> is_safe n \<or> n < 0 \<or> n > int MAX_UINT32_frame then Inl MaxFrameLengthRange else Inr (nat n)
         | JDouble w \<Rightarrow> if unat w = 2 ^ 63 then Inr 0 else Inl MaxFrameLengthRange)"

definition encodeFrame :: "bytes \<Rightarrow> frame_error + bytes" where
  "encodeFrame payload =
     (if length payload > MAX_UINT32_frame then Inl PayloadTooLong
      else let len = length payload;
               frame = (replicate (FRAME_HEADER_LENGTH + len) 0)
                 [0 := word_of_nat (len div 2 ^ 24), 1 := word_of_nat (len div 2 ^ 16),
                  2 := word_of_nat (len div 2 ^ 8), 3 := word_of_nat len]
           in Inr (set_bytes frame FRAME_HEADER_LENGTH payload))"

definition header_length :: "bytes \<Rightarrow> nat" where
  "header_length h = unat (h ! 0) * 0x1000000 + unat (h ! 1) * 0x10000 + unat (h ! 2) * 0x100 + unat (h ! 3)"

definition assertCompleteFrame :: "bytes \<Rightarrow> js_number option \<Rightarrow> frame_error + unit" where
  "assertCompleteFrame frame options =
     (if length frame < FRAME_HEADER_LENGTH then Inl IncompletePrefix
      else let len = header_length frame
           in try_bind (resolveMaxFrameLength options)
             (\<lambda>maxFrameLength.
                if len > maxFrameLength then Inl (FrameLengthExceeded len maxFrameLength)
                else if length frame \<noteq> FRAME_HEADER_LENGTH + len then Inl NotExactlyOnePayload
                else Inr ()))"

section \<open>The decoder\<close>

datatype decoder_state = DecOpen | DecEnded | DecFailed

text \<open>
  \<open>currentPayloadBlock\<close> is an alias of an element of \<open>payloadBlocks\<close>: it is kept as its index.
\<close>

record frame_decoder =
  header :: bytes
  headerLength :: nat
  maxFrameLength :: nat
  payloadBlocks :: "bytes list"
  currentPayloadBlock :: "nat option"
  currentPayloadBlockLength :: nat
  expectedPayloadLength :: "nat option"
  payloadLength :: nat
  dec_state :: decoder_state

definition new_FrameDecoder :: "js_number option \<Rightarrow> frame_error + frame_decoder" where
  "new_FrameDecoder options = try_bind (resolveMaxFrameLength options)
     (\<lambda>m. Inr \<lparr>header = replicate FRAME_HEADER_LENGTH 0, headerLength = 0, maxFrameLength = m, payloadBlocks = [],
        currentPayloadBlock = None, currentPayloadBlockLength = 0, expectedPayloadLength = None,
        payloadLength = 0, dec_state = DecOpen\<rparr>)"

definition fail_decoder :: "frame_decoder \<Rightarrow> frame_decoder" where
  "fail_decoder d = d\<lparr>dec_state := DecFailed, headerLength := 0, payloadBlocks := [],
     currentPayloadBlock := None, currentPayloadBlockLength := 0, expectedPayloadLength := None,
     payloadLength := 0\<rparr>"

text \<open>
  The part of an iteration of \<open>push\<close> before a payload is expected: the rest of the header, and
  then what its length asks for.
\<close>

datatype header_step = Continue | EmptyFrame | TooLong nat | PayloadExpected

definition push_header :: "bytes \<Rightarrow> frame_decoder \<Rightarrow> nat \<Rightarrow> header_step \<times> frame_decoder \<times> nat" where
  "push_header chunk d off =
     (let headerBytes = min (FRAME_HEADER_LENGTH - headerLength d) (length chunk - off);
          d = d\<lparr>header := set_bytes (header d) (headerLength d) (take headerBytes (drop off chunk)),
                headerLength := headerLength d + headerBytes\<rparr>;
          off = off + headerBytes
      in if headerLength d < FRAME_HEADER_LENGTH then (Continue, d, off)
         else let frameLength = header_length (header d);
                  d = d\<lparr>headerLength := 0\<rparr>
              in if frameLength > maxFrameLength d then (TooLong frameLength, fail_decoder d, off)
                 else if frameLength = 0 then (EmptyFrame, d, off)
                 else (PayloadExpected, d\<lparr>expectedPayloadLength := Some frameLength, payloadBlocks := [],
                   currentPayloadBlock := None, currentPayloadBlockLength := 0, payloadLength := 0\<rparr>, off))"

definition next_block :: "nat \<Rightarrow> frame_decoder \<Rightarrow> frame_decoder \<times> nat" where
  "next_block expected d =
     (let fresh = (d\<lparr>payloadBlocks := payloadBlocks d
                       @ [replicate (min PAYLOAD_BLOCK_SIZE (expected - payloadLength d)) 0],
                     currentPayloadBlock := Some (length (payloadBlocks d)),
                     currentPayloadBlockLength := 0\<rparr>, length (payloadBlocks d))
      in case currentPayloadBlock d of
           None \<Rightarrow> fresh
         | Some i \<Rightarrow> if currentPayloadBlockLength d = length (payloadBlocks d ! i) then fresh else (d, i))"

definition fill_block :: "bytes \<Rightarrow> nat \<Rightarrow> frame_decoder \<Rightarrow> nat \<Rightarrow> frame_decoder \<times> nat" where
  "fill_block chunk expected d off =
     (let (d, i) = next_block expected d;
          block = payloadBlocks d ! i;
          payloadBytes = min (length block - currentPayloadBlockLength d) (length chunk - off);
          d = d\<lparr>payloadBlocks := (payloadBlocks d)
                  [i := set_bytes block (currentPayloadBlockLength d) (take payloadBytes (drop off chunk))],
                currentPayloadBlockLength := currentPayloadBlockLength d + payloadBytes,
                payloadLength := payloadLength d + payloadBytes\<rparr>
      in (d, off + payloadBytes))"

partial_function (option) fill_payload ::
  "bytes \<Rightarrow> nat \<Rightarrow> frame_decoder \<Rightarrow> nat \<Rightarrow> (frame_decoder \<times> nat) option" where
  "fill_payload chunk expected d off =
     (if off < length chunk \<and> payloadLength d < expected
      then (case fill_block chunk expected d off of (d', off') \<Rightarrow> fill_payload chunk expected d' off')
      else Some (d, off))"

text \<open>The payload of the collected blocks, and the reset behind it.\<close>

fun join_blocks :: "bytes \<Rightarrow> nat \<Rightarrow> bytes list \<Rightarrow> bytes" where
  "join_blocks payload offset [] = payload"
| "join_blocks payload offset (b # bs) = join_blocks (set_bytes payload offset b) (offset + length b) bs"

definition take_payload :: "nat \<Rightarrow> frame_decoder \<Rightarrow> bytes \<times> frame_decoder" where
  "take_payload expected d =
     (if length (payloadBlocks d) = 1 then payloadBlocks d ! 0
      else join_blocks (replicate expected 0) 0 (payloadBlocks d),
      d\<lparr>payloadBlocks := [], currentPayloadBlock := None, currentPayloadBlockLength := 0,
        expectedPayloadLength := None, payloadLength := 0\<rparr>)"

definition push_payload :: "bytes \<Rightarrow> nat \<Rightarrow> frame_decoder \<Rightarrow> nat \<Rightarrow> bytes list \<Rightarrow>
    (frame_decoder \<times> nat \<times> bytes list) option" where
  "push_payload chunk expected d off frames = (case fill_payload chunk expected d off of
       None \<Rightarrow> None
     | Some (d, off) \<Rightarrow>
         if payloadLength d = expected
         then let (payload, d) = take_payload expected d in Some (d, off, frames @ [payload])
         else Some (d, off, frames))"

partial_function (option) push_loop ::
  "bytes \<Rightarrow> frame_decoder \<Rightarrow> nat \<Rightarrow> bytes list \<Rightarrow> (frame_decoder \<times> (frame_error + bytes list)) option" where
  "push_loop chunk d off frames =
     (if off < length chunk
      then (case expectedPayloadLength d of
          None \<Rightarrow> (case push_header chunk d off of (step, d', off') \<Rightarrow> (case step of
              Continue \<Rightarrow> push_loop chunk d' off' frames
            | EmptyFrame \<Rightarrow> push_loop chunk d' off' (frames @ [[]])
            | TooLong n \<Rightarrow> Some (d', Inl (FrameLengthExceeded n (maxFrameLength d)))
            | PayloadExpected \<Rightarrow> (case expectedPayloadLength d' of
                None \<Rightarrow> push_loop chunk d' off' frames
              | Some e \<Rightarrow> (case push_payload chunk e d' off' frames of
                  None \<Rightarrow> None
                | Some (d'', off'', frames') \<Rightarrow> push_loop chunk d'' off'' frames'))))
        | Some e \<Rightarrow> (case push_payload chunk e d off frames of
              None \<Rightarrow> None
            | Some (d'', off'', frames') \<Rightarrow> push_loop chunk d'' off'' frames'))
      else Some (d, Inr frames))"

definition push :: "frame_decoder \<Rightarrow> bytes \<Rightarrow> (frame_decoder \<times> (frame_error + bytes list)) option" where
  "push d chunk =
     (if dec_state d = DecEnded then Some (d, Inl FrameDecoderEnded)
      else if dec_state d = DecFailed then Some (d, Inl FrameDecoderFailed)
      else push_loop chunk d 0 [])"

definition end_decoder :: "frame_decoder \<Rightarrow> frame_decoder \<times> (frame_error + unit)" where
  "end_decoder d =
     (if dec_state d = DecEnded then (d, Inl FrameDecoderEnded)
      else if dec_state d = DecFailed then (d, Inl FrameDecoderFailed)
      else if headerLength d \<noteq> 0 \<or> expectedPayloadLength d \<noteq> None then (fail_decoder d, Inl TruncatedFrame)
      else (d\<lparr>dec_state := DecEnded\<rparr>, Inr ()))"

section \<open>The blocks hold the payload received so far\<close>

definition payload_data :: "frame_decoder \<Rightarrow> bytes" where
  "payload_data d = (case currentPayloadBlock d of
      None \<Rightarrow> []
    | Some i \<Rightarrow> concat (take i (payloadBlocks d)) @ take (currentPayloadBlockLength d) (payloadBlocks d ! i))"

definition wf_blocks :: "nat \<Rightarrow> frame_decoder \<Rightarrow> bool" where
  "wf_blocks expected d \<longleftrightarrow>
     (currentPayloadBlock d = None \<and> payloadBlocks d = [] \<and> payloadLength d = 0) \<or>
     (\<exists>bs b. payloadBlocks d = bs @ [b] \<and> currentPayloadBlock d = Some (length bs) \<and> 0 < length b
        \<and> currentPayloadBlockLength d \<le> length b
        \<and> payloadLength d = length (concat bs) + currentPayloadBlockLength d
        \<and> length (concat bs) + length b \<le> expected)"

abbreviation control :: "frame_decoder \<Rightarrow> bytes \<times> nat \<times> nat \<times> nat option \<times> decoder_state" where
  "control d \<equiv> (header d, headerLength d, maxFrameLength d, expectedPayloadLength d, dec_state d)"

lemma wf_blocks_length: "wf_blocks e d \<Longrightarrow> length (payload_data d) = payloadLength d"
  by (auto simp: wf_blocks_def payload_data_def)

lemma next_block_spec:
  assumes "wf_blocks e d" and "payloadLength d < e"
  obtains d' bs b where "next_block e d = (d', length bs)" and "payloadBlocks d' = bs @ [b]"
    and "currentPayloadBlock d' = Some (length bs)" and "currentPayloadBlockLength d' < length b"
    and "payloadLength d' = length (concat bs) + currentPayloadBlockLength d'"
    and "length (concat bs) + length b \<le> e"
    and "payload_data d = concat bs @ take (currentPayloadBlockLength d') b"
    and "payloadLength d' = payloadLength d" and "control d' = control d"
proof -
  let ?b = "replicate (min PAYLOAD_BLOCK_SIZE (e - payloadLength d)) (0 :: u8)"
  have room: "0 < length ?b" "payloadLength d + length ?b \<le> e"
    using assms(2) by (simp_all add: PAYLOAD_BLOCK_SIZE_def)
  from assms(1) consider
      (none) "currentPayloadBlock d = None" "payloadBlocks d = []" "payloadLength d = 0"
    | (some) bs b where "payloadBlocks d = bs @ [b]" "currentPayloadBlock d = Some (length bs)" "0 < length b"
        "currentPayloadBlockLength d \<le> length b"
        "payloadLength d = length (concat bs) + currentPayloadBlockLength d"
        "length (concat bs) + length b \<le> e"
    unfolding wf_blocks_def by auto
  then show ?thesis
  proof cases
    case none
    with room show ?thesis
      by (intro that [of "fst (next_block e d)" "[]" ?b]) (simp_all add: next_block_def payload_data_def)
  next
    case some
    show ?thesis
    proof (cases "currentPayloadBlockLength d = length b")
      case True
      with some room show ?thesis
        by (intro that [of "fst (next_block e d)" "bs @ [b]" ?b]) (simp_all add: next_block_def payload_data_def)
    next
      case False
      with some show ?thesis
        by (intro that [of d bs b]) (simp_all add: next_block_def payload_data_def)
    qed
  qed
qed

lemma fill_block_spec:
  assumes "wf_blocks e d" and "payloadLength d < e" and "off < length chunk"
  obtains d' n where "fill_block chunk e d off = (d', off + n)" and "0 < n" and "off + n \<le> length chunk"
    and "payloadLength d + n \<le> e"
    and "wf_blocks e d'" and "payload_data d' = payload_data d @ take n (drop off chunk)"
    and "payloadLength d' = payloadLength d + n" and "control d' = control d"
proof -
  from next_block_spec [OF assms(1,2)] obtain d1 bs b where
    nb: "next_block e d = (d1, length bs)" "payloadBlocks d1 = bs @ [b]"
      "currentPayloadBlock d1 = Some (length bs)" "currentPayloadBlockLength d1 < length b"
      "payloadLength d1 = length (concat bs) + currentPayloadBlockLength d1"
      "length (concat bs) + length b \<le> e"
      "payload_data d = concat bs @ take (currentPayloadBlockLength d1) b"
      "payloadLength d1 = payloadLength d" "control d1 = control d" by metis
  define n where "n = min (length b - currentPayloadBlockLength d1) (length chunk - off)"
  define c where "c = currentPayloadBlockLength d1"
  let ?s = "take n (drop off chunk)"
  have n: "0 < n" "off + n \<le> length chunk" "c + n \<le> length b" "length ?s = n"
    using nb(4) assms(3) by (auto simp: n_def c_def)
  let ?d = "d1\<lparr>payloadBlocks := bs @ [set_bytes b c ?s], currentPayloadBlockLength := c + n,
    payloadLength := payloadLength d1 + n\<rparr>"
  have "fill_block chunk e d off = (?d, off + n)"
    using nb(1-4) by (simp add: fill_block_def n_def c_def Let_def)
  moreover have "wf_blocks e ?d"
    unfolding wf_blocks_def using nb n by (intro disjI2 exI [of _ bs] exI [of _ "set_bytes b c ?s"]) (auto simp: c_def)
  moreover have "payload_data ?d = payload_data d @ ?s"
    using nb n take_set_bytes [of c ?s b] by (simp add: payload_data_def c_def)
  ultimately show ?thesis
    using nb n by (intro that [of ?d n]) (auto simp: c_def)
qed

lemma fill_payload_spec:
  assumes "wf_blocks e d" and "payloadLength d \<le> e" and "off \<le> length chunk"
  defines "n \<equiv> min (e - payloadLength d) (length chunk - off)"
  shows "\<exists>d'. fill_payload chunk e d off = Some (d', off + n) \<and> wf_blocks e d'
    \<and> payload_data d' = payload_data d @ take n (drop off chunk)
    \<and> payloadLength d' = payloadLength d + n \<and> control d' = control d"
  using assms(1-3) unfolding n_def
proof (induction "length chunk - off" arbitrary: d off rule: less_induct)
  case less
  show ?case
  proof (cases "off < length chunk \<and> payloadLength d < e")
    case False
    then have "min (e - payloadLength d) (length chunk - off) = 0" by auto
    with False less.prems show ?thesis by (subst fill_payload.simps) auto
  next
    case True
    then have off: "off < length chunk" and pl: "payloadLength d < e" by simp_all
    obtain d1 k where f: "fill_block chunk e d off = (d1, off + k)" "0 < k" "off + k \<le> length chunk"
      "payloadLength d + k \<le> e" "wf_blocks e d1" "payload_data d1 = payload_data d @ take k (drop off chunk)"
      "payloadLength d1 = payloadLength d + k" "control d1 = control d"
      using fill_block_spec [OF less.prems(1) pl off] by metis
    define m where "m = min (e - payloadLength d1) (length chunk - (off + k))"
    have "length chunk - (off + k) < length chunk - off" using off f(2) by linarith
    from less.hyps [OF this f(5)] f(3,4,7) obtain d' where
      d': "fill_payload chunk e d1 (off + k) = Some (d', off + k + m)" "wf_blocks e d'"
        "payload_data d' = payload_data d1 @ take m (drop (off + k) chunk)"
        "payloadLength d' = payloadLength d1 + m" "control d' = control d1"
      unfolding m_def by auto
    have m: "min (e - payloadLength d) (length chunk - off) = k + m"
      using f(3,4,7) by (simp add: m_def)
    have "fill_payload chunk e d off = Some (d', off + (k + m))"
      using True f(1) d'(1) by (subst fill_payload.simps) (simp add: add.assoc)
    moreover have "payload_data d' = payload_data d @ take (k + m) (drop off chunk)"
      using d'(3) f(6) by (simp add: take_add add.commute)
    ultimately show ?thesis unfolding m using d' f(7,8) by auto
  qed
qed

lemma join_blocks_concat:
  "length payload = offset + length (concat bs) \<Longrightarrow> join_blocks payload offset bs = take offset payload @ concat bs"
proof (induction bs arbitrary: payload offset)
  case Nil
  then show ?case by simp
next
  case (Cons b bs)
  then have "join_blocks (set_bytes payload offset b) (offset + length b) bs
      = take (offset + length b) (set_bytes payload offset b) @ concat bs"
    by (intro Cons.IH) simp
  with Cons.prems show ?case by simp
qed

lemma take_payload_spec:
  assumes "wf_blocks e d" and "payloadLength d = e" and "0 < e"
  shows "fst (take_payload e d) = payload_data d"
proof -
  from assms obtain bs b where d: "payloadBlocks d = bs @ [b]" "currentPayloadBlock d = Some (length bs)"
      "currentPayloadBlockLength d = length b" "e = length (concat (bs @ [b]))"
    unfolding wf_blocks_def by auto
  then show ?thesis
    using join_blocks_concat [of "replicate e 0" 0 "bs @ [b]"]
    by (simp add: take_payload_def payload_data_def nth_append)
qed

section \<open>The decoder refines the splitting of one buffer\<close>

text \<open>
  What framing means: the bytes that have arrived are cut at the frame boundaries, and what is
  not yet a frame is kept.
\<close>

function split_frames :: "nat \<Rightarrow> bytes \<Rightarrow> frame_error + (bytes list \<times> bytes)" where
  "split_frames mx bs =
     (if length bs < 4 then Inr ([], bs)
      else let n = be_nat (take 4 bs)
           in if n > mx then Inl (FrameLengthExceeded n mx)
              else if length bs < 4 + n then Inr ([], bs)
              else try_bind (split_frames mx (drop (4 + n) bs))
                (\<lambda>(fs, rest). Inr (take n (drop 4 bs) # fs, rest)))"
  by pat_completeness auto
termination by (relation "measure (\<lambda>(mx, bs). length bs)") auto

declare split_frames.simps [simp del]

lemma split_frames_short: "length bs < 4 \<Longrightarrow> split_frames mx bs = Inr ([], bs)"
  by (simp add: split_frames.simps)

lemma split_frames_Nil [simp]: "split_frames mx [] = Inr ([], [])"
  by (simp add: split_frames_short)

lemma split_frames_header:
  assumes "length h = 4"
  shows "split_frames mx (h @ bs) =
    (if be_nat h > mx then Inl (FrameLengthExceeded (be_nat h) mx)
     else if length bs < be_nat h then Inr ([], h @ bs)
     else try_bind (split_frames mx (drop (be_nat h) bs)) (\<lambda>(fs, rest). Inr (take (be_nat h) bs # fs, rest)))"
  using assms by (subst split_frames.simps) (simp add: Let_def)

lemma header_length_be_nat: "length h = 4 \<Longrightarrow> header_length h = be_nat h"
proof -
  assume "length h = 4"
  then obtain a b c d where "h = [a, b, c, d]" by (auto simp: numeral_eq_Suc length_Suc_conv)
  then show ?thesis by (simp add: header_length_def)
qed

definition pending :: "frame_decoder \<Rightarrow> bytes" where
  "pending d = (case expectedPayloadLength d of
      None \<Rightarrow> take (headerLength d) (header d)
    | Some e \<Rightarrow> be_bytes 4 e @ payload_data d)"

definition wf_decoder :: "frame_decoder \<Rightarrow> bool" where
  "wf_decoder d \<longleftrightarrow> dec_state d = DecOpen \<and> length (header d) = 4 \<and> headerLength d < 4
     \<and> maxFrameLength d \<le> MAX_UINT32_frame
     \<and> (case expectedPayloadLength d of
          None \<Rightarrow> True
        | Some e \<Rightarrow> headerLength d = 0 \<and> 0 < e \<and> e \<le> maxFrameLength d \<and> payloadLength d < e \<and> wf_blocks e d)"

definition follows :: "nat \<Rightarrow> bytes \<Rightarrow> bytes list \<Rightarrow> (frame_decoder \<times> (frame_error + bytes list)) option \<Rightarrow> bool" where
  "follows mx bs frames res \<longleftrightarrow> (case split_frames mx bs of
      Inl e \<Rightarrow> (\<exists>d. res = Some (d, Inl e) \<and> dec_state d = DecFailed)
    | Inr (fs, rest) \<Rightarrow> (\<exists>d. res = Some (d, Inr (frames @ fs)) \<and> wf_decoder d \<and> pending d = rest \<and> maxFrameLength d = mx))"

lemma follows_frame:
  "length h = 4 \<Longrightarrow> be_nat h \<le> mx \<Longrightarrow> length p = be_nat h \<Longrightarrow> follows mx bs (frames @ [p]) res \<Longrightarrow>
    follows mx (h @ p @ bs) frames res"
  unfolding follows_def by (cases "split_frames mx bs") (auto simp: split_frames_header)

lemma be_nat_header: "e \<le> mx \<Longrightarrow> mx \<le> MAX_UINT32_frame \<Longrightarrow> be_nat (be_bytes 4 e) = e"
  by (rule be_nat_be_bytes_small) (simp add: MAX_UINT32_frame_def)

lemma wf_pending_split:
  assumes "wf_decoder d"
  shows "split_frames (maxFrameLength d) (pending d) = Inr ([], pending d)"
proof (cases "expectedPayloadLength d")
  case None
  with assms show ?thesis by (intro split_frames_short) (simp add: wf_decoder_def pending_def)
next
  case (Some e)
  with assms show ?thesis
    using wf_blocks_length [of e d] be_nat_header [of e "maxFrameLength d"]
    by (auto simp: wf_decoder_def pending_def split_frames_header)
qed

lemma follows_done:
  assumes "wf_decoder d"
  shows "follows (maxFrameLength d) (pending d) frames (Some (d, Inr frames))"
  using assms by (simp add: follows_def wf_pending_split)

lemma push_payload_follows:
  assumes wf: "wf_decoder d" and e: "expectedPayloadLength d = Some e" and off: "off \<le> length chunk"
    and continue: "\<And>d' n frames'. push_payload chunk e d off frames = Some (d', off + n, frames') \<Longrightarrow>
        off + n \<le> length chunk \<Longrightarrow> (off < length chunk \<Longrightarrow> 0 < n) \<Longrightarrow>
        wf_decoder d' \<Longrightarrow> maxFrameLength d' = maxFrameLength d \<Longrightarrow>
        follows (maxFrameLength d) (pending d' @ drop (off + n) chunk) frames' (push_loop chunk d' (off + n) frames')"
  shows "follows (maxFrameLength d) (pending d @ drop off chunk) frames
    (case push_payload chunk e d off frames of None \<Rightarrow> None
     | Some (d'', off'', frames') \<Rightarrow> push_loop chunk d'' off'' frames')"
proof -
  define n where "n = min (e - payloadLength d) (length chunk - off)"
  have inv: "0 < e" "e \<le> maxFrameLength d" "payloadLength d < e" "wf_blocks e d"
    "maxFrameLength d \<le> MAX_UINT32_frame" "headerLength d = 0" "length (header d) = 4" "dec_state d = DecOpen"
    using wf e by (simp_all add: wf_decoder_def)
  obtain d' where d': "fill_payload chunk e d off = Some (d', off + n)" "wf_blocks e d'"
      "payload_data d' = payload_data d @ take n (drop off chunk)"
      "payloadLength d' = payloadLength d + n" "control d' = control d"
    using fill_payload_spec [OF inv(4) _ off] inv(3) unfolding n_def by auto
  have n: "off + n \<le> length chunk" "off < length chunk \<Longrightarrow> 0 < n"
    using inv(3) off by (auto simp: n_def)
  show ?thesis
  proof (cases "payloadLength d' = e")
    case True
    obtain p d'' where t: "take_payload e d' = (p, d'')" by (cases "take_payload e d'")
    have p: "p = payload_data d'" using take_payload_spec [OF d'(2) True inv(1)] by (simp add: t)
    have d'': "wf_decoder d''" "pending d'' = []" "maxFrameLength d'' = maxFrameLength d"
      using t d'(5) inv(5-) by (auto simp: take_payload_def wf_decoder_def pending_def)
    have pp: "push_payload chunk e d off frames = Some (d'', off + n, frames @ [p])"
      using d'(1) True t by (simp add: push_payload_def)
    have "follows (maxFrameLength d) (be_bytes 4 e @ p @ (pending d'' @ drop (off + n) chunk)) frames
        (push_loop chunk d'' (off + n) (frames @ [p]))"
    proof (rule follows_frame)
      show "length p = be_nat (be_bytes 4 e)"
        using wf_blocks_length [OF d'(2)] True be_nat_header [OF inv(2,5)] by (simp add: p)
      show "follows (maxFrameLength d) (pending d'' @ drop (off + n) chunk) (frames @ [p])
          (push_loop chunk d'' (off + n) (frames @ [p]))"
        by (rule continue [OF pp n d''(1,3)])
    qed (use be_nat_header [OF inv(2,5)] inv(2) in simp_all)
    moreover have "be_bytes 4 e @ p @ (pending d'' @ drop (off + n) chunk) = pending d @ drop off chunk"
      using d'(3) d''(2) append_take_drop_id [of n "drop off chunk"]
      by (simp add: p pending_def e add.commute)
    ultimately show ?thesis by (simp add: pp)
  next
    case False
    have pp: "push_payload chunk e d off frames = Some (d', off + n, frames)"
      using d'(1) False by (simp add: push_payload_def)
    have "payloadLength d' < e" using False d'(4) inv(3) by (simp add: n_def min_def split: if_splits)
    then have wf': "wf_decoder d'" "maxFrameLength d' = maxFrameLength d"
      using d'(2,5) inv e by (auto simp: wf_decoder_def)
    have "pending d' @ drop (off + n) chunk = pending d @ drop off chunk"
      using d'(3,5) append_take_drop_id [of n "drop off chunk"] e by (simp add: pending_def add.commute)
    with continue [OF pp n wf'] show ?thesis by (simp add: pp)
  qed
qed

lemma push_header_spec:
  assumes wf: "wf_decoder d" and e: "expectedPayloadLength d = None" and off: "off < length chunk"
  obtains d' n where "0 < n" and "off + n \<le> length chunk" and "maxFrameLength d' = maxFrameLength d"
    and "(push_header chunk d off = (Continue, d', off + n) \<and> wf_decoder d'
            \<and> pending d' = pending d @ take n (drop off chunk))
       \<or> (length (pending d @ take n (drop off chunk)) = 4 \<and>
           (let m = be_nat (pending d @ take n (drop off chunk))
            in if m > maxFrameLength d then push_header chunk d off = (TooLong m, d', off + n) \<and> dec_state d' = DecFailed
               else if m = 0 then push_header chunk d off = (EmptyFrame, d', off + n) \<and> wf_decoder d' \<and> pending d' = []
               else push_header chunk d off = (PayloadExpected, d', off + n) \<and> wf_decoder d'
                 \<and> expectedPayloadLength d' = Some m \<and> pending d' = pending d @ take n (drop off chunk)))"
proof -
  define n where "n = min (4 - headerLength d) (length chunk - off)"
  define s where "s = take n (drop off chunk)"
  let ?h = "set_bytes (header d) (headerLength d) s"
  let ?d = "d\<lparr>header := ?h, headerLength := headerLength d + n\<rparr>"
  have inv: "length (header d) = 4" "headerLength d < 4" "maxFrameLength d \<le> MAX_UINT32_frame" "dec_state d = DecOpen"
    using wf by (simp_all add: wf_decoder_def)
  have n: "0 < n" "off + n \<le> length chunk" "headerLength d + n \<le> 4" "length s = n"
    using inv off by (auto simp: n_def s_def)
  have h: "length ?h = 4" "take (headerLength d + n) ?h = pending d @ s"
    using inv n take_set_bytes [of "headerLength d" s "header d"] by (simp_all add: pending_def e)
  show ?thesis
  proof (cases "headerLength d + n < 4")
    case True
    have "push_header chunk d off = (Continue, ?d, off + n)"
      using True unfolding push_header_def FRAME_HEADER_LENGTH_def Let_def n_def [symmetric] s_def [symmetric] by simp
    moreover have "wf_decoder ?d" using True inv h e by (simp add: wf_decoder_def)
    moreover have "pending ?d = pending d @ s" using h(2) by (simp add: pending_def e)
    ultimately show ?thesis using n by (intro that [of n ?d]) (simp_all add: s_def)
  next
    case False
    with n have full: "headerLength d + n = 4" by simp
    have hs: "?h = pending d @ s" "length (pending d @ s) = 4" using h full by simp_all
    let ?m = "be_nat (pending d @ s)"
    have m: "header_length ?h = ?m" using h(1) by (simp add: header_length_be_nat hs(1))
    have inv_m: "?m < 256 ^ 4" using be_nat_less [of "pending d @ s"] hs(2) by simp
    have enc: "be_bytes 4 ?m = pending d @ s" using be_bytes_be_nat [of "pending d @ s"] hs(2) by simp
    let ?d' = "snd (snd (push_header chunk d off))"
    have step: "push_header chunk d off =
       (let d = ?d\<lparr>headerLength := 0\<rparr>
        in if ?m > maxFrameLength d then (TooLong ?m, fail_decoder d, off + n)
           else if ?m = 0 then (EmptyFrame, d, off + n)
           else (PayloadExpected, d\<lparr>expectedPayloadLength := Some ?m, payloadBlocks := [],
                   currentPayloadBlock := None, currentPayloadBlockLength := 0, payloadLength := 0\<rparr>, off + n))"
      using full m by (simp add: push_header_def FRAME_HEADER_LENGTH_def Let_def n_def s_def)
    define d' where "d' = fst (snd (push_header chunk d off))"
    have mx: "maxFrameLength d' = maxFrameLength d"
      by (simp add: d'_def step Let_def fail_decoder_def)
    have "let m = ?m
          in if m > maxFrameLength d then push_header chunk d off = (TooLong m, d', off + n) \<and> dec_state d' = DecFailed
             else if m = 0 then push_header chunk d off = (EmptyFrame, d', off + n) \<and> wf_decoder d' \<and> pending d' = []
             else push_header chunk d off = (PayloadExpected, d', off + n) \<and> wf_decoder d'
               \<and> expectedPayloadLength d' = Some m \<and> pending d' = pending d @ s"
      using inv e h(1) enc
      by (simp add: d'_def step Let_def fail_decoder_def wf_decoder_def wf_blocks_def pending_def payload_data_def)
    with hs(2) n mx show ?thesis unfolding s_def by (intro that [of n d'] disjI2 conjI)
  qed
qed

lemma push_loop_follows:
  assumes "wf_decoder d" and "off \<le> length chunk"
  shows "follows (maxFrameLength d) (pending d @ drop off chunk) frames (push_loop chunk d off frames)"
  using assms
proof (induction "length chunk - off" arbitrary: d off frames rule: less_induct)
  case less
  note wf = less.prems(1)
  have later: "follows (maxFrameLength d) (pending d' @ drop off' chunk) frames' (push_loop chunk d' off' frames')"
    if "off < off'" "off' \<le> length chunk" "wf_decoder d'" "maxFrameLength d' = maxFrameLength d" for d' off' frames'
    using less.hyps [of off' d' frames'] that by simp
  show ?case
  proof (cases "off < length chunk")
    case False
    with less.prems follows_done [OF wf] show ?thesis by (subst push_loop.simps) simp
  next
    case off: True
    show ?thesis
    proof (cases "expectedPayloadLength d")
      case (Some e)
      have "follows (maxFrameLength d) (pending d @ drop off chunk) frames
          (case push_payload chunk e d off frames of None \<Rightarrow> None
           | Some (d'', off'', frames') \<Rightarrow> push_loop chunk d'' off'' frames')"
        using less.prems Some off by (intro push_payload_follows later) auto
      with off Some show ?thesis by (subst push_loop.simps) simp
    next
      case None
      from push_header_spec [OF wf None off] obtain d' n where n: "0 < n" "off + n \<le> length chunk"
        and mx: "maxFrameLength d' = maxFrameLength d"
        and step: "(push_header chunk d off = (Continue, d', off + n) \<and> wf_decoder d'
            \<and> pending d' = pending d @ take n (drop off chunk))
         \<or> (length (pending d @ take n (drop off chunk)) = 4 \<and>
           (let m = be_nat (pending d @ take n (drop off chunk))
            in if m > maxFrameLength d then push_header chunk d off = (TooLong m, d', off + n) \<and> dec_state d' = DecFailed
               else if m = 0 then push_header chunk d off = (EmptyFrame, d', off + n) \<and> wf_decoder d' \<and> pending d' = []
               else push_header chunk d off = (PayloadExpected, d', off + n) \<and> wf_decoder d'
                 \<and> expectedPayloadLength d' = Some m \<and> pending d' = pending d @ take n (drop off chunk)))"
        by metis
      define h where "h = pending d @ take n (drop off chunk)"
      have rest: "pending d @ drop off chunk = h @ drop (off + n) chunk"
        using append_take_drop_id [of n "drop off chunk"] by (simp add: h_def add.commute)
      consider (Continue) "push_header chunk d off = (Continue, d', off + n)" "wf_decoder d'" "pending d' = h"
        | (TooLong) "length h = 4" "be_nat h > maxFrameLength d" "push_header chunk d off = (TooLong (be_nat h), d', off + n)"
            "dec_state d' = DecFailed"
        | (EmptyFrame) "length h = 4" "be_nat h = 0" "push_header chunk d off = (EmptyFrame, d', off + n)"
            "wf_decoder d'" "pending d' = []"
        | (PayloadExpected) "push_header chunk d off = (PayloadExpected, d', off + n)"
            "wf_decoder d'" "expectedPayloadLength d' = Some (be_nat h)" "pending d' = h"
        using step by (auto simp: Let_def h_def [symmetric] split: if_splits)
      then show ?thesis
      proof cases
        case Continue
        with later [of "off + n" d' frames] n mx off None show ?thesis
          by (subst push_loop.simps) (simp add: rest)
      next
        case TooLong
        with off None show ?thesis
          by (subst push_loop.simps) (simp add: rest follows_def split_frames_header)
      next
        case EmptyFrame
        have "follows (maxFrameLength d) (drop (off + n) chunk) (frames @ [[]]) (push_loop chunk d' (off + n) (frames @ [[]]))"
          using later [of "off + n" d' "frames @ [[]]"] EmptyFrame n mx by simp
        with EmptyFrame have "follows (maxFrameLength d) (h @ [] @ drop (off + n) chunk) frames
            (push_loop chunk d' (off + n) (frames @ [[]]))"
          by (intro follows_frame) simp_all
        with EmptyFrame off None show ?thesis by (subst push_loop.simps) (simp add: rest)
      next
        case PayloadExpected
        have "follows (maxFrameLength d') (pending d' @ drop (off + n) chunk) frames
            (case push_payload chunk (be_nat h) d' (off + n) frames of None \<Rightarrow> None
             | Some (d'', off'', frames') \<Rightarrow> push_loop chunk d'' off'' frames')"
          using PayloadExpected n mx by (intro push_payload_follows) (auto intro!: later)
        with PayloadExpected mx off None show ?thesis by (subst push_loop.simps) (simp add: rest)
      qed
    qed
  qed
qed

end
