(* ===== verification/Frame_Stream.thy ===== *)
theory Frame_Stream
  imports Framing
begin

text \<open>
  Streams of frames: the interface \<open>chunked_decoder\<close> of a decoder that is fed chunks of a byte
  stream, what follows from its laws for any cutting of the stream, and the frame decoder of
  \<open>packages/protocol/src/framing.ts\<close> as its implementation. With the laws of \<open>encodeFrame\<close> and
  \<open>assertCompleteFrame\<close> this gives the correctness of the framing layer.
\<close>

section \<open>Decoders of chunked streams\<close>

text \<open>Feeding a list of chunks to a stateful decoder; the first error ends the stream.\<close>

fun feed_all :: "('s \<Rightarrow> bytes \<Rightarrow> ('s \<times> ('e + 'f list)) option) \<Rightarrow> 's \<Rightarrow> bytes list \<Rightarrow> ('s \<times> ('e + 'f list)) option" where
  "feed_all feed s [] = Some (s, Inr [])"
| "feed_all feed s (c # cs) = (case feed s c of
      None \<Rightarrow> None
    | Some (s', Inl e) \<Rightarrow> Some (s', Inl e)
    | Some (s', Inr fs) \<Rightarrow> (case feed_all feed s' cs of
        None \<Rightarrow> None
      | Some (s'', Inl e) \<Rightarrow> Some (s'', Inl e)
      | Some (s'', Inr gs) \<Rightarrow> Some (s'', Inr (fs @ gs))))"

locale chunked_decoder =
  fixes feed :: "'s \<Rightarrow> bytes \<Rightarrow> ('s \<times> ('e + 'f list)) option"
    and parse :: "bytes \<Rightarrow> 'e + ('f list \<times> bytes)"
    and buffered :: "'s \<Rightarrow> bytes"
    and ok :: "'s \<Rightarrow> bool"
  assumes parse_buffered: "ok s \<Longrightarrow> parse (buffered s) = Inr ([], buffered s)"
    and feed_ok: "ok s \<Longrightarrow> parse (buffered s @ c) = Inr (fs, rest) \<Longrightarrow>
        \<exists>s'. feed s c = Some (s', Inr fs) \<and> ok s' \<and> buffered s' = rest"
    and feed_error: "ok s \<Longrightarrow> parse (buffered s @ c) = Inl e \<Longrightarrow> \<exists>s'. feed s c = Some (s', Inl e)"
    and parse_append: "parse bs = Inr (fs, rest) \<Longrightarrow>
        parse (bs @ c) = try_bind (parse (rest @ c)) (\<lambda>(gs, r). Inr (fs @ gs, r))"
    and parse_error: "parse bs = Inl e \<Longrightarrow> parse (bs @ c) = Inl e"
begin

lemma feed_all_error:
  "ok s \<Longrightarrow> parse (buffered s @ concat cs) = Inl e \<Longrightarrow> \<exists>s'. feed_all feed s cs = Some (s', Inl e)"
proof (induction cs arbitrary: s)
  case Nil
  then show ?case by (simp add: parse_buffered)
next
  case (Cons c cs)
  show ?case
  proof (cases "parse (buffered s @ c)")
    case (Inl e')
    with parse_error [OF this, of "concat cs"] Cons.prems feed_error [OF Cons.prems(1) this] show ?thesis by auto
  next
    case (Inr r)
    obtain fs rest where r: "r = (fs, rest)" by fastforce
    from feed_ok [OF Cons.prems(1) Inr [unfolded r]] obtain s' where
      s': "feed s c = Some (s', Inr fs)" "ok s'" "buffered s' = rest" by blast
    have "parse (rest @ concat cs) = Inl e"
      using parse_append [OF Inr [unfolded r], of "concat cs"] Cons.prems(2)
      by (auto simp: try_bind_eq_Inl)
    with Cons.IH [OF s'(2)] s' show ?thesis by auto
  qed
qed

lemma feed_all_ok:
  "ok s \<Longrightarrow> parse (buffered s @ concat cs) = Inr (fs, rest) \<Longrightarrow>
    \<exists>s'. feed_all feed s cs = Some (s', Inr fs) \<and> ok s' \<and> buffered s' = rest"
proof (induction cs arbitrary: s fs)
  case Nil
  then show ?case by (simp add: parse_buffered)
next
  case (Cons c cs)
  show ?case
  proof (cases "parse (buffered s @ c)")
    case (Inl e')
    with parse_error [OF this, of "concat cs"] Cons.prems show ?thesis by auto
  next
    case (Inr r)
    obtain gs mid where r: "r = (gs, mid)" by fastforce
    from feed_ok [OF Cons.prems(1) Inr [unfolded r]] obtain s' where
      s': "feed s c = Some (s', Inr gs)" "ok s'" "buffered s' = mid" by blast
    obtain hs where hs: "parse (mid @ concat cs) = Inr (hs, rest)" "fs = gs @ hs"
      using parse_append [OF Inr [unfolded r], of "concat cs"] Cons.prems(2)
      by (auto simp: try_bind_eq_Inr)
    with Cons.IH [OF s'(2)] s' show ?thesis by fastforce
  qed
qed

text \<open>How the stream is cut into chunks is irrelevant.\<close>

lemma feed_all_chunks:
  assumes "ok s" and "concat cs = concat ds"
  shows "map_option snd (feed_all feed s cs) = map_option snd (feed_all feed s ds)"
proof (cases "parse (buffered s @ concat cs)")
  case (Inl e)
  with assms feed_all_error [OF assms(1), of cs] feed_all_error [OF assms(1), of ds] show ?thesis by auto
next
  case (Inr r)
  obtain fs rest where "r = (fs, rest)" by fastforce
  with assms Inr feed_all_ok [OF assms(1), of cs] feed_all_ok [OF assms(1), of ds] show ?thesis by fastforce
qed

end

section \<open>The frame decoder is one\<close>

lemma split_frames_append:
  "split_frames mx bs = Inr (fs, rest) \<Longrightarrow>
    split_frames mx (bs @ c) = try_bind (split_frames mx (rest @ c)) (\<lambda>(gs, r). Inr (fs @ gs, r))"
proof (induction mx bs arbitrary: fs rule: split_frames.induct)
  case (1 mx bs)
  let ?n = "be_nat (take 4 bs)"
  show ?case
  proof (cases "length bs < 4 \<or> (?n \<le> mx \<and> length bs < 4 + ?n)")
    case True
    with 1(2) have "fs = []" "rest = bs" by (auto simp: split_frames.simps [of mx bs] Let_def split: if_splits)
    then show ?thesis by (cases "split_frames mx (bs @ c)") auto
  next
    case False
    with 1(2) have n: "\<not> length bs < 4" "\<not> mx < ?n" "\<not> length bs < 4 + ?n"
      by (auto simp: split_frames.simps [of mx bs] Let_def split: if_splits)
    with 1(2) obtain gs where gs: "split_frames mx (drop (4 + ?n) bs) = Inr (gs, rest)"
      and fs: "fs = take ?n (drop 4 bs) # gs"
      by (auto simp: split_frames.simps [of mx bs] Let_def try_bind_eq_Inr)
    have "split_frames mx (bs @ c)
        = try_bind (split_frames mx (drop (4 + ?n) bs @ c)) (\<lambda>(gs, r). Inr (take ?n (drop 4 bs) # gs, r))"
      using n by (subst split_frames.simps) (simp add: Let_def)
    also have "\<dots> = try_bind (split_frames mx (rest @ c)) (\<lambda>(hs, r). Inr (fs @ hs, r))"
      using 1(1) [OF n(1) refl n(2,3) gs] by (cases "split_frames mx (rest @ c)") (auto simp: fs)
    finally show ?thesis .
  qed
qed

lemma split_frames_error: "split_frames mx bs = Inl e \<Longrightarrow> split_frames mx (bs @ c) = Inl e"
proof (induction mx bs rule: split_frames.induct)
  case (1 mx bs)
  let ?n = "be_nat (take 4 bs)"
  have l: "\<not> length bs < 4" using 1(2) by (auto simp: split_frames_short)
  show ?case
  proof (cases "mx < ?n")
    case True
    with 1(2) l show ?thesis by (simp add: split_frames.simps [of mx bs] split_frames.simps [of mx "bs @ c"] Let_def)
  next
    case False
    with 1(2) l have n: "\<not> length bs < 4 + ?n" "split_frames mx (drop (4 + ?n) bs) = Inl e"
      by (auto simp: split_frames.simps [of mx bs] Let_def try_bind_eq_Inl split: if_splits)
    from 1(1) [OF l refl False n] n l False show ?thesis
      by (subst split_frames.simps) (simp add: Let_def)
  qed
qed

lemma push_follows:
  "wf_decoder d \<Longrightarrow> follows (maxFrameLength d) (pending d @ chunk) [] (push d chunk)"
  using push_loop_follows [of d 0 chunk "[]"] by (simp add: push_def wf_decoder_def)

interpretation frames: chunked_decoder push "split_frames mx" pending "\<lambda>d. wf_decoder d \<and> maxFrameLength d = mx" for mx
proof
  show "wf_decoder d \<and> maxFrameLength d = mx \<Longrightarrow> split_frames mx (pending d) = Inr ([], pending d)" for d
    using wf_pending_split by blast
  show "wf_decoder d \<and> maxFrameLength d = mx \<Longrightarrow> split_frames mx (pending d @ c) = Inr (fs, rest) \<Longrightarrow>
      \<exists>d'. push d c = Some (d', Inr fs) \<and> (wf_decoder d' \<and> maxFrameLength d' = mx) \<and> pending d' = rest" for d c fs rest
    using push_follows [of d c] by (auto simp: follows_def)
  show "wf_decoder d \<and> maxFrameLength d = mx \<Longrightarrow> split_frames mx (pending d @ c) = Inl e \<Longrightarrow>
      \<exists>d'. push d c = Some (d', Inl e)" for d c e
    using push_follows [of d c] by (auto simp: follows_def)
qed (rule split_frames_append split_frames_error, assumption)+

lemma resolveMaxFrameLength_bound: "resolveMaxFrameLength options = Inr m \<Longrightarrow> m \<le> MAX_UINT32_frame"
  by (auto simp: resolveMaxFrameLength_def Let_def split: option.splits js_number.splits if_splits)

lemma new_FrameDecoder_wf:
  assumes "new_FrameDecoder options = Inr d"
  shows "wf_decoder d \<and> pending d = [] \<and> resolveMaxFrameLength options = Inr (maxFrameLength d)"
  using assms resolveMaxFrameLength_bound [of options]
  by (auto simp: new_FrameDecoder_def try_bind_eq_Inr wf_decoder_def pending_def FRAME_HEADER_LENGTH_def)

section \<open>Encoded frames\<close>

lemma encodeFrame_bytes:
  "encodeFrame p = (if length p > MAX_UINT32_frame then Inl PayloadTooLong else Inr (be_bytes 4 (length p) @ p))"
proof -
  have four: "replicate (4 + length p) 0 = [0, 0, 0, 0] @ replicate (length p) (0 :: u8)"
    by (simp add: replicate_add numeral_eq_Suc)
  show ?thesis
    unfolding encodeFrame_def FRAME_HEADER_LENGTH_def Let_def four
    by (simp add: set_bytes_def be_bytes_4)
qed

lemma split_encoded_frame:
  assumes "encodeFrame p = Inr f" and "length p \<le> mx"
  shows "split_frames mx (f @ bs) = try_bind (split_frames mx bs) (\<lambda>(fs, rest). Inr (p # fs, rest))"
proof -
  have "be_nat (be_bytes 4 (length p)) = length p" and f: "f = be_bytes 4 (length p) @ p"
    using assms(1) be_nat_header [of "length p" "length p"] by (auto simp: encodeFrame_bytes split: if_splits)
  then show ?thesis
    using assms(2) split_frames_header [of "be_bytes 4 (length p)" mx "p @ bs"] by simp
qed

lemma split_encoded_frames:
  "list_all2 (\<lambda>p f. encodeFrame p = Inr f \<and> length p \<le> mx) ps fs \<Longrightarrow> split_frames mx (concat fs) = Inr (ps, [])"
  by (induction rule: list_all2_induct) (auto simp: split_encoded_frame)

lemma end_decoder_iff:
  assumes "wf_decoder d"
  shows "end_decoder d = (if pending d = [] then (d\<lparr>dec_state := DecEnded\<rparr>, Inr ()) else (fail_decoder d, Inl TruncatedFrame))"
proof -
  have "pending d = [] \<longleftrightarrow> headerLength d = 0 \<and> expectedPayloadLength d = None"
    using assms by (auto simp: pending_def wf_decoder_def split: option.splits)
  then show ?thesis using assms by (auto simp: end_decoder_def wf_decoder_def)
qed

lemma assertCompleteFrame_iff:
  "assertCompleteFrame f options = Inr () \<longleftrightarrow>
     (\<exists>mx p. resolveMaxFrameLength options = Inr mx \<and> length p \<le> mx \<and> encodeFrame p = Inr f)"
proof
  assume ok: "assertCompleteFrame f options = Inr ()"
  then obtain mx where len: "4 \<le> length f" and mx: "resolveMaxFrameLength options = Inr mx"
    and h: "header_length f \<le> mx" "length f = 4 + header_length f"
    by (auto simp: assertCompleteFrame_def FRAME_HEADER_LENGTH_def Let_def try_bind_eq_Inr split: if_splits)
  have "header_length (take 4 f) = header_length f" using len by (simp add: header_length_def)
  then have n: "header_length f = be_nat (take 4 f)" using len by (simp add: header_length_be_nat [symmetric])
  have "length (drop 4 f) = header_length f" using h(2) by simp
  moreover have "be_bytes 4 (length (drop 4 f)) @ drop 4 f = f"
    using len h(2) be_bytes_be_nat [of "take 4 f" 4] append_take_drop_id [of 4 f] by (simp add: n)
  ultimately show "\<exists>mx p. resolveMaxFrameLength options = Inr mx \<and> length p \<le> mx \<and> encodeFrame p = Inr f"
    using mx h resolveMaxFrameLength_bound [OF mx]
    by (intro exI [of _ mx] exI [of _ "drop 4 f"]) (simp add: encodeFrame_bytes)
next
  assume "\<exists>mx p. resolveMaxFrameLength options = Inr mx \<and> length p \<le> mx \<and> encodeFrame p = Inr f"
  then obtain mx p where mx: "resolveMaxFrameLength options = Inr mx" "length p \<le> mx"
    and f: "f = be_bytes 4 (length p) @ p" "length p \<le> MAX_UINT32_frame"
    by (auto simp: encodeFrame_bytes split: if_splits)
  have "header_length f = header_length (be_bytes 4 (length p))"
    by (simp add: header_length_def f(1) nth_append)
  also have "\<dots> = length p" using be_nat_header [of "length p" "length p"] f(2) by (simp add: header_length_be_nat)
  finally show "assertCompleteFrame f options = Inr ()"
    using mx f by (simp add: assertCompleteFrame_def FRAME_HEADER_LENGTH_def)
qed

section \<open>Properties of framing\<close>

text \<open>C23 (refinement). The incremental decoder, with its header buffer and its payload blocks, refines cutting
  one byte buffer at the frame boundaries: every sequence of pushes returns, with the frames of the
  concatenated chunks, or with the error of the first header that announces too long a frame.\<close>

theorem FrameDecoder_refines_split:
  assumes "new_FrameDecoder options = Inr d"
  shows "\<exists>d'. feed_all push d chunks =
    Some (d', try_bind (split_frames (maxFrameLength d) (concat chunks)) (\<lambda>(fs, rest). Inr fs))"
proof -
  note wf = new_FrameDecoder_wf [OF assms]
  show ?thesis
  proof (cases "split_frames (maxFrameLength d) (concat chunks)")
    case (Inl e)
    with wf frames.feed_all_error [of d "maxFrameLength d" chunks e] show ?thesis by auto
  next
    case (Inr r)
    obtain fs rest where r: "r = (fs, rest)" by fastforce
    with wf Inr frames.feed_all_ok [of d "maxFrameLength d" chunks fs rest] show ?thesis by auto
  qed
qed

definition sample_decoder :: frame_decoder where
  "sample_decoder = \<lparr>header = [0, 0, 0, 0], headerLength = 0, maxFrameLength = 8, payloadBlocks = [],
     currentPayloadBlock = None, currentPayloadBlockLength = 0, expectedPayloadLength = None,
     payloadLength = 0, dec_state = DecOpen\<rparr>"

lemma new_sample_decoder: "new_FrameDecoder (Some (JInt 8)) = Inr sample_decoder"
proof -
  have "replicate 4 (0 :: u8) = [0, 0, 0, 0]" by (simp add: numeral_eq_Suc)
  then show ?thesis
    by (simp add: new_FrameDecoder_def sample_decoder_def resolveMaxFrameLength_def is_safe_def max_safe_def
        MAX_UINT32_frame_def FRAME_HEADER_LENGTH_def)
qed

lemma FrameDecoder_refines_split_witness:
  "\<exists>d'. feed_all push sample_decoder [[0, 0], [0, 2, 7], [9, 0, 0, 0, 0], [0]] = Some (d', Inr [[7, 9], []])"
proof -
  have "split_frames 8 ([0, 0, 0, 2] @ [7, 9] @ [0, 0, 0, 0] @ [0]) = Inr ([[7, 9], []], [0])"
    by (subst split_frames_header, simp) (use split_frames_header [of "[0, 0, 0, 0]" 8 "[0]"] split_frames_short [of "[0]" 8] in simp)
  with FrameDecoder_refines_split [OF new_sample_decoder, of "[[0, 0], [0, 2, 7], [9, 0, 0, 0, 0], [0]]"]
  show ?thesis by (simp add: sample_decoder_def)
qed

text \<open>Frames made by \<open>encodeFrame\<close> within the limit, sent one after the other and cut into
  chunks at any places, come out of the decoder as the payloads they were made from, and the
  decoder can then end cleanly.\<close>

theorem encodeFrame_decoded_in_any_chunks:
  assumes "new_FrameDecoder options = Inr d"
    and "list_all2 (\<lambda>p f. encodeFrame p = Inr f \<and> length p \<le> maxFrameLength d) payloads frames"
    and "concat chunks = concat frames"
  shows "\<exists>d'. feed_all push d chunks = Some (d', Inr payloads) \<and> snd (end_decoder d') = Inr ()"
proof -
  note wf = new_FrameDecoder_wf [OF assms(1)]
  have "split_frames (maxFrameLength d) (concat chunks) = Inr (payloads, [])"
    unfolding assms(3) by (rule split_encoded_frames [OF assms(2)])
  with wf frames.feed_all_ok [of d "maxFrameLength d" chunks payloads "[]"] show ?thesis
    by (auto simp: end_decoder_iff)
qed

lemma encodeFrame_decoded_in_any_chunks_witness:
  "\<exists>d'. feed_all push sample_decoder [[0, 0], [0, 2, 7], [9, 0, 0, 0], [0]] = Some (d', Inr [[7, 9], []])
     \<and> snd (end_decoder d') = Inr ()"
  by (rule encodeFrame_decoded_in_any_chunks [OF new_sample_decoder, where frames = "[[0, 0, 0, 2, 7, 9], [0, 0, 0, 0]]"])
    (simp_all add: encodeFrame_bytes MAX_UINT32_frame_def be_bytes_4 sample_decoder_def)

text \<open>How the network cuts the stream into chunks never changes what the decoder returns, errors included.\<close>

theorem chunking_is_irrelevant:
  assumes "new_FrameDecoder options = Inr d" and "concat cs = concat ds"
  shows "map_option snd (feed_all push d cs) = map_option snd (feed_all push d ds)"
  using frames.feed_all_chunks [of d "maxFrameLength d"] new_FrameDecoder_wf [OF assms(1)] assms(2) by blast

lemma chunking_is_irrelevant_witness:
  "map_option snd (feed_all push sample_decoder [[0, 0], [0, 9, 7]]) = map_option snd (feed_all push sample_decoder [[0, 0, 0], [9], [7]])"
  by (rule chunking_is_irrelevant [OF new_sample_decoder]) simp

text \<open>A frame announced longer than the limit fails the decoder as soon as its header is complete, before
  any of its payload is stored; a failed decoder holds no payload and rejects every later call.\<close>

theorem oversized_frame_fails_the_decoder:
  assumes "wf_decoder d" and "split_frames (maxFrameLength d) (pending d @ chunk) = Inl e"
  shows "\<exists>d'. push d chunk = Some (d', Inl e) \<and> dec_state d' = DecFailed
    \<and> (\<forall>chunk'. push d' chunk' = Some (d', Inl FrameDecoderFailed)) \<and> end_decoder d' = (d', Inl FrameDecoderFailed)"
  using push_follows [OF assms(1), of chunk] assms(2) by (auto simp: follows_def push_def end_decoder_def)

lemma oversized_frame_fails_the_decoder_witness:
  "\<exists>d'. push sample_decoder [0, 0, 0, 9, 1] = Some (d', Inl (FrameLengthExceeded 9 8)) \<and> dec_state d' = DecFailed
    \<and> (\<forall>chunk'. push d' chunk' = Some (d', Inl FrameDecoderFailed)) \<and> end_decoder d' = (d', Inl FrameDecoderFailed)"
proof (rule oversized_frame_fails_the_decoder)
  show "wf_decoder sample_decoder" using new_FrameDecoder_wf [OF new_sample_decoder] by blast
  have "split_frames 8 ([0, 0, 0, 9] @ [1]) = Inl (FrameLengthExceeded 9 8)"
    by (subst split_frames_header) simp_all
  then show "split_frames (maxFrameLength sample_decoder) (pending sample_decoder @ [0, 0, 0, 9, 1])
      = Inl (FrameLengthExceeded 9 8)"
    by (simp add: sample_decoder_def pending_def)
qed

text \<open>\<open>assertCompleteFrame\<close> accepts exactly the bytes that \<open>encodeFrame\<close> makes of a payload within the limit.\<close>

theorem assertCompleteFrame_accepts_encoded:
  "assertCompleteFrame f options = Inr () \<longleftrightarrow>
     (\<exists>mx p. resolveMaxFrameLength options = Inr mx \<and> length p \<le> mx \<and> encodeFrame p = Inr f)"
  by (rule assertCompleteFrame_iff)

end
