(* ===== verification/Protocol_Codec.thy ===== *)
theory Protocol_Codec
  imports Cbor_Codec Frame_Stream
begin

text \<open>
  The message codec (\<open>packages/protocol/src/codec.ts\<close>): validation of candidate messages,
  \<open>encodeProtocolMessage\<close> and the incremental \<open>ValidatedMessageDecoder\<close>, composed of the CBOR codec
  and the framing. The schema check of the typebox package is the parameter \<open>check\<close>. An error
  carries its cause instead of its message text.
\<close>

section \<open>Validation\<close>

datatype message_kind = ClientMessages | ServerMessages

datatype codec_cause = CborCause cbor_error | FrameCause frame_error

datatype protocol_error =
    InvalidMessage message_kind
  | UnableToEncode message_kind codec_cause
  | MessageDecoderFailed message_kind
  | InvalidProtocolFrame message_kind codec_cause
  | InvalidProtocolFraming message_kind codec_cause

text \<open>
  \<open>every\<close> skips the holes of a sparse array. The \<open>finally\<close> block removes the value from the
  ancestors again, so the set that the caller goes on with is its own.
\<close>

fun isProtocolValue :: "'o jsv \<Rightarrow> bool \<Rightarrow> 'o set \<Rightarrow> bool" where
  "isProtocolValue JUndefined optional ancestors = optional"
| "isProtocolValue JHole optional ancestors = optional"
| "isProtocolValue JNull optional ancestors = True"
| "isProtocolValue (JBool _) optional ancestors = True"
| "isProtocolValue (JNum _) optional ancestors = True"
| "isProtocolValue (JStr _) optional ancestors = True"
| "isProtocolValue (JBytes _) optional ancestors = False"
| "isProtocolValue (JExotic _) optional ancestors = False"
| "isProtocolValue (JArr i _ vs) optional ancestors =
     (i \<notin> ancestors \<and> (\<forall>v \<in> set vs. v = JHole \<or> isProtocolValue v False (insert i ancestors)))"
| "isProtocolValue (JObj i k es) optional ancestors =
     (i \<notin> ancestors \<and> ok_proto k = ObjectProto \<and> (\<forall>e \<in> set es. isProtocolValue (snd e) True (insert i ancestors)))"
| "isProtocolValue (JGetter v) optional ancestors = isProtocolValue v optional ancestors"

definition parseMessage :: "('o jsv \<Rightarrow> bool) \<Rightarrow> message_kind \<Rightarrow> 'o jsv \<Rightarrow> protocol_error + 'o jsv" where
  "parseMessage check kind v =
     (if \<not> isProtocolValue v False {} \<or> \<not> check v then Inl (InvalidMessage kind) else Inr v)"

section \<open>Encoding\<close>

definition lift_error :: "('e \<Rightarrow> 'f) \<Rightarrow> 'e + 'a \<Rightarrow> 'f + 'a" where
  "lift_error f m = (case m of Inl e \<Rightarrow> Inl (f e) | Inr a \<Rightarrow> Inr a)"

lemma lift_error_simps [simp]: "lift_error f (Inl e) = Inl (f e)" "lift_error f (Inr a) = Inr a"
  by (simp_all add: lift_error_def)

lemma lift_error_Inr [simp]: "lift_error f m = Inr a \<longleftrightarrow> m = Inr a"
  by (cases m) (simp_all add: lift_error_def)

definition cbor_limit :: "js_number option \<Rightarrow> cbor_options option" where
  "cbor_limit options = Some
     \<lparr>opt_maxByteLength = Some (case options of None \<Rightarrow> JInt (int DEFAULT_MAX_FRAME_LENGTH) | Some m \<Rightarrow> m),
      opt_maxContainerLength = None, opt_maxDepth = None\<rparr>"

definition frame_limit :: "js_number option \<Rightarrow> js_number option" where
  "frame_limit options =
     Some (case options of None \<Rightarrow> JInt (int DEFAULT_MAX_FRAME_LENGTH) | Some m \<Rightarrow> m)"

definition encodeProtocolMessage ::
  "('o jsv \<Rightarrow> bool) \<Rightarrow> message_kind \<Rightarrow> js_number option \<Rightarrow> 'o jsv \<Rightarrow> protocol_error + bytes" where
  "encodeProtocolMessage check kind options v =
     try_bind (parseMessage check kind v) (\<lambda>validated.
       lift_error (UnableToEncode kind)
         (try_bind (lift_error CborCause (encodeCbor validated (cbor_limit options))) (\<lambda>payload.
            try_bind (lift_error FrameCause (encodeFrame payload)) (\<lambda>frame.
              try_bind (lift_error FrameCause (assertCompleteFrame frame (frame_limit options))) (\<lambda>_.
                Inr frame)))))"

section \<open>The message decoder\<close>

record message_decoder =
  md_failed :: bool
  md_frames :: frame_decoder
  md_kind :: message_kind
  md_options :: "js_number option"

definition new_ValidatedMessageDecoder :: "message_kind \<Rightarrow> js_number option \<Rightarrow> frame_error + message_decoder" where
  "new_ValidatedMessageDecoder kind options = try_bind (new_FrameDecoder options)
     (\<lambda>frames. Inr \<lparr>md_failed = False, md_frames = frames, md_kind = kind, md_options = options\<rparr>)"

text \<open>
  The decoder creates every object afresh. Only identities of ancestors are ever compared, so
  the nesting depth is identity enough.
\<close>

fun fresh_objects :: "nat \<Rightarrow> unit jsv \<Rightarrow> nat jsv" where
  "fresh_objects d (JArr _ k vs) = JArr d k (map (fresh_objects (Suc d)) vs)"
| "fresh_objects d (JObj _ k es) = JObj d k (map (\<lambda>(key, v). (key, fresh_objects (Suc d) v)) es)"
| "fresh_objects d (JGetter v) = JGetter (fresh_objects d v)"
| "fresh_objects d JUndefined = JUndefined"
| "fresh_objects d JHole = JHole"
| "fresh_objects d JNull = JNull"
| "fresh_objects d (JBool b) = JBool b"
| "fresh_objects d (JNum x) = JNum x"
| "fresh_objects d (JStr s) = JStr s"
| "fresh_objects d (JBytes b) = JBytes b"
| "fresh_objects d (JExotic x) = JExotic x"

fun parse_frames :: "(unit jsv \<Rightarrow> bool) \<Rightarrow> message_kind \<Rightarrow> js_number option \<Rightarrow> bytes list \<Rightarrow> protocol_error + unit jsv list" where
  "parse_frames check kind options [] = Inr []"
| "parse_frames check kind options (frame # frames) =
     try_bind (lift_error (InvalidProtocolFrame kind \<circ> CborCause) (decodeCbor frame (cbor_limit options))) (\<lambda>v.
       try_bind (parseMessage (\<lambda>_. check v) kind (fresh_objects 0 v)) (\<lambda>_.
         try_bind (parse_frames check kind options frames) (\<lambda>vs. Inr (v # vs))))"

definition push_messages :: "(unit jsv \<Rightarrow> bool) \<Rightarrow> message_decoder \<Rightarrow> bytes \<Rightarrow>
    (message_decoder \<times> (protocol_error + unit jsv list)) option" where
  "push_messages check d chunk =
     (if md_failed d then Some (d, Inl (MessageDecoderFailed (md_kind d)))
      else case push (md_frames d) chunk of
        None \<Rightarrow> None
      | Some (f, Inl e) \<Rightarrow>
          Some (d\<lparr>md_frames := f, md_failed := True\<rparr>, Inl (InvalidProtocolFrame (md_kind d) (FrameCause e)))
      | Some (f, Inr frames) \<Rightarrow> (case parse_frames check (md_kind d) (md_options d) frames of
            Inl e \<Rightarrow> Some (d\<lparr>md_frames := f, md_failed := True\<rparr>, Inl e)
          | Inr messages \<Rightarrow> Some (d\<lparr>md_frames := f\<rparr>, Inr messages)))"

definition end_messages :: "message_decoder \<Rightarrow> message_decoder \<times> (protocol_error + unit)" where
  "end_messages d =
     (if md_failed d then (d, Inl (MessageDecoderFailed (md_kind d)))
      else case end_decoder (md_frames d) of
        (f, Inl e) \<Rightarrow> (d\<lparr>md_frames := f, md_failed := True\<rparr>, Inl (InvalidProtocolFraming (md_kind d) (FrameCause e)))
      | (f, Inr _) \<Rightarrow> (d\<lparr>md_frames := f\<rparr>, Inr ()))"

section \<open>Messages survive the wire\<close>

lemma isProtocolValue_optional: "isProtocolValue v False A \<Longrightarrow> isProtocolValue v True A"
  by (induction v) auto

lemma isProtocolValue_data:
  "encodable opts d A v \<Longrightarrow> isProtocolValue v optional B \<Longrightarrow> isProtocolValue (fresh_objects n (value_data v)) False {..<n}"
proof (induction v arbitrary: d A optional B n)
  case (JArr i k vs)
  have set: "insert n {..<n} = {..<Suc n}" by auto
  have "isProtocolValue (fresh_objects (Suc n) (value_data v)) False {..<Suc n}" if v: "v \<in> set vs" for v
  proof -
    have "encodable opts (d + 1) (insert i A) v" "\<not> is_undefined v" using JArr.prems(1) v by auto
    moreover then have "isProtocolValue v False (insert i B)" using JArr.prems(2) v by auto
    ultimately show ?thesis using JArr.IH [OF v] by blast
  qed
  then show ?case by (simp add: set)
next
  case (JObj i k es)
  have set: "insert n {..<n} = {..<Suc n}" by auto
  have "isProtocolValue (fresh_objects (Suc n) (value_data (snd e))) False {..<Suc n}"
    if e: "e \<in> set es" "\<not> is_undefined (snd e)" for e
  proof -
    have "snd e \<in> Basic_BNFs.snds e" by (cases e) simp
    moreover have "encodable opts (d + 1) (insert i A) (snd e)" using JObj.prems(1) e by auto
    moreover have "isProtocolValue (snd e) True (insert i B)" using JObj.prems(2) e by auto
    ultimately show ?thesis using JObj.IH [OF e(1)] by blast
  qed
  then have entries: "\<forall>e \<in> set es. \<not> is_undefined (snd e) \<longrightarrow>
      isProtocolValue (fresh_objects (Suc n) (value_data (snd e))) True {..<Suc n}"
    using isProtocolValue_optional by blast
  then show ?case by (auto simp: set plain_object_def)
qed auto

lemma encodeProtocolMessage_Inr:
  assumes "encodeProtocolMessage check kind options v = Inr f"
  obtains p mx where "isProtocolValue v False {}" and "check v" and "encodeCbor v (cbor_limit options) = Inr p"
    and "encodeFrame p = Inr f" and "resolveMaxFrameLength options = Inr mx" and "length p \<le> mx"
proof -
  from assms obtain p where v: "isProtocolValue v False {}" "check v" and p: "encodeCbor v (cbor_limit options) = Inr p"
    and f: "encodeFrame p = Inr f" and a: "assertCompleteFrame f (frame_limit options) = Inr ()"
    by (auto simp: encodeProtocolMessage_def parseMessage_def try_bind_eq_Inr split: if_splits)
  from a obtain mx q where q: "resolveMaxFrameLength (frame_limit options) = Inr mx" "length q \<le> mx" "encodeFrame q = Inr f"
    unfolding assertCompleteFrame_iff by blast
  have "resolveMaxFrameLength (frame_limit options) = resolveMaxFrameLength options"
    by (simp add: frame_limit_def resolveMaxFrameLength_def split: option.splits)
  moreover have "q = p"
    using q(3) f by (auto simp: encodeFrame_bytes split: if_splits)
  ultimately show ?thesis using v p f q by (intro that [of p mx]) simp_all
qed

lemma parse_frames_append:
  "parse_frames check kind options fs = Inr vs \<Longrightarrow> parse_frames check kind options (fs @ gs)
    = try_bind (parse_frames check kind options gs) (\<lambda>ws. Inr (vs @ ws))"
proof (induction fs arbitrary: vs)
  case Nil
  then show ?case by (cases "parse_frames check kind options gs") simp_all
next
  case (Cons f fs)
  then show ?case by (cases "parse_frames check kind options gs") (auto simp: try_bind_eq_Inr)
qed

lemma parse_frames_prefix:
  "parse_frames check kind options (fs @ gs) = Inr vs \<Longrightarrow> \<exists>ws. parse_frames check kind options fs = Inr ws"
  by (induction fs arbitrary: vs) (auto simp: try_bind_eq_Inr)

lemma feed_all_messages:
  assumes "\<not> md_failed d" and "feed_all push (md_frames d) chunks = Some (f, Inr fs)"
    and "parse_frames check (md_kind d) (md_options d) fs = Inr vs"
  shows "feed_all (push_messages check) d chunks = Some (d\<lparr>md_frames := f\<rparr>, Inr vs)"
  using assms
proof (induction chunks arbitrary: d fs vs)
  case Nil
  then show ?case by simp
next
  case (Cons c cs)
  from Cons.prems(2) obtain f1 fs1 fs2 where f1: "push (md_frames d) c = Some (f1, Inr fs1)"
    and f2: "feed_all push f1 cs = Some (f, Inr fs2)" and fs: "fs = fs1 @ fs2"
    by (auto split: option.splits sum.splits)
  obtain vs1 where vs1: "parse_frames check (md_kind d) (md_options d) fs1 = Inr vs1"
    using Cons.prems(3) parse_frames_prefix [of check "md_kind d" "md_options d" fs1 fs2] by (auto simp: fs)
  then obtain vs2 where vs2: "parse_frames check (md_kind d) (md_options d) fs2 = Inr vs2" and vs: "vs = vs1 @ vs2"
    using Cons.prems(3) parse_frames_append [OF vs1, of fs2] by (auto simp: fs try_bind_eq_Inr)
  have "feed_all (push_messages check) (d\<lparr>md_frames := f1\<rparr>) cs = Some (d\<lparr>md_frames := f1\<rparr>\<lparr>md_frames := f\<rparr>, Inr vs2)"
    using Cons.prems(1) f2 vs2 by (intro Cons.IH) simp_all
  moreover have "push_messages check d c = Some (d\<lparr>md_frames := f1\<rparr>, Inr vs1)"
    using Cons.prems(1) f1 vs1 by (simp add: push_messages_def)
  ultimately show ?case by (simp add: vs)
qed

text \<open>
  One message: the payload it was encoded to decodes and validates, when the schema check
  depends on the data only in that it accepts the data of what it accepts.
\<close>

lemma parse_frames_encoded:
  assumes "list_all2 (\<lambda>v p. encodeCbor v (cbor_limit options) = Inr p) vs ps"
    and "\<forall>v \<in> set vs. isProtocolValue v False {} \<and> check (value_data v) \<and> proper_value v"
  shows "parse_frames check kind options ps = Inr (map value_data vs)"
  using assms
proof (induction rule: list_all2_induct)
  case Nil
  show ?case by simp
next
  case (Cons v vs p ps)
  have "isProtocolValue (fresh_objects 0 (value_data v)) False {}"
    using Cons.hyps(1) Cons.prems isProtocolValue_data [of _ 0 "{}" v False "{}" 0] unfolding encodeCbor_iff by auto
  moreover have "decodeCbor p (cbor_limit options) = Inr (value_data v)"
    using Cons.hyps(1) Cons.prems by (intro cbor.dec_enc) auto
  ultimately show ?case using Cons.IH Cons.prems by (simp add: parseMessage_def lift_error_def)
qed

lemma encoded_stream_decodes:
  assumes enc: "list_all2 (\<lambda>m f. encodeProtocolMessage check kind options m = Inr f) messages frames"
    and proper: "\<forall>m \<in> set messages. proper_value m"
    and schema: "\<forall>m \<in> set messages. check m \<longrightarrow> check' (value_data m)"
    and dec: "new_ValidatedMessageDecoder kind options = Inr d"
    and chunks: "concat chunks = concat frames"
  shows "\<exists>d'. feed_all (push_messages check') d chunks = Some (d', Inr (map value_data messages))
    \<and> snd (end_messages d') = Inr ()"
proof -
  from dec obtain fd where fd: "new_FrameDecoder options = Inr fd"
    and d: "d = \<lparr>md_failed = False, md_frames = fd, md_kind = kind, md_options = options\<rparr>"
    by (auto simp: new_ValidatedMessageDecoder_def try_bind_eq_Inr)
  note wf = new_FrameDecoder_wf [OF fd]
  have "\<exists>ps. list_all2 (\<lambda>v p. encodeCbor v (cbor_limit options) = Inr p) messages ps
      \<and> list_all2 (\<lambda>p f. encodeFrame p = Inr f \<and> length p \<le> maxFrameLength fd) ps frames"
    using enc
  proof (induction rule: list_all2_induct)
    case Nil
    show ?case by (intro exI [of _ "[]"]) simp
  next
    case (Cons m ms f fs)
    then obtain ps p where ps: "list_all2 (\<lambda>v p. encodeCbor v (cbor_limit options) = Inr p) ms ps"
        "list_all2 (\<lambda>p f. encodeFrame p = Inr f \<and> length p \<le> maxFrameLength fd) ps fs"
      and p: "encodeCbor m (cbor_limit options) = Inr p" "encodeFrame p = Inr f" "length p \<le> maxFrameLength fd"
      using wf by (auto elim!: encodeProtocolMessage_Inr)
    then show ?case by (intro exI [of _ "p # ps"]) simp
  qed
  then obtain ps where ps: "list_all2 (\<lambda>v p. encodeCbor v (cbor_limit options) = Inr p) messages ps"
      "list_all2 (\<lambda>p f. encodeFrame p = Inr f \<and> length p \<le> maxFrameLength fd) ps frames" by blast
  have valid: "\<forall>m \<in> set messages. isProtocolValue m False {} \<and> check' (value_data m) \<and> proper_value m"
  proof
    fix m assume m: "m \<in> set messages"
    with enc obtain f where "encodeProtocolMessage check kind options m = Inr f"
      by (auto simp: list_all2_conv_all_nth in_set_conv_nth)
    then have "isProtocolValue m False {}" and "check m" by (auto elim: encodeProtocolMessage_Inr)
    with m proper schema show "isProtocolValue m False {} \<and> check' (value_data m) \<and> proper_value m" by blast
  qed
  have "split_frames (maxFrameLength fd) (concat chunks) = Inr (ps, [])"
    unfolding chunks by (rule split_encoded_frames [OF ps(2)])
  then obtain f where f: "feed_all push fd chunks = Some (f, Inr ps)" "wf_decoder f" "pending f = []"
    using frames.feed_all_ok [of fd "maxFrameLength fd" chunks ps "[]"] wf by auto
  have "feed_all (push_messages check') d chunks = Some (d\<lparr>md_frames := f\<rparr>, Inr (map value_data messages))"
    using f(1) parse_frames_encoded [OF ps(1) valid] by (intro feed_all_messages [where fs = ps]) (simp_all add: d)
  then show ?thesis using f by (simp add: d end_messages_def end_decoder_iff)
qed

text \<open>C2 (roundtrip). Messages that one side encodes, sent one after the other and delivered in chunks of any size,
  come out of the message decoder of the other side as their data, in order, and the stream then
  ends cleanly. \<open>check\<close> and \<open>check'\<close> are the schema check on the message and on decoded data; the
  schemas accept the data of a message they accept.\<close>

theorem messages_survive_the_wire:
  assumes enc: "list_all2 (\<lambda>m f. encodeProtocolMessage check kind options m = Inr f) messages frames"
    and proper: "\<forall>m \<in> set messages. proper_value m"
    and schema: "\<forall>m \<in> set messages. check m \<longrightarrow> check' (value_data m)"
    and dec: "new_ValidatedMessageDecoder kind options = Inr d"
    and chunks: "concat chunks = concat frames"
  shows "\<exists>d'. feed_all (push_messages check') d chunks = Some (d', Inr (map value_data messages))
    \<and> snd (end_messages d') = Inr ()"
  using assms by (rule encoded_stream_decodes)

definition sample_message :: "nat jsv" where
  "sample_message = JObj 1 plain_object [(jlit ''id'', JNum (JInt 7)), (jlit ''opt'', JUndefined)]"

lemma sample_message_encoded:
  "encodeProtocolMessage (\<lambda>_. True) ClientMessages None sample_message = Inr [0, 0, 0, 5, 0xA1, 0x62, 0x69, 0x64, 0x07]"
proof -
  have "resolveOptions (cbor_limit None) = Inr \<lparr>maxByteLength = 16777216, maxContainerLength = 1000000, maxDepth = 64\<rparr>"
    by (simp add: cbor_limit_def resolveOptions_def resolveLimit_def is_safe_def max_safe_def DEFAULT_MAX_FRAME_LENGTH_def
        DEFAULT_MAX_CBOR_CONTAINER_LENGTH_def DEFAULT_MAX_CBOR_DEPTH_def MAX_UINT32_def MAX_CONFIGURED_DEPTH_def)
  then have "encodeCbor sample_message (cbor_limit None) = Inr [0xA1, 0x62, 0x69, 0x64, 0x07]"
    by (simp add: encodeCbor_iff sample_message_def cbor_eval)
  moreover have "encodeFrame [0xA1, 0x62, 0x69, 0x64, 0x07] = Inr [0, 0, 0, 5, 0xA1, 0x62, 0x69, 0x64, 0x07]"
    by (simp add: encodeFrame_bytes MAX_UINT32_frame_def be_bytes_4)
  moreover have "assertCompleteFrame [0, 0, 0, 5, 0xA1, 0x62, 0x69, 0x64, 0x07] (frame_limit None) = Inr ()"
    by (simp add: assertCompleteFrame_def FRAME_HEADER_LENGTH_def header_length_def frame_limit_def
        resolveMaxFrameLength_def is_safe_def max_safe_def DEFAULT_MAX_FRAME_LENGTH_def MAX_UINT32_frame_def)
  ultimately show ?thesis
    by (simp add: encodeProtocolMessage_def parseMessage_def sample_message_def plain_object_def)
qed

definition sample_message_decoder :: message_decoder where
  "sample_message_decoder = (case new_ValidatedMessageDecoder ClientMessages None of Inr d \<Rightarrow> d)"

lemma sample_message_decoder: "new_ValidatedMessageDecoder ClientMessages None = Inr sample_message_decoder"
  by (simp add: sample_message_decoder_def new_ValidatedMessageDecoder_def new_FrameDecoder_def resolveMaxFrameLength_def
      DEFAULT_MAX_FRAME_LENGTH_def is_safe_def max_safe_def MAX_UINT32_frame_def)

lemma messages_survive_the_wire_witness:
  "\<exists>d'. feed_all (push_messages (\<lambda>v. v \<noteq> JNull)) sample_message_decoder [[0, 0], [0, 5, 0xA1], [0x62, 0x69, 0x64, 0x07]]
      = Some (d', Inr [JObj () plain_object [(jlit ''id'', JNum (JInt 7))]]) \<and> snd (end_messages d') = Inr ()"
proof -
  have data: "map value_data [sample_message] = [JObj () plain_object [(jlit ''id'', JNum (JInt 7))]]"
    by (simp add: sample_message_def)
  show ?thesis
    unfolding data [symmetric]
    by (rule messages_survive_the_wire [OF _ _ _ sample_message_decoder,
          where check = "\<lambda>_. True" and frames = "[[0, 0, 0, 5, 0xA1, 0x62, 0x69, 0x64, 0x07]]"])
      (simp_all add: sample_message_encoded, simp_all add: sample_message_def cbor_eval)
qed

text \<open>A message decoder that has thrown once stays failed: every later push and the end are rejected and
  change nothing, so no message behind a malformed one is ever delivered.\<close>

theorem message_decoder_failure_is_final:
  assumes "push_messages check d chunk = Some (d', Inl e)"
  shows "md_failed d' \<and> push_messages check d' chunk' = Some (d', Inl (MessageDecoderFailed (md_kind d)))
    \<and> end_messages d' = (d', Inl (MessageDecoderFailed (md_kind d)))"
proof -
  from assms have "md_failed d' \<and> md_kind d' = md_kind d"
    by (auto simp: push_messages_def split: if_splits option.splits prod.splits sum.splits)
  then show ?thesis by (simp add: push_messages_def end_messages_def)
qed

lemma message_decoder_failure_is_final_witness:
  "push_messages (\<lambda>_. True) (sample_message_decoder\<lparr>md_failed := True\<rparr>) [1]
     = Some (sample_message_decoder\<lparr>md_failed := True\<rparr>, Inl (MessageDecoderFailed (md_kind sample_message_decoder)))"
proof -
  have "push_messages (\<lambda>_. True) (sample_message_decoder\<lparr>md_failed := True\<rparr>) []
     = Some (sample_message_decoder\<lparr>md_failed := True\<rparr>, Inl (MessageDecoderFailed (md_kind sample_message_decoder)))"
    by (simp add: push_messages_def)
  from message_decoder_failure_is_final [OF this, of "[1]"] show ?thesis by simp
qed

end
