(* ===== verification/Messages.thy ===== *)
theory Messages
  imports Js_Values
begin

text \<open>
  The messages of a conversation (\<open>packages/ai/src/types.ts\<close> and
  \<open>packages/agent/src/harness/messages.ts\<close>): the content blocks, the usage report, the three
  roles of a provider message, the four further roles of the agent, and \<open>convertToLlm\<close>, which
  turns an agent's transcript into the provider's. Token counts and timestamps are integers,
  costs exact rationals; opaque JSON data is a \<open>unit jsv\<close>.
\<close>

type_synonym json = "unit jsv"

section \<open>Provider messages\<close>

record usage_cost =
  cost_input :: rat
  cost_output :: rat
  cost_cacheRead :: rat
  cost_cacheWrite :: rat
  cost_total :: rat

record usage =
  u_input :: int
  u_output :: int
  u_cacheRead :: int
  u_cacheWrite :: int
  u_cacheWrite1h :: "int option"
  u_reasoning :: "int option"
  u_totalTokens :: int
  u_cost :: usage_cost

record tool_call =
  call_id :: jstr
  call_name :: jstr
  call_arguments :: "(jstr \<times> json) list"
  call_thoughtSignature :: "jstr option"
  call_namespace :: "jstr option"

datatype content_block =
    TextContent jstr "jstr option"
  | ThinkingContent jstr "jstr option" "bool option"
  | ImageContent jstr jstr
  | ToolCall tool_call

datatype message_content = PlainText jstr | Blocks "content_block list"

datatype stop_reason =
  PendingStop | StopStop | LengthStop | ToolUseStop | ErrorStop | AbortedStop | DeferredStop

record deferred_handle =
  dh_provider :: jstr
  dh_modelId :: jstr
  dh_api :: jstr
  dh_id :: jstr
  dh_expiresAt :: "int option"
  dh_pollAfterMs :: "int option"
  dh_data :: "json option"

record user_message =
  um_content :: message_content
  um_timestamp :: int

record assistant_message =
  am_content :: "content_block list"
  am_api :: jstr
  am_provider :: jstr
  am_model :: jstr
  am_responseModel :: "jstr option"
  am_responseId :: "jstr option"
  am_diagnostics :: "json list option"
  am_usage :: usage
  am_stopReason :: stop_reason
  am_deferred :: "deferred_handle option"
  am_errorMessage :: "jstr option"
  am_rawStopReason :: "jstr option"
  am_endTurn :: "bool option"
  am_timestamp :: int

record tool_result_message =
  tr_toolCallId :: jstr
  tr_toolName :: jstr
  tr_content :: "content_block list"
  tr_details :: "json option"
  tr_usage :: "usage option"
  tr_addedToolNames :: "jstr list option"
  tr_isError :: bool
  tr_timestamp :: int

datatype message =
    UserMsg user_message
  | AssistantMsg assistant_message
  | ToolResultMsg tool_result_message

section \<open>Agent messages\<close>

record bash_execution_message =
  be_command :: jstr
  be_output :: jstr
  be_exitCode :: "int option"
  be_cancelled :: bool
  be_truncated :: bool
  be_fullOutputPath :: "jstr option"
  be_timestamp :: int
  be_excludeFromContext :: "bool option"

record custom_message =
  cm_customType :: jstr
  cm_content :: message_content
  cm_display :: bool
  cm_details :: "json option"
  cm_timestamp :: int

record branch_summary_message =
  bs_summary :: jstr
  bs_fromId :: jstr
  bs_timestamp :: int

record compaction_summary_message =
  cs_summary :: jstr
  cs_tokensBefore :: int
  cs_timestamp :: int

text \<open>\<open>OtherMessage\<close> stands for the roles that other packages merge into \<open>CustomAgentMessages\<close>.\<close>

datatype agent_message =
    LlmMessage message
  | BashExecution bash_execution_message
  | CustomMsg custom_message
  | BranchSummaryMsg branch_summary_message
  | CompactionSummaryMsg compaction_summary_message
  | OtherMessage json

definition nl :: jstr where "nl = [10]"

definition COMPACTION_SUMMARY_PREFIX :: jstr where
  "COMPACTION_SUMMARY_PREFIX =
     jlit ''The conversation history before this point was compacted into the following summary:'' @ nl @ nl
       @ jlit ''<summary>'' @ nl"

definition COMPACTION_SUMMARY_SUFFIX :: jstr where
  "COMPACTION_SUMMARY_SUFFIX = nl @ jlit ''</summary>''"

definition BRANCH_SUMMARY_PREFIX :: jstr where
  "BRANCH_SUMMARY_PREFIX =
     jlit ''The following is a summary of a branch that this conversation came back from:'' @ nl @ nl
       @ jlit ''<summary>'' @ nl"

definition BRANCH_SUMMARY_SUFFIX :: jstr where
  "BRANCH_SUMMARY_SUFFIX = jlit ''</summary>''"

text \<open>Decimal numerals, as template literals print integers.\<close>

fun show_nat :: "nat \<Rightarrow> jstr" where
  "show_nat n = (if n < 10 then [word_of_nat (48 + n)] else show_nat (n div 10) @ [word_of_nat (48 + n mod 10)])"

declare show_nat.simps [simp del]

definition show_int :: "int \<Rightarrow> jstr" where
  "show_int n = (if n < 0 then jlit ''-'' @ show_nat (nat (- n)) else show_nat (nat n))"

definition bashExecutionToText :: "bash_execution_message \<Rightarrow> jstr" where
  "bashExecutionToText msg =
     (let text = jlit ''Ran `'' @ be_command msg @ jlit ''`'' @ nl;
          text = text @ (if be_output msg \<noteq> [] then jlit ''```'' @ nl @ be_output msg @ nl @ jlit ''```''
                         else jlit ''(no output)'');
          text = (if be_cancelled msg then text @ nl @ nl @ jlit ''(command cancelled)''
                  else case be_exitCode msg of
                    None \<Rightarrow> text
                  | Some code \<Rightarrow> if code \<noteq> 0 then text @ nl @ nl @ jlit ''Command exited with code '' @ show_int code else text)
      in case be_fullOutputPath msg of
           None \<Rightarrow> text
         | Some path \<Rightarrow> if be_truncated msg \<and> path \<noteq> []
             then text @ nl @ nl @ jlit ''[Output truncated. Full output: '' @ path @ jlit '']'' else text)"

text \<open>A timestamp is a number or a date string that \<open>Date\<close> parses (\<open>parse_date\<close>).\<close>

definition timestamp_ms :: "(jstr \<Rightarrow> int) \<Rightarrow> jstr + int \<Rightarrow> int" where
  "timestamp_ms parse_date t = (case t of Inl s \<Rightarrow> parse_date s | Inr n \<Rightarrow> n)"

definition createBranchSummaryMessage :: "(jstr \<Rightarrow> int) \<Rightarrow> jstr \<Rightarrow> jstr \<Rightarrow> jstr + int \<Rightarrow> branch_summary_message" where
  "createBranchSummaryMessage parse_date summary fromId timestamp =
     \<lparr>bs_summary = summary, bs_fromId = fromId, bs_timestamp = timestamp_ms parse_date timestamp\<rparr>"

definition createCompactionSummaryMessage :: "(jstr \<Rightarrow> int) \<Rightarrow> jstr \<Rightarrow> int \<Rightarrow> jstr + int \<Rightarrow> compaction_summary_message" where
  "createCompactionSummaryMessage parse_date summary tokensBefore timestamp =
     \<lparr>cs_summary = summary, cs_tokensBefore = tokensBefore, cs_timestamp = timestamp_ms parse_date timestamp\<rparr>"

definition createCustomMessage ::
  "(jstr \<Rightarrow> int) \<Rightarrow> jstr \<Rightarrow> message_content \<Rightarrow> bool \<Rightarrow> json option \<Rightarrow> jstr + int \<Rightarrow> custom_message" where
  "createCustomMessage parse_date customType content display details timestamp =
     \<lparr>cm_customType = customType, cm_content = content, cm_display = display, cm_details = details,
      cm_timestamp = timestamp_ms parse_date timestamp\<rparr>"

definition convert_message :: "agent_message \<Rightarrow> message option" where
  "convert_message m = (case m of
      BashExecution b \<Rightarrow>
        if be_excludeFromContext b = Some True then None
        else Some (UserMsg \<lparr>um_content = Blocks [TextContent (bashExecutionToText b) None], um_timestamp = be_timestamp b\<rparr>)
    | CustomMsg c \<Rightarrow> Some (UserMsg
        \<lparr>um_content = (case cm_content c of PlainText s \<Rightarrow> Blocks [TextContent s None] | Blocks bs \<Rightarrow> Blocks bs),
         um_timestamp = cm_timestamp c\<rparr>)
    | BranchSummaryMsg b \<Rightarrow> Some (UserMsg
        \<lparr>um_content = Blocks [TextContent (BRANCH_SUMMARY_PREFIX @ bs_summary b @ BRANCH_SUMMARY_SUFFIX) None],
         um_timestamp = bs_timestamp b\<rparr>)
    | CompactionSummaryMsg c \<Rightarrow> Some (UserMsg
        \<lparr>um_content = Blocks [TextContent (COMPACTION_SUMMARY_PREFIX @ cs_summary c @ COMPACTION_SUMMARY_SUFFIX) None],
         um_timestamp = cs_timestamp c\<rparr>)
    | LlmMessage m \<Rightarrow> Some m
    | OtherMessage _ \<Rightarrow> None)"

definition convertToLlm :: "agent_message list \<Rightarrow> message list" where
  "convertToLlm messages = List.map_filter convert_message messages"

lemma convertToLlm_append: "convertToLlm (xs @ ys) = convertToLlm xs @ convertToLlm ys"
  by (simp add: convertToLlm_def map_filter_def)

lemma convertToLlm_messages [simp]: "convertToLlm (map LlmMessage ms) = ms"
  by (induction ms) (simp_all add: convertToLlm_def map_filter_def convert_message_def)

end
