(* ===== verification/Session_Types.thy ===== *)
theory Session_Types
  imports Messages
begin

text \<open>
  The durable data of a session (\<open>packages/agent/src/harness/session/types.ts\<close>): the entries of
  the conversation tree, the records of the lanes, the queries and the errors. \<open>Omit\<close> types are
  the base records that the full ones extend: a \<open>provisioned_entry\<close> lacks what the storage
  assigns, and so does a \<open>new_record\<close>.
\<close>

section \<open>Entries\<close>

datatype entry_type =
    MessageT | ModelChangeT | ThinkingLevelT | ActiveToolsT | CompactionT | BranchSummaryT | CustomT

datatype entry_body =
    MessageBody agent_message bool
  | ModelChangeBody jstr jstr
  | ThinkingLevelBody jstr
  | ActiveToolsBody "jstr list"
  | CompactionBody jstr "agent_message list" int "json option" "usage option"
  | BranchSummaryBody jstr jstr "json option" "usage option"
  | CustomBody jstr "json option"

fun body_type :: "entry_body \<Rightarrow> entry_type" where
  "body_type (MessageBody _ _) = MessageT"
| "body_type (ModelChangeBody _ _) = ModelChangeT"
| "body_type (ThinkingLevelBody _) = ThinkingLevelT"
| "body_type (ActiveToolsBody _) = ActiveToolsT"
| "body_type (CompactionBody _ _ _ _ _) = CompactionT"
| "body_type (BranchSummaryBody _ _ _ _) = BranchSummaryT"
| "body_type (CustomBody _ _) = CustomT"

record provisioned_entry =
  entry_id :: jstr
  entry_body :: entry_body

record entry = provisioned_entry +
  entry_seq :: int
  entry_parentId :: "jstr option"
  entry_timestamp :: int

abbreviation entry_type :: "('a) provisioned_entry_scheme \<Rightarrow> entry_type" where
  "entry_type e \<equiv> body_type (entry_body e)"

section \<open>Records\<close>

datatype intent_kind = RunK | CompactionK | NavigationK

datatype intent =
    RunIntent "agent_message list" "provisioned_entry list" "jstr option" "(jstr \<times> json) list option"
  | CompactionIntent "jstr option" jstr
  | NavigationIntent "jstr option" bool "jstr option" "jstr option" "jstr option"

fun kind_of_intent :: "intent \<Rightarrow> intent_kind" where
  "kind_of_intent (RunIntent _ _ _ _) = RunK"
| "kind_of_intent (CompactionIntent _ _) = CompactionK"
| "kind_of_intent (NavigationIntent _ _ _ _ _) = NavigationK"

datatype operation_outcome = Completed | Aborted | Failed | Declined

datatype compaction_reason = ManualReason | ThresholdReason | OverflowReason | OtherReason jstr

text \<open>An attempt carries a reason exactly when it is a compaction; the reducer checks that of what it reads.\<close>

datatype attempt_step = AssistantStep | BranchSummaryStep | CompactionStep

datatype replay_policy = ReplayNever | ReplaySafe

datatype queue_name = SteerQ | FollowUpQ | NextRunQ

datatype usage_cause =
    StepUsage attempt_step jstr jstr int stop_reason
  | DeferredFetchUsage jstr jstr int stop_reason
  | ToolUsage jstr jstr jstr
  | HookUsage jstr jstr
  | AdjustmentUsage "jstr option" "jstr option" "json option"

datatype record_type =
    OperationStartedT | AbortRequestedT | OperationFinishedT | StepAttemptT | ToolStartedT
  | QueueEnqueuedT | QueueCancelledT | WriteDeferredT | UsageT

datatype record_body =
    OperationStarted "jstr option" intent
  | AbortRequested jstr
  | OperationFinished jstr operation_outcome "(jstr \<times> jstr) option"
  | StepAttempt jstr attempt_step int jstr "compaction_reason option"
  | ToolStarted jstr jstr int jstr jstr "(jstr \<times> json) list" jstr replay_policy
  | QueueEnqueued queue_name "jstr option" provisioned_entry
  | QueueCancelled "jstr option" jstr
  | WriteDeferred jstr provisioned_entry
  | UsageRecord usage usage_cause

fun record_body_type :: "record_body \<Rightarrow> record_type" where
  "record_body_type (OperationStarted _ _) = OperationStartedT"
| "record_body_type (AbortRequested _) = AbortRequestedT"
| "record_body_type (OperationFinished _ _ _) = OperationFinishedT"
| "record_body_type (StepAttempt _ _ _ _ _) = StepAttemptT"
| "record_body_type (ToolStarted _ _ _ _ _ _ _ _) = ToolStartedT"
| "record_body_type (QueueEnqueued _ _ _) = QueueEnqueuedT"
| "record_body_type (QueueCancelled _ _) = QueueCancelledT"
| "record_body_type (WriteDeferred _ _) = WriteDeferredT"
| "record_body_type (UsageRecord _ _) = UsageT"

text \<open>The \<open>runId\<close> property, when the record has one.\<close>

fun usage_run_id :: "usage_cause \<Rightarrow> jstr option" where
  "usage_run_id (StepUsage _ r _ _ _) = Some r"
| "usage_run_id (DeferredFetchUsage r _ _ _) = Some r"
| "usage_run_id (ToolUsage r _ _) = Some r"
| "usage_run_id (HookUsage r _) = Some r"
| "usage_run_id (AdjustmentUsage r _ _) = r"

fun record_run_id :: "record_body \<Rightarrow> jstr option" where
  "record_run_id (OperationStarted _ _) = None"
| "record_run_id (AbortRequested r) = Some r"
| "record_run_id (OperationFinished r _ _) = Some r"
| "record_run_id (StepAttempt r _ _ _ _) = Some r"
| "record_run_id (ToolStarted r _ _ _ _ _ _ _) = Some r"
| "record_run_id (QueueEnqueued _ r _) = r"
| "record_run_id (QueueCancelled r _) = r"
| "record_run_id (WriteDeferred r _) = Some r"
| "record_run_id (UsageRecord _ c) = usage_run_id c"

record new_record =
  rec_id :: jstr
  rec_lane :: jstr
  rec_body :: record_body

record lane_record = new_record +
  rec_seq :: int
  rec_timestamp :: int

abbreviation record_type :: "('a) new_record_scheme \<Rightarrow> record_type" where
  "record_type r \<equiv> record_body_type (rec_body r)"

section \<open>Queries, the log and metadata\<close>

datatype entry_order = NewestFirst | OldestFirst

record entry_query =
  eq_type :: "entry_type option"
  eq_customType :: "jstr option"
  eq_order :: "entry_order option"
  eq_limit :: "js_number option"
  eq_cursor :: "js_number option"

record branch_query = entry_query +
  bq_start :: "jstr option"
  bq_stopAtType :: "entry_type option"
  bq_stopAtId :: "jstr option"

record record_query =
  rq_lane :: "jstr option"
  rq_type :: "record_type option"
  rq_runId :: "jstr option"
  rq_operationKind :: "intent_kind option"
  rq_afterSeq :: "js_number option"
  rq_order :: "entry_order option"
  rq_limit :: "js_number option"

record session_metadata =
  sm_id :: jstr
  sm_createdAt :: int
  sm_parentSessionId :: "jstr option"

record session_stats =
  st_messageCount :: int
  st_cachedTokens :: int
  st_uncachedTokens :: int
  st_totalTokens :: int
  st_costTotal :: rat

datatype log_item =
    LogEntry int entry
  | LogRecord int lane_record
  | LogLane int jstr "jstr option"
  | LogName int "jstr option"
  | LogLabel int jstr "jstr option"

fun item_seq :: "log_item \<Rightarrow> int" where
  "item_seq (LogEntry n _) = n"
| "item_seq (LogRecord n _) = n"
| "item_seq (LogLane n _ _) = n"
| "item_seq (LogName n _) = n"
| "item_seq (LogLabel n _ _) = n"

record log_options =
  lo_afterSeq :: "js_number option"
  lo_limit :: "js_number option"

datatype fork_position = BeforeEntry | AtEntry

datatype fork_options =
    ForkBranch "jstr option" "fork_position option"
  | ForkTree

section \<open>Errors\<close>

datatype session_error_code =
    NotFound | AlreadyExists | InvalidEntry | InvalidPayload | InvalidLane | InvalidQuery
  | InvalidForkTarget | StorageCode

datatype mutation_fault =
    NonConsecutiveSeq int
  | DuplicateId jstr
  | MissingLane jstr
  | NotChained
  | MissingParent jstr
  | MissingLaneTarget jstr
  | MissingLabelTarget jstr

datatype payload_fault =
    NonFiniteNumber | UnsupportedType | PayloadCycle | NonStandardArray | ArrayProperties
  | SparseArray | ArrayAccessor | NonPlainObject | SymbolKey | HiddenProperty | PropertyAccessor

text \<open>
  The \<open>JsonlDecodeError\<close> of a line of a session file, and what can be wrong with a line
  (\<open>jsonl/errors.ts\<close>).
\<close>

datatype decode_fault = SyntaxFault jstr | SchemaFault jstr

datatype line_fault = BadLine decode_fault | BadStep mutation_fault

text \<open>
  Every \<open>SessionError\<close> that is thrown, by the place of the throw. \<open>FileFailed\<close> tells whether the file
  system reported a missing file.
\<close>

datatype session_error =
    LaneNotFound jstr
  | LaneExists jstr
  | EntryNotFound jstr
  | IdExists jstr
  | BadMutation mutation_fault
  | BadLimit
  | BadCursor
  | NotAMessage jstr
  | BranchCycle jstr
  | BranchEntryMissing jstr
  | OpenOperationExists jstr jstr
  | KindNeedsType
  | BadPayload payload_fault
  | SessionExists jstr
  | SessionNotFound jstr
  | FileFailed bool
  | InvalidFile jstr nat line_fault
  | SessionIdMismatch jstr
  | BadSessionId

fun error_code :: "session_error \<Rightarrow> session_error_code" where
  "error_code (LaneNotFound _) = InvalidLane"
| "error_code (LaneExists _) = AlreadyExists"
| "error_code (EntryNotFound _) = NotFound"
| "error_code (IdExists _) = AlreadyExists"
| "error_code (BadMutation _) = InvalidEntry"
| "error_code BadLimit = InvalidQuery"
| "error_code BadCursor = InvalidQuery"
| "error_code (NotAMessage _) = InvalidForkTarget"
| "error_code (BranchCycle _) = InvalidEntry"
| "error_code (BranchEntryMissing _) = InvalidEntry"
| "error_code (OpenOperationExists _ _) = StorageCode"
| "error_code KindNeedsType = InvalidQuery"
| "error_code (BadPayload _) = InvalidPayload"
| "error_code (SessionExists _) = AlreadyExists"
| "error_code (SessionNotFound _) = NotFound"
| "error_code (FileFailed missing) = (if missing then NotFound else StorageCode)"
| "error_code (InvalidFile _ _ _) = InvalidEntry"
| "error_code (SessionIdMismatch _) = InvalidEntry"
| "error_code BadSessionId = InvalidPayload"

text \<open>Number validation, shared by the state and the session facade.\<close>

fun integer_value :: "js_number \<Rightarrow> int option" where
  "integer_value (JInt n) = Some n"
| "integer_value (JDouble w) = (if unat w = 2 ^ 63 then Some 0 else None)"

definition assertValidLimit :: "js_number option \<Rightarrow> session_error + unit" where
  "assertValidLimit limit = (case limit of
      None \<Rightarrow> Inr ()
    | Some x \<Rightarrow> (case integer_value x of
        None \<Rightarrow> Inl BadLimit
      | Some n \<Rightarrow> throw_if (n \<le> 0) BadLimit))"

definition assertValidCursor :: "js_number option \<Rightarrow> session_error + unit" where
  "assertValidCursor afterSeq = (case afterSeq of
      None \<Rightarrow> Inr ()
    | Some x \<Rightarrow> (case integer_value x of
        None \<Rightarrow> Inl BadCursor
      | Some n \<Rightarrow> throw_if (n < 0) BadCursor))"

text \<open>A validated limit is a positive integer \<open>JInt\<close>; a validated cursor compares like an integer.\<close>

definition limit_nat :: "js_number option \<Rightarrow> nat option" where
  "limit_nat limit = map_option (\<lambda>x. case integer_value x of None \<Rightarrow> 0 | Some n \<Rightarrow> nat n) limit"

definition cursor_int :: "js_number \<Rightarrow> int" where
  "cursor_int x = (case integer_value x of None \<Rightarrow> 0 | Some n \<Rightarrow> n)"

lemma assertValidLimit_pos: "assertValidLimit limit = Inr u \<Longrightarrow> limit_nat limit \<noteq> Some 0"
  by (auto simp: assertValidLimit_def limit_nat_def split: option.splits)

end
