(* ===== verification/Record_Log.thy ===== *)
theory Record_Log
  imports Session_Types
begin

text \<open>
  Validation of the records that a lane is restored from: the first half of
  \<open>packages/agent/src/harness/reducer.ts\<close>. A corrupt slice is an error value with the
  source's reason; the text of its message is not modelled. \<open>Guard.IsDeepEqual\<close>, which is library
  code, is the argument \<open>deep_equal\<close>.
\<close>

section \<open>The recovery slice\<close>

datatype corruption_reason =
    MultipleOpenOperations | UnknownOperation | RecordAfterFinish | NonConsecutiveAttempt
  | InvalidCompactionReason | QueueAfterAbort | InvalidQueueCancellation | InconsistentStep
  | ToolCallMismatch | DuplicateToolInvocation | ProvisionedEntryMismatch | InvalidDeferredHandle

text \<open>The records that \<open>findOpenOperations\<close> returns, with their intents.\<close>

record operation_started =
  os_id :: jstr
  os_intent :: intent

definition started_of :: "lane_record \<Rightarrow> operation_started option" where
  "started_of r = (case rec_body r of
      OperationStarted _ intent \<Rightarrow> Some \<lparr>os_id = rec_id r, os_intent = intent\<rparr>
    | _ \<Rightarrow> None)"

record record_log_slice =
  ls_lane :: jstr
  ls_openOperations :: "operation_started list"
  ls_records :: "lane_record list"
  ls_entries :: "entry list"

text \<open>\<open>new Map(entries.map(...))\<close>: an id that comes twice keeps its place and takes the later entry.\<close>

definition entries_map :: "entry list \<Rightarrow> (jstr \<times> entry) list" where
  "entries_map es = fold (\<lambda>e. AList.update (entry_id e) e) es []"

section \<open>Checks on a single record\<close>

definition assistant_of :: "entry \<Rightarrow> assistant_message option" where
  "assistant_of e = (case entry_body e of
      MessageBody (LlmMessage (AssistantMsg a)) _ \<Rightarrow> Some a
    | _ \<Rightarrow> None)"

definition tool_result_of :: "entry \<Rightarrow> tool_result_message option" where
  "tool_result_of e = (case entry_body e of
      MessageBody (LlmMessage (ToolResultMsg t)) _ \<Rightarrow> Some t
    | _ \<Rightarrow> None)"

fun tool_call_of :: "content_block \<Rightarrow> tool_call option" where
  "tool_call_of (ToolCall c) = Some c"
| "tool_call_of _ = None"

definition tool_calls :: "assistant_message \<Rightarrow> tool_call list" where
  "tool_calls a = List.map_filter tool_call_of (am_content a)"

definition matchesProvisionedEntry ::
  "(provisioned_entry \<Rightarrow> provisioned_entry \<Rightarrow> bool) \<Rightarrow> entry \<Rightarrow> provisioned_entry \<Rightarrow> bool" where
  "matchesProvisionedEntry deep_equal e target = deep_equal (provisioned_entry.truncate e) target"

definition validateExactProvisionedEntry ::
  "(provisioned_entry \<Rightarrow> provisioned_entry \<Rightarrow> bool) \<Rightarrow> (jstr \<times> entry) list \<Rightarrow> provisioned_entry
    \<Rightarrow> corruption_reason + unit" where
  "validateExactProvisionedEntry deep_equal byId target = (case map_of byId (entry_id target) of
      None \<Rightarrow> Inr ()
    | Some e \<Rightarrow> throw_if (\<not> matchesProvisionedEntry deep_equal e target) ProvisionedEntryMismatch)"

definition validateResultEntry ::
  "(jstr \<times> entry) list \<Rightarrow> jstr \<Rightarrow> (entry \<Rightarrow> bool) \<Rightarrow> corruption_reason + unit" where
  "validateResultEntry byId resultEntryId matches = (case map_of byId resultEntryId of
      None \<Rightarrow> Inr ()
    | Some e \<Rightarrow> throw_if (\<not> matches e) ProvisionedEntryMismatch)"

definition validateAttemptReason :: "attempt_step \<Rightarrow> compaction_reason option \<Rightarrow> corruption_reason + unit" where
  "validateAttemptReason step reason =
     (if step = CompactionStep
      then throw_if (reason \<noteq> Some ManualReason \<and> reason \<noteq> Some ThresholdReason \<and> reason \<noteq> Some OverflowReason)
             InvalidCompactionReason
      else throw_if (reason \<noteq> None) InvalidCompactionReason)"

text \<open>An attempt as the loop keeps it: the record's sequence number and the fields of its body.\<close>

record step_attempt =
  at_seq :: int
  at_step :: attempt_step
  at_attempt :: int
  at_resultEntryId :: jstr
  at_reason :: "compaction_reason option"

definition continues_series :: "(jstr \<times> entry) list \<Rightarrow> step_attempt option \<Rightarrow> step_attempt \<Rightarrow> bool" where
  "continues_series byId previous a = (case previous of
      None \<Rightarrow> False
    | Some p \<Rightarrow> at_step p = at_step a
        \<and> (case map_of byId (at_resultEntryId p) of None \<Rightarrow> True | Some e \<Rightarrow> entry_seq e \<ge> at_seq a))"

definition expected_attempt :: "(jstr \<times> entry) list \<Rightarrow> step_attempt option \<Rightarrow> step_attempt \<Rightarrow> int" where
  "expected_attempt byId previous a = (case previous of
      None \<Rightarrow> 1
    | Some p \<Rightarrow> if continues_series byId previous a then at_attempt p + 1 else 1)"

definition validateAttemptSequence ::
  "(jstr \<times> entry) list \<Rightarrow> step_attempt option \<Rightarrow> step_attempt \<Rightarrow> corruption_reason + unit" where
  "validateAttemptSequence byId previous a =
     try_bind (throw_if (at_attempt a \<noteq> expected_attempt byId previous a) NonConsecutiveAttempt) (\<lambda>_.
       case previous of
         None \<Rightarrow> Inr ()
       | Some p \<Rightarrow>
           if \<not> continues_series byId previous a \<or> at_step a = AssistantStep then Inr ()
           else if at_resultEntryId a \<noteq> at_resultEntryId p then Inl InconsistentStep
           else throw_if (at_reason a \<noteq> at_reason p) InconsistentStep)"

definition validateAttemptResult :: "(jstr \<times> entry) list \<Rightarrow> step_attempt \<Rightarrow> corruption_reason + unit" where
  "validateAttemptResult byId a = validateResultEntry byId (at_resultEntryId a) (\<lambda>e. case at_step a of
      AssistantStep \<Rightarrow> assistant_of e \<noteq> None
    | CompactionStep \<Rightarrow> entry_type e = CompactionT
    | BranchSummaryStep \<Rightarrow> entry_type e = BranchSummaryT)"

text \<open>A tool start, and the key of its invocation.\<close>

record tool_start =
  ts_assistantEntryId :: jstr
  ts_toolIndex :: int
  ts_toolCallId :: jstr
  ts_toolName :: jstr
  ts_resultEntryId :: jstr

definition invocation_key :: "tool_start \<Rightarrow> jstr" where
  "invocation_key t = ts_assistantEntryId t @ [0] @ show_int (ts_toolIndex t)"

text \<open>\<open>toolCalls[toolIndex]\<close> is undefined out of range.\<close>

definition call_at :: "tool_call list \<Rightarrow> int \<Rightarrow> tool_call option" where
  "call_at calls i = (if 0 \<le> i \<and> i < int (length calls) then Some (calls ! nat i) else None)"

definition validateToolStart ::
  "(jstr \<times> entry) list \<Rightarrow> jstr set \<Rightarrow> tool_start \<Rightarrow> corruption_reason + jstr set" where
  "validateToolStart byId invocations t =
     try_bind (throw_if (invocation_key t \<in> invocations) DuplicateToolInvocation) (\<lambda>_.
       case Option.bind (map_of byId (ts_assistantEntryId t)) assistant_of of
         None \<Rightarrow> Inl ToolCallMismatch
       | Some a \<Rightarrow> (case call_at (tool_calls a) (ts_toolIndex t) of
           None \<Rightarrow> Inl ToolCallMismatch
         | Some c \<Rightarrow>
             if call_id c \<noteq> ts_toolCallId t \<or> call_name c \<noteq> ts_toolName t then Inl ToolCallMismatch
             else try_bind (validateResultEntry byId (ts_resultEntryId t) (\<lambda>e. case tool_result_of e of
                 None \<Rightarrow> False
               | Some r \<Rightarrow> tr_toolCallId r = ts_toolCallId t \<and> tr_toolName r = ts_toolName t))
             (\<lambda>_. Inr (insert (invocation_key t) invocations))))"

fun validateDeferredHandles :: "entry list \<Rightarrow> corruption_reason + unit" where
  "validateDeferredHandles [] = Inr ()"
| "validateDeferredHandles (e # es) =
     try_bind (case assistant_of e of
         None \<Rightarrow> Inr ()
       | Some a \<Rightarrow> throw_if (am_stopReason a = DeferredStop \<and> am_deferred a = None) InvalidDeferredHandle)
     (\<lambda>_. validateDeferredHandles es)"

fun validateProvisionedEntries ::
  "(provisioned_entry \<Rightarrow> provisioned_entry \<Rightarrow> bool) \<Rightarrow> (jstr \<times> entry) list \<Rightarrow> provisioned_entry list
    \<Rightarrow> corruption_reason + unit" where
  "validateProvisionedEntries deep_equal byId [] = Inr ()"
| "validateProvisionedEntries deep_equal byId (t # ts) =
     try_bind (validateExactProvisionedEntry deep_equal byId t) (\<lambda>_. validateProvisionedEntries deep_equal byId ts)"

definition validateOperationResult ::
  "(provisioned_entry \<Rightarrow> provisioned_entry \<Rightarrow> bool) \<Rightarrow> (jstr \<times> entry) list \<Rightarrow> intent \<Rightarrow> corruption_reason + unit" where
  "validateOperationResult deep_equal byId intent = (case intent of
      RunIntent _ initialMessages _ _ \<Rightarrow> validateProvisionedEntries deep_equal byId initialMessages
    | CompactionIntent _ resultEntryId \<Rightarrow> validateResultEntry byId resultEntryId (\<lambda>e. entry_type e = CompactionT)
    | NavigationIntent _ _ _ _ summaryEntryId \<Rightarrow> (case summaryEntryId of
        None \<Rightarrow> Inr ()
      | Some i \<Rightarrow> if i = [] then Inr () else validateResultEntry byId i (\<lambda>e. entry_type e = BranchSummaryT)))"

section \<open>The loop over the records\<close>

text \<open>The maps and sets that \<open>validateRecordLog\<close> fills. Of \<open>starts\<close> only the keys are read.\<close>

record log_scan =
  sc_starts :: "jstr set"
  sc_finishedAt :: "(jstr \<times> int) list"
  sc_abortedAt :: "(jstr \<times> int) list"
  sc_queueEnqueues :: "(jstr \<times> int \<times> jstr option) list"
  sc_latestAttempt :: "(jstr \<times> step_attempt) list"
  sc_toolInvocations :: "jstr set"

definition empty_scan :: log_scan where
  "empty_scan = \<lparr>sc_starts = {}, sc_finishedAt = [], sc_abortedAt = [], sc_queueEnqueues = [],
     sc_latestAttempt = [], sc_toolInvocations = {}\<rparr>"

text \<open>What every record of an operation is checked for first.\<close>

definition check_owner :: "lane_record \<Rightarrow> log_scan \<Rightarrow> corruption_reason + unit" where
  "check_owner r s = (case record_run_id (rec_body r) of
      None \<Rightarrow> Inr ()
    | Some run \<Rightarrow>
        try_bind (throw_if (run \<notin> sc_starts s) UnknownOperation) (\<lambda>_.
          case map_of (sc_finishedAt s) run of
            None \<Rightarrow> Inr ()
          | Some finishSeq \<Rightarrow> throw_if (rec_seq r > finishSeq) RecordAfterFinish))"

definition check_body ::
  "(provisioned_entry \<Rightarrow> provisioned_entry \<Rightarrow> bool) \<Rightarrow> (jstr \<times> entry) list \<Rightarrow> lane_record \<Rightarrow> log_scan
    \<Rightarrow> corruption_reason + log_scan" where
  "check_body deep_equal byId r s = (case rec_body r of
      OperationStarted _ _ \<Rightarrow> Inr s
    | OperationFinished run _ _ \<Rightarrow> Inr (s\<lparr>sc_finishedAt := AList.update run (rec_seq r) (sc_finishedAt s)\<rparr>)
    | AbortRequested run \<Rightarrow> Inr (s\<lparr>sc_abortedAt := AList.update run (rec_seq r) (sc_abortedAt s)\<rparr>)
    | StepAttempt run step attempt resultEntryId reason \<Rightarrow>
        (let a = \<lparr>at_seq = rec_seq r, at_step = step, at_attempt = attempt, at_resultEntryId = resultEntryId,
                  at_reason = reason\<rparr>
         in try_bind (validateAttemptReason step reason) (\<lambda>_.
            try_bind (validateAttemptSequence byId (map_of (sc_latestAttempt s) run) a) (\<lambda>_.
            try_bind (validateAttemptResult byId a) (\<lambda>_.
              Inr (s\<lparr>sc_latestAttempt := AList.update run a (sc_latestAttempt s)\<rparr>)))))
    | ToolStarted _ assistantEntryId toolIndex toolCallId toolName _ resultEntryId _ \<Rightarrow>
        try_bind (validateToolStart byId (sc_toolInvocations s)
            \<lparr>ts_assistantEntryId = assistantEntryId, ts_toolIndex = toolIndex, ts_toolCallId = toolCallId,
             ts_toolName = toolName, ts_resultEntryId = resultEntryId\<rparr>)
          (\<lambda>invocations. Inr (s\<lparr>sc_toolInvocations := invocations\<rparr>))
    | QueueEnqueued queue run target \<Rightarrow>
        try_bind (throw_if (queue \<noteq> NextRunQ
            \<and> (case Option.bind run (map_of (sc_abortedAt s)) of None \<Rightarrow> False | Some abortSeq \<Rightarrow> rec_seq r > abortSeq))
            QueueAfterAbort) (\<lambda>_.
          let s = s\<lparr>sc_queueEnqueues := AList.update (entry_id target) (rec_seq r, run) (sc_queueEnqueues s)\<rparr>
          in try_bind (validateExactProvisionedEntry deep_equal byId target) (\<lambda>_. Inr s))
    | QueueCancelled run entryId \<Rightarrow> (case map_of (sc_queueEnqueues s) entryId of
        None \<Rightarrow> Inl InvalidQueueCancellation
      | Some (enqueueSeq, enqueueRun) \<Rightarrow>
          try_bind (throw_if (enqueueSeq \<ge> rec_seq r \<or> enqueueRun \<noteq> run \<or> map_of byId entryId \<noteq> None)
            InvalidQueueCancellation) (\<lambda>_. Inr s))
    | WriteDeferred _ target \<Rightarrow> try_bind (validateExactProvisionedEntry deep_equal byId target) (\<lambda>_. Inr s)
    | UsageRecord _ _ \<Rightarrow> Inr s)"

definition check_record ::
  "(provisioned_entry \<Rightarrow> provisioned_entry \<Rightarrow> bool) \<Rightarrow> (jstr \<times> entry) list \<Rightarrow> lane_record \<Rightarrow> log_scan
    \<Rightarrow> corruption_reason + log_scan" where
  "check_record deep_equal byId r s = (case rec_body r of
      OperationStarted _ intent \<Rightarrow>
        (let s = s\<lparr>sc_starts := insert (rec_id r) (sc_starts s)\<rparr>
         in try_bind (validateOperationResult deep_equal byId intent) (\<lambda>_. Inr s))
    | _ \<Rightarrow> try_bind (check_owner r s) (\<lambda>_. check_body deep_equal byId r s))"

definition bySequence :: "lane_record list \<Rightarrow> lane_record list" where
  "bySequence rs = sort_key rec_seq rs"

definition validateRecordLog ::
  "(provisioned_entry \<Rightarrow> provisioned_entry \<Rightarrow> bool) \<Rightarrow> ('a) record_log_slice_scheme \<Rightarrow> corruption_reason + unit" where
  "validateRecordLog deep_equal input =
     (if length (ls_openOperations input) > 1 then Inl MultipleOpenOperations
      else let byId = entries_map (ls_entries input)
           in try_bind (validateDeferredHandles (map snd byId)) (\<lambda>_.
              try_bind (run_machine (check_record deep_equal byId) (bySequence (ls_records input)) empty_scan) (\<lambda>_.
                Inr ())))"

end
