(* ===== verification/Record_Log_Facts.thy ===== *)
theory Record_Log_Facts
  imports Record_Log
begin

text \<open>
  What an accepted slice guarantees. The loop of \<open>validateRecordLog\<close> is followed by a history
  relation between the records read so far and the maps it has filled; the attempts of one
  operation form series by rule induction.
\<close>

section \<open>Histories of a machine\<close>

lemma run_machine_history:
  assumes "run_machine step cs start = Inr s" and "H [] start"
    and "\<And>cs s c s'. H cs s \<Longrightarrow> step c s = Inr s' \<Longrightarrow> H (cs @ [c]) s'"
  shows "H cs s"
  using assms(1)
proof (induction cs arbitrary: s rule: rev_induct)
  case Nil
  then show ?case using assms(2) by simp
next
  case (snoc c cs)
  then show ?case
    by (auto simp: run_machine_append try_bind_eq_Inr intro: assms(3))
qed

lemma run_machine_split:
  assumes "run_machine step (before @ c # after) start = Inr s"
  shows "\<exists>s1 s2. run_machine step before start = Inr s1 \<and> step c s1 = Inr s2"
  using assms by (auto simp: run_machine_append try_bind_eq_Inr)

section \<open>Series of attempts\<close>

definition attempt_of :: "jstr \<Rightarrow> lane_record \<Rightarrow> step_attempt option" where
  "attempt_of run r = (case rec_body r of
      StepAttempt run' step attempt resultEntryId reason \<Rightarrow>
        if run' = run then Some \<lparr>at_seq = rec_seq r, at_step = step, at_attempt = attempt,
          at_resultEntryId = resultEntryId, at_reason = reason\<rparr> else None
    | _ \<Rightarrow> None)"

definition attempts :: "jstr \<Rightarrow> lane_record list \<Rightarrow> step_attempt list" where
  "attempts run rs = List.map_filter (attempt_of run) rs"

lemma attempts_snoc:
  "attempts run (rs @ [r]) = attempts run rs @ (case attempt_of run r of None \<Rightarrow> [] | Some a \<Rightarrow> [a])"
  by (simp add: attempts_def map_filter_def split: option.splits)

text \<open>A series, newest attempt first.\<close>

inductive attempt_series :: "(jstr \<times> entry) list \<Rightarrow> step_attempt list \<Rightarrow> bool" for byId where
  first_attempt: "at_attempt a = 1 \<Longrightarrow> attempt_series byId [a]"
| next_attempt: "attempt_series byId (p # ps) \<Longrightarrow> continues_series byId (Some p) a
    \<Longrightarrow> at_attempt a = at_attempt p + 1
    \<Longrightarrow> at_step a \<noteq> AssistantStep \<longrightarrow> at_resultEntryId a = at_resultEntryId p \<and> at_reason a = at_reason p
    \<Longrightarrow> attempt_series byId (a # p # ps)"

inductive_cases attempt_series_ConsE: "attempt_series byId (a # ps)"

lemma attempt_series_numbers:
  "attempt_series byId as \<Longrightarrow> as \<noteq> [] \<and> map at_attempt (rev as) = map int [1..<Suc (length as)]
    \<and> (\<forall>a \<in> set as. at_step a = at_step (hd as))"
  by (induction rule: attempt_series.induct)
     (auto simp: continues_series_def dest: arg_cong [where f = last])

lemma attempt_series_newest:
  assumes "attempt_series byId (a # ps)"
  shows "at_attempt a = int (Suc (length ps))"
  using attempt_series_numbers [OF assms] by (auto dest: arg_cong [where f = last])

lemma validateAttemptSequence_series:
  assumes "validateAttemptSequence byId previous a = Inr ()"
    and "\<And>p. previous = Some p \<Longrightarrow> \<exists>ps. attempt_series byId (p # ps) \<and> as = xs @ rev (p # ps)"
  shows "\<exists>ps xs. attempt_series byId (a # ps) \<and> as @ [a] = xs @ rev (a # ps)"
proof (cases "continues_series byId previous a")
  case True
  then obtain p where p: "previous = Some p"
    by (cases previous) (simp_all add: continues_series_def)
  obtain ps where ps: "attempt_series byId (p # ps)" "as = xs @ rev (p # ps)"
    using assms(2) [OF p] by blast
  have "attempt_series byId (a # p # ps)"
    using assms(1) True ps(1) p
    by (intro next_attempt)
       (auto simp: validateAttemptSequence_def expected_attempt_def try_bind_eq_Inr split: if_splits)
  then show ?thesis
    using ps(2) by (intro exI [of _ "p # ps"] exI [of _ xs]) simp
next
  case False
  then have "at_attempt a = 1"
    using assms(1)
    by (auto simp: validateAttemptSequence_def expected_attempt_def try_bind_eq_Inr split: option.splits if_splits)
  then show ?thesis
    by (intro exI [of _ "[]"] exI [of _ as]) (simp add: first_attempt)
qed

lemma attempt_series_target:
  "attempt_series byId as \<Longrightarrow> at_step (hd as) \<noteq> AssistantStep \<Longrightarrow>
    \<forall>x \<in> set as. at_resultEntryId x = at_resultEntryId (hd as) \<and> at_reason x = at_reason (hd as)"
proof (induction rule: attempt_series.induct)
  case (next_attempt p ps a)
  have "at_step p = at_step a"
    using next_attempt.hyps(2) by (simp add: continues_series_def)
  have rest: "\<forall>x \<in> set (p # ps). at_resultEntryId x = at_resultEntryId p \<and> at_reason x = at_reason p"
    using next_attempt.IH next_attempt.prems \<open>at_step p = at_step a\<close> unfolding list.sel(1) by metis
  have new: "at_resultEntryId a = at_resultEntryId p \<and> at_reason a = at_reason p"
    using next_attempt.hyps(4) next_attempt.prems unfolding list.sel(1) by blast
  show ?case
  proof
    fix x
    assume "x \<in> set (a # p # ps)"
    then consider "x = a" | "x \<in> set (p # ps)" by auto
    then show "at_resultEntryId x = at_resultEntryId (hd (a # p # ps)) \<and> at_reason x = at_reason (hd (a # p # ps))"
      using rest new by cases (simp, metis list.sel(1))
  qed
qed simp

section \<open>The scan and its history\<close>

definition finishes :: "jstr \<Rightarrow> lane_record \<Rightarrow> bool" where
  "finishes run r \<longleftrightarrow> (\<exists>outcome err. rec_body r = OperationFinished run outcome err)"

definition aborts :: "jstr \<Rightarrow> lane_record \<Rightarrow> bool" where
  "aborts run r \<longleftrightarrow> rec_body r = AbortRequested run"

definition tracks :: "lane_record list \<Rightarrow> (lane_record \<Rightarrow> bool) \<Rightarrow> int option \<Rightarrow> bool" where
  "tracks rs P found \<longleftrightarrow> (case found of
      None \<Rightarrow> \<not> (\<exists>r \<in> set rs. P r)
    | Some n \<Rightarrow> \<exists>r \<in> set rs. P r \<and> rec_seq r = n)"

definition scanned :: "(jstr \<times> entry) list \<Rightarrow> lane_record list \<Rightarrow> log_scan \<Rightarrow> bool" where
  "scanned byId rs s \<longleftrightarrow>
     sc_starts s = {rec_id r | r. r \<in> set rs \<and> record_type r = OperationStartedT}
   \<and> (\<forall>run. tracks rs (finishes run) (map_of (sc_finishedAt s) run))
   \<and> (\<forall>run. tracks rs (aborts run) (map_of (sc_abortedAt s) run))
   \<and> (\<forall>i n run. map_of (sc_queueEnqueues s) i = Some (n, run) \<longrightarrow>
        (\<exists>r \<in> set rs. \<exists>q t. rec_body r = QueueEnqueued q run t \<and> entry_id t = i \<and> rec_seq r = n))
   \<and> (\<forall>run. case map_of (sc_latestAttempt s) run of
          None \<Rightarrow> attempts run rs = []
        | Some a \<Rightarrow> \<exists>ps xs. attempt_series byId (a # ps) \<and> attempts run rs = xs @ rev (a # ps))"

lemma scannedD:
  assumes "scanned byId rs s"
  shows "sc_starts s = {rec_id r | r. r \<in> set rs \<and> record_type r = OperationStartedT}"
    and "tracks rs (finishes run) (map_of (sc_finishedAt s) run)"
    and "tracks rs (aborts run) (map_of (sc_abortedAt s) run)"
    and "map_of (sc_queueEnqueues s) i = Some (n, owner) \<Longrightarrow>
        \<exists>r \<in> set rs. \<exists>q t. rec_body r = QueueEnqueued q owner t \<and> entry_id t = i \<and> rec_seq r = n"
    and "map_of (sc_latestAttempt s) run = None \<Longrightarrow> attempts run rs = []"
    and "map_of (sc_latestAttempt s) run = Some a \<Longrightarrow>
        \<exists>ps xs. attempt_series byId (a # ps) \<and> attempts run rs = xs @ rev (a # ps)"
  using assms unfolding scanned_def by (blast, blast, blast, blast, auto split: option.splits dest: spec [of _ run])

lemma tracks_snoc:
  "tracks rs P f \<Longrightarrow> \<not> P r \<Longrightarrow> tracks (rs @ [r]) P f"
  "P r \<Longrightarrow> tracks (rs @ [r]) P (Some (rec_seq r))"
  by (auto simp: tracks_def split: option.splits)

lemma scanned_empty: "scanned byId [] empty_scan"
  by (simp add: scanned_def empty_scan_def tracks_def attempts_def map_filter_def)

text \<open>What one record changes, by its kind.\<close>

lemma check_record_frame:
  assumes "check_record deep_equal byId r s = Inr s'"
  shows "sc_starts s' = (if record_type r = OperationStartedT then insert (rec_id r) (sc_starts s) else sc_starts s)"
    and "map_of (sc_finishedAt s') run = (if finishes run r then Some (rec_seq r) else map_of (sc_finishedAt s) run)"
    and "map_of (sc_abortedAt s') run = (if aborts run r then Some (rec_seq r) else map_of (sc_abortedAt s) run)"
    and "map_of (sc_latestAttempt s') run = (case attempt_of run r of None \<Rightarrow> map_of (sc_latestAttempt s) run | Some a \<Rightarrow> Some a)"
    and "map_of (sc_queueEnqueues s') i = (case rec_body r of
           QueueEnqueued q run t \<Rightarrow> if entry_id t = i then Some (rec_seq r, run) else map_of (sc_queueEnqueues s) i
         | _ \<Rightarrow> map_of (sc_queueEnqueues s) i)"
  using assms
  by (auto simp: check_record_def check_body_def finishes_def aborts_def attempt_of_def try_bind_eq_Inr Let_def
      split: record_body.splits option.splits)

lemma scanned_step:
  assumes "scanned byId rs s" and "check_record deep_equal byId r s = Inr s'"
  shows "scanned byId (rs @ [r]) s'"
proof -
  note frame = check_record_frame [OF assms(2)]
  have "sc_starts s' = {rec_id x | x. x \<in> set (rs @ [r]) \<and> record_type x = OperationStartedT}"
    using assms(1) by (auto simp: scanned_def frame(1))
  moreover have "tracks (rs @ [r]) (finishes run) (map_of (sc_finishedAt s') run)"
    and "tracks (rs @ [r]) (aborts run) (map_of (sc_abortedAt s') run)" for run
    using assms(1) by (auto simp: scanned_def frame(2,3) intro: tracks_snoc)
  moreover have "\<exists>x \<in> set (rs @ [r]). \<exists>q t. rec_body x = QueueEnqueued q run t \<and> entry_id t = i \<and> rec_seq x = n"
    if "map_of (sc_queueEnqueues s') i = Some (n, run)" for i n run
    using assms(1) that by (auto simp: scanned_def frame(5) split: record_body.splits if_splits)
  moreover have "case map_of (sc_latestAttempt s') run of
      None \<Rightarrow> attempts run (rs @ [r]) = []
    | Some a \<Rightarrow> \<exists>ps xs. attempt_series byId (a # ps) \<and> attempts run (rs @ [r]) = xs @ rev (a # ps)" for run
  proof (cases "attempt_of run r")
    case None
    then show ?thesis
      using scannedD(5,6) [OF assms(1), of run]
      by (cases "map_of (sc_latestAttempt s) run") (simp_all add: frame(4) attempts_snoc)
  next
    case (Some a)
    then have "validateAttemptSequence byId (map_of (sc_latestAttempt s) run) a = Inr ()"
      using assms(2) by (auto simp: check_record_def check_body_def attempt_of_def try_bind_eq_Inr Let_def
          split: record_body.splits if_splits)
    moreover obtain xs where "\<And>p. map_of (sc_latestAttempt s) run = Some p \<Longrightarrow>
        \<exists>ps. attempt_series byId (p # ps) \<and> attempts run rs = xs @ rev (p # ps)"
      using scannedD(6) [OF assms(1), of run] by (cases "map_of (sc_latestAttempt s) run") auto
    ultimately have "\<exists>ps xs. attempt_series byId (a # ps) \<and> attempts run rs @ [a] = xs @ rev (a # ps)"
      by (rule validateAttemptSequence_series)
    then show ?thesis
      by (simp add: frame(4) attempts_snoc Some)
  qed
  ultimately show ?thesis
    unfolding scanned_def by blast
qed

lemma scanned_prefix:
  assumes "run_machine (check_record deep_equal byId) rs empty_scan = Inr s"
  shows "scanned byId rs s"
  using assms scanned_empty scanned_step by (rule run_machine_history)

section \<open>What acceptance means\<close>

lemma entries_map_snoc: "entries_map (es @ [e]) = AList.update (entry_id e) e (entries_map es)"
  by (simp add: entries_map_def)

lemma entries_map_keys [simp]: "map_of (entries_map es) i = None \<longleftrightarrow> i \<notin> entry_id ` set es"
  by (induction es rule: rev_induct) (auto simp: entries_map_snoc, simp add: entries_map_def)

lemma entries_map_Some: "map_of (entries_map es) i = Some e \<Longrightarrow> e \<in> set es \<and> entry_id e = i"
proof (induction es rule: rev_induct)
  case Nil
  then show ?case by (simp add: entries_map_def)
next
  case (snoc x es)
  show ?case
  proof (cases "i = entry_id x")
    case True
    then show ?thesis using snoc.prems by (simp add: entries_map_snoc)
  next
    case False
    then have "map_of (entries_map es) i = Some e"
      using snoc.prems by (simp add: entries_map_snoc)
    then show ?thesis using snoc.IH by simp
  qed
qed

lemma set_bySequence [simp]: "set (bySequence rs) = set rs"
  by (simp add: bySequence_def)

text \<open>With distinct sequence numbers, sorting puts every earlier record strictly before the later ones.\<close>

lemma bySequence_less:
  assumes "distinct (map rec_seq rs)" and "bySequence rs = before @ r # after" and "x \<in> set before"
  shows "rec_seq x < rec_seq r"
proof -
  have "sorted (map rec_seq (bySequence rs))"
    by (simp add: bySequence_def)
  then have "sorted (map rec_seq (before @ r # after))"
    by (simp only: assms(2))
  moreover have "distinct (map rec_seq (bySequence rs))"
    using assms(1) by (simp add: bySequence_def distinct_map)
  then have "distinct (map rec_seq (before @ r # after))"
    by (simp only: assms(2))
  ultimately have "rec_seq x \<le> rec_seq r" "rec_seq x \<noteq> rec_seq r"
    using assms(3) by (auto simp: sorted_append image_iff)
  then show ?thesis by simp
qed

lemma validateRecordLog_run:
  assumes "validateRecordLog deep_equal input = Inr ()"
  obtains s where "run_machine (check_record deep_equal (entries_map (ls_entries input)))
      (bySequence (ls_records input)) empty_scan = Inr s"
    and "length (ls_openOperations input) \<le> 1"
    and "validateDeferredHandles (map snd (entries_map (ls_entries input))) = Inr ()"
  using assms by (auto simp: validateRecordLog_def try_bind_eq_Inr Let_def split: if_splits)

text \<open>C27 (safety). In a slice that validation accepts, ordered by sequence number, every record of an operation comes
  after that operation's start and before its finish, nothing is queued for steering or follow-up
  after an abort, and every cancellation answers an earlier enqueue of the same operation whose item
  was not delivered.\<close>

theorem accepted_log_is_ordered:
  assumes "validateRecordLog deep_equal input = Inr ()" and "distinct (map rec_seq (ls_records input))"
    and "bySequence (ls_records input) = before @ r # after"
  shows "(\<forall>run. record_run_id (rec_body r) = Some run \<longrightarrow>
        (\<exists>x \<in> set before. record_type x = OperationStartedT \<and> rec_id x = run) \<and> (\<forall>x \<in> set before. \<not> finishes run x))
    \<and> (\<forall>q run t. rec_body r = QueueEnqueued q (Some run) t \<longrightarrow> q \<noteq> NextRunQ \<longrightarrow> (\<forall>x \<in> set before. \<not> aborts run x))
    \<and> (\<forall>run i. rec_body r = QueueCancelled run i \<longrightarrow> i \<notin> entry_id ` set (ls_entries input)
        \<and> (\<exists>x \<in> set before. \<exists>q t. rec_body x = QueueEnqueued q run t \<and> entry_id t = i))"
proof -
  let ?byId = "entries_map (ls_entries input)"
  obtain s s' where s: "scanned ?byId before s" and step: "check_record deep_equal ?byId r s = Inr s'"
    using validateRecordLog_run [OF assms(1)] run_machine_split [of _ before r after]
    by (metis assms(3) scanned_prefix)
  have less: "rec_seq x < rec_seq r" if "x \<in> set before" for x
    by (rule bySequence_less [OF assms(2,3) that])
  have tr: "tracks before (finishes run) (map_of (sc_finishedAt s) run)"
    "tracks before (aborts run) (map_of (sc_abortedAt s) run)" for run
    by (rule scannedD [OF s])+
  have starts: "sc_starts s = {rec_id x | x. x \<in> set before \<and> record_type x = OperationStartedT}"
    by (rule scannedD [OF s])
  have own: "(\<exists>x \<in> set before. record_type x = OperationStartedT \<and> rec_id x = run) \<and> (\<forall>x \<in> set before. \<not> finishes run x)"
    if run: "record_run_id (rec_body r) = Some run" for run
  proof -
    have "check_owner r s = Inr ()"
      using step run by (auto simp: check_record_def try_bind_eq_Inr split: record_body.splits)
    then show ?thesis
      using run starts tr(1) [of run] less
      by (fastforce simp: check_owner_def try_bind_eq_Inr tracks_def split: option.splits)
  qed
  have steer: "\<forall>x \<in> set before. \<not> aborts run x"
    if "rec_body r = QueueEnqueued q (Some run) t" "q \<noteq> NextRunQ" for q run t
    using step that tr(2) [of run] less
    by (fastforce simp: check_record_def check_body_def try_bind_eq_Inr tracks_def split: option.splits)
  have cancel: "i \<notin> entry_id ` set (ls_entries input)
      \<and> (\<exists>x \<in> set before. \<exists>q t. rec_body x = QueueEnqueued q run t \<and> entry_id t = i)"
    if body: "rec_body r = QueueCancelled run i" for run i
  proof -
    obtain n where "map_of (sc_queueEnqueues s) i = Some (n, run)" "map_of ?byId i = None"
      using step by (auto simp: check_record_def check_body_def body try_bind_eq_Inr split: option.splits)
    then show ?thesis
      using scannedD(4) [OF s, of i n run] by auto
  qed
  show ?thesis
    using own steer cancel by blast
qed

text \<open>A slice with a run, its first attempt and a retry.\<close>

definition sample_record :: "string \<Rightarrow> int \<Rightarrow> record_body \<Rightarrow> lane_record" where
  "sample_record i n b = \<lparr>rec_id = jlit i, rec_lane = jlit ''main'', rec_body = b, rec_seq = n, rec_timestamp = 0\<rparr>"

definition sample_slice :: record_log_slice where
  "sample_slice = \<lparr>ls_lane = jlit ''main'', ls_openOperations = [],
     ls_records = [sample_record ''b'' 2 (StepAttempt (jlit ''a'') AssistantStep 1 (jlit ''x'') None),
                   sample_record ''a'' 1 (OperationStarted None (RunIntent [] [] None None)),
                   sample_record ''c'' 3 (StepAttempt (jlit ''a'') AssistantStep 2 (jlit ''y'') None)],
     ls_entries = []\<rparr>"

lemmas sample_slice_simps = sample_slice_def sample_record_def validateRecordLog_def entries_map_def bySequence_def
  empty_scan_def check_record_def check_owner_def check_body_def validateOperationResult_def validateAttemptReason_def
  validateAttemptSequence_def validateAttemptResult_def validateResultEntry_def expected_attempt_def
  continues_series_def jlit_def

lemma sample_slice_accepted: "validateRecordLog (\<lambda>_ _. True) sample_slice = Inr ()"
  by (simp add: sample_slice_simps)

lemma accepted_log_is_ordered_witness:
  "\<exists>x \<in> {sample_record ''a'' 1 (OperationStarted None (RunIntent [] [] None None))}. rec_id x = jlit ''a''"
  using accepted_log_is_ordered [OF sample_slice_accepted,
      of "[sample_record ''a'' 1 (OperationStarted None (RunIntent [] [] None None))]"
        "sample_record ''b'' 2 (StepAttempt (jlit ''a'') AssistantStep 1 (jlit ''x'') None)"
        "[sample_record ''c'' 3 (StepAttempt (jlit ''a'') AssistantStep 2 (jlit ''y'') None)]"]
  by (simp add: sample_slice_def sample_record_def bySequence_def)

text \<open>The attempt numbers of an operation can be trusted as a retry counter: the last attempt of an accepted
  slice is number \<open>n\<close> exactly when it ends a series of \<open>n\<close> attempts at the same step, numbered from 1
  without a gap; attempts of a series that produces a summary all aim at the same entry.\<close>

theorem attempts_count_retries:
  assumes "validateRecordLog deep_equal input = Inr ()" and "attempts run (bySequence (ls_records input)) \<noteq> []"
  shows "\<exists>earlier series. attempts run (bySequence (ls_records input)) = earlier @ series \<and> series \<noteq> []
    \<and> map at_attempt series = map int [1..<Suc (length series)]
    \<and> at_attempt (last series) = int (length series)
    \<and> (\<forall>a \<in> set series. at_step a = at_step (last series))
    \<and> (at_step (last series) \<noteq> AssistantStep \<longrightarrow>
        (\<forall>a \<in> set series. at_resultEntryId a = at_resultEntryId (last series) \<and> at_reason a = at_reason (last series)))"
proof -
  obtain s where s: "scanned (entries_map (ls_entries input)) (bySequence (ls_records input)) s"
    using validateRecordLog_run [OF assms(1)] scanned_prefix by metis
  then obtain a ps xs where a: "attempt_series (entries_map (ls_entries input)) (a # ps)"
    "attempts run (bySequence (ls_records input)) = xs @ rev (a # ps)"
    using scannedD(5,6) [OF s, of run] assms(2) by (cases "map_of (sc_latestAttempt s) run") blast+
  have numbers: "map at_attempt (rev (a # ps)) = map int [1..<Suc (length (rev (a # ps)))]"
    "\<forall>x \<in> set (rev (a # ps)). at_step x = at_step (last (rev (a # ps)))"
    using attempt_series_numbers [OF a(1)] unfolding length_rev set_rev last_rev list.sel by blast+
  have target: "at_step (last (rev (a # ps))) \<noteq> AssistantStep \<longrightarrow> (\<forall>x \<in> set (rev (a # ps)).
      at_resultEntryId x = at_resultEntryId (last (rev (a # ps))) \<and> at_reason x = at_reason (last (rev (a # ps))))"
    using attempt_series_target [OF a(1)] unfolding set_rev last_rev by blast
  have newest: "at_attempt (last (rev (a # ps))) = int (length (rev (a # ps)))"
    using attempt_series_newest [OF a(1)] by simp
  show ?thesis
    using a(2) numbers newest target rev_is_Nil_conv by blast
qed

lemma attempts_count_retries_witness:
  "\<exists>series :: step_attempt list. series \<noteq> [] \<and> at_attempt (last series) = int (length series)"
proof -
  have "attempts (jlit ''a'') (bySequence (ls_records sample_slice)) \<noteq> []"
    by (simp add: sample_slice_def sample_record_def bySequence_def attempts_def map_filter_def attempt_of_def)
  from attempts_count_retries [OF sample_slice_accepted this] show ?thesis
    by blast
qed

end
