(* ===== verification/Session_Context.thy ===== *)
theory Session_Context
  imports Session_Types
begin

text \<open>
  The messages and settings that a branch gives the model
  (\<open>packages/agent/src/harness/session/context.ts\<close>). The caller's entry transforms and custom entry
  projectors are arguments, as they are in the source; a timestamp is always a number here.
\<close>

section \<open>Definitions\<close>

record session_settings =
  sx_thinkingLevel :: jstr
  sx_model :: "(jstr \<times> jstr) option"
  sx_activeToolNames :: "jstr list option"

record session_context = session_settings +
  sx_messages :: "agent_message list"

type_synonym entry_projector = "entry \<Rightarrow> nat \<Rightarrow> entry list \<Rightarrow> agent_message list option"

record context_options =
  cx_entryTransforms :: "(entry list \<Rightarrow> entry list) list"
  cx_entryProjectors :: "jstr \<Rightarrow> entry_projector option"

definition default_context_options :: context_options where
  "default_context_options = \<lparr>cx_entryTransforms = [], cx_entryProjectors = (\<lambda>_. None)\<rparr>"

definition entry_settings :: "entry \<Rightarrow> session_settings \<Rightarrow> session_settings" where
  "entry_settings e s = (case entry_body e of
      ThinkingLevelBody level \<Rightarrow> s\<lparr>sx_thinkingLevel := level\<rparr>
    | ModelChangeBody provider modelId \<Rightarrow> s\<lparr>sx_model := Some (provider, modelId)\<rparr>
    | MessageBody m _ \<Rightarrow> (case m of
        LlmMessage (AssistantMsg a) \<Rightarrow> s\<lparr>sx_model := Some (am_provider a, am_model a)\<rparr>
      | _ \<Rightarrow> s)
    | ActiveToolsBody names \<Rightarrow> s\<lparr>sx_activeToolNames := Some names\<rparr>
    | _ \<Rightarrow> s)"

definition deriveSessionContextState :: "entry list \<Rightarrow> session_settings" where
  "deriveSessionContextState path =
     fold entry_settings path \<lparr>sx_thinkingLevel = jlit ''off'', sx_model = None, sx_activeToolNames = None\<rparr>"

text \<open>The loop runs down from index \<open>n - 1\<close>.\<close>

fun last_compaction :: "entry list \<Rightarrow> nat \<Rightarrow> nat option" where
  "last_compaction path 0 = None"
| "last_compaction path (Suc n) =
     (if entry_type (path ! n) = CompactionT then Some n else last_compaction path n)"

definition defaultContextEntryTransform :: "entry list \<Rightarrow> entry list" where
  "defaultContextEntryTransform path = (case last_compaction path (length path) of
      None \<Rightarrow> path
    | Some i \<Rightarrow> path ! i # drop (i + 1) path)"

definition buildContextEntries :: "context_options \<Rightarrow> entry list \<Rightarrow> entry list" where
  "buildContextEntries opts path = fold (\<lambda>f es. f es) (cx_entryTransforms opts) (defaultContextEntryTransform path)"

definition sessionEntryToContextMessages :: "context_options \<Rightarrow> entry \<Rightarrow> nat \<Rightarrow> entry list \<Rightarrow> agent_message list" where
  "sessionEntryToContextMessages opts e index es = (case entry_body e of
      MessageBody m _ \<Rightarrow> (case m of
        LlmMessage (AssistantMsg a) \<Rightarrow> if am_stopReason a = DeferredStop then [] else [m]
      | _ \<Rightarrow> [m])
    | CompactionBody summary retainedTail tokensBefore _ _ \<Rightarrow>
        CompactionSummaryMsg (createCompactionSummaryMessage (\<lambda>_. 0) summary tokensBefore (Inr (entry_timestamp e)))
          # retainedTail
    | BranchSummaryBody fromId summary _ _ \<Rightarrow>
        if summary \<noteq> []
        then [BranchSummaryMsg (createBranchSummaryMessage (\<lambda>_. 0) summary fromId (Inr (entry_timestamp e)))]
        else []
    | CustomBody customType _ \<Rightarrow> (case cx_entryProjectors opts customType of
        None \<Rightarrow> []
      | Some project \<Rightarrow> (case project e index es of None \<Rightarrow> [] | Some ms \<Rightarrow> ms))
    | _ \<Rightarrow> [])"

definition buildSessionContext :: "context_options \<Rightarrow> entry list \<Rightarrow> session_context" where
  "buildSessionContext opts path =
     (let es = buildContextEntries opts path
      in session_settings.extend (deriveSessionContextState path)
           \<lparr>sx_messages = concat (map (\<lambda>(i, e). sessionEntryToContextMessages opts e i es) (enumerate 0 es))\<rparr>)"

section \<open>The newest compaction\<close>

lemma last_compaction_Some:
  assumes "entry_type (path ! i) = CompactionT" and "i < n"
    and "\<And>j. i < j \<Longrightarrow> j < n \<Longrightarrow> entry_type (path ! j) \<noteq> CompactionT"
  shows "last_compaction path n = Some i"
  using assms by (induction n) (auto simp: less_Suc_eq)

lemma last_compaction_None:
  assumes "\<And>j. j < n \<Longrightarrow> entry_type (path ! j) \<noteq> CompactionT"
  shows "last_compaction path n = None"
  using assms by (induction n) auto

lemma transform_without_compaction:
  assumes "\<forall>e \<in> set path. entry_type e \<noteq> CompactionT"
  shows "defaultContextEntryTransform path = path"
  using assms by (simp add: defaultContextEntryTransform_def last_compaction_None)

lemma transform_at_compaction:
  assumes "entry_type c = CompactionT" and "\<forall>e \<in> set after. entry_type e \<noteq> CompactionT"
  shows "defaultContextEntryTransform (before @ c # after) = c # after"
proof -
  have "last_compaction (before @ c # after) (length (before @ c # after)) = Some (length before)"
    using assms by (intro last_compaction_Some) (auto simp: nth_append nth_Cons split: nat.splits)
  then show ?thesis
    by (simp add: defaultContextEntryTransform_def)
qed

text \<open>Messages do not depend on where an entry stands when no projector is configured.\<close>

lemma messages_without_projectors:
  "cx_entryProjectors opts = (\<lambda>_. None) \<Longrightarrow>
    sessionEntryToContextMessages opts e i es = sessionEntryToContextMessages default_context_options e 0 []"
  by (simp add: sessionEntryToContextMessages_def default_context_options_def split: entry_body.splits)

abbreviation entry_messages :: "entry \<Rightarrow> agent_message list" where
  "entry_messages e \<equiv> sessionEntryToContextMessages default_context_options e 0 []"

lemma default_context_messages:
  "sx_messages (buildSessionContext default_context_options path)
    = concat (map entry_messages (defaultContextEntryTransform path))"
proof -
  have same: "sessionEntryToContextMessages default_context_options e i es = entry_messages e" for e i es
    by (rule messages_without_projectors) (simp add: default_context_options_def)
  have "map (\<lambda>(i, e). sessionEntryToContextMessages default_context_options e i es) (enumerate n xs)
      = map entry_messages xs" for es n xs
    by (rule nth_equalityI) (auto simp: nth_enumerate_eq intro: same)
  then show ?thesis
    by (simp add: buildSessionContext_def buildContextEntries_def session_settings.defs Let_def)
       (simp add: default_context_options_def)
qed

text \<open>The settings follow the newest change on the path, wherever the compaction stands.\<close>

lemma fold_settings_thinking:
  "\<forall>e \<in> set es. entry_type e \<noteq> ThinkingLevelT \<Longrightarrow>
    sx_thinkingLevel (fold entry_settings es s) = sx_thinkingLevel s"
  by (induction es arbitrary: s)
     (auto simp: entry_settings_def split: entry_body.splits agent_message.splits message.splits)

lemma fold_settings_tools:
  "\<forall>e \<in> set es. entry_type e \<noteq> ActiveToolsT \<Longrightarrow>
    sx_activeToolNames (fold entry_settings es s) = sx_activeToolNames s"
  by (induction es arbitrary: s)
     (auto simp: entry_settings_def split: entry_body.splits agent_message.splits message.splits)

text \<open>C37 (functional). After a compaction the model sees the summary, the retained tail and what came later, and nothing
  from before; what it sees is the summary as a user message between its tags, then the converted rest.
  A thinking level set before the compaction stays in force until the next change.\<close>

theorem context_restarts_at_compaction:
  assumes "entry_body c = CompactionBody summary retained tokens details us"
    and "\<forall>e \<in> set after. entry_type e \<noteq> CompactionT"
  shows "convertToLlm (sx_messages (buildSessionContext default_context_options (before @ c # after)))
      = UserMsg \<lparr>um_content = Blocks [TextContent
            (COMPACTION_SUMMARY_PREFIX @ summary @ COMPACTION_SUMMARY_SUFFIX) None], um_timestamp = entry_timestamp c\<rparr>
        # convertToLlm retained @ convertToLlm (concat (map entry_messages after))
    \<and> ((\<forall>e \<in> set after. entry_type e \<noteq> ThinkingLevelT) \<longrightarrow>
        sx_thinkingLevel (buildSessionContext default_context_options (before @ c # after))
          = sx_thinkingLevel (deriveSessionContextState before))"
proof -
  have c: "entry_type c = CompactionT"
    using assms(1) by simp
  have settings: "sx_thinkingLevel (buildSessionContext opts path) = sx_thinkingLevel (deriveSessionContextState path)"
    for opts path
    by (simp add: buildSessionContext_def session_settings.defs Let_def)
  show ?thesis
    using fold_settings_thinking [of "c # after"] c
    by (simp add: default_context_messages transform_at_compaction [OF c assms(2)] settings
        deriveSessionContextState_def)
       (simp add: sessionEntryToContextMessages_def assms(1) convertToLlm_append
        createCompactionSummaryMessage_def timestamp_ms_def convertToLlm_def map_filter_def convert_message_def)
qed

definition sample_context_entry :: "entry_body \<Rightarrow> entry" where
  "sample_context_entry b = \<lparr>entry_id = jlit ''e'', entry_body = b, entry_seq = 1, entry_parentId = None, entry_timestamp = 5\<rparr>"

lemma context_restarts_at_compaction_witness:
  "sx_thinkingLevel (buildSessionContext default_context_options
    ([sample_context_entry (ThinkingLevelBody (jlit ''high''))]
       @ sample_context_entry (CompactionBody (jlit ''s'') [] 9 None None) # [])) = jlit ''high''"
  using context_restarts_at_compaction [of "sample_context_entry (CompactionBody (jlit ''s'') [] 9 None None)"
      "jlit ''s''" "[]" 9 None None "[]" "[sample_context_entry (ThinkingLevelBody (jlit ''high''))]"]
  by (simp add: sample_context_entry_def deriveSessionContextState_def entry_settings_def)

end
