(* ===== verification/Lane_Reducer.thy ===== *)
theory Lane_Reducer
  imports Record_Log_Facts Session_Context
begin

text \<open>
  Reconstruction of a lane's orchestration state: the second half of
  \<open>packages/agent/src/harness/reducer.ts\<close>. \<open>clone\<close> is the identity on the data of the model.
\<close>

section \<open>The reconstructed state\<close>

record lane_configuration =
  lc_model :: "jstr \<times> jstr"
  lc_thinkingLevel :: jstr
  lc_activeToolNames :: "jstr list"

datatype failure_source = StepFailure | DeferredFetchFailure

record terminal_failure =
  tf_entryId :: jstr
  tf_source :: failure_source
  tf_message :: assistant_message

record tool_batch_call =
  bc_toolIndex :: nat
  bc_toolCall :: tool_call
  bc_started :: "lane_record option"
  bc_resultExists :: bool
  bc_terminate :: bool

record tool_batch =
  tb_assistantEntryId :: jstr
  tb_calls :: "tool_batch_call list"
  tb_truncated :: bool
  tb_unresolved :: bool

record lane_step =
  sp_kind :: attempt_step
  sp_attempts :: int
  sp_resultEntryId :: jstr
  sp_compactionReason :: "compaction_reason option"

record newest_own =
  no_entryId :: jstr
  no_type :: entry_type
  no_role :: "jstr option"
  no_stopReason :: "stop_reason option"

record lane_operation =
  lp_id :: jstr
  lp_kind :: intent_kind
  lp_intent :: intent
  lp_aborting :: bool
  lp_step :: "lane_step option"
  lp_toolBatch :: "tool_batch option"
  lp_missingInitialMessages :: "provisioned_entry list"
  lp_pendingSteer :: "provisioned_entry list"
  lp_pendingFollowUp :: "provisioned_entry list"
  lp_pendingWrites :: "provisioned_entry list"
  lp_deferred :: "deferred_handle option"
  lp_overflowRecoveryUsed :: bool
  lp_newestOwn :: "newest_own option"
  lp_targetResult :: "bool option"
  lp_targetSummary :: "bool option"

record lane_state =
  la_lane :: jstr
  la_leafId :: "jstr option"
  la_operation :: "lane_operation option"
  la_pendingNextRun :: "provisioned_entry list"

record lane_input = record_log_slice +
  li_leafId :: "jstr option"
  li_ownEntries :: "entry list"
  li_configurationEntries :: "entry list"
  li_defaults :: lane_configuration

record lane_reduction =
  lr_laneState :: lane_state
  lr_effectiveConfiguration :: lane_configuration
  lr_terminalFailure :: "terminal_failure option"

section \<open>Configuration and the newest entry\<close>

definition entriesBySequence :: "entry list \<Rightarrow> entry list" where
  "entriesBySequence es = sort_key entry_seq es"

definition entry_configuration :: "entry \<Rightarrow> lane_configuration \<Rightarrow> lane_configuration" where
  "entry_configuration e c = (case entry_body e of
      ModelChangeBody provider modelId \<Rightarrow> c\<lparr>lc_model := (provider, modelId)\<rparr>
    | ThinkingLevelBody level \<Rightarrow> c\<lparr>lc_thinkingLevel := level\<rparr>
    | ActiveToolsBody names \<Rightarrow> c\<lparr>lc_activeToolNames := names\<rparr>
    | MessageBody _ _ \<Rightarrow> (case assistant_of e of
        None \<Rightarrow> c
      | Some a \<Rightarrow> c\<lparr>lc_model := (am_provider a, am_model a)\<rparr>)
    | _ \<Rightarrow> c)"

definition deriveEffectiveConfiguration :: "lane_input \<Rightarrow> lane_configuration" where
  "deriveEffectiveConfiguration input =
     fold entry_configuration
       (entriesBySequence (map snd (entries_map (li_configurationEntries input @ li_ownEntries input))))
       (li_defaults input)"

definition message_role :: "agent_message \<Rightarrow> jstr" where
  "message_role m = (case m of
      LlmMessage (UserMsg _) \<Rightarrow> jlit ''user''
    | LlmMessage (AssistantMsg _) \<Rightarrow> jlit ''assistant''
    | LlmMessage (ToolResultMsg _) \<Rightarrow> jlit ''toolResult''
    | BashExecution _ \<Rightarrow> jlit ''bashExecution''
    | CustomMsg _ \<Rightarrow> jlit ''custom''
    | BranchSummaryMsg _ \<Rightarrow> jlit ''branchSummary''
    | CompactionSummaryMsg _ \<Rightarrow> jlit ''compactionSummary''
    | OtherMessage j \<Rightarrow> (case j of
        JObj _ _ es \<Rightarrow> (case map_of es (jlit ''role'') of Some (JStr s) \<Rightarrow> s | _ \<Rightarrow> [])
      | _ \<Rightarrow> []))"

definition deriveNewestOwn :: "entry option \<Rightarrow> newest_own option" where
  "deriveNewestOwn entry = map_option (\<lambda>e. case entry_body e of
      MessageBody m _ \<Rightarrow> \<lparr>no_entryId = entry_id e, no_type = MessageT, no_role = Some (message_role m),
        no_stopReason = map_option am_stopReason (assistant_of e)\<rparr>
    | b \<Rightarrow> \<lparr>no_entryId = entry_id e, no_type = body_type b, no_role = None, no_stopReason = None\<rparr>) entry"

section \<open>The tool batch\<close>

definition calls_tools :: "entry \<Rightarrow> bool" where
  "calls_tools e = (case assistant_of e of None \<Rightarrow> False | Some a \<Rightarrow> tool_calls a \<noteq> [])"

definition tool_start_of :: "lane_record \<Rightarrow> (jstr \<times> tool_start) option" where
  "tool_start_of r = (case rec_body r of
      ToolStarted run assistantEntryId toolIndex toolCallId toolName _ resultEntryId _ \<Rightarrow>
        Some (run, \<lparr>ts_assistantEntryId = assistantEntryId, ts_toolIndex = toolIndex, ts_toolCallId = toolCallId,
          ts_toolName = toolName, ts_resultEntryId = resultEntryId\<rparr>)
    | _ \<Rightarrow> None)"

definition tool_starts :: "jstr \<Rightarrow> jstr \<Rightarrow> lane_record list \<Rightarrow> (int \<times> lane_record) list" where
  "tool_starts operationId assistantEntryId rs = fold (\<lambda>r m. case tool_start_of r of
      Some (run, t) \<Rightarrow>
        if run = operationId \<and> ts_assistantEntryId t = assistantEntryId then AList.update (ts_toolIndex t) r m else m
    | None \<Rightarrow> m) rs []"

definition terminates :: "entry \<Rightarrow> bool" where
  "terminates e = (case entry_body e of MessageBody _ terminate \<Rightarrow> terminate | _ \<Rightarrow> False)"

definition batch_call ::
  "entry \<Rightarrow> (int \<times> lane_record) list \<Rightarrow> entry list \<Rightarrow> (jstr \<times> entry) list \<Rightarrow> jstr set \<Rightarrow> nat \<Rightarrow> tool_call \<Rightarrow> tool_batch_call" where
  "batch_call assistantEntry starts ownEntries byId deferredWriteIds toolIndex toolCall =
     (let started = map_of starts (int toolIndex);
          startedResult = Option.bind (Option.bind started tool_start_of) (\<lambda>(_, t). map_of byId (ts_resultEntryId t));
          blockedResult = find (\<lambda>e. entry_seq e > entry_seq assistantEntry \<and> entry_id e \<notin> deferredWriteIds
            \<and> (case tool_result_of e of None \<Rightarrow> False | Some r \<Rightarrow> tr_toolCallId r = call_id toolCall)) ownEntries;
          result = (case startedResult of Some e \<Rightarrow> Some e | None \<Rightarrow> blockedResult)
      in \<lparr>bc_toolIndex = toolIndex, bc_toolCall = toolCall, bc_started = started, bc_resultExists = (result \<noteq> None),
          bc_terminate = (case result of None \<Rightarrow> False | Some e \<Rightarrow> terminates e)\<rparr>)"

definition deriveToolBatch ::
  "jstr \<Rightarrow> lane_record list \<Rightarrow> entry list \<Rightarrow> (jstr \<times> entry) list \<Rightarrow> jstr set \<Rightarrow> tool_batch option" where
  "deriveToolBatch operationId rs ownEntries byId deferredWriteIds = (case find calls_tools (rev ownEntries) of
      None \<Rightarrow> None
    | Some assistantEntry \<Rightarrow> (case assistant_of assistantEntry of
        None \<Rightarrow> None
      | Some a \<Rightarrow>
          let starts = tool_starts operationId (entry_id assistantEntry) rs;
              calls = map (\<lambda>(i, c). batch_call assistantEntry starts ownEntries byId deferredWriteIds i c)
                (enumerate 0 (tool_calls a))
          in Some \<lparr>tb_assistantEntryId = entry_id assistantEntry, tb_calls = calls,
               tb_truncated = (am_stopReason a = LengthStop),
               tb_unresolved = list_ex (\<lambda>c. \<not> bc_resultExists c) calls\<rparr>))"

section \<open>Pending items\<close>

text \<open>Queue, owner and target of an enqueue.\<close>

definition enqueue_of :: "lane_record \<Rightarrow> (queue_name \<times> jstr option \<times> provisioned_entry) option" where
  "enqueue_of r = (case rec_body r of QueueEnqueued q run t \<Rightarrow> Some (q, run, t) | _ \<Rightarrow> None)"

definition cancelled_ids :: "lane_record list \<Rightarrow> jstr set" where
  "cancelled_ids rs = set (List.map_filter (\<lambda>r. case rec_body r of QueueCancelled _ i \<Rightarrow> Some i | _ \<Rightarrow> None) rs)"

definition pending_enqueues ::
  "(jstr \<times> entry) list \<Rightarrow> lane_record list \<Rightarrow> (queue_name \<times> jstr option \<times> provisioned_entry) list" where
  "pending_enqueues byId rs = filter (\<lambda>(q, run, t). map_of byId (entry_id t) = None \<and> entry_id t \<notin> cancelled_ids rs)
     (List.map_filter enqueue_of rs)"

definition initial_messages :: "intent \<Rightarrow> provisioned_entry list" where
  "initial_messages intent = (case intent of RunIntent _ initialMessages _ _ \<Rightarrow> initialMessages | _ \<Rightarrow> [])"

definition pending_of :: "queue_name \<Rightarrow> jstr \<Rightarrow> (queue_name \<times> jstr option \<times> provisioned_entry) list \<Rightarrow> provisioned_entry list" where
  "pending_of queue operationId pending =
     map (\<lambda>(_, _, t). t) (filter (\<lambda>(q, run, _). q = queue \<and> run = Some operationId) pending)"

definition owned_by :: "operation_started \<Rightarrow> lane_record \<Rightarrow> bool" where
  "owned_by started r \<longleftrightarrow> (if record_type r = OperationStartedT then rec_id r = os_id started
     else record_run_id (rec_body r) = Some (os_id started))"

definition deferred_targets :: "lane_record list \<Rightarrow> provisioned_entry list" where
  "deferred_targets rs = List.map_filter (\<lambda>r. case rec_body r of WriteDeferred _ t \<Rightarrow> Some t | _ \<Rightarrow> None) rs"

section \<open>The operation\<close>

definition newest_step :: "(jstr \<times> entry) list \<Rightarrow> step_attempt list \<Rightarrow> lane_step option" where
  "newest_step byId as = (if as = [] then None
     else let a = last as
          in if map_of byId (at_resultEntryId a) = None
             then Some \<lparr>sp_kind = at_step a, sp_attempts = at_attempt a, sp_resultEntryId = at_resultEntryId a,
                    sp_compactionReason = (if at_step a = CompactionStep then at_reason a else None)\<rparr>
             else None)"

text \<open>\<open>Number.NEGATIVE_INFINITY\<close> is \<open>None\<close>. The ids are read for their maximum only, so a list does for the set.\<close>

definition consumed_inputs :: "intent \<Rightarrow> lane_record list \<Rightarrow> jstr list" where
  "consumed_inputs intent rs = map entry_id (initial_messages intent)
     @ List.map_filter (\<lambda>r. case enqueue_of r of
         Some (q, _, t) \<Rightarrow> if q \<noteq> NextRunQ then Some (entry_id t) else None
       | None \<Rightarrow> None) rs"

definition newest_consumed_input :: "(jstr \<times> entry) list \<Rightarrow> jstr list \<Rightarrow> int option" where
  "newest_consumed_input byId ids = fold (\<lambda>i best. case map_of byId i of
      Some e \<Rightarrow> if entry_type e = MessageT
        then Some (case best of None \<Rightarrow> entry_seq e | Some n \<Rightarrow> max n (entry_seq e)) else best
    | None \<Rightarrow> best) ids None"

definition overflow_recovery_used :: "int option \<Rightarrow> step_attempt list \<Rightarrow> bool" where
  "overflow_recovery_used newestInput as = list_ex (\<lambda>a. at_step a = CompactionStep
     \<and> at_reason a = Some OverflowReason
     \<and> (case newestInput of None \<Rightarrow> True | Some n \<Rightarrow> at_seq a > n)) as"

definition deferred_of :: "entry option \<Rightarrow> deferred_handle option" where
  "deferred_of entry = Option.bind (Option.bind entry assistant_of)
     (\<lambda>a. if am_stopReason a = DeferredStop then am_deferred a else None)"

definition fetched_entry :: "lane_record \<Rightarrow> jstr option" where
  "fetched_entry r = (case rec_body r of
      UsageRecord _ cause \<Rightarrow> (case cause of DeferredFetchUsage _ i _ _ \<Rightarrow> Some i | _ \<Rightarrow> None)
    | _ \<Rightarrow> None)"

definition stopped_with :: "stop_reason \<Rightarrow> entry \<Rightarrow> bool" where
  "stopped_with reason e = (case assistant_of e of None \<Rightarrow> False | Some a \<Rightarrow> am_stopReason a = reason)"

text \<open>The newest own entry and the one before it, from the end.\<close>

definition derive_terminal_failure ::
  "lane_record list \<Rightarrow> step_attempt list \<Rightarrow> jstr set \<Rightarrow> entry list \<Rightarrow> terminal_failure option" where
  "derive_terminal_failure rs as deferredWriteIds newestFirst = (case newestFirst of
      [] \<Rightarrow> None
    | e # older \<Rightarrow> (case assistant_of e of
        None \<Rightarrow> None
      | Some a \<Rightarrow>
          if am_stopReason a = ErrorStop \<and> entry_id e \<notin> deferredWriteIds
          then let producedByStep = list_ex (\<lambda>t. at_resultEntryId t = entry_id e) as;
                   producedByDeferredFetch = list_ex (\<lambda>r. fetched_entry r = Some (entry_id e)) rs
                     \<or> (case older of [] \<Rightarrow> False | p # _ \<Rightarrow> stopped_with DeferredStop p)
               in if producedByStep \<or> producedByDeferredFetch
                  then Some \<lparr>tf_entryId = entry_id e,
                    tf_source = (if producedByStep then StepFailure else DeferredFetchFailure), tf_message = a\<rparr>
                  else None
          else None))"

definition target_result :: "(jstr \<times> entry) list \<Rightarrow> intent \<Rightarrow> bool option" where
  "target_result byId intent = (case intent of
      CompactionIntent _ resultEntryId \<Rightarrow> Some (map_of byId resultEntryId \<noteq> None)
    | _ \<Rightarrow> None)"

definition target_summary :: "(jstr \<times> entry) list \<Rightarrow> intent \<Rightarrow> bool option" where
  "target_summary byId intent = (case intent of
      NavigationIntent _ _ _ _ (Some i) \<Rightarrow> if i = [] then None else Some (map_of byId i \<noteq> None)
    | _ \<Rightarrow> None)"

definition reduce_operation :: "lane_input \<Rightarrow> operation_started \<Rightarrow> lane_operation \<times> terminal_failure option" where
  "reduce_operation input started =
     (let intent = os_intent started;
          records = bySequence (ls_records input);
          ownEntries = entriesBySequence (li_ownEntries input);
          byId = entries_map (ls_entries input @ ownEntries);
          pending = pending_enqueues byId records;
          operationRecords = filter (owned_by started) records;
          aborting = list_ex (\<lambda>r. record_type r = AbortRequestedT) operationRecords;
          as = attempts (os_id started) operationRecords;
          deferredWriteIds = entry_id ` set (deferred_targets operationRecords);
          newestInput = newest_consumed_input byId (consumed_inputs intent operationRecords);
          newestOwn = (if ownEntries = [] then None else Some (last ownEntries))
      in (\<lparr>lp_id = os_id started,
           lp_kind = kind_of_intent intent,
           lp_intent = intent,
           lp_aborting = aborting,
           lp_step = newest_step byId as,
           lp_toolBatch = deriveToolBatch (os_id started) operationRecords ownEntries byId deferredWriteIds,
           lp_missingInitialMessages = filter (\<lambda>t. map_of byId (entry_id t) = None) (initial_messages intent),
           lp_pendingSteer = (if aborting then [] else pending_of SteerQ (os_id started) pending),
           lp_pendingFollowUp = (if aborting then [] else pending_of FollowUpQ (os_id started) pending),
           lp_pendingWrites = filter (\<lambda>t. map_of byId (entry_id t) = None) (deferred_targets operationRecords),
           lp_deferred = deferred_of newestOwn,
           lp_overflowRecoveryUsed = overflow_recovery_used newestInput as,
           lp_newestOwn = deriveNewestOwn newestOwn,
           lp_targetResult = target_result byId intent,
           lp_targetSummary = target_summary byId intent\<rparr>,
          derive_terminal_failure operationRecords as deferredWriteIds (rev ownEntries)))"

definition reduceLaneState ::
  "(provisioned_entry \<Rightarrow> provisioned_entry \<Rightarrow> bool) \<Rightarrow> lane_input \<Rightarrow> corruption_reason + lane_reduction" where
  "reduceLaneState deep_equal input =
     try_bind (validateRecordLog deep_equal input) (\<lambda>_.
       let records = bySequence (ls_records input);
           byId = entries_map (ls_entries input @ entriesBySequence (li_ownEntries input));
           captured = (case ls_openOperations input of
               [] \<Rightarrow> []
             | started # _ \<Rightarrow> map entry_id (initial_messages (os_intent started)));
           pendingNextRun = map (\<lambda>(_, _, t). t)
             (filter (\<lambda>(q, _, t). q = NextRunQ \<and> entry_id t \<notin> set captured) (pending_enqueues byId records));
           configuration = deriveEffectiveConfiguration input
       in case ls_openOperations input of
            [] \<Rightarrow> Inr \<lparr>
              lr_laneState = \<lparr>la_lane = ls_lane input, la_leafId = li_leafId input, la_operation = None,
                la_pendingNextRun = pendingNextRun\<rparr>,
              lr_effectiveConfiguration = configuration, lr_terminalFailure = None\<rparr>
          | started # _ \<Rightarrow> (case reduce_operation input started of
              (operation, terminalFailure) \<Rightarrow> Inr \<lparr>
                lr_laneState = \<lparr>la_lane = ls_lane input, la_leafId = li_leafId input, la_operation = Some operation,
                  la_pendingNextRun = pendingNextRun\<rparr>,
                lr_effectiveConfiguration = configuration, lr_terminalFailure = terminalFailure\<rparr>))"

end
