(* ===== verification/Session_State.thy ===== *)
theory Session_State
  imports Session_Types
begin

text \<open>
  The in-memory state of a session (\<open>packages/agent/src/harness/session/state.ts\<close>): \<open>SessionState\<close>
  with its fields, \<open>applyMutation\<close> with its checks in their order, and the queries. A
  \<open>Map\<close> is an association list in insertion order. This theory holds the definitions; the
  invariant and what it gives are in Session_Invariant.
\<close>

section \<open>The state\<close>

datatype session_mutation =
    MutEntry "jstr option" entry
  | MutRecord lane_record
  | MutLane int jstr "jstr option"
  | MutName int "jstr option"
  | MutLabel int jstr "jstr option"

record session_state =
  ss_sequence :: int
  ss_usedIds :: "jstr set"
  ss_entries :: "entry list"
  ss_entriesById :: "(jstr \<times> entry) list"
  ss_records :: "lane_record list"
  ss_openOperationsByLane :: "(jstr \<times> (jstr \<times> lane_record) list) list"
  ss_lanes :: "(jstr \<times> jstr option) list"
  ss_log :: "log_item list"
  ss_stats :: session_stats
  ss_name :: "jstr option"
  ss_labels :: "(jstr \<times> jstr) list"

definition main_lane :: jstr where "main_lane = jlit ''main''"

definition zero_stats :: session_stats where
  "zero_stats = \<lparr>st_messageCount = 0, st_cachedTokens = 0, st_uncachedTokens = 0, st_totalTokens = 0, st_costTotal = 0\<rparr>"

definition new_SessionState :: session_state where
  "new_SessionState = \<lparr>ss_sequence = 0, ss_usedIds = {}, ss_entries = [], ss_entriesById = [], ss_records = [],
     ss_openOperationsByLane = [], ss_lanes = [(main_lane, None)], ss_log = [], ss_stats = zero_stats,
     ss_name = None, ss_labels = []\<rparr>"

definition nextSequence :: "session_state \<Rightarrow> int" where
  "nextSequence s = ss_sequence s + 1"

definition getLanes :: "session_state \<Rightarrow> (jstr \<times> jstr option) list" where
  "getLanes s = ss_lanes s"

definition requireLane :: "session_state \<Rightarrow> jstr \<Rightarrow> session_error + jstr option" where
  "requireLane s lane = (case map_of (ss_lanes s) lane of None \<Rightarrow> Inl (LaneNotFound lane) | Some leaf \<Rightarrow> Inr leaf)"

definition validateNewLane :: "session_state \<Rightarrow> jstr \<Rightarrow> session_error + unit" where
  "validateNewLane s lane = throw_if (map_of (ss_lanes s) lane \<noteq> None) (LaneExists lane)"

definition validateTarget :: "session_state \<Rightarrow> jstr option \<Rightarrow> session_error + unit" where
  "validateTarget s target = (case target of
      None \<Rightarrow> Inr ()
    | Some t \<Rightarrow> throw_if (map_of (ss_entriesById s) t = None) (EntryNotFound t))"

definition validateUnusedId :: "session_state \<Rightarrow> jstr \<Rightarrow> session_error + unit" where
  "validateUnusedId s i = throw_if (i \<in> ss_usedIds s) (IdExists i)"

section \<open>Mutations\<close>

fun mutation_seq :: "session_mutation \<Rightarrow> int" where
  "mutation_seq (MutEntry _ e) = entry_seq e"
| "mutation_seq (MutRecord r) = rec_seq r"
| "mutation_seq (MutLane n _ _) = n"
| "mutation_seq (MutName n _) = n"
| "mutation_seq (MutLabel n _ _) = n"

definition apply_entry :: "jstr option \<Rightarrow> entry \<Rightarrow> session_state \<Rightarrow> mutation_fault + session_state" where
  "apply_entry lane e s =
     try_bind (throw_if (entry_id e \<in> ss_usedIds s) (DuplicateId (entry_id e))) (\<lambda>_.
     try_bind (case lane of
         None \<Rightarrow> Inr ()
       | Some l \<Rightarrow> (case map_of (ss_lanes s) l of
           None \<Rightarrow> Inl (MissingLane l)
         | Some leaf \<Rightarrow> throw_if (entry_parentId e \<noteq> leaf) NotChained)) (\<lambda>_.
     try_bind (case entry_parentId e of
         None \<Rightarrow> Inr ()
       | Some p \<Rightarrow> throw_if (map_of (ss_entriesById s) p = None) (MissingParent p)) (\<lambda>_.
     Inr (s\<lparr>ss_sequence := entry_seq e,
            ss_usedIds := insert (entry_id e) (ss_usedIds s),
            ss_entries := ss_entries s @ [e],
            ss_entriesById := AList.update (entry_id e) e (ss_entriesById s),
            ss_lanes := (case lane of None \<Rightarrow> ss_lanes s | Some l \<Rightarrow> AList.update l (Some (entry_id e)) (ss_lanes s)),
            ss_log := ss_log s @ [LogEntry (entry_seq e) e],
            ss_stats := (if entry_type e = MessageT
              then (ss_stats s)\<lparr>st_messageCount := st_messageCount (ss_stats s) + 1\<rparr> else ss_stats s)\<rparr>))))"

definition open_operations :: "lane_record \<Rightarrow> (jstr \<times> (jstr \<times> lane_record) list) list \<Rightarrow> (jstr \<times> (jstr \<times> lane_record) list) list" where
  "open_operations r ops = (case rec_body r of
      OperationStarted _ _ \<Rightarrow>
        (let ops = (if map_of ops (rec_lane r) = None then AList.update (rec_lane r) [] ops else ops)
         in case map_of ops (rec_lane r) of
              None \<Rightarrow> ops
            | Some m \<Rightarrow> AList.update (rec_lane r) (AList.update (rec_id r) r m) ops)
    | OperationFinished runId _ _ \<Rightarrow> (case map_of ops (rec_lane r) of
        None \<Rightarrow> ops
      | Some m \<Rightarrow> AList.update (rec_lane r) (AList.delete runId m) ops)
    | _ \<Rightarrow> ops)"

definition record_stats :: "lane_record \<Rightarrow> session_stats \<Rightarrow> session_stats" where
  "record_stats r st = (case rec_body r of
      UsageRecord u _ \<Rightarrow> st\<lparr>st_cachedTokens := st_cachedTokens st + u_cacheRead u,
        st_uncachedTokens := st_uncachedTokens st + (u_input u + u_cacheWrite u),
        st_totalTokens := st_totalTokens st + u_totalTokens u,
        st_costTotal := st_costTotal st + cost_total (u_cost u)\<rparr>
    | _ \<Rightarrow> st)"

definition apply_record :: "lane_record \<Rightarrow> session_state \<Rightarrow> mutation_fault + session_state" where
  "apply_record r s =
     try_bind (throw_if (map_of (ss_lanes s) (rec_lane r) = None) (MissingLane (rec_lane r))) (\<lambda>_.
     try_bind (throw_if (rec_id r \<in> ss_usedIds s) (DuplicateId (rec_id r))) (\<lambda>_.
     Inr (s\<lparr>ss_sequence := rec_seq r,
            ss_usedIds := insert (rec_id r) (ss_usedIds s),
            ss_records := ss_records s @ [r],
            ss_openOperationsByLane := open_operations r (ss_openOperationsByLane s),
            ss_log := ss_log s @ [LogRecord (rec_seq r) r],
            ss_stats := record_stats r (ss_stats s)\<rparr>)))"

definition apply_lane :: "int \<Rightarrow> jstr \<Rightarrow> jstr option \<Rightarrow> session_state \<Rightarrow> mutation_fault + session_state" where
  "apply_lane n lane leaf s =
     try_bind (case leaf of
         None \<Rightarrow> Inr ()
       | Some t \<Rightarrow> throw_if (map_of (ss_entriesById s) t = None) (MissingLaneTarget t)) (\<lambda>_.
     Inr (s\<lparr>ss_sequence := n, ss_lanes := AList.update lane leaf (ss_lanes s),
            ss_log := ss_log s @ [LogLane n lane leaf]\<rparr>))"

definition apply_name :: "int \<Rightarrow> jstr option \<Rightarrow> session_state \<Rightarrow> mutation_fault + session_state" where
  "apply_name n name s = Inr (s\<lparr>ss_sequence := n, ss_name := name, ss_log := ss_log s @ [LogName n name]\<rparr>)"

definition apply_label :: "int \<Rightarrow> jstr \<Rightarrow> jstr option \<Rightarrow> session_state \<Rightarrow> mutation_fault + session_state" where
  "apply_label n target label s =
     try_bind (throw_if (map_of (ss_entriesById s) target = None) (MissingLabelTarget target)) (\<lambda>_.
     Inr (s\<lparr>ss_sequence := n,
            ss_labels := (case label of None \<Rightarrow> AList.delete target (ss_labels s) | Some l \<Rightarrow> AList.update target l (ss_labels s)),
            ss_log := ss_log s @ [LogLabel n target label]\<rparr>))"

text \<open>\<open>invalid\<close> is the callback that turns a fault into the error that is thrown.\<close>

definition applyMutation :: "(mutation_fault \<Rightarrow> 'e) \<Rightarrow> session_mutation \<Rightarrow> session_state \<Rightarrow> 'e + session_state" where
  "applyMutation invalid m s =
     (case try_bind (throw_if (mutation_seq m \<noteq> ss_sequence s + 1) (NonConsecutiveSeq (mutation_seq m)))
       (\<lambda>_. case m of
          MutEntry lane e \<Rightarrow> apply_entry lane e s
        | MutRecord r \<Rightarrow> apply_record r s
        | MutLane n lane leaf \<Rightarrow> apply_lane n lane leaf s
        | MutName n name \<Rightarrow> apply_name n name s
        | MutLabel n target label \<Rightarrow> apply_label n target label s)
      of Inl f \<Rightarrow> Inl (invalid f) | Inr s' \<Rightarrow> Inr s')"

abbreviation applyMutation' :: "session_mutation \<Rightarrow> session_state \<Rightarrow> session_error + session_state" where
  "applyMutation' \<equiv> applyMutation BadMutation"

section \<open>Queries\<close>

definition ordered :: "'a list \<Rightarrow> entry_order option \<Rightarrow> 'a list" where
  "ordered items order = (if order = Some OldestFirst then items else rev items)"

text \<open>The loops that push what matches and break when the limit is reached.\<close>

fun collect :: "('a \<Rightarrow> bool) \<Rightarrow> nat option \<Rightarrow> 'a list \<Rightarrow> 'a list \<Rightarrow> 'a list" where
  "collect matches limit results [] = results"
| "collect matches limit results (x # xs) =
     (if \<not> matches x then collect matches limit results xs
      else let results = results @ [x]
           in if limit = Some (length results) then results else collect matches limit results xs)"

definition matchesEntryQuery :: "entry \<Rightarrow> ('a) entry_query_scheme \<Rightarrow> bool" where
  "matchesEntryQuery e q \<longleftrightarrow>
     (case eq_type q of None \<Rightarrow> True | Some t \<Rightarrow> entry_type e = t) \<and>
     (case eq_customType q of None \<Rightarrow> True | Some t \<Rightarrow> (case entry_body e of CustomBody c _ \<Rightarrow> c = t | _ \<Rightarrow> False)) \<and>
     (case eq_cursor q of None \<Rightarrow> True
      | Some c \<Rightarrow> if eq_order q = Some OldestFirst then entry_seq e > cursor_int c else entry_seq e < cursor_int c)"

definition matchesRecordQuery :: "lane_record \<Rightarrow> record_query \<Rightarrow> bool" where
  "matchesRecordQuery r q \<longleftrightarrow>
     (case rq_lane q of None \<Rightarrow> True | Some l \<Rightarrow> rec_lane r = l) \<and>
     (case rq_type q of None \<Rightarrow> True | Some t \<Rightarrow> record_type r = t) \<and>
     (case rq_runId q of None \<Rightarrow> True | Some i \<Rightarrow>
        (case rec_body r of OperationStarted _ _ \<Rightarrow> rec_id r = i | b \<Rightarrow> record_run_id b = Some i)) \<and>
     (case rq_operationKind q of None \<Rightarrow> True | Some k \<Rightarrow>
        (case rec_body r of OperationStarted _ i \<Rightarrow> kind_of_intent i = k | _ \<Rightarrow> False)) \<and>
     (case rq_afterSeq q of None \<Rightarrow> True | Some c \<Rightarrow> rec_seq r > cursor_int c)"

definition getEntry :: "session_state \<Rightarrow> jstr \<Rightarrow> entry option" where
  "getEntry s i = map_of (ss_entriesById s) i"

definition findEntries :: "session_state \<Rightarrow> entry_query \<Rightarrow> session_error + entry list" where
  "findEntries s q =
     try_bind (assertValidLimit (eq_limit q)) (\<lambda>_.
     try_bind (assertValidCursor (eq_cursor q)) (\<lambda>_.
     Inr (collect (\<lambda>e. matchesEntryQuery e q) (limit_nat (eq_limit q)) [] (ordered (ss_entries s) (eq_order q)))))"

text \<open>
  The generator \<open>walkToRoot\<close>: what it yields, and the error it throws when it is asked for more.
  \<open>missing\<close> is the error for an entry that is not there, different for the first one.
\<close>

function walk :: "(jstr \<times> entry) list \<Rightarrow> entry_type option \<Rightarrow> jstr option \<Rightarrow> jstr set \<Rightarrow> session_error \<Rightarrow> jstr \<Rightarrow>
    entry list \<times> session_error option" where
  "walk byId stopAtType stopAtId visited missing i = (case map_of byId i of
      None \<Rightarrow> ([], Some missing)
    | Some current \<Rightarrow>
        if entry_id current \<in> visited then ([], Some (BranchCycle (entry_id current)))
        else if Some (entry_id current) = stopAtId \<or> Some (entry_type current) = stopAtType
          then ([current], None)
        else case entry_parentId current of
            None \<Rightarrow> ([current], None)
          | Some p \<Rightarrow> (case walk byId stopAtType stopAtId (insert (entry_id current) visited) (BranchEntryMissing p) p of
              (es, err) \<Rightarrow> (current # es, err)))"
  by pat_completeness auto
termination
proof (relation "measure (\<lambda>(byId, _, _, visited, _, _). card (entry_id ` snd ` set byId - visited))", goal_cases)
  case (2 byId stopAtType stopAtId visited missing i current p)
  then have "entry_id current \<in> entry_id ` snd ` set byId - visited"
    by (force dest: map_of_SomeD)
  then have "entry_id ` snd ` set byId - insert (entry_id current) visited \<subset> entry_id ` snd ` set byId - visited"
    by blast
  then show ?case by (auto intro!: psubset_card_mono)
qed simp

declare walk.simps [simp del]

definition walkToRoot :: "session_state \<Rightarrow> jstr \<Rightarrow> entry_type option \<Rightarrow> jstr option \<Rightarrow> entry list \<times> session_error option" where
  "walkToRoot s start stopAtType stopAtId = walk (ss_entriesById s) stopAtType stopAtId {} (EntryNotFound start) start"

text \<open>The two loops over a branch; the second runs the generator only as far as it needs.\<close>

fun collect_oldest :: "(entry \<Rightarrow> bool) \<Rightarrow> (entry \<Rightarrow> bool) \<Rightarrow> nat option \<Rightarrow> entry list \<Rightarrow> entry list \<Rightarrow> entry list" where
  "collect_oldest matches bound limit results [] = results"
| "collect_oldest matches bound limit results (e # es) =
     (let results = (if matches e then results @ [e] else results)
      in if bound e \<or> limit = Some (length results) then results
         else collect_oldest matches bound limit results es)"

fun collect_newest :: "(entry \<Rightarrow> bool) \<Rightarrow> nat option \<Rightarrow> entry list \<Rightarrow> entry list \<Rightarrow> session_error option \<Rightarrow>
    session_error + entry list" where
  "collect_newest matches limit results [] err = (case err of None \<Rightarrow> Inr results | Some e \<Rightarrow> Inl e)"
| "collect_newest matches limit results (e # es) err =
     (let results = (if matches e then results @ [e] else results)
      in if limit = Some (length results) then Inr results
         else collect_newest matches limit results es err)"

definition findEntriesOnBranch :: "session_state \<Rightarrow> branch_query \<Rightarrow> jstr \<Rightarrow> session_error + entry list" where
  "findEntriesOnBranch s q start =
     try_bind (assertValidLimit (eq_limit q)) (\<lambda>_.
     try_bind (assertValidCursor (eq_cursor q)) (\<lambda>_.
     if eq_order q = Some OldestFirst
     then (case walkToRoot s start None None of
         (path, Some err) \<Rightarrow> Inl err
       | (path, None) \<Rightarrow> Inr (collect_oldest (\<lambda>e. matchesEntryQuery e q)
           (\<lambda>e. Some (entry_id e) = bq_stopAtId q \<or> Some (entry_type e) = bq_stopAtType q)
           (limit_nat (eq_limit q)) [] (rev path)))
     else (case walkToRoot s start (bq_stopAtType q) (bq_stopAtId q) of
         (path, err) \<Rightarrow> collect_newest (\<lambda>e. matchesEntryQuery e q) (limit_nat (eq_limit q)) [] path err)))"

definition findRecords :: "session_state \<Rightarrow> record_query \<Rightarrow> session_error + lane_record list" where
  "findRecords s q =
     try_bind (assertValidLimit (rq_limit q)) (\<lambda>_.
     try_bind (assertValidCursor (rq_afterSeq q)) (\<lambda>_.
     Inr (collect (\<lambda>r. matchesRecordQuery r q) (limit_nat (rq_limit q)) [] (ordered (ss_records s) (rq_order q)))))"

definition findOpenOperations :: "session_state \<Rightarrow> jstr \<Rightarrow> js_number option \<Rightarrow> session_error + lane_record list" where
  "findOpenOperations s lane limit =
     try_bind (assertValidLimit limit) (\<lambda>_.
       let openOperations = (case map_of (ss_openOperationsByLane s) lane of None \<Rightarrow> [] | Some m \<Rightarrow> rev (map snd m))
       in Inr (case limit_nat limit of None \<Rightarrow> openOperations | Some n \<Rightarrow> take n openOperations))"

definition getLog :: "session_state \<Rightarrow> log_options \<Rightarrow> session_error + log_item list" where
  "getLog s options =
     try_bind (assertValidLimit (lo_limit options)) (\<lambda>_.
     try_bind (assertValidCursor (lo_afterSeq options)) (\<lambda>_.
     Inr (collect (\<lambda>item. case lo_afterSeq options of None \<Rightarrow> True | Some c \<Rightarrow> \<not> item_seq item \<le> cursor_int c)
       (limit_nat (lo_limit options)) [] (ss_log s))))"

definition getName :: "session_state \<Rightarrow> jstr option" where "getName s = ss_name s"

definition getLabel :: "session_state \<Rightarrow> jstr \<Rightarrow> jstr option" where "getLabel s i = map_of (ss_labels s) i"

definition getStats :: "session_state \<Rightarrow> session_stats" where "getStats s = ss_stats s"

section \<open>Forking\<close>

definition all_entries_query :: entry_query where
  "all_entries_query = \<lparr>eq_type = None, eq_customType = None, eq_order = Some OldestFirst, eq_limit = None, eq_cursor = None\<rparr>"

definition branch_path_query :: branch_query where
  "branch_path_query = \<lparr>eq_type = None, eq_customType = None, eq_order = Some OldestFirst, eq_limit = None, eq_cursor = None,
     bq_start = None, bq_stopAtType = None, bq_stopAtId = None\<rparr>"

definition fork_target :: "session_state \<Rightarrow> jstr option \<Rightarrow> fork_position option \<Rightarrow> session_error + jstr option" where
  "fork_target s entryId position =
     try_bind (case entryId of Some i \<Rightarrow> Inr (Some i) | None \<Rightarrow> requireLane s main_lane) (\<lambda>selected.
       case selected of
         None \<Rightarrow> Inr None
       | Some i \<Rightarrow> (case getEntry s i of
           None \<Rightarrow> Inl (NotAMessage i)
         | Some e \<Rightarrow>
             if entry_type e \<noteq> MessageT then Inl (NotAMessage i)
             else let position = (case position of Some p \<Rightarrow> p | None \<Rightarrow> if entryId = None then AtEntry else BeforeEntry)
                  in Inr (if position = AtEntry then Some (entry_id e) else entry_parentId e)))"

definition fork_selection :: "session_state \<Rightarrow> fork_options \<Rightarrow> session_error + (entry list \<times> (jstr \<times> jstr option) list)" where
  "fork_selection s options = (case options of
      ForkTree \<Rightarrow> try_bind (findEntries s all_entries_query) (\<lambda>copied. Inr (copied, getLanes s))
    | ForkBranch entryId position \<Rightarrow>
        try_bind (fork_target s entryId position) (\<lambda>target.
        try_bind (case target of None \<Rightarrow> Inr [] | Some t \<Rightarrow> findEntriesOnBranch s branch_path_query t) (\<lambda>copied.
        Inr (copied, [(main_lane, target)]))))"

fun fork_entries :: "int \<Rightarrow> entry list \<Rightarrow> session_mutation list" where
  "fork_entries n [] = []"
| "fork_entries n (e # es) = MutEntry None (e\<lparr>entry_seq := n\<rparr>) # fork_entries (n + 1) es"

fun fork_lanes :: "int \<Rightarrow> (jstr \<times> jstr option) list \<Rightarrow> session_mutation list" where
  "fork_lanes n [] = []"
| "fork_lanes n ((lane, leaf) # ls) = MutLane n lane leaf # fork_lanes (n + 1) ls"

fun fork_labels :: "(jstr \<times> jstr) list \<Rightarrow> int \<Rightarrow> entry list \<Rightarrow> session_mutation list" where
  "fork_labels labels n [] = []"
| "fork_labels labels n (e # es) = (case map_of labels (entry_id e) of
      None \<Rightarrow> fork_labels labels n es
    | Some l \<Rightarrow> MutLabel n (entry_id e) (Some l) # fork_labels labels (n + 1) es)"

definition createForkMutations :: "session_state \<Rightarrow> fork_options \<Rightarrow> session_error + session_mutation list" where
  "createForkMutations s options =
     try_bind (fork_selection s options) (\<lambda>(copied, lanes).
       let n1 = 1 + int (length copied); n2 = n1 + int (length lanes)
       in Inr (fork_entries 1 copied @ fork_lanes n1 lanes @
            (case ss_name s of
               None \<Rightarrow> fork_labels (ss_labels s) n2 copied
             | Some name \<Rightarrow> MutName n2 (Some name) # fork_labels (ss_labels s) (n2 + 1) copied)))"

end
