(* ===== verification/Session_Invariant.thy ===== *)
theory Session_Invariant
  imports Session_State
begin

text \<open>
  The invariant of \<open>SessionState\<close>: the log is numbered consecutively and everything else is what
  the log says, ids are unique, every parent, lane leaf and label target exists, and the running
  totals and open operations are those of the records. Every mutation that is applied keeps it.
\<close>

section \<open>What the log says\<close>

definition entries_of :: "log_item list \<Rightarrow> entry list" where
  "entries_of items = List.map_filter (\<lambda>i. case i of LogEntry _ e \<Rightarrow> Some e | _ \<Rightarrow> None) items"

definition records_of :: "log_item list \<Rightarrow> lane_record list" where
  "records_of items = List.map_filter (\<lambda>i. case i of LogRecord _ r \<Rightarrow> Some r | _ \<Rightarrow> None) items"

definition log_ok :: "session_state \<Rightarrow> bool" where
  "log_ok s \<longleftrightarrow> ss_sequence s = int (length (ss_log s))
     \<and> map item_seq (ss_log s) = map (\<lambda>n. int n + 1) [0..<length (ss_log s)]
     \<and> ss_entries s = entries_of (ss_log s) \<and> ss_records s = records_of (ss_log s)
     \<and> (\<forall>n e. LogEntry n e \<in> set (ss_log s) \<longrightarrow> entry_seq e = n)
     \<and> (\<forall>n r. LogRecord n r \<in> set (ss_log s) \<longrightarrow> rec_seq r = n)"

definition entry_ids :: "entry list \<Rightarrow> jstr set" where
  "entry_ids es = entry_id ` set es"

definition ids_ok :: "session_state \<Rightarrow> bool" where
  "ids_ok s \<longleftrightarrow> distinct (map entry_id (ss_entries s) @ map rec_id (ss_records s))
     \<and> ss_usedIds s = entry_ids (ss_entries s) \<union> rec_id ` set (ss_records s)
     \<and> ss_entriesById s = map (\<lambda>e. (entry_id e, e)) (ss_entries s)"

text \<open>Every parent precedes its children.\<close>

fun tree_ordered :: "jstr set \<Rightarrow> entry list \<Rightarrow> bool" where
  "tree_ordered known [] = True"
| "tree_ordered known (e # es) =
     ((case entry_parentId e of None \<Rightarrow> True | Some p \<Rightarrow> p \<in> known) \<and> tree_ordered (insert (entry_id e) known) es)"

definition lanes_ok :: "session_state \<Rightarrow> bool" where
  "lanes_ok s \<longleftrightarrow> distinct (map fst (ss_lanes s)) \<and> main_lane \<in> fst ` set (ss_lanes s)
     \<and> (\<forall>(l, leaf) \<in> set (ss_lanes s). \<forall>t. leaf = Some t \<longrightarrow> t \<in> entry_ids (ss_entries s))
     \<and> (\<forall>r \<in> set (ss_records s). rec_lane r \<in> fst ` set (ss_lanes s))
     \<and> distinct (map fst (ss_labels s)) \<and> fst ` set (ss_labels s) \<subseteq> entry_ids (ss_entries s)"

definition usage_of :: "lane_record \<Rightarrow> usage option" where
  "usage_of r = (case rec_body r of UsageRecord u _ \<Rightarrow> Some u | _ \<Rightarrow> None)"

definition usages :: "lane_record list \<Rightarrow> usage list" where
  "usages rs = List.map_filter usage_of rs"

definition stats_ok :: "session_state \<Rightarrow> bool" where
  "stats_ok s \<longleftrightarrow> ss_stats s =
     \<lparr>st_messageCount = int (length (filter (\<lambda>e. entry_type e = MessageT) (ss_entries s))),
      st_cachedTokens = (\<Sum>u \<leftarrow> usages (ss_records s). u_cacheRead u),
      st_uncachedTokens = (\<Sum>u \<leftarrow> usages (ss_records s). u_input u + u_cacheWrite u),
      st_totalTokens = (\<Sum>u \<leftarrow> usages (ss_records s). u_totalTokens u),
      st_costTotal = (\<Sum>u \<leftarrow> usages (ss_records s). cost_total (u_cost u))\<rparr>"

text \<open>The operations of a lane that were started and not finished, oldest first.\<close>

definition open_step :: "jstr \<Rightarrow> lane_record list \<Rightarrow> lane_record \<Rightarrow> lane_record list" where
  "open_step lane ops r =
     (if rec_lane r \<noteq> lane then ops
      else case rec_body r of
        OperationStarted _ _ \<Rightarrow> ops @ [r]
      | OperationFinished runId _ _ \<Rightarrow> filter (\<lambda>op. runId \<noteq> rec_id op) ops
      | _ \<Rightarrow> ops)"

definition open_spec :: "jstr \<Rightarrow> lane_record list \<Rightarrow> lane_record list" where
  "open_spec lane rs = foldl (open_step lane) [] rs"

definition lane_operations :: "session_state \<Rightarrow> jstr \<Rightarrow> (jstr \<times> lane_record) list" where
  "lane_operations s lane = (case map_of (ss_openOperationsByLane s) lane of None \<Rightarrow> [] | Some m \<Rightarrow> m)"

definition open_ok :: "session_state \<Rightarrow> bool" where
  "open_ok s \<longleftrightarrow> (\<forall>lane. lane_operations s lane = map (\<lambda>r. (rec_id r, r)) (open_spec lane (ss_records s)))"

definition wf_state :: "session_state \<Rightarrow> bool" where
  "wf_state s \<longleftrightarrow> log_ok s \<and> ids_ok s \<and> tree_ordered {} (ss_entries s) \<and> lanes_ok s \<and> stats_ok s \<and> open_ok s"

section \<open>The initial state\<close>

lemma wf_new_SessionState: "wf_state new_SessionState"
  by (simp add: wf_state_def log_ok_def ids_ok_def lanes_ok_def stats_ok_def open_ok_def new_SessionState_def
      entries_of_def records_of_def entry_ids_def zero_stats_def usages_def lane_operations_def open_spec_def
      map_filter_def)

section \<open>Every mutation keeps the invariant\<close>

lemma entries_of_append [simp]: "entries_of (xs @ ys) = entries_of xs @ entries_of ys"
  by (simp add: entries_of_def map_filter_def)

lemma records_of_append [simp]: "records_of (xs @ ys) = records_of xs @ records_of ys"
  by (simp add: records_of_def map_filter_def)

lemma items_of_single [simp]:
  "entries_of [LogEntry n e] = [e]" "entries_of [LogRecord n r] = []" "entries_of [LogLane n l t] = []"
  "entries_of [LogName n x] = []" "entries_of [LogLabel n i y] = []"
  "records_of [LogEntry n e] = []" "records_of [LogRecord n r] = [r]" "records_of [LogLane n l t] = []"
  "records_of [LogName n x] = []" "records_of [LogLabel n i y] = []"
  by (simp_all add: entries_of_def records_of_def map_filter_def)

lemma usages_append [simp]: "usages (rs @ [r]) = usages rs @ (case usage_of r of None \<Rightarrow> [] | Some u \<Rightarrow> [u])"
  by (simp add: usages_def map_filter_def split: option.splits)

lemma update_fresh: "k \<notin> fst ` set al \<Longrightarrow> AList.update k v al = al @ [(k, v)]"
  by (induction al) auto

lemma map_of_eq_None_ids: "map_of (map (\<lambda>e. (entry_id e, e)) es) i = None \<longleftrightarrow> i \<notin> entry_ids es"
  by (auto simp: map_of_eq_None_iff entry_ids_def image_image)

lemma map_of_ids_ex: "(\<exists>e. map_of (map (\<lambda>e. (entry_id e, e)) es) i = Some e) \<longleftrightarrow> i \<in> entry_ids es"
  using map_of_eq_None_ids [of es i] by auto

lemma tree_ordered_append:
  "tree_ordered known (es @ [e]) \<longleftrightarrow> tree_ordered known es
     \<and> (case entry_parentId e of None \<Rightarrow> True | Some p \<Rightarrow> p \<in> known \<union> entry_ids es)"
  by (induction es arbitrary: known) (auto simp: entry_ids_def split: option.splits)

lemma log_ok_snoc:
  assumes "log_ok s" and "item_seq i = ss_sequence s + 1"
    and "\<And>n e. i = LogEntry n e \<Longrightarrow> entry_seq e = n" and "\<And>n r. i = LogRecord n r \<Longrightarrow> rec_seq r = n"
    and "ss_log s' = ss_log s @ [i]" and "ss_sequence s' = item_seq i"
    and "ss_entries s' = ss_entries s @ entries_of [i]" and "ss_records s' = ss_records s @ records_of [i]"
  shows "log_ok s'"
  using assms unfolding log_ok_def by auto

lemma applyMutation_cases:
  assumes "applyMutation f m s = Inr s'"
  obtains (AddEntry) lane e where "m = MutEntry lane e" and "entry_seq e = ss_sequence s + 1" and "apply_entry lane e s = Inr s'"
    | (AddRecord) r where "m = MutRecord r" and "rec_seq r = ss_sequence s + 1" and "apply_record r s = Inr s'"
    | (SetLane) n l leaf where "m = MutLane n l leaf" and "n = ss_sequence s + 1" and "apply_lane n l leaf s = Inr s'"
    | (SetName) n x where "m = MutName n x" and "n = ss_sequence s + 1" and "apply_name n x s = Inr s'"
    | (SetLabel) n t l where "m = MutLabel n t l" and "n = ss_sequence s + 1" and "apply_label n t l s = Inr s'"
  using assms by (cases m) (auto simp: applyMutation_def try_bind_eq_Inr split: sum.splits)

definition add_entry :: "jstr option \<Rightarrow> entry \<Rightarrow> session_state \<Rightarrow> session_state" where
  "add_entry lane e s = s\<lparr>ss_sequence := entry_seq e,
            ss_usedIds := insert (entry_id e) (ss_usedIds s),
            ss_entries := ss_entries s @ [e],
            ss_entriesById := AList.update (entry_id e) e (ss_entriesById s),
            ss_lanes := (case lane of None \<Rightarrow> ss_lanes s | Some l \<Rightarrow> AList.update l (Some (entry_id e)) (ss_lanes s)),
            ss_log := ss_log s @ [LogEntry (entry_seq e) e],
            ss_stats := (if entry_type e = MessageT
              then (ss_stats s)\<lparr>st_messageCount := st_messageCount (ss_stats s) + 1\<rparr> else ss_stats s)\<rparr>"

lemma add_entry_simps [simp]:
  "ss_sequence (add_entry lane e s) = entry_seq e" "ss_entries (add_entry lane e s) = ss_entries s @ [e]"
  "ss_usedIds (add_entry lane e s) = insert (entry_id e) (ss_usedIds s)"
  "ss_lanes (add_entry None e s) = ss_lanes s" "ss_labels (add_entry lane e s) = ss_labels s"
  "ss_lanes (add_entry (Some l) e s) = AList.update l (Some (entry_id e)) (ss_lanes s)"
  "ss_name (add_entry lane e s) = ss_name s" "ss_records (add_entry lane e s) = ss_records s"
  "ss_entriesById (add_entry lane e s) = AList.update (entry_id e) e (ss_entriesById s)"
  "ss_openOperationsByLane (add_entry lane e s) = ss_openOperationsByLane s"
  "ss_log (add_entry lane e s) = ss_log s @ [LogEntry (entry_seq e) e]"
  by (simp_all add: add_entry_def)

lemma apply_entry_iff:
  "apply_entry lane e s = Inr s' \<longleftrightarrow>
     entry_id e \<notin> ss_usedIds s \<and> (\<forall>l. lane = Some l \<longrightarrow> map_of (ss_lanes s) l = Some (entry_parentId e))
     \<and> (\<forall>p. entry_parentId e = Some p \<longrightarrow> map_of (ss_entriesById s) p \<noteq> None) \<and> s' = add_entry lane e s"
proof -
  have lane: "(case lane of None \<Rightarrow> Inr ()
       | Some l \<Rightarrow> (case map_of (ss_lanes s) l of None \<Rightarrow> Inl (MissingLane l)
         | Some leaf \<Rightarrow> throw_if (entry_parentId e \<noteq> leaf) NotChained)) = Inr ()
     \<longleftrightarrow> (\<forall>l. lane = Some l \<longrightarrow> map_of (ss_lanes s) l = Some (entry_parentId e))"
    by (cases lane) (auto split: option.splits)
  have parent: "(case entry_parentId e of None \<Rightarrow> Inr ()
       | Some p \<Rightarrow> throw_if (map_of (ss_entriesById s) p = None) (MissingParent p)) = Inr ()
     \<longleftrightarrow> (\<forall>p. entry_parentId e = Some p \<longrightarrow> map_of (ss_entriesById s) p \<noteq> None)"
    by (cases "entry_parentId e") auto
  have unit: "(\<exists>u. m = Inr u \<and> P) \<longleftrightarrow> m = Inr () \<and> P" for m :: "mutation_fault + unit" and P by auto
  show ?thesis
    unfolding apply_entry_def try_bind_eq_Inr unit lane parent add_entry_def by auto
qed

lemma apply_entry_keeps:
  assumes wf: "wf_state s" and seq: "entry_seq e = ss_sequence s + 1" and ok: "apply_entry lane e s = Inr s'"
  shows "wf_state s'"
proof -
  have wf': "log_ok s" "ids_ok s" "tree_ordered {} (ss_entries s)" "lanes_ok s" "stats_ok s" "open_ok s"
    using wf by (simp_all add: wf_state_def)
  have fresh: "entry_id e \<notin> ss_usedIds s"
    and lane: "\<forall>l. lane = Some l \<longrightarrow> map_of (ss_lanes s) l = Some (entry_parentId e)"
    and s': "s' = add_entry lane e s"
    and byId: "\<forall>p. entry_parentId e = Some p \<longrightarrow> map_of (ss_entriesById s) p \<noteq> None"
    using ok by (simp_all add: apply_entry_iff)
  note s' = s' [unfolded add_entry_def]
  have parent: "case entry_parentId e of None \<Rightarrow> True | Some p \<Rightarrow> p \<in> {} \<union> entry_ids (ss_entries s)"
    using byId wf'(2) by (cases "entry_parentId e") (simp_all add: ids_ok_def map_of_ids_ex)
  have "log_ok s'"
    by (rule log_ok_snoc [OF wf'(1), where i = "LogEntry (entry_seq e) e"]) (simp_all add: s' seq)
  moreover have "ids_ok s'"
  proof -
    have "entry_id e \<notin> fst ` set (ss_entriesById s)"
      using wf'(2) fresh by (auto simp: ids_ok_def entry_ids_def)
    with wf'(2) fresh show ?thesis by (auto simp: ids_ok_def s' entry_ids_def update_fresh)
  qed
  moreover have "tree_ordered {} (ss_entries s')"
    using wf'(3) parent by (simp add: s' tree_ordered_append)
  moreover have "lanes_ok s'"
  proof (cases lane)
    case None
    with wf'(4) show ?thesis by (auto simp: lanes_ok_def s' entry_ids_def)
  next
    case (Some l)
    with lane have l: "l \<in> fst ` set (ss_lanes s)" by (force dest: map_of_SomeD)
    have "\<forall>(l, leaf) \<in> set (AList.update l (Some (entry_id e)) (ss_lanes s)). \<forall>t. leaf = Some t \<longrightarrow>
        t \<in> insert (entry_id e) (entry_ids (ss_entries s))"
      using wf'(4) set_update_subset [of l "Some (entry_id e)" "ss_lanes s"] unfolding lanes_ok_def by blast
    with wf'(4) l Some show ?thesis
      by (auto simp: lanes_ok_def s' entry_ids_def distinct_update dom_update)
  qed
  moreover have "stats_ok s'"
    using wf'(5) by (simp add: stats_ok_def s')
  moreover have "open_ok s'" using wf'(6) by (simp add: open_ok_def s' lane_operations_def)
  ultimately show ?thesis by (simp add: wf_state_def)
qed

lemma open_spec_snoc: "open_spec lane (rs @ [r]) = open_step lane (open_spec lane rs) r"
  by (simp add: open_spec_def)

lemma open_spec_subset: "set (open_spec lane rs) \<subseteq> {r \<in> set rs. rec_lane r = lane \<and> record_type r = OperationStartedT}"
proof (induction rs rule: rev_induct)
  case Nil
  show ?case by (simp add: open_spec_def)
next
  case (snoc r rs)
  then show ?case by (auto simp: open_spec_snoc open_step_def split: record_body.splits if_splits)
qed

definition add_record :: "lane_record \<Rightarrow> session_state \<Rightarrow> session_state" where
  "add_record r s = s\<lparr>ss_sequence := rec_seq r,
            ss_usedIds := insert (rec_id r) (ss_usedIds s),
            ss_records := ss_records s @ [r],
            ss_openOperationsByLane := open_operations r (ss_openOperationsByLane s),
            ss_log := ss_log s @ [LogRecord (rec_seq r) r],
            ss_stats := record_stats r (ss_stats s)\<rparr>"

lemma apply_record_iff:
  "apply_record r s = Inr s' \<longleftrightarrow>
     map_of (ss_lanes s) (rec_lane r) \<noteq> None \<and> rec_id r \<notin> ss_usedIds s \<and> s' = add_record r s"
  by (auto simp: apply_record_def add_record_def try_bind_eq_Inr)

lemma lane_operations_add_record:
  assumes "open_ok s" and "\<And>op. op \<in> set (ss_records s) \<Longrightarrow> rec_id op \<noteq> rec_id r"
  shows "lane_operations (add_record r s) lane = map (\<lambda>r. (rec_id r, r)) (open_spec lane (ss_records s @ [r]))"
proof -
  let ?ops = "ss_openOperationsByLane s"
  have old: "(case map_of ?ops l of None \<Rightarrow> [] | Some m \<Rightarrow> m) = map (\<lambda>r. (rec_id r, r)) (open_spec l (ss_records s))" for l
    using assms(1) by (simp add: open_ok_def lane_operations_def)
  have fresh: "rec_id r \<notin> fst ` set (map (\<lambda>r. (rec_id r, r)) (open_spec (rec_lane r) (ss_records s)))"
  proof
    assume "rec_id r \<in> fst ` set (map (\<lambda>r. (rec_id r, r)) (open_spec (rec_lane r) (ss_records s)))"
    then obtain op where "op \<in> set (open_spec (rec_lane r) (ss_records s))" "rec_id op = rec_id r" by auto
    then show False using assms(2) open_spec_subset [of "rec_lane r" "ss_records s"] by blast
  qed
  have lookup: "lane_operations (add_record r s) l = (case map_of (open_operations r ?ops) l of None \<Rightarrow> [] | Some m \<Rightarrow> m)" for l
    by (simp add: lane_operations_def add_record_def)
  show ?thesis
  proof (cases "rec_lane r = lane")
    case False
    then have "map_of (open_operations r ?ops) lane = map_of ?ops lane"
      by (cases "rec_body r") (simp_all add: open_operations_def Let_def split: option.split)
    with False old [of lane] show ?thesis by (simp add: lookup open_spec_snoc open_step_def)
  next
    case True
    show ?thesis
    proof (cases "rec_body r")
      case (OperationStarted src intent)
      then show ?thesis
        using True old [of lane] fresh
        by (cases "map_of ?ops lane")
          (auto simp: lookup open_operations_def open_spec_snoc open_step_def Let_def update_fresh)
    next
      case (OperationFinished runId outcome err)
      then show ?thesis
        using True old [of lane]
        by (cases "map_of ?ops lane")
          (auto simp: lookup open_operations_def open_spec_snoc open_step_def Let_def AList.delete_eq filter_map comp_def)
    qed (use True old [of lane] in \<open>simp_all add: lookup open_operations_def open_spec_snoc open_step_def\<close>)
  qed
qed

lemma apply_record_keeps:
  assumes wf: "wf_state s" and seq: "rec_seq r = ss_sequence s + 1" and ok: "apply_record r s = Inr s'"
  shows "wf_state s'"
proof -
  have wf': "log_ok s" "ids_ok s" "tree_ordered {} (ss_entries s)" "lanes_ok s" "stats_ok s" "open_ok s"
    using wf by (simp_all add: wf_state_def)
  have fresh: "rec_id r \<notin> ss_usedIds s" and lane: "rec_lane r \<in> fst ` set (ss_lanes s)" and s': "s' = add_record r s"
    using ok by (auto simp: apply_record_iff) (force dest: map_of_SomeD)
  note s'' = s' [unfolded add_record_def]
  have "log_ok s'"
    by (rule log_ok_snoc [OF wf'(1), where i = "LogRecord (rec_seq r) r"]) (simp_all add: s'' seq)
  moreover have "ids_ok s'"
    using wf'(2) fresh by (auto simp: ids_ok_def s'' entry_ids_def)
  moreover have "tree_ordered {} (ss_entries s')" using wf'(3) by (simp add: s'')
  moreover have "lanes_ok s'" using wf'(4) lane by (auto simp: lanes_ok_def s'')
  moreover have "stats_ok s'"
    using wf'(5) by (cases "rec_body r") (simp_all add: stats_ok_def s'' record_stats_def usage_of_def)
  moreover have "open_ok s'"
  proof -
    have "rec_id op \<noteq> rec_id r" if "op \<in> set (ss_records s)" for op
      using wf'(2) fresh imageI [OF that, of rec_id] by (auto simp: ids_ok_def)
    moreover have "ss_records s' = ss_records s @ [r]" by (simp add: s'')
    ultimately show ?thesis
      unfolding open_ok_def s' using lane_operations_add_record [OF wf'(6), of r] by (simp add: s')
  qed
  ultimately show ?thesis by (simp add: wf_state_def)
qed

lemma open_ok_unchanged:
  "open_ok s \<Longrightarrow> ss_openOperationsByLane s' = ss_openOperationsByLane s \<Longrightarrow> ss_records s' = ss_records s \<Longrightarrow> open_ok s'"
  by (simp add: open_ok_def lane_operations_def)

lemma apply_lane_iff:
  "apply_lane n l leaf s = Inr s' \<longleftrightarrow> (\<forall>t. leaf = Some t \<longrightarrow> map_of (ss_entriesById s) t \<noteq> None)
     \<and> s' = s\<lparr>ss_sequence := n, ss_lanes := AList.update l leaf (ss_lanes s), ss_log := ss_log s @ [LogLane n l leaf]\<rparr>"
  by (cases leaf) (auto simp: apply_lane_def try_bind_eq_Inr)

lemma apply_lane_keeps:
  assumes wf: "wf_state s" and seq: "n = ss_sequence s + 1" and ok: "apply_lane n l leaf s = Inr s'"
  shows "wf_state s'"
proof -
  have wf': "log_ok s" "ids_ok s" "tree_ordered {} (ss_entries s)" "lanes_ok s" "stats_ok s" "open_ok s"
    using wf by (simp_all add: wf_state_def)
  have leaf: "\<forall>t. leaf = Some t \<longrightarrow> map_of (ss_entriesById s) t \<noteq> None"
    and s': "s' = s\<lparr>ss_sequence := n, ss_lanes := AList.update l leaf (ss_lanes s), ss_log := ss_log s @ [LogLane n l leaf]\<rparr>"
    using ok by (simp_all add: apply_lane_iff)
  have "log_ok s'"
    by (rule log_ok_snoc [OF wf'(1), where i = "LogLane n l leaf"]) (simp_all add: s' seq)
  moreover have "ids_ok s'" "tree_ordered {} (ss_entries s')" "stats_ok s'" "open_ok s'"
    using wf' by (simp_all add: ids_ok_def stats_ok_def s' open_ok_def lane_operations_def)
  moreover have "lanes_ok s'"
  proof -
    have "\<forall>t. leaf = Some t \<longrightarrow> t \<in> entry_ids (ss_entries s)"
      using leaf wf'(2) by (simp add: ids_ok_def map_of_ids_ex)
    then have "\<forall>(l, leaf) \<in> set (AList.update l leaf (ss_lanes s)). \<forall>t. leaf = Some t \<longrightarrow> t \<in> entry_ids (ss_entries s)"
      using wf'(4) set_update_subset [of l leaf "ss_lanes s"] unfolding lanes_ok_def by blast
    with wf'(4) show ?thesis by (simp add: lanes_ok_def s' distinct_update dom_update)
  qed
  ultimately show ?thesis by (simp add: wf_state_def)
qed

lemma apply_name_keeps:
  assumes wf: "wf_state s" and seq: "n = ss_sequence s + 1" and ok: "apply_name n x s = Inr s'"
  shows "wf_state s'"
proof -
  have wf': "log_ok s" "ids_ok s" "tree_ordered {} (ss_entries s)" "lanes_ok s" "stats_ok s" "open_ok s"
    using wf by (simp_all add: wf_state_def)
  have s': "s' = s\<lparr>ss_sequence := n, ss_name := x, ss_log := ss_log s @ [LogName n x]\<rparr>"
    using ok by (simp add: apply_name_def)
  have "log_ok s'"
    by (rule log_ok_snoc [OF wf'(1), where i = "LogName n x"]) (simp_all add: s' seq)
  with wf' show ?thesis
    by (simp add: wf_state_def ids_ok_def lanes_ok_def stats_ok_def s' open_ok_def lane_operations_def)
qed

lemma apply_label_iff:
  "apply_label n t l s = Inr s' \<longleftrightarrow> map_of (ss_entriesById s) t \<noteq> None
     \<and> s' = s\<lparr>ss_sequence := n,
            ss_labels := (case l of None \<Rightarrow> AList.delete t (ss_labels s) | Some l \<Rightarrow> AList.update t l (ss_labels s)),
            ss_log := ss_log s @ [LogLabel n t l]\<rparr>"
  by (auto simp: apply_label_def try_bind_eq_Inr)

lemma apply_label_keeps:
  assumes wf: "wf_state s" and seq: "n = ss_sequence s + 1" and ok: "apply_label n t l s = Inr s'"
  shows "wf_state s'"
proof -
  have wf': "log_ok s" "ids_ok s" "tree_ordered {} (ss_entries s)" "lanes_ok s" "stats_ok s" "open_ok s"
    using wf by (simp_all add: wf_state_def)
  have t: "map_of (ss_entriesById s) t \<noteq> None"
    and s': "s' = s\<lparr>ss_sequence := n,
            ss_labels := (case l of None \<Rightarrow> AList.delete t (ss_labels s) | Some l \<Rightarrow> AList.update t l (ss_labels s)),
            ss_log := ss_log s @ [LogLabel n t l]\<rparr>"
    using ok by (simp_all add: apply_label_iff)
  have "log_ok s'"
    by (rule log_ok_snoc [OF wf'(1), where i = "LogLabel n t l"]) (simp_all add: s' seq)
  moreover have "ids_ok s'" "tree_ordered {} (ss_entries s')" "stats_ok s'" "open_ok s'"
    using wf' by (simp_all add: ids_ok_def stats_ok_def s' open_ok_def lane_operations_def)
  moreover have "lanes_ok s'"
  proof -
    have "t \<in> entry_ids (ss_entries s)" using t wf'(2) by (simp add: ids_ok_def map_of_ids_ex)
    with wf'(4) show ?thesis
      by (cases l) (auto simp: lanes_ok_def s' distinct_update dom_update distinct_map_filter AList.delete_eq)
  qed
  ultimately show ?thesis by (simp add: wf_state_def)
qed

lemma applyMutation_keeps: "wf_state s \<Longrightarrow> applyMutation f m s = Inr s' \<Longrightarrow> wf_state s'"
  by (erule applyMutation_cases)
    (auto intro: apply_entry_keeps apply_record_keeps apply_lane_keeps apply_name_keeps apply_label_keeps)

interpretation session_state: guarded_machine "applyMutation f" new_SessionState wf_state for f
  by unfold_locales (rule wf_new_SessionState, rule applyMutation_keeps)

end
