(* ===== verification/Session_Queries.thy ===== *)
theory Session_Queries
  imports Session_Invariant
begin

text \<open>
  What the queries of \<open>SessionState\<close> return: filtering, ordering and limiting of the entries, the
  records and the log; on a state with the invariant the walk to the root never meets a cycle or
  a missing entry, and a branch query is a query of the unique path from its start to the root.
\<close>

section \<open>The collecting loops\<close>

definition take_limit :: "nat option \<Rightarrow> 'a list \<Rightarrow> 'a list" where
  "take_limit limit xs = (case limit of None \<Rightarrow> xs | Some n \<Rightarrow> take n xs)"

lemma collect_take:
  "(\<And>n. limit = Some n \<Longrightarrow> length results < n) \<Longrightarrow>
    collect matches limit results xs = take_limit limit (results @ filter matches xs)"
proof (induction xs arbitrary: results)
  case Nil
  then show ?case by (auto simp: take_limit_def split: option.splits)
next
  case (Cons x xs)
  show ?case
  proof (cases "matches x \<and> limit = Some (length (results @ [x]))")
    case True
    then show ?thesis by (simp add: take_limit_def)
  next
    case False
    then have "collect matches limit results (x # xs)
        = collect matches limit (if matches x then results @ [x] else results) xs"
      by (auto simp: Let_def)
    also have "\<dots> = take_limit limit ((if matches x then results @ [x] else results) @ filter matches xs)"
    proof (rule Cons.IH)
      fix n assume n: "limit = Some n"
      with Cons.prems [OF n] False show "length (if matches x then results @ [x] else results) < n" by auto
    qed
    finally show ?thesis by simp
  qed
qed

lemma collect_limit: "limit \<noteq> Some 0 \<Longrightarrow> collect matches limit [] xs = take_limit limit (filter matches xs)"
  using collect_take [of limit "[]" matches xs] by (cases limit) auto

lemma collect_newest_take:
  "(\<And>n. limit = Some n \<Longrightarrow> length results < n) \<Longrightarrow>
    collect_newest matches limit results es None = Inr (take_limit limit (results @ filter matches es))"
proof (induction es arbitrary: results)
  case Nil
  then show ?case by (auto simp: take_limit_def split: option.splits)
next
  case (Cons x xs)
  show ?case
  proof (cases "matches x \<and> limit = Some (length (results @ [x]))")
    case True
    then show ?thesis by (simp add: take_limit_def)
  next
    case False
    then have "collect_newest matches limit results (x # xs) None
        = collect_newest matches limit (if matches x then results @ [x] else results) xs None"
      using Cons.prems by (auto simp: Let_def)
    also have "\<dots> = Inr (take_limit limit ((if matches x then results @ [x] else results) @ filter matches xs))"
    proof (rule Cons.IH)
      fix n assume n: "limit = Some n"
      with Cons.prems [OF n] False show "length (if matches x then results @ [x] else results) < n" by auto
    qed
    finally show ?thesis by simp
  qed
qed

text \<open>A scan that ends behind the first element with the given property.\<close>

fun take_through :: "('a \<Rightarrow> bool) \<Rightarrow> 'a list \<Rightarrow> 'a list" where
  "take_through P [] = []"
| "take_through P (x # xs) = (if P x then [x] else x # take_through P xs)"

lemma collect_oldest_take:
  "(\<And>n. limit = Some n \<Longrightarrow> length results < n) \<Longrightarrow>
    collect_oldest matches bound limit results es = take_limit limit (results @ filter matches (take_through bound es))"
proof (induction es arbitrary: results)
  case Nil
  then show ?case by (auto simp: take_limit_def split: option.splits)
next
  case (Cons x xs)
  let ?r = "if matches x then results @ [x] else results"
  show ?case
  proof (cases "limit = Some (length ?r)")
    case True
    with Cons.prems have "matches x" by (auto split: if_splits)
    with True show ?thesis by (simp add: take_limit_def)
  next
    case limit: False
    have less: "length ?r < n" if n: "limit = Some n" for n
      using Cons.prems [OF n] limit n by (auto simp: less_Suc_eq_le intro: le_neq_implies_less)
    show ?thesis
    proof (cases "bound x")
      case True
      have "take_limit limit ?r = ?r" using less by (auto simp: take_limit_def split: option.splits dest: less_imp_le)
      with True show ?thesis by (auto simp: Let_def)
    next
      case False
      then have "collect_oldest matches bound limit results (x # xs) = collect_oldest matches bound limit ?r xs"
        using limit by (simp add: Let_def)
      also have "\<dots> = take_limit limit (?r @ filter matches (take_through bound xs))" by (rule Cons.IH, rule less)
      finally show ?thesis using False by simp
    qed
  qed
qed

section \<open>The branch of an entry\<close>

text \<open>The path from an entry to the root, by the parent links.\<close>

inductive branch :: "entry list \<Rightarrow> jstr \<Rightarrow> entry list \<Rightarrow> bool" for es where
  branch_root: "e \<in> set es \<Longrightarrow> entry_parentId e = None \<Longrightarrow> branch es (entry_id e) [e]"
| branch_step: "e \<in> set es \<Longrightarrow> entry_parentId e = Some p \<Longrightarrow> branch es p path \<Longrightarrow> branch es (entry_id e) (e # path)"

inductive_cases branchE: "branch es i path"

lemma branch_head: "branch es i path \<Longrightarrow> \<exists>e rest. path = e # rest \<and> entry_id e = i \<and> e \<in> set es"
  by (erule branchE) auto

lemma branch_unique:
  assumes "distinct (map entry_id es)"
  shows "branch es i path \<Longrightarrow> branch es i path' \<Longrightarrow> path' = path"
proof (induction arbitrary: path' rule: branch.induct)
  case (branch_root e)
  have same: "e' = e" if "e' \<in> set es" "entry_id e' = entry_id e" for e'
    using assms that branch_root(1) by (auto simp: distinct_map inj_on_def)
  from branch_root(3) show ?case
    by (cases rule: branch.cases) (use same branch_root(2) in \<open>auto\<close>)
next
  case (branch_step e p path)
  have same: "e' = e" if "e' \<in> set es" "entry_id e' = entry_id e" for e'
    using assms that branch_step(1) by (auto simp: distinct_map inj_on_def)
  from branch_step(5) show ?case
    by (cases rule: branch.cases) (use same branch_step(2) branch_step.IH in \<open>auto\<close>)
qed

lemma tree_ordered_nth:
  "tree_ordered known es \<Longrightarrow> k < length es \<Longrightarrow> entry_parentId (es ! k) = Some p \<Longrightarrow>
    p \<in> known \<union> entry_ids (take k es)"
proof (induction es arbitrary: known k)
  case Nil
  then show ?case by simp
next
  case (Cons e es)
  show ?case
  proof (cases k)
    case 0
    with Cons.prems show ?thesis by simp
  next
    case (Suc j)
    with Cons.prems Cons.IH [of "insert (entry_id e) known" j] show ?thesis by (auto simp: entry_ids_def)
  qed
qed

definition path_bound :: "entry_type option \<Rightarrow> jstr option \<Rightarrow> entry \<Rightarrow> bool" where
  "path_bound stopAtType stopAtId e \<longleftrightarrow> Some (entry_id e) = stopAtId \<or> Some (entry_type e) = stopAtType"

lemma map_of_ids_nth:
  assumes "distinct (map entry_id es)" and "k < length es"
  shows "map_of (map (\<lambda>e. (entry_id e, e)) es) (entry_id (es ! k)) = Some (es ! k)"
  using assms by (intro map_of_is_SomeI) (auto simp: comp_def)

lemma walk_branch:
  assumes "distinct (map entry_id es)" and "tree_ordered {} es"
  shows "k < length es \<Longrightarrow> visited \<inter> entry_ids (take (Suc k) es) = {} \<Longrightarrow>
    \<exists>path. branch es (entry_id (es ! k)) path \<and> set path \<subseteq> set (take (Suc k) es)
      \<and> walk (map (\<lambda>e. (entry_id e, e)) es) t i visited missing (entry_id (es ! k)) = (take_through (path_bound t i) path, None)"
proof (induction k arbitrary: visited missing rule: less_induct)
  case (less k)
  let ?e = "es ! k"
  note lookup = map_of_ids_nth [OF assms(1) less.prems(1)]
  have take: "take (Suc k) es = take k es @ [?e]" using less.prems(1) by (rule take_Suc_conv_app_nth)
  have e: "?e \<in> set es" "?e \<in> set (take (Suc k) es)" using less.prems(1) by (simp_all add: take)
  have new: "entry_id ?e \<notin> visited" using less.prems(2) e(2) by (auto simp: entry_ids_def)
  show ?case
  proof (cases "entry_parentId ?e")
    case None
    then have "branch es (entry_id ?e) [?e]" using e(1) by (intro branch_root)
    moreover have "walk (map (\<lambda>e. (entry_id e, e)) es) t i visited missing (entry_id ?e) = ([?e], None)"
      using lookup new None by (simp add: walk.simps [where i = "entry_id ?e"])
    ultimately show ?thesis using e(2) by (intro exI [of _ "[?e]"]) simp
  next
    case (Some p)
    then have "p \<in> entry_ids (take k es)" using tree_ordered_nth [OF assms(2) less.prems(1)] by simp
    then obtain j where j: "j < k" "entry_id (es ! j) = p"
      using less.prems(1) by (auto simp: entry_ids_def in_set_conv_nth)
    have sub: "set (take (Suc j) es) \<subseteq> set (take k es)" using j(1) by (intro set_take_subset_set_take) simp
    have "entry_id ?e \<notin> entry_ids (take k es)"
    proof
      assume "entry_id ?e \<in> entry_ids (take k es)"
      then obtain j where "j < k" "map entry_id es ! j = map entry_id es ! k"
        using less.prems(1) by (auto simp: entry_ids_def in_set_conv_nth)
      then show False using assms(1) less.prems(1) by (simp add: nth_eq_iff_index_eq del: nth_map)
    qed
    then have "insert (entry_id ?e) visited \<inter> entry_ids (take (Suc j) es) = {}"
      using less.prems(2) sub by (auto simp: entry_ids_def take)
    from less.IH [OF j(1) _ this, where missing = "BranchEntryMissing p"] j less.prems(1) obtain path where
      path: "branch es p path" "set path \<subseteq> set (take (Suc j) es)"
        "walk (map (\<lambda>e. (entry_id e, e)) es) t i (insert (entry_id ?e) visited) (BranchEntryMissing p) p
          = (take_through (path_bound t i) path, None)" by auto
    have "branch es (entry_id ?e) (?e # path)" using e(1) Some path(1) by (intro branch_step)
    moreover have "walk (map (\<lambda>e. (entry_id e, e)) es) t i visited missing (entry_id ?e)
        = (take_through (path_bound t i) (?e # path), None)"
      using lookup new Some path(3) by (simp add: walk.simps [where i = "entry_id ?e"] path_bound_def)
    ultimately show ?thesis using path(2) sub e(2) by (intro exI [of _ "?e # path"]) (auto simp: take)
  qed
qed

lemma walkToRoot_branch:
  assumes "wf_state s" and "i \<in> entry_ids (ss_entries s)"
  obtains path where "branch (ss_entries s) i path"
    and "\<And>t b. walkToRoot s i t b = (take_through (path_bound t b) path, None)"
proof -
  have wf: "distinct (map entry_id (ss_entries s))" "tree_ordered {} (ss_entries s)"
    "ss_entriesById s = map (\<lambda>e. (entry_id e, e)) (ss_entries s)"
    using assms(1) by (simp_all add: wf_state_def ids_ok_def)
  obtain k where k: "k < length (ss_entries s)" "entry_id (ss_entries s ! k) = i"
    using assms(2) by (auto simp: entry_ids_def in_set_conv_nth)
  have all: "\<exists>path. branch (ss_entries s) i path \<and> walkToRoot s i t b = (take_through (path_bound t b) path, None)" for t b
    using walk_branch [OF wf(1,2) k(1), of "{}" t b "EntryNotFound i"] k(2)
    by (auto simp: walkToRoot_def wf(3))
  then obtain path where path: "branch (ss_entries s) i path" by blast
  have "walkToRoot s i t b = (take_through (path_bound t b) path, None)" for t b
    using all [of t b] branch_unique [OF wf(1) path] by blast
  with path show ?thesis by (rule that)
qed

lemma walkToRoot_missing:
  assumes "wf_state s" and "i \<notin> entry_ids (ss_entries s)"
  shows "walkToRoot s i t b = ([], Some (EntryNotFound i))"
proof -
  have "map_of (ss_entriesById s) i = None"
    using assms by (simp add: wf_state_def ids_ok_def map_of_eq_None_ids)
  then show ?thesis by (simp add: walkToRoot_def walk.simps [where i = i])
qed

section \<open>The queries\<close>

lemma findEntries_eq:
  "findEntries s q = try_bind (assertValidLimit (eq_limit q)) (\<lambda>_. try_bind (assertValidCursor (eq_cursor q)) (\<lambda>_.
     Inr (take_limit (limit_nat (eq_limit q)) (filter (\<lambda>e. matchesEntryQuery e q) (ordered (ss_entries s) (eq_order q))))))"
  by (cases "assertValidLimit (eq_limit q)") (simp_all add: findEntries_def collect_limit assertValidLimit_pos)

lemma findRecords_eq:
  "findRecords s q = try_bind (assertValidLimit (rq_limit q)) (\<lambda>_. try_bind (assertValidCursor (rq_afterSeq q)) (\<lambda>_.
     Inr (take_limit (limit_nat (rq_limit q)) (filter (\<lambda>r. matchesRecordQuery r q) (ordered (ss_records s) (rq_order q))))))"
  by (cases "assertValidLimit (rq_limit q)") (simp_all add: findRecords_def collect_limit assertValidLimit_pos)

lemma getLog_eq:
  "getLog s q = try_bind (assertValidLimit (lo_limit q)) (\<lambda>_. try_bind (assertValidCursor (lo_afterSeq q)) (\<lambda>_.
     Inr (take_limit (limit_nat (lo_limit q))
       (filter (\<lambda>i. case lo_afterSeq q of None \<Rightarrow> True | Some c \<Rightarrow> \<not> item_seq i \<le> cursor_int c) (ss_log s)))))"
  by (cases "assertValidLimit (lo_limit q)") (simp_all add: getLog_def collect_limit assertValidLimit_pos)

lemma findOpenOperations_eq:
  assumes "wf_state s"
  shows "findOpenOperations s lane limit =
    try_bind (assertValidLimit limit) (\<lambda>_. Inr (take_limit (limit_nat limit) (rev (open_spec lane (ss_records s)))))"
proof -
  have "(case map_of (ss_openOperationsByLane s) lane of None \<Rightarrow> [] | Some m \<Rightarrow> rev (map snd m))
      = rev (map snd (lane_operations s lane))"
    by (simp add: lane_operations_def split: option.split)
  also have "\<dots> = rev (open_spec lane (ss_records s))"
    using assms by (simp add: wf_state_def open_ok_def comp_def)
  finally show ?thesis by (simp add: findOpenOperations_def take_limit_def Let_def split: option.split)
qed

lemma findEntriesOnBranch_eq:
  assumes "wf_state s" and "branch (ss_entries s) i path"
    and "assertValidLimit (eq_limit q) = Inr u" and "assertValidCursor (eq_cursor q) = Inr v"
  shows "findEntriesOnBranch s q i = Inr (take_limit (limit_nat (eq_limit q))
    (filter (\<lambda>e. matchesEntryQuery e q)
      (take_through (path_bound (bq_stopAtType q) (bq_stopAtId q)) (if eq_order q = Some OldestFirst then rev path else path))))"
proof -
  have ids: "distinct (map entry_id (ss_entries s))" using assms(1) by (simp add: wf_state_def ids_ok_def)
  have "i \<in> entry_ids (ss_entries s)" using branch_head [OF assms(2)] by (auto simp: entry_ids_def)
  from walkToRoot_branch [OF assms(1) this] obtain path' where "branch (ss_entries s) i path'"
    and w: "\<And>t b. walkToRoot s i t b = (take_through (path_bound t b) path', None)" by blast
  then have p: "path' = path" using branch_unique [OF ids assms(2)] by blast
  have whole: "take_through (path_bound None None) xs = xs" for xs
    by (induction xs) (simp_all add: path_bound_def)
  have bound: "(\<lambda>e. Some (entry_id e) = bq_stopAtId q \<or> Some (entry_type e) = bq_stopAtType q)
      = path_bound (bq_stopAtType q) (bq_stopAtId q)"
    by (simp add: path_bound_def fun_eq_iff)
  have pos: "\<And>n. limit_nat (eq_limit q) = Some n \<Longrightarrow> length [] < n"
    using assertValidLimit_pos [OF assms(3)] by (cases "limit_nat (eq_limit q)") auto
  show ?thesis
    using assms(3,4) by (simp add: findEntriesOnBranch_def w p whole bound collect_oldest_take [OF pos] collect_newest_take [OF pos])
qed

lemma items_of_Cons [simp]:
  "entries_of (LogEntry n e # xs) = e # entries_of xs" "entries_of (LogRecord n r # xs) = entries_of xs"
  "entries_of (LogLane n l t # xs) = entries_of xs" "entries_of (LogName n x # xs) = entries_of xs"
  "entries_of (LogLabel n i y # xs) = entries_of xs"
  "records_of (LogEntry n e # xs) = records_of xs" "records_of (LogRecord n r # xs) = r # records_of xs"
  "records_of (LogLane n l t # xs) = records_of xs" "records_of (LogName n x # xs) = records_of xs"
  "records_of (LogLabel n i y # xs) = records_of xs"
  by (simp_all add: entries_of_def records_of_def map_filter_def)

lemma sorted_entries_of:
  "sorted_wrt (<) (map item_seq items) \<Longrightarrow> \<forall>n e. LogEntry n e \<in> set items \<longrightarrow> entry_seq e = n \<Longrightarrow>
    sorted_wrt (<) (map entry_seq (entries_of items)) \<and> entry_seq ` set (entries_of items) \<subseteq> item_seq ` set items"
proof (induction items)
  case Nil
  show ?case by (simp add: entries_of_def map_filter_def)
next
  case (Cons i items)
  from Cons have IH: "sorted_wrt (<) (map entry_seq (entries_of items))"
    "entry_seq ` set (entries_of items) \<subseteq> item_seq ` set items" by simp_all
  show ?case
  proof (cases i)
    case (LogEntry n e)
    have n: "entry_seq e = n" using Cons.prems(2) unfolding LogEntry by (meson list.set_intros(1))
    have "\<forall>m \<in> item_seq ` set items. n < m" using Cons.prems(1) unfolding LogEntry by simp
    with IH(2) have "\<forall>m \<in> set (map entry_seq (entries_of items)). n < m" by auto
    with IH show ?thesis unfolding LogEntry by (simp add: subset_insertI2 n)
  qed (use IH in \<open>simp_all add: subset_insertI2\<close>)
qed

lemma sorted_records_of:
  "sorted_wrt (<) (map item_seq items) \<Longrightarrow> \<forall>n r. LogRecord n r \<in> set items \<longrightarrow> rec_seq r = n \<Longrightarrow>
    sorted_wrt (<) (map rec_seq (records_of items)) \<and> rec_seq ` set (records_of items) \<subseteq> item_seq ` set items"
proof (induction items)
  case Nil
  show ?case by (simp add: records_of_def map_filter_def)
next
  case (Cons i items)
  from Cons have IH: "sorted_wrt (<) (map rec_seq (records_of items))"
    "rec_seq ` set (records_of items) \<subseteq> item_seq ` set items" by simp_all
  show ?case
  proof (cases i)
    case (LogRecord n r)
    have n: "rec_seq r = n" using Cons.prems(2) unfolding LogRecord by (meson list.set_intros(1))
    have "\<forall>m \<in> item_seq ` set items. n < m" using Cons.prems(1) unfolding LogRecord by simp
    with IH(2) have "\<forall>m \<in> set (map rec_seq (records_of items)). n < m" by auto
    with IH show ?thesis unfolding LogRecord by (simp add: subset_insertI2 n)
  qed (use IH in \<open>simp_all add: subset_insertI2\<close>)
qed

lemma wf_sorted:
  assumes "wf_state s"
  shows "sorted_wrt (<) (map entry_seq (ss_entries s))" and "sorted_wrt (<) (map rec_seq (ss_records s))"
    and "\<forall>e \<in> set (ss_entries s). 1 \<le> entry_seq e \<and> entry_seq e \<le> ss_sequence s"
proof -
  have l: "log_ok s" using assms by (simp add: wf_state_def)
  have s: "sorted_wrt (<) (map item_seq (ss_log s))"
  proof -
    have "sorted_wrt (<) (map (\<lambda>n. int n + 1) [0..<k])" for k
      by (induction k) (auto simp: sorted_wrt_append)
    then show ?thesis using l by (simp add: log_ok_def)
  qed
  show "sorted_wrt (<) (map entry_seq (ss_entries s))" "sorted_wrt (<) (map rec_seq (ss_records s))"
    using sorted_entries_of [OF s] sorted_records_of [OF s] l by (auto simp: log_ok_def)
  have "entry_seq ` set (ss_entries s) \<subseteq> set (map item_seq (ss_log s))"
    using sorted_entries_of [OF s] l unfolding log_ok_def set_map by metis
  then show "\<forall>e \<in> set (ss_entries s). 1 \<le> entry_seq e \<and> entry_seq e \<le> ss_sequence s"
  proof -
    have "set (map item_seq (ss_log s)) = (\<lambda>n. int n + 1) ` {0..<length (ss_log s)}"
      using l by (simp add: log_ok_def del: set_map) simp
    then have "1 \<le> n \<and> n \<le> ss_sequence s" if "n \<in> set (map item_seq (ss_log s))" for n
      using that l by (auto simp: log_ok_def)
    with \<open>entry_seq ` set (ss_entries s) \<subseteq> set (map item_seq (ss_log s))\<close> show ?thesis by blast
  qed
qed

text \<open>Which operations are open: those whose start is not followed by a finish of the same lane.\<close>

lemma open_spec_iff:
  assumes "distinct (map rec_id rs)"
  shows "op \<in> set (open_spec lane rs) \<longleftrightarrow>
    (\<exists>before after. rs = before @ op # after \<and> rec_lane op = lane \<and> record_type op = OperationStartedT
       \<and> (\<forall>f \<in> set after. rec_lane f = lane \<longrightarrow> (\<forall>outcome err. rec_body f \<noteq> OperationFinished (rec_id op) outcome err)))"
    (is "_ \<longleftrightarrow> ?open op rs")
  using assms
proof (induction rs rule: rev_induct)
  case Nil
  show ?case by (simp add: open_spec_def)
next
  case (snoc r rs)
  then have IH: "op \<in> set (open_spec lane rs) \<longleftrightarrow> ?open op rs" and fresh: "rec_id r \<notin> rec_id ` set rs" by simp_all
  have split: "?open op (rs @ [r]) \<longleftrightarrow> (op = r \<and> op \<notin> set rs \<and> rec_lane op = lane \<and> record_type op = OperationStartedT)
      \<or> (?open op rs \<and> (rec_lane r = lane \<longrightarrow> (\<forall>outcome err. rec_body r \<noteq> OperationFinished (rec_id op) outcome err)))"
  proof
    assume "?open op (rs @ [r])"
    then obtain b a where ba: "rs @ [r] = b @ op # a" "rec_lane op = lane" "record_type op = OperationStartedT"
      "\<forall>f \<in> set a. rec_lane f = lane \<longrightarrow> (\<forall>outcome err. rec_body f \<noteq> OperationFinished (rec_id op) outcome err)" by blast
    show "(op = r \<and> op \<notin> set rs \<and> rec_lane op = lane \<and> record_type op = OperationStartedT)
      \<or> (?open op rs \<and> (rec_lane r = lane \<longrightarrow> (\<forall>outcome err. rec_body r \<noteq> OperationFinished (rec_id op) outcome err)))"
    proof (cases a rule: rev_cases)
      case Nil
      with ba fresh show ?thesis by auto
    next
      case (snoc a' r')
      with ba(1) have "r' = r" "rs = b @ op # a'" by simp_all
      with ba snoc show ?thesis by auto
    qed
  next
    assume "(op = r \<and> op \<notin> set rs \<and> rec_lane op = lane \<and> record_type op = OperationStartedT)
      \<or> (?open op rs \<and> (rec_lane r = lane \<longrightarrow> (\<forall>outcome err. rec_body r \<noteq> OperationFinished (rec_id op) outcome err)))"
    then show "?open op (rs @ [r])"
    proof
      assume "op = r \<and> op \<notin> set rs \<and> rec_lane op = lane \<and> record_type op = OperationStartedT"
      then have "rs @ [r] = rs @ op # [] \<and> rec_lane op = lane \<and> record_type op = OperationStartedT" by auto
      then show ?thesis by (metis empty_iff list.set(1))
    next
      assume *: "?open op rs \<and> (rec_lane r = lane \<longrightarrow> (\<forall>outcome err. rec_body r \<noteq> OperationFinished (rec_id op) outcome err))"
      then obtain b a where "rs = b @ op # a" "rec_lane op = lane" "record_type op = OperationStartedT"
        "\<forall>f \<in> set a. rec_lane f = lane \<longrightarrow> (\<forall>outcome err. rec_body f \<noteq> OperationFinished (rec_id op) outcome err)" by blast
      with * show ?thesis by (intro exI [of _ b] exI [of _ "a @ [r]"]) auto
    qed
  qed
  have new: "op = r \<Longrightarrow> op \<notin> set rs" using fresh by auto
  show ?case unfolding split using IH new
    by (cases "rec_body r") (auto simp: open_spec_snoc open_step_def)
qed

end
