(* ===== verification/Session_Fork.thy ===== *)
theory Session_Fork
  imports Session_Queries
begin

text \<open>
  Forking a session: on a state with the invariant the mutations that \<open>createForkMutations\<close>
  returns always apply to a fresh state, and the forked state holds the selected entries
  renumbered, the selected lanes, the name and the labels of the copied entries.
\<close>

section \<open>The copied entries\<close>

lemma entry_eq_by_id:
  "distinct (map entry_id es) \<Longrightarrow> e \<in> set es \<Longrightarrow> e' \<in> set es \<Longrightarrow> entry_id e' = entry_id e \<Longrightarrow> e' = e"
  by (auto simp: distinct_map inj_on_def)

lemma parent_before:
  assumes "wf_state s" and "e \<in> set (ss_entries s)" and "entry_parentId e = Some p"
  obtains e' where "e' \<in> set (ss_entries s)" and "entry_id e' = p" and "entry_seq e' < entry_seq e"
proof -
  let ?es = "ss_entries s"
  obtain k where k: "k < length ?es" "?es ! k = e" using assms(2) by (auto simp: in_set_conv_nth)
  have "tree_ordered {} ?es" using assms(1) by (simp add: wf_state_def)
  from tree_ordered_nth [OF this k(1)] assms(3) k(2) have "p \<in> entry_ids (take k ?es)" by simp
  then obtain j where j: "j < k" "entry_id (?es ! j) = p" using k(1) by (auto simp: entry_ids_def in_set_conv_nth)
  have "entry_seq (?es ! j) < entry_seq (?es ! k)"
    using wf_sorted(1) [OF assms(1)] j(1) k(1) by (auto simp: sorted_wrt_iff_nth_less)
  with j k show ?thesis by (intro that [of "?es ! j"]) auto
qed

lemma branch_descends:
  assumes "wf_state s"
  shows "branch (ss_entries s) i path \<Longrightarrow> sorted_wrt (>) (map entry_seq path)"
proof (induction rule: branch.induct)
  case (branch_root e)
  show ?case by simp
next
  case (branch_step e p path)
  have ids: "distinct (map entry_id (ss_entries s))" using assms by (simp add: wf_state_def ids_ok_def)
  from branch_head [OF branch_step(3)] obtain e' rest where p: "path = e' # rest" "entry_id e' = p" "e' \<in> set (ss_entries s)"
    by blast
  obtain e'' where "e'' \<in> set (ss_entries s)" "entry_id e'' = p" "entry_seq e'' < entry_seq e"
    using parent_before [OF assms branch_step(1,2)] .
  then have "entry_seq e' < entry_seq e" using entry_eq_by_id [OF ids] p by metis
  with branch_step.IH show ?case by (auto simp: p)
qed

lemma branch_set: "branch es i path \<Longrightarrow> set path \<subseteq> set es"
  by (induction rule: branch.induct) auto

lemma sorted_neq_distinct: "sorted_wrt (\<noteq>) xs \<Longrightarrow> distinct xs"
  by (induction xs) auto

lemma branch_distinct:
  assumes "wf_state s" and "branch (ss_entries s) i path"
  shows "distinct (map entry_id path)"
proof -
  have "sorted_wrt (\<noteq>) (map entry_seq path)"
    by (rule sorted_wrt_mono_rel [OF _ branch_descends [OF assms]]) auto
  then have "distinct (map entry_seq path)" by (rule sorted_neq_distinct)
  then have "distinct path" by (simp add: distinct_map)
  moreover have "inj_on entry_id (set path)"
    using assms(1) branch_set [OF assms(2)]
    by (auto simp: wf_state_def ids_ok_def distinct_map intro: inj_on_subset)
  ultimately show ?thesis by (simp add: distinct_map)
qed

lemma branch_tree_ordered: "branch es i path \<Longrightarrow> tree_ordered {} (rev path)"
proof (induction rule: branch.induct)
  case (branch_root e)
  then show ?case by simp
next
  case (branch_step e p path)
  from branch_head [OF branch_step(3)] have "p \<in> entry_ids (rev path)" by (auto simp: entry_ids_def)
  with branch_step show ?case by (simp add: tree_ordered_append)
qed

lemma take_through_None: "take_through (path_bound None None) xs = xs"
  by (induction xs) (simp_all add: path_bound_def)

lemma branch_path_eq:
  assumes "wf_state s" and "branch (ss_entries s) i path"
  shows "findEntriesOnBranch s branch_path_query i = Inr (rev path)"
  using findEntriesOnBranch_eq [OF assms, of branch_path_query]
  by (simp add: branch_path_query_def assertValidLimit_def assertValidCursor_def take_limit_def limit_nat_def
      take_through_None matchesEntryQuery_def)

lemma all_entries_eq: "findEntries s all_entries_query = Inr (ss_entries s)"
  by (simp add: findEntries_eq all_entries_query_def assertValidLimit_def assertValidCursor_def take_limit_def
      limit_nat_def matchesEntryQuery_def ordered_def)

definition fork_ok :: "entry list \<Rightarrow> (jstr \<times> jstr option) list \<Rightarrow> bool" where
  "fork_ok copied lanes \<longleftrightarrow> distinct (map entry_id copied) \<and> tree_ordered {} copied
     \<and> distinct (map fst lanes) \<and> main_lane \<in> fst ` set lanes
     \<and> (\<forall>(l, leaf) \<in> set lanes. \<forall>t. leaf = Some t \<longrightarrow> t \<in> entry_ids copied)"

lemma getEntry_wf:
  assumes "wf_state s" and "getEntry s i = Some e"
  shows "e \<in> set (ss_entries s) \<and> entry_id e = i"
proof -
  have "map_of (map (\<lambda>e. (entry_id e, e)) (ss_entries s)) i = Some e"
    using assms by (simp add: wf_state_def ids_ok_def getEntry_def)
  from map_of_SomeD [OF this] show ?thesis by auto
qed

lemma fork_branch_ok:
  assumes wf: "wf_state s" and t: "t \<in> entry_ids (ss_entries s)"
  shows "\<exists>copied. findEntriesOnBranch s branch_path_query t = Inr copied \<and> fork_ok copied [(main_lane, Some t)]"
proof -
  obtain path where path: "branch (ss_entries s) t path" by (rule walkToRoot_branch [OF wf t])
  have "t \<in> entry_ids (rev path)" using branch_head [OF path] by (auto simp: entry_ids_def)
  moreover have "distinct (map entry_id (rev path))"
    using branch_distinct [OF wf path] by (simp add: rev_map [symmetric])
  ultimately have "fork_ok (rev path) [(main_lane, Some t)]"
    using branch_tree_ordered [OF path] by (simp add: fork_ok_def)
  then show ?thesis using branch_path_eq [OF wf path] by blast
qed

lemma fork_target_cases:
  assumes "fork_target s entryId position = Inr target"
  shows "target = None \<or> (\<exists>i e. getEntry s i = Some e \<and> (target = Some (entry_id e) \<or> target = entry_parentId e))"
proof -
  from assms obtain selected where "(case selected of
         None \<Rightarrow> Inr None
       | Some i \<Rightarrow> (case getEntry s i of
           None \<Rightarrow> Inl (NotAMessage i)
         | Some e \<Rightarrow>
             if entry_type e \<noteq> MessageT then Inl (NotAMessage i)
             else let position = (case position of Some p \<Rightarrow> p | None \<Rightarrow> if entryId = None then AtEntry else BeforeEntry)
                  in Inr (if position = AtEntry then Some (entry_id e) else entry_parentId e))) = Inr target"
    unfolding fork_target_def by (rule try_bindE)
  then show ?thesis
    unfolding Let_def by (cases selected; cases "getEntry s (the selected)") (simp_all split: if_splits, blast+)
qed

lemma fork_selection_ok:
  assumes wf: "wf_state s" and sel: "fork_selection s options = Inr (copied, lanes)"
  shows "fork_ok copied lanes"
proof (cases options)
  case ForkTree
  with sel have "copied = ss_entries s" "lanes = ss_lanes s"
    by (simp_all add: fork_selection_def all_entries_eq getLanes_def)
  then show ?thesis using wf by (auto simp: fork_ok_def wf_state_def ids_ok_def lanes_ok_def)
next
  case (ForkBranch entryId position)
  from sel obtain target where t: "fork_target s entryId position = Inr target"
    and copied: "(case target of None \<Rightarrow> Inr [] | Some t \<Rightarrow> findEntriesOnBranch s branch_path_query t) = Inr copied"
    and lanes: "lanes = [(main_lane, target)]"
    by (auto simp: fork_selection_def ForkBranch try_bind_eq_Inr)
  note target = fork_target_cases [OF t]
  show ?thesis
  proof (cases target)
    case None
    with copied lanes show ?thesis by (simp add: fork_ok_def)
  next
    case (Some t)
    with target obtain i e where e: "getEntry s i = Some e" "t = entry_id e \<or> entry_parentId e = Some t" by auto
    note e' = getEntry_wf [OF wf e(1)]
    have "t \<in> entry_ids (ss_entries s)"
    proof (cases "t = entry_id e")
      case True
      with e' show ?thesis by (auto simp: entry_ids_def)
    next
      case False
      with e e' have "e \<in> set (ss_entries s)" "entry_parentId e = Some t" by auto
      from parent_before [OF wf this] show ?thesis by (auto simp: entry_ids_def)
    qed
    from fork_branch_ok [OF wf this] copied show ?thesis by (simp add: Some lanes)
  qed
qed

section \<open>Applying the mutations\<close>

fun renumber :: "int \<Rightarrow> entry list \<Rightarrow> entry list" where
  "renumber n [] = []"
| "renumber n (e # es) = e\<lparr>entry_seq := n\<rparr> # renumber (n + 1) es"

lemma renumber_simps [simp]:
  "length (renumber n es) = length es" "map entry_id (renumber n es) = map entry_id es"
  "map entry_body (renumber n es) = map entry_body es" "map entry_parentId (renumber n es) = map entry_parentId es"
  "map entry_timestamp (renumber n es) = map entry_timestamp es"
  by (induction es arbitrary: n) simp_all

lemma entry_ids_renumber [simp]: "entry_ids (renumber n es) = entry_ids es"
  unfolding entry_ids_def by (metis image_set renumber_simps(2))

abbreviation apply_all :: "session_mutation list \<Rightarrow> session_state \<Rightarrow> session_error + session_state" where
  "apply_all \<equiv> run_machine applyMutation'"

lemma apply_fork_entries:
  "wf_state s \<Longrightarrow> n = ss_sequence s + 1 \<Longrightarrow> tree_ordered (entry_ids (ss_entries s)) es \<Longrightarrow>
    distinct (map entry_id es) \<Longrightarrow> entry_ids es \<inter> ss_usedIds s = {} \<Longrightarrow>
    \<exists>s'. apply_all (fork_entries n es) s = Inr s' \<and> wf_state s' \<and> ss_sequence s' = ss_sequence s + int (length es)
      \<and> ss_entries s' = ss_entries s @ renumber n es \<and> ss_lanes s' = ss_lanes s \<and> ss_labels s' = ss_labels s
      \<and> ss_name s' = ss_name s \<and> ss_records s' = ss_records s"
proof (induction es arbitrary: n s)
  case Nil
  then show ?case by simp
next
  case (Cons e es)
  let ?e = "e\<lparr>entry_seq := n\<rparr>"
  let ?s = "add_entry None ?e s"
  have byId: "ss_entriesById s = map (\<lambda>e. (entry_id e, e)) (ss_entries s)"
    using Cons.prems(1) by (simp add: wf_state_def ids_ok_def)
  have "\<forall>p. entry_parentId e = Some p \<longrightarrow> map_of (ss_entriesById s) p \<noteq> None"
    using Cons.prems(3) by (cases "entry_parentId e") (simp_all add: byId map_of_ids_ex)
  moreover have "entry_id e \<notin> ss_usedIds s" using Cons.prems(5) by (auto simp: entry_ids_def)
  ultimately have "apply_entry None ?e s = Inr ?s" by (simp add: apply_entry_iff)
  then have step: "applyMutation' (MutEntry None ?e) s = Inr ?s"
    using Cons.prems(2) by (simp add: applyMutation_def)
  have "entry_ids (ss_entries ?s) = insert (entry_id e) (entry_ids (ss_entries s))"
    by (simp add: entry_ids_def)
  then have "\<exists>s'. apply_all (fork_entries (n + 1) es) ?s = Inr s' \<and> wf_state s' \<and> ss_sequence s' = ss_sequence ?s + int (length es)
      \<and> ss_entries s' = ss_entries ?s @ renumber (n + 1) es \<and> ss_lanes s' = ss_lanes ?s \<and> ss_labels s' = ss_labels ?s
      \<and> ss_name s' = ss_name ?s \<and> ss_records s' = ss_records ?s"
    using Cons.prems(3-5) applyMutation_keeps [OF Cons.prems(1) step]
    by (intro Cons.IH) (auto simp: entry_ids_def)
  with step show ?case using Cons.prems(2) by auto
qed

lemma apply_fork_lanes:
  "wf_state s \<Longrightarrow> n = ss_sequence s + 1 \<Longrightarrow> distinct (map fst lanes) \<Longrightarrow>
    \<forall>(l, leaf) \<in> set lanes. \<forall>t. leaf = Some t \<longrightarrow> t \<in> entry_ids (ss_entries s) \<Longrightarrow>
    \<exists>s'. apply_all (fork_lanes n lanes) s = Inr s' \<and> wf_state s' \<and> ss_sequence s' = ss_sequence s + int (length lanes)
      \<and> ss_entries s' = ss_entries s \<and> map_of (ss_lanes s') = map_of (ss_lanes s) ++ map_of lanes
      \<and> ss_labels s' = ss_labels s \<and> ss_name s' = ss_name s \<and> ss_records s' = ss_records s"
proof (induction lanes arbitrary: n s)
  case Nil
  then show ?case by simp
next
  case (Cons p lanes)
  obtain l leaf where p: "p = (l, leaf)" by fastforce
  let ?s = "s\<lparr>ss_sequence := n, ss_lanes := AList.update l leaf (ss_lanes s), ss_log := ss_log s @ [LogLane n l leaf]\<rparr>"
  have byId: "ss_entriesById s = map (\<lambda>e. (entry_id e, e)) (ss_entries s)"
    using Cons.prems(1) by (simp add: wf_state_def ids_ok_def)
  have "apply_lane n l leaf s = Inr ?s"
    using Cons.prems(4) by (simp add: apply_lane_iff byId map_of_ids_ex p)
  then have step: "applyMutation' (MutLane n l leaf) s = Inr ?s"
    using Cons.prems(2) by (simp add: applyMutation_def)
  have "\<exists>s'. apply_all (fork_lanes (n + 1) lanes) ?s = Inr s' \<and> wf_state s' \<and> ss_sequence s' = ss_sequence ?s + int (length lanes)
      \<and> ss_entries s' = ss_entries ?s \<and> map_of (ss_lanes s') = map_of (ss_lanes ?s) ++ map_of lanes
      \<and> ss_labels s' = ss_labels ?s \<and> ss_name s' = ss_name ?s \<and> ss_records s' = ss_records ?s"
    using Cons.prems applyMutation_keeps [OF Cons.prems(1) step] by (intro Cons.IH) (simp_all add: p)
  moreover have "l \<notin> dom (map_of lanes)" using Cons.prems(3) by (simp add: p dom_map_of_conv_image_fst)
  then have lookup: "map_of (ss_lanes s) ++ map_of (p # lanes) = map_of (ss_lanes ?s) ++ map_of lanes"
    by (simp add: map_add_upd_left p)
  ultimately show ?case using Cons.prems(2) step unfolding lookup by (auto simp: p)
qed

lemma apply_fork_labels:
  "wf_state s \<Longrightarrow> n = ss_sequence s + 1 \<Longrightarrow> entry_ids es \<subseteq> entry_ids (ss_entries s) \<Longrightarrow>
    \<exists>s'. apply_all (fork_labels labels n es) s = Inr s' \<and> wf_state s'
      \<and> ss_entries s' = ss_entries s \<and> ss_lanes s' = ss_lanes s \<and> ss_name s' = ss_name s \<and> ss_records s' = ss_records s
      \<and> map_of (ss_labels s') = (\<lambda>i. if i \<in> entry_ids es \<and> map_of labels i \<noteq> None then map_of labels i else map_of (ss_labels s) i)"
proof (induction es arbitrary: n s)
  case Nil
  then show ?case by (simp add: entry_ids_def)
next
  case (Cons e es)
  have sub: "entry_ids es \<subseteq> entry_ids (ss_entries s)" using Cons.prems(3) by (auto simp: entry_ids_def)
  have ids: "entry_ids (e # es) = insert (entry_id e) (entry_ids es)" by (simp add: entry_ids_def)
  show ?case
  proof (cases "map_of labels (entry_id e)")
    case None
    with Cons.IH [OF Cons.prems(1,2) sub] show ?thesis by (auto simp: ids fun_eq_iff)
  next
    case (Some l)
    let ?s = "s\<lparr>ss_sequence := n, ss_labels := AList.update (entry_id e) l (ss_labels s),
      ss_log := ss_log s @ [LogLabel n (entry_id e) (Some l)]\<rparr>"
    have "map_of (ss_entriesById s) (entry_id e) \<noteq> None"
      using Cons.prems(1,3) by (simp add: wf_state_def ids_ok_def map_of_ids_ex ids)
    then have "apply_label n (entry_id e) (Some l) s = Inr ?s" by (simp add: apply_label_iff)
    then have step: "applyMutation' (MutLabel n (entry_id e) (Some l)) s = Inr ?s"
      using Cons.prems(2) by (simp add: applyMutation_def)
    have "\<exists>s'. apply_all (fork_labels labels (n + 1) es) ?s = Inr s' \<and> wf_state s'
      \<and> ss_entries s' = ss_entries ?s \<and> ss_lanes s' = ss_lanes ?s \<and> ss_name s' = ss_name ?s \<and> ss_records s' = ss_records ?s
      \<and> map_of (ss_labels s') = (\<lambda>i. if i \<in> entry_ids es \<and> map_of labels i \<noteq> None then map_of labels i else map_of (ss_labels ?s) i)"
      using applyMutation_keeps [OF Cons.prems(1) step] sub by (intro Cons.IH) simp_all
    with Some step Cons.prems(2) show ?thesis by (auto simp: ids fun_eq_iff)
  qed
qed

lemma run_append_Inr:
  "run_machine step cs s = Inr s' \<Longrightarrow> run_machine step (cs @ ds) s = run_machine step ds s'"
  by (simp add: run_machine_append)

lemma apply_fork:
  assumes sel: "fork_ok copied lanes"
  defines "n1 \<equiv> 1 + int (length copied)" and "n2 \<equiv> 1 + int (length copied) + int (length lanes)"
  shows "\<exists>s'. apply_all (fork_entries 1 copied @ fork_lanes n1 lanes @
        (case name of None \<Rightarrow> fork_labels labels n2 copied
         | Some x \<Rightarrow> MutName n2 (Some x) # fork_labels labels (n2 + 1) copied)) new_SessionState = Inr s'
    \<and> wf_state s' \<and> ss_entries s' = renumber 1 copied \<and> map_of (ss_lanes s') = map_of lanes
    \<and> ss_name s' = name \<and> ss_records s' = []
    \<and> map_of (ss_labels s') = (\<lambda>i. if i \<in> entry_ids copied then map_of labels i else None)"
proof -
  have init: "ss_entries new_SessionState = []" "ss_usedIds new_SessionState = {}" "ss_sequence new_SessionState = 0"
    "ss_lanes new_SessionState = [(main_lane, None)]" "ss_labels new_SessionState = []" "ss_name new_SessionState = None"
    "ss_records new_SessionState = []"
    by (simp_all add: new_SessionState_def)
  obtain s1 where s1: "apply_all (fork_entries 1 copied) new_SessionState = Inr s1" "wf_state s1"
      "ss_sequence s1 = int (length copied)" "ss_entries s1 = renumber 1 copied" "ss_lanes s1 = [(main_lane, None)]"
      "ss_labels s1 = []" "ss_name s1 = None" "ss_records s1 = []"
    using apply_fork_entries [OF wf_new_SessionState, of 1 copied] sel
    by (auto simp: init fork_ok_def entry_ids_def)
  obtain s2 where s2: "apply_all (fork_lanes n1 lanes) s1 = Inr s2" "wf_state s2"
      "ss_sequence s2 = int (length copied) + int (length lanes)" "ss_entries s2 = renumber 1 copied"
      "map_of (ss_lanes s2) = map_of [(main_lane, None)] ++ map_of lanes" "ss_labels s2 = []" "ss_name s2 = None" "ss_records s2 = []"
    using apply_fork_lanes [OF s1(2), of n1 lanes] sel s1(3-)
    by (auto simp: fork_ok_def n1_def)
  have "main_lane \<in> dom (map_of lanes)" using sel by (simp add: fork_ok_def dom_map_of_conv_image_fst)
  then have lanes: "map_of (ss_lanes s2) = map_of lanes"
    unfolding s2(5) by (auto simp: fun_eq_iff map_add_def split: option.splits)
  have labels: "\<exists>s'. apply_all (fork_labels labels n copied) s = Inr s' \<and> wf_state s'
      \<and> ss_entries s' = renumber 1 copied \<and> map_of (ss_lanes s') = map_of lanes \<and> ss_name s' = name \<and> ss_records s' = []
      \<and> map_of (ss_labels s') = (\<lambda>i. if i \<in> entry_ids copied then map_of labels i else None)"
    if "wf_state s" "n = ss_sequence s + 1" "ss_entries s = renumber 1 copied" "ss_lanes s = ss_lanes s2"
      "ss_name s = name" "ss_records s = []" "ss_labels s = []" for s n
    using apply_fork_labels [OF that(1,2), of copied labels] that(3-) lanes by (auto simp: fun_eq_iff)
  show ?thesis
  proof (cases name)
    case None
    from labels [OF s2(2), of n2] s2 None show ?thesis
      by (auto simp: run_append_Inr [OF s1(1)] run_append_Inr [OF s2(1)] n2_def)
  next
    case (Some x)
    let ?s = "s2\<lparr>ss_sequence := n2, ss_name := Some x, ss_log := ss_log s2 @ [LogName n2 (Some x)]\<rparr>"
    have step: "applyMutation' (MutName n2 (Some x)) s2 = Inr ?s"
      using s2(3) by (simp add: applyMutation_def apply_name_def n2_def)
    from labels [OF applyMutation_keeps [OF s2(2) step], of "n2 + 1"] s2 Some step show ?thesis
      by (auto simp: run_append_Inr [OF s1(1)] run_append_Inr [OF s2(1)])
  qed
qed

section \<open>Sample state\<close>

definition sample_message_body :: entry_body where
  "sample_message_body = MessageBody (LlmMessage (UserMsg \<lparr>um_content = PlainText (jlit ''hi''), um_timestamp = 0\<rparr>)) False"

definition sample_entry :: "string \<Rightarrow> jstr option \<Rightarrow> int \<Rightarrow> entry" where
  "sample_entry i p n = \<lparr>entry_id = jlit i, entry_body = sample_message_body, entry_seq = n, entry_parentId = p, entry_timestamp = 0\<rparr>"

definition sample_history :: "session_mutation list" where
  "sample_history = [MutEntry (Some main_lane) (sample_entry ''a'' None 1),
     MutEntry (Some main_lane) (sample_entry ''b'' (Some (jlit ''a'')) 2),
     MutLane 3 (jlit ''side'') (Some (jlit ''a'')),
     MutEntry (Some (jlit ''side'')) (sample_entry ''c'' (Some (jlit ''a'')) 4),
     MutLabel 5 (jlit ''a'') (Some (jlit ''start''))]"

definition sample_state :: session_state where
  "sample_state = \<lparr>ss_sequence = 5, ss_usedIds = {jlit ''c'', jlit ''b'', jlit ''a''},
     ss_entries = [sample_entry ''a'' None 1, sample_entry ''b'' (Some (jlit ''a'')) 2, sample_entry ''c'' (Some (jlit ''a'')) 4],
     ss_entriesById = [(jlit ''a'', sample_entry ''a'' None 1), (jlit ''b'', sample_entry ''b'' (Some (jlit ''a'')) 2),
        (jlit ''c'', sample_entry ''c'' (Some (jlit ''a'')) 4)],
     ss_records = [], ss_openOperationsByLane = [],
     ss_lanes = [(main_lane, Some (jlit ''b'')), (jlit ''side'', Some (jlit ''c''))],
     ss_log = [LogEntry 1 (sample_entry ''a'' None 1), LogEntry 2 (sample_entry ''b'' (Some (jlit ''a'')) 2),
        LogLane 3 (jlit ''side'') (Some (jlit ''a'')), LogEntry 4 (sample_entry ''c'' (Some (jlit ''a'')) 4),
        LogLabel 5 (jlit ''a'') (Some (jlit ''start''))],
     ss_stats = zero_stats\<lparr>st_messageCount := 3\<rparr>, ss_name = None, ss_labels = [(jlit ''a'', jlit ''start'')]\<rparr>"

lemmas mutation_eval =
  applyMutation_def apply_entry_def apply_record_def apply_lane_def apply_label_def apply_name_def new_SessionState_def
  sample_entry_def sample_message_body_def main_lane_def jlit_def

lemma sample_history_runs: "run_machine applyMutation' sample_history new_SessionState = Inr sample_state"
  by (simp add: sample_history_def sample_state_def mutation_eval zero_stats_def)

lemma fork_applies:
  assumes wf: "wf_state s" and "createForkMutations s options = Inr ms"
  shows "\<exists>copied lanes s'. fork_selection s options = Inr (copied, lanes)
    \<and> run_machine applyMutation' ms new_SessionState = Inr s' \<and> wf_state s'
    \<and> ss_entries s' = renumber 1 copied \<and> map_of (ss_lanes s') = map_of lanes
    \<and> ss_name s' = ss_name s \<and> ss_records s' = []
    \<and> map_of (ss_labels s') = (\<lambda>i. if i \<in> entry_ids copied then map_of (ss_labels s) i else None)"
proof -
  from assms(2) obtain copied lanes where sel: "fork_selection s options = Inr (copied, lanes)"
    and ms: "ms = fork_entries 1 copied @ fork_lanes (1 + int (length copied)) lanes @
            (case ss_name s of
               None \<Rightarrow> fork_labels (ss_labels s) (1 + int (length copied) + int (length lanes)) copied
             | Some name \<Rightarrow> MutName (1 + int (length copied) + int (length lanes)) (Some name)
                 # fork_labels (ss_labels s) (1 + int (length copied) + int (length lanes) + 1) copied)"
    by (auto simp: createForkMutations_def try_bind_eq_Inr Let_def)
  from apply_fork [OF fork_selection_ok [OF wf sel], where name = "ss_name s" and labels = "ss_labels s"] sel ms show ?thesis by auto
qed

text \<open>C25 (safety). Forking never fails half-way: on every reachable state, whenever \<open>createForkMutations\<close> selects a
  fork, all its mutations apply to a fresh state. The fork satisfies the state invariant, holds
  exactly the selected entries in their order (only renumbered), the selected lanes, the name, the
  labels of the copied entries and no records.\<close>

theorem fork_always_applies:
  assumes "run_machine applyMutation' history new_SessionState = Inr s" and "createForkMutations s options = Inr ms"
  shows "\<exists>copied lanes s'. fork_selection s options = Inr (copied, lanes)
    \<and> run_machine applyMutation' ms new_SessionState = Inr s' \<and> wf_state s'
    \<and> ss_entries s' = renumber 1 copied \<and> map_of (ss_lanes s') = map_of lanes
    \<and> ss_name s' = ss_name s \<and> ss_records s' = []
    \<and> map_of (ss_labels s') = (\<lambda>i. if i \<in> entry_ids copied then map_of (ss_labels s) i else None)"
  by (rule fork_applies [OF session_state.reachable_inv [OF assms(1)] assms(2)])

lemma fork_always_applies_witness:
  "\<exists>copied lanes s'. fork_selection sample_state (ForkBranch (Some (jlit ''c'')) None) = Inr (copied, lanes)
    \<and> run_machine applyMutation' [MutEntry None (sample_entry ''a'' None 1), MutLane 2 main_lane (Some (jlit ''a'')),
        MutLabel 3 (jlit ''a'') (Some (jlit ''start''))] new_SessionState = Inr s' \<and> wf_state s'
    \<and> ss_entries s' = renumber 1 copied \<and> map_of (ss_lanes s') = map_of lanes
    \<and> ss_name s' = ss_name sample_state \<and> ss_records s' = []
    \<and> map_of (ss_labels s') = (\<lambda>i. if i \<in> entry_ids copied then map_of (ss_labels sample_state) i else None)"
proof (rule fork_always_applies [OF sample_history_runs])
  show "createForkMutations sample_state (ForkBranch (Some (jlit ''c'')) None) = Inr
      [MutEntry None (sample_entry ''a'' None 1), MutLane 2 main_lane (Some (jlit ''a'')),
        MutLabel 3 (jlit ''a'') (Some (jlit ''start''))]"
    by (simp add: createForkMutations_def fork_selection_def fork_target_def getEntry_def sample_state_def mutation_eval
        findEntriesOnBranch_def branch_path_query_def assertValidLimit_def assertValidCursor_def walkToRoot_def
        walk.simps limit_nat_def matchesEntryQuery_def)
qed

end
