(* ===== verification/Json_Check.thy ===== *)
theory Json_Check
  imports Session_Types
begin

text \<open>
  \<open>assertJsonSerializable\<close> (\<open>packages/agent/src/harness/session/session.ts\<close>), the check every
  durable payload passes: a traversal with an explicit stack and the set of the objects that are
  being visited. It is proved to accept exactly the values of a recursive definition: finite
  trees of plain arrays and plain objects, without cycles, accessors, symbols or hidden
  properties.
\<close>

section \<open>The traversal\<close>

datatype 'o frame = FValue "'o jsv" | FExit 'o

text \<open>
  The number of own property names, which counts no hole, compared with the length; then the loop over the slots of an array and the loop over the keys of an object, from the last to
  the first: the first fault they meet, if any.
\<close>

definition unexpected_properties :: "array_kind \<Rightarrow> 'o jsv list \<Rightarrow> bool" where
  "unexpected_properties k vs =
     (let holes = length (filter (\<lambda>v. v = JHole) vs)
      in case k of
        ExtraArray extra symbols \<Rightarrow> symbols \<or> length vs - holes + extra + 1 \<noteq> length vs + 1
      | _ \<Rightarrow> length vs - holes + 1 \<noteq> length vs + 1)"

fun array_slots :: "'o jsv list \<Rightarrow> payload_fault option" where
  "array_slots [] = None"
| "array_slots (v # vs) = (case v of
      JHole \<Rightarrow> Some SparseArray
    | JGetter _ \<Rightarrow> Some ArrayAccessor
    | _ \<Rightarrow> array_slots vs)"

fun object_slots :: "'o jsv list \<Rightarrow> payload_fault option" where
  "object_slots [] = None"
| "object_slots (v # vs) = (case v of JGetter _ \<Rightarrow> Some PropertyAccessor | _ \<Rightarrow> object_slots vs)"

fun frame_weight :: "'o frame \<Rightarrow> nat" where
  "frame_weight (FExit _) = 1"
| "frame_weight (FValue v) = 2 * size v + 2"

lemma weight_values: "sum_list (map (frame_weight \<circ> FValue) vs) = 2 * size_list size vs"
  by (induction vs) simp_all

lemma weight_entries: "sum_list (map (frame_weight \<circ> (FValue \<circ> snd)) es) \<le> 2 * size_list (size_prod (\<lambda>_. 0) size) es"
  by (induction es) (auto simp: size_prod_simp split_beta)

function check_frames :: "'o frame list \<Rightarrow> 'o set \<Rightarrow> payload_fault + unit" where
  "check_frames [] active = Inr ()"
| "check_frames (FExit i # stack) active = check_frames stack (active - {i})"
| "check_frames (FValue JNull # stack) active = check_frames stack active"
| "check_frames (FValue (JStr _) # stack) active = check_frames stack active"
| "check_frames (FValue (JBool _) # stack) active = check_frames stack active"
| "check_frames (FValue (JNum x) # stack) active =
     (if \<not> is_finite x then Inl NonFiniteNumber else check_frames stack active)"
| "check_frames (FValue JUndefined # stack) active = Inl UnsupportedType"
| "check_frames (FValue JHole # stack) active = Inl UnsupportedType"
| "check_frames (FValue (JExotic _) # stack) active = Inl UnsupportedType"
| "check_frames (FValue (JBytes _) # stack) active = Inl NonPlainObject"
| "check_frames (FValue (JGetter _) # stack) active = Inl PropertyAccessor"
| "check_frames (FValue (JArr i k vs) # stack) active =
     (if i \<in> active then Inl PayloadCycle
      else if k = OddArray then Inl NonStandardArray
      else if unexpected_properties k vs then Inl ArrayProperties
      else case array_slots (rev vs) of
          Some f \<Rightarrow> Inl f
        | None \<Rightarrow> check_frames (map FValue vs @ FExit i # stack) (insert i active))"
| "check_frames (FValue (JObj i k es) # stack) active =
     (if i \<in> active then Inl PayloadCycle
      else if ok_proto k = OtherProto then Inl NonPlainObject
      else if ok_symbols k \<noteq> NoSymbols then Inl SymbolKey
      else if ok_hidden k then Inl HiddenProperty
      else case object_slots (rev (map snd es)) of
          Some f \<Rightarrow> Inl f
        | None \<Rightarrow> check_frames (map (FValue \<circ> snd) es @ FExit i # stack) (insert i active))"
  by pat_completeness auto
termination
proof (relation "measure (\<lambda>(stack, active). sum_list (map frame_weight stack))", goal_cases)
  case (7 i k vs stack active)
  then show ?case using weight_values [of vs] by (simp add: comp_def)
next
  case (8 i k es stack active)
  then show ?case using weight_entries [of es] by (simp add: comp_def)
qed auto

definition assertJsonSerializable :: "'o jsv \<Rightarrow> session_error + unit" where
  "assertJsonSerializable v = (case check_frames [FValue v] {} of Inl f \<Rightarrow> Inl (BadPayload f) | Inr u \<Rightarrow> Inr u)"

section \<open>What it accepts\<close>

fun is_getter :: "'o jsv \<Rightarrow> bool" where
  "is_getter (JGetter _) = True"
| "is_getter _ = False"

fun json_ok :: "'o set \<Rightarrow> 'o jsv \<Rightarrow> bool" where
  "json_ok A JNull = True"
| "json_ok A (JStr _) = True"
| "json_ok A (JBool _) = True"
| "json_ok A (JNum x) = is_finite x"
| "json_ok A (JArr i k vs) =
     (i \<notin> A \<and> (k = PlainArray \<or> k = ExtraArray 0 False)
      \<and> (\<forall>v \<in> set vs. v \<noteq> JHole \<and> \<not> is_getter v \<and> json_ok (insert i A) v))"
| "json_ok A (JObj i k es) =
     (i \<notin> A \<and> ok_proto k \<noteq> OtherProto \<and> ok_symbols k = NoSymbols \<and> \<not> ok_hidden k
      \<and> (\<forall>e \<in> set es. \<not> is_getter (snd e) \<and> json_ok (insert i A) (snd e)))"
| "json_ok A _ = False"

lemma array_slots_None: "array_slots vs = None \<longleftrightarrow> (\<forall>v \<in> set vs. v \<noteq> JHole \<and> \<not> is_getter v)"
  by (induction vs) (auto split: jsv.split)

lemma object_slots_None: "object_slots vs = None \<longleftrightarrow> (\<forall>v \<in> set vs. \<not> is_getter v)"
  by (induction vs) (auto split: jsv.split)

lemma expected_properties:
  assumes "\<forall>v \<in> set vs. v \<noteq> JHole" and "k \<noteq> OddArray"
  shows "unexpected_properties k vs \<longleftrightarrow> \<not> (k = PlainArray \<or> k = ExtraArray 0 False)"
proof -
  have "filter (\<lambda>v. v = JHole) vs = []" using assms(1) by (auto simp: filter_empty_conv)
  with assms(2) show ?thesis by (cases k) (auto simp: unexpected_properties_def)
qed

text \<open>\<open>outcome ok res rest\<close>: the traversal goes on with the rest when the value is fine, and throws otherwise.\<close>

definition outcome :: "bool \<Rightarrow> payload_fault + unit \<Rightarrow> payload_fault + unit \<Rightarrow> bool" where
  "outcome ok res rest \<longleftrightarrow> (if ok then res = rest else (\<exists>f. res = Inl f))"

lemma check_values:
  assumes "\<forall>v \<in> set vs. \<forall>stack. outcome (json_ok A v) (check_frames (FValue v # stack) A) (check_frames stack A)"
  shows "outcome (\<forall>v \<in> set vs. json_ok A v) (check_frames (map FValue vs @ stack) A) (check_frames stack A)"
  using assms
proof (induction vs)
  case Nil
  show ?case by (simp add: outcome_def)
next
  case (Cons v vs)
  then have IH: "outcome (\<forall>v \<in> set vs. json_ok A v) (check_frames (map FValue vs @ stack) A) (check_frames stack A)" by simp
  have "outcome (json_ok A v) (check_frames (FValue v # map FValue vs @ stack) A) (check_frames (map FValue vs @ stack) A)"
    using Cons.prems by simp
  with IH show ?case by (cases "json_ok A v"; cases "\<forall>v \<in> set vs. json_ok A v") (auto simp: outcome_def)
qed

lemma check_frames_value: "outcome (json_ok A v) (check_frames (FValue v # stack) A) (check_frames stack A)"
proof (induction v arbitrary: A stack)
  case (JArr i k vs)
  show ?case
  proof (cases "i \<in> A \<or> k = OddArray \<or> unexpected_properties k vs \<or> array_slots (rev vs) \<noteq> None")
    case True
    then have "\<not> json_ok A (JArr i k vs)"
      using expected_properties [of vs k] array_slots_None [of "rev vs"] by auto
    with True show ?thesis by (auto simp: outcome_def split: option.split)
  next
    case False
    then have slots: "\<forall>v \<in> set vs. v \<noteq> JHole \<and> \<not> is_getter v" using array_slots_None [of "rev vs"] by simp
    with False have k: "k = PlainArray \<or> k = ExtraArray 0 False" using expected_properties [of vs k] by blast
    have "outcome (\<forall>v \<in> set vs. json_ok (insert i A) v)
        (check_frames (map FValue vs @ FExit i # stack) (insert i A)) (check_frames (FExit i # stack) (insert i A))"
      using JArr.IH by (intro check_values) blast
    moreover have "check_frames (FExit i # stack) (insert i A) = check_frames stack A" using False by simp
    ultimately show ?thesis using False slots k by (simp add: outcome_def)
  qed
next
  case (JObj i k es)
  show ?case
  proof (cases "i \<in> A \<or> ok_proto k = OtherProto \<or> ok_symbols k \<noteq> NoSymbols \<or> ok_hidden k \<or> object_slots (rev (map snd es)) \<noteq> None")
    case True
    then have "\<not> json_ok A (JObj i k es)" using object_slots_None [of "rev (map snd es)"] by auto
    with True show ?thesis by (auto simp: outcome_def split: option.split)
  next
    case False
    then have slots: "\<forall>e \<in> set es. \<not> is_getter (snd e)" using object_slots_None [of "rev (map snd es)"] by simp
    have "outcome (\<forall>v \<in> set (map snd es). json_ok (insert i A) v)
        (check_frames (map FValue (map snd es) @ FExit i # stack) (insert i A)) (check_frames (FExit i # stack) (insert i A))"
    proof (intro check_values ballI allI)
      fix v stack assume "v \<in> set (map snd es)"
      then obtain e where e: "e \<in> set es" "v = snd e" by auto
      have "v \<in> Basic_BNFs.snds e" unfolding e(2) by (cases e) simp
      with e(1) show "outcome (json_ok (insert i A) v) (check_frames (FValue v # stack) (insert i A)) (check_frames stack (insert i A))"
        using JObj.IH by blast
    qed
    moreover have "check_frames (FExit i # stack) (insert i A) = check_frames stack A" using False by simp
    ultimately show ?thesis using False slots by (simp add: outcome_def)
  qed
qed (simp_all add: outcome_def)

lemma assertJsonSerializable_iff: "assertJsonSerializable v = Inr () \<longleftrightarrow> json_ok {} v"
  using check_frames_value [of "{}" v "[]"] by (auto simp: assertJsonSerializable_def outcome_def split: sum.splits if_splits)

text \<open>C31 (equivalence). The iterative \<open>assertJsonSerializable\<close>, with its stack of visit and exit frames, terminates on every
  value and accepts exactly the JSON trees: finite numbers only, plain arrays without holes or
  extra properties, plain objects without symbols, hidden properties or accessors, and no object
  inside itself.\<close>

theorem assertJsonSerializable_accepts_json_trees:
  "assertJsonSerializable v = Inr () \<longleftrightarrow> json_ok {} v"
  by (rule assertJsonSerializable_iff)

end
