(* ===== verification/Session_Storage.thy ===== *)
theory Session_Storage
  imports Session_Fork Json_Check
begin

text \<open>
  The in-memory storage (\<open>packages/agent/src/harness/session/memory.ts\<close>) and the \<open>Session\<close>
  facade over any storage (\<open>session.ts\<close>). The operations a session calls are the record
  \<open>storage_ops\<close>; the laws it relies on are the locale \<open>session_storage\<close>, interpreted on the
  in-memory storage. \<open>structuredClone\<close> is the identity on these values, \<open>Date.now\<close> the
  argument \<open>now\<close>.
\<close>

section \<open>The in-memory storage\<close>

record memory_storage =
  ms_metadata :: session_metadata
  ms_state :: session_state

definition new_InMemorySessionStorage :: "session_metadata \<Rightarrow> memory_storage" where
  "new_InMemorySessionStorage metadata = \<lparr>ms_metadata = metadata, ms_state = new_SessionState\<rparr>"

definition memory_mutate :: "session_mutation \<Rightarrow> memory_storage \<Rightarrow> session_error + memory_storage" where
  "memory_mutate m s = try_bind (applyMutation' m (ms_state s)) (\<lambda>st. Inr (s\<lparr>ms_state := st\<rparr>))"

definition memory_fork :: "session_metadata \<Rightarrow> fork_options \<Rightarrow> memory_storage \<Rightarrow> session_error + memory_storage" where
  "memory_fork metadata options s =
     try_bind (createForkMutations (ms_state s) options) (\<lambda>ms.
     run_machine memory_mutate ms (new_InMemorySessionStorage metadata))"

definition memory_createLane :: "jstr \<Rightarrow> jstr option \<Rightarrow> memory_storage \<Rightarrow> session_error + memory_storage" where
  "memory_createLane lane leaf s =
     try_bind (validateNewLane (ms_state s) lane) (\<lambda>_.
     try_bind (validateTarget (ms_state s) leaf) (\<lambda>_.
     memory_mutate (MutLane (nextSequence (ms_state s)) lane leaf) s))"

definition memory_moveLane :: "jstr \<Rightarrow> jstr option \<Rightarrow> memory_storage \<Rightarrow> session_error + memory_storage" where
  "memory_moveLane lane to s =
     try_bind (requireLane (ms_state s) lane) (\<lambda>_.
     try_bind (validateTarget (ms_state s) to) (\<lambda>_.
     memory_mutate (MutLane (nextSequence (ms_state s)) lane to) s))"

definition memory_appendEntry :: "int \<Rightarrow> provisioned_entry \<Rightarrow> jstr \<Rightarrow> memory_storage \<Rightarrow> session_error + (entry \<times> memory_storage)" where
  "memory_appendEntry now newEntry lane s =
     try_bind (requireLane (ms_state s) lane) (\<lambda>parentId.
     try_bind (validateUnusedId (ms_state s) (entry_id newEntry)) (\<lambda>_.
       let e = provisioned_entry.extend newEntry
         \<lparr>entry_seq = nextSequence (ms_state s), entry_parentId = parentId, entry_timestamp = now\<rparr>
       in try_bind (memory_mutate (MutEntry (Some lane) e) s) (\<lambda>s'. Inr (e, s'))))"

definition memory_appendRecord :: "int \<Rightarrow> new_record \<Rightarrow> memory_storage \<Rightarrow> session_error + (lane_record \<times> memory_storage)" where
  "memory_appendRecord now newRecord s =
     try_bind (requireLane (ms_state s) (rec_lane newRecord)) (\<lambda>_.
     try_bind (validateUnusedId (ms_state s) (rec_id newRecord)) (\<lambda>_.
     try_bind (findOpenOperations (ms_state s) (rec_lane newRecord) (Some (JInt 1))) (\<lambda>open.
     try_bind (case open of
         op # _ \<Rightarrow> throw_if (record_type newRecord = OperationStartedT) (OpenOperationExists (rec_lane newRecord) (rec_id op))
       | [] \<Rightarrow> Inr ()) (\<lambda>_.
       let r = new_record.extend newRecord \<lparr>rec_seq = nextSequence (ms_state s), rec_timestamp = now\<rparr>
       in try_bind (memory_mutate (MutRecord r) s) (\<lambda>s'. Inr (r, s'))))))"

definition memory_setName :: "jstr option \<Rightarrow> memory_storage \<Rightarrow> session_error + memory_storage" where
  "memory_setName name s = memory_mutate (MutName (nextSequence (ms_state s)) name) s"

definition memory_setLabel :: "jstr \<Rightarrow> jstr option \<Rightarrow> memory_storage \<Rightarrow> session_error + memory_storage" where
  "memory_setLabel i label s =
     try_bind (validateTarget (ms_state s) (Some i)) (\<lambda>_.
     memory_mutate (MutLabel (nextSequence (ms_state s)) i label) s)"

section \<open>The operations of a storage\<close>

record 's storage_ops =
  op_getMetadata :: "'s \<Rightarrow> session_metadata"
  op_getLanes :: "'s \<Rightarrow> (jstr \<times> jstr option) list"
  op_createLane :: "jstr \<Rightarrow> jstr option \<Rightarrow> 's \<Rightarrow> session_error + 's"
  op_moveLane :: "jstr \<Rightarrow> jstr option \<Rightarrow> 's \<Rightarrow> session_error + 's"
  op_appendEntry :: "int \<Rightarrow> provisioned_entry \<Rightarrow> jstr \<Rightarrow> 's \<Rightarrow> session_error + (entry \<times> 's)"
  op_appendRecord :: "int \<Rightarrow> new_record \<Rightarrow> 's \<Rightarrow> session_error + (lane_record \<times> 's)"
  op_getEntry :: "'s \<Rightarrow> jstr \<Rightarrow> entry option"
  op_findEntries :: "'s \<Rightarrow> entry_query \<Rightarrow> session_error + entry list"
  op_findEntriesOnBranch :: "'s \<Rightarrow> branch_query \<Rightarrow> jstr \<Rightarrow> session_error + entry list"
  op_findRecords :: "'s \<Rightarrow> record_query \<Rightarrow> session_error + lane_record list"
  op_findOpenOperations :: "'s \<Rightarrow> jstr \<Rightarrow> js_number option \<Rightarrow> session_error + lane_record list"
  op_getLog :: "'s \<Rightarrow> log_options \<Rightarrow> session_error + log_item list"
  op_getName :: "'s \<Rightarrow> jstr option"
  op_setName :: "jstr option \<Rightarrow> 's \<Rightarrow> session_error + 's"
  op_getLabel :: "'s \<Rightarrow> jstr \<Rightarrow> jstr option"
  op_setLabel :: "jstr \<Rightarrow> jstr option \<Rightarrow> 's \<Rightarrow> session_error + 's"
  op_getStats :: "'s \<Rightarrow> session_stats"

definition memory_ops :: "memory_storage storage_ops" where
  "memory_ops = \<lparr>
     op_getMetadata = ms_metadata,
     op_getLanes = getLanes \<circ> ms_state,
     op_createLane = memory_createLane,
     op_moveLane = memory_moveLane,
     op_appendEntry = memory_appendEntry,
     op_appendRecord = memory_appendRecord,
     op_getEntry = getEntry \<circ> ms_state,
     op_findEntries = findEntries \<circ> ms_state,
     op_findEntriesOnBranch = findEntriesOnBranch \<circ> ms_state,
     op_findRecords = findRecords \<circ> ms_state,
     op_findOpenOperations = findOpenOperations \<circ> ms_state,
     op_getLog = getLog \<circ> ms_state,
     op_getName = getName \<circ> ms_state,
     op_setName = memory_setName,
     op_getLabel = getLabel \<circ> ms_state,
     op_setLabel = memory_setLabel,
     op_getStats = getStats \<circ> ms_state\<rparr>"

section \<open>The session facade\<close>

text \<open>
  \<open>payload\<close> is the JavaScript object that a caller passes for an entry or a record; the check for
  JSON values looks at it.
\<close>

definition commitEntry :: "'s storage_ops \<Rightarrow> (provisioned_entry \<Rightarrow> 'o jsv) \<Rightarrow> int \<Rightarrow> provisioned_entry \<Rightarrow> jstr \<Rightarrow> 's \<Rightarrow>
    session_error + (entry \<times> 's)" where
  "commitEntry st payload now e lane s =
     try_bind (assertJsonSerializable (payload e)) (\<lambda>_. op_appendEntry st now e lane s)"

definition commitRecord :: "'s storage_ops \<Rightarrow> (new_record \<Rightarrow> 'o jsv) \<Rightarrow> int \<Rightarrow> new_record \<Rightarrow> 's \<Rightarrow>
    session_error + (lane_record \<times> 's)" where
  "commitRecord st payload now r s =
     try_bind (assertJsonSerializable (payload r)) (\<lambda>_. op_appendRecord st now r s)"

definition getLeafIdForLane :: "'s storage_ops \<Rightarrow> jstr \<Rightarrow> 's \<Rightarrow> session_error + jstr option" where
  "getLeafIdForLane st lane s = (case List.find (\<lambda>p. fst p = lane) (op_getLanes st s) of
      None \<Rightarrow> Inl (LaneNotFound lane)
    | Some p \<Rightarrow> Inr (snd p))"

definition queryEntries :: "'s storage_ops \<Rightarrow> entry_query \<Rightarrow> js_number option \<Rightarrow> 's \<Rightarrow> session_error + entry list" where
  "queryEntries st q resultLimit s =
     try_bind (assertValidLimit (eq_limit q)) (\<lambda>_.
     try_bind (assertValidCursor (eq_cursor q)) (\<lambda>_.
     op_findEntries st s (if resultLimit = eq_limit q then q else q\<lparr>eq_limit := resultLimit\<rparr>)))"

definition queryBranchEntries :: "'s storage_ops \<Rightarrow> jstr \<Rightarrow> branch_query \<Rightarrow> js_number option \<Rightarrow> 's \<Rightarrow> session_error + entry list" where
  "queryBranchEntries st defaultLane q resultLimit s =
     try_bind (assertValidLimit (eq_limit q)) (\<lambda>_.
     try_bind (assertValidCursor (eq_cursor q)) (\<lambda>_.
     try_bind (case bq_start q of Some i \<Rightarrow> Inr (Some i) | None \<Rightarrow> getLeafIdForLane st defaultLane s) (\<lambda>start.
       case start of
         None \<Rightarrow> Inr []
       | Some i \<Rightarrow> op_findEntriesOnBranch st s
           ((if resultLimit = eq_limit q then q else q\<lparr>eq_limit := resultLimit\<rparr>)\<lparr>bq_start := Some i\<rparr>) i)))"

definition queryRecords :: "'s storage_ops \<Rightarrow> record_query \<Rightarrow> 's \<Rightarrow> session_error + lane_record list" where
  "queryRecords st q s =
     try_bind (assertValidLimit (rq_limit q)) (\<lambda>_.
     try_bind (assertValidCursor (rq_afterSeq q)) (\<lambda>_.
     try_bind (throw_if (rq_operationKind q \<noteq> None \<and> rq_type q \<noteq> Some OperationStartedT) KindNeedsType) (\<lambda>_.
     op_findRecords st s q)))"

definition queryLog :: "'s storage_ops \<Rightarrow> log_options \<Rightarrow> 's \<Rightarrow> session_error + log_item list" where
  "queryLog st options s =
     try_bind (assertValidLimit (lo_limit options)) (\<lambda>_.
     try_bind (assertValidCursor (lo_afterSeq options)) (\<lambda>_.
     op_getLog st s options))"

definition findOpenOperations_session :: "'s storage_ops \<Rightarrow> jstr \<Rightarrow> js_number option \<Rightarrow> 's \<Rightarrow> session_error + lane_record list" where
  "findOpenOperations_session st lane limit s =
     try_bind (assertValidLimit limit) (\<lambda>_. op_findOpenOperations st s lane limit)"

text \<open>\<open>(await queryEntries(query, 1))[0]\<close>\<close>

definition first_entry :: "session_error + entry list \<Rightarrow> session_error + entry option" where
  "first_entry m = try_bind m (\<lambda>es. Inr (case es of [] \<Rightarrow> None | e # _ \<Rightarrow> Some e))"

definition findEntry :: "'s storage_ops \<Rightarrow> entry_query \<Rightarrow> 's \<Rightarrow> session_error + entry option" where
  "findEntry st q s = first_entry (queryEntries st q (Some (JInt 1)) s)"

definition findEntryOnBranch :: "'s storage_ops \<Rightarrow> jstr \<Rightarrow> branch_query \<Rightarrow> 's \<Rightarrow> session_error + entry option" where
  "findEntryOnBranch st lane q s = first_entry (queryBranchEntries st lane q (Some (JInt 1)) s)"

text \<open>\<open>next\<close> is the id generator: the next id and the generator behind it.\<close>

definition appendMessageToLane :: "'s storage_ops \<Rightarrow> (provisioned_entry \<Rightarrow> 'o jsv) \<Rightarrow> ('g \<Rightarrow> jstr \<times> 'g) \<Rightarrow> int \<Rightarrow>
    jstr \<Rightarrow> agent_message \<Rightarrow> 'g \<times> 's \<Rightarrow> session_error + (jstr \<times> 'g \<times> 's)" where
  "appendMessageToLane st payload next_id now lane message gs =
     (let (i, g) = next_id (fst gs)
      in try_bind (commitEntry st payload now \<lparr>entry_id = i, entry_body = MessageBody message False\<rparr> lane (snd gs))
           (\<lambda>(e, s). Inr (entry_id e, g, s)))"

definition appendCustomEntryToLane :: "'s storage_ops \<Rightarrow> (provisioned_entry \<Rightarrow> 'o jsv) \<Rightarrow> ('g \<Rightarrow> jstr \<times> 'g) \<Rightarrow> int \<Rightarrow>
    jstr \<Rightarrow> jstr \<Rightarrow> json option \<Rightarrow> 'g \<times> 's \<Rightarrow> session_error + (jstr \<times> 'g \<times> 's)" where
  "appendCustomEntryToLane st payload next_id now lane customType data gs =
     (let (i, g) = next_id (fst gs)
      in try_bind (commitEntry st payload now \<lparr>entry_id = i, entry_body = CustomBody customType data\<rparr> lane (snd gs))
           (\<lambda>(e, s). Inr (entry_id e, g, s)))"

end
