(* ===== verification/Session_Facade.thy ===== *)
theory Session_Facade
  imports Session_Storage
begin

text \<open>
  What a session promises: the in-memory storage keeps its invariant under every call, with at
  most one open operation in a lane; the laws of \<open>SessionStorage\<close> as the locale
  \<open>session_storage\<close>, interpreted on the in-memory storage; and the behaviour of the \<open>Session\<close>
  facade that follows from the laws alone.
\<close>

section \<open>The storage as a machine\<close>

datatype storage_call =
    CreateLane jstr "jstr option"
  | MoveLane jstr "jstr option"
  | AppendEntry int provisioned_entry jstr
  | AppendRecord int new_record
  | SetName "jstr option"
  | SetLabel jstr "jstr option"

definition storage_step :: "'s storage_ops \<Rightarrow> storage_call \<Rightarrow> 's \<Rightarrow> session_error + 's" where
  "storage_step st c s = (case c of
      CreateLane lane leaf \<Rightarrow> op_createLane st lane leaf s
    | MoveLane lane leaf \<Rightarrow> op_moveLane st lane leaf s
    | AppendEntry now e lane \<Rightarrow> try_bind (op_appendEntry st now e lane s) (\<lambda>(_, s). Inr s)
    | AppendRecord now r \<Rightarrow> try_bind (op_appendRecord st now r s) (\<lambda>(_, s). Inr s)
    | SetName name \<Rightarrow> op_setName st name s
    | SetLabel i label \<Rightarrow> op_setLabel st i label s)"

lemma memory_ops_simps [simp]:
  "op_getMetadata memory_ops = ms_metadata" "op_getLanes memory_ops s = ss_lanes (ms_state s)"
  "op_createLane memory_ops = memory_createLane" "op_moveLane memory_ops = memory_moveLane"
  "op_appendEntry memory_ops = memory_appendEntry" "op_appendRecord memory_ops = memory_appendRecord"
  "op_getEntry memory_ops s = getEntry (ms_state s)" "op_findEntries memory_ops s = findEntries (ms_state s)"
  "op_findEntriesOnBranch memory_ops s = findEntriesOnBranch (ms_state s)"
  "op_findRecords memory_ops s = findRecords (ms_state s)"
  "op_findOpenOperations memory_ops s = findOpenOperations (ms_state s)"
  "op_getLog memory_ops s = getLog (ms_state s)" "op_getName memory_ops s = getName (ms_state s)"
  "op_setName memory_ops = memory_setName" "op_getLabel memory_ops s = getLabel (ms_state s)"
  "op_setLabel memory_ops = memory_setLabel" "op_getStats memory_ops s = getStats (ms_state s)"
  by (simp_all add: memory_ops_def getLanes_def)

text \<open>Recovery relies on it: no lane ever has two open operations.\<close>

definition one_open :: "session_state \<Rightarrow> bool" where
  "one_open s \<longleftrightarrow> (\<forall>lane. length (open_spec lane (ss_records s)) \<le> 1)"

definition memory_ok :: "memory_storage \<Rightarrow> bool" where
  "memory_ok s \<longleftrightarrow> wf_state (ms_state s) \<and> one_open (ms_state s)"

lemma memory_mutate_Inr:
  "memory_mutate m s = Inr s' \<longleftrightarrow> applyMutation' m (ms_state s) = Inr (ms_state s') \<and> s' = s\<lparr>ms_state := ms_state s'\<rparr>"
proof
  assume "memory_mutate m s = Inr s'"
  then show "applyMutation' m (ms_state s) = Inr (ms_state s') \<and> s' = s\<lparr>ms_state := ms_state s'\<rparr>"
    by (auto simp: memory_mutate_def try_bind_eq_Inr)
next
  assume "applyMutation' m (ms_state s) = Inr (ms_state s') \<and> s' = s\<lparr>ms_state := ms_state s'\<rparr>"
  then show "memory_mutate m s = Inr s'" by (simp add: memory_mutate_def)
qed

lemma mutation_records:
  assumes "applyMutation f m s = Inr s'" and "\<And>r. m \<noteq> MutRecord r"
  shows "ss_records s' = ss_records s"
  using assms(1)
  by (rule applyMutation_cases) (use assms(2) in \<open>auto simp: apply_entry_iff apply_lane_iff apply_label_iff apply_name_def\<close>)

lemma memory_mutate_ok:
  assumes "memory_ok s" and "memory_mutate m s = Inr s'" and "\<And>r. m \<noteq> MutRecord r"
  shows "memory_ok s'"
  using assms applyMutation_keeps [of "ms_state s" BadMutation m "ms_state s'"]
    mutation_records [of BadMutation m "ms_state s" "ms_state s'"]
  by (auto simp: memory_ok_def one_open_def memory_mutate_Inr)

lemma memory_appendEntry_Inr:
  assumes "memory_appendEntry now e lane s = Inr (e', s')"
  obtains parent where "map_of (ss_lanes (ms_state s)) lane = Some parent" and "entry_id e \<notin> ss_usedIds (ms_state s)"
    and "e' = provisioned_entry.extend e \<lparr>entry_seq = ss_sequence (ms_state s) + 1, entry_parentId = parent, entry_timestamp = now\<rparr>"
    and "memory_mutate (MutEntry (Some lane) e') s = Inr s'"
  using assms by (auto simp: memory_appendEntry_def try_bind_eq_Inr requireLane_def validateUnusedId_def nextSequence_def Let_def
      split: option.splits)

lemma memory_appendRecord_Inr:
  assumes "memory_appendRecord now r s = Inr (r', s')" and "memory_ok s"
  obtains "rec_id r \<notin> ss_usedIds (ms_state s)"
    and "r' = new_record.extend r \<lparr>rec_seq = ss_sequence (ms_state s) + 1, rec_timestamp = now\<rparr>"
    and "memory_mutate (MutRecord r') s = Inr s'"
    and "record_type r = OperationStartedT \<Longrightarrow> open_spec (rec_lane r) (ss_records (ms_state s)) = []"
proof -
  let ?open = "open_spec (rec_lane r) (ss_records (ms_state s))"
  have "findOpenOperations (ms_state s) (rec_lane r) (Some (JInt 1)) = Inr (take 1 (rev ?open))"
    using assms(2) by (simp add: memory_ok_def findOpenOperations_eq assertValidLimit_def take_limit_def limit_nat_def)
  with assms(1) have "rec_id r \<notin> ss_usedIds (ms_state s)"
    "r' = new_record.extend r \<lparr>rec_seq = ss_sequence (ms_state s) + 1, rec_timestamp = now\<rparr>"
    "memory_mutate (MutRecord r') s = Inr s'"
    "(case take 1 (rev ?open) of
         op # _ \<Rightarrow> throw_if (record_type r = OperationStartedT) (OpenOperationExists (rec_lane r) (rec_id op))
       | [] \<Rightarrow> Inr ()) = Inr ()"
    by (auto simp: memory_appendRecord_def try_bind_eq_Inr validateUnusedId_def nextSequence_def Let_def)
  then show ?thesis
    by (intro that) (auto split: list.splits)
qed

lemma open_spec_other_lane: "lane \<noteq> rec_lane r \<Longrightarrow> open_spec lane (rs @ [r]) = open_spec lane rs"
  by (simp add: open_spec_snoc open_step_def)

lemma open_spec_length:
  assumes "length (open_spec lane rs) \<le> 1" and "record_type r = OperationStartedT \<Longrightarrow> open_spec (rec_lane r) rs = []"
  shows "length (open_spec lane (rs @ [r])) \<le> 1"
proof (cases "lane = rec_lane r")
  case False
  with assms(1) show ?thesis by (simp add: open_spec_other_lane)
next
  case True
  have "length (filter P (open_spec lane rs)) \<le> 1" for P
    using assms(1) length_filter_le [of P "open_spec lane rs"] by linarith
  with assms True show ?thesis by (cases "rec_body r") (simp_all add: open_spec_snoc open_step_def)
qed

lemma memory_step_ok: "memory_ok s \<Longrightarrow> storage_step memory_ops c s = Inr s' \<Longrightarrow> memory_ok s'"
proof (cases c)
  case (CreateLane lane leaf)
  assume "memory_ok s" "storage_step memory_ops c s = Inr s'"
  then show ?thesis
    by (auto simp: CreateLane storage_step_def memory_createLane_def try_bind_eq_Inr elim: memory_mutate_ok)
next
  case (MoveLane lane leaf)
  assume "memory_ok s" "storage_step memory_ops c s = Inr s'"
  then show ?thesis
    by (auto simp: MoveLane storage_step_def memory_moveLane_def try_bind_eq_Inr elim: memory_mutate_ok)
next
  case (AppendEntry now e lane)
  assume "memory_ok s" "storage_step memory_ops c s = Inr s'"
  then show ?thesis
    by (auto simp: AppendEntry storage_step_def try_bind_eq_Inr elim!: memory_appendEntry_Inr elim: memory_mutate_ok)
next
  case (AppendRecord now r)
  assume ok: "memory_ok s" and step: "storage_step memory_ops c s = Inr s'"
  then obtain r' where "memory_appendRecord now r s = Inr (r', s')"
    by (auto simp: AppendRecord storage_step_def try_bind_eq_Inr)
  from memory_appendRecord_Inr [OF this ok] obtain
      r': "r' = new_record.extend r \<lparr>rec_seq = ss_sequence (ms_state s) + 1, rec_timestamp = now\<rparr>"
    and m: "memory_mutate (MutRecord r') s = Inr s'"
    and free: "record_type r = OperationStartedT \<Longrightarrow> open_spec (rec_lane r) (ss_records (ms_state s)) = []" by metis
  have app: "applyMutation' (MutRecord r') (ms_state s) = Inr (ms_state s')" using m by (simp add: memory_mutate_Inr)
  then have "ss_records (ms_state s') = ss_records (ms_state s) @ [r']"
    by (rule applyMutation_cases) (auto simp: apply_record_iff add_record_def)
  moreover have "rec_lane r' = rec_lane r" "rec_body r' = rec_body r" by (simp_all add: r' new_record.defs)
  moreover then have "length (open_spec lane (ss_records (ms_state s) @ [r'])) \<le> 1" for lane
    using ok free by (intro open_spec_length) (simp_all add: memory_ok_def one_open_def)
  ultimately show ?thesis
    using ok applyMutation_keeps [OF _ app] by (simp add: memory_ok_def one_open_def)
next
  case (SetName name)
  assume "memory_ok s" "storage_step memory_ops c s = Inr s'"
  then show ?thesis by (auto simp: SetName storage_step_def memory_setName_def elim: memory_mutate_ok)
next
  case (SetLabel i label)
  assume "memory_ok s" "storage_step memory_ops c s = Inr s'"
  then show ?thesis
    by (auto simp: SetLabel storage_step_def memory_setLabel_def try_bind_eq_Inr elim: memory_mutate_ok)
qed

lemma memory_ok_new: "memory_ok (new_InMemorySessionStorage md)"
  by (simp add: memory_ok_def new_InMemorySessionStorage_def wf_new_SessionState one_open_def)
    (simp add: new_SessionState_def open_spec_def)

interpretation memory: guarded_machine "storage_step memory_ops" "new_InMemorySessionStorage md" memory_ok for md
  by unfold_locales (rule memory_ok_new, rule memory_step_ok)

section \<open>The laws of a storage\<close>

locale session_storage =
  fixes st :: "'s storage_ops"
    and ok :: "'s \<Rightarrow> bool"
  assumes lanes_distinct: "ok s \<Longrightarrow> distinct (map fst (op_getLanes st s))"
    and append_ok: "ok s \<Longrightarrow> op_appendEntry st now e lane s = Inr (e', s') \<Longrightarrow> ok s'"
    and append_entry: "ok s \<Longrightarrow> op_appendEntry st now e lane s = Inr (e', s') \<Longrightarrow>
        \<exists>n parent. map_of (op_getLanes st s) lane = Some parent
          \<and> e' = provisioned_entry.extend e \<lparr>entry_seq = n, entry_parentId = parent, entry_timestamp = now\<rparr>"
    and append_lanes: "ok s \<Longrightarrow> op_appendEntry st now e lane s = Inr (e', s') \<Longrightarrow>
        map_of (op_getLanes st s') = (map_of (op_getLanes st s))(lane \<mapsto> Some (entry_id e'))"
    and append_entries: "ok s \<Longrightarrow> op_appendEntry st now e lane s = Inr (e', s') \<Longrightarrow>
        op_getEntry st s (entry_id e') = None \<and> op_getEntry st s' = (op_getEntry st s)(entry_id e' \<mapsto> e')"
    and find_limited: "ok s \<Longrightarrow> op_findEntries st s q = Inr es \<Longrightarrow>
        op_findEntries st s (q\<lparr>eq_limit := Some (JInt 1)\<rparr>) = Inr (take 1 es)"
    and branch_limited: "ok s \<Longrightarrow> op_findEntriesOnBranch st s bq i = Inr es \<Longrightarrow>
        op_findEntriesOnBranch st s (bq\<lparr>eq_limit := Some (JInt 1)\<rparr>) i = Inr (take 1 es)"
begin

lemma leaf_lookup:
  assumes "ok s"
  shows "getLeafIdForLane st lane s = (case map_of (op_getLanes st s) lane of None \<Rightarrow> Inl (LaneNotFound lane) | Some leaf \<Rightarrow> Inr leaf)"
proof -
  have "map_option snd (List.find (\<lambda>p. fst p = k) al) = map_of al k" for k and al :: "(jstr \<times> jstr option) list"
    by (induction al) auto
  from this [of lane "op_getLanes st s", symmetric] show ?thesis
    by (cases "List.find (\<lambda>p. fst p = lane) (op_getLanes st s)") (auto simp: getLeafIdForLane_def)
qed

text \<open>What a committed entry looks like from outside.\<close>

lemma commit_entry:
  assumes "ok s" and "commitEntry st payload now e lane s = Inr (e', s')"
  shows "ok s' \<and> json_ok {} (payload e) \<and> entry_id e' = entry_id e \<and> entry_body e' = entry_body e
    \<and> getLeafIdForLane st lane s = Inr (entry_parentId e') \<and> getLeafIdForLane st lane s' = Inr (Some (entry_id e))
    \<and> (\<forall>l. l \<noteq> lane \<longrightarrow> getLeafIdForLane st l s' = getLeafIdForLane st l s)
    \<and> op_getEntry st s (entry_id e) = None \<and> op_getEntry st s' = (op_getEntry st s)(entry_id e \<mapsto> e')"
proof -
  from assms(2) have json: "json_ok {} (payload e)" and app: "op_appendEntry st now e lane s = Inr (e', s')"
    by (auto simp: commitEntry_def try_bind_eq_Inr assertJsonSerializable_iff)
  obtain n parent where parent: "map_of (op_getLanes st s) lane = Some parent"
    and e': "e' = provisioned_entry.extend e \<lparr>entry_seq = n, entry_parentId = parent, entry_timestamp = now\<rparr>"
    using append_entry [OF assms(1) app] by blast
  have ok': "ok s'" using append_ok [OF assms(1) app] .
  show ?thesis
    using ok' json append_entries [OF assms(1) app] parent
    by (simp add: leaf_lookup [OF assms(1)] leaf_lookup [OF ok'] append_lanes [OF assms(1) app] e' provisioned_entry.defs)
qed

lemma append_message:
  assumes "ok s" and "appendMessageToLane st payload next_id now lane message (g, s) = Inr (i, g', s')"
  shows "ok s' \<and> (i, g') = next_id g \<and> getLeafIdForLane st lane s' = Inr (Some i)
    \<and> (\<forall>l. l \<noteq> lane \<longrightarrow> getLeafIdForLane st l s' = getLeafIdForLane st l s)
    \<and> (\<exists>e. op_getEntry st s' = (op_getEntry st s)(i \<mapsto> e) \<and> entry_id e = i \<and> entry_body e = MessageBody message False
         \<and> getLeafIdForLane st lane s = Inr (entry_parentId e))"
proof -
  obtain j h where next_id: "next_id g = (j, h)" by fastforce
  from assms(2) obtain e where c: "commitEntry st payload now \<lparr>entry_id = j, entry_body = MessageBody message False\<rparr> lane s = Inr (e, s')"
    and i: "i = entry_id e" "g' = h"
    by (auto simp: appendMessageToLane_def next_id try_bind_eq_Inr)
  from commit_entry [OF assms(1) c] i next_id show ?thesis by auto
qed

lemma find_entry_is_first:
  assumes "ok s" and "queryEntries st q (eq_limit q) s = Inr es"
  shows "findEntry st q s = Inr (case es of [] \<Rightarrow> None | e # _ \<Rightarrow> Some e)"
proof -
  from assms(2) have v: "assertValidLimit (eq_limit q) = Inr ()" "assertValidCursor (eq_cursor q) = Inr ()"
    and es: "op_findEntries st s q = Inr es"
    by (auto simp: queryEntries_def try_bind_eq_Inr)
  have "op_findEntries st s (if Some (JInt 1) = eq_limit q then q else q\<lparr>eq_limit := Some (JInt 1)\<rparr>) = Inr (take 1 es)"
  proof (cases "Some (JInt 1) = eq_limit q")
    case True
    then have "q\<lparr>eq_limit := Some (JInt 1)\<rparr> = q" by (cases q) simp
    with True find_limited [OF assms(1) es] show ?thesis by simp
  qed (simp add: find_limited [OF assms(1) es])
  then show ?thesis using v by (simp add: findEntry_def queryEntries_def first_entry_def split: list.split)
qed

end

section \<open>The in-memory storage obeys them\<close>

lemma take_limit_one:
  "limit \<noteq> Some 0 \<Longrightarrow> take_limit (Some 1) xs = take 1 (take_limit limit xs)"
  by (cases limit) (simp_all add: take_limit_def)

lemma limit_one: "assertValidLimit (Some (JInt 1)) = Inr ()" "limit_nat (Some (JInt 1)) = Some 1"
  by (simp_all add: assertValidLimit_def limit_nat_def)

lemma matchesEntryQuery_limit: "matchesEntryQuery e (q\<lparr>eq_limit := l\<rparr>) = matchesEntryQuery e q"
  by (cases "eq_cursor q") (simp_all add: matchesEntryQuery_def)

lemma branch_limit:
  assumes wf: "wf_state s" and es: "findEntriesOnBranch s q i = Inr es"
  shows "findEntriesOnBranch s (q\<lparr>eq_limit := Some (JInt 1)\<rparr>) i = Inr (take 1 es)"
proof -
  have v: "assertValidLimit (eq_limit q) = Inr ()" "assertValidCursor (eq_cursor q) = Inr ()"
    using es by (auto simp: findEntriesOnBranch_def try_bind_eq_Inr)
  have "i \<in> entry_ids (ss_entries s)"
  proof (rule ccontr)
    assume "i \<notin> entry_ids (ss_entries s)"
    from walkToRoot_missing [OF wf this] es v show False
      by (auto simp: findEntriesOnBranch_def split: if_splits)
  qed
  then obtain path where path: "branch (ss_entries s) i path" by (rule walkToRoot_branch [OF wf])
  have "assertValidLimit (eq_limit (q\<lparr>eq_limit := Some (JInt 1)\<rparr>)) = Inr ()"
    "assertValidCursor (eq_cursor (q\<lparr>eq_limit := Some (JInt 1)\<rparr>)) = Inr ()"
    using v by (simp_all add: limit_one)
  from findEntriesOnBranch_eq [OF wf path this] findEntriesOnBranch_eq [OF wf path v] es
  show ?thesis
    by (simp add: limit_one matchesEntryQuery_limit take_limit_one [OF assertValidLimit_pos [OF v(1)], simplified])
qed

lemma memory_appendEntry_effect:
  assumes ok: "memory_ok s" and app: "memory_appendEntry now e lane s = Inr (e', s')"
  obtains parent where "map_of (ss_lanes (ms_state s)) lane = Some parent" and "entry_id e \<notin> ss_usedIds (ms_state s)"
    and "e' = provisioned_entry.extend e \<lparr>entry_seq = ss_sequence (ms_state s) + 1, entry_parentId = parent, entry_timestamp = now\<rparr>"
    and "ms_state s' = add_entry (Some lane) e' (ms_state s)" and "memory_ok s'"
proof -
  from memory_appendEntry_Inr [OF app] obtain parent where p: "map_of (ss_lanes (ms_state s)) lane = Some parent"
      "entry_id e \<notin> ss_usedIds (ms_state s)"
      "e' = provisioned_entry.extend e \<lparr>entry_seq = ss_sequence (ms_state s) + 1, entry_parentId = parent, entry_timestamp = now\<rparr>"
    and m: "memory_mutate (MutEntry (Some lane) e') s = Inr s'" by metis
  have "applyMutation' (MutEntry (Some lane) e') (ms_state s) = Inr (ms_state s')" using m by (simp add: memory_mutate_Inr)
  then have "ms_state s' = add_entry (Some lane) e' (ms_state s)"
    by (rule applyMutation_cases) (auto simp: apply_entry_iff)
  moreover have "memory_ok s'" using memory_mutate_ok [OF ok m] by simp
  ultimately show ?thesis using p that by blast
qed

interpretation memory_session: session_storage memory_ops memory_ok
proof
  fix s s' :: memory_storage and now e e' lane q es bq i
  assume ok: "memory_ok s"
  then have wf: "wf_state (ms_state s)" by (simp add: memory_ok_def)
  show "distinct (map fst (op_getLanes memory_ops s))" using wf by (simp add: wf_state_def lanes_ok_def)
  show "op_findEntries memory_ops s (q\<lparr>eq_limit := Some (JInt 1)\<rparr>) = Inr (take 1 es)"
    if "op_findEntries memory_ops s q = Inr es"
    using that by (auto simp: findEntries_eq try_bind_eq_Inr limit_one matchesEntryQuery_limit
        dest!: assertValidLimit_pos intro: take_limit_one [simplified])
  show "op_findEntriesOnBranch memory_ops s (bq\<lparr>eq_limit := Some (JInt 1)\<rparr>) i = Inr (take 1 es)"
    if "op_findEntriesOnBranch memory_ops s bq i = Inr es"
    using branch_limit [OF wf, of bq i es] that by simp
  assume app: "op_appendEntry memory_ops now e lane s = Inr (e', s')"
  then have app': "memory_appendEntry now e lane s = Inr (e', s')" by simp
  from memory_appendEntry_effect [OF ok this] obtain parent where
      p: "map_of (ss_lanes (ms_state s)) lane = Some parent" "entry_id e \<notin> ss_usedIds (ms_state s)"
        "e' = provisioned_entry.extend e \<lparr>entry_seq = ss_sequence (ms_state s) + 1, entry_parentId = parent, entry_timestamp = now\<rparr>"
    and s': "ms_state s' = add_entry (Some lane) e' (ms_state s)" and ok': "memory_ok s'" by metis
  show "memory_ok s'" by (rule ok')
  show "\<exists>n parent. map_of (op_getLanes memory_ops s) lane = Some parent
      \<and> e' = provisioned_entry.extend e \<lparr>entry_seq = n, entry_parentId = parent, entry_timestamp = now\<rparr>"
    using p by auto
  show "map_of (op_getLanes memory_ops s') = (map_of (op_getLanes memory_ops s))(lane \<mapsto> Some (entry_id e'))"
    by (simp add: s')
  have id: "entry_id e' = entry_id e" by (simp add: p(3) provisioned_entry.defs)
  have "map_of (ss_entriesById (ms_state s)) (entry_id e) = None"
    using wf p(2) by (simp add: wf_state_def ids_ok_def map_of_eq_None_ids)
  then show "op_getEntry memory_ops s (entry_id e') = None
      \<and> op_getEntry memory_ops s' = (op_getEntry memory_ops s)(entry_id e' \<mapsto> e')"
    by (simp add: getEntry_def [abs_def] s' id)
qed

section \<open>Properties of the state\<close>

text \<open>C1 (invariant). Every history of mutations that \<open>applyMutation\<close> accepts, from whatever source, leaves a
  well-formed state: the log is numbered 1, 2, 3, ... and determines the entries and records, ids are
  unique, every parent precedes its child, lane leaves and labels point to entries, and the
  statistics and open operations are those of the records.\<close>

theorem accepted_history_well_formed:
  assumes "run_machine (applyMutation invalid) history new_SessionState = Inr s"
  shows "wf_state s"
  using assms by (rule session_state.reachable_inv)

lemma accepted_history_well_formed_witness: "wf_state sample_state"
  by (rule accepted_history_well_formed [OF sample_history_runs])

text \<open>C28 (functional). On every reachable state a branch query is answered from the unique path that leads from the start entry
  to the root: cut behind the first bound (in the direction of the scan), filtered and limited. It
  never reports a cycle or a missing parent; an unknown start is \<open>not_found\<close>.\<close>

theorem branch_query_reads_path:
  assumes "run_machine applyMutation' history new_SessionState = Inr s"
    and "assertValidLimit (eq_limit q) = Inr ()" and "assertValidCursor (eq_cursor q) = Inr ()"
  shows "if i \<in> entry_ids (ss_entries s)
    then \<exists>!path. branch (ss_entries s) i path \<and> findEntriesOnBranch s q i = Inr (take_limit (limit_nat (eq_limit q))
      (filter (\<lambda>e. matchesEntryQuery e q)
        (take_through (path_bound (bq_stopAtType q) (bq_stopAtId q)) (if eq_order q = Some OldestFirst then rev path else path))))
    else findEntriesOnBranch s q i = Inl (EntryNotFound i)"
proof -
  have wf: "wf_state s" using assms(1) by (rule session_state.reachable_inv)
  then have ids: "distinct (map entry_id (ss_entries s))" by (simp add: wf_state_def ids_ok_def)
  show ?thesis
  proof (cases "i \<in> entry_ids (ss_entries s)")
    case True
    obtain path where path: "branch (ss_entries s) i path" by (rule walkToRoot_branch [OF wf True])
    show ?thesis
      unfolding if_P [OF True]
    proof (rule ex1I [of _ path], rule conjI)
      show "branch (ss_entries s) i path" by (rule path)
    qed (rule findEntriesOnBranch_eq [OF wf path assms(2,3)], blast dest: branch_unique [OF ids path])
  next
    case False
    with walkToRoot_missing [OF wf False] assms(2,3) show ?thesis
      by (simp add: findEntriesOnBranch_def)
  qed
qed

lemma branch_query_reads_path_witness:
  "if jlit ''c'' \<in> entry_ids (ss_entries sample_state)
    then \<exists>!path. branch (ss_entries sample_state) (jlit ''c'') path
      \<and> findEntriesOnBranch sample_state branch_path_query (jlit ''c'') = Inr (take_limit None
      (filter (\<lambda>e. matchesEntryQuery e branch_path_query) (take_through (path_bound None None) (rev path))))
    else findEntriesOnBranch sample_state branch_path_query (jlit ''c'') = Inl (EntryNotFound (jlit ''c''))"
proof -
  have q: "eq_limit branch_path_query = None" "eq_cursor branch_path_query = None" "eq_order branch_path_query = Some OldestFirst"
    "bq_stopAtType branch_path_query = None" "bq_stopAtId branch_path_query = None"
    by (simp_all add: branch_path_query_def)
  have "assertValidLimit None = Inr ()" "assertValidCursor None = Inr ()" "limit_nat None = None"
    by (simp_all add: assertValidLimit_def assertValidCursor_def limit_nat_def)
  with branch_query_reads_path [OF sample_history_runs, of branch_path_query "jlit ''c''"]
  show ?thesis unfolding q by (simp cong: if_cong)
qed

text \<open>A session-wide query returns its matches in strict sequence order, descending unless \<open>oldestFirst\<close>
  is asked for: the first ones up to the limit, so that a page can be continued behind its last entry.\<close>

theorem entry_query_is_ordered:
  assumes "run_machine applyMutation' history new_SessionState = Inr s" and "findEntries s q = Inr es"
  shows "es = take_limit (limit_nat (eq_limit q)) (filter (\<lambda>e. matchesEntryQuery e q) (ordered (ss_entries s) (eq_order q)))
    \<and> sorted_wrt (if eq_order q = Some OldestFirst then (<) else (>)) (map entry_seq es)"
proof -
  have wf: "wf_state s" using assms(1) by (rule session_state.reachable_inv)
  let ?r = "if eq_order q = Some OldestFirst then (<) else ((>) :: int \<Rightarrow> int \<Rightarrow> bool)"
  have "sorted_wrt ?r (map entry_seq (ordered (ss_entries s) (eq_order q)))"
    using wf_sorted(1) [OF wf] by (simp add: ordered_def rev_map [symmetric] sorted_wrt_rev)
  then have "sorted_wrt ?r (map entry_seq (filter (\<lambda>e. matchesEntryQuery e q) (ordered (ss_entries s) (eq_order q))))"
    by (simp add: sorted_wrt_map sorted_wrt_filter)
  moreover have es: "es = take_limit (limit_nat (eq_limit q)) (filter (\<lambda>e. matchesEntryQuery e q) (ordered (ss_entries s) (eq_order q)))"
    using assms(2) by (auto simp: findEntries_eq try_bind_eq_Inr)
  ultimately show ?thesis by (auto simp: take_limit_def take_map [symmetric] sorted_wrt_take split: option.split)
qed

lemma entry_query_is_ordered_witness:
  "sorted_wrt (<) (map entry_seq (ss_entries sample_state))"
  using entry_query_is_ordered [OF sample_history_runs all_entries_eq] by (simp add: all_entries_query_def)

text \<open>The log can be followed by sequence number: what \<open>getLog\<close> returns behind sequence number \<open>n\<close> is
  exactly the log without its first \<open>n\<close> items.\<close>

theorem log_resumes_after_seq:
  assumes "run_machine applyMutation' history new_SessionState = Inr s"
  shows "getLog s \<lparr>lo_afterSeq = Some (JInt (int n)), lo_limit = None\<rparr> = Inr (drop n (ss_log s))
    \<and> map item_seq (ss_log s) = map (\<lambda>k. int k + 1) [0..<length (ss_log s)]"
proof -
  have "wf_state s" using assms(1) by (rule session_state.reachable_inv)
  then have seqs: "map item_seq (ss_log s) = map (\<lambda>k. int k + 1) [0..<length (ss_log s)]"
    by (simp add: wf_state_def log_ok_def)
  then have nth: "item_seq (ss_log s ! k) = int k + 1" if "k < length (ss_log s)" for k
    using that by (metis (no_types, lifting) add_0 length_map nth_map nth_upt diff_zero length_upt)
  have "\<forall>i \<in> set (take n (ss_log s)). item_seq i \<le> int n"
    using nth by (auto simp: in_set_conv_nth)
  then have first: "filter (\<lambda>i. \<not> item_seq i \<le> int n) (take n (ss_log s)) = []" by (simp add: filter_empty_conv)
  have "\<forall>i \<in> set (drop n (ss_log s)). \<not> item_seq i \<le> int n"
    using nth by (auto simp: in_set_conv_nth)
  then have last: "filter (\<lambda>i. \<not> item_seq i \<le> int n) (drop n (ss_log s)) = drop n (ss_log s)" by simp
  have "filter (\<lambda>i. \<not> item_seq i \<le> int n) (ss_log s) = drop n (ss_log s)"
    using first last append_take_drop_id [of n "ss_log s"] by (metis append_Nil filter_append)
  with seqs show ?thesis
    by (simp add: getLog_eq assertValidLimit_def assertValidCursor_def take_limit_def limit_nat_def cursor_int_def)
qed

lemma log_resumes_after_seq_witness:
  "getLog sample_state \<lparr>lo_afterSeq = Some (JInt (int 3)), lo_limit = None\<rparr> =
     Inr [LogEntry 4 (sample_entry ''c'' (Some (jlit ''a'')) 4), LogLabel 5 (jlit ''a'') (Some (jlit ''start''))]"
  using log_resumes_after_seq [OF sample_history_runs, of 3] by (simp add: sample_state_def)

section \<open>Properties of the storage and the session\<close>

text \<open>C24 (invariant). Through the storage, whatever calls are made in whatever order, no lane ever has two open
  operations, and an operation is open exactly when its start is not followed by a finish in its
  lane: recovery finds a lane idle or suspended, never corrupt.\<close>

theorem at_most_one_open_operation:
  assumes "run_machine (storage_step memory_ops) calls (new_InMemorySessionStorage md) = Inr s"
  shows "\<exists>ops. findOpenOperations_session memory_ops lane None s = Inr ops \<and> length ops \<le> 1
    \<and> (\<forall>op. op \<in> set ops \<longleftrightarrow> (\<exists>before after. ss_records (ms_state s) = before @ op # after
        \<and> rec_lane op = lane \<and> record_type op = OperationStartedT
        \<and> (\<forall>f \<in> set after. rec_lane f = lane \<longrightarrow> (\<forall>outcome err. rec_body f \<noteq> OperationFinished (rec_id op) outcome err))))"
proof -
  have ok: "memory_ok s" using assms by (rule memory.reachable_inv)
  then have ids: "distinct (map rec_id (ss_records (ms_state s)))" by (simp add: memory_ok_def wf_state_def ids_ok_def)
  have "findOpenOperations_session memory_ops lane None s = Inr (rev (open_spec lane (ss_records (ms_state s))))"
    using ok by (simp add: findOpenOperations_session_def memory_ok_def findOpenOperations_eq assertValidLimit_def
        take_limit_def limit_nat_def)
  moreover have "length (rev (open_spec lane (ss_records (ms_state s)))) \<le> 1"
    using ok by (simp add: memory_ok_def one_open_def)
  ultimately show ?thesis using open_spec_iff [OF ids, of _ lane]
    by (intro exI [of _ "rev (open_spec lane (ss_records (ms_state s)))"] conjI allI) simp_all
qed

definition sample_metadata :: session_metadata where
  "sample_metadata = \<lparr>sm_id = jlit ''s'', sm_createdAt = 0, sm_parentSessionId = None\<rparr>"

definition sample_started :: "string \<Rightarrow> new_record" where
  "sample_started i = \<lparr>rec_id = jlit i, rec_lane = main_lane,
     rec_body = OperationStarted None (CompactionIntent None (jlit ''r''))\<rparr>"

definition sample_calls :: "storage_call list" where
  "sample_calls = [AppendEntry 7 \<lparr>entry_id = jlit ''a'', entry_body = sample_message_body\<rparr> main_lane,
     AppendRecord 8 (sample_started ''op'')]"

lemmas storage_eval =
  storage_step_def memory_appendEntry_def memory_appendRecord_def memory_mutate_def requireLane_def validateUnusedId_def
  nextSequence_def provisioned_entry.defs new_record.defs findOpenOperations_def assertValidLimit_def limit_nat_def
  new_InMemorySessionStorage_def mutation_eval open_operations_def record_stats_def zero_stats_def Let_def

definition sample_storage :: memory_storage where
  "sample_storage = (case run_machine (storage_step memory_ops) sample_calls (new_InMemorySessionStorage sample_metadata) of
     Inr s \<Rightarrow> s | Inl _ \<Rightarrow> new_InMemorySessionStorage sample_metadata)"

lemma sample_calls_run:
  "run_machine (storage_step memory_ops) sample_calls (new_InMemorySessionStorage sample_metadata) = Inr sample_storage"
  unfolding sample_storage_def by (simp add: sample_calls_def sample_started_def storage_eval)

lemma at_most_one_open_operation_witness:
  "\<exists>ops. findOpenOperations_session memory_ops main_lane None sample_storage = Inr ops \<and> length ops \<le> 1"
  using at_most_one_open_operation [OF sample_calls_run, of main_lane] by blast

text \<open>Appending a message through the session on any reachable storage stores it under the id the generator
  provisioned, as a child of the lane's previous leaf, and makes it the lane's leaf. No other
  lane moves and no stored entry changes.\<close>

theorem append_message_extends_lane:
  assumes "run_machine (storage_step memory_ops) calls (new_InMemorySessionStorage md) = Inr s"
    and "appendMessageToLane memory_ops payload next_id now lane message (g, s) = Inr (i, g', s')"
  shows "(i, g') = next_id g \<and> getLeafIdForLane memory_ops lane s' = Inr (Some i)
    \<and> (\<forall>l. l \<noteq> lane \<longrightarrow> getLeafIdForLane memory_ops l s' = getLeafIdForLane memory_ops l s)
    \<and> (\<exists>e. op_getEntry memory_ops s' = (op_getEntry memory_ops s)(i \<mapsto> e)
         \<and> entry_id e = i \<and> entry_body e = MessageBody message False
         \<and> getLeafIdForLane memory_ops lane s = Inr (entry_parentId e))"
  using memory_session.append_message [OF memory.reachable_inv [OF assms(1)] assms(2)] by blast

definition sample_next_id :: "nat \<Rightarrow> jstr \<times> nat" where
  "sample_next_id n = ([word_of_nat (98 + n)], n + 1)"

definition sample_appended :: "session_error + (jstr \<times> nat \<times> memory_storage)" where
  "sample_appended = appendMessageToLane memory_ops (\<lambda>_. JNull :: nat jsv) sample_next_id 9 main_lane (OtherMessage JNull) (0, sample_storage)"

lemma sample_appended_ok: "\<exists>s'. sample_appended = Inr (jlit ''b'', 1, s')"
proof -
  have json: "assertJsonSerializable (JNull :: nat jsv) = Inr ()" by (simp add: assertJsonSerializable_iff)
  show ?thesis
    unfolding sample_appended_def sample_storage_def sample_next_id_def
    by (simp add: sample_calls_def sample_started_def appendMessageToLane_def commitEntry_def json storage_eval)
qed

lemma append_message_extends_lane_witness:
  "\<exists>s'. getLeafIdForLane memory_ops main_lane s' = Inr (Some (jlit ''b''))"
proof -
  obtain s' where "sample_appended = Inr (jlit ''b'', 1, s')" using sample_appended_ok by blast
  from append_message_extends_lane [OF sample_calls_run this [unfolded sample_appended_def]] show ?thesis by blast
qed

text \<open>\<open>findEntry\<close> is the first result of \<open>findEntries\<close> with the same query, for any limit the caller set.\<close>

theorem findEntry_is_first_result:
  assumes "run_machine (storage_step memory_ops) calls (new_InMemorySessionStorage md) = Inr s"
    and "queryEntries memory_ops q (eq_limit q) s = Inr es"
  shows "findEntry memory_ops q s = Inr (case es of [] \<Rightarrow> None | e # _ \<Rightarrow> Some e)"
  by (rule memory_session.find_entry_is_first [OF memory.reachable_inv [OF assms(1)] assms(2)])

lemma findEntry_is_first_result_witness:
  "findEntry memory_ops all_entries_query sample_storage
     = Inr (case ss_entries (ms_state sample_storage) of [] \<Rightarrow> None | e # _ \<Rightarrow> Some e)"
  by (rule findEntry_is_first_result [OF sample_calls_run])
    (simp add: queryEntries_def all_entries_eq, simp add: all_entries_query_def assertValidLimit_def assertValidCursor_def)

end
