(* ===== verification/Lane_Recovery.thy ===== *)
theory Lane_Recovery
  imports Lane_Reducer Session_Facade "HOL-Library.Multiset"
begin

text \<open>
  What a lane that was reconstructed from its records is known to satisfy, and how the
  reconstruction fits the context builder and the storage.
\<close>

section \<open>The order of the records\<close>

lemma bySequence_permute:
  assumes "mset rs = mset rs'" and "distinct (map rec_seq rs')"
  shows "bySequence rs = bySequence rs'"
proof -
  have "inj_on rec_seq (set rs)"
    using assms(2) mset_eq_setD [OF assms(1)] by (simp add: distinct_map)
  then show ?thesis
    unfolding bySequence_def by (rule sort_key_inj_key_eq [rotated]) (simp_all add: assms(1))
qed

text \<open>The order in which the records of a slice are handed over does not matter, only their sequence numbers do.\<close>

theorem reduction_ignores_record_order:
  assumes "mset rs = mset (ls_records input)" and "distinct (map rec_seq (ls_records input))"
  shows "reduceLaneState deep_equal (input\<lparr>ls_records := rs\<rparr>) = reduceLaneState deep_equal input"
proof -
  note same = bySequence_permute [OF assms]
  let ?input = "input\<lparr>ls_records := rs\<rparr>"
  have fields: "ls_records ?input = rs" "ls_entries ?input = ls_entries input"
    "ls_openOperations ?input = ls_openOperations input" "li_ownEntries ?input = li_ownEntries input"
    "li_configurationEntries ?input = li_configurationEntries input" "li_defaults ?input = li_defaults input"
    "ls_lane ?input = ls_lane input" "li_leafId ?input = li_leafId input"
    by simp_all
  have "deriveEffectiveConfiguration ?input = deriveEffectiveConfiguration input"
    by (simp only: deriveEffectiveConfiguration_def fields)
  moreover have "reduce_operation ?input started = reduce_operation input started" for started
    by (simp only: reduce_operation_def same fields)
  moreover have "validateRecordLog deep_equal ?input = validateRecordLog deep_equal input"
    by (simp only: validateRecordLog_def same fields)
  ultimately show ?thesis
    by (simp only: reduceLaneState_def same fields)
qed

section \<open>Tool batches\<close>

lemma validateToolStart_ok:
  assumes "validateToolStart byId invocations t = Inr invocations'"
  shows "\<exists>e a c. map_of byId (ts_assistantEntryId t) = Some e \<and> assistant_of e = Some a
    \<and> call_at (tool_calls a) (ts_toolIndex t) = Some c \<and> call_id c = ts_toolCallId t \<and> call_name c = ts_toolName t"
  using assms
  by (auto simp: validateToolStart_def try_bind_eq_Inr bind_eq_Some_conv split: option.splits if_splits)

lemma accepted_tool_start:
  assumes "validateRecordLog deep_equal input = Inr ()" and "r \<in> set (ls_records input)"
    and "tool_start_of r = Some (run, t)"
  shows "\<exists>e a c. map_of (entries_map (ls_entries input)) (ts_assistantEntryId t) = Some e \<and> assistant_of e = Some a
    \<and> call_at (tool_calls a) (ts_toolIndex t) = Some c \<and> call_id c = ts_toolCallId t \<and> call_name c = ts_toolName t"
proof -
  have "r \<in> set (bySequence (ls_records input))"
    using assms(2) by simp
  then obtain before after where "bySequence (ls_records input) = before @ r # after"
    by (metis split_list)
  then obtain s s' where "check_record deep_equal (entries_map (ls_entries input)) r s = Inr s'"
    using validateRecordLog_run [OF assms(1)] by (metis run_machine_split)
  then obtain invocations where "validateToolStart (entries_map (ls_entries input)) (sc_toolInvocations s) t = Inr invocations"
    using assms(3)
    by (auto simp: check_record_def check_body_def tool_start_of_def try_bind_eq_Inr split: record_body.splits)
  then show ?thesis
    by (rule validateToolStart_ok)
qed

lemma tool_starts_Some:
  assumes "map_of (tool_starts run aid rs) i = Some r"
  shows "r \<in> set rs \<and> (\<exists>t. tool_start_of r = Some (run, t) \<and> ts_assistantEntryId t = aid \<and> ts_toolIndex t = i)"
  using assms
proof (induction rs rule: rev_induct)
  case Nil
  then show ?case by (simp add: tool_starts_def)
next
  case (snoc x rs)
  have step: "tool_starts run aid (rs @ [x]) = (case tool_start_of x of
      Some (run', t) \<Rightarrow> if run' = run \<and> ts_assistantEntryId t = aid
        then AList.update (ts_toolIndex t) x (tool_starts run aid rs) else tool_starts run aid rs
    | None \<Rightarrow> tool_starts run aid rs)"
    by (simp add: tool_starts_def split: option.splits prod.splits)
  show ?case
    using snoc by (auto simp: step split: option.splits if_splits)
qed

lemma deriveToolBatch_Some:
  assumes "deriveToolBatch run rs ownEntries byId dids = Some batch"
  shows "\<exists>e a. e \<in> set ownEntries \<and> assistant_of e = Some a \<and> tb_assistantEntryId batch = entry_id e
    \<and> tb_calls batch = map (\<lambda>(i, c). batch_call e (tool_starts run (entry_id e) rs) ownEntries byId dids i c)
        (enumerate 0 (tool_calls a))
    \<and> (tb_unresolved batch \<longleftrightarrow> (\<exists>c \<in> set (tb_calls batch). \<not> bc_resultExists c))"
proof -
  obtain e a where f: "find calls_tools (rev ownEntries) = Some e" and a: "assistant_of e = Some a"
    and batch: "Some batch = (let starts = tool_starts run (entry_id e) rs;
        calls = map (\<lambda>(i, c). batch_call e starts ownEntries byId dids i c) (enumerate 0 (tool_calls a))
      in Some \<lparr>tb_assistantEntryId = entry_id e, tb_calls = calls, tb_truncated = (am_stopReason a = LengthStop),
               tb_unresolved = list_ex (\<lambda>c. \<not> bc_resultExists c) calls\<rparr>)"
    using assms by (auto simp: deriveToolBatch_def split: option.splits)
  have "e \<in> set (rev ownEntries)"
    using f unfolding find_Some_iff by (metis nth_mem)
  then show ?thesis
    using a batch by (intro exI [of _ e] exI [of _ a]) (simp add: Let_def list_ex_iff)
qed

lemma batch_call_simps [simp]:
  "bc_toolIndex (batch_call e starts own byId dids i c) = i"
  "bc_toolCall (batch_call e starts own byId dids i c) = c"
  "bc_started (batch_call e starts own byId dids i c) = map_of starts (int i)"
  by (simp_all add: batch_call_def Let_def)

lemma reduceLaneState_operation:
  assumes "reduceLaneState deep_equal input = Inr reduction"
    and "la_operation (lr_laneState reduction) = Some operation"
  obtains started rest where "validateRecordLog deep_equal input = Inr ()"
    and "ls_openOperations input = [started]"
    and "operation = fst (reduce_operation input started)"
proof -
  obtain u where v: "validateRecordLog deep_equal input = Inr ()"
    using assms(1) by (auto simp: reduceLaneState_def try_bind_eq_Inr)
  moreover obtain started rest where ops: "ls_openOperations input = started # rest"
    and "operation = fst (reduce_operation input started)"
    using assms v by (auto simp: reduceLaneState_def Let_def split: list.splits prod.splits)
  moreover have "rest = []"
    using validateRecordLog_run [OF v] ops by (metis One_nat_def length_0_conv length_Cons less_eq_Suc_le not_less_eq_eq le_zero_eq)
  ultimately show thesis
    by (auto intro: that)
qed

lemma reduce_operation_id [simp]:
  "lp_id (fst (reduce_operation input started)) = os_id started"
  "lp_intent (fst (reduce_operation input started)) = os_intent started"
  by (simp_all add: reduce_operation_def Let_def)

lemma reduce_operation_toolBatch:
  "\<exists>rs dids. set rs \<subseteq> set (ls_records input) \<and> lp_toolBatch (fst (reduce_operation input started)) =
    deriveToolBatch (os_id started) rs (entriesBySequence (li_ownEntries input))
      (entries_map (ls_entries input @ entriesBySequence (li_ownEntries input))) dids"
  by (rule exI [of _ "filter (owned_by started) (bySequence (ls_records input))"])
     (auto simp: reduce_operation_def Let_def)

text \<open>C32 (safety). The tool batch a lane resumes is the one of an own assistant entry: its calls are that message's tool calls in
  order, a call counts as started only with a start record of this operation that names the same
  call and tool, and the batch is unresolved exactly when a call has no result. The own entries are
  among the entries of the slice, as its comment requires.\<close>

theorem resumed_tool_batch_is_sound:
  assumes "reduceLaneState deep_equal input = Inr reduction"
    and "la_operation (lr_laneState reduction) = Some operation" and "lp_toolBatch operation = Some batch"
    and "\<forall>e \<in> set (li_ownEntries input). map_of (entries_map (ls_entries input)) (entry_id e) = Some e"
  shows "\<exists>e a. e \<in> set (li_ownEntries input) \<and> assistant_of e = Some a \<and> tb_assistantEntryId batch = entry_id e
    \<and> map bc_toolCall (tb_calls batch) = tool_calls a
    \<and> map bc_toolIndex (tb_calls batch) = [0..<length (tool_calls a)]
    \<and> (\<forall>c \<in> set (tb_calls batch). \<forall>r. bc_started c = Some r \<longrightarrow> r \<in> set (ls_records input)
        \<and> (\<exists>t. tool_start_of r = Some (lp_id operation, t) \<and> ts_assistantEntryId t = entry_id e
            \<and> ts_toolCallId t = call_id (bc_toolCall c) \<and> ts_toolName t = call_name (bc_toolCall c)))
    \<and> (tb_unresolved batch \<longleftrightarrow> (\<exists>c \<in> set (tb_calls batch). \<not> bc_resultExists c))"
proof -
  obtain started where v: "validateRecordLog deep_equal input = Inr ()"
    and operation: "operation = fst (reduce_operation input started)"
    using reduceLaneState_operation [OF assms(1,2)] by metis
  obtain rs dids where rs: "set rs \<subseteq> set (ls_records input)" and "deriveToolBatch (os_id started) rs
      (entriesBySequence (li_ownEntries input)) (entries_map (ls_entries input @ entriesBySequence (li_ownEntries input))) dids
      = Some batch"
    using reduce_operation_toolBatch [of input started] assms(3) operation by auto
  from deriveToolBatch_Some [OF this(2)] obtain e a where e: "e \<in> set (li_ownEntries input)" "assistant_of e = Some a"
    "tb_assistantEntryId batch = entry_id e"
    and calls: "\<exists>own byId. tb_calls batch = map (\<lambda>(i, c). batch_call e (tool_starts (os_id started) (entry_id e) rs) own byId dids i c)
        (enumerate 0 (tool_calls a))"
    and unresolved: "tb_unresolved batch \<longleftrightarrow> (\<exists>c \<in> set (tb_calls batch). \<not> bc_resultExists c)"
    by (auto simp: entriesBySequence_def)
  have id: "lp_id operation = os_id started"
    by (simp add: operation)
  have "r \<in> set (ls_records input) \<and> (\<exists>t. tool_start_of r = Some (lp_id operation, t) \<and> ts_assistantEntryId t = entry_id e
      \<and> ts_toolCallId t = call_id (bc_toolCall c) \<and> ts_toolName t = call_name (bc_toolCall c))"
    if c: "c \<in> set (tb_calls batch)" and started: "bc_started c = Some r" for c r
  proof -
    obtain i where i: "i < length (tool_calls a)" "bc_toolCall c = tool_calls a ! i"
      "bc_started c = map_of (tool_starts (os_id started) (entry_id e) rs) (int i)"
      using c calls by (auto simp: in_set_enumerate_eq)
    with started obtain t where t: "r \<in> set rs" "tool_start_of r = Some (os_id started, t)"
      "ts_assistantEntryId t = entry_id e" "ts_toolIndex t = int i"
      using tool_starts_Some by fastforce
    have "map_of (entries_map (ls_entries input)) (entry_id e) = Some e"
      using assms(4) e(1) by blast
    with accepted_tool_start [OF v _ t(2)] t rs e(2) i show ?thesis
      by (auto simp: id call_at_def)
  qed
  then show ?thesis
    using e unresolved calls
    by (intro exI [of _ e] exI [of _ a]) (auto simp: comp_def case_prod_beta enumerate_eq_zip)
qed

section \<open>Queued items\<close>

lemma in_set_map_filter [simp]: "y \<in> set (List.map_filter f xs) \<longleftrightarrow> (\<exists>x \<in> set xs. f x = Some y)"
  by (induction xs) (auto simp: map_filter_simps split: option.splits)

lemma pending_enqueues_iff:
  "(q, run, t) \<in> set (pending_enqueues byId rs) \<longleftrightarrow>
    (\<exists>r \<in> set rs. enqueue_of r = Some (q, run, t)) \<and> map_of byId (entry_id t) = None \<and> entry_id t \<notin> cancelled_ids rs"
  by (auto simp: pending_enqueues_def)

lemma cancelled_ids_iff: "i \<in> cancelled_ids rs \<longleftrightarrow> (\<exists>r \<in> set rs. \<exists>run. rec_body r = QueueCancelled run i)"
proof -
  have "(case rec_body r of QueueCancelled _ j \<Rightarrow> Some j | _ \<Rightarrow> None) = Some i \<longleftrightarrow> (\<exists>run. rec_body r = QueueCancelled run i)"
    for r :: lane_record
    by (cases "rec_body r") simp_all
  then show ?thesis by (simp add: cancelled_ids_def)
qed

lemma pending_of_iff: "t \<in> set (pending_of q i pending) \<longleftrightarrow> (q, Some i, t) \<in> set pending"
  by (force simp: pending_of_def)

definition delivered :: "lane_input \<Rightarrow> jstr \<Rightarrow> bool" where
  "delivered input i \<longleftrightarrow> (\<exists>e \<in> set (ls_entries input) \<union> set (li_ownEntries input). entry_id e = i)"

definition cancelled :: "lane_input \<Rightarrow> jstr \<Rightarrow> bool" where
  "cancelled input i \<longleftrightarrow> (\<exists>r \<in> set (ls_records input). \<exists>run. rec_body r = QueueCancelled run i)"

definition enqueued :: "lane_input \<Rightarrow> queue_name \<Rightarrow> jstr option \<Rightarrow> provisioned_entry \<Rightarrow> bool" where
  "enqueued input q run t \<longleftrightarrow> (\<exists>r \<in> set (ls_records input). rec_body r = QueueEnqueued q run t)"

lemma enqueue_of_Some: "enqueue_of r = Some (q, run, t) \<longleftrightarrow> rec_body r = QueueEnqueued q run t"
  by (auto simp: enqueue_of_def split: record_body.splits)

lemma not_delivered:
  "map_of (entries_map (ls_entries input @ entriesBySequence (li_ownEntries input))) i = None \<longleftrightarrow> \<not> delivered input i"
  unfolding entries_map_keys delivered_def by (simp add: entriesBySequence_def) blast

lemma pending_in_slice:
  "(q, run, t) \<in> set (pending_enqueues (entries_map (ls_entries input @ entriesBySequence (li_ownEntries input)))
      (bySequence (ls_records input)))
    \<longleftrightarrow> enqueued input q run t \<and> \<not> delivered input (entry_id t) \<and> \<not> cancelled input (entry_id t)"
  by (simp add: pending_enqueues_iff enqueue_of_Some cancelled_ids_iff enqueued_def cancelled_def not_delivered
      del: entries_map_keys)

lemma aborts_operation:
  "owned_by started r \<and> record_type r = AbortRequestedT \<longleftrightarrow> rec_body r = AbortRequested (os_id started)"
  by (cases "rec_body r") (auto simp: owned_by_def)

text \<open>C26 (functional). Recovery loses no queued item and delivers none twice: an item waits for steering, follow-up or the next
  run exactly when it was enqueued there and was neither delivered nor cancelled, except that an
  abort drops what is queued to the operation, and items that the run captured as its initial
  messages wait there until they are written.\<close>

theorem queued_items_are_accounted_for:
  assumes "reduceLaneState deep_equal input = Inr reduction"
    and "la_operation (lr_laneState reduction) = Some operation"
  shows "(t \<in> set (lp_pendingSteer operation) \<longleftrightarrow> \<not> lp_aborting operation
        \<and> enqueued input SteerQ (Some (lp_id operation)) t \<and> \<not> delivered input (entry_id t) \<and> \<not> cancelled input (entry_id t))
    \<and> (t \<in> set (lp_pendingFollowUp operation) \<longleftrightarrow> \<not> lp_aborting operation
        \<and> enqueued input FollowUpQ (Some (lp_id operation)) t \<and> \<not> delivered input (entry_id t) \<and> \<not> cancelled input (entry_id t))
    \<and> (t \<in> set (la_pendingNextRun (lr_laneState reduction)) \<longleftrightarrow> (\<exists>run. enqueued input NextRunQ run t)
        \<and> \<not> delivered input (entry_id t) \<and> \<not> cancelled input (entry_id t)
        \<and> entry_id t \<notin> entry_id ` set (initial_messages (lp_intent operation)))
    \<and> (t \<in> set (lp_missingInitialMessages operation) \<longleftrightarrow>
        t \<in> set (initial_messages (lp_intent operation)) \<and> \<not> delivered input (entry_id t))
    \<and> (lp_aborting operation \<longleftrightarrow> (\<exists>r \<in> set (ls_records input). rec_body r = AbortRequested (lp_id operation)))"
proof -
  obtain started where v: "validateRecordLog deep_equal input = Inr ()"
    and ops: "ls_openOperations input = [started]" and operation: "operation = fst (reduce_operation input started)"
    using reduceLaneState_operation [OF assms] by metis
  have fields: "lp_id operation = os_id started" "lp_intent operation = os_intent started"
    by (simp_all add: operation)
  let ?pending = "pending_enqueues (entries_map (ls_entries input @ entriesBySequence (li_ownEntries input)))
    (bySequence (ls_records input))"
  have next_run: "la_pendingNextRun (lr_laneState reduction) = map (\<lambda>(_, _, t). t)
      (filter (\<lambda>(q, _, t). q = NextRunQ \<and> entry_id t \<notin> entry_id ` set (initial_messages (os_intent started))) ?pending)"
    using assms(1) by (auto simp: reduceLaneState_def v ops Let_def split: prod.splits)
  have steer: "lp_pendingSteer operation = (if lp_aborting operation then [] else pending_of SteerQ (os_id started) ?pending)"
    and follow: "lp_pendingFollowUp operation = (if lp_aborting operation then [] else pending_of FollowUpQ (os_id started) ?pending)"
    and missing: "lp_missingInitialMessages operation = filter (\<lambda>t. map_of (entries_map (ls_entries input
        @ entriesBySequence (li_ownEntries input))) (entry_id t) = None) (initial_messages (os_intent started))"
    and aborting: "lp_aborting operation = list_ex (\<lambda>r. record_type r = AbortRequestedT)
        (filter (owned_by started) (bySequence (ls_records input)))"
    by (simp_all add: operation reduce_operation_def Let_def)
  have "t \<in> set (la_pendingNextRun (lr_laneState reduction)) \<longleftrightarrow>
      (\<exists>run. (NextRunQ, run, t) \<in> set ?pending) \<and> entry_id t \<notin> entry_id ` set (initial_messages (os_intent started))"
    unfolding next_run by (auto simp: image_iff)
  moreover have "t \<in> set (lp_missingInitialMessages operation) \<longleftrightarrow>
      t \<in> set (initial_messages (os_intent started)) \<and> \<not> delivered input (entry_id t)"
    by (simp add: missing not_delivered del: entries_map_keys)
  moreover have "lp_aborting operation \<longleftrightarrow> (\<exists>r \<in> set (ls_records input). rec_body r = AbortRequested (os_id started))"
    using aborts_operation by (auto simp: aborting list_ex_iff)
  ultimately show ?thesis
    by (simp add: steer follow pending_of_iff pending_in_slice fields)
qed

section \<open>The configuration\<close>

lemma entries_map_distinct:
  assumes "distinct (map entry_id es)"
  shows "map snd (entries_map es) = es"
proof -
  have "entries_map es = map (\<lambda>e. (entry_id e, e)) es"
    using assms
  proof (induction es rule: rev_induct)
    case Nil
    then show ?case by (simp add: entries_map_def)
  next
    case (snoc e es)
    have "AList.update (entry_id e) e al = al @ [(entry_id e, e)]" if "entry_id e \<notin> fst ` set al" for al
      using that by (induction al) auto
    then show ?case
      using snoc by (simp add: entries_map_snoc image_image)
  qed
  then show ?thesis by (simp add: comp_def)
qed

definition same_settings :: "lane_configuration \<Rightarrow> lane_configuration \<Rightarrow> session_settings \<Rightarrow> bool" where
  "same_settings defaults c s \<longleftrightarrow> lc_thinkingLevel c = sx_thinkingLevel s
    \<and> lc_model c = (case sx_model s of None \<Rightarrow> lc_model defaults | Some m \<Rightarrow> m)
    \<and> lc_activeToolNames c = (case sx_activeToolNames s of None \<Rightarrow> lc_activeToolNames defaults | Some ts \<Rightarrow> ts)"

lemma entry_configuration_settings:
  "same_settings defaults c s \<Longrightarrow> same_settings defaults (entry_configuration e c) (entry_settings e s)"
  by (cases "entry_body e")
     (auto simp: same_settings_def entry_configuration_def entry_settings_def assistant_of_def
       split: agent_message.splits message.splits)

lemma fold_same_settings:
  "same_settings defaults c s \<Longrightarrow> same_settings defaults (fold entry_configuration es c) (fold entry_settings es s)"
  by (induction es arbitrary: c s) (simp_all add: entry_configuration_settings)

text \<open>A lane recovered from the entries of its branch runs with the settings that the context builder derives
  from that branch: the same thinking level, and the branch's model and tools wherever it sets any.\<close>

theorem recovered_configuration_agrees_with_context:
  assumes "li_configurationEntries input @ li_ownEntries input = path"
    and "distinct (map entry_id path)" and "sorted (map entry_seq path)"
    and "lc_thinkingLevel (li_defaults input) = jlit ''off''"
  shows "same_settings (li_defaults input) (deriveEffectiveConfiguration input) (deriveSessionContextState path)"
proof -
  have "entriesBySequence (map snd (entries_map path)) = path"
    using assms(3) by (simp add: entries_map_distinct [OF assms(2)] entriesBySequence_def sorted_sort_id sort_key_id_if_sorted)
  then have "deriveEffectiveConfiguration input = fold entry_configuration path (li_defaults input)"
    by (simp add: deriveEffectiveConfiguration_def assms(1))
  then show ?thesis
    unfolding deriveSessionContextState_def
    by (simp add: fold_same_settings same_settings_def [of _ "li_defaults input"] assms(4))
qed

section \<open>The storage feeds recovery\<close>

text \<open>Which errors a check can throw.\<close>

definition avoids :: "'e \<Rightarrow> 'e + 'a \<Rightarrow> bool" where
  "avoids e m \<longleftrightarrow> m \<noteq> Inl e"

named_theorems avoids_rules

lemma avoids_bind [avoids_rules]: "avoids e m \<Longrightarrow> (\<And>a. avoids e (f a)) \<Longrightarrow> avoids e (try_bind m f)"
  by (cases m) (simp_all add: avoids_def)

lemma avoids_throw [avoids_rules]: "e' \<noteq> e \<Longrightarrow> avoids e (throw_if c e')"
  by (simp add: avoids_def)

lemma avoids_Inr [avoids_rules]: "avoids e (Inr a)"
  by (simp add: avoids_def)

lemma avoids_Inl [avoids_rules]: "e' \<noteq> e \<Longrightarrow> avoids e (Inl e')"
  by (simp add: avoids_def)

lemma avoids_if [avoids_rules]: "(c \<Longrightarrow> avoids e m) \<Longrightarrow> (\<not> c \<Longrightarrow> avoids e m') \<Longrightarrow> avoids e (if c then m else m')"
  by simp

lemma avoids_option [avoids_rules]: "avoids e m \<Longrightarrow> (\<And>a. avoids e (f a)) \<Longrightarrow> avoids e (case x of None \<Rightarrow> m | Some a \<Rightarrow> f a)"
  by (cases x) simp_all

lemma avoids_result [avoids_rules]: "avoids MultipleOpenOperations (validateResultEntry byId i P)"
  unfolding validateResultEntry_def by (intro avoids_rules) simp

lemma avoids_exact [avoids_rules]: "avoids MultipleOpenOperations (validateExactProvisionedEntry deep_equal byId t)"
  unfolding validateExactProvisionedEntry_def by (intro avoids_rules) simp

lemma avoids_provisioned [avoids_rules]: "avoids MultipleOpenOperations (validateProvisionedEntries deep_equal byId ts)"
  by (induction ts) (simp_all add: avoids_rules)

lemma avoids_deferred: "avoids MultipleOpenOperations (validateDeferredHandles es)"
  by (induction es) (auto intro!: avoids_rules)

lemma avoids_attempt [avoids_rules]:
  "avoids MultipleOpenOperations (validateAttemptReason step reason)"
  "avoids MultipleOpenOperations (validateAttemptSequence byId previous a)"
  "avoids MultipleOpenOperations (validateAttemptResult byId a)"
  "avoids MultipleOpenOperations (validateToolStart byId invocations t)"
  unfolding validateAttemptReason_def validateAttemptSequence_def validateAttemptResult_def validateToolStart_def
  by (intro avoids_rules; simp)+

lemma avoids_check_record: "avoids MultipleOpenOperations (check_record deep_equal byId r s)"
  by (cases "rec_body r")
     (auto simp: check_record_def check_body_def check_owner_def validateOperationResult_def Let_def
       intro!: avoids_rules split: intent.splits)

lemma avoids_run: "avoids MultipleOpenOperations (run_machine (check_record deep_equal byId) rs s)"
  by (induction rs arbitrary: s) (simp_all add: avoids_rules avoids_check_record)

lemma single_operation_avoids:
  "length (ls_openOperations input) \<le> 1 \<Longrightarrow> avoids MultipleOpenOperations (validateRecordLog deep_equal input)"
  unfolding validateRecordLog_def Let_def by (simp add: avoids_rules avoids_deferred avoids_run)

text \<open>The storage cannot produce the state that recovery rejects as \<open>multiple_open_operations\<close>: whatever calls the
  storage has served, the open operations that its query hands to recovery are at most one.\<close>

theorem storage_never_has_multiple_open_operations:
  assumes "run_machine (storage_step memory_ops) calls (new_InMemorySessionStorage md) = Inr s"
    and "findOpenOperations_session memory_ops lane (Some (JInt 2)) s = Inr ops"
    and "ls_openOperations input = List.map_filter started_of ops"
  shows "validateRecordLog deep_equal input \<noteq> Inl MultipleOpenOperations"
proof -
  have ok: "memory_ok s" using assms(1) by (rule memory.reachable_inv)
  then have "ops = take_limit (limit_nat (Some (JInt 2))) (rev (open_spec lane (ss_records (ms_state s))))"
    using assms(2) by (simp add: findOpenOperations_session_def memory_ok_def findOpenOperations_eq assertValidLimit_def)
  then have "length ops \<le> 1"
    using ok by (simp add: memory_ok_def one_open_def take_limit_def limit_nat_def min_le_iff_disj)
  moreover have "length (List.map_filter f xs) \<le> length xs" for f :: "lane_record \<Rightarrow> operation_started option" and xs
    by (induction xs) (simp_all add: map_filter_simps split: option.splits)
  ultimately have "length (ls_openOperations input) \<le> 1"
    by (metis assms(3) le_trans)
  then show ?thesis
    using single_operation_avoids by (simp add: avoids_def)
qed

section \<open>A lane in the middle of a tool batch\<close>

definition sample_call :: tool_call where
  "sample_call = \<lparr>call_id = jlit ''c'', call_name = jlit ''read'', call_arguments = [], call_thoughtSignature = None,
     call_namespace = None\<rparr>"

definition sample_usage :: usage where
  "sample_usage = \<lparr>u_input = 0, u_output = 0, u_cacheRead = 0, u_cacheWrite = 0, u_cacheWrite1h = None,
     u_reasoning = None, u_totalTokens = 0,
     u_cost = \<lparr>cost_input = 0, cost_output = 0, cost_cacheRead = 0, cost_cacheWrite = 0, cost_total = 0\<rparr>\<rparr>"

definition sample_assistant :: assistant_message where
  "sample_assistant = \<lparr>am_content = [ToolCall sample_call], am_api = jlit ''x'', am_provider = jlit ''p'', am_model = jlit ''m'',
     am_responseModel = None, am_responseId = None, am_diagnostics = None, am_usage = sample_usage,
     am_stopReason = ToolUseStop, am_deferred = None, am_errorMessage = None, am_rawStopReason = None, am_endTurn = None,
     am_timestamp = 0\<rparr>"

definition sample_own :: entry where
  "sample_own = \<lparr>entry_id = jlit ''m'', entry_body = MessageBody (LlmMessage (AssistantMsg sample_assistant)) False,
     entry_seq = 3, entry_parentId = None, entry_timestamp = 0\<rparr>"

definition sample_steer :: provisioned_entry where
  "sample_steer = \<lparr>entry_id = jlit ''q'', entry_body = CustomBody (jlit ''note'') None\<rparr>"

definition sample_lane :: lane_input where
  "sample_lane = \<lparr>ls_lane = jlit ''main'',
     ls_openOperations = [\<lparr>os_id = jlit ''a'', os_intent = RunIntent [] [] None None\<rparr>],
     ls_records = [sample_record ''a'' 1 (OperationStarted None (RunIntent [] [] None None)),
                   sample_record ''b'' 2 (StepAttempt (jlit ''a'') AssistantStep 1 (jlit ''m'') None),
                   sample_record ''d'' 4 (ToolStarted (jlit ''a'') (jlit ''m'') 0 (jlit ''c'') (jlit ''read'') [] (jlit ''t'') ReplayNever),
                   sample_record ''e'' 5 (QueueEnqueued SteerQ (Some (jlit ''a'')) sample_steer)],
     ls_entries = [sample_own], li_leafId = Some (jlit ''m''), li_ownEntries = [sample_own], li_configurationEntries = [],
     li_defaults = \<lparr>lc_model = (jlit ''p'', jlit ''m''), lc_thinkingLevel = jlit ''off'', lc_activeToolNames = []\<rparr>\<rparr>"

lemmas sample_lane_simps = sample_slice_simps sample_lane_def sample_own_def sample_steer_def sample_assistant_def
  sample_call_def assistant_of_def tool_result_of_def tool_calls_def call_at_def validateToolStart_def map_filter_simps
  validateExactProvisionedEntry_def

lemma sample_lane_accepted: "validateRecordLog (\<lambda>_ _. True) sample_lane = Inr ()"
  by (simp add: sample_lane_simps)

lemma reduceLaneState_open:
  assumes "validateRecordLog deep_equal input = Inr ()" and "ls_openOperations input = [started]"
  obtains reduction where "reduceLaneState deep_equal input = Inr reduction"
    and "la_operation (lr_laneState reduction) = Some (fst (reduce_operation input started))"
proof -
  obtain operation failure where "reduce_operation input started = (operation, failure)"
    by fastforce
  with assms have "\<exists>reduction. reduceLaneState deep_equal input = Inr reduction
      \<and> la_operation (lr_laneState reduction) = Some (fst (reduce_operation input started))"
    by (simp add: reduceLaneState_def Let_def)
  then show thesis
    by (elim exE conjE) (rule that)
qed

lemma sample_lane_reduces:
  obtains reduction operation batch where "reduceLaneState (\<lambda>_ _. True) sample_lane = Inr reduction"
    and "la_operation (lr_laneState reduction) = Some operation" and "lp_toolBatch operation = Some batch"
proof -
  obtain started where started: "ls_openOperations sample_lane = [started]"
    by (simp add: sample_lane_def)
  have own: "entriesBySequence (li_ownEntries sample_lane) = [sample_own]"
    by (simp add: sample_lane_def entriesBySequence_def)
  have "\<exists>batch. deriveToolBatch run rs [sample_own] byId dids = Some batch" for run rs byId dids
    by (simp add: deriveToolBatch_def calls_tools_def assistant_of_def sample_own_def sample_assistant_def tool_calls_def
        map_filter_simps Let_def)
  then obtain batch where "lp_toolBatch (fst (reduce_operation sample_lane started)) = Some batch"
    using reduce_operation_toolBatch [of sample_lane started] own by metis
  then show thesis
    using reduceLaneState_open [OF sample_lane_accepted started] that by metis
qed

lemma reduction_ignores_record_order_witness:
  "reduceLaneState (\<lambda>_ _. True) (sample_lane\<lparr>ls_records := rev (ls_records sample_lane)\<rparr>)
    = reduceLaneState (\<lambda>_ _. True) sample_lane"
  by (rule reduction_ignores_record_order) (simp_all add: sample_lane_def sample_record_def)

lemma resumed_tool_batch_is_sound_witness:
  "\<exists>reduction operation batch. reduceLaneState (\<lambda>_ _. True) sample_lane = Inr reduction
    \<and> la_operation (lr_laneState reduction) = Some operation \<and> lp_toolBatch operation = Some batch
    \<and> map bc_toolCall (tb_calls batch) = [sample_call]"
proof -
  obtain reduction operation batch where r: "reduceLaneState (\<lambda>_ _. True) sample_lane = Inr reduction"
    "la_operation (lr_laneState reduction) = Some operation" "lp_toolBatch operation = Some batch"
    by (rule sample_lane_reduces)
  have own: "\<forall>e \<in> set (li_ownEntries sample_lane). map_of (entries_map (ls_entries sample_lane)) (entry_id e) = Some e"
    by (simp add: sample_lane_def entries_map_def)
  have "map bc_toolCall (tb_calls batch) = [sample_call]"
    using resumed_tool_batch_is_sound [OF r own]
    by (auto simp: sample_lane_def sample_own_def assistant_of_def sample_assistant_def tool_calls_def map_filter_simps)
  with r show ?thesis by (intro exI conjI)
qed

lemma queued_items_are_accounted_for_witness:
  "\<exists>reduction operation. reduceLaneState (\<lambda>_ _. True) sample_lane = Inr reduction
    \<and> la_operation (lr_laneState reduction) = Some operation \<and> sample_steer \<in> set (lp_pendingSteer operation)"
proof -
  obtain reduction operation batch where r: "reduceLaneState (\<lambda>_ _. True) sample_lane = Inr reduction"
    "la_operation (lr_laneState reduction) = Some operation" "lp_toolBatch operation = Some batch"
    by (rule sample_lane_reduces)
  obtain started where "[started] = ls_openOperations sample_lane" "operation = fst (reduce_operation sample_lane started)"
    using reduceLaneState_operation [OF r(1,2)] by metis
  then have "lp_id operation = jlit ''a''"
    by (auto simp: sample_lane_def)
  then have "sample_steer \<in> set (lp_pendingSteer operation)"
    using queued_items_are_accounted_for [OF r(1,2), of sample_steer]
    by (simp add: enqueued_def delivered_def cancelled_def sample_lane_def sample_record_def sample_own_def sample_steer_def jlit_def)
  with r show ?thesis by (intro exI conjI)
qed

lemma recovered_configuration_agrees_with_context_witness:
  "same_settings (li_defaults sample_lane) (deriveEffectiveConfiguration sample_lane) (deriveSessionContextState [sample_own])"
  by (rule recovered_configuration_agrees_with_context) (simp_all add: sample_lane_def)

lemma storage_never_has_multiple_open_operations_witness:
  "validateRecordLog (\<lambda>_ _. True) (sample_lane\<lparr>ls_openOperations := List.map_filter started_of
     (case findOpenOperations_session memory_ops main_lane (Some (JInt 2)) sample_storage of Inr ops \<Rightarrow> ops | Inl _ \<Rightarrow> [])\<rparr>)
   \<noteq> Inl MultipleOpenOperations"
proof -
  have "memory_ok sample_storage" using sample_calls_run by (rule memory.reachable_inv)
  then have "\<exists>ops. findOpenOperations_session memory_ops main_lane (Some (JInt 2)) sample_storage = Inr ops"
    by (simp add: findOpenOperations_session_def memory_ok_def findOpenOperations_eq assertValidLimit_def)
  then show ?thesis
    using storage_never_has_multiple_open_operations [OF sample_calls_run, of main_lane] by force
qed

end
