(* ===== verification/Session_Repo.thy ===== *)
theory Session_Repo
  imports Session_Facade
begin

text \<open>
  The in-memory repository (\<open>InMemorySessionRepo\<close> in
  \<open>packages/agent/src/harness/session/memory.ts\<close>). Storages are objects that the repository and the
  sessions it returns share: they live in a heap, and a session is the address of its storage.
\<close>

record session_repo =
  repo_heap :: "memory_storage list"
  repo_sessions :: "(jstr \<times> nat) list"

definition new_InMemorySessionRepo :: session_repo where
  "new_InMemorySessionRepo = \<lparr>repo_heap = [], repo_sessions = []\<rparr>"

definition requireStorage :: "session_repo \<Rightarrow> jstr \<Rightarrow> session_error + nat" where
  "requireStorage repo i = (case map_of (repo_sessions repo) i of
      None \<Rightarrow> Inl (SessionNotFound i)
    | Some a \<Rightarrow> Inr a)"

definition repo_add :: "jstr \<Rightarrow> memory_storage \<Rightarrow> session_repo \<Rightarrow> nat \<times> session_repo" where
  "repo_add i storage repo = (length (repo_heap repo),
     repo\<lparr>repo_heap := repo_heap repo @ [storage],
          repo_sessions := AList.update i (length (repo_heap repo)) (repo_sessions repo)\<rparr>)"

text \<open>\<open>fresh\<close> is the next \<open>uuidv7()\<close>.\<close>

definition repo_create :: "int \<Rightarrow> jstr \<Rightarrow> jstr option \<Rightarrow> jstr option \<Rightarrow> session_repo \<Rightarrow> session_error + (nat \<times> session_repo)" where
  "repo_create now fresh id_option parent repo =
     (let i = (case id_option of Some i \<Rightarrow> i | None \<Rightarrow> fresh)
      in if map_of (repo_sessions repo) i \<noteq> None then Inl (SessionExists i)
         else Inr (repo_add i (new_InMemorySessionStorage
           \<lparr>sm_id = i, sm_createdAt = now, sm_parentSessionId = parent\<rparr>) repo))"

definition repo_open :: "jstr \<Rightarrow> session_repo \<Rightarrow> session_error + nat" where
  "repo_open i repo = requireStorage repo i"

definition repo_list :: "session_repo \<Rightarrow> session_metadata list" where
  "repo_list repo = map (\<lambda>(_, a). ms_metadata (repo_heap repo ! a)) (repo_sessions repo)"

definition repo_delete :: "jstr \<Rightarrow> session_repo \<Rightarrow> session_repo" where
  "repo_delete i repo = repo\<lparr>repo_sessions := AList.delete i (repo_sessions repo)\<rparr>"

definition repo_fork :: "int \<Rightarrow> jstr \<Rightarrow> jstr \<Rightarrow> fork_options \<Rightarrow> jstr option \<Rightarrow> jstr option \<Rightarrow> session_repo \<Rightarrow>
    session_error + (nat \<times> session_repo)" where
  "repo_fork now fresh source options id_option parent repo =
     try_bind (requireStorage repo source) (\<lambda>a.
       let i = (case id_option of Some i \<Rightarrow> i | None \<Rightarrow> fresh)
       in if map_of (repo_sessions repo) i \<noteq> None then Inl (SessionExists i)
          else try_bind (memory_fork
              \<lparr>sm_id = i, sm_createdAt = now,
               sm_parentSessionId = Some (case parent of Some p \<Rightarrow> p | None \<Rightarrow> source)\<rparr> options (repo_heap repo ! a))
            (\<lambda>storage. Inr (repo_add i storage repo)))"

text \<open>A write through a session, wherever the session came from.\<close>

definition repo_write :: "nat \<Rightarrow> storage_call \<Rightarrow> session_repo \<Rightarrow> session_error + session_repo" where
  "repo_write a c repo =
     try_bind (storage_step memory_ops c (repo_heap repo ! a)) (\<lambda>s. Inr (repo\<lparr>repo_heap := (repo_heap repo)[a := s]\<rparr>))"

datatype repo_call =
    RepoCreate int jstr "jstr option" "jstr option"
  | RepoDelete jstr
  | RepoFork int jstr jstr fork_options "jstr option" "jstr option"
  | RepoWrite nat storage_call

definition repo_step :: "repo_call \<Rightarrow> session_repo \<Rightarrow> session_error + session_repo" where
  "repo_step c repo = (case c of
      RepoCreate now fresh i parent \<Rightarrow> try_bind (repo_create now fresh i parent repo) (\<lambda>(_, r). Inr r)
    | RepoDelete i \<Rightarrow> Inr (repo_delete i repo)
    | RepoFork now fresh source options i parent \<Rightarrow>
        try_bind (repo_fork now fresh source options i parent repo) (\<lambda>(_, r). Inr r)
    | RepoWrite a c \<Rightarrow> repo_write a c repo)"

section \<open>The repository keeps every session well-formed\<close>

definition repo_ok :: "session_repo \<Rightarrow> bool" where
  "repo_ok repo \<longleftrightarrow> (\<forall>s \<in> set (repo_heap repo). memory_ok s)
     \<and> distinct (map fst (repo_sessions repo)) \<and> distinct (map snd (repo_sessions repo))
     \<and> (\<forall>(i, a) \<in> set (repo_sessions repo). a < length (repo_heap repo) \<and> sm_id (ms_metadata (repo_heap repo ! a)) = i)"

lemma requireStorage_ok:
  "repo_ok repo \<Longrightarrow> requireStorage repo i = Inr a \<Longrightarrow> a < length (repo_heap repo) \<and> memory_ok (repo_heap repo ! a)"
  by (auto simp: repo_ok_def requireStorage_def split: option.splits dest!: map_of_SomeD)

lemma repo_add_ok:
  assumes "repo_ok repo" and "memory_ok s" and "sm_id (ms_metadata s) = i" and "map_of (repo_sessions repo) i = None"
  shows "repo_ok (snd (repo_add i s repo))"
proof -
  have "i \<notin> fst ` set (repo_sessions repo)" using assms(4) by (simp add: map_of_eq_None_iff)
  with assms show ?thesis
    by (auto simp: repo_ok_def repo_add_def update_fresh nth_append less_Suc_eq image_iff)
qed

lemma run_memory_mutate:
  "run_machine applyMutation' ms (ms_state s) = Inr t \<Longrightarrow> run_machine memory_mutate ms s = Inr (s\<lparr>ms_state := t\<rparr>)"
proof (induction ms arbitrary: s)
  case Nil
  then show ?case by simp
next
  case (Cons m ms)
  then obtain u where u: "applyMutation' m (ms_state s) = Inr u" "run_machine applyMutation' ms u = Inr t"
    by (auto simp: try_bind_eq_Inr)
  then have "run_machine memory_mutate ms (s\<lparr>ms_state := u\<rparr>) = Inr (s\<lparr>ms_state := u\<rparr>\<lparr>ms_state := t\<rparr>)"
    by (intro Cons.IH) simp
  moreover have "memory_mutate m s = Inr (s\<lparr>ms_state := u\<rparr>)" using u(1) by (simp add: memory_mutate_def)
  ultimately show ?case by simp
qed

text \<open>A fork is made whenever its selection succeeds, and it is well-formed.\<close>

lemma memory_fork_ok:
  assumes ok: "memory_ok s" and f: "memory_fork md options s = Inr s'"
  shows "memory_ok s' \<and> ms_metadata s' = md"
proof -
  from f obtain ms where ms: "createForkMutations (ms_state s) options = Inr ms"
    and run: "run_machine memory_mutate ms (new_InMemorySessionStorage md) = Inr s'"
    by (auto simp: memory_fork_def try_bind_eq_Inr)
  have wf: "wf_state (ms_state s)" using ok by (simp add: memory_ok_def)
  from fork_applies [OF wf ms] obtain t where t: "run_machine applyMutation' ms new_SessionState = Inr t"
    "wf_state t" "ss_records t = []" by blast
  have "run_machine memory_mutate ms (new_InMemorySessionStorage md) = Inr (new_InMemorySessionStorage md\<lparr>ms_state := t\<rparr>)"
    by (rule run_memory_mutate) (simp add: new_InMemorySessionStorage_def t(1))
  with run have "s' = new_InMemorySessionStorage md\<lparr>ms_state := t\<rparr>" by simp
  with t(2,3) show ?thesis
    by (simp add: memory_ok_def one_open_def open_spec_def new_InMemorySessionStorage_def)
qed

lemma storage_step_metadata: "storage_step memory_ops c s = Inr s' \<Longrightarrow> ms_metadata s' = ms_metadata s"
  by (cases c) (auto simp: storage_step_def memory_createLane_def memory_moveLane_def memory_appendEntry_def
      memory_appendRecord_def memory_setName_def memory_setLabel_def memory_mutate_def try_bind_eq_Inr Let_def)

lemma repo_step_ok: "repo_ok repo \<Longrightarrow> repo_step c repo = Inr repo' \<Longrightarrow> repo_ok repo'"
proof (cases c)
  case (RepoCreate now fresh i parent)
  assume ok: "repo_ok repo" and "repo_step c repo = Inr repo'"
  then obtain j where "map_of (repo_sessions repo) j = None"
    "repo' = snd (repo_add j (new_InMemorySessionStorage \<lparr>sm_id = j, sm_createdAt = now, sm_parentSessionId = parent\<rparr>) repo)"
    by (auto simp: RepoCreate repo_step_def repo_create_def try_bind_eq_Inr Let_def split: if_splits)
  then show ?thesis
    using repo_add_ok [OF ok memory_ok_new, of "\<lparr>sm_id = j, sm_createdAt = now, sm_parentSessionId = parent\<rparr>" j]
    by (simp add: new_InMemorySessionStorage_def)
next
  case (RepoDelete i)
  assume ok: "repo_ok repo" and "repo_step c repo = Inr repo'"
  then have r: "repo_heap repo' = repo_heap repo" "repo_sessions repo' = filter (\<lambda>(k, _). i \<noteq> k) (repo_sessions repo)"
    by (auto simp: RepoDelete repo_step_def repo_delete_def AList.delete_eq)
  with ok show ?thesis by (auto simp: repo_ok_def distinct_map_filter)
next
  case (RepoFork now fresh source options i parent)
  assume ok: "repo_ok repo" and "repo_step c repo = Inr repo'"
  then obtain a j p s where a: "requireStorage repo source = Inr a" and j: "map_of (repo_sessions repo) j = None"
    and s: "memory_fork \<lparr>sm_id = j, sm_createdAt = now, sm_parentSessionId = Some p\<rparr> options (repo_heap repo ! a) = Inr s"
    and r: "repo' = snd (repo_add j s repo)"
    by (auto simp: RepoFork repo_step_def repo_fork_def try_bind_eq_Inr Let_def split: if_splits)
  from memory_fork_ok [OF _ s] requireStorage_ok [OF ok a] have "memory_ok s" "sm_id (ms_metadata s) = j" by simp_all
  then show ?thesis using repo_add_ok [OF ok _ _ j] r by simp
next
  case (RepoWrite a c')
  assume ok: "repo_ok repo" and "repo_step c repo = Inr repo'"
  then obtain s where s: "storage_step memory_ops c' (repo_heap repo ! a) = Inr s"
    and r: "repo' = repo\<lparr>repo_heap := (repo_heap repo)[a := s]\<rparr>"
    by (auto simp: RepoWrite repo_step_def repo_write_def try_bind_eq_Inr)
  show ?thesis
  proof (cases "a < length (repo_heap repo)")
    case True
    then have "memory_ok (repo_heap repo ! a)" using ok by (simp add: repo_ok_def)
    moreover have "ms_metadata ((repo_heap repo)[a := s] ! b) = ms_metadata (repo_heap repo ! b)" for b
      using True storage_step_metadata [OF s] by (cases "b = a") simp_all
    ultimately show ?thesis
      using memory_step_ok [OF _ s] ok r by (auto simp: repo_ok_def dest: set_update_subset_insert [THEN subsetD])
  next
    case False
    with ok r show ?thesis by (simp add: list_update_beyond)
  qed
qed

interpretation repo: guarded_machine repo_step new_InMemorySessionRepo repo_ok
  by unfold_locales (simp add: repo_ok_def new_InMemorySessionRepo_def, rule repo_step_ok)

text \<open>Whatever sessions are created, forked, deleted and written to, in any order and through any of the
  sessions handed out, every storage of the repository is well-formed with at most one open
  operation in a lane, every session id names one storage whose metadata carries that id, and no
  two ids share a storage.\<close>

theorem repository_well_formed:
  assumes "run_machine repo_step calls new_InMemorySessionRepo = Inr repo"
  shows "(\<forall>s \<in> set (repo_heap repo). wf_state (ms_state s) \<and> one_open (ms_state s))
    \<and> distinct (map fst (repo_sessions repo)) \<and> distinct (map snd (repo_sessions repo))
    \<and> (\<forall>(i, a) \<in> set (repo_sessions repo). a < length (repo_heap repo) \<and> sm_id (ms_metadata (repo_heap repo ! a)) = i)"
  using repo.reachable_inv [OF assms] by (auto simp: repo_ok_def memory_ok_def)

lemma repository_well_formed_witness:
  "wf_state (ms_state (new_InMemorySessionStorage \<lparr>sm_id = jlit ''x'', sm_createdAt = 5, sm_parentSessionId = None\<rparr>))"
proof -
  have "run_machine repo_step [RepoCreate 5 (jlit ''x'') None None] new_InMemorySessionRepo
      = Inr (snd (repo_add (jlit ''x'') (new_InMemorySessionStorage \<lparr>sm_id = jlit ''x'', sm_createdAt = 5, sm_parentSessionId = None\<rparr>)
          new_InMemorySessionRepo))"
    by (simp add: repo_step_def repo_create_def repo_add_def new_InMemorySessionRepo_def Let_def)
  from repository_well_formed [OF this] show ?thesis
    by (simp add: repo_add_def new_InMemorySessionRepo_def)
qed

end
