(* ===== verification/Truncate.thy ===== *)
theory Truncate
  imports Messages
begin

text \<open>
  Truncation of tool output (\<open>packages/agent/src/harness/utils/truncate.ts\<close>). Limits are natural
  numbers here; \<open>runtime\<close> says whether the host offers \<open>Buffer.byteLength\<close>, which is the length of
  the UTF-8 encoding.
\<close>

section \<open>Byte lengths\<close>

definition DEFAULT_MAX_LINES :: nat where "DEFAULT_MAX_LINES = 2000"
definition DEFAULT_MAX_BYTES :: nat where "DEFAULT_MAX_BYTES = 50 * 1024"
definition GREP_MAX_LINE_LENGTH :: nat where "GREP_MAX_LINE_LENGTH = 500"

fun count_bytes :: "jstr \<Rightarrow> nat" where
  "count_bytes [] = 0"
| "count_bytes [u] = (if unat u \<le> 0x7F then 1 else if unat u \<le> 0x7FF then 2 else 3)"
| "count_bytes (u # v # s) =
     (if unat u \<le> 0x7F then 1 + count_bytes (v # s)
      else if unat u \<le> 0x7FF then 2 + count_bytes (v # s)
      else if is_high u \<and> is_low v then 4 + count_bytes s
      else 3 + count_bytes (v # s))"

definition utf8ByteLength :: "bool \<Rightarrow> jstr \<Rightarrow> nat" where
  "utf8ByteLength runtime content =
     (if runtime then length (utf8_encode content)
      else let firstNonAscii = length (takeWhile (\<lambda>u. unat u \<le> 0x7F) content)
           in if firstNonAscii = length content then length content
              else firstNonAscii + count_bytes (drop firstNonAscii content))"

fun replaceUnpairedSurrogates :: "jstr \<Rightarrow> jstr" where
  "replaceUnpairedSurrogates [] = []"
| "replaceUnpairedSurrogates [u] = (if is_high u \<or> is_low u then [0xFFFD] else [u])"
| "replaceUnpairedSurrogates (u # v # s) =
     (if is_high u then
        if is_low v then u # v # replaceUnpairedSurrogates s
        else 0xFFFD # replaceUnpairedSurrogates (v # s)
      else if is_low u then 0xFFFD # replaceUnpairedSurrogates (v # s)
      else u # replaceUnpairedSurrogates (v # s))"

section \<open>Lines\<close>

text \<open>\<open>split\<close> and \<open>join\<close> at a single code unit.\<close>

fun split_at :: "'a \<Rightarrow> 'a list \<Rightarrow> 'a list list" where
  "split_at c [] = [[]]"
| "split_at c (x # xs) = (if x = c then [] # split_at c xs
     else case split_at c xs of [] \<Rightarrow> [[x]] | l # ls \<Rightarrow> (x # l) # ls)"

fun join_with :: "'a \<Rightarrow> 'a list list \<Rightarrow> 'a list" where
  "join_with c [] = []"
| "join_with c [l] = l"
| "join_with c (l # l' # ls) = l @ c # join_with c (l' # ls)"

definition splitLinesForCounting :: "jstr \<Rightarrow> jstr list" where
  "splitLinesForCounting content =
     (if length content = 0 then []
      else let ls = split_at 10 content in if last content = 10 then butlast ls else ls)"

section \<open>Sizes\<close>

text \<open>\<open>toFixed(1)\<close> of a quotient by a power of two, which is exact: round half up to tenths.\<close>

definition to_fixed1 :: "nat \<Rightarrow> nat \<Rightarrow> jstr" where
  "to_fixed1 n d = (let t = (n * 10 * 2 + d) div (2 * d) in show_nat (t div 10) @ jlit ''.'' @ show_nat (t mod 10))"

definition formatSize :: "nat \<Rightarrow> jstr" where
  "formatSize n =
     (if n < 1024 then show_nat n @ jlit ''B''
      else if n < 1024 * 1024 then to_fixed1 n 1024 @ jlit ''KB''
      else to_fixed1 n (1024 * 1024) @ jlit ''MB'')"

section \<open>Truncation\<close>

datatype truncated_by = ByLines | ByBytes

record truncation_result =
  tr_text :: jstr
  tr_truncated :: bool
  tr_truncatedBy :: "truncated_by option"
  tr_totalLines :: nat
  tr_totalBytes :: nat
  tr_outputLines :: nat
  tr_outputBytes :: nat
  tr_lastLinePartial :: bool
  tr_firstLineExceedsLimit :: bool
  tr_maxLines :: nat
  tr_maxBytes :: nat

record truncation_options =
  to_maxLines :: "nat option"
  to_maxBytes :: "nat option"

definition max_lines :: "truncation_options \<Rightarrow> nat" where
  "max_lines options = (case to_maxLines options of None \<Rightarrow> DEFAULT_MAX_LINES | Some n \<Rightarrow> n)"

definition max_bytes :: "truncation_options \<Rightarrow> nat" where
  "max_bytes options = (case to_maxBytes options of None \<Rightarrow> DEFAULT_MAX_BYTES | Some n \<Rightarrow> n)"

fun collect_head :: "bool \<Rightarrow> nat \<Rightarrow> nat \<Rightarrow> jstr list \<Rightarrow> nat \<Rightarrow> jstr list \<Rightarrow> nat \<Rightarrow> jstr list \<times> nat \<times> truncated_by" where
  "collect_head runtime maxLines maxBytes [] i out n = (out, n, ByLines)"
| "collect_head runtime maxLines maxBytes (line # rest) i out n =
     (if i \<ge> maxLines then (out, n, ByLines)
      else let lineBytes = utf8ByteLength runtime line + (if i > 0 then 1 else 0)
           in if n + lineBytes > maxBytes then (out, n, ByBytes)
              else collect_head runtime maxLines maxBytes rest (i + 1) (out @ [line]) (n + lineBytes))"

definition truncateHead :: "bool \<Rightarrow> jstr \<Rightarrow> truncation_options \<Rightarrow> truncation_result" where
  "truncateHead runtime content options =
     (let maxLines = max_lines options; maxBytes = max_bytes options;
          totalBytes = utf8ByteLength runtime content;
          ls = splitLinesForCounting content;
          totalLines = length ls
      in if totalLines \<le> maxLines \<and> totalBytes \<le> maxBytes
         then \<lparr>tr_text = content, tr_truncated = False, tr_truncatedBy = None, tr_totalLines = totalLines,
               tr_totalBytes = totalBytes, tr_outputLines = totalLines, tr_outputBytes = totalBytes,
               tr_lastLinePartial = False, tr_firstLineExceedsLimit = False, tr_maxLines = maxLines, tr_maxBytes = maxBytes\<rparr>
         else if utf8ByteLength runtime (hd ls) > maxBytes
         then \<lparr>tr_text = [], tr_truncated = True, tr_truncatedBy = Some ByBytes, tr_totalLines = totalLines,
               tr_totalBytes = totalBytes, tr_outputLines = 0, tr_outputBytes = 0,
               tr_lastLinePartial = False, tr_firstLineExceedsLimit = True, tr_maxLines = maxLines, tr_maxBytes = maxBytes\<rparr>
         else let (out, n, by) = collect_head runtime maxLines maxBytes ls 0 [] 0;
                  by = (if length out \<ge> maxLines \<and> n \<le> maxBytes then ByLines else by);
                  outputContent = join_with 10 out
              in \<lparr>tr_text = outputContent, tr_truncated = True, tr_truncatedBy = Some by, tr_totalLines = totalLines,
                  tr_totalBytes = totalBytes, tr_outputLines = length out,
                  tr_outputBytes = utf8ByteLength runtime outputContent,
                  tr_lastLinePartial = False, tr_firstLineExceedsLimit = False, tr_maxLines = maxLines, tr_maxBytes = maxBytes\<rparr>)"

text \<open>The character that ends before index \<open>i\<close>: its start, its bytes, and whether it is an unpaired surrogate.\<close>

definition character_before :: "jstr \<Rightarrow> nat \<Rightarrow> nat \<times> nat \<times> bool" where
  "character_before s i =
     (let c = i - 1; code = s ! c
      in if is_low code \<and> c > 0 then
           if is_high (s ! (c - 1)) then (c - 1, 4, False) else (c, 3, True)
         else if is_high code \<or> is_low code then (c, 3, True)
         else (c, if unat code \<le> 0x7F then 1 else if unat code \<le> 0x7FF then 2 else 3, False))"

lemma character_before_less: "i > 0 \<Longrightarrow> character_before s i = (c, b, unpaired) \<Longrightarrow> c < i"
  by (auto simp: character_before_def Let_def split: if_splits)

function take_end :: "jstr \<Rightarrow> nat \<Rightarrow> nat \<Rightarrow> nat \<Rightarrow> nat \<Rightarrow> bool \<Rightarrow> nat \<times> bool" where
  "take_end s maxBytes i n start needsReplacement =
     (if i = 0 then (start, needsReplacement)
      else case character_before s i of (c, b, unpaired) \<Rightarrow>
        if n + b > maxBytes then (start, needsReplacement)
        else take_end s maxBytes c (n + b) c (needsReplacement \<or> unpaired))"
  by pat_completeness auto
termination
  by (relation "measure (\<lambda>(s, maxBytes, i, n, start, needsReplacement). i)")
     (auto dest: character_before_less [OF _ sym])

declare take_end.simps [simp del]

definition truncateStringToBytesFromEnd :: "jstr \<Rightarrow> nat \<Rightarrow> jstr" where
  "truncateStringToBytesFromEnd s maxBytes =
     (if maxBytes \<le> 0 then []
      else case take_end s maxBytes (length s) 0 (length s) False of (start, needsReplacement) \<Rightarrow>
        let output = drop start s in if needsReplacement then replaceUnpairedSurrogates output else output)"

text \<open>The lines from the last to the first. \<open>out\<close> is filled from its front.\<close>

fun collect_tail :: "bool \<Rightarrow> nat \<Rightarrow> nat \<Rightarrow> jstr list \<Rightarrow> jstr list \<Rightarrow> nat \<Rightarrow> jstr list \<times> nat \<times> truncated_by \<times> bool" where
  "collect_tail runtime maxLines maxBytes [] out n = (out, n, ByLines, False)"
| "collect_tail runtime maxLines maxBytes (line # preceding) out n =
     (if length out \<ge> maxLines then (out, n, ByLines, False)
      else let lineBytes = utf8ByteLength runtime line + (if length out > 0 then 1 else 0)
           in if n + lineBytes > maxBytes
              then if length out = 0
                   then let truncatedLine = truncateStringToBytesFromEnd line maxBytes
                        in ([truncatedLine], utf8ByteLength runtime truncatedLine, ByBytes, True)
                   else (out, n, ByBytes, False)
              else collect_tail runtime maxLines maxBytes preceding (line # out) (n + lineBytes))"

definition truncateTail :: "bool \<Rightarrow> jstr \<Rightarrow> truncation_options \<Rightarrow> truncation_result" where
  "truncateTail runtime content options =
     (let maxLines = max_lines options; maxBytes = max_bytes options;
          totalBytes = utf8ByteLength runtime content;
          ls = splitLinesForCounting content;
          totalLines = length ls
      in if totalLines \<le> maxLines \<and> totalBytes \<le> maxBytes
         then \<lparr>tr_text = content, tr_truncated = False, tr_truncatedBy = None, tr_totalLines = totalLines,
               tr_totalBytes = totalBytes, tr_outputLines = totalLines, tr_outputBytes = totalBytes,
               tr_lastLinePartial = False, tr_firstLineExceedsLimit = False, tr_maxLines = maxLines, tr_maxBytes = maxBytes\<rparr>
         else let (out, n, by, partial) = collect_tail runtime maxLines maxBytes (rev ls) [] 0;
                  by = (if length out \<ge> maxLines \<and> n \<le> maxBytes then ByLines else by);
                  outputContent = join_with 10 out
              in \<lparr>tr_text = outputContent, tr_truncated = True, tr_truncatedBy = Some by, tr_totalLines = totalLines,
                  tr_totalBytes = totalBytes, tr_outputLines = length out,
                  tr_outputBytes = utf8ByteLength runtime outputContent,
                  tr_lastLinePartial = partial, tr_firstLineExceedsLimit = False, tr_maxLines = maxLines, tr_maxBytes = maxBytes\<rparr>)"

definition truncateLine :: "jstr \<Rightarrow> nat option \<Rightarrow> jstr \<times> bool" where
  "truncateLine line limit =
     (let maxChars = (case limit of None \<Rightarrow> GREP_MAX_LINE_LENGTH | Some n \<Rightarrow> n)
      in if length line \<le> maxChars then (line, False)
         else (take maxChars line @ jlit ''... [truncated]'', True))"

section \<open>Byte lengths agree\<close>

lemma length_scalar_bytes:
  "length (scalar_bytes c) = (if c < 0x80 then 1 else if c < 0x800 then 2 else if c < 0x10000 then 3 else 4)"
  by (simp add: scalar_bytes_def)

lemma pair_scalar_large: "pair_scalar h l \<ge> 0x10000"
  by (simp add: pair_scalar_def)

lemma surrogate_large: "is_high u \<Longrightarrow> unat u > 0x7FF" "is_low u \<Longrightarrow> unat u > 0x7FF"
  by (simp_all add: is_high_def is_low_def)

lemma count_bytes_encode: "length (utf8_encode s) = count_bytes s"
proof -
  have one: "length (scalar_bytes (if is_high u \<or> is_low u then 0xFFFD else unat u))
      = (if unat u \<le> 0x7F then 1 else if unat u \<le> 0x7FF then 2 else 3)" for u
    using surrogate_large [of u] unat_u16_less [of u] by (auto simp: length_scalar_bytes)
  have "length (concat (map scalar_bytes (scalars s))) = count_bytes s"
  proof (induction s rule: scalars.induct)
    case (3 u v s)
    then show ?case
    proof (cases "is_high u \<and> is_low v")
      case True
      then show ?thesis
        using 3 surrogate_large(1) [of u] pair_scalar_large [of u v] by (simp add: length_scalar_bytes)
    next
      case False
      then show ?thesis
        using 3 one [of u] by auto
    qed
  qed (simp_all add: one)
  then show ?thesis by (simp add: utf8_encode_def)
qed

lemma count_bytes_Cons_ascii: "unat u \<le> 0x7F \<Longrightarrow> count_bytes (u # s) = 1 + count_bytes s"
  by (cases s) simp_all

lemma count_bytes_ascii_append:
  "\<forall>u \<in> set xs. unat u \<le> 0x7F \<Longrightarrow> count_bytes (xs @ ys) = length xs + count_bytes ys"
  by (induction xs) (simp_all add: count_bytes_Cons_ascii)

lemma utf8ByteLength_eq: "utf8ByteLength runtime s = count_bytes s"
proof -
  let ?p = "takeWhile (\<lambda>u. unat u \<le> 0x7F) s"
  have "drop (length ?p) s = dropWhile (\<lambda>u. unat u \<le> 0x7F) s"
    by (simp add: dropWhile_eq_drop)
  then have "count_bytes s = length ?p + count_bytes (drop (length ?p) s)"
    using count_bytes_ascii_append [of ?p "drop (length ?p) s"] set_takeWhileD [of _ _ s]
    by (metis takeWhile_dropWhile_id)
  then show ?thesis
    by (auto simp: utf8ByteLength_def count_bytes_encode Let_def)
qed

lemma replaceUnpairedSurrogates_eq: "replaceUnpairedSurrogates s = to_well_formed s"
  by (induction s rule: replaceUnpairedSurrogates.induct)
     (auto simp: to_well_formed_def scalar_units_replacement scalar_units_pair)

lemma scalars_to_well_formed: "count_bytes (to_well_formed s) = count_bytes s"
proof -
  have cons: "count_bytes (w # s) = (if unat w \<le> 0x7F then 1 else if unat w \<le> 0x7FF then 2 else 3) + count_bytes s"
    if "\<not> is_high w" for w s
    using that by (cases s) auto
  have "count_bytes (replaceUnpairedSurrogates s) = count_bytes s"
    by (induction s rule: replaceUnpairedSurrogates.induct)
       (auto simp: cons is_high_def is_low_def)
  then show ?thesis by (simp add: replaceUnpairedSurrogates_eq)
qed

lemma count_bytes_newline: "count_bytes (xs @ 10 # ys) = count_bytes xs + 1 + count_bytes ys"
proof (induction xs rule: count_bytes.induct)
  case 1
  then show ?case by (simp add: count_bytes_Cons_ascii)
next
  case (2 u)
  then show ?case by (auto simp: count_bytes_Cons_ascii is_low_def)
next
  case (3 u v s)
  then show ?case by auto
qed

section \<open>Lines\<close>

lemma split_at_nonempty [simp]: "split_at c xs \<noteq> []"
  by (induction xs) (auto split: list.splits)

lemma join_with_Cons_line: "join_with c ((x # l) # ls) = x # join_with c (l # ls)"
  by (cases ls) simp_all

lemma join_with_Nil_line: "ls \<noteq> [] \<Longrightarrow> join_with c ([] # ls) = c # join_with c ls"
  by (cases ls) simp_all

lemma join_split_at: "join_with c (split_at c xs) = xs"
  by (induction xs) (auto simp: join_with_Cons_line join_with_Nil_line split: list.splits)

lemma split_at_clean: "l \<in> set (split_at c xs) \<Longrightarrow> c \<notin> set l"
  by (induction xs arbitrary: l) (auto split: list.splits if_splits)

definition joined_bytes :: "jstr list \<Rightarrow> nat" where
  "joined_bytes ls = sum_list (map count_bytes ls) + (length ls - 1)"

lemma count_bytes_join: "count_bytes (join_with 10 ls) = joined_bytes ls"
  by (induction ls rule: induct_list012) (simp_all add: joined_bytes_def count_bytes_newline)

lemma joined_bytes_snoc:
  "joined_bytes (ls @ [l]) = joined_bytes ls + (count_bytes l + (if length ls > 0 then 1 else 0))"
  by (cases ls) (simp_all add: joined_bytes_def)

lemma joined_bytes_Cons:
  "joined_bytes (l # ls) = joined_bytes ls + (count_bytes l + (if length ls > 0 then 1 else 0))"
  by (cases ls) (simp_all add: joined_bytes_def)

lemma joined_bytes_Nil [simp]: "joined_bytes [] = 0"
  by (simp add: joined_bytes_def)

text \<open>The counted lines make up the content, except for a final newline.\<close>

lemma split_at_empty [simp]: "split_at c xs = [[]] \<longleftrightarrow> xs = []"
  by (metis join_split_at join_with.simps(2) split_at.simps(1))

lemma last_split_at: "last (split_at c xs) = [] \<longleftrightarrow> xs = [] \<or> last xs = c"
  by (induction xs) (auto split: list.splits)

lemma join_with_snoc: "ls \<noteq> [] \<Longrightarrow> join_with c (ls @ [l]) = join_with c ls @ c # l"
  by (induction ls rule: induct_list012) simp_all

lemma splitLines_content:
  obtains ending where "content = join_with 10 (splitLinesForCounting content) @ ending" and "ending = [] \<or> ending = [10]"
proof (cases "content \<noteq> [] \<and> last content = 10")
  case False
  then show thesis
    using that [of "[]"] by (auto simp: splitLinesForCounting_def join_split_at Let_def)
next
  case True
  let ?ls = "split_at 10 content"
  have ls: "?ls = butlast ?ls @ [[]]"
    using True last_split_at [of 10 content] by (metis append_butlast_last_id split_at_nonempty)
  show thesis
  proof (cases "butlast ?ls = []")
    case True
    then show thesis
      using ls join_split_at [of 10 content] \<open>content \<noteq> [] \<and> last content = 10\<close> by (metis append_Nil join_with.simps(2))
  next
    case False
    then have "content = join_with 10 (butlast ?ls) @ [10]"
      using ls join_split_at [of 10 content] join_with_snoc by metis
    then show thesis
      using that [of "[10]"] True by (simp add: splitLinesForCounting_def Let_def)
  qed
qed

lemma splitLines_empty [simp]: "splitLinesForCounting content = [] \<longleftrightarrow> content = []"
proof
  assume none: "splitLinesForCounting content = []"
  obtain ending where "content = join_with 10 (splitLinesForCounting content) @ ending" "ending = [] \<or> ending = [10]"
    by (rule splitLines_content)
  with none have "content = [] \<or> content = [10]" by simp
  with none show "content = []" by (auto simp: splitLinesForCounting_def Let_def)
qed (simp add: splitLinesForCounting_def)

lemma splitLines_Nil [simp]: "splitLinesForCounting [] = []"
  by simp

lemma join_with_append:
  "as \<noteq> [] \<Longrightarrow> bs \<noteq> [] \<Longrightarrow> join_with c (as @ bs) = join_with c as @ c # join_with c bs"
  by (induction as rule: induct_list012) (simp_all add: join_with_Cons_line, cases bs, simp_all)

lemma join_take_prefix: "\<exists>rest. join_with c ls = join_with c (take k ls) @ rest"
  by (cases "take k ls = [] \<or> drop k ls = []")
     (auto simp: join_with_append [of "take k ls" "drop k ls" c, simplified])

lemma join_drop_suffix: "\<exists>before. join_with c ls = before @ join_with c (drop k ls)"
  by (cases "take k ls = [] \<or> drop k ls = []")
     (auto simp: join_with_append [of "take k ls" "drop k ls" c, simplified])

section \<open>The loops\<close>

lemma collect_head_spec:
  assumes "collect_head runtime maxLines maxBytes ls (length out) out (joined_bytes out) = (out', n, by)"
    and "joined_bytes out \<le> maxBytes" and "length out \<le> maxLines"
  shows "\<exists>k. out' = out @ take k ls \<and> k \<le> length ls \<and> n = joined_bytes out' \<and> n \<le> maxBytes \<and> length out' \<le> maxLines
    \<and> (k < length ls \<longrightarrow> length out' = maxLines \<or> by = ByBytes \<and> joined_bytes (out' @ [ls ! k]) > maxBytes)"
  using assms
proof (induction ls arbitrary: out)
  case Nil
  then show ?case by auto
next
  case (Cons l ls)
  show ?case
  proof (cases "length out \<ge> maxLines \<or> joined_bytes (out @ [l]) > maxBytes")
    case True
    then show ?thesis
      using Cons.prems by (intro exI [of _ 0])
        (auto simp: utf8ByteLength_eq joined_bytes_snoc Let_def split: if_splits)
  next
    case False
    have "collect_head runtime maxLines maxBytes ls (length (out @ [l])) (out @ [l]) (joined_bytes (out @ [l])) = (out', n, by)"
      using Cons.prems(1) False by (simp add: utf8ByteLength_eq joined_bytes_snoc Let_def not_le not_less split: if_splits)
    moreover have "joined_bytes (out @ [l]) \<le> maxBytes" "length (out @ [l]) \<le> maxLines"
      using False by simp_all
    ultimately obtain k where "out' = (out @ [l]) @ take k ls" "k \<le> length ls" "n = joined_bytes out'"
      "n \<le> maxBytes" "length out' \<le> maxLines"
      "k < length ls \<longrightarrow> length out' = maxLines \<or> by = ByBytes \<and> joined_bytes (out' @ [ls ! k]) > maxBytes"
      using Cons.IH [of "out @ [l]"] by blast
    then show ?thesis
      by (intro exI [of _ "Suc k"]) auto
  qed
qed

end
