(* ===== verification/Truncate_Facts.thy ===== *)
theory Truncate_Facts
  imports Truncate
begin

text \<open>What the truncation functions keep and what they promise about it.\<close>

section \<open>The end of a line\<close>

text \<open>Index \<open>i\<close> does not cut a surrogate pair.\<close>

definition boundary :: "jstr \<Rightarrow> nat \<Rightarrow> bool" where
  "boundary s i \<longleftrightarrow> i \<le> length s \<and> (0 < i \<and> i < length s \<longrightarrow> \<not> (is_high (s ! (i - 1)) \<and> is_low (s ! i)))"

lemma count_bytes_single:
  assumes "\<not> is_high u \<or> s = [] \<or> \<not> is_low (hd s)"
  shows "count_bytes (u # s) = (if unat u \<le> 0x7F then 1 else if unat u \<le> 0x7FF then 2 else 3) + count_bytes s"
  using assms by (cases s) auto

lemma count_bytes_pair: "is_high h \<Longrightarrow> is_low l \<Longrightarrow> count_bytes (h # l # s) = 4 + count_bytes s"
  using surrogate_large(1) [of h] by simp

lemma well_formed_pair: "is_high h \<Longrightarrow> is_low l \<Longrightarrow> well_formed (h # l # s) = well_formed s"
  by simp

lemma character_before_spec:
  assumes "boundary s i" and "0 < i" and "character_before s i = (c, b, unpaired)"
  shows "boundary s c \<and> count_bytes (drop c s) = b + count_bytes (drop i s)
    \<and> (well_formed (drop i s) \<and> \<not> unpaired \<longrightarrow> well_formed (drop c s))"
proof -
  from assms(1,2) obtain j where i: "i = Suc j" "j < length s"
    by (cases i) (auto simp: boundary_def)
  have tl: "drop j s = s ! j # drop i s"
    using i by (simp add: Cons_nth_drop_Suc)
  have next_char: "drop i s = [] \<or> \<not> (is_high (s ! j) \<and> is_low (hd (drop i s)))"
    using assms(1) i by (auto simp: boundary_def hd_drop_conv_nth)
  show ?thesis
  proof (cases "is_low (s ! j) \<and> j > 0 \<and> is_high (s ! (j - 1))")
    case True
    then obtain k where k: "j = Suc k" by (cases j) auto
    with True i have "drop k s = s ! k # s ! j # drop i s"
      by (metis Cons_nth_drop_Suc Suc_lessD)
    moreover have "c = k" "b = 4" "\<not> unpaired"
      using assms(3) True i k by (auto simp: character_before_def Let_def)
    moreover have "boundary s k"
      using True i k not_low_high [of "s ! k"] by (auto simp: boundary_def)
    ultimately show ?thesis
      using True k by (simp add: count_bytes_pair well_formed_pair del: count_bytes.simps well_formed.simps)
  next
    case False
    then have c: "c = j" and b: "b = (if unat (s ! j) \<le> 0x7F then 1 else if unat (s ! j) \<le> 0x7FF then 2 else 3)"
      and u: "unpaired \<longleftrightarrow> is_high (s ! j) \<or> is_low (s ! j)"
      using assms(3) i surrogate_large [of "s ! j"] by (auto simp: character_before_def Let_def split: if_splits)
    have "boundary s j"
      using False i by (auto simp: boundary_def)
    moreover have "count_bytes (drop j s) = b + count_bytes (drop i s)"
      using next_char b unfolding tl by (subst count_bytes_single) auto
    ultimately show ?thesis
      using u by (simp add: c tl well_formed_Cons)
  qed
qed

lemma take_end_spec:
  assumes "boundary s i" and "n = count_bytes (drop i s)" and "n \<le> maxBytes"
    and "\<not> needs \<longrightarrow> well_formed (drop i s)" and "take_end s maxBytes i n i needs = (start, needs')"
  shows "boundary s start \<and> count_bytes (drop start s) \<le> maxBytes \<and> (\<not> needs' \<longrightarrow> well_formed (drop start s))
    \<and> (start = 0 \<or> count_bytes (drop (fst (character_before s start)) s) > maxBytes)"
  using assms
proof (induction i arbitrary: n needs rule: less_induct)
  case (less i)
  show ?case
  proof (cases "i = 0")
    case True
    then have "start = 0 \<and> needs' = needs"
      using less.prems(5) by (simp add: take_end.simps [of s maxBytes 0 n 0 needs])
    then show ?thesis
      using less.prems True by simp
  next
    case False
    obtain c b unpaired where cb: "character_before s i = (c, b, unpaired)"
      by (cases "character_before s i") auto
    note spec = character_before_spec [OF less.prems(1) _ cb]
    show ?thesis
    proof (cases "n + b > maxBytes")
      case True
      then have "start = i \<and> needs' = needs"
        using less.prems(5) False cb by (simp add: take_end.simps [of s maxBytes i n i needs])
      then show ?thesis
        using less.prems True False cb spec by (simp add: add.commute)
    next
      case fits: False
      have "take_end s maxBytes c (n + b) c (needs \<or> unpaired) = (start, needs')"
        using less.prems(5) False fits cb by (simp add: take_end.simps [of s maxBytes i n i needs])
      then show ?thesis
        using less.IH [of c "n + b" "needs \<or> unpaired"] spec less.prems(2,4) False fits
          character_before_less [OF _ cb] by (simp add: add.commute)
    qed
  qed
qed

lemma truncate_end_spec:
  assumes "maxBytes > 0"
  obtains start where "truncateStringToBytesFromEnd s maxBytes = to_well_formed (drop start s)"
    and "count_bytes (drop start s) \<le> maxBytes" and "boundary s start"
    and "start = 0 \<or> count_bytes (drop (fst (character_before s start)) s) > maxBytes"
proof -
  obtain start needs where r: "take_end s maxBytes (length s) 0 (length s) False = (start, needs)"
    by fastforce
  have "boundary s start \<and> count_bytes (drop start s) \<le> maxBytes \<and> (\<not> needs \<longrightarrow> well_formed (drop start s))
    \<and> (start = 0 \<or> count_bytes (drop (fst (character_before s start)) s) > maxBytes)"
    by (rule take_end_spec [OF _ _ _ _ r]) (simp_all add: boundary_def)
  moreover from this have "truncateStringToBytesFromEnd s maxBytes = to_well_formed (drop start s)"
    using assms r
    by (simp add: truncateStringToBytesFromEnd_def replaceUnpairedSurrogates_eq to_well_formed_id Let_def)
  ultimately show thesis
    using that by blast
qed

section \<open>Lines from the end\<close>

lemma collect_tail_spec:
  assumes "collect_tail runtime maxLines maxBytes (rev ls) out (joined_bytes out) = (out', n, by, partial)"
    and "joined_bytes out \<le> maxBytes" and "length out \<le> maxLines"
  shows "if partial
    then \<exists>l ls'. out = [] \<and> ls = ls' @ [l] \<and> out' = [truncateStringToBytesFromEnd l maxBytes] \<and> maxLines > 0 \<and> by = ByBytes
      \<and> count_bytes l > maxBytes
    else \<exists>k \<le> length ls. out' = drop k ls @ out \<and> n = joined_bytes out' \<and> n \<le> maxBytes \<and> length out' \<le> maxLines
      \<and> (k > 0 \<longrightarrow> length out' = maxLines \<or> by = ByBytes \<and> joined_bytes (ls ! (k - 1) # out') > maxBytes)"
  using assms
proof (induction ls arbitrary: out rule: rev_induct)
  case Nil
  then show ?case by auto
next
  case (snoc l ls)
  show ?case
  proof (cases "length out \<ge> maxLines \<or> joined_bytes (l # out) > maxBytes")
    case True
    then show ?thesis
      using snoc.prems
      by (cases "length out \<ge> maxLines"; cases out)
         (auto simp: utf8ByteLength_eq joined_bytes_Cons Let_def split: if_splits
           intro!: exI [of _ "Suc (length ls)"])
  next
    case False
    have "collect_tail runtime maxLines maxBytes (rev ls) (l # out) (joined_bytes (l # out)) = (out', n, by, partial)"
      using snoc.prems(1) False by (simp add: utf8ByteLength_eq joined_bytes_Cons Let_def not_le not_less split: if_splits)
    from snoc.IH [OF this] False have ih: "\<not> partial \<and> (\<exists>k \<le> length ls. out' = drop k ls @ l # out \<and> n = joined_bytes out'
        \<and> n \<le> maxBytes \<and> length out' \<le> maxLines
        \<and> (k > 0 \<longrightarrow> length out' = maxLines \<or> by = ByBytes \<and> joined_bytes (ls ! (k - 1) # out') > maxBytes))"
      by (simp add: not_le not_less Suc_le_eq split: if_splits)
    then obtain k where "k \<le> length ls" "out' = drop k ls @ l # out" "n = joined_bytes out'" "n \<le> maxBytes"
      "length out' \<le> maxLines"
      "k > 0 \<longrightarrow> length out' = maxLines \<or> by = ByBytes \<and> joined_bytes (ls ! (k - 1) # out') > maxBytes"
      by blast
    then show ?thesis
      using ih by (auto simp: nth_append intro!: exI [of _ k])
  qed
qed

section \<open>Properties\<close>

text \<open>The byte counter used where the host has no \<open>Buffer\<close> agrees with UTF-8 encoding on every string, unpaired
  surrogates included, and the repair of a string keeps its byte length and makes it encodable.\<close>

theorem byte_counter_agrees_with_encoding:
  "utf8ByteLength False s = length (utf8_encode s)
    \<and> utf8ByteLength False (replaceUnpairedSurrogates s) = utf8ByteLength False s
    \<and> utf8_decode (utf8_encode s) = Some (replaceUnpairedSurrogates s)"
  by (simp add: utf8ByteLength_eq count_bytes_encode replaceUnpairedSurrogates_eq scalars_to_well_formed utf8_round_trip)

lemma truncateHead_spec:
  assumes "r = truncateHead runtime content options" and "ls = splitLinesForCounting content"
  shows "if \<not> tr_truncated r then tr_text r = content \<and> length ls \<le> max_lines options \<and> length (utf8_encode content) \<le> max_bytes options
    else \<exists>k rest. tr_text r = join_with 10 (take k ls) \<and> content = tr_text r @ rest
      \<and> tr_outputLines r = k \<and> k \<le> length ls \<and> k \<le> max_lines options
      \<and> tr_outputBytes r = length (utf8_encode (tr_text r)) \<and> tr_outputBytes r \<le> max_bytes options
      \<and> (k < length ls \<longrightarrow> k = max_lines options \<or> length (utf8_encode (join_with 10 (take (Suc k) ls))) > max_bytes options)"
proof -
  obtain ending where content: "content = join_with 10 ls @ ending"
    using splitLines_content assms(2) by metis
  have prefix: "\<exists>rest. content = join_with 10 (take k ls) @ rest" for k
    using join_take_prefix [of 10 ls k] content by (metis append_assoc)
  consider (all) "length ls \<le> max_lines options" "count_bytes content \<le> max_bytes options"
    | (first) "\<not> (length ls \<le> max_lines options \<and> count_bytes content \<le> max_bytes options)"
        "count_bytes (hd ls) > max_bytes options"
    | (some) "\<not> (length ls \<le> max_lines options \<and> count_bytes content \<le> max_bytes options)"
        "\<not> count_bytes (hd ls) > max_bytes options"
    by blast
  then show ?thesis
  proof cases
    case all
    then show ?thesis
      using assms by (simp add: truncateHead_def utf8ByteLength_eq Let_def count_bytes_encode)
  next
    case first
    have "ls \<noteq> []"
      using first(1) assms(2) by auto
    then have "take (Suc 0) ls = [hd ls]"
      by (cases ls) simp_all
    with first show ?thesis
      using assms by (auto simp: truncateHead_def utf8ByteLength_eq Let_def count_bytes_encode intro!: exI [of _ 0])
  next
    case some
    obtain out n hit where loop: "collect_head runtime (max_lines options) (max_bytes options) ls 0 [] 0 = (out, n, hit)"
      by (cases "collect_head runtime (max_lines options) (max_bytes options) ls 0 [] 0") auto
    have "\<exists>k. out = take k ls \<and> k \<le> length ls \<and> n = joined_bytes out \<and> n \<le> max_bytes options
        \<and> length out \<le> max_lines options
        \<and> (k < length ls \<longrightarrow> length out = max_lines options \<or> hit = ByBytes \<and> joined_bytes (out @ [ls ! k]) > max_bytes options)"
      using collect_head_spec [of runtime "max_lines options" "max_bytes options" ls "[]" out n hit] loop by simp
    then obtain k where k: "out = take k ls" "k \<le> length ls" "n = joined_bytes out" "n \<le> max_bytes options"
      "length out \<le> max_lines options"
      "k < length ls \<longrightarrow> length out = max_lines options \<or> hit = ByBytes \<and> joined_bytes (out @ [ls ! k]) > max_bytes options"
      by blast
    have r: "tr_truncated r" "tr_text r = join_with 10 out" "tr_outputLines r = length out"
      "tr_outputBytes r = count_bytes (join_with 10 out)"
      using some loop assms by (auto simp: truncateHead_def utf8ByteLength_eq Let_def split: prod.splits)
    have "take (Suc k) ls = out @ [ls ! k]" if "k < length ls"
      using that k(1) by (simp add: take_Suc_conv_app_nth)
    with k r prefix [of k] show ?thesis
      by (auto simp: count_bytes_encode count_bytes_join)
  qed
qed

text \<open>C35 (bounds). Truncation from the head keeps the longest run of complete first lines that fits both limits: the result is a
  prefix of the content within the limits, and one more line would break a limit unless every line was
  kept. Untruncated content comes back as it is. The bytes are those of the UTF-8 encoding.\<close>

theorem truncateHead_keeps_complete_lines:
  assumes "r = truncateHead runtime content options" and "ls = splitLinesForCounting content"
  shows "if \<not> tr_truncated r then tr_text r = content \<and> length ls \<le> max_lines options \<and> length (utf8_encode content) \<le> max_bytes options
    else \<exists>k rest. tr_text r = join_with 10 (take k ls) \<and> content = tr_text r @ rest
      \<and> tr_outputLines r = k \<and> k \<le> length ls \<and> k \<le> max_lines options
      \<and> tr_outputBytes r = length (utf8_encode (tr_text r)) \<and> tr_outputBytes r \<le> max_bytes options
      \<and> (k < length ls \<longrightarrow> k = max_lines options \<or> length (utf8_encode (join_with 10 (take (Suc k) ls))) > max_bytes options)"
  using truncateHead_spec [OF assms] .

text \<open>C36 (bounds). Truncation from the tail keeps the longest run of complete last lines that fits both limits, a suffix of
  the content but for its final newline. Only when the last line alone is over the byte limit is a
  line cut: then the longest end of it that fits and does not split a surrogate pair is returned, with
  unpaired surrogates replaced.\<close>

theorem truncateTail_keeps_the_end:
  assumes "r = truncateTail runtime content options" and "ls = splitLinesForCounting content"
    and "tr_truncated r" and "max_bytes options > 0"
  shows "length (utf8_encode (tr_text r)) \<le> max_bytes options \<and> tr_outputBytes r = length (utf8_encode (tr_text r))
    \<and> tr_outputLines r \<le> max_lines options
    \<and> (if tr_lastLinePartial r
       then \<exists>start. tr_text r = to_well_formed (drop start (last ls)) \<and> boundary (last ls) start \<and> start > 0
         \<and> length (utf8_encode (drop (fst (character_before (last ls) start)) (last ls))) > max_bytes options
       else \<exists>k before ending. k \<le> length ls \<and> tr_text r = join_with 10 (drop k ls) \<and> tr_outputLines r = length ls - k
         \<and> content = before @ tr_text r @ ending \<and> (ending = [] \<or> ending = [10])
         \<and> (k > 0 \<longrightarrow> tr_outputLines r = max_lines options
             \<or> length (utf8_encode (join_with 10 (drop (k - 1) ls))) > max_bytes options))"
proof -
  obtain ending where content: "content = join_with 10 ls @ ending" "ending = [] \<or> ending = [10]"
    using splitLines_content assms(2) by metis
  have over: "\<not> (length ls \<le> max_lines options \<and> count_bytes content \<le> max_bytes options)"
    using assms by (auto simp: truncateTail_def utf8ByteLength_eq Let_def split: if_splits)
  obtain out n hit partial where
    loop: "collect_tail runtime (max_lines options) (max_bytes options) (rev ls) [] 0 = (out, n, hit, partial)"
    by (cases "collect_tail runtime (max_lines options) (max_bytes options) (rev ls) [] 0") auto
  have r: "tr_text r = join_with 10 out" "tr_outputLines r = length out" "tr_lastLinePartial r = partial"
    "tr_outputBytes r = count_bytes (join_with 10 out)"
    using over loop assms(1,2) by (auto simp: truncateTail_def utf8ByteLength_eq Let_def split: prod.splits)
  note spec = collect_tail_spec [of runtime "max_lines options" "max_bytes options" ls "[]" out n hit partial]
  show ?thesis
  proof (cases partial)
    case True
    then obtain l ls' where l: "ls = ls' @ [l]" "out = [truncateStringToBytesFromEnd l (max_bytes options)]"
      "max_lines options > 0" "count_bytes l > max_bytes options"
      using spec loop by auto
    obtain start where start: "truncateStringToBytesFromEnd l (max_bytes options) = to_well_formed (drop start l)"
      "count_bytes (drop start l) \<le> max_bytes options" "boundary l start"
      "start = 0 \<or> count_bytes (drop (fst (character_before l start)) l) > max_bytes options"
      using truncate_end_spec [OF assms(4)] by metis
    moreover have "start \<noteq> 0"
      using start(2) l(4) by (cases start) auto
    ultimately show ?thesis
      using True r l by (auto simp: count_bytes_encode scalars_to_well_formed intro!: exI [of _ start])
  next
    case False
    then have "\<exists>k \<le> length ls. out = drop k ls \<and> n = joined_bytes out \<and> n \<le> max_bytes options
        \<and> length out \<le> max_lines options \<and> (k > 0 \<longrightarrow> length out = max_lines options
          \<or> hit = ByBytes \<and> joined_bytes (ls ! (k - 1) # out) > max_bytes options)"
      using spec loop by simp
    then obtain k where k: "k \<le> length ls" "out = drop k ls" "n = joined_bytes out" "n \<le> max_bytes options"
      "length out \<le> max_lines options"
      "k > 0 \<longrightarrow> length out = max_lines options \<or> hit = ByBytes \<and> joined_bytes (ls ! (k - 1) # out) > max_bytes options"
      by blast
    have "drop (k - 1) ls = ls ! (k - 1) # out" if "k > 0"
      using that k(1,2) by (metis Cons_nth_drop_Suc Suc_diff_1 Suc_le_eq)
    moreover obtain before where "join_with 10 ls = before @ join_with 10 out"
      using join_drop_suffix [of 10 ls k] k(2) by auto
    ultimately have "k \<le> length ls \<and> tr_text r = join_with 10 (drop k ls) \<and> tr_outputLines r = length ls - k
         \<and> content = before @ tr_text r @ ending \<and> (ending = [] \<or> ending = [10])
         \<and> (k > 0 \<longrightarrow> tr_outputLines r = max_lines options
             \<or> length (utf8_encode (join_with 10 (drop (k - 1) ls))) > max_bytes options)"
      using r k content by (auto simp: count_bytes_encode count_bytes_join)
    then have "\<exists>k before ending. k \<le> length ls \<and> tr_text r = join_with 10 (drop k ls) \<and> tr_outputLines r = length ls - k
         \<and> content = before @ tr_text r @ ending \<and> (ending = [] \<or> ending = [10])
         \<and> (k > 0 \<longrightarrow> tr_outputLines r = max_lines options
             \<or> length (utf8_encode (join_with 10 (drop (k - 1) ls))) > max_bytes options)"
      by blast
    then show ?thesis
      using False r k by (simp add: count_bytes_encode count_bytes_join)
  qed
qed

text \<open>Concrete runs.\<close>

definition sample_limits :: "nat \<Rightarrow> nat \<Rightarrow> truncation_options" where
  "sample_limits l b = \<lparr>to_maxLines = Some l, to_maxBytes = Some b\<rparr>"

lemmas truncate_eval = sample_limits_def max_lines_def max_bytes_def splitLinesForCounting_def Let_def jlit_def
  utf8ByteLength_eq is_high_def is_low_def

lemma truncateHead_keeps_complete_lines_witness:
  "tr_text (truncateHead True [97, 10, 98, 10, 99] (sample_limits 2 9)) = [97, 10, 98]"
  using truncateHead_keeps_complete_lines [OF refl refl, of True "[97, 10, 98, 10, 99]" "sample_limits 2 9"]
  by (auto simp: truncateHead_def truncate_eval split: if_splits)

lemma truncateTail_keeps_the_end_witness:
  "length (utf8_encode (tr_text (truncateTail True [97, 10, 98, 99, 100] (sample_limits 5 2)))) \<le> 2"
proof -
  have "tr_truncated (truncateTail True [97, 10, 98, 99, 100] (sample_limits 5 2))"
    by (simp add: truncateTail_def truncate_eval split: prod.splits)
  from truncateTail_keeps_the_end [OF refl refl this] show ?thesis
    by (simp add: max_bytes_def sample_limits_def)
qed

end
