(* ===== verification/Json_Text.thy ===== *)
theory Json_Text
  imports Truncate
begin

text \<open>
  Text of values: \<open>JSON.stringify\<close> on the values of \<open>Js_Values\<close>, and \<open>contentText\<close> of
  \<open>packages/ai/src/utils/text.ts\<close>. How numbers that are not safe integers are printed is the
  argument \<open>show_number\<close>.
\<close>

section \<open>Strings and numbers\<close>

definition hex_digit :: "nat \<Rightarrow> u16" where
  "hex_digit n = word_of_nat (if n < 10 then 48 + n else 87 + n)"

definition unicode_escape :: "u16 \<Rightarrow> jstr" where
  "unicode_escape u = (let n = unat u in
     [92, 117, hex_digit (n div 4096), hex_digit (n div 256 mod 16), hex_digit (n div 16 mod 16), hex_digit (n mod 16)])"

definition escape_unit :: "u16 \<Rightarrow> jstr" where
  "escape_unit u =
     (if u = 34 then [92, 34] else if u = 92 then [92, 92]
      else if u = 8 then [92, 98] else if u = 9 then [92, 116] else if u = 10 then [92, 110]
      else if u = 12 then [92, 102] else if u = 13 then [92, 114]
      else if unat u < 32 \<or> is_high u \<or> is_low u then unicode_escape u
      else [u])"

fun escape_string :: "jstr \<Rightarrow> jstr" where
  "escape_string [] = []"
| "escape_string [u] = escape_unit u"
| "escape_string (u # v # s) =
     (if is_high u \<and> is_low v then u # v # escape_string s else escape_unit u @ escape_string (v # s))"

definition quote_string :: "jstr \<Rightarrow> jstr" where
  "quote_string s = [34] @ escape_string s @ [34]"

definition number_text :: "(js_number \<Rightarrow> jstr) \<Rightarrow> js_number \<Rightarrow> jstr" where
  "number_text show_number x =
     (if \<not> is_finite x then jlit ''null''
      else case x of
        JInt n \<Rightarrow> if is_safe n then show_int n else show_number x
      | JDouble w \<Rightarrow> if unat w = 2 ^ 63 then jlit ''0'' else show_number x)"

section \<open>Values\<close>

text \<open>\<open>JSON.stringify\<close> throws on a \<open>BigInt\<close> and returns undefined for undefined, functions and symbols.\<close>

fun json_text :: "(js_number \<Rightarrow> jstr) \<Rightarrow> 'o jsv \<Rightarrow> unit + jstr option"
  and json_elements :: "(js_number \<Rightarrow> jstr) \<Rightarrow> 'o jsv list \<Rightarrow> unit + jstr list"
  and json_members :: "(js_number \<Rightarrow> jstr) \<Rightarrow> (jstr \<times> 'o jsv) list \<Rightarrow> unit + jstr list"
where
  "json_text show_number JUndefined = Inr None"
| "json_text show_number JHole = Inr None"
| "json_text show_number JNull = Inr (Some (jlit ''null''))"
| "json_text show_number (JBool b) = Inr (Some (jlit (if b then ''true'' else ''false'')))"
| "json_text show_number (JNum x) = Inr (Some (number_text show_number x))"
| "json_text show_number (JStr s) = Inr (Some (quote_string s))"
| "json_text show_number (JBytes bs) = Inr (Some (jlit ''{'' @ join_with 44 (map (\<lambda>(i, b).
     quote_string (show_nat i) @ jlit '':'' @ show_nat (unat b)) (enumerate 0 bs)) @ jlit ''}''))"
| "json_text show_number (JArr _ _ vs) = try_bind (json_elements show_number vs)
     (\<lambda>ts. Inr (Some (jlit ''['' @ join_with 44 ts @ jlit '']'')))"
| "json_text show_number (JObj _ _ es) = try_bind (json_members show_number es)
     (\<lambda>ts. Inr (Some (jlit ''{'' @ join_with 44 ts @ jlit ''}'')))"
| "json_text show_number (JGetter v) = json_text show_number v"
| "json_text show_number (JExotic x) = (if x = BigInt then Inl () else Inr None)"
| "json_elements show_number [] = Inr []"
| "json_elements show_number (v # vs) = try_bind (json_text show_number v)
     (\<lambda>t. try_bind (json_elements show_number vs)
       (\<lambda>ts. Inr ((case t of None \<Rightarrow> jlit ''null'' | Some s \<Rightarrow> s) # ts)))"
| "json_members show_number [] = Inr []"
| "json_members show_number ((k, v) # es) = try_bind (json_text show_number v)
     (\<lambda>t. try_bind (json_members show_number es)
       (\<lambda>ts. Inr (case t of None \<Rightarrow> ts | Some s \<Rightarrow> (quote_string k @ jlit '':'' @ s) # ts)))"

definition safeJsonStringify :: "(js_number \<Rightarrow> jstr) \<Rightarrow> 'o jsv \<Rightarrow> jstr" where
  "safeJsonStringify show_number v = (case json_text show_number v of
      Inl _ \<Rightarrow> jlit ''[unserializable]''
    | Inr None \<Rightarrow> jlit ''undefined''
    | Inr (Some s) \<Rightarrow> s)"

section \<open>Message content\<close>

text \<open>\<open>join\<close> with any separator.\<close>

fun join_text :: "jstr \<Rightarrow> jstr list \<Rightarrow> jstr" where
  "join_text sep [] = []"
| "join_text sep [t] = t"
| "join_text sep (t # u # ts) = t @ sep @ join_text sep (u # ts)"

definition text_blocks :: "content_block list \<Rightarrow> jstr list" where
  "text_blocks bs = List.map_filter (\<lambda>b. case b of TextContent t _ \<Rightarrow> Some t | _ \<Rightarrow> None) bs"

definition contentText :: "message_content \<Rightarrow> jstr \<Rightarrow> jstr" where
  "contentText content separator = (case content of
      PlainText s \<Rightarrow> s
    | Blocks bs \<Rightarrow> join_text separator (text_blocks bs))"

end
