(* ===== verification/Compaction_Plan.thy ===== *)
theory Compaction_Plan
  imports Compaction_Prompts Session_Context "HOL-Library.List_Lexorder"
begin

text \<open>
  What a compaction summarises and what it keeps: token estimates, cut points, file operations and
  \<open>prepareCompaction\<close> (\<open>packages/agent/src/harness/compaction/compaction.ts\<close>, first part, and
  \<open>utils.ts\<close>). Indices are natural numbers; the source's \<open>-1\<close> is \<open>None\<close>.
\<close>

section \<open>File operations\<close>

text \<open>A set of strings in the order of insertion.\<close>

definition set_add :: "'a \<Rightarrow> 'a list \<Rightarrow> 'a list" where
  "set_add x xs = (if x \<in> set xs then xs else xs @ [x])"

definition set_add_all :: "'a list \<Rightarrow> 'a list \<Rightarrow> 'a list" where
  "set_add_all ys xs = fold set_add ys xs"

record file_operations =
  fo_read :: "jstr list"
  fo_written :: "jstr list"
  fo_edited :: "jstr list"

definition createFileOps :: file_operations where
  "createFileOps = \<lparr>fo_read = [], fo_written = [], fo_edited = []\<rparr>"

definition call_path :: "tool_call \<Rightarrow> jstr option" where
  "call_path c = (case map_of (call_arguments c) (jlit ''path'') of
      Some (JStr p) \<Rightarrow> if p = [] then None else Some p
    | _ \<Rightarrow> None)"

definition add_call :: "tool_call \<Rightarrow> file_operations \<Rightarrow> file_operations" where
  "add_call c ops = (case call_path c of
      None \<Rightarrow> ops
    | Some p \<Rightarrow>
        if call_name c = jlit ''read'' then ops\<lparr>fo_read := set_add p (fo_read ops)\<rparr>
        else if call_name c = jlit ''write'' then ops\<lparr>fo_written := set_add p (fo_written ops)\<rparr>
        else if call_name c = jlit ''edit'' then ops\<lparr>fo_edited := set_add p (fo_edited ops)\<rparr>
        else ops)"

definition extractFileOpsFromMessage :: "agent_message \<Rightarrow> file_operations \<Rightarrow> file_operations" where
  "extractFileOpsFromMessage m ops = (case m of
      LlmMessage (AssistantMsg a) \<Rightarrow> fold (\<lambda>b ops. case b of ToolCall c \<Rightarrow> add_call c ops | _ \<Rightarrow> ops) (am_content a) ops
    | _ \<Rightarrow> ops)"

definition computeFileLists :: "file_operations \<Rightarrow> jstr list \<times> jstr list" where
  "computeFileLists ops =
     (let modified = set_add_all (fo_written ops) (fo_edited ops)
      in (sort (filter (\<lambda>f. f \<notin> set modified) (fo_read ops)), sort modified))"

definition formatFileOperations :: "jstr list \<Rightarrow> jstr list \<Rightarrow> jstr" where
  "formatFileOperations readFiles modifiedFiles =
     (let sections =
        (if length readFiles > 0
         then [jlit ''<read-files>'' @ nl @ join_text nl readFiles @ nl @ jlit ''</read-files>''] else [])
        @ (if length modifiedFiles > 0
         then [jlit ''<modified-files>'' @ nl @ join_text nl modifiedFiles @ nl @ jlit ''</modified-files>''] else [])
      in if length sections = 0 then [] else nl @ nl @ join_text (nl @ nl) sections)"

text \<open>The string elements of an array property of the details a compaction entry carries.\<close>

definition detail_files :: "json option \<Rightarrow> jstr \<Rightarrow> jstr list" where
  "detail_files details key = (case details of
      Some (JObj _ _ es) \<Rightarrow> (case map_of es key of
          Some (JArr _ _ vs) \<Rightarrow> List.map_filter (\<lambda>v. case v of JStr f \<Rightarrow> Some f | _ \<Rightarrow> None) vs
        | _ \<Rightarrow> [])
    | _ \<Rightarrow> [])"

definition add_details :: "json option \<Rightarrow> file_operations \<Rightarrow> file_operations" where
  "add_details details ops = ops\<lparr>fo_read := set_add_all (detail_files details (jlit ''readFiles'')) (fo_read ops),
     fo_edited := set_add_all (detail_files details (jlit ''modifiedFiles'')) (fo_edited ops)\<rparr>"

definition extractFileOperations :: "agent_message list \<Rightarrow> entry list \<Rightarrow> nat option \<Rightarrow> file_operations" where
  "extractFileOperations messages entries prevCompactionIndex =
     fold extractFileOpsFromMessage messages
       (case prevCompactionIndex of
          None \<Rightarrow> createFileOps
        | Some i \<Rightarrow> (case entry_body (entries ! i) of
            CompactionBody _ _ _ details _ \<Rightarrow> add_details details createFileOps
          | _ \<Rightarrow> createFileOps))"

section \<open>Token estimates\<close>

record compaction_settings =
  cs_enabled :: bool
  cs_reserveTokens :: int
  cs_keepRecentTokens :: int

definition DEFAULT_COMPACTION_SETTINGS :: compaction_settings where
  "DEFAULT_COMPACTION_SETTINGS = \<lparr>cs_enabled = True, cs_reserveTokens = 16384, cs_keepRecentTokens = 20000\<rparr>"

definition calculateContextTokens :: "usage \<Rightarrow> int" where
  "calculateContextTokens u =
     (if u_totalTokens u \<noteq> 0 then u_totalTokens u else u_input u + u_output u + u_cacheRead u + u_cacheWrite u)"

definition getAssistantUsage :: "agent_message \<Rightarrow> usage option" where
  "getAssistantUsage m = (case m of
      LlmMessage (AssistantMsg a) \<Rightarrow>
        if am_stopReason a \<noteq> AbortedStop \<and> am_stopReason a \<noteq> ErrorStop \<and> calculateContextTokens (am_usage a) > 0
        then Some (am_usage a) else None
    | _ \<Rightarrow> None)"

definition getLastAssistantUsage :: "entry list \<Rightarrow> usage option" where
  "getLastAssistantUsage entries =
     (case List.map_filter (\<lambda>e. case entry_body e of MessageBody m _ \<Rightarrow> getAssistantUsage m | _ \<Rightarrow> None) (rev entries) of
        [] \<Rightarrow> None
      | u # _ \<Rightarrow> Some u)"

definition ESTIMATED_IMAGE_CHARS :: nat where "ESTIMATED_IMAGE_CHARS = 4800"

definition estimateTextAndImageContentChars :: "message_content \<Rightarrow> nat" where
  "estimateTextAndImageContentChars content = (case content of
      PlainText s \<Rightarrow> length s
    | Blocks bs \<Rightarrow> sum_list (map (\<lambda>b. case b of
          TextContent t _ \<Rightarrow> length t
        | ImageContent _ _ \<Rightarrow> ESTIMATED_IMAGE_CHARS
        | _ \<Rightarrow> 0) bs))"

text \<open>\<open>Math.ceil(chars / 4)\<close>.\<close>

definition quarter :: "nat \<Rightarrow> nat" where
  "quarter chars = (chars + 3) div 4"

definition estimateTokens :: "(js_number \<Rightarrow> jstr) \<Rightarrow> agent_message \<Rightarrow> nat" where
  "estimateTokens show_number m = (case m of
      LlmMessage (UserMsg u) \<Rightarrow> quarter (estimateTextAndImageContentChars (um_content u))
    | LlmMessage (AssistantMsg a) \<Rightarrow> quarter (sum_list (map (\<lambda>b. case b of
          TextContent t _ \<Rightarrow> length t
        | ThinkingContent t _ _ \<Rightarrow> length t
        | ToolCall c \<Rightarrow> length (call_name c)
            + length (safeJsonStringify show_number (JObj () plain_object (call_arguments c)))
        | _ \<Rightarrow> 0) (am_content a)))
    | CustomMsg c \<Rightarrow> quarter (estimateTextAndImageContentChars (cm_content c))
    | LlmMessage (ToolResultMsg t) \<Rightarrow> quarter (estimateTextAndImageContentChars (Blocks (tr_content t)))
    | BashExecution b \<Rightarrow> quarter (length (be_command b) + length (be_output b))
    | BranchSummaryMsg b \<Rightarrow> quarter (length (bs_summary b))
    | CompactionSummaryMsg c \<Rightarrow> quarter (length (cs_summary c))
    | OtherMessage _ \<Rightarrow> 0)"

definition estimate_all :: "(js_number \<Rightarrow> jstr) \<Rightarrow> agent_message list \<Rightarrow> int" where
  "estimate_all show_number ms = int (sum_list (map (estimateTokens show_number) ms))"

record context_usage_estimate =
  ce_tokens :: int
  ce_usageTokens :: int
  ce_trailingTokens :: int
  ce_lastUsageIndex :: "nat option"

text \<open>The loop runs down from index \<open>n - 1\<close>.\<close>

fun getLastAssistantUsageInfo :: "agent_message list \<Rightarrow> nat \<Rightarrow> (usage \<times> nat) option" where
  "getLastAssistantUsageInfo messages 0 = None"
| "getLastAssistantUsageInfo messages (Suc i) = (case getAssistantUsage (messages ! i) of
      Some u \<Rightarrow> Some (u, i)
    | None \<Rightarrow> getLastAssistantUsageInfo messages i)"

definition estimateContextTokens :: "(js_number \<Rightarrow> jstr) \<Rightarrow> agent_message list \<Rightarrow> context_usage_estimate" where
  "estimateContextTokens show_number messages = (case getLastAssistantUsageInfo messages (length messages) of
      None \<Rightarrow> (let estimated = estimate_all show_number messages
        in \<lparr>ce_tokens = estimated, ce_usageTokens = 0, ce_trailingTokens = estimated, ce_lastUsageIndex = None\<rparr>)
    | Some (u, i) \<Rightarrow>
        (let usageTokens = calculateContextTokens u;
             trailingTokens = estimate_all show_number (drop (i + 1) messages)
         in \<lparr>ce_tokens = usageTokens + trailingTokens, ce_usageTokens = usageTokens,
             ce_trailingTokens = trailingTokens, ce_lastUsageIndex = Some i\<rparr>))"

definition shouldCompact :: "int \<Rightarrow> int \<Rightarrow> compaction_settings \<Rightarrow> bool" where
  "shouldCompact contextTokens contextWindow settings \<longleftrightarrow>
     cs_enabled settings \<and> contextTokens > contextWindow - cs_reserveTokens settings"

section \<open>Cut points\<close>

definition is_cut_point :: "entry \<Rightarrow> bool" where
  "is_cut_point e = (case entry_body e of
      MessageBody m _ \<Rightarrow> (case m of
        LlmMessage (ToolResultMsg _) \<Rightarrow> False
      | OtherMessage _ \<Rightarrow> False
      | _ \<Rightarrow> True)
    | BranchSummaryBody _ _ _ _ \<Rightarrow> True
    | _ \<Rightarrow> False)"

definition findValidCutPoints :: "entry list \<Rightarrow> nat \<Rightarrow> nat \<Rightarrow> nat list" where
  "findValidCutPoints entries startIndex endIndex = filter (\<lambda>i. is_cut_point (entries ! i)) [startIndex..<endIndex]"

definition starts_turn :: "entry \<Rightarrow> bool" where
  "starts_turn e = (case entry_body e of
      BranchSummaryBody _ _ _ _ \<Rightarrow> True
    | MessageBody m _ \<Rightarrow> (case m of
        LlmMessage (UserMsg _) \<Rightarrow> True
      | BashExecution _ \<Rightarrow> True
      | _ \<Rightarrow> False)
    | _ \<Rightarrow> False)"

definition findTurnStartIndex :: "entry list \<Rightarrow> nat \<Rightarrow> nat \<Rightarrow> nat option" where
  "findTurnStartIndex entries entryIndex startIndex =
     find (\<lambda>i. starts_turn (entries ! i)) (rev [startIndex..<Suc entryIndex])"

record cut_point_result =
  cp_firstKeptEntryIndex :: nat
  cp_turnStartIndex :: "nat option"
  cp_isSplitTurn :: bool

text \<open>The token loop. The second argument counts down: its predecessor is the index.\<close>

fun scan_tokens :: "(js_number \<Rightarrow> jstr) \<Rightarrow> entry list \<Rightarrow> nat \<Rightarrow> nat \<Rightarrow> int \<Rightarrow> nat list \<Rightarrow> int \<Rightarrow> nat \<Rightarrow> nat" where
  "scan_tokens show_number entries startIndex 0 keep cutPoints acc cutIndex = cutIndex"
| "scan_tokens show_number entries startIndex (Suc i) keep cutPoints acc cutIndex =
     (if i < startIndex then cutIndex
      else case entry_body (entries ! i) of
        MessageBody m _ \<Rightarrow>
          (let acc = acc + int (estimateTokens show_number m)
           in if acc \<ge> keep
              then (case find (\<lambda>c. c \<ge> i) cutPoints of Some c \<Rightarrow> c | None \<Rightarrow> cutIndex)
              else scan_tokens show_number entries startIndex i keep cutPoints acc cutIndex)
      | _ \<Rightarrow> scan_tokens show_number entries startIndex i keep cutPoints acc cutIndex)"

fun include_preceding :: "entry list \<Rightarrow> nat \<Rightarrow> nat \<Rightarrow> nat" where
  "include_preceding entries startIndex 0 = 0"
| "include_preceding entries startIndex (Suc i) =
     (if Suc i > startIndex \<and> entry_type (entries ! i) \<noteq> CompactionT \<and> entry_type (entries ! i) \<noteq> MessageT
      then include_preceding entries startIndex i else Suc i)"

definition is_user_message :: "entry \<Rightarrow> bool" where
  "is_user_message e = (case entry_body e of MessageBody (LlmMessage (UserMsg _)) _ \<Rightarrow> True | _ \<Rightarrow> False)"

definition findCutPoint :: "(js_number \<Rightarrow> jstr) \<Rightarrow> entry list \<Rightarrow> nat \<Rightarrow> nat \<Rightarrow> int \<Rightarrow> cut_point_result" where
  "findCutPoint show_number entries startIndex endIndex keepRecentTokens =
     (let cutPoints = findValidCutPoints entries startIndex endIndex
      in if length cutPoints = 0
         then \<lparr>cp_firstKeptEntryIndex = startIndex, cp_turnStartIndex = None, cp_isSplitTurn = False\<rparr>
         else let cutIndex = scan_tokens show_number entries startIndex endIndex keepRecentTokens cutPoints 0 (hd cutPoints);
                  cutIndex = include_preceding entries startIndex cutIndex;
                  isUserMessage = is_user_message (entries ! cutIndex);
                  turnStartIndex = (if isUserMessage then None else findTurnStartIndex entries cutIndex startIndex)
              in \<lparr>cp_firstKeptEntryIndex = cutIndex, cp_turnStartIndex = turnStartIndex,
                  cp_isSplitTurn = (\<not> isUserMessage \<and> turnStartIndex \<noteq> None)\<rparr>)"

section \<open>Preparation\<close>

definition getMessageFromEntry :: "entry \<Rightarrow> agent_message option" where
  "getMessageFromEntry e = (case entry_body e of
      MessageBody m _ \<Rightarrow> Some m
    | BranchSummaryBody fromId summary _ _ \<Rightarrow>
        Some (BranchSummaryMsg (createBranchSummaryMessage (\<lambda>_. 0) summary fromId (Inr (entry_timestamp e))))
    | CompactionBody summary _ tokensBefore _ _ \<Rightarrow>
        Some (CompactionSummaryMsg (createCompactionSummaryMessage (\<lambda>_. 0) summary tokensBefore (Inr (entry_timestamp e))))
    | _ \<Rightarrow> None)"

definition getMessageFromEntryForCompaction :: "entry \<Rightarrow> agent_message option" where
  "getMessageFromEntryForCompaction e = (if entry_type e = CompactionT then None else getMessageFromEntry e)"

definition message_timestamp :: "agent_message \<Rightarrow> int" where
  "message_timestamp m = (case m of
      LlmMessage (UserMsg u) \<Rightarrow> um_timestamp u
    | LlmMessage (AssistantMsg a) \<Rightarrow> am_timestamp a
    | LlmMessage (ToolResultMsg t) \<Rightarrow> tr_timestamp t
    | BashExecution b \<Rightarrow> be_timestamp b
    | CustomMsg c \<Rightarrow> cm_timestamp c
    | BranchSummaryMsg b \<Rightarrow> bs_timestamp b
    | CompactionSummaryMsg c \<Rightarrow> cs_timestamp c
    | OtherMessage j \<Rightarrow> (case j of
        JObj _ _ es \<Rightarrow> (case map_of es (jlit ''timestamp'') of Some (JNum (JInt n)) \<Rightarrow> n | _ \<Rightarrow> 0)
      | _ \<Rightarrow> 0))"

definition virtual_entry :: "entry \<Rightarrow> nat \<Rightarrow> agent_message \<Rightarrow> entry" where
  "virtual_entry prev index m =
     \<lparr>entry_id = entry_id prev @ jlit '':retained:'' @ show_nat index,
      entry_body = MessageBody m False,
      entry_seq = entry_seq prev,
      entry_parentId = Some (if index = 0 then entry_id prev else entry_id prev @ jlit '':retained:'' @ show_nat (index - 1)),
      entry_timestamp = message_timestamp m\<rparr>"

record compaction_preparation =
  pr_messagesToSummarize :: "agent_message list"
  pr_turnPrefixMessages :: "agent_message list"
  pr_retainedTail :: "agent_message list"
  pr_isSplitTurn :: bool
  pr_tokensBefore :: int
  pr_previousSummary :: "jstr option"
  pr_fileOps :: file_operations
  pr_settings :: compaction_settings

definition compactable_entries :: "entry list \<Rightarrow> nat option \<Rightarrow> jstr option \<times> entry list" where
  "compactable_entries path prevCompactionIndex = (case prevCompactionIndex of
      None \<Rightarrow> (None, path)
    | Some i \<Rightarrow> (case entry_body (path ! i) of
        CompactionBody summary retainedTail _ _ _ \<Rightarrow>
          (Some summary, map (\<lambda>(k, m). virtual_entry (path ! i) k m) (enumerate 0 retainedTail) @ drop (i + 1) path)
      | _ \<Rightarrow> (None, path)))"

definition slice_messages :: "entry list \<Rightarrow> nat \<Rightarrow> nat \<Rightarrow> agent_message list" where
  "slice_messages entries i j = List.map_filter getMessageFromEntryForCompaction (map (\<lambda>k. entries ! k) [i..<j])"

definition prepareCompaction ::
  "(js_number \<Rightarrow> jstr) \<Rightarrow> entry list \<Rightarrow> compaction_settings \<Rightarrow> compaction_preparation option" where
  "prepareCompaction show_number path settings =
     (if path = [] \<or> entry_type (last path) = CompactionT then None
      else let prevCompactionIndex = last_compaction path (length path);
               (previousSummary, compactable) = compactable_entries path prevCompactionIndex;
               boundaryEnd = length compactable;
               tokensBefore = ce_tokens (estimateContextTokens show_number
                 (sx_messages (buildSessionContext default_context_options path)));
               cut = findCutPoint show_number compactable 0 boundaryEnd (cs_keepRecentTokens settings);
               historyEnd = (case cp_turnStartIndex cut of
                   Some t \<Rightarrow> if cp_isSplitTurn cut then t else cp_firstKeptEntryIndex cut
                 | None \<Rightarrow> cp_firstKeptEntryIndex cut);
               messagesToSummarize = slice_messages compactable 0 historyEnd;
               turnPrefixMessages = (if cp_isSplitTurn cut
                 then slice_messages compactable historyEnd (cp_firstKeptEntryIndex cut) else []);
               retainedTail = slice_messages compactable (cp_firstKeptEntryIndex cut) boundaryEnd;
               fileOps = extractFileOperations messagesToSummarize path prevCompactionIndex;
               fileOps = (if cp_isSplitTurn cut then fold extractFileOpsFromMessage turnPrefixMessages fileOps else fileOps)
           in Some \<lparr>pr_messagesToSummarize = messagesToSummarize, pr_turnPrefixMessages = turnPrefixMessages,
                pr_retainedTail = retainedTail, pr_isSplitTurn = cp_isSplitTurn cut, pr_tokensBefore = tokensBefore,
                pr_previousSummary = previousSummary, pr_fileOps = fileOps, pr_settings = settings\<rparr>)"

end
