(* ===== verification/Compaction_Facts.thy ===== *)
theory Compaction_Facts
  imports Compaction_Plan
begin

text \<open>Nothing is lost between the summary and the retained tail, and the tail can be sent to a provider.\<close>

section \<open>Cut points\<close>

lemma findTurnStartIndex_Some:
  assumes "findTurnStartIndex entries k startIndex = Some t"
  shows "startIndex \<le> t \<and> t \<le> k \<and> starts_turn (entries ! t)"
proof -
  have "t \<in> set (rev [startIndex..<Suc k])" and "starts_turn (entries ! t)"
    using assms unfolding findTurnStartIndex_def find_Some_iff by (metis nth_mem, blast)
  then show ?thesis by auto
qed

lemma find_in_set: "find P xs = Some x \<Longrightarrow> x \<in> set xs \<and> P x"
  by (induction xs) (auto split: if_splits)

lemma scan_tokens_cut:
  "scan_tokens show_number entries startIndex n keep cuts acc d \<in> insert d (set cuts)"
proof (induction n arbitrary: acc)
  case (Suc i)
  then show ?case
    by (auto simp: Let_def split: entry_body.splits option.splits dest: find_in_set)
qed simp

lemma include_preceding_spec:
  assumes "startIndex \<le> c"
  shows "startIndex \<le> include_preceding entries startIndex c \<and> include_preceding entries startIndex c \<le> c
    \<and> (\<forall>i. include_preceding entries startIndex c \<le> i \<and> i < c \<longrightarrow> entry_type (entries ! i) \<noteq> MessageT
        \<and> entry_type (entries ! i) \<noteq> CompactionT)"
  using assms by (induction c) (auto simp: less_Suc_eq le_Suc_eq)

text \<open>Where the cut falls: behind a stretch without messages starts a valid cut point, if there is one at all.\<close>

lemma findCutPoint_spec:
  assumes "cp = findCutPoint show_number entries startIndex endIndex keep" and "startIndex \<le> endIndex"
  shows "startIndex \<le> cp_firstKeptEntryIndex cp \<and> cp_firstKeptEntryIndex cp \<le> endIndex
    \<and> (cp_isSplitTurn cp \<longleftrightarrow> cp_turnStartIndex cp \<noteq> None)
    \<and> (\<forall>t. cp_turnStartIndex cp = Some t \<longrightarrow> startIndex \<le> t \<and> t \<le> cp_firstKeptEntryIndex cp)
    \<and> ((\<exists>i. startIndex \<le> i \<and> i < endIndex \<and> is_cut_point (entries ! i)) \<longrightarrow>
        (\<exists>c. cp_firstKeptEntryIndex cp \<le> c \<and> c < endIndex \<and> is_cut_point (entries ! c)
          \<and> (\<forall>i. cp_firstKeptEntryIndex cp \<le> i \<and> i < c \<longrightarrow> entry_type (entries ! i) \<noteq> MessageT)))"
proof (cases "findValidCutPoints entries startIndex endIndex = []")
  case True
  then show ?thesis
    using assms by (auto simp: findCutPoint_def Let_def findValidCutPoints_def filter_empty_conv)
next
  case False
  let ?cuts = "findValidCutPoints entries startIndex endIndex"
  define c where "c = scan_tokens show_number entries startIndex endIndex keep ?cuts 0 (hd ?cuts)"
  define k where "k = include_preceding entries startIndex c"
  have "c \<in> set ?cuts"
    using scan_tokens_cut [of show_number entries startIndex endIndex keep ?cuts 0 "hd ?cuts"] False
    by (auto simp: c_def)
  then have c: "startIndex \<le> c" "c < endIndex" "is_cut_point (entries ! c)"
    by (auto simp: findValidCutPoints_def)
  note k = include_preceding_spec [OF c(1), of entries, folded k_def]
  have cp: "cp_firstKeptEntryIndex cp = k"
    "cp_turnStartIndex cp = (if is_user_message (entries ! k) then None else findTurnStartIndex entries k startIndex)"
    "cp_isSplitTurn cp = (cp_turnStartIndex cp \<noteq> None)"
    using False assms(1) by (simp_all add: findCutPoint_def Let_def c_def k_def)
  show ?thesis
    using c k cp findTurnStartIndex_Some [of entries k startIndex] by (auto split: if_splits)
qed

section \<open>Slices\<close>

lemma slice_append: "i \<le> j \<Longrightarrow> j \<le> k \<Longrightarrow> slice_messages es i j @ slice_messages es j k = slice_messages es i k"
  using upt_add_eq_append [of i j "k - j"] by (simp add: slice_messages_def map_filter_def)

lemma slice_all: "slice_messages es 0 (length es) = List.map_filter getMessageFromEntryForCompaction es"
  by (simp add: slice_messages_def map_nth)

lemma slice_skip:
  assumes "i \<le> c" and "c < j" and "getMessageFromEntryForCompaction (es ! c) = Some m"
    and "\<forall>k. i \<le> k \<and> k < c \<longrightarrow> entry_type (es ! k) \<noteq> MessageT"
  shows "\<exists>m' rest. slice_messages es i j = m' # rest
    \<and> (m' = m \<or> (\<exists>k. i \<le> k \<and> k < c \<and> getMessageFromEntryForCompaction (es ! k) = Some m'))"
proof -
  have "slice_messages es i j = slice_messages es i c @ m # slice_messages es (Suc c) j"
    using assms(1-3) slice_append [of i c j es] by (simp add: slice_messages_def upt_conv_Cons map_filter_simps)
  moreover have "x \<in> set (slice_messages es i c) \<Longrightarrow> \<exists>k. i \<le> k \<and> k < c \<and> getMessageFromEntryForCompaction (es ! k) = Some x" for x
    by (auto simp: slice_messages_def map_filter_def)
  ultimately show ?thesis
    by (cases "slice_messages es i c") auto
qed

definition is_tool_result :: "agent_message \<Rightarrow> bool" where
  "is_tool_result m \<longleftrightarrow> (\<exists>t. m = LlmMessage (ToolResultMsg t))"

lemma no_message_no_result:
  "entry_type e \<noteq> MessageT \<Longrightarrow> getMessageFromEntryForCompaction e = Some m \<Longrightarrow> \<not> is_tool_result m"
  by (auto simp: getMessageFromEntryForCompaction_def getMessageFromEntry_def is_tool_result_def
      split: entry_body.splits if_splits)

lemma cut_point_message:
  "is_cut_point e \<Longrightarrow> \<exists>m. getMessageFromEntryForCompaction e = Some m \<and> \<not> is_tool_result m"
  by (auto simp: is_cut_point_def getMessageFromEntryForCompaction_def getMessageFromEntry_def is_tool_result_def
      split: entry_body.splits agent_message.splits message.splits)

text \<open>The messages that a compaction of a path is about: the previous retained tail, if there is one, and what came later.\<close>

definition compactable_messages :: "entry list \<Rightarrow> agent_message list" where
  "compactable_messages path = List.map_filter getMessageFromEntryForCompaction
     (snd (compactable_entries path (last_compaction path (length path))))"

lemma compactable_after:
  assumes "entry_body c = CompactionBody summary retained tokens details us"
    and "\<forall>e \<in> set after. entry_type e \<noteq> CompactionT"
  shows "compactable_messages (before @ c # after) = retained @ List.map_filter getMessageFromEntryForCompaction after"
proof -
  have "last_compaction (before @ c # after) (length (before @ c # after)) = Some (length before)"
    using assms by (intro last_compaction_Some) (auto simp: nth_append nth_Cons split: nat.splits)
  moreover have "List.map_filter getMessageFromEntryForCompaction (map (\<lambda>(k, m). virtual_entry e k m) (enumerate n ms)) = ms" for e n ms
    by (induction ms arbitrary: n)
       (simp_all add: map_filter_simps virtual_entry_def getMessageFromEntryForCompaction_def getMessageFromEntry_def)
  ultimately show ?thesis
    by (simp add: compactable_messages_def compactable_entries_def assms(1) map_filter_def)
qed

lemma partition_messages:
  assumes "prepareCompaction show_number path settings = Some p"
  shows "pr_messagesToSummarize p @ pr_turnPrefixMessages p @ pr_retainedTail p = compactable_messages path
    \<and> ((\<exists>e \<in> set (snd (compactable_entries path (last_compaction path (length path)))). is_cut_point e) \<longrightarrow>
        (\<exists>m rest. pr_retainedTail p = m # rest \<and> \<not> is_tool_result m))
    \<and> (\<forall>before c after summary retained tokens details us. path = before @ c # after
        \<longrightarrow> entry_body c = CompactionBody summary retained tokens details us \<longrightarrow> (\<forall>e \<in> set after. entry_type e \<noteq> CompactionT)
        \<longrightarrow> compactable_messages path = retained @ List.map_filter getMessageFromEntryForCompaction after)"
proof -
  obtain prev es where es: "compactable_entries path (last_compaction path (length path)) = (prev, es)"
    by fastforce
  let ?es = es
  define cp where "cp = findCutPoint show_number ?es 0 (length ?es) (cs_keepRecentTokens settings)"
  let ?k = "cp_firstKeptEntryIndex cp"
  let ?h = "case cp_turnStartIndex cp of Some t \<Rightarrow> if cp_isSplitTurn cp then t else ?k | None \<Rightarrow> ?k"
  note spec = findCutPoint_spec [OF cp_def]
  have p: "pr_messagesToSummarize p = slice_messages ?es 0 ?h"
    "pr_turnPrefixMessages p = (if cp_isSplitTurn cp then slice_messages ?es ?h ?k else [])"
    "pr_retainedTail p = slice_messages ?es ?k (length ?es)"
    using assms unfolding prepareCompaction_def Let_def es prod.case cp_def [symmetric] by (auto split: if_splits)
  have "?h \<le> ?k" "?k \<le> length ?es" and "\<not> cp_isSplitTurn cp \<Longrightarrow> ?h = ?k"
    using spec by (auto split: option.splits)
  then have "pr_messagesToSummarize p @ pr_turnPrefixMessages p @ pr_retainedTail p = slice_messages ?es 0 (length ?es)"
    unfolding p by (cases "cp_isSplitTurn cp") (simp_all add: slice_append)
  moreover have "\<exists>m rest. pr_retainedTail p = m # rest \<and> \<not> is_tool_result m" if "\<exists>e \<in> set ?es. is_cut_point e"
  proof -
    have "\<exists>i. 0 \<le> i \<and> i < length ?es \<and> is_cut_point (?es ! i)"
      using that by (metis in_set_conv_nth zero_le)
    then obtain c where c: "?k \<le> c" "c < length ?es" "is_cut_point (?es ! c)"
      "\<forall>i. ?k \<le> i \<and> i < c \<longrightarrow> entry_type (?es ! i) \<noteq> MessageT"
      using spec by blast
    obtain m where m: "getMessageFromEntryForCompaction (?es ! c) = Some m" "\<not> is_tool_result m"
      using cut_point_message [OF c(3)] by blast
    show ?thesis
      using slice_skip [OF c(1,2) m(1) c(4)] m(2) c(4) no_message_no_result unfolding p by blast
  qed
  ultimately show ?thesis
    using compactable_after by (simp add: slice_all compactable_messages_def es)
qed

text \<open>C38 (safety). Preparing a compaction loses no message and reorders none: what is summarised, the prefix of a split turn and
  what is retained make up the compactable messages, which after an earlier compaction are its retained
  tail and what came later. The retained tail never begins with a tool result cut off from its call,
  unless the messages hold no other place to cut.\<close>

theorem compaction_partitions_messages:
  assumes "prepareCompaction show_number path settings = Some p"
  shows "pr_messagesToSummarize p @ pr_turnPrefixMessages p @ pr_retainedTail p = compactable_messages path
    \<and> ((\<exists>e \<in> set (snd (compactable_entries path (last_compaction path (length path)))). is_cut_point e) \<longrightarrow>
        (\<exists>m rest. pr_retainedTail p = m # rest \<and> \<not> is_tool_result m))
    \<and> (\<forall>before c after summary retained tokens details us. path = before @ c # after
        \<longrightarrow> entry_body c = CompactionBody summary retained tokens details us \<longrightarrow> (\<forall>e \<in> set after. entry_type e \<noteq> CompactionT)
        \<longrightarrow> compactable_messages path = retained @ List.map_filter getMessageFromEntryForCompaction after)"
  using assms by (rule partition_messages)

definition sample_user :: "string \<Rightarrow> entry" where
  "sample_user i = sample_context_entry (MessageBody (LlmMessage (UserMsg \<lparr>um_content = PlainText (jlit i), um_timestamp = 0\<rparr>)) False)"

lemma compaction_partitions_messages_witness:
  "\<exists>p. prepareCompaction (\<lambda>_. []) [sample_user ''a'', sample_user ''b''] DEFAULT_COMPACTION_SETTINGS = Some p
    \<and> pr_messagesToSummarize p @ pr_turnPrefixMessages p @ pr_retainedTail p
        = compactable_messages [sample_user ''a'', sample_user ''b'']"
proof -
  have "entry_type (sample_user ''b'') = MessageT"
    by (simp add: sample_user_def sample_context_entry_def)
  then obtain p where p: "prepareCompaction (\<lambda>_. []) [sample_user ''a'', sample_user ''b''] DEFAULT_COMPACTION_SETTINGS = Some p"
    by (fastforce simp: prepareCompaction_def Let_def split: prod.splits)
  with compaction_partitions_messages [OF p] show ?thesis by blast
qed

section \<open>File lists\<close>

lemma set_set_add [simp]: "set (set_add x xs) = insert x (set xs)"
  by (auto simp: set_add_def)

lemma distinct_set_add [simp]: "distinct xs \<Longrightarrow> distinct (set_add x xs)"
  by (simp add: set_add_def)

lemma set_set_add_all [simp]: "set (set_add_all ys xs) = set ys \<union> set xs"
  by (induction ys arbitrary: xs) (auto simp: set_add_all_def)

lemma distinct_set_add_all [simp]: "distinct xs \<Longrightarrow> distinct (set_add_all ys xs)"
  by (induction ys arbitrary: xs) (simp_all add: set_add_all_def)

definition ops_distinct :: "file_operations \<Rightarrow> bool" where
  "ops_distinct ops \<longleftrightarrow> distinct (fo_read ops) \<and> distinct (fo_written ops) \<and> distinct (fo_edited ops)"

text \<open>Accumulators only grow.\<close>

definition ops_grow :: "file_operations \<Rightarrow> file_operations \<Rightarrow> bool" where
  "ops_grow ops ops' \<longleftrightarrow> set (fo_read ops) \<subseteq> set (fo_read ops')
    \<and> set (fo_written ops) \<union> set (fo_edited ops) \<subseteq> set (fo_written ops') \<union> set (fo_edited ops')
    \<and> (ops_distinct ops \<longrightarrow> ops_distinct ops')"

lemma ops_grow_refl [simp]: "ops_grow ops ops"
  by (simp add: ops_grow_def)

lemma ops_grow_trans [trans]: "ops_grow a b \<Longrightarrow> ops_grow b c \<Longrightarrow> ops_grow a c"
  by (auto simp: ops_grow_def)

lemma ops_grow_fold:
  assumes "\<And>x ops. ops_grow ops (f x ops)"
  shows "ops_grow ops (fold f xs ops)"
  using assms ops_grow_trans by (induction xs arbitrary: ops) (simp, simp, blast)

lemma ops_grow_call: "ops_grow ops (add_call c ops)"
  by (auto simp: ops_grow_def ops_distinct_def add_call_def split: option.splits)

lemma ops_grow_block: "ops_grow ops (case b of ToolCall c \<Rightarrow> add_call c ops | _ \<Rightarrow> ops)"
  by (cases b) (simp_all add: ops_grow_call)

lemma ops_grow_message: "ops_grow ops (extractFileOpsFromMessage m ops)"
  by (auto simp: extractFileOpsFromMessage_def split: agent_message.splits message.splits
      intro!: ops_grow_fold ops_grow_block)

lemma message_keeps:
  "f \<in> set (fo_read ops) \<Longrightarrow> f \<in> set (fo_read (extractFileOpsFromMessage m ops))"
  "f \<in> set (fo_written ops) \<union> set (fo_edited ops) \<Longrightarrow>
    f \<in> set (fo_written (extractFileOpsFromMessage m ops)) \<union> set (fo_edited (extractFileOpsFromMessage m ops))"
  using ops_grow_message [of ops m] by (auto simp: ops_grow_def)

text \<open>The files that the tool calls of a message touch.\<close>

definition touches :: "jstr list \<Rightarrow> agent_message \<Rightarrow> jstr \<Rightarrow> bool" where
  "touches tools m f \<longleftrightarrow> (\<exists>a c. m = LlmMessage (AssistantMsg a) \<and> ToolCall c \<in> set (am_content a)
     \<and> call_name c \<in> set tools \<and> call_path c = Some f)"

lemma fold_reaches:
  assumes "x \<in> set xs" and "\<And>ops. Q (f x ops)" and "\<And>y ops. Q ops \<Longrightarrow> Q (f y ops)"
  shows "Q (fold f xs ops)"
  using assms(1)
proof (induction xs arbitrary: ops)
  case (Cons y ys)
  have keep: "Q ops \<Longrightarrow> Q (fold f ys ops)" for ops
    using assms(3) by (induction ys arbitrary: ops) auto
  from Cons show ?case
    using assms(2) keep by auto
qed simp

lemma message_touches:
  "touches [jlit ''read''] m f \<Longrightarrow> f \<in> set (fo_read (extractFileOpsFromMessage m ops))"
  "touches [jlit ''write'', jlit ''edit''] m f \<Longrightarrow>
    f \<in> set (fo_written (extractFileOpsFromMessage m ops)) \<union> set (fo_edited (extractFileOpsFromMessage m ops))"
proof -
  have reach: "Q (extractFileOpsFromMessage m ops)"
    if "m = LlmMessage (AssistantMsg a)" "ToolCall c \<in> set (am_content a)" "\<And>ops. Q (add_call c ops)"
      "\<And>ops ops'. Q ops \<Longrightarrow> ops_grow ops ops' \<Longrightarrow> Q ops'" for Q a c
    unfolding extractFileOpsFromMessage_def that(1)
    using fold_reaches [of "ToolCall c" "am_content a" Q "\<lambda>b ops. case b of ToolCall c \<Rightarrow> add_call c ops | _ \<Rightarrow> ops" ops]
      that(2,3) that(4) [OF _ ops_grow_block] by simp
  show "touches [jlit ''read''] m f \<Longrightarrow> f \<in> set (fo_read (extractFileOpsFromMessage m ops))"
    unfolding touches_def
    by (elim exE conjE, rule reach [where Q = "\<lambda>ops. f \<in> set (fo_read ops)"])
       (auto simp: add_call_def ops_grow_def)
  show "touches [jlit ''write'', jlit ''edit''] m f \<Longrightarrow>
    f \<in> set (fo_written (extractFileOpsFromMessage m ops)) \<union> set (fo_edited (extractFileOpsFromMessage m ops))"
    unfolding touches_def
    by (elim exE conjE, rule reach [where Q = "\<lambda>ops. f \<in> set (fo_written ops) \<union> set (fo_edited ops)"])
       (auto simp: add_call_def ops_grow_def jlit_def)
qed

lemma prepared_fileOps:
  assumes "prepareCompaction show_number path settings = Some p"
  shows "pr_fileOps p = fold extractFileOpsFromMessage (pr_messagesToSummarize p @ pr_turnPrefixMessages p)
    (extractFileOperations [] path (last_compaction path (length path)))"
proof -
  obtain prev es where es: "compactable_entries path (last_compaction path (length path)) = (prev, es)"
    by fastforce
  show ?thesis
    using assms unfolding prepareCompaction_def Let_def es prod.case
    by (auto simp: extractFileOperations_def split: if_splits)
qed

lemma ops_distinct_details: "ops_distinct (extractFileOperations [] path i)"
  by (auto simp: extractFileOperations_def ops_distinct_def add_details_def createFileOps_def
      split: option.splits entry_body.splits)

lemma computeFileLists_spec:
  assumes "computeFileLists ops = (r, m)" and "ops_distinct ops"
  shows "sorted r \<and> distinct r \<and> sorted m \<and> distinct m \<and> set r \<inter> set m = {}
    \<and> set m = set (fo_written ops) \<union> set (fo_edited ops) \<and> set (fo_read ops) \<subseteq> set r \<union> set m"
  using assms by (auto simp: computeFileLists_def ops_distinct_def Let_def)

lemma remembered_files:
  assumes "prepareCompaction show_number path settings = Some p"
    and "computeFileLists (pr_fileOps p) = (readFiles, modifiedFiles)"
  shows "sorted readFiles \<and> distinct readFiles \<and> sorted modifiedFiles \<and> distinct modifiedFiles
    \<and> set readFiles \<inter> set modifiedFiles = {}
    \<and> (\<forall>msg \<in> set (pr_messagesToSummarize p @ pr_turnPrefixMessages p). \<forall>f.
        (touches [jlit ''write'', jlit ''edit''] msg f \<longrightarrow> f \<in> set modifiedFiles)
        \<and> (touches [jlit ''read''] msg f \<longrightarrow> f \<in> set readFiles \<union> set modifiedFiles))
    \<and> (\<forall>i summary retained tokens details us. last_compaction path (length path) = Some i
        \<longrightarrow> entry_body (path ! i) = CompactionBody summary retained tokens details us
        \<longrightarrow> set (detail_files details (jlit ''modifiedFiles'')) \<subseteq> set modifiedFiles
          \<and> set (detail_files details (jlit ''readFiles'')) \<subseteq> set readFiles \<union> set modifiedFiles)"
proof -
  let ?base = "extractFileOperations [] path (last_compaction path (length path))"
  let ?msgs = "pr_messagesToSummarize p @ pr_turnPrefixMessages p"
  have ops: "pr_fileOps p = fold extractFileOpsFromMessage ?msgs ?base"
    by (rule prepared_fileOps [OF assms(1)])
  have grow: "ops_grow ?base (pr_fileOps p)"
    unfolding ops by (intro ops_grow_fold ops_grow_message)
  then have "ops_distinct (pr_fileOps p)"
    using ops_distinct_details by (simp add: ops_grow_def)
  note lists = computeFileLists_spec [OF assms(2) this]
  have written: "f \<in> set (fo_written (pr_fileOps p)) \<union> set (fo_edited (pr_fileOps p))"
    if "msg \<in> set ?msgs" "touches [jlit ''write'', jlit ''edit''] msg f" for msg f
    unfolding ops
    using that(1) message_touches(2) [OF that(2)] message_keeps(2)
    by (rule fold_reaches [of msg ?msgs "\<lambda>ops. f \<in> set (fo_written ops) \<union> set (fo_edited ops)"])
  have read: "f \<in> set (fo_read (pr_fileOps p))"
    if "msg \<in> set ?msgs" "touches [jlit ''read''] msg f" for msg f
    unfolding ops
    using that(1) message_touches(1) [OF that(2)] message_keeps(1)
    by (rule fold_reaches [of msg ?msgs "\<lambda>ops. f \<in> set (fo_read ops)"])
  have previous: "set (detail_files details (jlit ''modifiedFiles'')) \<subseteq> set modifiedFiles
      \<and> set (detail_files details (jlit ''readFiles'')) \<subseteq> set readFiles \<union> set modifiedFiles"
    if "last_compaction path (length path) = Some i"
      "entry_body (path ! i) = CompactionBody summary retained tokens details us" for i summary retained tokens details us
  proof -
    have "?base = add_details details createFileOps"
      using that by (simp add: extractFileOperations_def)
    then show ?thesis
      using grow lists by (auto simp: ops_grow_def add_details_def createFileOps_def)
  qed
  show ?thesis
    using lists written read previous by blast
qed

text \<open>No file is forgotten by compacting again and again: the sorted lists that a summary carries are free of
  duplicates and disjoint, and contain every file that the summarised tool calls wrote, edited or read
  and every file on the lists of the previous compaction; a modified file stays modified.\<close>

theorem compaction_remembers_files:
  assumes "prepareCompaction show_number path settings = Some p"
    and "computeFileLists (pr_fileOps p) = (readFiles, modifiedFiles)"
  shows "sorted readFiles \<and> distinct readFiles \<and> sorted modifiedFiles \<and> distinct modifiedFiles
    \<and> set readFiles \<inter> set modifiedFiles = {}
    \<and> (\<forall>msg \<in> set (pr_messagesToSummarize p @ pr_turnPrefixMessages p). \<forall>f.
        (touches [jlit ''write'', jlit ''edit''] msg f \<longrightarrow> f \<in> set modifiedFiles)
        \<and> (touches [jlit ''read''] msg f \<longrightarrow> f \<in> set readFiles \<union> set modifiedFiles))
    \<and> (\<forall>i summary retained tokens details us. last_compaction path (length path) = Some i
        \<longrightarrow> entry_body (path ! i) = CompactionBody summary retained tokens details us
        \<longrightarrow> set (detail_files details (jlit ''modifiedFiles'')) \<subseteq> set modifiedFiles
          \<and> set (detail_files details (jlit ''readFiles'')) \<subseteq> set readFiles \<union> set modifiedFiles)"
  using assms by (rule remembered_files)

lemma compaction_remembers_files_witness:
  "\<exists>p r m. prepareCompaction (\<lambda>_. []) [sample_user ''a'', sample_user ''b''] DEFAULT_COMPACTION_SETTINGS = Some p
    \<and> computeFileLists (pr_fileOps p) = (r, m) \<and> sorted m"
proof -
  have "entry_type (sample_user ''b'') = MessageT"
    by (simp add: sample_user_def sample_context_entry_def)
  then obtain p where p: "prepareCompaction (\<lambda>_. []) [sample_user ''a'', sample_user ''b''] DEFAULT_COMPACTION_SETTINGS = Some p"
    by (fastforce simp: prepareCompaction_def Let_def split: prod.splits)
  obtain r m where rm: "computeFileLists (pr_fileOps p) = (r, m)"
    by fastforce
  have "sorted m" using compaction_remembers_files [OF p rm] by blast
  with p rm show ?thesis by blast
qed

end
