(* ===== verification/Compaction_Run.thy ===== *)
theory Compaction_Run
  imports Compaction_Facts
begin

text \<open>
  Running a compaction: the summarisation requests and what becomes of their answers
  (\<open>packages/agent/src/harness/compaction/compaction.ts\<close>, second part, and the serialisation of
  \<open>utils.ts\<close>). The models service, with its retries, is an argument that answers a request in a
  state \<open>'w\<close> of the world; \<open>clock\<close> reads the time of that world.
\<close>

section \<open>Serialisation\<close>

definition TOOL_RESULT_MAX_CHARS :: nat where "TOOL_RESULT_MAX_CHARS = 2000"

definition truncateForSummary :: "jstr \<Rightarrow> nat \<Rightarrow> jstr" where
  "truncateForSummary text maxChars =
     (if length text \<le> maxChars then text
      else take maxChars text @ nl @ nl @ jlit ''[... '' @ show_nat (length text - maxChars)
        @ jlit '' more characters truncated]'')"

definition call_text :: "(js_number \<Rightarrow> jstr) \<Rightarrow> tool_call \<Rightarrow> jstr" where
  "call_text show_number c = call_name c @ jlit ''(''
     @ join_text (jlit '', '') (map (\<lambda>(k, v). k @ jlit ''='' @ safeJsonStringify show_number v) (call_arguments c))
     @ jlit '')''"

definition message_parts :: "(js_number \<Rightarrow> jstr) \<Rightarrow> message \<Rightarrow> jstr list" where
  "message_parts show_number msg = (case msg of
      UserMsg u \<Rightarrow>
        (let content = contentText (um_content u) []
         in if content \<noteq> [] then [jlit ''[User]: '' @ content] else [])
    | AssistantMsg a \<Rightarrow>
        (let thinking = List.map_filter (\<lambda>b. case b of ThinkingContent t _ _ \<Rightarrow> Some t | _ \<Rightarrow> None) (am_content a);
             calls = map (call_text show_number) (List.map_filter (\<lambda>b. case b of ToolCall c \<Rightarrow> Some c | _ \<Rightarrow> None) (am_content a))
         in (if length thinking > 0 then [jlit ''[Assistant thinking]: '' @ join_text nl thinking] else [])
          @ (if text_blocks (am_content a) \<noteq> [] then [jlit ''[Assistant]: '' @ contentText (Blocks (am_content a)) nl] else [])
          @ (if length calls > 0 then [jlit ''[Assistant tool calls]: '' @ join_text (jlit ''; '') calls] else []))
    | ToolResultMsg t \<Rightarrow>
        (let content = contentText (Blocks (tr_content t)) []
         in if content \<noteq> [] then [jlit ''[Tool result]: '' @ truncateForSummary content TOOL_RESULT_MAX_CHARS] else []))"

definition serializeConversation :: "(js_number \<Rightarrow> jstr) \<Rightarrow> message list \<Rightarrow> jstr" where
  "serializeConversation show_number messages = join_text (nl @ nl) (concat (map (message_parts show_number) messages))"

section \<open>Requests\<close>

record summary_model =
  mo_maxTokens :: int
  mo_reasoning :: bool
  mo_contextWindow :: int

record summary_request =
  sr_systemPrompt :: jstr
  sr_prompt :: jstr
  sr_timestamp :: int
  sr_maxTokens :: int
  sr_reasoning :: "jstr option"

type_synonym 'w models = "summary_request \<Rightarrow> 'w \<Rightarrow> assistant_message \<times> 'w"

datatype compaction_error = SummaryAborted jstr | SummarizationFailed jstr

definition min_tokens :: "int \<Rightarrow> summary_model \<Rightarrow> int" where
  "min_tokens budget model = (if mo_maxTokens model > 0 then min budget (mo_maxTokens model) else budget)"

definition reasoning_option :: "summary_model \<Rightarrow> jstr option \<Rightarrow> jstr option" where
  "reasoning_option model thinkingLevel = (case thinkingLevel of
      Some level \<Rightarrow> if mo_reasoning model \<and> level \<noteq> [] \<and> level \<noteq> jlit ''off'' then Some level else None
    | None \<Rightarrow> None)"

definition summary_answer :: "string \<Rightarrow> string \<Rightarrow> assistant_message \<Rightarrow> compaction_error + (jstr \<times> usage)" where
  "summary_answer aborted failed response =
     (if am_stopReason response = AbortedStop then Inl (SummaryAborted (or_text (am_errorMessage response) (jlit aborted)))
      else if am_stopReason response = ErrorStop
      then Inl (SummarizationFailed (jlit failed @ or_text (am_errorMessage response) (jlit ''Unknown error'')))
      else Inr (contentText (Blocks (am_content response)) nl, am_usage response))"

text \<open>\<open>Math.floor(0.8 * reserveTokens)\<close>: the double nearest to 0.8 is slightly larger, too little to reach
  the next integer for any token count.\<close>

definition generateSummaryWithUsage ::
  "(js_number \<Rightarrow> jstr) \<Rightarrow> ('w \<Rightarrow> int) \<Rightarrow> 'w models \<Rightarrow> summary_model \<Rightarrow> int \<Rightarrow> jstr option \<Rightarrow> jstr option \<Rightarrow> jstr option
    \<Rightarrow> agent_message list \<Rightarrow> 'w \<Rightarrow> (compaction_error + (jstr \<times> usage)) \<times> 'w" where
  "generateSummaryWithUsage show_number clock models model reserveTokens customInstructions previousSummary thinkingLevel
     currentMessages w =
     (let maxTokens = min_tokens (4 * reserveTokens div 5) model;
          basePrompt = (if or_text previousSummary [] \<noteq> [] then UPDATE_SUMMARIZATION_PROMPT else SUMMARIZATION_PROMPT);
          basePrompt = (if or_text customInstructions [] \<noteq> []
            then basePrompt @ nl @ nl @ jlit ''Additional focus: '' @ or_text customInstructions [] else basePrompt);
          conversationText = serializeConversation show_number (convertToLlm currentMessages);
          promptText = jlit ''<conversation>'' @ nl @ conversationText @ nl @ jlit ''</conversation>'' @ nl @ nl;
          promptText = (if or_text previousSummary [] \<noteq> []
            then promptText @ jlit ''<previous-summary>'' @ nl @ or_text previousSummary [] @ nl
              @ jlit ''</previous-summary>'' @ nl @ nl
            else promptText);
          (response, w) = models \<lparr>sr_systemPrompt = SUMMARIZATION_SYSTEM_PROMPT, sr_prompt = promptText @ basePrompt,
            sr_timestamp = clock w, sr_maxTokens = maxTokens, sr_reasoning = reasoning_option model thinkingLevel\<rparr> w
      in (summary_answer ''Summarization aborted'' ''Summarization failed: '' response, w))"

definition generateTurnPrefixSummary ::
  "(js_number \<Rightarrow> jstr) \<Rightarrow> ('w \<Rightarrow> int) \<Rightarrow> 'w models \<Rightarrow> summary_model \<Rightarrow> int \<Rightarrow> jstr option \<Rightarrow> agent_message list \<Rightarrow> 'w
    \<Rightarrow> (compaction_error + (jstr \<times> usage)) \<times> 'w" where
  "generateTurnPrefixSummary show_number clock models model reserveTokens thinkingLevel messages w =
     (let maxTokens = min_tokens (reserveTokens div 2) model;
          conversationText = serializeConversation show_number (convertToLlm messages);
          promptText = jlit ''<conversation>'' @ nl @ conversationText @ nl @ jlit ''</conversation>'' @ nl @ nl
            @ TURN_PREFIX_SUMMARIZATION_PROMPT;
          (response, w) = models \<lparr>sr_systemPrompt = SUMMARIZATION_SYSTEM_PROMPT, sr_prompt = promptText,
            sr_timestamp = clock w, sr_maxTokens = maxTokens, sr_reasoning = reasoning_option model thinkingLevel\<rparr> w
      in (summary_answer ''Turn prefix summarization aborted'' ''Turn prefix summarization failed: '' response, w))"

section \<open>The compaction\<close>

definition add_optional :: "int option \<Rightarrow> int option \<Rightarrow> int option" where
  "add_optional a b = (if a \<noteq> None \<or> b \<noteq> None
     then Some ((case a of None \<Rightarrow> 0 | Some x \<Rightarrow> x) + (case b of None \<Rightarrow> 0 | Some y \<Rightarrow> y)) else None)"

definition combineUsage :: "usage \<Rightarrow> usage \<Rightarrow> usage" where
  "combineUsage a b = \<lparr>
     u_input = u_input a + u_input b,
     u_output = u_output a + u_output b,
     u_cacheRead = u_cacheRead a + u_cacheRead b,
     u_cacheWrite = u_cacheWrite a + u_cacheWrite b,
     u_cacheWrite1h = add_optional (u_cacheWrite1h a) (u_cacheWrite1h b),
     u_reasoning = add_optional (u_reasoning a) (u_reasoning b),
     u_totalTokens = u_totalTokens a + u_totalTokens b,
     u_cost = \<lparr>
       cost_input = cost_input (u_cost a) + cost_input (u_cost b),
       cost_output = cost_output (u_cost a) + cost_output (u_cost b),
       cost_cacheRead = cost_cacheRead (u_cost a) + cost_cacheRead (u_cost b),
       cost_cacheWrite = cost_cacheWrite (u_cost a) + cost_cacheWrite (u_cost b),
       cost_total = cost_total (u_cost a) + cost_total (u_cost b)\<rparr>\<rparr>"

record compact_result =
  co_summary :: jstr
  co_tokensBefore :: int
  co_usage :: usage
  co_retainedTail :: "agent_message list"
  co_readFiles :: "jstr list"
  co_modifiedFiles :: "jstr list"

definition compact_summary ::
  "(js_number \<Rightarrow> jstr) \<Rightarrow> ('w \<Rightarrow> int) \<Rightarrow> 'w models \<Rightarrow> summary_model \<Rightarrow> jstr option \<Rightarrow> jstr option \<Rightarrow> compaction_preparation \<Rightarrow> 'w
    \<Rightarrow> (compaction_error + (jstr \<times> usage)) \<times> 'w" where
  "compact_summary show_number clock models model customInstructions thinkingLevel p w =
     (let reserve = cs_reserveTokens (pr_settings p);
          history = generateSummaryWithUsage show_number clock models model reserve customInstructions
            (pr_previousSummary p) thinkingLevel (pr_messagesToSummarize p)
      in if pr_isSplitTurn p \<and> length (pr_turnPrefixMessages p) > 0
         then then_result
           (if length (pr_messagesToSummarize p) > 0
            then then_result (history w) (\<lambda>(text, u) w. (Inr (text, Some u), w))
            else (Inr (jlit ''No prior history.'', None), w))
           (\<lambda>(historyText, historyUsage) w. then_result
             (generateTurnPrefixSummary show_number clock models model reserve thinkingLevel (pr_turnPrefixMessages p) w)
             (\<lambda>(prefixText, prefixUsage) w. (Inr
               (historyText @ nl @ nl @ jlit ''---'' @ nl @ nl @ jlit ''**Turn Context (split turn):**'' @ nl @ nl @ prefixText,
                case historyUsage of None \<Rightarrow> prefixUsage | Some u \<Rightarrow> combineUsage u prefixUsage), w)))
         else history w)"

definition compact ::
  "(js_number \<Rightarrow> jstr) \<Rightarrow> ('w \<Rightarrow> int) \<Rightarrow> 'w models \<Rightarrow> summary_model \<Rightarrow> jstr option \<Rightarrow> jstr option \<Rightarrow> compaction_preparation \<Rightarrow> 'w
    \<Rightarrow> (compaction_error + compact_result) \<times> 'w" where
  "compact show_number clock models model customInstructions thinkingLevel p w =
     then_result (compact_summary show_number clock models model customInstructions thinkingLevel p w)
       (\<lambda>(summary, u) w. let (readFiles, modifiedFiles) = computeFileLists (pr_fileOps p)
         in (Inr \<lparr>co_summary = summary @ formatFileOperations readFiles modifiedFiles,
              co_tokensBefore = pr_tokensBefore p, co_usage = u, co_retainedTail = pr_retainedTail p,
              co_readFiles = readFiles, co_modifiedFiles = modifiedFiles\<rparr>, w))"

text \<open>The details of the result, as the value that an entry stores.\<close>

definition compaction_details :: "compact_result \<Rightarrow> json" where
  "compaction_details r = JObj () plain_object
     [(jlit ''readFiles'', JArr () PlainArray (map JStr (co_readFiles r))),
      (jlit ''modifiedFiles'', JArr () PlainArray (map JStr (co_modifiedFiles r)))]"

section \<open>Rounds of compaction\<close>

lemma compact_Inr:
  assumes "compact show_number clock models model customInstructions thinkingLevel p w = (Inr r, w')"
  shows "co_retainedTail r = pr_retainedTail p \<and> co_tokensBefore r = pr_tokensBefore p
    \<and> computeFileLists (pr_fileOps p) = (co_readFiles r, co_modifiedFiles r)"
  using assms by (cases "computeFileLists (pr_fileOps p)") (auto simp: compact_def then_result_Inr)

lemma map_filter_JStr: "List.map_filter (\<lambda>v. case v of JStr f \<Rightarrow> Some f | _ \<Rightarrow> None) (map JStr fs) = fs"
  by (induction fs) (simp_all add: map_filter_simps)

lemma detail_files_details:
  "detail_files (Some (compaction_details r)) (jlit ''readFiles'') = co_readFiles r"
  "detail_files (Some (compaction_details r)) (jlit ''modifiedFiles'') = co_modifiedFiles r"
  by (simp_all add: detail_files_def compaction_details_def map_filter_JStr jlit_def)

lemma prepared_previousSummary:
  assumes "prepareCompaction show_number path settings = Some p"
  shows "pr_previousSummary p = fst (compactable_entries path (last_compaction path (length path)))"
proof -
  obtain prev es where es: "compactable_entries path (last_compaction path (length path)) = (prev, es)"
    by fastforce
  show ?thesis
    using assms unfolding prepareCompaction_def Let_def es prod.case by (auto split: if_splits)
qed

text \<open>Rounds of compaction compose: when the result of one compaction has been stored, the next one works
  on exactly the retained tail of the first and the messages that came later, updates the stored
  summary, and keeps every file of its lists.\<close>

theorem compaction_rounds_compose:
  assumes "compact show_number clock models model customInstructions thinkingLevel p w = (Inr r, w')"
    and "entry_body c = CompactionBody (co_summary r) (co_retainedTail r) (co_tokensBefore r) (Some (compaction_details r)) us"
    and "\<forall>e \<in> set after. entry_type e \<noteq> CompactionT"
    and "prepareCompaction show_number (before @ c # after) settings = Some p'"
    and "computeFileLists (pr_fileOps p') = (readFiles, modifiedFiles)"
  shows "pr_previousSummary p' = Some (co_summary r)
    \<and> pr_messagesToSummarize p' @ pr_turnPrefixMessages p' @ pr_retainedTail p'
        = pr_retainedTail p @ List.map_filter getMessageFromEntryForCompaction after
    \<and> set (co_modifiedFiles r) \<subseteq> set modifiedFiles
    \<and> set (co_readFiles r) \<subseteq> set readFiles \<union> set modifiedFiles"
proof -
  let ?path = "before @ c # after"
  have tail: "co_retainedTail r = pr_retainedTail p"
    using compact_Inr [OF assms(1)] by simp
  have newest: "last_compaction ?path (length ?path) = Some (length before)"
    using assms(2,3) by (intro last_compaction_Some) (auto simp: nth_append nth_Cons split: nat.splits)
  have "pr_previousSummary p' = Some (co_summary r)"
    unfolding prepared_previousSummary [OF assms(4)] newest
    by (simp add: compactable_entries_def assms(2))
  moreover have "pr_messagesToSummarize p' @ pr_turnPrefixMessages p' @ pr_retainedTail p'
      = pr_retainedTail p @ List.map_filter getMessageFromEntryForCompaction after"
    using partition_messages [OF assms(4)] compactable_after [OF assms(2,3)] tail by simp
  moreover have "set (co_modifiedFiles r) \<subseteq> set modifiedFiles \<and> set (co_readFiles r) \<subseteq> set readFiles \<union> set modifiedFiles"
  proof -
    have "entry_body (?path ! length before) = CompactionBody (co_summary r) (co_retainedTail r) (co_tokensBefore r)
        (Some (compaction_details r)) us"
      by (simp add: assms(2))
    with remembered_files [OF assms(4,5)] newest show ?thesis
      unfolding detail_files_details [symmetric] by blast
  qed
  ultimately show ?thesis by blast
qed

definition sample_response :: assistant_message where
  "sample_response = \<lparr>am_content = [TextContent (jlit ''summary'') None], am_api = [], am_provider = [], am_model = [],
     am_responseModel = None, am_responseId = None, am_diagnostics = None,
     am_usage = \<lparr>u_input = 1, u_output = 1, u_cacheRead = 0, u_cacheWrite = 0, u_cacheWrite1h = None, u_reasoning = None,
       u_totalTokens = 2, u_cost = \<lparr>cost_input = 0, cost_output = 0, cost_cacheRead = 0, cost_cacheWrite = 0, cost_total = 0\<rparr>\<rparr>,
     am_stopReason = StopStop, am_deferred = None, am_errorMessage = None, am_rawStopReason = None, am_endTurn = None,
     am_timestamp = 0\<rparr>"

definition sample_preparation :: compaction_preparation where
  "sample_preparation = \<lparr>pr_messagesToSummarize = [], pr_turnPrefixMessages = [],
     pr_retainedTail = [LlmMessage (AssistantMsg sample_response)], pr_isSplitTurn = False, pr_tokensBefore = 5,
     pr_previousSummary = None, pr_fileOps = \<lparr>fo_read = [jlit ''f''], fo_written = [], fo_edited = []\<rparr>,
     pr_settings = DEFAULT_COMPACTION_SETTINGS\<rparr>"

lemma sample_not_split: "pr_isSplitTurn sample_preparation = False"
  by (simp add: sample_preparation_def)

lemma compaction_rounds_compose_witness:
  "\<exists>r c p'. compact (\<lambda>_. []) (\<lambda>_. 0) (\<lambda>_ w. (sample_response, w))
        \<lparr>mo_maxTokens = 0, mo_reasoning = False, mo_contextWindow = 0\<rparr> None None sample_preparation () = (Inr r, ())
    \<and> prepareCompaction (\<lambda>_. []) ([] @ c # [sample_user ''z'']) DEFAULT_COMPACTION_SETTINGS = Some p'
    \<and> pr_previousSummary p' = Some (co_summary r)"
proof -
  obtain r where r: "compact (\<lambda>_. []) (\<lambda>_. 0) (\<lambda>_ w. (sample_response, w))
        \<lparr>mo_maxTokens = 0, mo_reasoning = False, mo_contextWindow = 0\<rparr> None None sample_preparation () = (Inr r, ())"
    by (cases "computeFileLists (pr_fileOps sample_preparation)")
      (simp add: compact_def compact_summary_def sample_not_split generateSummaryWithUsage_def Let_def
        then_result_def summary_answer_def sample_response_def)
  define c where "c = sample_context_entry (CompactionBody (co_summary r) (co_retainedTail r) (co_tokensBefore r)
    (Some (compaction_details r)) None)"
  have user: "entry_type (sample_user ''z'') = MessageT"
    by (simp add: sample_user_def sample_context_entry_def)
  then obtain p' where p': "prepareCompaction (\<lambda>_. []) ([] @ c # [sample_user ''z'']) DEFAULT_COMPACTION_SETTINGS = Some p'"
    by (fastforce simp: prepareCompaction_def Let_def split: prod.splits)
  obtain rf mf where lists: "computeFileLists (pr_fileOps p') = (rf, mf)"
    by fastforce
  have c: "entry_body c = CompactionBody (co_summary r) (co_retainedTail r) (co_tokensBefore r) (Some (compaction_details r)) None"
    by (simp add: c_def sample_context_entry_def)
  have "\<forall>e \<in> set [sample_user ''z'']. entry_type e \<noteq> CompactionT"
    using user by simp
  from compaction_rounds_compose [OF r c this p' lists] r p' show ?thesis by blast
qed

end
