(* ===== verification/Branch_Summary.thy ===== *)
theory Branch_Summary
  imports Compaction_Run Session_Facade
begin

text \<open>
  The summary of a branch that is being left
  (\<open>packages/agent/src/harness/compaction/branch-summarization.ts\<close>): which entries it covers, which of
  their messages fit into the budget, and the request.
\<close>

section \<open>The entries of a branch\<close>

record collect_entries_result =
  cr_entries :: "entry list"
  cr_commonAncestorId :: "jstr option"

text \<open>
  The parent links of any storage are followed, so the loop ends only where they do. A missing entry is
  the \<open>invalid_entry\<close> error that \<open>BranchEntryMissing\<close> stands for.
\<close>

partial_function (option) collect_up ::
  "'s storage_ops \<Rightarrow> 's \<Rightarrow> jstr option \<Rightarrow> entry list \<Rightarrow> jstr option \<Rightarrow> (session_error + entry list) option" where
  "collect_up st s commonAncestorId es current =
     (if current \<in> {None, Some []} \<or> current = commonAncestorId then Some (Inr es)
      else (case op_getEntry st s (the current) of
          None \<Rightarrow> Some (Inl (BranchEntryMissing (the current)))
        | Some e \<Rightarrow> collect_up st s commonAncestorId (es @ [e]) (entry_parentId e)))"

definition branch_from :: "jstr \<Rightarrow> branch_query" where
  "branch_from i = \<lparr>eq_type = None, eq_customType = None, eq_order = None, eq_limit = None, eq_cursor = None,
     bq_start = Some i, bq_stopAtType = None, bq_stopAtId = None\<rparr>"

definition collectEntriesForBranchSummary ::
  "'s storage_ops \<Rightarrow> 's \<Rightarrow> jstr option \<Rightarrow> jstr \<Rightarrow> (session_error + collect_entries_result) option" where
  "collectEntriesForBranchSummary st s oldLeafId targetId =
     (if oldLeafId \<in> {None, Some []} then Some (Inr \<lparr>cr_entries = [], cr_commonAncestorId = None\<rparr>)
      else case try_bind (queryBranchEntries st main_lane (branch_from (the oldLeafId)) None s) (\<lambda>old.
             try_bind (queryBranchEntries st main_lane (branch_from targetId) None s) (\<lambda>target.
               Inr (map_option entry_id (List.find (\<lambda>e. entry_id e \<in> entry_id ` set old) target)))) of
          Inl err \<Rightarrow> Some (Inl err)
        | Inr commonAncestorId \<Rightarrow> map_option (\<lambda>r. try_bind r (\<lambda>es.
            Inr \<lparr>cr_entries = rev es, cr_commonAncestorId = commonAncestorId\<rparr>))
            (collect_up st s commonAncestorId [] oldLeafId))"

section \<open>The messages of a branch\<close>

definition branch_message :: "entry \<Rightarrow> agent_message option" where
  "branch_message e = (case entry_body e of
      MessageBody m _ \<Rightarrow> (case m of LlmMessage (ToolResultMsg _) \<Rightarrow> None | _ \<Rightarrow> Some m)
    | BranchSummaryBody fromId summary _ _ \<Rightarrow>
        Some (BranchSummaryMsg (createBranchSummaryMessage (\<lambda>_. 0) summary fromId (Inr (entry_timestamp e))))
    | CompactionBody summary _ tokensBefore _ _ \<Rightarrow>
        Some (CompactionSummaryMsg (createCompactionSummaryMessage (\<lambda>_. 0) summary tokensBefore (Inr (entry_timestamp e))))
    | _ \<Rightarrow> None)"

record branch_preparation =
  bp_messages :: "agent_message list"
  bp_fileOps :: file_operations
  bp_totalTokens :: int

definition summarised_files :: "entry \<Rightarrow> file_operations \<Rightarrow> file_operations" where
  "summarised_files e ops = (case entry_body e of
      BranchSummaryBody _ _ details _ \<Rightarrow> add_details details ops
    | _ \<Rightarrow> ops)"

definition unshift_message :: "agent_message \<Rightarrow> nat \<Rightarrow> branch_preparation \<Rightarrow> branch_preparation" where
  "unshift_message m tokens p = p\<lparr>bp_messages := m # bp_messages p, bp_totalTokens := bp_totalTokens p + int tokens\<rparr>"

text \<open>
  The loop over the entries from the newest on. \<open>tokenBudget * 0.9\<close> is compared as a fraction; the
  double nearest to 0.9 is too close to it for the comparison with a whole number to change.
\<close>

fun select_messages :: "(js_number \<Rightarrow> jstr) \<Rightarrow> int \<Rightarrow> entry list \<Rightarrow> branch_preparation \<Rightarrow> branch_preparation" where
  "select_messages show_number tokenBudget [] p = p"
| "select_messages show_number tokenBudget (e # es) p = (case branch_message e of
      None \<Rightarrow> select_messages show_number tokenBudget es p
    | Some m \<Rightarrow>
        (let p = p\<lparr>bp_fileOps := extractFileOpsFromMessage m (bp_fileOps p)\<rparr>;
             tokens = estimateTokens show_number m
         in if tokenBudget > 0 \<and> bp_totalTokens p + int tokens > tokenBudget
            then (if entry_type e \<in> {CompactionT, BranchSummaryT} \<and> 10 * bp_totalTokens p < 9 * tokenBudget
                  then unshift_message m tokens p else p)
            else select_messages show_number tokenBudget es (unshift_message m tokens p)))"

definition prepareBranchEntries :: "(js_number \<Rightarrow> jstr) \<Rightarrow> entry list \<Rightarrow> int \<Rightarrow> branch_preparation" where
  "prepareBranchEntries show_number entries tokenBudget =
     select_messages show_number tokenBudget (rev entries)
       \<lparr>bp_messages = [], bp_fileOps = fold summarised_files entries createFileOps, bp_totalTokens = 0\<rparr>"

section \<open>The request\<close>

record branch_summary_result =
  br_summary :: jstr
  br_usage :: "usage option"
  br_readFiles :: "jstr list"
  br_modifiedFiles :: "jstr list"

definition branch_instructions :: "jstr option \<Rightarrow> bool \<Rightarrow> jstr" where
  "branch_instructions customInstructions replaceInstructions =
     (let custom = or_text customInstructions []
      in if replaceInstructions \<and> custom \<noteq> [] then custom
         else if custom \<noteq> [] then BRANCH_SUMMARY_PROMPT @ nl @ nl @ jlit ''Additional focus: '' @ custom
         else BRANCH_SUMMARY_PROMPT)"

definition generateBranchSummary ::
  "(js_number \<Rightarrow> jstr) \<Rightarrow> ('w \<Rightarrow> int) \<Rightarrow> 'w models \<Rightarrow> summary_model \<Rightarrow> jstr option \<Rightarrow> bool \<Rightarrow> int option \<Rightarrow> entry list \<Rightarrow> 'w
    \<Rightarrow> (compaction_error + branch_summary_result) \<times> 'w" where
  "generateBranchSummary show_number clock models model customInstructions replaceInstructions reserveTokens entries w =
     (let contextWindow = (if mo_contextWindow model \<noteq> 0 then mo_contextWindow model else 128000);
          tokenBudget = contextWindow - (case reserveTokens of None \<Rightarrow> 16384 | Some n \<Rightarrow> n);
          p = prepareBranchEntries show_number entries tokenBudget
      in if length (bp_messages p) = 0
         then (Inr \<lparr>br_summary = jlit ''No content to summarize'', br_usage = None, br_readFiles = [], br_modifiedFiles = []\<rparr>, w)
         else
           (let conversationText = serializeConversation show_number (convertToLlm (bp_messages p));
                promptText = jlit ''<conversation>'' @ nl @ conversationText @ nl @ jlit ''</conversation>'' @ nl @ nl
                  @ branch_instructions customInstructions replaceInstructions;
                (response, w) = models \<lparr>sr_systemPrompt = SUMMARIZATION_SYSTEM_PROMPT, sr_prompt = promptText,
                  sr_timestamp = clock w, sr_maxTokens = 2048, sr_reasoning = None\<rparr> w
            in (case summary_answer ''Branch summary aborted'' ''Branch summary failed: '' response of
                  Inl err \<Rightarrow> Inl err
                | Inr (text, u) \<Rightarrow>
                    (let (readFiles, modifiedFiles) = computeFileLists (bp_fileOps p);
                         summary = BRANCH_SUMMARY_PREAMBLE @ text @ formatFileOperations readFiles modifiedFiles
                     in Inr \<lparr>br_summary = (if summary \<noteq> [] then summary else jlit ''No summary generated''),
                          br_usage = Some u, br_readFiles = readFiles, br_modifiedFiles = modifiedFiles\<rparr>), w)))"

section \<open>What is collected\<close>

lemma branch_suffix: "branch es i (front @ e # rest) \<Longrightarrow> branch es (entry_id e) (e # rest)"
proof (induction front arbitrary: i)
  case Nil
  then have "entry_id e = i" using branch_head by fastforce
  with Nil show ?case by simp
next
  case (Cons a front)
  from Cons.prems obtain p where "branch es p (front @ e # rest)" by (auto elim: branchE)
  then show ?case by (rule Cons.IH)
qed

lemma branch_entries: "branch es i path \<Longrightarrow> set path \<subseteq> set es"
  by (induction rule: branch.induct) auto

lemma collect_up_path:
  assumes "branch es i path" and "\<forall>e \<in> set es. op_getEntry st s (entry_id e) = Some e \<and> entry_id e \<noteq> []"
  shows "collect_up st s ca acc (Some i) = Some (Inr (acc @ takeWhile (\<lambda>e. Some (entry_id e) \<noteq> ca) path))"
  using assms(1)
proof (induction arbitrary: acc rule: branch.induct)
  case (branch_root e)
  then show ?case
    using assms(2) by (auto simp: collect_up.simps [where current = "Some (entry_id e)"] collect_up.simps [where current = None])
next
  case (branch_step e p path)
  then show ?case
    using assms(2) by (auto simp: collect_up.simps [where current = "Some (entry_id e)"])
qed

text \<open>Two paths of one tree meet in the deepest common ancestor and are the same from there on.\<close>

lemma branches_meet:
  assumes "distinct (map entry_id es)" and "branch es i old" and "branch es j target"
  obtains below below' shared where "old = below @ shared" and "target = below' @ shared"
    and "entry_id ` set below \<inter> entry_id ` set below' = {}"
    and "List.find (\<lambda>e. entry_id e \<in> entry_id ` set old) target = (case shared of [] \<Rightarrow> None | e # _ \<Rightarrow> Some e)"
    and "takeWhile (\<lambda>e. Some (entry_id e) \<noteq> (case shared of [] \<Rightarrow> None | e # _ \<Rightarrow> Some (entry_id e))) old = below"
proof (cases "\<exists>e \<in> set target. entry_id e \<in> entry_id ` set old")
  case False
  then have "List.find (\<lambda>e. entry_id e \<in> entry_id ` set old) target = None" by (auto simp: find_None_iff)
  moreover have "entry_id ` set old \<inter> entry_id ` set target = {}" using False by (auto simp: set_eq_iff image_iff)
  ultimately show ?thesis using that [of old "[]" target] by simp
next
  case True
  from split_list_first_prop [OF True] obtain below' e rest where t: "target = below' @ e # rest"
    and e: "entry_id e \<in> entry_id ` set old" and new: "\<forall>x \<in> set below'. entry_id x \<notin> entry_id ` set old" by blast
  from e have "\<exists>x \<in> set old. entry_id x = entry_id e" by auto
  from split_list_first_prop [OF this] obtain below e' rest' where o': "old = below @ e' # rest'"
    and e': "entry_id e' = entry_id e" and first: "\<forall>x \<in> set below. entry_id x \<noteq> entry_id e" by blast
  have "branch es (entry_id e) (e # rest)" using assms(3) unfolding t by (rule branch_suffix)
  moreover have "branch es (entry_id e') (e' # rest')" using assms(2) unfolding o' by (rule branch_suffix)
  ultimately have same: "e' = e" "rest' = rest" using branch_unique [OF assms(1)] unfolding e' by auto
  have "List.find (\<lambda>x. entry_id x \<in> entry_id ` set old) (below' @ e # rest) = Some e"
    using new e by (induction below') auto
  moreover have "takeWhile (\<lambda>x. Some (entry_id x) \<noteq> Some (entry_id e)) old = below"
    using first unfolding o' same by (induction below) auto
  moreover have "entry_id ` set below \<inter> entry_id ` set below' = {}" using new o' by (auto simp: image_iff) (metis UnI1)
  ultimately show ?thesis using that [of below "e # rest" below'] t o' same by simp
qed

lemma query_whole_branch:
  assumes "wf_state (ms_state s)" and "branch (ss_entries (ms_state s)) i path"
  shows "queryBranchEntries memory_ops main_lane (branch_from i) None s = Inr path"
proof -
  have ok: "assertValidLimit None = Inr ()" "assertValidCursor None = Inr ()" "limit_nat None = None"
    by (simp_all add: assertValidLimit_def assertValidCursor_def limit_nat_def)
  have all: "matchesEntryQuery e (branch_from i)" for e
    by (simp add: matchesEntryQuery_def branch_from_def)
  have whole: "take_through (path_bound None None) xs = xs" for xs
    by (induction xs) (simp_all add: path_bound_def)
  have eta: "branch_from i\<lparr>bq_start := Some i\<rparr> = branch_from i" by (simp add: branch_from_def)
  have sel: "eq_limit (branch_from i) = None" "eq_cursor (branch_from i) = None" "eq_order (branch_from i) = None"
    "bq_start (branch_from i) = Some i" "bq_stopAtType (branch_from i) = None" "bq_stopAtId (branch_from i) = None"
    by (simp_all add: branch_from_def)
  have "findEntriesOnBranch (ms_state s) (branch_from i) i = Inr path"
    using findEntriesOnBranch_eq [OF assms, of "branch_from i"] by (simp add: sel ok whole all take_limit_def)
  then show ?thesis by (simp add: queryBranchEntries_def sel ok eta)
qed

lemma collect_branch:
  assumes "wf_state (ms_state s)" and "[] \<notin> entry_ids (ss_entries (ms_state s))"
    and "i \<in> entry_ids (ss_entries (ms_state s))" and "j \<in> entry_ids (ss_entries (ms_state s))"
  shows "\<exists>below below' shared. branch (ss_entries (ms_state s)) i (below @ shared)
    \<and> branch (ss_entries (ms_state s)) j (below' @ shared)
    \<and> entry_id ` set below \<inter> entry_id ` set below' = {}
    \<and> collectEntriesForBranchSummary memory_ops s (Some i) j
        = Some (Inr \<lparr>cr_entries = rev below, cr_commonAncestorId = (case shared of [] \<Rightarrow> None | e # _ \<Rightarrow> Some (entry_id e))\<rparr>)"
proof -
  let ?es = "ss_entries (ms_state s)"
  have ids: "distinct (map entry_id ?es)" and byId: "ss_entriesById (ms_state s) = map (\<lambda>e. (entry_id e, e)) ?es"
    using assms(1) by (simp_all add: wf_state_def ids_ok_def)
  obtain old where old: "branch ?es i old" by (rule walkToRoot_branch [OF assms(1,3)])
  obtain target where target: "branch ?es j target" by (rule walkToRoot_branch [OF assms(1,4)])
  have look: "\<forall>e \<in> set ?es. op_getEntry memory_ops s (entry_id e) = Some e \<and> entry_id e \<noteq> []"
    using assms(2) ids by (auto simp: getEntry_def byId entry_ids_def comp_def intro!: map_of_is_SomeI) (metis imageI)
  have i: "i \<noteq> []" using assms(2,3) by auto
  obtain below below' shared where meet: "old = below @ shared" "target = below' @ shared"
      "entry_id ` set below \<inter> entry_id ` set below' = {}"
    and ca: "List.find (\<lambda>e. entry_id e \<in> entry_id ` set old) target = (case shared of [] \<Rightarrow> None | e # _ \<Rightarrow> Some e)"
    and up: "takeWhile (\<lambda>e. Some (entry_id e) \<noteq> (case shared of [] \<Rightarrow> None | e # _ \<Rightarrow> Some (entry_id e))) old = below"
    by (rule branches_meet [OF ids old target])
  have "collectEntriesForBranchSummary memory_ops s (Some i) j
      = Some (Inr \<lparr>cr_entries = rev below, cr_commonAncestorId = (case shared of [] \<Rightarrow> None | e # _ \<Rightarrow> Some (entry_id e))\<rparr>)"
    using i up unfolding collectEntriesForBranchSummary_def query_whole_branch [OF assms(1) old]
      query_whole_branch [OF assms(1) target]
    by (cases shared) (simp_all add: ca collect_up_path [OF old look] query_whole_branch [OF assms(1) old])
  with old target meet show ?thesis by blast
qed

text \<open>C39 (termination). On every reachable storage whose ids are not empty, collecting the entries for a branch summary ends
  with a result: the deepest common ancestor of the old leaf and the target, and, from the oldest to the newest,
  exactly the entries of the old branch below it. None of them is on the target's branch.\<close>

theorem branch_collection_is_exact:
  assumes "run_machine (storage_step memory_ops) calls (new_InMemorySessionStorage md) = Inr s"
    and "[] \<notin> entry_ids (ss_entries (ms_state s))"
    and "i \<in> entry_ids (ss_entries (ms_state s))" and "j \<in> entry_ids (ss_entries (ms_state s))"
  shows "\<exists>below below' shared. branch (ss_entries (ms_state s)) i (below @ shared)
    \<and> branch (ss_entries (ms_state s)) j (below' @ shared)
    \<and> entry_id ` set below \<inter> entry_id ` set below' = {}
    \<and> collectEntriesForBranchSummary memory_ops s (Some i) j
        = Some (Inr \<lparr>cr_entries = rev below, cr_commonAncestorId = (case shared of [] \<Rightarrow> None | e # _ \<Rightarrow> Some (entry_id e))\<rparr>)"
  using memory.reachable_inv [OF assms(1)] by (intro collect_branch assms(2,3,4)) (simp add: memory_ok_def)

lemma branch_collection_is_exact_witness:
  "collectEntriesForBranchSummary memory_ops sample_storage (Some (jlit ''a'')) (jlit ''a'')
     = Some (Inr \<lparr>cr_entries = [], cr_commonAncestorId = Some (jlit ''a'')\<rparr>)"
proof -
  have ids: "entry_ids (ss_entries (ms_state sample_storage)) = {jlit ''a''}"
    unfolding sample_storage_def by (simp add: sample_calls_def sample_started_def storage_eval entry_ids_def)
  then have "[] \<notin> entry_ids (ss_entries (ms_state sample_storage))" "jlit ''a'' \<in> entry_ids (ss_entries (ms_state sample_storage))"
    by (simp_all add: jlit_def)
  from branch_collection_is_exact [OF sample_calls_run this this(2)] obtain below below' shared where
    *: "branch (ss_entries (ms_state sample_storage)) (jlit ''a'') (below @ shared)"
      "branch (ss_entries (ms_state sample_storage)) (jlit ''a'') (below' @ shared)"
      "entry_id ` set below \<inter> entry_id ` set below' = {}"
      "collectEntriesForBranchSummary memory_ops sample_storage (Some (jlit ''a'')) (jlit ''a'')
        = Some (Inr \<lparr>cr_entries = rev below, cr_commonAncestorId = (case shared of [] \<Rightarrow> None | e # _ \<Rightarrow> Some (entry_id e))\<rparr>)"
    by blast
  have "distinct (map entry_id (ss_entries (ms_state sample_storage)))"
    using memory.reachable_inv [OF sample_calls_run] by (simp add: memory_ok_def wf_state_def ids_ok_def)
  from branch_unique [OF this *(1,2)] have "below' = below" by simp
  with *(3) have "below = []" by auto
  with branch_head [OF *(1)] * show ?thesis by (auto simp del: append_assoc)
qed

section \<open>The budget\<close>

definition summary_message :: "agent_message \<Rightarrow> bool" where
  "summary_message m = (case m of BranchSummaryMsg _ \<Rightarrow> True | CompactionSummaryMsg _ \<Rightarrow> True | _ \<Rightarrow> False)"

lemma estimate_all_Cons: "estimate_all show_number (m # ms) = int (estimateTokens show_number m) + estimate_all show_number ms"
  by (simp add: estimate_all_def)

lemma estimate_all_append: "estimate_all show_number (ms @ ns) = estimate_all show_number ms + estimate_all show_number ns"
  by (simp add: estimate_all_def)

lemma estimate_all_nonneg [simp]: "0 \<le> estimate_all show_number ms"
  by (simp add: estimate_all_def)

lemma branch_message_summary:
  assumes "branch_message e = Some m" and "entry_type e \<in> {CompactionT, BranchSummaryT}"
  shows "summary_message m"
  using assms by (cases "entry_body e") (auto simp: branch_message_def summary_message_def)

lemma map_filter_snoc:
  "List.map_filter f (xs @ [x]) = List.map_filter f xs @ (case f x of None \<Rightarrow> [] | Some y \<Rightarrow> [y])"
  by (simp add: List.map_filter_def split: option.splits)

text \<open>\<open>older\<close> are the messages left out, \<open>new\<close> those put in front of the messages already taken.\<close>

definition selects :: "(js_number \<Rightarrow> jstr) \<Rightarrow> int \<Rightarrow> agent_message list \<Rightarrow> agent_message list \<Rightarrow> agent_message list \<Rightarrow> bool" where
  "selects show_number tokenBudget older new ms \<longleftrightarrow>
     (older \<noteq> [] \<longrightarrow> tokenBudget > 0 \<and> estimate_all show_number (last older # new @ ms) > tokenBudget)
   \<and> (tokenBudget > 0 \<and> estimate_all show_number ms \<le> tokenBudget \<longrightarrow>
       estimate_all show_number (new @ ms) \<le> tokenBudget
       \<or> (\<exists>m rest. new @ ms = m # rest \<and> summary_message m \<and> 10 * estimate_all show_number rest < 9 * tokenBudget))"

lemma selects_none: "selects show_number tokenBudget [] [] ms"
  by (simp add: selects_def)

lemma selects_snoc:
  assumes "selects show_number tokenBudget older new (m # ms)"
    and "\<not> (tokenBudget > 0 \<and> estimate_all show_number (m # ms) > tokenBudget)"
  shows "selects show_number tokenBudget older (new @ [m]) ms"
  using assms by (auto simp: selects_def)

lemma select_messages_spec:
  assumes "bp_totalTokens p = estimate_all show_number (bp_messages p)"
  shows "\<exists>older new. List.map_filter branch_message (rev es) = older @ new
    \<and> bp_messages (select_messages show_number tokenBudget es p) = new @ bp_messages p
    \<and> bp_totalTokens (select_messages show_number tokenBudget es p) = estimate_all show_number (new @ bp_messages p)
    \<and> selects show_number tokenBudget older new (bp_messages p)"
  using assms
proof (induction es arbitrary: p)
  case Nil
  then show ?case by (auto simp: map_filter_simps selects_none)
next
  case (Cons e es)
  show ?case
  proof (cases "branch_message e")
    case None
    with Cons show ?thesis by (simp add: map_filter_snoc)
  next
    case (Some m)
    let ?p = "p\<lparr>bp_fileOps := extractFileOpsFromMessage m (bp_fileOps p)\<rparr>"
    let ?tokens = "estimateTokens show_number m"
    have all: "List.map_filter branch_message (rev (e # es)) = List.map_filter branch_message (rev es) @ [m]"
      by (simp add: map_filter_snoc Some)
    show ?thesis
    proof (cases "tokenBudget > 0 \<and> bp_totalTokens p + int ?tokens > tokenBudget")
      case False
      have step: "select_messages show_number tokenBudget (e # es) p
          = select_messages show_number tokenBudget es (unshift_message m ?tokens ?p)"
        using False by (auto simp: Some Let_def)
      have total: "bp_totalTokens (unshift_message m ?tokens ?p) = estimate_all show_number (bp_messages (unshift_message m ?tokens ?p))"
        using Cons.prems by (simp add: unshift_message_def estimate_all_Cons)
      have ms: "bp_messages (unshift_message m ?tokens ?p) = m # bp_messages p" by (simp add: unshift_message_def)
      from Cons.IH [OF total] obtain older new where
        "List.map_filter branch_message (rev es) = older @ new"
        "bp_messages (select_messages show_number tokenBudget (e # es) p) = new @ m # bp_messages p"
        "bp_totalTokens (select_messages show_number tokenBudget (e # es) p) = estimate_all show_number (new @ m # bp_messages p)"
        "selects show_number tokenBudget older new (m # bp_messages p)" unfolding step ms by blast
      moreover from this(4) have "selects show_number tokenBudget older (new @ [m]) (bp_messages p)"
        using False Cons.prems by (intro selects_snoc) (auto simp: estimate_all_Cons)
      ultimately show ?thesis unfolding all by (intro exI [of _ older] exI [of _ "new @ [m]"]) simp
    next
      case True
      show ?thesis
      proof (cases "entry_type e \<in> {CompactionT, BranchSummaryT} \<and> 10 * bp_totalTokens p < 9 * tokenBudget")
        case taken: True
        have step: "select_messages show_number tokenBudget (e # es) p = unshift_message m ?tokens ?p"
          using True taken by (simp add: Some Let_def)
        have "summary_message m" using branch_message_summary [OF Some] taken by blast
        with True taken Cons.prems show ?thesis unfolding all step
          by (intro exI [of _ "List.map_filter branch_message (rev es)"] exI [of _ "[m]"])
            (auto simp: selects_def unshift_message_def estimate_all_Cons add.commute intro: add_strict_increasing)
      next
        case False
        have step: "select_messages show_number tokenBudget (e # es) p = ?p"
          using True False by (auto simp: Some Let_def)
        from True Cons.prems show ?thesis unfolding all step
          by (intro exI [of _ "List.map_filter branch_message (rev es) @ [m]"] exI [of _ "[]"])
            (auto simp: selects_def estimate_all_Cons)
      qed
    qed
  qed
qed

text \<open>C40 (bounds). The messages of a branch summary are the newest ones of the branch. With a positive budget their token
  estimate stays within it, unless the oldest of them is itself a summary that was admitted while less
  than nine tenths were used; and a message is left out only when it did not fit. Without a budget nothing is left out.\<close>

theorem branch_messages_fit_budget:
  "\<exists>older. List.map_filter branch_message entries = older @ bp_messages (prepareBranchEntries show_number entries tokenBudget)
    \<and> bp_totalTokens (prepareBranchEntries show_number entries tokenBudget)
        = estimate_all show_number (bp_messages (prepareBranchEntries show_number entries tokenBudget))
    \<and> selects show_number tokenBudget older (bp_messages (prepareBranchEntries show_number entries tokenBudget)) []"
  using select_messages_spec [of "\<lparr>bp_messages = [], bp_fileOps = fold summarised_files entries createFileOps, bp_totalTokens = 0\<rparr>"
      show_number "rev entries" tokenBudget]
  unfolding prepareBranchEntries_def rev_rev_ident by (simp add: estimate_all_def)

end
