(* ===== verification/Agent_Types.thy ===== *)
theory Agent_Types
  imports Messages
begin

text \<open>
  The types of the agent loop (\<open>packages/agent/src/types.ts\<close>). The hooks of the configuration, the tools
  and the model service change a world \<open>'w\<close> of which the program sees nothing else; a hook that throws
  returns the error's message on the left. A tool's \<open>execute\<close> is one step of the world that yields the
  partial results it reports and its outcome.
\<close>

section \<open>Tools\<close>

datatype execution_mode = Sequential | Parallel

record tool_result =
  at_content :: "content_block list option"
  at_details :: "json option"
  at_usage :: "usage option"
  at_addedToolNames :: "jstr list option"
  at_terminate :: "bool option"

type_synonym tool_arguments = "(jstr \<times> json) list"

record 'w agent_tool =
  tool_name :: jstr
  tool_executionMode :: "execution_mode option"
  tool_prepareArguments :: "(tool_arguments \<Rightarrow> jstr + tool_arguments) option"
  tool_execute :: "jstr \<Rightarrow> json \<Rightarrow> 'w \<Rightarrow> tool_result list \<times> (jstr + tool_result) \<times> 'w"

record 'w agent_context =
  ctx_systemPrompt :: jstr
  ctx_messages :: "agent_message list"
  ctx_tools :: "'w agent_tool list option"

section \<open>Events\<close>

datatype stream_event =
    StreamStart assistant_message
  | TextStart nat assistant_message
  | TextDelta nat jstr assistant_message
  | TextEnd nat jstr assistant_message
  | ThinkingStart nat assistant_message
  | ThinkingDelta nat jstr assistant_message
  | ThinkingEnd nat jstr assistant_message
  | ToolCallStart nat assistant_message
  | ToolCallDelta nat jstr assistant_message
  | ToolCallEnd nat tool_call assistant_message
  | StreamDone stop_reason assistant_message
  | StreamError stop_reason assistant_message

text \<open>The events between \<open>start\<close> and the end carry the partial message.\<close>

fun event_partial :: "stream_event \<Rightarrow> assistant_message option" where
  "event_partial (TextStart _ m) = Some m"
| "event_partial (TextDelta _ _ m) = Some m"
| "event_partial (TextEnd _ _ m) = Some m"
| "event_partial (ThinkingStart _ m) = Some m"
| "event_partial (ThinkingDelta _ _ m) = Some m"
| "event_partial (ThinkingEnd _ _ m) = Some m"
| "event_partial (ToolCallStart _ m) = Some m"
| "event_partial (ToolCallDelta _ _ m) = Some m"
| "event_partial (ToolCallEnd _ _ m) = Some m"
| "event_partial _ = None"

datatype agent_event =
    AgentStart
  | AgentEnd "agent_message list"
  | TurnStart
  | TurnEnd assistant_message "tool_result_message list"
  | MessageStart agent_message
  | MessageUpdate agent_message stream_event
  | MessageEnd agent_message
  | ToolExecutionStart jstr jstr tool_arguments
  | ToolExecutionUpdate jstr jstr tool_arguments tool_result
  | ToolExecutionEnd jstr jstr tool_result bool

section \<open>Configuration\<close>

record llm_model =
  lm_id :: jstr
  lm_name :: jstr
  lm_api :: jstr
  lm_provider :: jstr
  lm_reasoning :: bool
  lm_contextWindow :: int
  lm_maxTokens :: int

text \<open>The provider context that a request is built from.\<close>

record 'w llm_context =
  llm_systemPrompt :: jstr
  llm_messages :: "message list"
  llm_tools :: "'w agent_tool list option"

record before_tool_call_result =
  bt_block :: "bool option"
  bt_reason :: "jstr option"
  bt_terminate :: "bool option"

record after_tool_call_result =
  aft_content :: "content_block list option"
  aft_details :: "json option"
  aft_isError :: "bool option"
  aft_usage :: "usage option"
  aft_terminate :: "bool option"

record 'w tool_call_context =
  tc_assistantMessage :: assistant_message
  tc_toolCall :: tool_call
  tc_args :: json
  tc_context :: "'w agent_context"

record 'w after_tool_call_context = "'w tool_call_context" +
  tc_result :: tool_result
  tc_isError :: bool

record 'w turn_context =
  tn_message :: assistant_message
  tn_toolResults :: "tool_result_message list"
  tn_context :: "'w agent_context"
  tn_newMessages :: "agent_message list"

record 'w turn_update =
  tu_context :: "'w agent_context option"
  tu_model :: "llm_model option"
  tu_thinkingLevel :: "jstr option"

type_synonym ('a, 'w) hook = "'w \<Rightarrow> (jstr + 'a) \<times> 'w"

record 'w loop_config =
  lc_model :: llm_model
  lc_reasoning :: "jstr option"
  lc_apiKey :: "jstr option"
  lc_toolExecution :: "execution_mode option"
  lc_convertToLlm :: "agent_message list \<Rightarrow> (message list, 'w) hook"
  lc_transformContext :: "(agent_message list \<Rightarrow> (agent_message list, 'w) hook) option"
  lc_getApiKey :: "(jstr \<Rightarrow> (jstr option, 'w) hook) option"
  lc_shouldStopAfterTurn :: "('w turn_context \<Rightarrow> (bool, 'w) hook) option"
  lc_prepareNextTurn :: "('w turn_context \<Rightarrow> ('w turn_update option, 'w) hook) option"
  lc_getSteeringMessages :: "(agent_message list, 'w) hook option"
  lc_getFollowUpMessages :: "(agent_message list, 'w) hook option"
  lc_beforeToolCall :: "('w tool_call_context \<Rightarrow> (before_tool_call_result option, 'w) hook) option"
  lc_afterToolCall :: "('w after_tool_call_context \<Rightarrow> (after_tool_call_result option, 'w) hook) option"

text \<open>
  What surrounds the loop: the stream function, the abort signal, the event sink, the clock, the
  validation of arguments against a tool's schema, and the order in which the host runs concurrent
  tool calls (the position of the next one among the \<open>n\<close> that are not finished).
\<close>

record 'w loop_env =
  le_stream :: "llm_model \<Rightarrow> 'w llm_context \<Rightarrow> jstr option \<Rightarrow> jstr option \<Rightarrow> (stream_event list \<times> assistant_message, 'w) hook"
  le_aborted :: "'w \<Rightarrow> bool"
  le_emit :: "agent_event \<Rightarrow> 'w \<Rightarrow> 'w"
  le_clock :: "'w \<Rightarrow> int"
  le_validate :: "'w agent_tool \<Rightarrow> tool_call \<Rightarrow> jstr + json"
  le_schedule :: "nat \<Rightarrow> 'w \<Rightarrow> nat"

text \<open>The calls of an assistant message.\<close>

definition assistant_calls :: "assistant_message \<Rightarrow> tool_call list" where
  "assistant_calls m = List.map_filter (\<lambda>b. case b of ToolCall c \<Rightarrow> Some c | _ \<Rightarrow> None) (am_content m)"

end
