(* ===== verification/Agent_Loop.thy ===== *)
theory Agent_Loop
  imports Agent_Types
begin

text \<open>
  The agent loop (\<open>packages/agent/src/agent-loop.ts\<close>). A run keeps the events it has emitted and the world. The
  calls of a batch that run concurrently are threads whose steps (start of the execution, one update,
  completion, \<open>tool_execution_end\<close>) the host interleaves in any order it likes.
\<close>

section \<open>Running hooks\<close>

record 'w run_state =
  rs_events :: "agent_event list"
  rs_world :: 'w

definition emit :: "'w loop_env \<Rightarrow> agent_event \<Rightarrow> 'w run_state \<Rightarrow> 'w run_state" where
  "emit env ev s = s\<lparr>rs_events := rs_events s @ [ev], rs_world := le_emit env ev (rs_world s)\<rparr>"

definition emit_message :: "'w loop_env \<Rightarrow> agent_message \<Rightarrow> 'w run_state \<Rightarrow> 'w run_state" where
  "emit_message env m s = emit env (MessageEnd m) (emit env (MessageStart m) s)"

definition run_hook :: "('a, 'w) hook \<Rightarrow> 'w run_state \<Rightarrow> (jstr + 'a) \<times> 'w run_state" where
  "run_hook h s = (case h (rs_world s) of (r, w) \<Rightarrow> (r, s\<lparr>rs_world := w\<rparr>))"

definition aborted :: "'w loop_env \<Rightarrow> 'w run_state \<Rightarrow> bool" where
  "aborted env s = le_aborted env (rs_world s)"

text \<open>An absent hook that yields a list stands for the empty one.\<close>

definition poll :: "('a list, 'w) hook option \<Rightarrow> 'w run_state \<Rightarrow> (jstr + 'a list) \<times> 'w run_state" where
  "poll h s = (case h of None \<Rightarrow> (Inr [], s) | Some h \<Rightarrow> run_hook h s)"

section \<open>One tool call\<close>

definition createErrorToolResult :: "jstr \<Rightarrow> tool_result" where
  "createErrorToolResult message =
     \<lparr>at_content = Some [TextContent message None], at_details = Some (JObj () plain_object []), at_usage = None,
      at_addedToolNames = None, at_terminate = None\<rparr>"

record finalized_call =
  fc_toolCall :: tool_call
  fc_result :: tool_result
  fc_isError :: bool

record 'w prepared_call =
  pc_toolCall :: tool_call
  pc_tool :: "'w agent_tool"
  pc_args :: json

datatype 'w preparation = Prepared "'w prepared_call" | Immediate tool_result bool

definition find_tool :: "'w agent_context \<Rightarrow> jstr \<Rightarrow> 'w agent_tool option" where
  "find_tool ctx name = (case ctx_tools ctx of None \<Rightarrow> None | Some ts \<Rightarrow> List.find (\<lambda>t. tool_name t = name) ts)"

definition prepareToolCallArguments :: "'w agent_tool \<Rightarrow> tool_call \<Rightarrow> jstr + tool_call" where
  "prepareToolCallArguments tool c = (case tool_prepareArguments tool of
      None \<Rightarrow> Inr c
    | Some prepare \<Rightarrow> try_bind (prepare (call_arguments c)) (\<lambda>args.
        Inr (if args = call_arguments c then c else c\<lparr>call_arguments := args\<rparr>)))"

definition operation_aborted :: "'w preparation" where
  "operation_aborted = Immediate (createErrorToolResult (jlit ''Operation aborted'')) True"

definition admit_call :: "'w loop_env \<Rightarrow> 'w agent_tool \<Rightarrow> tool_call \<Rightarrow> json \<Rightarrow> 'w run_state \<Rightarrow> 'w preparation \<times> 'w run_state" where
  "admit_call env tool c args s =
     (if aborted env s then (operation_aborted, s)
      else (Prepared \<lparr>pc_toolCall = c, pc_tool = tool, pc_args = args\<rparr>, s))"

definition blocked_result :: "before_tool_call_result \<Rightarrow> tool_result" where
  "blocked_result b =
     (let r = createErrorToolResult (or_text (bt_reason b) (jlit ''Tool execution was blocked''))
      in if bt_terminate b = Some True then r\<lparr>at_terminate := Some True\<rparr> else r)"

definition prepareToolCall ::
  "'w loop_env \<Rightarrow> 'w agent_context \<Rightarrow> assistant_message \<Rightarrow> tool_call \<Rightarrow> 'w loop_config \<Rightarrow> 'w run_state
    \<Rightarrow> 'w preparation \<times> 'w run_state" where
  "prepareToolCall env ctx m c config s = (case find_tool ctx (call_name c) of
      None \<Rightarrow> (Immediate (createErrorToolResult (jlit ''Tool '' @ call_name c @ jlit '' not found'')) True, s)
    | Some tool \<Rightarrow> (case try_bind (prepareToolCallArguments tool c) (le_validate env tool) of
          Inl err \<Rightarrow> (Immediate (createErrorToolResult err) True, s)
        | Inr args \<Rightarrow> (case lc_beforeToolCall config of
              None \<Rightarrow> admit_call env tool c args s
            | Some before \<Rightarrow>
                (case run_hook (before \<lparr>tc_assistantMessage = m, tc_toolCall = c, tc_args = args, tc_context = ctx\<rparr>) s of
                   (Inl err, s) \<Rightarrow> (Immediate (createErrorToolResult err) True, s)
                 | (Inr r, s) \<Rightarrow>
                     if aborted env s then (operation_aborted, s)
                     else (case r of
                         None \<Rightarrow> admit_call env tool c args s
                       | Some b \<Rightarrow> if bt_block b = Some True then (Immediate (blocked_result b) True, s)
                           else admit_call env tool c args s)))))"

text \<open>\<open>value ?? fallback\<close>\<close>

definition or_else :: "'a option \<Rightarrow> 'a option \<Rightarrow> 'a option" where
  "or_else a b = (case a of None \<Rightarrow> b | Some x \<Rightarrow> Some x)"

definition override_result :: "after_tool_call_result \<Rightarrow> tool_result \<Rightarrow> tool_result" where
  "override_result a r = r\<lparr>at_content := or_else (aft_content a) (at_content r),
     at_details := or_else (aft_details a) (at_details r), at_usage := or_else (aft_usage a) (at_usage r),
     at_terminate := or_else (aft_terminate a) (at_terminate r)\<rparr>"

definition executed_outcome :: "jstr + tool_result \<Rightarrow> tool_result \<times> bool" where
  "executed_outcome outcome = (case outcome of Inl err \<Rightarrow> (createErrorToolResult err, True) | Inr r \<Rightarrow> (r, False))"

definition finalizeExecutedToolCall ::
  "'w agent_context \<Rightarrow> assistant_message \<Rightarrow> 'w prepared_call \<Rightarrow> tool_result \<times> bool \<Rightarrow> 'w loop_config \<Rightarrow> 'w run_state
    \<Rightarrow> finalized_call \<times> 'w run_state" where
  "finalizeExecutedToolCall ctx m p executed config s =
     (let (result, isError) = executed
      in case lc_afterToolCall config of
           None \<Rightarrow> (\<lparr>fc_toolCall = pc_toolCall p, fc_result = result, fc_isError = isError\<rparr>, s)
         | Some after \<Rightarrow>
             (case run_hook (after \<lparr>tc_assistantMessage = m, tc_toolCall = pc_toolCall p, tc_args = pc_args p,
                  tc_context = ctx, tc_result = result, tc_isError = isError\<rparr>) s of
                (Inl err, s) \<Rightarrow> (\<lparr>fc_toolCall = pc_toolCall p, fc_result = createErrorToolResult err, fc_isError = True\<rparr>, s)
              | (Inr None, s) \<Rightarrow> (\<lparr>fc_toolCall = pc_toolCall p, fc_result = result, fc_isError = isError\<rparr>, s)
              | (Inr (Some a), s) \<Rightarrow> (\<lparr>fc_toolCall = pc_toolCall p, fc_result = override_result a result,
                  fc_isError = (case aft_isError a of None \<Rightarrow> isError | Some b \<Rightarrow> b)\<rparr>, s)))"

definition execution_start :: "tool_call \<Rightarrow> agent_event" where
  "execution_start c = ToolExecutionStart (call_id c) (call_name c) (call_arguments c)"

definition execution_update :: "tool_call \<Rightarrow> tool_result \<Rightarrow> agent_event" where
  "execution_update c r = ToolExecutionUpdate (call_id c) (call_name c) (call_arguments c) r"

definition emitToolExecutionEnd :: "'w loop_env \<Rightarrow> finalized_call \<Rightarrow> 'w run_state \<Rightarrow> 'w run_state" where
  "emitToolExecutionEnd env f = emit env
     (ToolExecutionEnd (call_id (fc_toolCall f)) (call_name (fc_toolCall f)) (fc_result f) (fc_isError f))"

definition createToolResultMessage :: "int \<Rightarrow> finalized_call \<Rightarrow> tool_result_message" where
  "createToolResultMessage now f =
     \<lparr>tr_toolCallId = call_id (fc_toolCall f), tr_toolName = call_name (fc_toolCall f),
      tr_content = (case at_content (fc_result f) of None \<Rightarrow> [] | Some bs \<Rightarrow> bs),
      tr_details = at_details (fc_result f), tr_usage = at_usage (fc_result f),
      tr_addedToolNames = (case at_addedToolNames (fc_result f) of Some (n # ns) \<Rightarrow> Some (n # ns) | _ \<Rightarrow> None),
      tr_isError = fc_isError f, tr_timestamp = now\<rparr>"

text \<open>\<open>createToolResultMessage\<close> followed by \<open>emitToolResultMessage\<close>.\<close>

definition publish_result :: "'w loop_env \<Rightarrow> finalized_call \<Rightarrow> 'w run_state \<Rightarrow> tool_result_message \<times> 'w run_state" where
  "publish_result env f s =
     (let r = createToolResultMessage (le_clock env (rs_world s)) f
      in (r, emit_message env (LlmMessage (ToolResultMsg r)) s))"

section \<open>Threads\<close>

datatype 'w tool_thread =
    Waiting "'w prepared_call"
  | Running "'w prepared_call" "tool_result list" "jstr + tool_result"
  | Finalized finalized_call
  | Done finalized_call

definition is_done :: "'w tool_thread \<Rightarrow> bool" where
  "is_done t = (case t of Done _ \<Rightarrow> True | _ \<Rightarrow> False)"

text \<open>One step of \<open>executePreparedToolCall\<close>, \<open>finalizeExecutedToolCall\<close> and \<open>emitToolExecutionEnd\<close>.\<close>

fun thread_step ::
  "'w loop_env \<Rightarrow> 'w agent_context \<Rightarrow> assistant_message \<Rightarrow> 'w loop_config \<Rightarrow> 'w tool_thread \<Rightarrow> 'w run_state
    \<Rightarrow> 'w tool_thread \<times> 'w run_state" where
  "thread_step env ctx m config (Waiting p) s =
     (case tool_execute (pc_tool p) (call_id (pc_toolCall p)) (pc_args p) (rs_world s) of
        (updates, outcome, w) \<Rightarrow> (Running p updates outcome, s\<lparr>rs_world := w\<rparr>))"
| "thread_step env ctx m config (Running p (u # us) outcome) s =
     (Running p us outcome, emit env (execution_update (pc_toolCall p) u) s)"
| "thread_step env ctx m config (Running p [] outcome) s =
     (case finalizeExecutedToolCall ctx m p (executed_outcome outcome) config s of (f, s) \<Rightarrow> (Finalized f, s))"
| "thread_step env ctx m config (Finalized f) s = (Done f, emitToolExecutionEnd env f s)"
| "thread_step env ctx m config (Done f) s = (Done f, s)"

definition waiting_threads :: "'w tool_thread list \<Rightarrow> nat" where
  "waiting_threads ts = length (filter (\<lambda>t. case t of Waiting _ \<Rightarrow> True | _ \<Rightarrow> False) ts)"

definition steps_left :: "'w tool_thread \<Rightarrow> nat" where
  "steps_left t = (case t of Running _ us _ \<Rightarrow> length us + 2 | Finalized _ \<Rightarrow> 1 | _ \<Rightarrow> 0)"

definition unfinished :: "'w tool_thread list \<Rightarrow> nat list" where
  "unfinished ts = filter (\<lambda>i. \<not> is_done (ts ! i)) [0..<length ts]"

lemma unfinished_nth: "i \<in> set (unfinished ts) \<Longrightarrow> i < length ts \<and> \<not> is_done (ts ! i)"
  by (simp add: unfinished_def)

lemma thread_step_decreases:
  assumes "thread_step env ctx m config t s = (t', s')" and "\<not> is_done t" and "i < length ts" and "ts ! i = t"
  shows "waiting_threads (ts[i := t']) < waiting_threads ts
    \<or> waiting_threads (ts[i := t']) = waiting_threads ts
      \<and> sum_list (map steps_left (ts[i := t'])) < sum_list (map steps_left ts)"
proof -
  obtain before after where ts: "ts = before @ t # after" and i: "length before = i"
    using id_take_nth_drop [OF assms(3)] assms(3,4) by (metis length_take min.absorb4)
  have upd: "ts[i := t'] = before @ t' # after" using i by (auto simp: ts)
  show ?thesis
    using assms(1,2) unfolding upd unfolding ts
    by (cases "(env, ctx, m, config, t, s)" rule: thread_step.cases)
      (auto simp: waiting_threads_def steps_left_def is_done_def split: prod.splits)
qed

function run_threads ::
  "'w loop_env \<Rightarrow> 'w agent_context \<Rightarrow> assistant_message \<Rightarrow> 'w loop_config \<Rightarrow> 'w tool_thread list \<Rightarrow> 'w run_state
    \<Rightarrow> 'w tool_thread list \<times> 'w run_state" where
  "run_threads env ctx m config ts s =
     (let left = unfinished ts
      in if left = [] then (ts, s)
         else let i = left ! (le_schedule env (length left) (rs_world s) mod length left)
              in case thread_step env ctx m config (ts ! i) s of
                   (t, s) \<Rightarrow> run_threads env ctx m config (ts[i := t]) s)"
  by pat_completeness auto
termination
proof (relation "measures [\<lambda>(_, _, _, _, ts, _). waiting_threads ts, \<lambda>(_, _, _, _, ts, _). sum_list (map steps_left ts)]",
    goal_cases)
  case 1
  show ?case by simp
next
  case (2 env ctx m config ts s left i t s')
  then have i: "i \<in> set (unfinished ts)" by simp
  have step: "thread_step env ctx m config (ts ! i) s = (t, s')" using 2(4) by simp
  from unfinished_nth [OF i] have "\<not> is_done (ts ! i)" "i < length ts" by simp_all
  from thread_step_decreases [OF step this refl] show ?case by auto
qed

declare run_threads.simps [simp del]

section \<open>A batch of calls\<close>

record executed_batch =
  tb_messages :: "tool_result_message list"
  tb_terminate :: bool

definition shouldTerminateToolBatch :: "finalized_call list \<Rightarrow> bool" where
  "shouldTerminateToolBatch fs \<longleftrightarrow> length fs > 0 \<and> (\<forall>f \<in> set fs. at_terminate (fc_result f) = Some True)"

definition truncated_call_result :: "tool_call \<Rightarrow> tool_result" where
  "truncated_call_result c = createErrorToolResult (jlit ''Tool call \"'' @ call_name c
     @ jlit ''\" was not executed: the response hit the output token limit, so its arguments may be truncated. Re-issue the tool call with complete arguments.'')"

fun fail_calls :: "'w loop_env \<Rightarrow> tool_call list \<Rightarrow> tool_result_message list \<Rightarrow> 'w run_state
    \<Rightarrow> tool_result_message list \<times> 'w run_state" where
  "fail_calls env [] ms s = (ms, s)"
| "fail_calls env (c # cs) ms s =
     (let s = emit env (execution_start c) s;
          f = \<lparr>fc_toolCall = c, fc_result = truncated_call_result c, fc_isError = True\<rparr>;
          s = emitToolExecutionEnd env f s;
          (r, s) = publish_result env f s
      in fail_calls env cs (ms @ [r]) s)"

definition failToolCallsFromTruncatedMessage :: "'w loop_env \<Rightarrow> tool_call list \<Rightarrow> 'w run_state \<Rightarrow> executed_batch \<times> 'w run_state" where
  "failToolCallsFromTruncatedMessage env cs s =
     (let (ms, s) = fail_calls env cs [] s in (\<lparr>tb_messages = ms, tb_terminate = False\<rparr>, s))"

definition executePreparedToolCall ::
  "'w loop_env \<Rightarrow> 'w prepared_call \<Rightarrow> 'w run_state \<Rightarrow> (tool_result \<times> bool) \<times> 'w run_state" where
  "executePreparedToolCall env p s =
     (case tool_execute (pc_tool p) (call_id (pc_toolCall p)) (pc_args p) (rs_world s) of
        (updates, outcome, w) \<Rightarrow> (executed_outcome outcome,
          fold (\<lambda>u. emit env (execution_update (pc_toolCall p) u)) updates (s\<lparr>rs_world := w\<rparr>)))"

definition run_call ::
  "'w loop_env \<Rightarrow> 'w agent_context \<Rightarrow> assistant_message \<Rightarrow> 'w loop_config \<Rightarrow> tool_call \<Rightarrow> 'w run_state
    \<Rightarrow> finalized_call \<times> 'w run_state" where
  "run_call env ctx m config c s = (case prepareToolCall env ctx m c config s of
      (Immediate result isError, s) \<Rightarrow> (\<lparr>fc_toolCall = c, fc_result = result, fc_isError = isError\<rparr>, s)
    | (Prepared p, s) \<Rightarrow> (case executePreparedToolCall env p s of
        (executed, s) \<Rightarrow> finalizeExecutedToolCall ctx m p executed config s))"

fun run_sequential ::
  "'w loop_env \<Rightarrow> 'w agent_context \<Rightarrow> assistant_message \<Rightarrow> 'w loop_config \<Rightarrow> tool_call list \<Rightarrow> finalized_call list
    \<Rightarrow> tool_result_message list \<Rightarrow> 'w run_state \<Rightarrow> (finalized_call list \<times> tool_result_message list) \<times> 'w run_state" where
  "run_sequential env ctx m config [] fs ms s = ((fs, ms), s)"
| "run_sequential env ctx m config (c # cs) fs ms s =
     (let s = emit env (execution_start c) s;
          (f, s) = run_call env ctx m config c s;
          s = emitToolExecutionEnd env f s;
          (r, s) = publish_result env f s
      in if aborted env s then ((fs @ [f], ms @ [r]), s)
         else run_sequential env ctx m config cs (fs @ [f]) (ms @ [r]) s)"

definition executeToolCallsSequential ::
  "'w loop_env \<Rightarrow> 'w agent_context \<Rightarrow> assistant_message \<Rightarrow> tool_call list \<Rightarrow> 'w loop_config \<Rightarrow> 'w run_state
    \<Rightarrow> executed_batch \<times> 'w run_state" where
  "executeToolCallsSequential env ctx m cs config s =
     (let ((fs, ms), s) = run_sequential env ctx m config cs [] [] s
      in (\<lparr>tb_messages = ms, tb_terminate = shouldTerminateToolBatch fs\<rparr>, s))"

fun start_threads ::
  "'w loop_env \<Rightarrow> 'w agent_context \<Rightarrow> assistant_message \<Rightarrow> 'w loop_config \<Rightarrow> tool_call list \<Rightarrow> 'w tool_thread list
    \<Rightarrow> 'w run_state \<Rightarrow> 'w tool_thread list \<times> 'w run_state" where
  "start_threads env ctx m config [] ts s = (ts, s)"
| "start_threads env ctx m config (c # cs) ts s =
     (let s = emit env (execution_start c) s
      in case prepareToolCall env ctx m c config s of
           (Immediate result isError, s) \<Rightarrow>
             (let f = \<lparr>fc_toolCall = c, fc_result = result, fc_isError = isError\<rparr>;
                  s = emitToolExecutionEnd env f s
              in if aborted env s then (ts @ [Done f], s) else start_threads env ctx m config cs (ts @ [Done f]) s)
         | (Prepared p, s) \<Rightarrow>
             (if aborted env s then (ts @ [Waiting p], s) else start_threads env ctx m config cs (ts @ [Waiting p]) s))"

fun publish_results :: "'w loop_env \<Rightarrow> finalized_call list \<Rightarrow> tool_result_message list \<Rightarrow> 'w run_state
    \<Rightarrow> tool_result_message list \<times> 'w run_state" where
  "publish_results env [] ms s = (ms, s)"
| "publish_results env (f # fs) ms s =
     (let (r, s) = publish_result env f s in publish_results env fs (ms @ [r]) s)"

definition finalized_calls :: "'w tool_thread list \<Rightarrow> finalized_call list" where
  "finalized_calls ts = List.map_filter (\<lambda>t. case t of Done f \<Rightarrow> Some f | _ \<Rightarrow> None) ts"

definition executeToolCallsParallel ::
  "'w loop_env \<Rightarrow> 'w agent_context \<Rightarrow> assistant_message \<Rightarrow> tool_call list \<Rightarrow> 'w loop_config \<Rightarrow> 'w run_state
    \<Rightarrow> executed_batch \<times> 'w run_state" where
  "executeToolCallsParallel env ctx m cs config s =
     (let (ts, s) = start_threads env ctx m config cs [] s;
          (ts, s) = run_threads env ctx m config ts s;
          fs = finalized_calls ts;
          (ms, s) = publish_results env fs [] s
      in (\<lparr>tb_messages = ms, tb_terminate = shouldTerminateToolBatch fs\<rparr>, s))"

definition executeToolCalls ::
  "'w loop_env \<Rightarrow> 'w agent_context \<Rightarrow> assistant_message \<Rightarrow> 'w loop_config \<Rightarrow> 'w run_state \<Rightarrow> executed_batch \<times> 'w run_state" where
  "executeToolCalls env ctx m config s =
     (let cs = assistant_calls m;
          hasSequentialToolCall = (\<exists>c \<in> set cs. case find_tool ctx (call_name c) of
            None \<Rightarrow> False | Some t \<Rightarrow> tool_executionMode t = Some Sequential)
      in if lc_toolExecution config = Some Sequential \<or> hasSequentialToolCall
         then executeToolCallsSequential env ctx m cs config s
         else executeToolCallsParallel env ctx m cs config s)"

end
