(* ===== verification/Agent_Run.thy ===== *)
theory Agent_Run
  imports Agent_Loop
begin

text \<open>
  The streaming of one response, the turn and the loop of \<open>packages/agent/src/agent-loop.ts\<close>. One
  iteration of the inner loop is \<open>loop_turn\<close>, a total function; \<open>loop_step\<close> adds the decision of the two
  loops, and \<open>runLoop\<close> iterates it: whether a run ends is up to the model and the queues.
\<close>

section \<open>The response\<close>

definition buildProviderContext ::
  "'w agent_context \<Rightarrow> 'w loop_config \<Rightarrow> 'w run_state \<Rightarrow> (jstr + 'w llm_context) \<times> 'w run_state" where
  "buildProviderContext ctx config s =
     then_result (case lc_transformContext config of
         None \<Rightarrow> (Inr (ctx_messages ctx), s)
       | Some transform \<Rightarrow> run_hook (transform (ctx_messages ctx)) s) (\<lambda>messages s.
     then_result (run_hook (lc_convertToLlm config messages) s) (\<lambda>llmMessages s.
       (Inr \<lparr>llm_systemPrompt = ctx_systemPrompt ctx, llm_messages = llmMessages, llm_tools = ctx_tools ctx\<rparr>, s)))"

definition push_message :: "agent_message \<Rightarrow> 'w agent_context \<Rightarrow> 'w agent_context" where
  "push_message m ctx = ctx\<lparr>ctx_messages := ctx_messages ctx @ [m]\<rparr>"

definition replace_last :: "agent_message \<Rightarrow> 'w agent_context \<Rightarrow> 'w agent_context" where
  "replace_last m ctx = ctx\<lparr>ctx_messages := (ctx_messages ctx)[length (ctx_messages ctx) - 1 := m]\<rparr>"

abbreviation assistant :: "assistant_message \<Rightarrow> agent_message" where
  "assistant m \<equiv> LlmMessage (AssistantMsg m)"

text \<open>\<open>hasPartial\<close> is whether \<open>partialMessage\<close> is set.\<close>

fun consume_events ::
  "'w loop_env \<Rightarrow> stream_event list \<Rightarrow> bool \<Rightarrow> bool \<Rightarrow> 'w agent_context \<Rightarrow> 'w run_state
    \<Rightarrow> bool \<times> 'w agent_context \<times> 'w run_state" where
  "consume_events env [] hasPartial addedPartial ctx s = (addedPartial, ctx, s)"
| "consume_events env (StreamDone _ _ # evs) hasPartial addedPartial ctx s = (addedPartial, ctx, s)"
| "consume_events env (StreamError _ _ # evs) hasPartial addedPartial ctx s = (addedPartial, ctx, s)"
| "consume_events env (StreamStart m # evs) hasPartial addedPartial ctx s =
     consume_events env evs True True (push_message (assistant m) ctx) (emit env (MessageStart (assistant m)) s)"
| "consume_events env (ev # evs) hasPartial addedPartial ctx s = (case event_partial ev of
      Some m \<Rightarrow> if hasPartial
        then consume_events env evs True addedPartial (replace_last (assistant m) ctx)
          (emit env (MessageUpdate (assistant m) ev) s)
        else consume_events env evs hasPartial addedPartial ctx s
    | None \<Rightarrow> consume_events env evs hasPartial addedPartial ctx s)"

definition streamAssistantResponse ::
  "'w loop_env \<Rightarrow> 'w agent_context \<Rightarrow> 'w loop_config \<Rightarrow> 'w run_state
    \<Rightarrow> (jstr + (assistant_message \<times> 'w agent_context)) \<times> 'w run_state" where
  "streamAssistantResponse env ctx config s =
     then_result (buildProviderContext ctx config s) (\<lambda>llmContext s.
     then_result (case lc_getApiKey config of
         None \<Rightarrow> (Inr None, s)
       | Some getApiKey \<Rightarrow> run_hook (getApiKey (lm_provider (lc_model config))) s) (\<lambda>key s.
     let resolvedApiKey = (if or_text key [] \<noteq> [] then key else lc_apiKey config)
     in then_result (run_hook (le_stream env (lc_model config) llmContext resolvedApiKey (lc_reasoning config)) s)
       (\<lambda>(events, final) s. case consume_events env events False False ctx s of
          (addedPartial, ctx, s) \<Rightarrow>
            (let (ctx, s) = (if addedPartial then (replace_last (assistant final) ctx, s)
                   else (push_message (assistant final) ctx, emit env (MessageStart (assistant final)) s));
                 s = emit env (MessageEnd (assistant final)) s
             in (Inr (final, ctx), s)))))"

section \<open>The turn\<close>

record 'w loop_vars =
  lv_context :: "'w agent_context"
  lv_config :: "'w loop_config"
  lv_newMessages :: "agent_message list"
  lv_firstTurn :: bool
  lv_pending :: "agent_message list"

datatype 'w turn_result = RunEnded "agent_message list" | TurnDone bool "'w loop_vars"

text \<open>The messages that were queued go in front of the response.\<close>

definition inject_message :: "'w loop_env \<Rightarrow> agent_message \<Rightarrow> 'w loop_vars \<times> 'w run_state \<Rightarrow> 'w loop_vars \<times> 'w run_state" where
  "inject_message env m = (\<lambda>(v, s).
     (v\<lparr>lv_context := push_message m (lv_context v), lv_newMessages := lv_newMessages v @ [m]\<rparr>, emit_message env m s))"

definition inject_pending :: "'w loop_env \<Rightarrow> 'w loop_vars \<Rightarrow> 'w run_state \<Rightarrow> 'w loop_vars \<times> 'w run_state" where
  "inject_pending env v s =
     (let (v, s) = fold (inject_message env) (lv_pending v) (v, s) in (v\<lparr>lv_pending := []\<rparr>, s))"

definition apply_turn_update :: "'w turn_update \<Rightarrow> 'w loop_vars \<Rightarrow> 'w loop_vars" where
  "apply_turn_update u v = v\<lparr>
     lv_context := (case tu_context u of None \<Rightarrow> lv_context v | Some ctx \<Rightarrow> ctx),
     lv_config := (lv_config v)\<lparr>
       lc_model := (case tu_model u of None \<Rightarrow> lc_model (lv_config v) | Some m \<Rightarrow> m),
       lc_reasoning := (case tu_thinkingLevel u of
           None \<Rightarrow> lc_reasoning (lv_config v)
         | Some level \<Rightarrow> if level = jlit ''off'' then None else Some level)\<rparr>\<rparr>"

definition turn_context_of :: "assistant_message \<Rightarrow> tool_result_message list \<Rightarrow> 'w loop_vars \<Rightarrow> 'w turn_context" where
  "turn_context_of m results v = \<lparr>tn_message = m, tn_toolResults = results, tn_context = lv_context v,
     tn_newMessages = lv_newMessages v\<rparr>"

text \<open>The end of a turn that was neither an error nor aborted.\<close>

definition finish_turn ::
  "'w loop_env \<Rightarrow> assistant_message \<Rightarrow> tool_result_message list \<Rightarrow> bool \<Rightarrow> 'w loop_vars \<Rightarrow> 'w run_state
    \<Rightarrow> (jstr + 'w turn_result) \<times> 'w run_state" where
  "finish_turn env m results hasMoreToolCalls v s =
     (let s = emit env (TurnEnd m results) s
      in then_result (case lc_prepareNextTurn (lv_config v) of
             None \<Rightarrow> (Inr None, s)
           | Some prepare \<Rightarrow> run_hook (prepare (turn_context_of m results v)) s) (\<lambda>update s.
         let v = (case update of None \<Rightarrow> v | Some u \<Rightarrow> apply_turn_update u v)
         in then_result (case lc_shouldStopAfterTurn (lv_config v) of
                None \<Rightarrow> (Inr False, s)
              | Some should_stop \<Rightarrow> run_hook (should_stop (turn_context_of m results v)) s) (\<lambda>stop s.
            if stop then (Inr (RunEnded (lv_newMessages v)), emit env (AgentEnd (lv_newMessages v)) s)
            else then_result (poll (lc_getSteeringMessages (lv_config v)) s) (\<lambda>pending s.
              (Inr (TurnDone hasMoreToolCalls (v\<lparr>lv_pending := pending\<rparr>)), s)))))"

definition run_tool_calls ::
  "'w loop_env \<Rightarrow> assistant_message \<Rightarrow> 'w loop_vars \<Rightarrow> 'w run_state \<Rightarrow> executed_batch \<times> 'w run_state" where
  "run_tool_calls env m v s =
     (if am_stopReason m = LengthStop then failToolCallsFromTruncatedMessage env (assistant_calls m) s
      else executeToolCalls env (lv_context v) m (lv_config v) s)"

definition add_results :: "tool_result_message list \<Rightarrow> 'w loop_vars \<Rightarrow> 'w loop_vars" where
  "add_results results v = v\<lparr>
     lv_context := (lv_context v)\<lparr>ctx_messages := ctx_messages (lv_context v) @ map (LlmMessage \<circ> ToolResultMsg) results\<rparr>,
     lv_newMessages := lv_newMessages v @ map (LlmMessage \<circ> ToolResultMsg) results\<rparr>"

definition after_response ::
  "'w loop_env \<Rightarrow> assistant_message \<Rightarrow> 'w loop_vars \<Rightarrow> 'w run_state \<Rightarrow> (jstr + 'w turn_result) \<times> 'w run_state" where
  "after_response env m v s =
     (if am_stopReason m = ErrorStop \<or> am_stopReason m = AbortedStop
      then (let s = emit env (TurnEnd m []) s
            in (Inr (RunEnded (lv_newMessages v)), emit env (AgentEnd (lv_newMessages v)) s))
      else if length (assistant_calls m) > 0
      then (let (batch, s) = run_tool_calls env m v s
            in finish_turn env m (tb_messages batch) (\<not> tb_terminate batch) (add_results (tb_messages batch) v) s)
      else finish_turn env m [] False v s)"

text \<open>What comes before the request: the start of the turn, unless it is the first, and the queued messages.\<close>

definition begin_turn :: "'w loop_env \<Rightarrow> 'w loop_vars \<Rightarrow> 'w run_state \<Rightarrow> 'w loop_vars \<times> 'w run_state" where
  "begin_turn env v s =
     inject_pending env (v\<lparr>lv_firstTurn := False\<rparr>) (if lv_firstTurn v then s else emit env TurnStart s)"

definition loop_turn ::
  "'w loop_env \<Rightarrow> 'w loop_vars \<Rightarrow> 'w run_state \<Rightarrow> (jstr + 'w turn_result) \<times> 'w run_state" where
  "loop_turn env v s =
     (let (v, s) = begin_turn env v s
      in then_result (streamAssistantResponse env (lv_context v) (lv_config v) s) (\<lambda>(m, ctx) s.
         after_response env m (v\<lparr>lv_context := ctx, lv_newMessages := lv_newMessages v @ [assistant m]\<rparr>) s))"

section \<open>The loop\<close>

text \<open>The inner loop runs while there are tool calls or pending messages; then follow-up messages are polled.\<close>

definition loop_step ::
  "'w loop_env \<Rightarrow> bool \<Rightarrow> 'w loop_vars \<Rightarrow> 'w run_state \<Rightarrow> (jstr + 'w turn_result) \<times> 'w run_state" where
  "loop_step env hasMoreToolCalls v s =
     (if hasMoreToolCalls \<or> length (lv_pending v) > 0 then loop_turn env v s
      else then_result (poll (lc_getFollowUpMessages (lv_config v)) s) (\<lambda>followUps s.
        if length followUps > 0 then (Inr (TurnDone True (v\<lparr>lv_pending := followUps\<rparr>)), s)
        else (Inr (RunEnded (lv_newMessages v)), emit env (AgentEnd (lv_newMessages v)) s)))"

partial_function (option) loop_from ::
  "'w loop_env \<Rightarrow> bool \<Rightarrow> 'w loop_vars \<Rightarrow> 'w run_state \<Rightarrow> ((jstr + agent_message list) \<times> 'w run_state) option" where
  "loop_from env hasMoreToolCalls v s = (case loop_step env hasMoreToolCalls v s of
      (Inl err, s) \<Rightarrow> Some (Inl err, s)
    | (Inr (RunEnded newMessages), s) \<Rightarrow> Some (Inr newMessages, s)
    | (Inr (TurnDone again v), s) \<Rightarrow> loop_from env again v s)"

definition initial_vars :: "'w agent_context \<Rightarrow> agent_message list \<Rightarrow> 'w loop_config \<Rightarrow> agent_message list \<Rightarrow> 'w loop_vars" where
  "initial_vars ctx newMessages config pending = \<lparr>lv_context = ctx, lv_config = config, lv_newMessages = newMessages,
     lv_firstTurn = True, lv_pending = pending\<rparr>"

definition runLoop ::
  "'w loop_env \<Rightarrow> 'w agent_context \<Rightarrow> agent_message list \<Rightarrow> 'w loop_config \<Rightarrow> 'w run_state
    \<Rightarrow> ((jstr + agent_message list) \<times> 'w run_state) option" where
  "runLoop env ctx newMessages config s = (case poll (lc_getSteeringMessages config) s of
      (Inl err, s) \<Rightarrow> Some (Inl err, s)
    | (Inr pending, s) \<Rightarrow> loop_from env True (initial_vars ctx newMessages config pending) s)"

definition begin_run :: "'w loop_env \<Rightarrow> agent_message list \<Rightarrow> 'w run_state \<Rightarrow> 'w run_state" where
  "begin_run env prompts s = fold (emit_message env) prompts (emit env TurnStart (emit env AgentStart s))"

definition runAgentLoop ::
  "'w loop_env \<Rightarrow> agent_message list \<Rightarrow> 'w agent_context \<Rightarrow> 'w loop_config \<Rightarrow> 'w run_state
    \<Rightarrow> ((jstr + agent_message list) \<times> 'w run_state) option" where
  "runAgentLoop env prompts ctx config s =
     runLoop env (ctx\<lparr>ctx_messages := ctx_messages ctx @ prompts\<rparr>) prompts config (begin_run env prompts s)"

definition is_assistant :: "agent_message \<Rightarrow> bool" where
  "is_assistant m = (case m of LlmMessage (AssistantMsg _) \<Rightarrow> True | _ \<Rightarrow> False)"

definition cannot_continue :: "agent_message list \<Rightarrow> jstr option" where
  "cannot_continue messages =
     (if length messages = 0 then Some (jlit ''Cannot continue: no messages in context'')
      else if is_assistant (last messages) then Some (jlit ''Cannot continue from message role: assistant'')
      else None)"

definition runAgentLoopContinue ::
  "'w loop_env \<Rightarrow> 'w agent_context \<Rightarrow> 'w loop_config \<Rightarrow> 'w run_state
    \<Rightarrow> ((jstr + agent_message list) \<times> 'w run_state) option" where
  "runAgentLoopContinue env ctx config s = (case cannot_continue (ctx_messages ctx) of
      Some err \<Rightarrow> Some (Inl err, s)
    | None \<Rightarrow> runLoop env ctx [] config (begin_run env [] s))"

end
