(* ===== verification/Agent_Events.thy ===== *)
theory Agent_Events
  imports Agent_Run "HOL-Library.Multiset"
begin

text \<open>
  The protocol of the events that a run of the agent loop emits, as an automaton, and what each part of the
  loop contributes: which phase it leads to and which messages it completes.
\<close>

section \<open>The protocol\<close>

text \<open>
  A turn carries the ids of the tool calls that are being executed; inside a message the message as it was
  last shown.
\<close>

datatype phase =
    NotStarted
  | BetweenTurns
  | InTurn "jstr multiset"
  | InMessage "jstr multiset" agent_message
  | RunOver

fun phase_step :: "phase \<Rightarrow> agent_event \<Rightarrow> phase option" where
  "phase_step NotStarted AgentStart = Some BetweenTurns"
| "phase_step BetweenTurns TurnStart = Some (InTurn {#})"
| "phase_step BetweenTurns (AgentEnd _) = Some RunOver"
| "phase_step (InTurn T) (MessageStart m) = Some (InMessage T m)"
| "phase_step (InMessage T m) (MessageUpdate m' _) =
     (if is_assistant m \<and> is_assistant m' then Some (InMessage T m') else None)"
| "phase_step (InMessage T m) (MessageEnd m') =
     (if m' = m \<or> is_assistant m \<and> is_assistant m' then Some (InTurn T) else None)"
| "phase_step (InTurn T) (ToolExecutionStart i _ _) = Some (InTurn (add_mset i T))"
| "phase_step (InTurn T) (ToolExecutionUpdate i _ _ _) = (if i \<in># T then Some (InTurn T) else None)"
| "phase_step (InTurn T) (ToolExecutionEnd i _ _ _) = (if i \<in># T then Some (InTurn (T - {#i#})) else None)"
| "phase_step (InTurn T) (TurnEnd _ _) = (if T = {#} then Some BetweenTurns else None)"
| "phase_step _ _ = None"

fun phase_run :: "phase \<Rightarrow> agent_event list \<Rightarrow> phase option" where
  "phase_run p [] = Some p"
| "phase_run p (ev # evs) = (case phase_step p ev of None \<Rightarrow> None | Some q \<Rightarrow> phase_run q evs)"

text \<open>The messages that a sequence of events completes: what a listener stores.\<close>

definition journal :: "agent_event list \<Rightarrow> agent_message list" where
  "journal evs = List.map_filter (\<lambda>ev. case ev of MessageEnd m \<Rightarrow> Some m | _ \<Rightarrow> None) evs"

lemma journal_simps [simp]:
  "journal [] = []" "journal (MessageEnd m # evs) = m # journal evs" "journal (MessageStart m # evs) = journal evs"
  "journal (AgentStart # evs) = journal evs" "journal (AgentEnd ms # evs) = journal evs"
  "journal (TurnStart # evs) = journal evs" "journal (TurnEnd a rs # evs) = journal evs"
  "journal (MessageUpdate m ev # evs) = journal evs" "journal (ToolExecutionStart i n args # evs) = journal evs"
  "journal (ToolExecutionUpdate i n args r # evs) = journal evs" "journal (ToolExecutionEnd i n r e # evs) = journal evs"
  by (simp_all add: journal_def map_filter_simps)

lemma journal_append [simp]: "journal (xs @ ys) = journal xs @ journal ys"
  by (simp add: journal_def List.map_filter_def)

lemma phase_run_append: "phase_run p (xs @ ys) = (case phase_run p xs of None \<Rightarrow> None | Some q \<Rightarrow> phase_run q ys)"
  by (induction xs arbitrary: p) (simp_all split: option.splits)

section \<open>Parts of a run\<close>

text \<open>From \<open>s\<close> to \<open>s'\<close> events were emitted that lead from phase \<open>p\<close> to \<open>q\<close> and complete the messages \<open>ms\<close>.\<close>

definition moves :: "phase \<Rightarrow> phase \<Rightarrow> agent_message list \<Rightarrow> 'w run_state \<Rightarrow> 'w run_state \<Rightarrow> bool" where
  "moves p q ms s s' \<longleftrightarrow> (\<exists>evs. rs_events s' = rs_events s @ evs \<and> phase_run p evs = Some q \<and> journal evs = ms)"

lemma moves_quiet: "rs_events s' = rs_events s \<Longrightarrow> moves p p [] s s'"
  by (auto simp: moves_def)

lemma moves_trans: "moves p q ms s s' \<Longrightarrow> moves q r ns s' s'' \<Longrightarrow> moves p r (ms @ ns) s s''"
  unfolding moves_def by (auto simp: phase_run_append)

lemma moves_quiet_left: "rs_events s' = rs_events s \<Longrightarrow> moves p q ms s' s'' \<Longrightarrow> moves p q ms s s''"
  by (simp add: moves_def)

lemma moves_quiet_right: "moves p q ms s s' \<Longrightarrow> rs_events s'' = rs_events s' \<Longrightarrow> moves p q ms s s''"
  by (simp add: moves_def)

lemma moves_emit: "phase_step p ev = Some q \<Longrightarrow> moves p q (journal [ev]) s (emit env ev s)"
  by (auto simp: moves_def emit_def)

lemma moves_message: "moves (InTurn T) (InTurn T) [m] s (emit_message env m s)"
  using moves_trans [OF moves_emit [of "InTurn T" "MessageStart m" "InMessage T m" s env] moves_emit [of "InMessage T m" "MessageEnd m" "InTurn T" _ env]]
  by (simp add: emit_message_def)

lemma run_hook_quiet: "run_hook h s = (r, s') \<Longrightarrow> rs_events s' = rs_events s"
  by (auto simp: run_hook_def split: prod.splits)

lemma run_hook_result: "run_hook h s = (r, s') \<Longrightarrow> \<exists>w w'. h w = (r, w')"
  by (auto simp: run_hook_def split: prod.splits)

lemma poll_quiet: "poll h s = (r, s') \<Longrightarrow> rs_events s' = rs_events s"
  by (auto simp: poll_def dest: run_hook_quiet split: option.splits)

section \<open>Tool calls\<close>

lemma prepareToolCall_quiet: "prepareToolCall env ctx m c config s = (p, s') \<Longrightarrow> rs_events s' = rs_events s"
  by (auto simp: prepareToolCall_def admit_call_def dest: run_hook_quiet
      split: option.splits sum.splits prod.splits if_splits)

lemma prepareToolCall_call: "prepareToolCall env ctx m c config s = (Prepared p, s') \<Longrightarrow> pc_toolCall p = c"
  by (auto simp: prepareToolCall_def admit_call_def operation_aborted_def split: option.splits sum.splits prod.splits if_splits)

lemma finalize_spec:
  "finalizeExecutedToolCall ctx m p executed config s = (f, s') \<Longrightarrow> fc_toolCall f = pc_toolCall p \<and> rs_events s' = rs_events s"
  by (auto simp: finalizeExecutedToolCall_def dest: run_hook_quiet split: option.splits sum.splits prod.splits)

lemma moves_end:
  "call_id (fc_toolCall f) \<in># T \<Longrightarrow> moves (InTurn T) (InTurn (T - {#call_id (fc_toolCall f)#})) [] s (emitToolExecutionEnd env f s)"
  using moves_emit [of "InTurn T" "ToolExecutionEnd (call_id (fc_toolCall f)) (call_name (fc_toolCall f)) (fc_result f) (fc_isError f)"
      "InTurn (T - {#call_id (fc_toolCall f)#})" s env]
  by (simp add: emitToolExecutionEnd_def)

lemma moves_start: "moves (InTurn T) (InTurn (add_mset (call_id c) T)) [] s (emit env (execution_start c) s)"
  using moves_emit [of "InTurn T" "execution_start c" "InTurn (add_mset (call_id c) T)" s env]
  by (simp add: execution_start_def)

lemma moves_update:
  "call_id c \<in># T \<Longrightarrow> moves (InTurn T) (InTurn T) [] s (emit env (execution_update c u) s)"
  using moves_emit [of "InTurn T" "execution_update c u" "InTurn T" s env]
  by (simp add: execution_update_def)

lemma moves_updates:
  "call_id c \<in># T \<Longrightarrow> moves (InTurn T) (InTurn T) [] s (fold (\<lambda>u. emit env (execution_update c u)) us s)"
proof (induction us arbitrary: s)
  case Nil
  show ?case by (simp add: moves_quiet)
next
  case (Cons u us)
  from moves_trans [OF moves_update [OF Cons.prems] Cons.IH [OF Cons.prems]] show ?case by simp
qed

lemma publish_result_spec:
  assumes "publish_result env f s = (r, s')"
  shows "tr_toolCallId r = call_id (fc_toolCall f)" and "tr_isError r = fc_isError f"
    and "moves (InTurn T) (InTurn T) [LlmMessage (ToolResultMsg r)] s s'"
  using assms moves_message by (auto simp: publish_result_def createToolResultMessage_def Let_def)

lemma run_call_spec:
  assumes "run_call env ctx m config c s = (f, s')" and "call_id c \<in># T"
  shows "fc_toolCall f = c \<and> moves (InTurn T) (InTurn T) [] s s'"
proof (cases "prepareToolCall env ctx m c config s")
  case (Pair preparation s1)
  note prepared = Pair
  from prepareToolCall_quiet [OF Pair] have quiet: "rs_events s1 = rs_events s" .
  show ?thesis
  proof (cases preparation)
    case (Immediate result isError)
    with Pair assms(1) quiet show ?thesis by (auto simp: run_call_def intro: moves_quiet)
  next
    case (Prepared p)
    with prepared have c: "pc_toolCall p = c" using prepareToolCall_call by blast
    obtain updates outcome w where exec: "tool_execute (pc_tool p) (call_id c) (pc_args p) (rs_world s1) = (updates, outcome, w)"
      by (cases "tool_execute (pc_tool p) (call_id c) (pc_args p) (rs_world s1)") auto
    let ?s = "fold (\<lambda>u. emit env (execution_update c u)) updates (s1\<lparr>rs_world := w\<rparr>)"
    from assms(1) have fin: "finalizeExecutedToolCall ctx m p (executed_outcome outcome) config ?s = (f, s')"
      by (simp add: run_call_def executePreparedToolCall_def prepared Prepared c exec)
    have "moves (InTurn T) (InTurn T) [] s ?s"
      using moves_updates [OF assms(2), of "s1\<lparr>rs_world := w\<rparr>"] quiet by (simp add: moves_def)
    with finalize_spec [OF fin] c show ?thesis by (auto intro: moves_quiet_right)
  qed
qed

section \<open>Concurrent calls\<close>

fun thread_call :: "'w tool_thread \<Rightarrow> tool_call" where
  "thread_call (Waiting p) = pc_toolCall p"
| "thread_call (Running p _ _) = pc_toolCall p"
| "thread_call (Finalized f) = fc_toolCall f"
| "thread_call (Done f) = fc_toolCall f"

definition open_ids :: "'w tool_thread list \<Rightarrow> jstr multiset" where
  "open_ids ts = mset (map (call_id \<circ> thread_call) (filter (\<lambda>t. \<not> is_done t) ts))"

lemma is_done_simps [simp]: "is_done (Done f)" "\<not> is_done (Waiting p)" "\<not> is_done (Running p us r)" "\<not> is_done (Finalized f)"
  by (simp_all add: is_done_def)

lemma thread_step_spec:
  assumes "thread_step env ctx m config t s = (t', s')" and "\<not> is_done t" and "call_id (thread_call t) \<in># T"
  shows "thread_call t' = thread_call t
    \<and> moves (InTurn T) (InTurn (if is_done t' then T - {#call_id (thread_call t)#} else T)) [] s s'"
  using assms
proof (cases "(env, ctx, m, config, t, s)" rule: thread_step.cases)
  case (1 env ctx m config p s)
  with assms show ?thesis by (auto intro: moves_quiet split: prod.splits)
next
  case (2 env ctx m config p u us outcome s)
  with assms show ?thesis by (auto intro: moves_update)
next
  case (3 env ctx m config p outcome s)
  with assms show ?thesis by (auto intro: moves_quiet dest: finalize_spec split: prod.splits)
next
  case (4 env ctx m config f s)
  with assms show ?thesis by (auto intro: moves_end)
next
  case (5 env ctx m config f s)
  with assms show ?thesis by auto
qed

lemma open_ids_update:
  assumes "i < length ts" and "\<not> is_done (ts ! i)" and "thread_call t' = thread_call (ts ! i)"
  shows "call_id (thread_call (ts ! i)) \<in># open_ids ts"
    and "open_ids (ts[i := t']) = (if is_done t' then open_ids ts - {#call_id (thread_call (ts ! i))#} else open_ids ts)"
proof -
  obtain before after where ts: "ts = before @ ts ! i # after" and i: "length before = i"
    using id_take_nth_drop [OF assms(1)] assms(1) by (metis length_take min.absorb4)
  have upd: "ts[i := t'] = before @ t' # after" using i by (subst ts) (auto simp: list_update_append)
  show "call_id (thread_call (ts ! i)) \<in># open_ids ts"
    using assms(2) by (subst (2) ts) (simp add: open_ids_def)
  have "open_ids ts = open_ids (before @ ts ! i # after)" by (subst ts) (rule refl)
  then show "open_ids (ts[i := t']) = (if is_done t' then open_ids ts - {#call_id (thread_call (ts ! i))#} else open_ids ts)"
    unfolding upd using assms(2,3) by (simp add: open_ids_def)
qed

lemma run_threads_spec:
  "run_threads env ctx m config ts s = (ts', s') \<Longrightarrow>
    map thread_call ts' = map thread_call ts \<and> (\<forall>t \<in> set ts'. is_done t) \<and> moves (InTurn (open_ids ts)) (InTurn {#}) [] s s'"
proof (induction env ctx m config ts s rule: run_threads.induct)
  case (1 env ctx m config ts s)
  let ?left = "unfinished ts"
  let ?i = "?left ! (le_schedule env (length ?left) (rs_world s) mod length ?left)"
  show ?case
  proof (cases "?left = []")
    case True
    then have "\<forall>i < length ts. is_done (ts ! i)" by (auto simp: unfinished_def filter_empty_conv)
    then have all: "\<forall>t \<in> set ts. is_done t" by (auto simp: in_set_conv_nth)
    moreover from all have "open_ids ts = {#}" by (simp add: open_ids_def filter_empty_conv)
    ultimately show ?thesis using 1(2) True by (auto simp: run_threads.simps [of env ctx m config ts s] intro: moves_quiet)
  next
    case False
    then have "?i \<in> set ?left" by simp
    from unfinished_nth [OF this] have i: "?i < length ts" "\<not> is_done (ts ! ?i)" by simp_all
    obtain t s1 where step: "thread_step env ctx m config (ts ! ?i) s = (t, s1)" by fastforce
    have run: "run_threads env ctx m config (ts[?i := t]) s1 = (ts', s')"
      using 1(2) False step by (simp add: run_threads.simps [of env ctx m config ts s] Let_def)
    note IH = 1(1) [OF refl False refl step [symmetric] run]
    have "thread_call t = thread_call (ts ! ?i)"
      using thread_step_spec [OF step i(2), of "{#call_id (thread_call (ts ! ?i))#}"] by simp
    note ids = open_ids_update [OF i this]
    from thread_step_spec [OF step i(2) ids(1)] have call: "thread_call t = thread_call (ts ! ?i)"
      and "moves (InTurn (open_ids ts)) (InTurn (open_ids (ts[?i := t]))) [] s s1" unfolding ids(2) by auto
    from moves_trans [OF this(2), of "InTurn {#}" "[]" s'] IH
    have "moves (InTurn (open_ids ts)) (InTurn {#}) [] s s'" by simp
    moreover have "map thread_call (ts[?i := t]) = map thread_call ts"
      using call i(1) by (simp add: map_update list_update_same_conv)
    ultimately show ?thesis using IH by simp
  qed
qed

lemma start_threads_spec:
  "start_threads env ctx m config cs ts s = (ts', s') \<Longrightarrow>
    \<exists>k \<le> length cs. map thread_call ts' = map thread_call ts @ take k cs
      \<and> (cs \<noteq> [] \<longrightarrow> 0 < k) \<and> (k < length cs \<longrightarrow> aborted env s')
      \<and> moves (InTurn (open_ids ts)) (InTurn (open_ids ts')) [] s s'"
proof (induction cs arbitrary: ts s)
  case Nil
  then show ?case by (auto intro: moves_quiet)
next
  case (Cons c cs)
  let ?s0 = "emit env (execution_start c) s"
  obtain preparation s1 where prepared: "prepareToolCall env ctx m c config ?s0 = (preparation, s1)" by fastforce
  have start: "moves (InTurn (open_ids ts)) (InTurn (add_mset (call_id c) (open_ids ts))) [] s s1"
    by (rule moves_quiet_right [OF moves_start prepareToolCall_quiet [OF prepared]])
  have *: "\<exists>t s2. thread_call t = c \<and> moves (InTurn (open_ids ts)) (InTurn (open_ids (ts @ [t]))) [] s s2
    \<and> start_threads env ctx m config (c # cs) ts s
        = (if aborted env s2 then (ts @ [t], s2) else start_threads env ctx m config cs (ts @ [t]) s2)"
  proof (cases preparation)
    case (Prepared p)
    then have c: "pc_toolCall p = c" using prepared prepareToolCall_call by blast
    with start prepared Prepared show ?thesis
      by (intro exI [of _ "Waiting p"] exI [of _ s1]) (simp add: open_ids_def Let_def)
  next
    case (Immediate result isError)
    let ?f = "\<lparr>fc_toolCall = c, fc_result = result, fc_isError = isError\<rparr>"
    have "moves (InTurn (open_ids ts)) (InTurn (open_ids ts)) [] s (emitToolExecutionEnd env ?f s1)"
      using moves_trans [OF start moves_end [of ?f "add_mset (call_id c) (open_ids ts)" s1 env]] by simp
    with prepared Immediate show ?thesis
      by (intro exI [of _ "Done ?f"] exI [of _ "emitToolExecutionEnd env ?f s1"]) (simp add: open_ids_def Let_def)
  qed
  then obtain t s2 where t: "thread_call t = c" "moves (InTurn (open_ids ts)) (InTurn (open_ids (ts @ [t]))) [] s s2"
    and rest: "start_threads env ctx m config (c # cs) ts s
        = (if aborted env s2 then (ts @ [t], s2) else start_threads env ctx m config cs (ts @ [t]) s2)" by blast
  show ?case
  proof (cases "aborted env s2")
    case True
    with rest Cons.prems have "ts' = ts @ [t]" "s' = s2" by simp_all
    with t True show ?thesis by (intro exI [of _ 1]) simp
  next
    case False
    with rest Cons.prems have "start_threads env ctx m config cs (ts @ [t]) s2 = (ts', s')" by simp
    from Cons.IH [OF this] obtain k where k: "k \<le> length cs" "map thread_call ts' = map thread_call (ts @ [t]) @ take k cs"
      "k < length cs \<longrightarrow> aborted env s'" "moves (InTurn (open_ids (ts @ [t]))) (InTurn (open_ids ts')) [] s2 s'" by blast
    with t(1) moves_trans [OF t(2) k(4)] show ?thesis by (intro exI [of _ "Suc k"]) simp
  qed
qed

section \<open>Batches\<close>

definition result_messages :: "tool_result_message list \<Rightarrow> agent_message list" where
  "result_messages rs = map (LlmMessage \<circ> ToolResultMsg) rs"

lemma result_messages_simps [simp]:
  "result_messages [] = []" "result_messages (xs @ ys) = result_messages xs @ result_messages ys"
  "result_messages (r # rs) = LlmMessage (ToolResultMsg r) # result_messages rs"
  by (simp_all add: result_messages_def)

lemma publish_results_spec:
  "publish_results env fs ms s = (ms', s') \<Longrightarrow>
    \<exists>rs. ms' = ms @ rs \<and> map tr_toolCallId rs = map (call_id \<circ> fc_toolCall) fs
      \<and> moves (InTurn T) (InTurn T) (result_messages rs) s s'"
proof (induction fs arbitrary: ms s)
  case Nil
  then show ?case by (auto intro: moves_quiet)
next
  case (Cons f fs)
  obtain r s1 where r: "publish_result env f s = (r, s1)" by fastforce
  with Cons.prems have "publish_results env fs (ms @ [r]) s1 = (ms', s')" by simp
  from Cons.IH [OF this] obtain rs where rs: "ms' = (ms @ [r]) @ rs" "map tr_toolCallId rs = map (call_id \<circ> fc_toolCall) fs"
    "moves (InTurn T) (InTurn T) (result_messages rs) s1 s'" by blast
  with publish_result_spec(1,2) [OF r] moves_trans [OF publish_result_spec(3) [OF r, of T] rs(3)]
  show ?case by (intro exI [of _ "r # rs"]) simp
qed

lemma finalized_calls_done: "\<forall>t \<in> set ts. is_done t \<Longrightarrow> map fc_toolCall (finalized_calls ts) = map thread_call ts"
  by (induction ts) (auto simp: finalized_calls_def map_filter_simps is_done_def split: tool_thread.splits)

text \<open>What a batch answers: a prefix of the calls, all of them unless the signal was aborted meanwhile.\<close>

definition answers :: "'w loop_env \<Rightarrow> tool_call list \<Rightarrow> tool_result_message list \<Rightarrow> bool" where
  "answers env cs rs \<longleftrightarrow> (\<exists>k \<le> length cs. map tr_toolCallId rs = map call_id (take k cs)
     \<and> (cs \<noteq> [] \<longrightarrow> 0 < k) \<and> (k < length cs \<longrightarrow> (\<exists>w. le_aborted env w)))"

lemma parallel_spec:
  assumes "executeToolCallsParallel env ctx m cs config s = (batch, s')"
  shows "answers env cs (tb_messages batch) \<and> moves (InTurn {#}) (InTurn {#}) (result_messages (tb_messages batch)) s s'"
proof -
  obtain ts s1 where start: "start_threads env ctx m config cs [] s = (ts, s1)" by fastforce
  obtain ts' s2 where run: "run_threads env ctx m config ts s1 = (ts', s2)" by fastforce
  obtain ms s3 where publish: "publish_results env (finalized_calls ts') [] s2 = (ms, s3)" by fastforce
  from assms start run publish have out: "tb_messages batch = ms" "s' = s3"
    by (auto simp: executeToolCallsParallel_def Let_def)
  from start_threads_spec [OF start] obtain k where k: "k \<le> length cs" "map thread_call ts = take k cs" "cs \<noteq> [] \<longrightarrow> 0 < k"
    "k < length cs \<longrightarrow> aborted env s1" "moves (InTurn {#}) (InTurn (open_ids ts)) [] s s1" by (auto simp: open_ids_def)
  from run_threads_spec [OF run] have threads: "map thread_call ts' = map thread_call ts" "\<forall>t \<in> set ts'. is_done t"
    "moves (InTurn (open_ids ts)) (InTurn {#}) [] s1 s2" by simp_all
  from publish_results_spec [OF publish, of "{#}"] have published: "map tr_toolCallId ms = map (call_id \<circ> fc_toolCall) (finalized_calls ts')"
    "moves (InTurn {#}) (InTurn {#}) (result_messages ms) s2 s3" by auto
  have "map (call_id \<circ> fc_toolCall) (finalized_calls ts') = map call_id (take k cs)"
    using finalized_calls_done [OF threads(2)] threads(1) k(2) by (simp flip: map_map)
  with published(1) k have "answers env cs ms" by (auto simp: answers_def aborted_def)
  moreover have "moves (InTurn {#}) (InTurn {#}) (result_messages ms) s s3"
    using moves_trans [OF moves_trans [OF k(5) threads(3)] published(2)] by simp
  ultimately show ?thesis using out by simp
qed

lemma run_sequential_spec:
  "run_sequential env ctx m config cs fs ms s = ((fs', ms'), s') \<Longrightarrow>
    \<exists>k \<le> length cs. \<exists>rs. ms' = ms @ rs \<and> map tr_toolCallId rs = map call_id (take k cs)
      \<and> (cs \<noteq> [] \<longrightarrow> 0 < k) \<and> (k < length cs \<longrightarrow> aborted env s')
      \<and> moves (InTurn {#}) (InTurn {#}) (result_messages rs) s s'"
proof (induction cs arbitrary: fs ms s)
  case Nil
  then show ?case by (auto intro: moves_quiet)
next
  case (Cons c cs)
  let ?s0 = "emit env (execution_start c) s"
  obtain f s1 where f: "run_call env ctx m config c ?s0 = (f, s1)" by fastforce
  let ?s2 = "emitToolExecutionEnd env f s1"
  obtain r s3 where r: "publish_result env f ?s2 = (r, s3)" by fastforce
  from run_call_spec [OF f, of "{#call_id c#}"] have call: "fc_toolCall f = c"
    and ran: "moves (InTurn {#call_id c#}) (InTurn {#call_id c#}) [] ?s0 s1" by simp_all
  have ended: "moves (InTurn {#call_id c#}) (InTurn {#}) [] s1 ?s2"
    using moves_end [of f "{#call_id c#}" s1 env] call by simp
  have one: "moves (InTurn {#}) (InTurn {#}) [LlmMessage (ToolResultMsg r)] s s3"
    using moves_trans [OF moves_trans [OF moves_trans [OF moves_start ran] ended] publish_result_spec(3) [OF r, of "{#}"]] by simp
  have step: "run_sequential env ctx m config (c # cs) fs ms s
      = (if aborted env s3 then ((fs @ [f], ms @ [r]), s3) else run_sequential env ctx m config cs (fs @ [f]) (ms @ [r]) s3)"
    using f r by simp
  show ?case
  proof (cases "aborted env s3")
    case True
    with step Cons.prems have "ms' = ms @ [r]" "s' = s3" by simp_all
    with True one call publish_result_spec(1) [OF r] show ?thesis by (intro exI [of _ 1] conjI exI [of _ "[r]"]) simp_all
  next
    case False
    with step Cons.prems have "run_sequential env ctx m config cs (fs @ [f]) (ms @ [r]) s3 = ((fs', ms'), s')" by simp
    from Cons.IH [OF this] obtain k rs where k: "k \<le> length cs" "ms' = (ms @ [r]) @ rs" "map tr_toolCallId rs = map call_id (take k cs)"
      "k < length cs \<longrightarrow> aborted env s'" "moves (InTurn {#}) (InTurn {#}) (result_messages rs) s3 s'" by blast
    with moves_trans [OF one k(5)] call publish_result_spec(1) [OF r] show ?thesis
      by (intro exI [of _ "Suc k"] conjI exI [of _ "r # rs"]) simp_all
  qed
qed

lemma fail_calls_spec:
  "fail_calls env cs ms s = (ms', s') \<Longrightarrow>
    \<exists>rs. ms' = ms @ rs \<and> map tr_toolCallId rs = map call_id cs \<and> (\<forall>r \<in> set rs. tr_isError r)
      \<and> moves (InTurn {#}) (InTurn {#}) (result_messages rs) s s'"
proof (induction cs arbitrary: ms s)
  case Nil
  then show ?case by (auto intro: moves_quiet)
next
  case (Cons c cs)
  let ?s0 = "emit env (execution_start c) s"
  let ?f = "\<lparr>fc_toolCall = c, fc_result = truncated_call_result c, fc_isError = True\<rparr>"
  let ?s1 = "emitToolExecutionEnd env ?f ?s0"
  obtain r s2 where r: "publish_result env ?f ?s1 = (r, s2)" by fastforce
  have ended: "moves (InTurn {#call_id c#}) (InTurn {#}) [] ?s0 ?s1"
    using moves_end [of ?f "{#call_id c#}" ?s0 env] by simp
  have one: "moves (InTurn {#}) (InTurn {#}) [LlmMessage (ToolResultMsg r)] s s2"
    using moves_trans [OF moves_trans [OF moves_start ended] publish_result_spec(3) [OF r, of "{#}"]] by simp
  from Cons.prems r have "fail_calls env cs (ms @ [r]) s2 = (ms', s')" by (simp add: Let_def)
  from Cons.IH [OF this] obtain rs where rs: "ms' = (ms @ [r]) @ rs" "map tr_toolCallId rs = map call_id cs"
    "\<forall>r \<in> set rs. tr_isError r" "moves (InTurn {#}) (InTurn {#}) (result_messages rs) s2 s'" by blast
  with moves_trans [OF one rs(4)] publish_result_spec(1,2) [OF r] show ?case by (intro exI [of _ "r # rs"]) simp
qed

lemma batch_spec:
  assumes "run_tool_calls env m v s = (batch, s')"
  shows "answers env (assistant_calls m) (tb_messages batch)"
    and "am_stopReason m = LengthStop \<longrightarrow> map tr_toolCallId (tb_messages batch) = map call_id (assistant_calls m)
      \<and> (\<forall>r \<in> set (tb_messages batch). tr_isError r) \<and> \<not> tb_terminate batch"
    and "moves (InTurn {#}) (InTurn {#}) (result_messages (tb_messages batch)) s s'"
proof -
  have "answers env (assistant_calls m) (tb_messages batch)
    \<and> (am_stopReason m = LengthStop \<longrightarrow> map tr_toolCallId (tb_messages batch) = map call_id (assistant_calls m)
      \<and> (\<forall>r \<in> set (tb_messages batch). tr_isError r) \<and> \<not> tb_terminate batch)
    \<and> moves (InTurn {#}) (InTurn {#}) (result_messages (tb_messages batch)) s s'"
  proof (cases "am_stopReason m = LengthStop")
    case True
    obtain ms s1 where fail: "fail_calls env (assistant_calls m) [] s = (ms, s1)" by fastforce
    with assms True have "batch = \<lparr>tb_messages = ms, tb_terminate = False\<rparr>" "s' = s1"
      by (simp_all add: run_tool_calls_def failToolCallsFromTruncatedMessage_def)
    with fail_calls_spec [OF fail] show ?thesis by (auto simp: answers_def intro!: exI [of _ "length (assistant_calls m)"])
  next
    case False
    with assms have exec: "executeToolCalls env (lv_context v) m (lv_config v) s = (batch, s')"
      by (simp add: run_tool_calls_def)
    have "answers env (assistant_calls m) (tb_messages batch)
        \<and> moves (InTurn {#}) (InTurn {#}) (result_messages (tb_messages batch)) s s'"
    proof (cases "executeToolCallsSequential env (lv_context v) m (assistant_calls m) (lv_config v) s = (batch, s')")
      case True
      obtain fs ms s1 where seq: "run_sequential env (lv_context v) m (lv_config v) (assistant_calls m) [] [] s = ((fs, ms), s1)"
        by (metis surj_pair)
      with True have "tb_messages batch = ms" "s' = s1" by (auto simp: executeToolCallsSequential_def)
      with run_sequential_spec [OF seq] show ?thesis by (auto simp: answers_def aborted_def)
    next
      case seq: False
      with exec have "executeToolCallsParallel env (lv_context v) m (assistant_calls m) (lv_config v) s = (batch, s')"
        by (simp add: executeToolCalls_def Let_def split: if_splits)
      then show ?thesis by (rule parallel_spec)
    qed
    with False show ?thesis by simp
  qed
  then show "answers env (assistant_calls m) (tb_messages batch)"
    and "am_stopReason m = LengthStop \<longrightarrow> map tr_toolCallId (tb_messages batch) = map call_id (assistant_calls m)
      \<and> (\<forall>r \<in> set (tb_messages batch). tr_isError r) \<and> \<not> tb_terminate batch"
    and "moves (InTurn {#}) (InTurn {#}) (result_messages (tb_messages batch)) s s'" by simp_all
qed

section \<open>The response\<close>

definition is_start :: "stream_event \<Rightarrow> bool" where
  "is_start ev = (case ev of StreamStart _ \<Rightarrow> True | _ \<Rightarrow> False)"

lemma is_start_StreamStart [simp]: "is_start (StreamStart m)"
  by (simp add: is_start_def)

text \<open>The documented protocol of a response: at most one \<open>start\<close>.\<close>

definition one_start :: "'w loop_env \<Rightarrow> bool" where
  "one_start env \<longleftrightarrow> (\<forall>model ctx key reasoning w evs final w'.
     le_stream env model ctx key reasoning w = (Inr (evs, final), w') \<longrightarrow> length (filter is_start evs) \<le> 1)"

text \<open>The transcript while a response arrives: \<open>base\<close>, and behind it the partial message if there is one.\<close>

definition partial_view :: "agent_message list \<Rightarrow> 'w agent_context \<Rightarrow> bool \<Rightarrow> 'w agent_context \<Rightarrow> agent_message option \<Rightarrow> bool" where
  "partial_view base ctx0 added ctx shown \<longleftrightarrow>
     ctx_systemPrompt ctx = ctx_systemPrompt ctx0 \<and> ctx_tools ctx = ctx_tools ctx0
     \<and> (if added then \<exists>m. shown = Some (assistant m) \<and> ctx_messages ctx = base @ [assistant m]
        else shown = None \<and> ctx_messages ctx = base)"

definition message_phase :: "jstr multiset \<Rightarrow> agent_message option \<Rightarrow> phase" where
  "message_phase T shown = (case shown of None \<Rightarrow> InTurn T | Some m \<Rightarrow> InMessage T m)"

lemma view_start:
  assumes "partial_view base ctx0 False ctx shown"
  shows "shown = None \<and> partial_view base ctx0 True (push_message (assistant m) ctx) (Some (assistant m))
    \<and> moves (message_phase T None) (message_phase T (Some (assistant m))) [] s (emit env (MessageStart (assistant m)) s)"
  using assms moves_emit [of "InTurn T" "MessageStart (assistant m)" "InMessage T (assistant m)" s env]
  by (simp add: partial_view_def push_message_def message_phase_def)

lemma view_update:
  assumes "partial_view base ctx0 True ctx shown"
  shows "partial_view base ctx0 True (replace_last (assistant m) ctx) (Some (assistant m))
    \<and> moves (message_phase T shown) (message_phase T (Some (assistant m))) [] s (emit env (MessageUpdate (assistant m) ev) s)"
  using assms
    moves_emit [of "InMessage T (the shown)" "MessageUpdate (assistant m) ev" "InMessage T (assistant m)" s env]
  by (auto simp: partial_view_def replace_last_def message_phase_def is_assistant_def)

lemma consume_events_spec:
  assumes "consume_events env evs added added ctx s = (added', ctx', s')"
    and "partial_view base ctx0 added ctx shown"
    and "length (filter is_start evs) \<le> (if added then 0 else 1)"
  shows "\<exists>shown'. partial_view base ctx0 added' ctx' shown' \<and> moves (message_phase T shown) (message_phase T shown') [] s s'"
  using assms
proof (induction evs arbitrary: added ctx s shown)
  case Nil
  then show ?case by (auto intro: moves_quiet)
next
  case (Cons ev evs)
  consider (finish) "consume_events env (ev # evs) added added ctx s = (added, ctx, s)"
    | (start) m where "ev = StreamStart m" "\<not> added"
    | (partial) m where "event_partial ev = Some m" "\<not> is_start ev"
        "consume_events env (ev # evs) added added ctx s
          = (if added then consume_events env evs True added (replace_last (assistant m) ctx)
               (emit env (MessageUpdate (assistant m) ev) s)
             else consume_events env evs added added ctx s)"
    using Cons.prems(3) by (cases ev) (auto simp: is_start_def split: if_splits)
  then show ?case
  proof cases
    case finish
    with Cons.prems show ?thesis by (auto intro: moves_quiet)
  next
    case start
    with Cons.prems(2) view_start [of base ctx0 ctx shown m T s env] have view:
        "shown = None" "partial_view base ctx0 True (push_message (assistant m) ctx) (Some (assistant m))"
      and start_moves: "moves (message_phase T shown) (message_phase T (Some (assistant m))) [] s (emit env (MessageStart (assistant m)) s)"
      by auto
    have "length (filter is_start evs) \<le> (if True then 0 else 1)" using Cons.prems(3) start by simp
    from Cons.IH [OF _ view(2) this] Cons.prems(1) start obtain shown' where
      "partial_view base ctx0 added' ctx' shown'"
      "moves (message_phase T (Some (assistant m))) (message_phase T shown') [] (emit env (MessageStart (assistant m)) s) s'" by auto
    with moves_trans [OF start_moves this(2)] show ?thesis by auto
  next
    case (partial m)
    show ?thesis
    proof (cases added)
      case False
      with partial Cons show ?thesis by auto
    next
      case True
      with Cons.prems(2) view_update [of base ctx0 ctx shown m T s env ev] have view:
          "partial_view base ctx0 True (replace_last (assistant m) ctx) (Some (assistant m))"
        and update_moves: "moves (message_phase T shown) (message_phase T (Some (assistant m))) [] s
          (emit env (MessageUpdate (assistant m) ev) s)" by auto
      have "length (filter is_start evs) \<le> (if True then 0 else 1)" using Cons.prems(3) True partial by simp
      from Cons.IH [OF _ view this] Cons.prems(1) partial True obtain shown' where
        "partial_view base ctx0 added' ctx' shown'"
        "moves (message_phase T (Some (assistant m))) (message_phase T shown') [] (emit env (MessageUpdate (assistant m) ev) s) s'" by auto
      with moves_trans [OF update_moves this(2)] show ?thesis by auto
    qed
  qed
qed

lemma moves_finish_message:
  "is_assistant m \<Longrightarrow> moves (InMessage T m) (InTurn T) [assistant final] s (emit env (MessageEnd (assistant final)) s)"
  using moves_emit [of "InMessage T m" "MessageEnd (assistant final)" "InTurn T" s env] by (simp add: is_assistant_def)

lemma build_context_quiet: "buildProviderContext ctx config s = (r, s') \<Longrightarrow> rs_events s' = rs_events s"
  by (auto simp: buildProviderContext_def then_result_def dest!: run_hook_quiet split: option.splits sum.splits prod.splits)

lemma response_parts:
  assumes "streamAssistantResponse env ctx config s = (Inr (m, ctx'), s')"
  obtains llmContext s1 key s2 evs s3 added ctx1 s4 where
    "buildProviderContext ctx config s = (Inr llmContext, s1)"
    and "(case lc_getApiKey config of None \<Rightarrow> (Inr None, s1)
        | Some getApiKey \<Rightarrow> run_hook (getApiKey (lm_provider (lc_model config))) s1) = (Inr key, s2)"
    and "run_hook (le_stream env (lc_model config) llmContext
      (if or_text key [] \<noteq> [] then key else lc_apiKey config) (lc_reasoning config)) s2 = (Inr (evs, m), s3)"
    and "consume_events env evs False False ctx s3 = (added, ctx1, s4)"
    and "ctx' = (if added then replace_last (assistant m) ctx1 else push_message (assistant m) ctx1)"
    and "s' = emit env (MessageEnd (assistant m)) (if added then s4 else emit env (MessageStart (assistant m)) s4)"
proof -
  obtain llmContext s1 key s2 ef s3 where
    parts: "buildProviderContext ctx config s = (Inr llmContext, s1)"
      "(case lc_getApiKey config of None \<Rightarrow> (Inr None, s1)
        | Some getApiKey \<Rightarrow> run_hook (getApiKey (lm_provider (lc_model config))) s1) = (Inr key, s2)"
      "run_hook (le_stream env (lc_model config) llmContext
      (if or_text key [] \<noteq> [] then key else lc_apiKey config) (lc_reasoning config)) s2 = (Inr ef, s3)"
    and rest: "(case ef of (events, final) \<Rightarrow> (case consume_events env events False False ctx s3 of
          (addedPartial, ctx, s) \<Rightarrow>
            (let (ctx, s) = (if addedPartial then (replace_last (assistant final) ctx, s)
                   else (push_message (assistant final) ctx, emit env (MessageStart (assistant final)) s));
                 s = emit env (MessageEnd (assistant final)) s
             in (Inr (final, ctx), s)))) = (Inr (m, ctx') :: jstr + _, s')"
    using assms unfolding streamAssistantResponse_def Let_def by (auto simp: then_result_Inr)
  obtain evs final where ef: "ef = (evs, final)" by fastforce
  obtain added ctx1 s4 where consumed: "consume_events env evs False False ctx s3 = (added, ctx1, s4)" by (metis surj_pair)
  from rest ef consumed have "final = m"
    "ctx' = (if added then replace_last (assistant m) ctx1 else push_message (assistant m) ctx1)"
    "s' = emit env (MessageEnd (assistant m)) (if added then s4 else emit env (MessageStart (assistant m)) s4)"
    by (auto simp: Let_def split: if_splits)
  with that parts ef consumed show thesis by simp
qed

lemma response_spec:
  assumes "streamAssistantResponse env ctx config s = (Inr (m, ctx'), s')" and "one_start env"
  shows "moves (InTurn T) (InTurn T) [assistant m] s s'"
    and "ctx_messages ctx' = ctx_messages ctx @ [assistant m]"
    and "ctx_systemPrompt ctx' = ctx_systemPrompt ctx" and "ctx_tools ctx' = ctx_tools ctx"
proof -
  let ?key = "\<lambda>s. case lc_getApiKey config of None \<Rightarrow> (Inr None, s)
        | Some getApiKey \<Rightarrow> run_hook (getApiKey (lm_provider (lc_model config))) s"
  obtain llmContext s1 key s2 evs s3 added ctx1 s4 where
    built: "buildProviderContext ctx config s = (Inr llmContext, s1)" and key: "?key s1 = (Inr key, s2)"
    and streamed: "run_hook (le_stream env (lc_model config) llmContext
      (if or_text key [] \<noteq> [] then key else lc_apiKey config) (lc_reasoning config)) s2 = (Inr (evs, m), s3)"
    and consumed: "consume_events env evs False False ctx s3 = (added, ctx1, s4)"
    and out: "ctx' = (if added then replace_last (assistant m) ctx1 else push_message (assistant m) ctx1)"
      "s' = emit env (MessageEnd (assistant m)) (if added then s4 else emit env (MessageStart (assistant m)) s4)"
    by (rule response_parts [OF assms(1)])
  have quiet: "rs_events s3 = rs_events s"
    using build_context_quiet [OF built] key run_hook_quiet [OF streamed] by (auto dest: run_hook_quiet split: option.splits)
  have "\<exists>w w'. le_stream env (lc_model config) llmContext (if or_text key [] \<noteq> [] then key else lc_apiKey config)
      (lc_reasoning config) w = (Inr (evs, m), w')"
    using streamed by (rule run_hook_result)
  then have once: "length (filter is_start evs) \<le> (if False then 0 else 1)"
    using assms(2) unfolding one_start_def if_False by blast
  have "partial_view (ctx_messages ctx) ctx False ctx None" by (simp add: partial_view_def)
  from consume_events_spec [OF consumed this once, of T] obtain shown where
    view: "partial_view (ctx_messages ctx) ctx added ctx1 shown" and move: "moves (InTurn T) (message_phase T shown) [] s s4"
    using quiet by (auto simp: message_phase_def moves_def)
  have "moves (InTurn T) (InTurn T) [assistant m] s s'
    \<and> ctx_messages ctx' = ctx_messages ctx @ [assistant m] \<and> ctx_systemPrompt ctx' = ctx_systemPrompt ctx \<and> ctx_tools ctx' = ctx_tools ctx"
  proof (cases added)
    case True
    with view obtain p where shown: "shown = Some (assistant p)" by (auto simp: partial_view_def)
    with move have "moves (InTurn T) (InMessage T (assistant p)) [] s s4" by (simp add: message_phase_def)
    from moves_trans [OF this moves_finish_message] True view out show ?thesis
      by (auto simp: is_assistant_def partial_view_def replace_last_def)
  next
    case False
    with view move have plain: "moves (InTurn T) (InTurn T) [] s s4" by (simp add: partial_view_def message_phase_def)
    have "s' = emit_message env (assistant m) s4" using out False by (simp add: emit_message_def)
    with moves_trans [OF plain moves_message [of T "assistant m" s4 env]]
    have "moves (InTurn T) (InTurn T) [assistant m] s s'" by simp
    with False view out show ?thesis by (simp add: partial_view_def push_message_def)
  qed
  then show "moves (InTurn T) (InTurn T) [assistant m] s s'"
    and "ctx_messages ctx' = ctx_messages ctx @ [assistant m]"
    and "ctx_systemPrompt ctx' = ctx_systemPrompt ctx" and "ctx_tools ctx' = ctx_tools ctx" by simp_all
qed

section \<open>Streams that do not follow the protocol\<close>

text \<open>
  The messages that a part of a run completes do not depend on the model's stream; only the phases do: a second
  \<open>start\<close> opens a message inside a message.
\<close>

definition completes :: "agent_message list \<Rightarrow> 'w run_state \<Rightarrow> 'w run_state \<Rightarrow> bool" where
  "completes ms s s' \<longleftrightarrow> (\<exists>evs. rs_events s' = rs_events s @ evs \<and> journal evs = ms)"

definition advances :: "'w loop_env \<Rightarrow> phase \<Rightarrow> phase \<Rightarrow> agent_message list \<Rightarrow> 'w run_state \<Rightarrow> 'w run_state \<Rightarrow> bool" where
  "advances env p q ms s s' \<longleftrightarrow> completes ms s s' \<and> (one_start env \<longrightarrow> moves p q ms s s')"

lemma moves_completes: "moves p q ms s s' \<Longrightarrow> completes ms s s'"
  by (auto simp: moves_def completes_def)

lemma completes_refl: "completes [] s s"
  by (simp add: completes_def)

lemma completes_trans: "completes ms s s' \<Longrightarrow> completes ns s' s'' \<Longrightarrow> completes (ms @ ns) s s''"
  by (auto simp: completes_def)

lemma advances_moves: "moves p q ms s s' \<Longrightarrow> advances env p q ms s s'"
  by (simp add: advances_def moves_completes)

lemma advances_trans: "advances env p q ms s s' \<Longrightarrow> advances env q r ns s' s'' \<Longrightarrow> advances env p r (ms @ ns) s s''"
  by (auto simp: advances_def intro: completes_trans moves_trans)

lemma advances_emit: "phase_step p ev = Some q \<Longrightarrow> advances env p q (journal [ev]) s (emit env ev s)"
  by (rule advances_moves [OF moves_emit])

lemma advances_quiet_right: "advances env p q ms s s' \<Longrightarrow> rs_events s'' = rs_events s' \<Longrightarrow> advances env p q ms s s''"
  by (simp add: advances_def completes_def moves_def)

lemma consume_events_completes:
  "consume_events env evs hasPartial added ctx s = (added', ctx', s') \<Longrightarrow> completes [] s s'"
proof (induction evs arbitrary: hasPartial added ctx s)
  case Nil
  then show ?case by (auto simp: completes_def)
next
  case (Cons ev evs)
  have emitted: "completes [] (emit env (MessageStart x) s) s' \<Longrightarrow> completes [] s s'"
    "completes [] (emit env (MessageUpdate x u) s) s' \<Longrightarrow> completes [] s s'" for x u
    by (auto simp: completes_def emit_def)
  show ?case
    using Cons.prems by (cases ev) (auto dest!: Cons.IH emitted split: if_splits simp: completes_refl)
qed

lemma response_advances:
  assumes "streamAssistantResponse env ctx config s = (Inr (m, ctx'), s')"
  shows "advances env (InTurn T) (InTurn T) [assistant m] s s'"
proof -
  let ?key = "\<lambda>s. case lc_getApiKey config of None \<Rightarrow> (Inr None, s)
        | Some getApiKey \<Rightarrow> run_hook (getApiKey (lm_provider (lc_model config))) s"
  obtain llmContext s1 key s2 evs s3 added ctx1 s4 where
    built: "buildProviderContext ctx config s = (Inr llmContext, s1)" and key: "?key s1 = (Inr key, s2)"
    and streamed: "run_hook (le_stream env (lc_model config) llmContext
      (if or_text key [] \<noteq> [] then key else lc_apiKey config) (lc_reasoning config)) s2 = (Inr (evs, m), s3)"
    and consumed: "consume_events env evs False False ctx s3 = (added, ctx1, s4)"
    and s': "s' = emit env (MessageEnd (assistant m)) (if added then s4 else emit env (MessageStart (assistant m)) s4)"
    by (rule response_parts [OF assms])
  have "rs_events s3 = rs_events s"
    using build_context_quiet [OF built] key run_hook_quiet [OF streamed] by (auto dest: run_hook_quiet split: option.splits)
  with consume_events_completes [OF consumed] have "completes [assistant m] s s'"
    unfolding s' by (auto simp: completes_def emit_def)
  with response_spec(1) [OF assms] show ?thesis by (simp add: advances_def)
qed

end
