(* ===== verification/Agent_Run_Facts.thy ===== *)
theory Agent_Run_Facts
  imports Agent_Events
begin

text \<open>
  What a run of the agent loop guarantees, whatever the model, the tools, the hooks and the host's
  scheduling do: at every point that the loop reaches, also in runs that never end.
\<close>

lemma then_resultE:
  assumes "then_result m f = (Inr b, w')"
  obtains a w where "m = (Inr a, w)" and "f a w = (Inr b, w')"
  using assms by (auto simp: then_result_Inr)

section \<open>Reachable points\<close>

inductive run_reaches ::
  "'w loop_env \<Rightarrow> agent_message list \<Rightarrow> 'w agent_context \<Rightarrow> 'w loop_config \<Rightarrow> 'w run_state
    \<Rightarrow> bool \<Rightarrow> 'w loop_vars \<Rightarrow> 'w run_state \<Rightarrow> bool"
  for env prompts ctx config s0 where
  reach_start: "poll (lc_getSteeringMessages config) (begin_run env prompts s0) = (Inr pending, s) \<Longrightarrow>
    run_reaches env prompts ctx config s0 True
      (initial_vars (ctx\<lparr>ctx_messages := ctx_messages ctx @ prompts\<rparr>) prompts config pending) s"
| reach_step: "run_reaches env prompts ctx config s0 again v s \<Longrightarrow>
    loop_step env again v s = (Inr (TurnDone again' v'), s') \<Longrightarrow> run_reaches env prompts ctx config s0 again' v' s'"

inductive_cases reach_start_cases: "run_reaches env prompts ctx config s0 again v s"

lemma loop_from_result:
  assumes "loop_from env again v s = Some (Inr ms, s')" and "run_reaches env prompts ctx config s0 again v s"
  shows "\<exists>again' v' s''. run_reaches env prompts ctx config s0 again' v' s'' \<and> loop_step env again' v' s'' = (Inr (RunEnded ms), s')"
proof -
  have "run_reaches env prompts ctx config s0 again v s \<longrightarrow> r = (Inr ms, s') \<longrightarrow>
      (\<exists>again' v' s''. run_reaches env prompts ctx config s0 again' v' s'' \<and> loop_step env again' v' s'' = (Inr (RunEnded ms), s'))"
    if "loop_from env again v s = Some r" for r
    using that
  proof (induction rule: loop_from.raw_induct [rotated 1, consumes 1])
    case (1 loop_from env again v s r)
    then show ?case
      by (auto split: prod.splits sum.splits turn_result.splits dest: reach_step)
  qed
  with assms show ?thesis by blast
qed

section \<open>The invariant\<close>

record exchange =
  ex_injected :: "agent_message list"
  ex_response :: assistant_message
  ex_results :: "tool_result_message list"

definition exchange_messages :: "exchange \<Rightarrow> agent_message list" where
  "exchange_messages ex = ex_injected ex @ assistant (ex_response ex) # result_messages (ex_results ex)"

text \<open>A failed response has no results; a truncated one is answered with errors only; every other by its calls.\<close>

definition exchange_ok :: "'w loop_env \<Rightarrow> exchange \<Rightarrow> bool" where
  "exchange_ok env ex \<longleftrightarrow>
     (if am_stopReason (ex_response ex) \<in> {ErrorStop, AbortedStop} then ex_results ex = []
      else if am_stopReason (ex_response ex) = LengthStop
      then map tr_toolCallId (ex_results ex) = map call_id (assistant_calls (ex_response ex)) \<and> (\<forall>r \<in> set (ex_results ex). tr_isError r)
      else answers env (assistant_calls (ex_response ex)) (ex_results ex))"

definition failed_exchange :: "exchange \<Rightarrow> bool" where
  "failed_exchange ex \<longleftrightarrow> am_stopReason (ex_response ex) \<in> {ErrorStop, AbortedStop}"

text \<open>The messages of a run that goes on: no response has failed so far.\<close>

definition run_transcript :: "'w loop_env \<Rightarrow> agent_message list \<Rightarrow> agent_message list \<Rightarrow> bool" where
  "run_transcript env prompts ms \<longleftrightarrow>
     (\<exists>exs. ms = prompts @ concat (map exchange_messages exs) \<and> (\<forall>ex \<in> set exs. exchange_ok env ex \<and> \<not> failed_exchange ex))"

text \<open>The messages of a run that has returned: only the last response may have failed.\<close>

definition ended_transcript :: "'w loop_env \<Rightarrow> agent_message list \<Rightarrow> agent_message list \<Rightarrow> bool" where
  "ended_transcript env prompts ms \<longleftrightarrow>
     (\<exists>exs. ms = prompts @ concat (map exchange_messages exs) \<and> (\<forall>ex \<in> set exs. exchange_ok env ex)
       \<and> (\<forall>ex \<in> set (butlast exs). \<not> failed_exchange ex))"

lemma run_transcript_start: "run_transcript env prompts prompts"
  by (auto simp: run_transcript_def intro: exI [of _ "[]"])

lemma run_transcript_snoc:
  assumes "run_transcript env prompts ms" and "exchange_ok env ex"
  shows "\<not> failed_exchange ex \<Longrightarrow> run_transcript env prompts (ms @ exchange_messages ex)"
    and "ended_transcript env prompts (ms @ exchange_messages ex)"
proof -
  from assms(1) obtain exs where exs: "ms = prompts @ concat (map exchange_messages exs)"
    "\<forall>ex \<in> set exs. exchange_ok env ex \<and> \<not> failed_exchange ex" unfolding run_transcript_def by blast
  then show "\<not> failed_exchange ex \<Longrightarrow> run_transcript env prompts (ms @ exchange_messages ex)"
    and "ended_transcript env prompts (ms @ exchange_messages ex)"
    unfolding run_transcript_def ended_transcript_def using assms(2) by (auto intro!: exI [of _ "exs @ [ex]"])
qed

lemma run_transcript_ended: "run_transcript env prompts ms \<Longrightarrow> ended_transcript env prompts ms"
  unfolding run_transcript_def ended_transcript_def by (blast dest: in_set_butlastD)

text \<open>A \<open>prepareNextTurn\<close> that does not replace the context.\<close>

definition keeps_context :: "'w loop_config \<Rightarrow> bool" where
  "keeps_context config \<longleftrightarrow> (\<forall>prepare tc w u w'. lc_prepareNextTurn config = Some prepare \<longrightarrow>
     prepare tc w = (Inr (Some u), w') \<longrightarrow> tu_context u = None)"

definition turn_phase :: "'w loop_vars \<Rightarrow> phase" where
  "turn_phase v = (if lv_firstTurn v then InTurn {#} else BetweenTurns)"

definition loop_inv ::
  "'w loop_env \<Rightarrow> agent_message list \<Rightarrow> 'w agent_context \<Rightarrow> 'w run_state \<Rightarrow> bool \<Rightarrow> 'w loop_vars \<Rightarrow> 'w run_state \<Rightarrow> bool" where
  "loop_inv env prompts ctx s0 again v s \<longleftrightarrow> (lv_firstTurn v \<longrightarrow> again)
     \<and> run_transcript env prompts (lv_newMessages v)
     \<and> advances env NotStarted (turn_phase v) (lv_newMessages v) s0 s
     \<and> (one_start env \<longrightarrow> keeps_context (lv_config v) \<longrightarrow> ctx_messages (lv_context v) = ctx_messages ctx @ lv_newMessages v)"

lemma inject_messages_spec:
  "fold (inject_message env) ms (v, s) = (v', s') \<Longrightarrow>
    v' = v\<lparr>lv_context := (lv_context v)\<lparr>ctx_messages := ctx_messages (lv_context v) @ ms\<rparr>,
      lv_newMessages := lv_newMessages v @ ms\<rparr>
    \<and> moves (InTurn T) (InTurn T) ms s s'"
proof (induction ms arbitrary: v s)
  case Nil
  then show ?case by (auto intro: moves_quiet)
next
  case (Cons m ms)
  let ?v = "v\<lparr>lv_context := push_message m (lv_context v), lv_newMessages := lv_newMessages v @ [m]\<rparr>"
  from Cons.prems have "fold (inject_message env) ms (?v, emit_message env m s) = (v', s')"
    by (simp add: inject_message_def [of env m])
  from Cons.IH [OF this] moves_trans [OF moves_message [of T m s env]] show ?case
    by (simp add: push_message_def)
qed

lemma keeps_context_cong: "lc_prepareNextTurn config' = lc_prepareNextTurn config \<Longrightarrow> keeps_context config' = keeps_context config"
  by (simp add: keeps_context_def)

lemma keeps_context_update [simp]: "lc_prepareNextTurn (lv_config (apply_turn_update u v)) = lc_prepareNextTurn (lv_config v)"
  by (simp add: apply_turn_update_def)

lemma finish_turn_spec:
  assumes "finish_turn env m results again v s = (Inr r, s')" and "advances env NotStarted (InTurn {#}) (lv_newMessages v) s0 s"
  shows "case r of
      RunEnded ms \<Rightarrow> ms = lv_newMessages v \<and> advances env NotStarted RunOver (lv_newMessages v) s0 s'
    | TurnDone again' v' \<Rightarrow> again' = again \<and> lv_newMessages v' = lv_newMessages v \<and> lv_firstTurn v' = lv_firstTurn v
        \<and> advances env NotStarted BetweenTurns (lv_newMessages v) s0 s'
        \<and> lc_prepareNextTurn (lv_config v') = lc_prepareNextTurn (lv_config v)
        \<and> (keeps_context (lv_config v) \<longrightarrow> lv_context v' = lv_context v)"
proof -
  let ?s = "emit env (TurnEnd m results) s"
  have ended: "advances env NotStarted BetweenTurns (lv_newMessages v) s0 ?s"
    using advances_trans [OF assms(2) advances_emit [of "InTurn {#}" "TurnEnd m results" BetweenTurns env s]] by simp
  let ?prepare = "case lc_prepareNextTurn (lv_config v) of None \<Rightarrow> (Inr None, ?s)
    | Some prepare \<Rightarrow> run_hook (prepare (turn_context_of m results v)) ?s"
  from assms(1) obtain update s1 where prepared: "?prepare = (Inr update, s1)" and rest:
    "(let v = (case update of None \<Rightarrow> v | Some u \<Rightarrow> apply_turn_update u v)
         in then_result (case lc_shouldStopAfterTurn (lv_config v) of
                None \<Rightarrow> (Inr False, s1)
              | Some should_stop \<Rightarrow> run_hook (should_stop (turn_context_of m results v)) s1) (\<lambda>stop s.
            if stop then (Inr (RunEnded (lv_newMessages v)), emit env (AgentEnd (lv_newMessages v)) s)
            else then_result (poll (lc_getSteeringMessages (lv_config v)) s) (\<lambda>pending s.
              (Inr (TurnDone again (v\<lparr>lv_pending := pending\<rparr>)), s)))) = (Inr r, s')"
    unfolding finish_turn_def Let_def then_result_Inr by blast
  define v1 where "v1 = (case update of None \<Rightarrow> v | Some u \<Rightarrow> apply_turn_update u v)"
  have v1: "lv_newMessages v1 = lv_newMessages v" "lv_firstTurn v1 = lv_firstTurn v"
    "lc_prepareNextTurn (lv_config v1) = lc_prepareNextTurn (lv_config v)"
    by (simp_all add: v1_def apply_turn_update_def split: option.splits)
  have same: "lv_context v1 = lv_context v" if "keeps_context (lv_config v)"
  proof (cases update)
    case (Some u)
    with prepared obtain prepare w w' where "lc_prepareNextTurn (lv_config v) = Some prepare"
      "prepare (turn_context_of m results v) w = (Inr (Some u), w')"
      by (auto dest: run_hook_result split: option.splits)
    with that have "tu_context u = None" unfolding keeps_context_def by blast
    with Some show ?thesis by (simp add: v1_def apply_turn_update_def)
  qed (simp add: v1_def)
  have quiet: "rs_events s1 = rs_events ?s" using prepared by (auto dest: run_hook_quiet split: option.splits)
  let ?stop = "case lc_shouldStopAfterTurn (lv_config v1) of None \<Rightarrow> (Inr False, s1)
    | Some should_stop \<Rightarrow> run_hook (should_stop (turn_context_of m results v1)) s1"
  from rest obtain stop s2 where stopped: "?stop = (Inr stop, s2)" and rest:
    "(if stop then (Inr (RunEnded (lv_newMessages v1)), emit env (AgentEnd (lv_newMessages v1)) s2)
            else then_result (poll (lc_getSteeringMessages (lv_config v1)) s2) (\<lambda>pending s.
              (Inr (TurnDone again (v1\<lparr>lv_pending := pending\<rparr>)), s))) = (Inr r, s')"
    unfolding v1_def [symmetric] Let_def then_result_Inr by blast
  have "rs_events s2 = rs_events s1" using stopped by (auto dest: run_hook_quiet split: option.splits)
  with quiet have "rs_events s2 = rs_events ?s" by simp
  from advances_quiet_right [OF ended this] have before: "advances env NotStarted BetweenTurns (lv_newMessages v) s0 s2" .
  show ?thesis
  proof (cases stop)
    case True
    with rest have "r = RunEnded (lv_newMessages v)" "s' = emit env (AgentEnd (lv_newMessages v)) s2" by (simp_all add: v1)
    with advances_trans [OF before advances_emit [of BetweenTurns "AgentEnd (lv_newMessages v)" RunOver env s2]] show ?thesis by simp
  next
    case False
    with rest obtain pending where "poll (lc_getSteeringMessages (lv_config v1)) s2 = (Inr pending, s')"
      and "r = TurnDone again (v1\<lparr>lv_pending := pending\<rparr>)" by (auto simp: then_result_Inr)
    with before same v1 show ?thesis by (auto intro: advances_quiet_right dest: poll_quiet)
  qed
qed

lemma finish_turn_inv:
  assumes "finish_turn env m results again v s = (Inr r, s')"
    and "advances env NotStarted (InTurn {#}) (lv_newMessages v) s0 s"
    and "\<not> lv_firstTurn v" and "run_transcript env prompts (lv_newMessages v)"
    and "one_start env \<longrightarrow> keeps_context (lv_config v) \<longrightarrow> ctx_messages (lv_context v) = ctx_messages ctx @ lv_newMessages v"
  shows "case r of
      RunEnded ms \<Rightarrow> ended_transcript env prompts ms \<and> advances env NotStarted RunOver ms s0 s'
    | TurnDone again' v' \<Rightarrow> loop_inv env prompts ctx s0 again' v' s'"
proof (cases r)
  case (RunEnded ms)
  with finish_turn_spec [OF assms(1,2)] run_transcript_ended [OF assms(4)] show ?thesis by simp
next
  case (TurnDone again' v')
  with finish_turn_spec [OF assms(1,2)] have after: "lv_newMessages v' = lv_newMessages v" "lv_firstTurn v' = lv_firstTurn v"
    "advances env NotStarted BetweenTurns (lv_newMessages v) s0 s'"
    "keeps_context (lv_config v) \<longrightarrow> lv_context v' = lv_context v"
    and prepare: "lc_prepareNextTurn (lv_config v') = lc_prepareNextTurn (lv_config v)" by simp_all
  from keeps_context_cong [OF prepare] after assms(3,4,5) TurnDone show ?thesis
    by (simp add: loop_inv_def turn_phase_def)
qed

lemma loop_turn_inv:
  assumes "loop_turn env v s = (Inr r, s')" and "loop_inv env prompts ctx s0 again v s"
  shows "case r of
      RunEnded ms \<Rightarrow> ended_transcript env prompts ms \<and> advances env NotStarted RunOver ms s0 s'
    | TurnDone again' v' \<Rightarrow> loop_inv env prompts ctx s0 again' v' s'"
proof -
  let ?s1 = "if lv_firstTurn v then s else emit env TurnStart s"
  obtain v2 s2 where inj: "fold (inject_message env) (lv_pending v) (v\<lparr>lv_firstTurn := False\<rparr>, ?s1) = (v2, s2)" by fastforce
  let ?v2 = "v2\<lparr>lv_pending := []\<rparr>"
  from assms(1) inj have "then_result (streamAssistantResponse env (lv_context ?v2) (lv_config ?v2) s2) (\<lambda>(m, ctx) s.
      after_response env m (?v2\<lparr>lv_context := ctx, lv_newMessages := lv_newMessages ?v2 @ [assistant m]\<rparr>) s) = (Inr r, s')"
    by (simp add: loop_turn_def begin_turn_def inject_pending_def)
  then obtain m ctx' s3 where
    response: "streamAssistantResponse env (lv_context ?v2) (lv_config ?v2) s2 = (Inr (m, ctx'), s3)" and rest:
    "after_response env m (?v2\<lparr>lv_context := ctx', lv_newMessages := lv_newMessages ?v2 @ [assistant m]\<rparr>) s3 = (Inr r, s')"
    by (rule then_resultE) auto
  define v3 where "v3 = ?v2\<lparr>lv_context := ctx', lv_newMessages := lv_newMessages ?v2 @ [assistant m]\<rparr>"
  note rest = rest [folded v3_def, unfolded after_response_def Let_def]
  have start: "advances env NotStarted (InTurn {#}) (lv_newMessages v) s0 ?s1"
    using assms(2) advances_trans [of env NotStarted BetweenTurns "lv_newMessages v" s0 s "InTurn {#}" "[]" "emit env TurnStart s"]
      advances_emit [of BetweenTurns TurnStart "InTurn {#}" env s]
    by (auto simp: loop_inv_def turn_phase_def)
  from inject_messages_spec [OF inj, of "{#}"] have v2: "lv_newMessages v2 = lv_newMessages v @ lv_pending v"
      "ctx_messages (lv_context v2) = ctx_messages (lv_context v) @ lv_pending v" "lv_config v2 = lv_config v" "\<not> lv_firstTurn v2"
    and injected: "moves (InTurn {#}) (InTurn {#}) (lv_pending v) ?s1 s2" by simp_all
  note injected = advances_moves [OF injected, of env]
  note answered = response_advances [OF response, of "{#}"]
  from response_spec(2) [OF response] have ctx': "one_start env \<longrightarrow> ctx_messages ctx' = ctx_messages (lv_context v2) @ [assistant m]" by simp
  have v3: "lv_newMessages v3 = lv_newMessages v @ lv_pending v @ [assistant m]" "lv_config v3 = lv_config v" "\<not> lv_firstTurn v3"
    "one_start env \<longrightarrow> ctx_messages (lv_context v3) = ctx_messages (lv_context v) @ lv_pending v @ [assistant m]"
    by (simp_all add: v3_def v2 ctx')
  have moved: "advances env NotStarted (InTurn {#}) (lv_newMessages v3) s0 s3"
    using advances_trans [OF advances_trans [OF start injected] answered] by (simp add: v3)
  have old: "run_transcript env prompts (lv_newMessages v)"
    "one_start env \<longrightarrow> keeps_context (lv_config v) \<longrightarrow> ctx_messages (lv_context v) = ctx_messages ctx @ lv_newMessages v"
    using assms(2) by (simp_all add: loop_inv_def)
  let ?ex = "\<lambda>results. \<lparr>ex_injected = lv_pending v, ex_response = m, ex_results = results\<rparr>"
  have messages: "lv_newMessages v3 @ result_messages results = lv_newMessages v @ exchange_messages (?ex results)" for results
    by (simp add: v3 exchange_messages_def)
  have transcript: "\<not> failed_exchange (?ex results) \<longrightarrow> run_transcript env prompts (lv_newMessages v3 @ result_messages results)"
    "ended_transcript env prompts (lv_newMessages v3 @ result_messages results)" if "exchange_ok env (?ex results)" for results
    unfolding messages using run_transcript_snoc [OF old(1) that] by simp_all
  consider (failed) "am_stopReason m = ErrorStop \<or> am_stopReason m = AbortedStop"
    | (calls) "am_stopReason m \<noteq> ErrorStop" "am_stopReason m \<noteq> AbortedStop" "length (assistant_calls m) > 0"
    | (plain) "am_stopReason m \<noteq> ErrorStop" "am_stopReason m \<noteq> AbortedStop" "assistant_calls m = []" by auto
  then show ?thesis
  proof cases
    case failed
    with rest have "r = RunEnded (lv_newMessages v3)"
      "s' = emit env (AgentEnd (lv_newMessages v3)) (emit env (TurnEnd m []) s3)" by auto
    with failed transcript(2) [of "[]"] advances_trans [OF advances_trans [OF moved advances_emit [of "InTurn {#}" "TurnEnd m []" BetweenTurns env s3]]
        advances_emit [of BetweenTurns "AgentEnd (lv_newMessages v3)" RunOver env _]]
    show ?thesis by (auto simp: exchange_ok_def)
  next
    case calls
    obtain batch s4 where batch: "run_tool_calls env m v3 s3 = (batch, s4)" by fastforce
    from calls rest batch have finish:
      "finish_turn env m (tb_messages batch) (\<not> tb_terminate batch) (add_results (tb_messages batch) v3) s4 = (Inr r, s')" by simp
    have ok: "exchange_ok env (?ex (tb_messages batch))"
      using batch_spec(1,2) [OF batch] calls by (simp add: exchange_ok_def)
    have new: "lv_newMessages (add_results (tb_messages batch) v3) = lv_newMessages v3 @ result_messages (tb_messages batch)"
      "lv_config (add_results (tb_messages batch) v3) = lv_config v" "\<not> lv_firstTurn (add_results (tb_messages batch) v3)"
      "ctx_messages (lv_context (add_results (tb_messages batch) v3)) = ctx_messages (lv_context v3) @ result_messages (tb_messages batch)"
      by (simp_all add: add_results_def result_messages_def v3)
    show ?thesis
      by (rule finish_turn_inv [OF finish]) (use advances_trans [OF moved advances_moves [OF batch_spec(3) [OF batch]]] transcript(1) [OF ok] old(2) calls in \<open>simp_all add: new v3 failed_exchange_def\<close>)
  next
    case plain
    with rest have finish: "finish_turn env m [] False v3 s3 = (Inr r, s')" by simp
    have ok: "exchange_ok env (?ex [])" using plain by (simp add: exchange_ok_def answers_def)
    show ?thesis
      by (rule finish_turn_inv [OF finish]) (use moved transcript(1) [OF ok] old(2) plain in \<open>simp_all add: v3 failed_exchange_def\<close>)
  qed
qed

lemma loop_step_inv:
  assumes "loop_step env again v s = (Inr r, s')" and "loop_inv env prompts ctx s0 again v s"
  shows "case r of
      RunEnded ms \<Rightarrow> ended_transcript env prompts ms \<and> advances env NotStarted RunOver ms s0 s'
    | TurnDone again' v' \<Rightarrow> loop_inv env prompts ctx s0 again' v' s'"
proof (cases "again \<or> length (lv_pending v) > 0")
  case True
  with assms(1) have "loop_turn env v s = (Inr r, s')" by (simp add: loop_step_def)
  from loop_turn_inv [OF this assms(2)] show ?thesis .
next
  case False
  with assms(1) have "then_result (poll (lc_getFollowUpMessages (lv_config v)) s) (\<lambda>followUps s.
        if length followUps > 0 then (Inr (TurnDone True (v\<lparr>lv_pending := followUps\<rparr>)), s)
        else (Inr (RunEnded (lv_newMessages v)), emit env (AgentEnd (lv_newMessages v)) s)) = (Inr r, s')"
    by (simp add: loop_step_def)
  then obtain followUps s1 where polled: "poll (lc_getFollowUpMessages (lv_config v)) s = (Inr followUps, s1)" and rest:
    "(if length followUps > 0 then (Inr (TurnDone True (v\<lparr>lv_pending := followUps\<rparr>)), s1)
        else (Inr (RunEnded (lv_newMessages v)), emit env (AgentEnd (lv_newMessages v)) s1)) = (Inr r :: jstr + _, s')"
    by (rule then_resultE)
  from assms(2) False have inv: "\<not> lv_firstTurn v" "run_transcript env prompts (lv_newMessages v)"
    "advances env NotStarted BetweenTurns (lv_newMessages v) s0 s1"
    "one_start env \<longrightarrow> keeps_context (lv_config v) \<longrightarrow> ctx_messages (lv_context v) = ctx_messages ctx @ lv_newMessages v"
    by (auto simp: loop_inv_def turn_phase_def intro: advances_quiet_right [OF _ poll_quiet [OF polled]])
  show ?thesis
  proof (cases "length followUps > 0")
    case True
    with rest have "r = TurnDone True (v\<lparr>lv_pending := followUps\<rparr>)" "s' = s1" by simp_all
    with inv show ?thesis by (simp add: loop_inv_def turn_phase_def)
  next
    case False
    with rest have "r = RunEnded (lv_newMessages v)" "s' = emit env (AgentEnd (lv_newMessages v)) s1" by simp_all
    with inv run_transcript_ended [OF inv(2)] advances_trans [OF inv(3) advances_emit [of BetweenTurns "AgentEnd (lv_newMessages v)" RunOver env s1]] show ?thesis by simp
  qed
qed

lemma begin_run_moves: "moves NotStarted (InTurn {#}) prompts s (begin_run env prompts s)"
proof -
  have prompts: "moves (InTurn {#}) (InTurn {#}) prompts s (fold (emit_message env) prompts s)" for s
  proof (induction prompts arbitrary: s)
    case Nil
    show ?case by (simp add: moves_quiet)
  next
    case (Cons m prompts)
    from moves_trans [OF moves_message [of "{#}" m s env] Cons.IH] show ?case by simp
  qed
  from moves_trans [OF moves_trans [OF moves_emit [of NotStarted AgentStart BetweenTurns s env]
      moves_emit [of BetweenTurns TurnStart "InTurn {#}" _ env]] prompts]
  show ?thesis by (simp add: begin_run_def)
qed

lemma run_reaches_inv:
  "run_reaches env prompts ctx config s0 again v s \<Longrightarrow> loop_inv env prompts ctx s0 again v s"
proof (induction rule: run_reaches.induct)
  case (reach_start pending s)
  from advances_quiet_right [OF advances_moves [OF begin_run_moves] poll_quiet [OF reach_start(1)]] show ?case
    by (simp add: loop_inv_def initial_vars_def turn_phase_def run_transcript_start)
next
  case (reach_step again v s again' v' s')
  from loop_step_inv [OF reach_step(2) reach_step.IH] show ?case by simp
qed

lemma run_result:
  assumes "runAgentLoop env prompts ctx config s0 = Some (Inr ms, s')"
  shows "\<exists>again v s. run_reaches env prompts ctx config s0 again v s \<and> loop_step env again v s = (Inr (RunEnded ms), s')"
proof -
  from assms obtain pending s where polled: "poll (lc_getSteeringMessages config) (begin_run env prompts s0) = (Inr pending, s)"
    and "loop_from env True (initial_vars (ctx\<lparr>ctx_messages := ctx_messages ctx @ prompts\<rparr>) prompts config pending) s = Some (Inr ms, s')"
    by (auto simp: runAgentLoop_def runLoop_def split: prod.splits sum.splits)
  from loop_from_result [OF this(2) reach_start [OF polled]] show ?thesis .
qed

lemma run_result_inv:
  assumes "runAgentLoop env prompts ctx config s0 = Some (Inr ms, s')"
  shows "ended_transcript env prompts ms \<and> advances env NotStarted RunOver ms s0 s'"
proof -
  from run_result [OF assms] obtain again v s where
    reached: "run_reaches env prompts ctx config s0 again v s" and step: "loop_step env again v s = (Inr (RunEnded ms), s')" by blast
  from loop_step_inv [OF step run_reaches_inv [OF reached]] show ?thesis by simp
qed

text \<open>Continuing is a run without prompts.\<close>

lemma continue_is_run:
  "cannot_continue (ctx_messages ctx) = None \<Longrightarrow> runAgentLoopContinue env ctx config s = runAgentLoop env [] ctx config s"
  by (simp add: runAgentLoopContinue_def runAgentLoop_def)

section \<open>Requests\<close>

text \<open>What \<open>transformContext\<close> and \<open>convertToLlm\<close> make of a transcript.\<close>

definition request_messages :: "'w loop_config \<Rightarrow> agent_message list \<Rightarrow> 'w run_state \<Rightarrow> (jstr + message list) \<times> 'w run_state" where
  "request_messages config ms s = then_result (case lc_transformContext config of
       None \<Rightarrow> (Inr ms, s)
     | Some transform \<Rightarrow> run_hook (transform ms) s) (\<lambda>ms s. run_hook (lc_convertToLlm config ms) s)"

lemma built_from_messages:
  "buildProviderContext ctx config s = then_result (request_messages config (ctx_messages ctx) s) (\<lambda>ms s.
     (Inr \<lparr>llm_systemPrompt = ctx_systemPrompt ctx, llm_messages = ms, llm_tools = ctx_tools ctx\<rparr>, s))"
  by (auto simp: buildProviderContext_def request_messages_def then_result_def split: option.split prod.split sum.split)

lemma inject_messages_context:
  "fold (inject_message env) ms (v, s) = (v', s') \<Longrightarrow> lv_config v' = lv_config v \<and>
    ctx_systemPrompt (lv_context v') = ctx_systemPrompt (lv_context v) \<and> ctx_tools (lv_context v') = ctx_tools (lv_context v)
    \<and> ctx_messages (lv_context v') = ctx_messages (lv_context v) @ ms \<and> journal (rs_events s') = journal (rs_events s) @ ms"
  by (induction ms arbitrary: v s) (auto simp: inject_message_def push_message_def emit_message_def emit_def)

lemma begin_turn_spec:
  assumes "begin_turn env v s = (v1, s1)"
  shows "lv_config v1 = lv_config v \<and> ctx_systemPrompt (lv_context v1) = ctx_systemPrompt (lv_context v)
    \<and> ctx_tools (lv_context v1) = ctx_tools (lv_context v) \<and> ctx_messages (lv_context v1) = ctx_messages (lv_context v) @ lv_pending v
    \<and> journal (rs_events s1) = journal (rs_events s) @ lv_pending v"
proof -
  let ?s = "if lv_firstTurn v then s else emit env TurnStart s"
  obtain v2 s2 where "fold (inject_message env) (lv_pending v) (v\<lparr>lv_firstTurn := False\<rparr>, ?s) = (v2, s2)" by fastforce
  with assms inject_messages_context [OF this] show ?thesis
    by (auto simp: begin_turn_def inject_pending_def emit_def split: if_splits)
qed

section \<open>An example\<close>

text \<open>A model that calls a tool once and then answers; the tool is unknown.\<close>

definition no_usage :: usage where
  "no_usage = \<lparr>u_input = 0, u_output = 0, u_cacheRead = 0, u_cacheWrite = 0, u_cacheWrite1h = None, u_reasoning = None,
     u_totalTokens = 0, u_cost = \<lparr>cost_input = 0, cost_output = 0, cost_cacheRead = 0, cost_cacheWrite = 0, cost_total = 0\<rparr>\<rparr>"

definition example_response :: "content_block list \<Rightarrow> stop_reason \<Rightarrow> assistant_message" where
  "example_response content reason = \<lparr>am_content = content, am_api = [], am_provider = [], am_model = [],
     am_responseModel = None, am_responseId = None, am_diagnostics = None, am_usage = no_usage,
     am_stopReason = reason, am_deferred = None, am_errorMessage = None, am_rawStopReason = None, am_endTurn = None,
     am_timestamp = 0\<rparr>"

definition example_call :: tool_call where
  "example_call = \<lparr>call_id = jlit ''c1'', call_name = jlit ''look'', call_arguments = [], call_thoughtSignature = None, call_namespace = None\<rparr>"

definition example_env :: "nat loop_env" where
  "example_env = \<lparr>le_stream = (\<lambda>_ _ _ _ w. (Inr ([],
       if w = 0 then example_response [ToolCall example_call] ToolUseStop else example_response [] StopStop), Suc w)),
     le_aborted = (\<lambda>_. False), le_emit = (\<lambda>_ w. w), le_clock = (\<lambda>w. int w), le_validate = (\<lambda>_ _. Inl []),
     le_schedule = (\<lambda>_ _. 0)\<rparr>"

definition example_model :: llm_model where
  "example_model = \<lparr>lm_id = [], lm_name = [], lm_api = [], lm_provider = [], lm_reasoning = False, lm_contextWindow = 0, lm_maxTokens = 0\<rparr>"

definition example_config :: "nat loop_config" where
  "example_config = \<lparr>lc_model = example_model, lc_reasoning = None, lc_apiKey = None, lc_toolExecution = None,
     lc_convertToLlm = (\<lambda>ms w. (Inr [], w)), lc_transformContext = None, lc_getApiKey = None, lc_shouldStopAfterTurn = None,
     lc_prepareNextTurn = None, lc_getSteeringMessages = None, lc_getFollowUpMessages = None, lc_beforeToolCall = None,
     lc_afterToolCall = None\<rparr>"

definition example_context :: "nat agent_context" where
  "example_context = \<lparr>ctx_systemPrompt = [], ctx_messages = [], ctx_tools = None\<rparr>"

definition fresh_run :: "nat run_state" where
  "fresh_run = \<lparr>rs_events = [], rs_world = 0\<rparr>"

lemma example_one_start: "one_start example_env"
  by (simp add: one_start_def example_env_def)

lemmas run_eval = emit_def emit_message_def run_hook_def aborted_def poll_def then_result_def Let_def
  streamAssistantResponse_def buildProviderContext_def push_message_def after_response_def finish_turn_def
  run_tool_calls_def executeToolCalls_def executeToolCallsParallel_def find_tool_def prepareToolCall_def
  emitToolExecutionEnd_def publish_result_def createToolResultMessage_def add_results_def
  assistant_calls_def turn_context_of_def shouldTerminateToolBatch_def createErrorToolResult_def

lemmas example_defs = example_env_def example_config_def example_context_def fresh_run_def example_response_def example_call_def

lemma example_result: "\<exists>ms s'. runAgentLoop example_env [OtherMessage JNull] example_context example_config fresh_run = Some (Inr ms, s')
    \<and> length ms = 4"
  by (simp add: runAgentLoop_def runLoop_def initial_vars_def begin_run_def loop_from.simps loop_step_def loop_turn_def begin_turn_def inject_pending_def
      run_threads.simps unfinished_def finalized_calls_def map_filter_simps example_defs run_eval execution_start_def)

section \<open>Properties\<close>

text \<open>C9 (invariant). For a model whose streams start a message at most once (\<open>one_start\<close>; the stream's other events, their order and its end
  are free), whatever the tools, the hooks and the scheduling of concurrent calls do, the events of a run follow the protocol: turns are bracketed, messages are bracketed inside turns, updates belong to the
  open message or to a call that is being executed, and no call is open when a turn ends. This holds at every
  point of a run that goes on, and a run that returns has emitted \<open>agent_end\<close> last.\<close>

theorem agent_events_follow_protocol:
  assumes "one_start env" and "rs_events s0 = []"
  shows "(\<forall>again v s. run_reaches env prompts ctx config s0 again v s \<longrightarrow>
      phase_run NotStarted (rs_events s) = Some (if lv_firstTurn v then InTurn {#} else BetweenTurns))
    \<and> (\<forall>ms s'. runAgentLoop env prompts ctx config s0 = Some (Inr ms, s') \<longrightarrow> phase_run NotStarted (rs_events s') = Some RunOver)"
proof (intro conjI allI impI)
  fix again v s
  assume "run_reaches env prompts ctx config s0 again v s"
  from run_reaches_inv [OF this] assms
  show "phase_run NotStarted (rs_events s) = Some (if lv_firstTurn v then InTurn {#} else BetweenTurns)"
    by (auto simp: loop_inv_def advances_def moves_def turn_phase_def)
next
  fix ms s'
  assume "runAgentLoop env prompts ctx config s0 = Some (Inr ms, s')"
  from run_result_inv [OF this] assms show "phase_run NotStarted (rs_events s') = Some RunOver"
    by (auto simp: advances_def moves_def)
qed

lemma agent_events_follow_protocol_witness:
  "\<exists>ms s'. runAgentLoop example_env [OtherMessage JNull] example_context example_config fresh_run = Some (Inr ms, s')
    \<and> phase_run NotStarted (rs_events s') = Some RunOver"
proof -
  have "rs_events fresh_run = []" by (simp add: fresh_run_def)
  from agent_events_follow_protocol [OF example_one_start this] example_result show ?thesis by blast
qed

text \<open>C33 (equivalence). What a listener stores, what the caller gets and what the model is asked about do not differ. The messages that a run
  completes in its events are, in order, exactly the messages it collects and returns, prompts first, whatever the model's
  streams look like. And when a turn asks the model, its request is what \<open>transformContext\<close> and \<open>convertToLlm\<close> make of the
  initial transcript followed by exactly the messages completed so far, the queued ones of this turn included, with the
  system prompt and the tools of the context; this holds as long as \<open>prepareNextTurn\<close> does not replace the context and
  the model's streams start a message at most once.\<close>

theorem agent_transcript_is_its_journal:
  assumes "rs_events s0 = []"
  shows "(\<forall>again v s. run_reaches env prompts ctx config s0 again v s \<longrightarrow> journal (rs_events s) = lv_newMessages v)
    \<and> (\<forall>ms s'. runAgentLoop env prompts ctx config s0 = Some (Inr ms, s') \<longrightarrow> journal (rs_events s') = ms)
    \<and> (\<forall>again v s v1 s1. one_start env \<and> run_reaches env prompts ctx config s0 again v s \<and> keeps_context (lv_config v)
        \<and> begin_turn env v s = (v1, s1) \<longrightarrow>
        buildProviderContext (lv_context v1) (lv_config v1) s1
          = then_result (request_messages (lv_config v) (ctx_messages ctx @ journal (rs_events s1)) s1) (\<lambda>ms s2.
            (Inr \<lparr>llm_systemPrompt = ctx_systemPrompt (lv_context v), llm_messages = ms, llm_tools = ctx_tools (lv_context v)\<rparr>, s2)))"
proof (intro conjI allI impI)
  fix again v s
  assume "run_reaches env prompts ctx config s0 again v s"
  from run_reaches_inv [OF this] assms show "journal (rs_events s) = lv_newMessages v"
    by (auto simp: loop_inv_def advances_def completes_def)
next
  fix ms s'
  assume "runAgentLoop env prompts ctx config s0 = Some (Inr ms, s')"
  from run_result_inv [OF this] assms show "journal (rs_events s') = ms" by (auto simp: advances_def completes_def)
next
  fix again v s v1 s1
  assume a: "one_start env \<and> run_reaches env prompts ctx config s0 again v s \<and> keeps_context (lv_config v) \<and> begin_turn env v s = (v1, s1)"
  then have "journal (rs_events s) = lv_newMessages v \<and> ctx_messages (lv_context v) = ctx_messages ctx @ lv_newMessages v"
    using run_reaches_inv [of env prompts ctx config s0 again v s] assms by (auto simp: loop_inv_def advances_def completes_def)
  with begin_turn_spec [of env v s v1 s1] a
  show "buildProviderContext (lv_context v1) (lv_config v1) s1
      = then_result (request_messages (lv_config v) (ctx_messages ctx @ journal (rs_events s1)) s1) (\<lambda>ms s2.
        (Inr \<lparr>llm_systemPrompt = ctx_systemPrompt (lv_context v), llm_messages = ms, llm_tools = ctx_tools (lv_context v)\<rparr>, s2))"
    by (simp add: built_from_messages)
qed

lemma agent_transcript_is_its_journal_witness:
  "\<exists>ms s'. runAgentLoop example_env [OtherMessage JNull] example_context example_config fresh_run = Some (Inr ms, s')
    \<and> journal (rs_events s') = ms"
proof -
  have "rs_events fresh_run = []" by (simp add: fresh_run_def)
  from agent_transcript_is_its_journal [OF this, of example_env] example_result show ?thesis by blast
qed

text \<open>C8 (safety). The messages of a run are the prompts followed by exchanges: queued messages, one response, and the results of
  its tool calls, one per call in the order of the calls, whether the calls ran one after the other or concurrently.
  Only when the signal is aborted may calls at the end of a batch stay unanswered, never the first. The calls of a
  truncated response are all answered by errors. A failed or aborted response has no results and ends the run: no response has
  failed at a point where the run goes on, and in the messages of a run that returned only the last one may have. This holds
  for every model, whatever events its streams consist of.\<close>

theorem every_tool_call_is_answered:
  "(\<forall>again v s. run_reaches env prompts ctx config s0 again v s \<longrightarrow> run_transcript env prompts (lv_newMessages v))
    \<and> (\<forall>ms s'. runAgentLoop env prompts ctx config s0 = Some (Inr ms, s') \<longrightarrow> ended_transcript env prompts ms)"
  using run_reaches_inv run_result_inv unfolding loop_inv_def by blast

lemma every_tool_call_is_answered_witness:
  "\<exists>ms s'. runAgentLoop example_env [OtherMessage JNull] example_context example_config fresh_run = Some (Inr ms, s')
    \<and> length ms = 4 \<and> ended_transcript example_env [OtherMessage JNull] ms"
  using every_tool_call_is_answered example_result by blast

end
