(* ===== verification/Agent_World.thy ===== *)
theory Agent_World
  imports Agent_Run_Facts
begin

text \<open>
  A predicate on the state of a run that the event sink, the stream function, the hooks and the tools keep is kept
  by the whole loop: the interface between the agent loop and a client that is the world of its own run.
\<close>

section \<open>What the loop calls\<close>

definition hook_keeps :: "('w run_state \<Rightarrow> bool) \<Rightarrow> ('a, 'w) hook \<Rightarrow> bool" where
  "hook_keeps I h \<longleftrightarrow> (\<forall>s. I s \<longrightarrow> I (snd (run_hook h s)))"

definition option_keeps :: "('w run_state \<Rightarrow> bool) \<Rightarrow> ('c \<Rightarrow> ('a, 'w) hook) option \<Rightarrow> bool" where
  "option_keeps I h \<longleftrightarrow> (case h of None \<Rightarrow> True | Some f \<Rightarrow> (\<forall>c. hook_keeps I (f c)))"

definition tools_keep :: "('w run_state \<Rightarrow> bool) \<Rightarrow> 'w agent_context \<Rightarrow> bool" where
  "tools_keep I ctx \<longleftrightarrow> (\<forall>ts t i args s. ctx_tools ctx = Some ts \<longrightarrow> t \<in> set ts \<longrightarrow> I s \<longrightarrow>
     I (s\<lparr>rs_world := snd (snd (tool_execute t i args (rs_world s)))\<rparr>))"

definition config_keeps :: "('w run_state \<Rightarrow> bool) \<Rightarrow> 'w loop_config \<Rightarrow> bool" where
  "config_keeps I config \<longleftrightarrow> (\<forall>ms. hook_keeps I (lc_convertToLlm config ms))
     \<and> option_keeps I (lc_transformContext config) \<and> option_keeps I (lc_getApiKey config)
     \<and> option_keeps I (lc_shouldStopAfterTurn config) \<and> option_keeps I (lc_prepareNextTurn config)
     \<and> option_keeps I (map_option (\<lambda>h (_ :: unit). h) (lc_getSteeringMessages config))
     \<and> option_keeps I (map_option (\<lambda>h (_ :: unit). h) (lc_getFollowUpMessages config))
     \<and> option_keeps I (lc_beforeToolCall config) \<and> option_keeps I (lc_afterToolCall config)
     \<and> (\<forall>prepare tc w u w' ctx. lc_prepareNextTurn config = Some prepare \<longrightarrow> prepare tc w = (Inr (Some u), w') \<longrightarrow>
          tu_context u = Some ctx \<longrightarrow> tools_keep I ctx)"

definition thread_keeps :: "('w run_state \<Rightarrow> bool) \<Rightarrow> 'w tool_thread \<Rightarrow> bool" where
  "thread_keeps I t = (case t of
      Waiting p \<Rightarrow> (\<forall>i args s. I s \<longrightarrow> I (s\<lparr>rs_world := snd (snd (tool_execute (pc_tool p) i args (rs_world s)))\<rparr>))
    | _ \<Rightarrow> True)"

lemma hook_keepsD: "hook_keeps I h \<Longrightarrow> I s \<Longrightarrow> run_hook h s = (r, s') \<Longrightarrow> I s'"
  unfolding hook_keeps_def by (metis snd_conv)

lemma option_keepsD:
  assumes "option_keeps I h" and "h = Some f" and "I s" and "run_hook (f c) s = (r, s')"
  shows "I s'"
proof -
  have "hook_keeps I (f c)" using assms(1,2) by (simp add: option_keeps_def)
  with assms(3,4) show ?thesis by (blast intro: hook_keepsD)
qed

lemma find_tool_keeps:
  "tools_keep I ctx \<Longrightarrow> find_tool ctx name = Some t \<Longrightarrow> I s \<Longrightarrow> I (s\<lparr>rs_world := snd (snd (tool_execute t i args (rs_world s)))\<rparr>)"
  by (auto simp: find_tool_def tools_keep_def find_Some_iff split: option.splits)

lemma poll_keeps:
  "option_keeps I (map_option (\<lambda>h (_ :: unit). h) hook) \<Longrightarrow> I s \<Longrightarrow> poll hook s = (r, s') \<Longrightarrow> I s'"
  by (auto simp: poll_def dest: option_keepsD split: option.splits)

lemma tools_keep_cong: "ctx_tools ctx' = ctx_tools ctx \<Longrightarrow> tools_keep I ctx' = tools_keep I ctx"
  by (simp add: tools_keep_def)

lemma config_keeps_update: "config_keeps I config \<Longrightarrow> config_keeps I (config\<lparr>lc_model := m, lc_reasoning := r\<rparr>)"
  by (simp add: config_keeps_def)

definition vars_keep :: "('w run_state \<Rightarrow> bool) \<Rightarrow> 'w loop_vars \<Rightarrow> bool" where
  "vars_keep I v \<longleftrightarrow> config_keeps I (lv_config v) \<and> tools_keep I (lv_context v)"

definition turn_keeps :: "('w run_state \<Rightarrow> bool) \<Rightarrow> jstr + 'w turn_result \<Rightarrow> 'w run_state \<Rightarrow> bool" where
  "turn_keeps I r s \<longleftrightarrow> I s \<and> (\<forall>again v. r = Inr (TurnDone again v) \<longrightarrow> vars_keep I v)"

lemma then_result_cases:
  assumes "then_result m f = (r, s')"
  obtains (throws) err where "m = (Inl err, s')" and "r = Inl err"
    | (returns) a s where "m = (Inr a, s)" and "f a s = (r, s')"
  using assms by (auto simp: then_result_def split: prod.splits sum.splits)

lemma optional_hook_keeps:
  assumes "(case h of None \<Rightarrow> (Inr a, s) | Some f \<Rightarrow> run_hook (f c) s) = (r, s')" and "option_keeps I h" and "I s"
  shows "I s'"
  using assms(1,3) option_keepsD [OF assms(2)] by (cases h) auto

lemma vars_keep_add_results: "vars_keep I v \<Longrightarrow> vars_keep I (add_results rs v)"
  by (simp add: vars_keep_def add_results_def tools_keep_def)

section \<open>The interface\<close>

locale loop_world =
  fixes env :: "'w loop_env" and I :: "'w run_state \<Rightarrow> bool"
  assumes emit_keeps: "I s \<Longrightarrow> I (emit env ev s)"
    and stream_keeps: "hook_keeps I (le_stream env model llm key reasoning)"
begin

lemma emit_message_keeps: "I s \<Longrightarrow> I (emit_message env m s)"
  by (simp add: emit_message_def emit_keeps)

lemma emits_keep: "I s \<Longrightarrow> I (fold (\<lambda>x. emit env (f x)) xs s)"
  by (induction xs arbitrary: s) (simp_all add: emit_keeps)

lemma prepare_keeps:
  assumes "prepareToolCall env ctx m c config s = (p, s')" and "I s" and "config_keeps I config"
  shows "I s'"
  using assms(1,2) assms(3) [unfolded config_keeps_def]
  by (auto simp: prepareToolCall_def admit_call_def dest: option_keepsD split: option.splits sum.splits prod.splits if_splits)

lemma prepared_tool:
  "prepareToolCall env ctx m c config s = (Prepared p, s') \<Longrightarrow> \<exists>name. find_tool ctx name = Some (pc_tool p)"
  by (auto simp: prepareToolCall_def admit_call_def operation_aborted_def split: option.splits sum.splits prod.splits if_splits)

lemma finalize_keeps:
  assumes "finalizeExecutedToolCall ctx m p executed config s = (f, s')" and "I s" and "config_keeps I config"
  shows "I s'"
  using assms(1,2) assms(3) [unfolded config_keeps_def]
  by (auto simp: finalizeExecutedToolCall_def dest: option_keepsD split: option.splits sum.splits prod.splits)

lemma publish_keeps: "publish_result env f s = (r, s') \<Longrightarrow> I s \<Longrightarrow> I s'"
  by (auto simp: publish_result_def Let_def emit_message_keeps)

lemma end_keeps: "I s \<Longrightarrow> I (emitToolExecutionEnd env f s)"
  by (simp add: emitToolExecutionEnd_def emit_keeps)

lemma run_call_keeps:
  assumes "run_call env ctx m config c s = (f, s')" and "I s" and "config_keeps I config" and "tools_keep I ctx"
  shows "I s'"
proof (cases "prepareToolCall env ctx m c config s")
  case (Pair preparation s1)
  note prepared = Pair
  from prepare_keeps [OF Pair assms(2,3)] have s1: "I s1" .
  show ?thesis
  proof (cases preparation)
    case (Immediate result isError)
    with Pair assms(1) s1 show ?thesis by (simp add: run_call_def)
  next
    case (Prepared p)
    from prepared_tool [OF prepared [unfolded Prepared]] obtain name where tool: "find_tool ctx name = Some (pc_tool p)" by blast
    obtain updates outcome w where exec: "tool_execute (pc_tool p) (call_id (pc_toolCall p)) (pc_args p) (rs_world s1) = (updates, outcome, w)"
      by (metis surj_pair)
    from find_tool_keeps [OF assms(4) tool s1, of "call_id (pc_toolCall p)" "pc_args p"] exec have "I (s1\<lparr>rs_world := w\<rparr>)" by simp
    then have "I (fold (\<lambda>u. emit env (execution_update (pc_toolCall p) u)) updates (s1\<lparr>rs_world := w\<rparr>))" by (rule emits_keep)
    with assms(1,3) show ?thesis
      by (auto simp: run_call_def executePreparedToolCall_def prepared Prepared exec intro: finalize_keeps)
  qed
qed

lemma sequential_keeps:
  "run_sequential env ctx m config cs fs ms s = (r, s') \<Longrightarrow> I s \<Longrightarrow> config_keeps I config \<Longrightarrow> tools_keep I ctx \<Longrightarrow> I s'"
proof (induction cs arbitrary: fs ms s)
  case Nil
  then show ?case by simp
next
  case (Cons c cs)
  obtain f s1 where f: "run_call env ctx m config c (emit env (execution_start c) s) = (f, s1)" by fastforce
  obtain r' s2 where r': "publish_result env f (emitToolExecutionEnd env f s1) = (r', s2)" by fastforce
  have "I s2"
    by (rule publish_keeps [OF r' end_keeps [OF run_call_keeps [OF f emit_keeps [OF Cons.prems(2)] Cons.prems(3,4)]]])
  have step: "run_sequential env ctx m config (c # cs) fs ms s
      = (if aborted env s2 then ((fs @ [f], ms @ [r']), s2) else run_sequential env ctx m config cs (fs @ [f]) (ms @ [r']) s2)"
    using f r' by simp
  show ?case
  proof (cases "aborted env s2")
    case True
    with Cons.prems(1) have "s' = s2" unfolding step by simp
    with \<open>I s2\<close> show ?thesis by simp
  next
    case False
    with Cons.prems(1) have "run_sequential env ctx m config cs (fs @ [f]) (ms @ [r']) s2 = (r, s')" unfolding step by simp
    from Cons.IH [OF this \<open>I s2\<close> Cons.prems(3,4)] show ?thesis .
  qed
qed

lemma fail_keeps: "fail_calls env cs ms s = (r, s') \<Longrightarrow> I s \<Longrightarrow> I s'"
proof (induction cs arbitrary: ms s)
  case Nil
  then show ?case by simp
next
  case (Cons c cs)
  let ?f = "\<lparr>fc_toolCall = c, fc_result = truncated_call_result c, fc_isError = True\<rparr>"
  obtain r' s1 where r': "publish_result env ?f (emitToolExecutionEnd env ?f (emit env (execution_start c) s)) = (r', s1)" by fastforce
  have "I s1" by (rule publish_keeps [OF r' end_keeps [OF emit_keeps [OF Cons.prems(2)]]])
  from Cons.prems(1) r' have "fail_calls env cs (ms @ [r']) s1 = (r, s')" by (simp add: Let_def)
  from Cons.IH [OF this \<open>I s1\<close>] show ?case .
qed

lemma start_keeps:
  "start_threads env ctx m config cs ts s = (ts', s') \<Longrightarrow> I s \<Longrightarrow> config_keeps I config \<Longrightarrow> tools_keep I ctx \<Longrightarrow>
    \<forall>t \<in> set ts. thread_keeps I t \<Longrightarrow> I s' \<and> (\<forall>t \<in> set ts'. thread_keeps I t)"
proof (induction cs arbitrary: ts s)
  case Nil
  then show ?case by simp
next
  case (Cons c cs)
  obtain preparation s1 where prepared: "prepareToolCall env ctx m c config (emit env (execution_start c) s) = (preparation, s1)"
    by fastforce
  from prepare_keeps [OF prepared emit_keeps [OF Cons.prems(2)] Cons.prems(3)] have s1: "I s1" .
  have "\<exists>t s2. thread_keeps I t \<and> I s2 \<and> start_threads env ctx m config (c # cs) ts s
      = (if aborted env s2 then (ts @ [t], s2) else start_threads env ctx m config cs (ts @ [t]) s2)"
  proof (cases preparation)
    case (Immediate result isError)
    let ?f = "\<lparr>fc_toolCall = c, fc_result = result, fc_isError = isError\<rparr>"
    from prepared Immediate end_keeps [OF s1] show ?thesis
      by (intro exI [of _ "Done ?f"] exI [of _ "emitToolExecutionEnd env ?f s1"]) (simp add: Let_def thread_keeps_def)
  next
    case (Prepared p)
    from prepared_tool [OF prepared [unfolded Prepared]] find_tool_keeps [OF Cons.prems(4)]
    have "thread_keeps I (Waiting p)" by (auto simp: thread_keeps_def)
    with prepared Prepared s1 show ?thesis
      by (intro exI [of _ "Waiting p"] exI [of _ s1]) (simp add: Let_def)
  qed
  then obtain t s2 where t: "thread_keeps I t" "I s2" and step: "start_threads env ctx m config (c # cs) ts s
      = (if aborted env s2 then (ts @ [t], s2) else start_threads env ctx m config cs (ts @ [t]) s2)" by blast
  have ts: "\<forall>t \<in> set (ts @ [t]). thread_keeps I t" using Cons.prems(5) t(1) by simp
  show ?case
  proof (cases "aborted env s2")
    case True
    with Cons.prems(1) have "ts' = ts @ [t]" "s' = s2" unfolding step by simp_all
    with t(2) ts show ?thesis by simp
  next
    case False
    with Cons.prems(1) have "start_threads env ctx m config cs (ts @ [t]) s2 = (ts', s')" unfolding step by simp
    from Cons.IH [OF this t(2) Cons.prems(3,4) ts] show ?thesis .
  qed
qed

lemma thread_step_keeps:
  assumes "thread_step env ctx m config t s = (t', s')" and "I s" and "config_keeps I config" and "thread_keeps I t"
  shows "I s' \<and> thread_keeps I t'"
  using assms
proof (cases "(env, ctx, m, config, t, s)" rule: thread_step.cases)
  case (1 env' ctx m config p s)
  obtain updates outcome w where exec: "tool_execute (pc_tool p) (call_id (pc_toolCall p)) (pc_args p) (rs_world s) = (updates, outcome, w)"
    by (metis surj_pair)
  from 1 assms(2,4) have "I (s\<lparr>rs_world := snd (snd (tool_execute (pc_tool p) (call_id (pc_toolCall p)) (pc_args p) (rs_world s)))\<rparr>)"
    unfolding thread_keeps_def by simp
  with exec 1 assms(1) show ?thesis by (auto simp: thread_keeps_def)
next
  case (3 env' ctx m config p outcome s)
  with assms show ?thesis by (auto simp: thread_keeps_def dest: finalize_keeps split: prod.splits)
qed (auto simp: thread_keeps_def emit_keeps end_keeps)

lemma threads_keep_any:
  "run_threads env' ctx m config ts s = (ts', s') \<Longrightarrow> env' = env \<Longrightarrow> I s \<Longrightarrow> config_keeps I config \<Longrightarrow>
    \<forall>t \<in> set ts. thread_keeps I t \<Longrightarrow> I s'"
proof (induction env' ctx m config ts s rule: run_threads.induct)
  case (1 env' ctx m config ts s)
  let ?left = "unfinished ts"
  let ?i = "?left ! (le_schedule env' (length ?left) (rs_world s) mod length ?left)"
  show ?case
  proof (cases "?left = []")
    case True
    with 1(2,4) show ?thesis by (simp add: run_threads.simps [of env' ctx m config ts s])
  next
    case False
    then have "?i \<in> set ?left" by simp
    from unfinished_nth [OF this] have i: "?i < length ts" by simp
    obtain t s1 where step: "thread_step env' ctx m config (ts ! ?i) s = (t, s1)" by fastforce
    have run: "run_threads env' ctx m config (ts[?i := t]) s1 = (ts', s')"
      using 1(2) False step by (simp add: run_threads.simps [of env' ctx m config ts s] Let_def)
    have "I s1 \<and> thread_keeps I t"
      using thread_step_keeps [OF step [unfolded 1(3)] 1(4,5)] 1(6) i unfolding 1(3) by simp
    moreover from this 1(6) have "\<forall>t \<in> set (ts[?i := t]). thread_keeps I t"
      by (auto dest!: subsetD [OF set_update_subset_insert])
    ultimately show ?thesis using 1(1) [OF refl False refl step [symmetric] run 1(3)] 1(5) by blast
  qed
qed

lemmas threads_keep = threads_keep_any [OF _ refl]

lemma publishes_keep: "publish_results env fs ms s = (r, s') \<Longrightarrow> I s \<Longrightarrow> I s'"
  by (induction fs arbitrary: ms s) (auto simp: Let_def split: prod.splits dest: publish_keeps)

lemma batch_keeps:
  assumes "run_tool_calls env m v s = (batch, s')" and "I s" and "config_keeps I (lv_config v)" and "tools_keep I (lv_context v)"
  shows "I s'"
proof (cases "am_stopReason m = LengthStop")
  case True
  with assms(1,2) show ?thesis
    by (auto simp: run_tool_calls_def failToolCallsFromTruncatedMessage_def split: prod.splits dest: fail_keeps)
next
  case False
  with assms(1) have "executeToolCallsSequential env (lv_context v) m (assistant_calls m) (lv_config v) s = (batch, s')
    \<or> executeToolCallsParallel env (lv_context v) m (assistant_calls m) (lv_config v) s = (batch, s')"
    by (auto simp: run_tool_calls_def executeToolCalls_def Let_def split: if_splits)
  then show ?thesis
  proof
    assume "executeToolCallsSequential env (lv_context v) m (assistant_calls m) (lv_config v) s = (batch, s')"
    then obtain r where "run_sequential env (lv_context v) m (lv_config v) (assistant_calls m) [] [] s = (r, s')"
      by (auto simp: executeToolCallsSequential_def split: prod.splits)
    from sequential_keeps [OF this assms(2,3,4)] show ?thesis .
  next
    assume parallel: "executeToolCallsParallel env (lv_context v) m (assistant_calls m) (lv_config v) s = (batch, s')"
    obtain ts s1 where start: "start_threads env (lv_context v) m (lv_config v) (assistant_calls m) [] s = (ts, s1)" by fastforce
    obtain ts' s2 where run: "run_threads env (lv_context v) m (lv_config v) ts s1 = (ts', s2)" by fastforce
    obtain ms where publish: "publish_results env (finalized_calls ts') [] s2 = (ms, s')"
      using parallel start run by (auto simp: executeToolCallsParallel_def Let_def split: prod.splits)
    from start_keeps [OF start assms(2,3,4)] have "I s1" "\<forall>t \<in> set ts. thread_keeps I t" by simp_all
    from publishes_keep [OF publish threads_keep [OF run this(1) assms(3) this(2)]] show ?thesis .
  qed
qed

lemma consume_keeps: "consume_events env evs hasPartial added ctx s = (added', ctx', s') \<Longrightarrow> I s \<Longrightarrow>
    I s' \<and> ctx_tools ctx' = ctx_tools ctx"
proof (induction evs arbitrary: hasPartial added ctx s)
  case Nil
  then show ?case by simp
next
  case (Cons ev evs)
  then show ?case
    by (cases ev) (auto simp: emit_keeps push_message_def replace_last_def split: if_splits)
qed

lemma build_keeps:
  assumes "buildProviderContext ctx config s = (r, s')" and "I s" and "config_keeps I config"
  shows "I s'"
proof -
  have convert: "I s1 \<Longrightarrow> I (snd (run_hook (lc_convertToLlm config ms) s1))" for s1 ms
    using assms(3) by (simp add: config_keeps_def hook_keeps_def)
  have transform: "option_keeps I (lc_transformContext config)" using assms(3) by (simp add: config_keeps_def)
  show ?thesis
    using assms(1,2) convert option_keepsD [OF transform]
    by (auto simp: buildProviderContext_def then_result_def split: option.splits sum.splits prod.splits)
      (metis snd_conv)+
qed

lemma response_keeps:
  assumes "streamAssistantResponse env ctx config s = (r, s')" and "I s" and "config_keeps I config"
  shows "I s' \<and> (\<forall>m ctx'. r = Inr (m, ctx') \<longrightarrow> ctx_tools ctx' = ctx_tools ctx)"
proof -
  have key: "option_keeps I (lc_getApiKey config)" using assms(3) by (simp add: config_keeps_def)
  obtain built s1 where built: "buildProviderContext ctx config s = (built, s1)" by fastforce
  have s1: "I s1" by (rule build_keeps [OF built assms(2,3)])
  show ?thesis
  proof (cases built)
    case (Inl err)
    with assms(1) built s1 show ?thesis by (auto simp: streamAssistantResponse_def)
  next
    case (Inr llm)
    obtain keyed s2 where keyed: "(case lc_getApiKey config of None \<Rightarrow> (Inr None, s1)
        | Some getApiKey \<Rightarrow> run_hook (getApiKey (lm_provider (lc_model config))) s1) = (keyed, s2)" by fastforce
    have s2: "I s2" using keyed s1 option_keepsD [OF key] by (auto split: option.splits)
    show ?thesis
    proof (cases keyed)
      case (Inl err)
      with assms(1) built Inr keyed s2 show ?thesis by (auto simp: streamAssistantResponse_def)
    next
      case keyed_ok: (Inr k)
      obtain streamed s3 where streamed: "run_hook (le_stream env (lc_model config) llm
          (if or_text k [] \<noteq> [] then k else lc_apiKey config) (lc_reasoning config)) s2 = (streamed, s3)" by fastforce
      have s3: "I s3" by (rule hook_keepsD [OF stream_keeps s2 streamed])
      show ?thesis
      proof (cases streamed)
        case (Inl err)
        with assms(1) built Inr keyed keyed_ok streamed s3 show ?thesis by (auto simp: streamAssistantResponse_def Let_def)
      next
        case streamed_ok: (Inr ef)
        obtain evs final where ef: "ef = (evs, final)" by fastforce
        obtain added ctx1 s4 where consumed: "consume_events env evs False False ctx s3 = (added, ctx1, s4)" by (metis surj_pair)
        from consume_keeps [OF consumed s3] show ?thesis
          using assms(1) built Inr keyed keyed_ok streamed streamed_ok ef consumed
          by (auto simp: streamAssistantResponse_def Let_def emit_keeps push_message_def replace_last_def split: if_splits)
      qed
    qed
  qed
qed

lemma finish_turn_keeps:
  assumes "finish_turn env m results again v s = (r, s')" and "I s" and "vars_keep I v"
  shows "turn_keeps I r s'"
proof -
  let ?s = "emit env (TurnEnd m results) s"
  have config: "config_keeps I (lv_config v)" and tools: "tools_keep I (lv_context v)"
    using assms(3) by (simp_all add: vars_keep_def)
  have prepare: "option_keeps I (lc_prepareNextTurn (lv_config v))" using config by (simp add: config_keeps_def)
  from assms(1) [unfolded finish_turn_def Let_def] show ?thesis
  proof (cases rule: then_result_cases)
    case (throws err)
    from optional_hook_keeps [OF throws(1) prepare emit_keeps [OF assms(2)]] throws(2) show ?thesis by (simp add: turn_keeps_def)
  next
    case (returns update s1)
    have s1: "I s1" by (rule optional_hook_keeps [OF returns(1) prepare emit_keeps [OF assms(2)]])
    define v1 where "v1 = (case update of None \<Rightarrow> v | Some u \<Rightarrow> apply_turn_update u v)"
    have v1: "vars_keep I v1"
    proof (cases update)
      case None
      with assms(3) show ?thesis by (simp add: v1_def)
    next
      case (Some u)
      with returns(1) obtain hook w w' where hook: "lc_prepareNextTurn (lv_config v) = Some hook"
        "hook (turn_context_of m results v) w = (Inr (Some u), w')"
        by (auto dest: run_hook_result split: option.splits)
      have "tu_context u = Some ctx \<longrightarrow> tools_keep I ctx" for ctx
        using config hook unfolding config_keeps_def by blast
      with tools config_keeps_update [OF config] Some show ?thesis
        by (auto simp: v1_def vars_keep_def apply_turn_update_def split: option.splits)
    qed
    have stop: "option_keeps I (lc_shouldStopAfterTurn (lv_config v1))"
      and steering: "option_keeps I (map_option (\<lambda>h (_ :: unit). h) (lc_getSteeringMessages (lv_config v1)))"
      using v1 by (simp_all add: vars_keep_def config_keeps_def)
    from returns(2) [folded v1_def] show ?thesis
    proof (cases rule: then_result_cases)
      case (throws err)
      from optional_hook_keeps [OF throws(1) stop s1] throws(2) show ?thesis by (simp add: turn_keeps_def)
    next
      case (returns stops s2)
      have s2: "I s2" by (rule optional_hook_keeps [OF returns(1) stop s1])
      show ?thesis
      proof (cases stops)
        case True
        with returns(2) emit_keeps [OF s2] show ?thesis by (auto simp: turn_keeps_def)
      next
        case False
        with returns(2) have "then_result (poll (lc_getSteeringMessages (lv_config v1)) s2)
          (\<lambda>pending s. (Inr (TurnDone again (v1\<lparr>lv_pending := pending\<rparr>)), s)) = (r, s')" by simp
        then show ?thesis
        proof (cases rule: then_result_cases)
          case (throws err)
          from poll_keeps [OF steering s2 throws(1)] throws(2) show ?thesis by (simp add: turn_keeps_def)
        next
          case (returns pending s3)
          from poll_keeps [OF steering s2 returns(1)] returns(2) v1 show ?thesis by (auto simp: turn_keeps_def vars_keep_def)
        qed
      qed
    qed
  qed
qed

lemma after_response_keeps:
  assumes "after_response env m v s = (r, s')" and "I s" and "vars_keep I v"
  shows "turn_keeps I r s'"
proof -
  consider (failed) "am_stopReason m = ErrorStop \<or> am_stopReason m = AbortedStop"
    | (calls) "am_stopReason m \<noteq> ErrorStop" "am_stopReason m \<noteq> AbortedStop" "length (assistant_calls m) > 0"
    | (plain) "am_stopReason m \<noteq> ErrorStop" "am_stopReason m \<noteq> AbortedStop" "\<not> length (assistant_calls m) > 0" by blast
  then show ?thesis
  proof cases
    case failed
    with assms(1) emit_keeps [OF emit_keeps [OF assms(2)]] show ?thesis
      by (auto simp: after_response_def turn_keeps_def Let_def)
  next
    case calls
    obtain batch s1 where batch: "run_tool_calls env m v s = (batch, s1)" by fastforce
    have s1: "I s1" using batch_keeps [OF batch assms(2)] assms(3) by (simp add: vars_keep_def)
    from calls assms(1) batch have "finish_turn env m (tb_messages batch) (\<not> tb_terminate batch) (add_results (tb_messages batch) v) s1 = (r, s')"
      by (simp add: after_response_def)
    from finish_turn_keeps [OF this s1 vars_keep_add_results [OF assms(3)]] show ?thesis .
  next
    case plain
    with assms(1) have "finish_turn env m [] False v s = (r, s')" by (simp add: after_response_def)
    from finish_turn_keeps [OF this assms(2,3)] show ?thesis .
  qed
qed

lemma inject_keeps:
  "fold (inject_message env) ms (v, s) = (v', s') \<Longrightarrow> I s \<Longrightarrow> vars_keep I v \<Longrightarrow> I s' \<and> vars_keep I v'"
proof (induction ms arbitrary: v s)
  case Nil
  then show ?case by simp
next
  case (Cons m ms)
  let ?v = "v\<lparr>lv_context := push_message m (lv_context v), lv_newMessages := lv_newMessages v @ [m]\<rparr>"
  from Cons.prems(1) have "fold (inject_message env) ms (?v, emit_message env m s) = (v', s')"
    by (simp add: inject_message_def [of env m])
  moreover have "vars_keep I ?v" using Cons.prems(3) by (simp add: vars_keep_def push_message_def tools_keep_def)
  ultimately show ?case using Cons.IH emit_message_keeps [OF Cons.prems(2)] by blast
qed

lemma loop_turn_keeps:
  assumes "loop_turn env v s = (r, s')" and "I s" and "vars_keep I v"
  shows "turn_keeps I r s'"
proof -
  let ?s1 = "if lv_firstTurn v then s else emit env TurnStart s"
  obtain v2 s2 where inj: "fold (inject_message env) (lv_pending v) (v\<lparr>lv_firstTurn := False\<rparr>, ?s1) = (v2, s2)" by fastforce
  let ?v2 = "v2\<lparr>lv_pending := []\<rparr>"
  have "I ?s1" using assms(2) by (simp add: emit_keeps)
  from inject_keeps [OF inj this] assms(3) have s2: "I s2" and v2: "vars_keep I ?v2" by (simp_all add: vars_keep_def)
  have config: "config_keeps I (lv_config ?v2)" using v2 by (simp add: vars_keep_def)
  from assms(1) inj have "then_result (streamAssistantResponse env (lv_context ?v2) (lv_config ?v2) s2) (\<lambda>(m, ctx) s.
      after_response env m (?v2\<lparr>lv_context := ctx, lv_newMessages := lv_newMessages ?v2 @ [assistant m]\<rparr>) s) = (r, s')"
    by (simp add: loop_turn_def begin_turn_def inject_pending_def)
  then show ?thesis
  proof (cases rule: then_result_cases)
    case (throws err)
    from response_keeps [OF throws(1) s2 config] throws(2) show ?thesis by (simp add: turn_keeps_def)
  next
    case (returns mc s3)
    obtain m ctx where mc: "mc = (m, ctx)" by fastforce
    let ?v3 = "?v2\<lparr>lv_context := ctx, lv_newMessages := lv_newMessages ?v2 @ [assistant m]\<rparr>"
    from response_keeps [OF returns(1) s2 config] mc have s3: "I s3" and "ctx_tools ctx = ctx_tools (lv_context v2)" by simp_all
    then have v3: "vars_keep I ?v3" using v2 tools_keep_cong [of ctx "lv_context v2"] by (simp add: vars_keep_def)
    from returns(2) mc have "after_response env m ?v3 s3 = (r, s')" by simp
    from after_response_keeps [OF this s3 v3] show ?thesis .
  qed
qed

lemma loop_step_keeps:
  assumes "loop_step env again v s = (r, s')" and "I s" and "vars_keep I v"
  shows "turn_keeps I r s'"
proof (cases "again \<or> length (lv_pending v) > 0")
  case True
  with assms(1) have "loop_turn env v s = (r, s')" by (simp add: loop_step_def)
  from loop_turn_keeps [OF this assms(2,3)] show ?thesis .
next
  case False
  have followUp: "option_keeps I (map_option (\<lambda>h (_ :: unit). h) (lc_getFollowUpMessages (lv_config v)))"
    using assms(3) by (simp add: vars_keep_def config_keeps_def)
  from False assms(1) have "then_result (poll (lc_getFollowUpMessages (lv_config v)) s) (\<lambda>followUps s.
        if length followUps > 0 then (Inr (TurnDone True (v\<lparr>lv_pending := followUps\<rparr>)), s)
        else (Inr (RunEnded (lv_newMessages v)), emit env (AgentEnd (lv_newMessages v)) s)) = (r, s')"
    by (simp add: loop_step_def)
  then show ?thesis
  proof (cases rule: then_result_cases)
    case (throws err)
    from poll_keeps [OF followUp assms(2) throws(1)] throws(2) show ?thesis by (simp add: turn_keeps_def)
  next
    case (returns followUps s1)
    from poll_keeps [OF followUp assms(2) returns(1)] have "I s1" .
    with returns(2) assms(3) emit_keeps [OF this] show ?thesis
      by (auto simp: turn_keeps_def vars_keep_def split: if_splits)
  qed
qed

lemma begin_run_keeps: "I s \<Longrightarrow> I (begin_run env prompts s)"
proof -
  have "I s \<Longrightarrow> I (fold (emit_message env) prompts s)" for s
    by (induction prompts arbitrary: s) (simp_all add: emit_message_keeps)
  then show "I s \<Longrightarrow> I (begin_run env prompts s)" by (simp add: begin_run_def emit_keeps)
qed

theorem reaches_keeps:
  assumes "run_reaches env prompts ctx config s0 again v s" and "I s0" and "config_keeps I config" and "tools_keep I ctx"
  shows "I s \<and> vars_keep I v"
  using assms(1)
proof (induction rule: run_reaches.induct)
  case (reach_start pending s)
  have steering: "option_keeps I (map_option (\<lambda>h (_ :: unit). h) (lc_getSteeringMessages config))"
    using assms(3) by (simp add: config_keeps_def)
  from poll_keeps [OF steering begin_run_keeps [OF assms(2)] reach_start(1)] assms(3,4) show ?case
    by (simp add: vars_keep_def initial_vars_def tools_keep_def)
next
  case (reach_step again v s again' v' s')
  from loop_step_keeps [OF reach_step(2)] reach_step.IH show ?case by (simp add: turn_keeps_def)
qed

theorem run_keeps:
  assumes "runAgentLoop env prompts ctx config s0 = Some (r, s')" and "I s0" and "config_keeps I config" and "tools_keep I ctx"
  shows "I s'"
proof -
  have steering: "option_keeps I (map_option (\<lambda>h (_ :: unit). h) (lc_getSteeringMessages config))"
    using assms(3) by (simp add: config_keeps_def)
  obtain polled s where polled: "poll (lc_getSteeringMessages config) (begin_run env prompts s0) = (polled, s)" by fastforce
  have s: "I s" by (rule poll_keeps [OF steering begin_run_keeps [OF assms(2)] polled])
  have any: "env' = env \<longrightarrow> I s \<longrightarrow> vars_keep I v \<longrightarrow> I (snd rs)" if "loop_from env' again v s = Some rs" for env' again v s rs
    using that
  proof (induction rule: loop_from.raw_induct [rotated 1, consumes 1])
    case (1 loop_from env' again v s rs)
    obtain r1 s1 where step: "loop_step env' again v s = (r1, s1)" by fastforce
    show ?case
    proof (intro impI)
      assume env: "env' = env" and "I s" "vars_keep I v"
      from loop_step_keeps [OF step [unfolded env] this(2,3)] have kept: "turn_keeps I r1 s1" .
      show "I (snd rs)"
      proof (cases "\<exists>again' v'. r1 = Inr (TurnDone again' v')")
        case True
        then obtain again' v' where r1: "r1 = Inr (TurnDone again' v')" by blast
        with 1(2) step have "loop_from env' again' v' s1 = Some rs" by simp
        from 1(1) [OF this] env kept r1 show ?thesis by (simp add: turn_keeps_def)
      next
        case False
        with 1(2) step kept show ?thesis by (auto simp: turn_keeps_def split: sum.splits turn_result.splits)
      qed
    qed
  qed
  note run = any [OF _, THEN mp, OF _ refl, THEN mp, THEN mp]
  show ?thesis
  proof (cases polled)
    case (Inl err)
    with assms(1) polled s show ?thesis by (simp add: runAgentLoop_def runLoop_def)
  next
    case (Inr pending)
    with assms(1) polled have "loop_from env True (initial_vars (ctx\<lparr>ctx_messages := ctx_messages ctx @ prompts\<rparr>) prompts config pending) s
        = Some (r, s')" by (simp add: runAgentLoop_def runLoop_def)
    from run [OF this s] assms(3,4) show ?thesis by (simp add: vars_keep_def initial_vars_def tools_keep_def)
  qed
qed

end

end
