(* ===== verification/Agent_State.thy ===== *)
theory Agent_State
  imports Agent_Run
begin

text \<open>
  The \<open>Agent\<close> class (\<open>packages/agent/src/agent.ts\<close>): the state that listeners observe, the queues of steering and
  follow-up messages, and the life cycle of a run. The agent is the world of its own loop: the hooks of
  the configuration, the tools and the listeners are functions of it, so they may steer, abort or
  queue while a run is active. What is outside of the agent is \<open>'x\<close>.
\<close>

section \<open>Queues\<close>

datatype queue_mode = DrainAll | OneAtATime

record message_queue =
  mq_messages :: "agent_message list"
  mq_mode :: queue_mode

definition new_queue :: "queue_mode option \<Rightarrow> message_queue" where
  "new_queue mode = \<lparr>mq_messages = [], mq_mode = (case mode of None \<Rightarrow> OneAtATime | Some m \<Rightarrow> m)\<rparr>"

definition enqueue :: "agent_message \<Rightarrow> message_queue \<Rightarrow> message_queue" where
  "enqueue m q = q\<lparr>mq_messages := mq_messages q @ [m]\<rparr>"

definition hasItems :: "message_queue \<Rightarrow> bool" where
  "hasItems q \<longleftrightarrow> length (mq_messages q) > 0"

definition drain :: "message_queue \<Rightarrow> agent_message list \<times> message_queue" where
  "drain q = (if mq_mode q = DrainAll then (mq_messages q, q\<lparr>mq_messages := []\<rparr>)
     else (case mq_messages q of
         [] \<Rightarrow> ([], q)
       | m # ms \<Rightarrow> ([m], q\<lparr>mq_messages := ms\<rparr>)))"

definition clear :: "message_queue \<Rightarrow> message_queue" where
  "clear q = q\<lparr>mq_messages := []\<rparr>"

section \<open>The agent\<close>

record agent_state =
  as_systemPrompt :: jstr
  as_model :: llm_model
  as_thinkingLevel :: jstr
  as_messages :: "agent_message list"
  as_isStreaming :: bool
  as_streamingMessage :: "agent_message option"
  as_pendingToolCalls :: "jstr set"
  as_errorMessage :: "jstr option"

text \<open>
  \<open>ag_activeRun\<close> is the abort signal of the active run. \<open>ag_skipInitialPoll\<close> is the local variable of
  \<open>createLoopConfig\<close> that its steering hook clears.
\<close>

record 'x agent =
  ag_state :: agent_state
  ag_steeringQueue :: message_queue
  ag_followUpQueue :: message_queue
  ag_activeRun :: "bool option"
  ag_skipInitialPoll :: bool
  ag_outside :: 'x

definition DEFAULT_MODEL :: llm_model where
  "DEFAULT_MODEL = \<lparr>lm_id = jlit ''unknown'', lm_name = jlit ''unknown'', lm_api = jlit ''unknown'',
     lm_provider = jlit ''unknown'', lm_reasoning = False, lm_contextWindow = 0, lm_maxTokens = 0\<rparr>"

record initial_state =
  is_systemPrompt :: "jstr option"
  is_model :: "llm_model option"
  is_thinkingLevel :: "jstr option"
  is_messages :: "agent_message list option"

definition createMutableAgentState :: "initial_state \<Rightarrow> agent_state" where
  "createMutableAgentState i = \<lparr>
     as_systemPrompt = (case is_systemPrompt i of None \<Rightarrow> [] | Some p \<Rightarrow> p),
     as_model = (case is_model i of None \<Rightarrow> DEFAULT_MODEL | Some m \<Rightarrow> m),
     as_thinkingLevel = (case is_thinkingLevel i of None \<Rightarrow> jlit ''off'' | Some l \<Rightarrow> l),
     as_messages = (case is_messages i of None \<Rightarrow> [] | Some ms \<Rightarrow> ms),
     as_isStreaming = False, as_streamingMessage = None, as_pendingToolCalls = {}, as_errorMessage = None\<rparr>"

definition new_Agent :: "initial_state \<Rightarrow> queue_mode option \<Rightarrow> queue_mode option \<Rightarrow> 'x \<Rightarrow> 'x agent" where
  "new_Agent i steeringMode followUpMode x = \<lparr>ag_state = createMutableAgentState i,
     ag_steeringQueue = new_queue steeringMode, ag_followUpQueue = new_queue followUpMode,
     ag_activeRun = None, ag_skipInitialPoll = False, ag_outside = x\<rparr>"

definition steer :: "agent_message \<Rightarrow> 'x agent \<Rightarrow> 'x agent" where
  "steer m a = a\<lparr>ag_steeringQueue := enqueue m (ag_steeringQueue a)\<rparr>"

definition followUp :: "agent_message \<Rightarrow> 'x agent \<Rightarrow> 'x agent" where
  "followUp m a = a\<lparr>ag_followUpQueue := enqueue m (ag_followUpQueue a)\<rparr>"

definition clearSteeringQueue :: "'x agent \<Rightarrow> 'x agent" where
  "clearSteeringQueue a = a\<lparr>ag_steeringQueue := clear (ag_steeringQueue a)\<rparr>"

definition clearFollowUpQueue :: "'x agent \<Rightarrow> 'x agent" where
  "clearFollowUpQueue a = a\<lparr>ag_followUpQueue := clear (ag_followUpQueue a)\<rparr>"

definition clearAllQueues :: "'x agent \<Rightarrow> 'x agent" where
  "clearAllQueues a = clearFollowUpQueue (clearSteeringQueue a)"

definition set_steeringMode :: "queue_mode \<Rightarrow> 'x agent \<Rightarrow> 'x agent" where
  "set_steeringMode mode a = a\<lparr>ag_steeringQueue := (ag_steeringQueue a)\<lparr>mq_mode := mode\<rparr>\<rparr>"

definition set_followUpMode :: "queue_mode \<Rightarrow> 'x agent \<Rightarrow> 'x agent" where
  "set_followUpMode mode a = a\<lparr>ag_followUpQueue := (ag_followUpQueue a)\<lparr>mq_mode := mode\<rparr>\<rparr>"

definition hasQueuedMessages :: "'x agent \<Rightarrow> bool" where
  "hasQueuedMessages a \<longleftrightarrow> hasItems (ag_steeringQueue a) \<or> hasItems (ag_followUpQueue a)"

definition abort_run :: "'x agent \<Rightarrow> 'x agent" where
  "abort_run a = a\<lparr>ag_activeRun := map_option (\<lambda>_. True) (ag_activeRun a)\<rparr>"

definition reset_agent :: "'x agent \<Rightarrow> (jstr + unit) \<times> 'x agent" where
  "reset_agent a = (if ag_activeRun a \<noteq> None
     then (Inl (jlit ''Agent is already processing. Wait for completion before resetting.''), a)
     else (Inr (), clearSteeringQueue (clearFollowUpQueue (a\<lparr>ag_state := (ag_state a)\<lparr>as_messages := [], as_isStreaming := False,
       as_streamingMessage := None, as_pendingToolCalls := {}, as_errorMessage := None\<rparr>\<rparr>))))"

section \<open>Events\<close>

text \<open>What \<open>processEvents\<close> does to the observable state before it calls the listeners.\<close>

definition reduce_event :: "agent_event \<Rightarrow> agent_state \<Rightarrow> agent_state" where
  "reduce_event ev st = (case ev of
      MessageStart m \<Rightarrow> st\<lparr>as_streamingMessage := Some m\<rparr>
    | MessageUpdate m _ \<Rightarrow> st\<lparr>as_streamingMessage := Some m\<rparr>
    | MessageEnd m \<Rightarrow> st\<lparr>as_streamingMessage := None, as_messages := as_messages st @ [m]\<rparr>
    | ToolExecutionStart i _ _ \<Rightarrow> st\<lparr>as_pendingToolCalls := insert i (as_pendingToolCalls st)\<rparr>
    | ToolExecutionEnd i _ _ _ \<Rightarrow> st\<lparr>as_pendingToolCalls := as_pendingToolCalls st - {i}\<rparr>
    | TurnEnd m _ \<Rightarrow> if or_text (am_errorMessage m) [] \<noteq> [] then st\<lparr>as_errorMessage := am_errorMessage m\<rparr> else st
    | AgentEnd _ \<Rightarrow> st\<lparr>as_streamingMessage := None\<rparr>
    | _ \<Rightarrow> st)"

text \<open>
  What the user of the class sets: tools, hooks, the stream function; the subscribed listeners,
  called one after the other; and the host's clock and scheduling. Options that the agent only passes on to
  the stream function (session id, transport, thinking budgets, callbacks) are part of that function.
\<close>

record 'x agent_setup =
  su_tools :: "'x agent agent_tool list"
  su_convertToLlm :: "(agent_message list \<Rightarrow> (message list, 'x agent) hook) option"
  su_transformContext :: "(agent_message list \<Rightarrow> (agent_message list, 'x agent) hook) option"
  su_streamFunction :: "llm_model \<Rightarrow> 'x agent llm_context \<Rightarrow> jstr option \<Rightarrow> jstr option
    \<Rightarrow> (stream_event list \<times> assistant_message, 'x agent) hook"
  su_getApiKey :: "(jstr \<Rightarrow> (jstr option, 'x agent) hook) option"
  su_beforeToolCall :: "('x agent tool_call_context \<Rightarrow> (before_tool_call_result option, 'x agent) hook) option"
  su_afterToolCall :: "('x agent after_tool_call_context \<Rightarrow> (after_tool_call_result option, 'x agent) hook) option"
  su_shouldStopAfterTurn :: "('x agent turn_context \<Rightarrow> (bool, 'x agent) hook) option"
  su_prepareNextTurn :: "('x agent turn_update option, 'x agent) hook option"
  su_prepareNextTurnWithContext :: "('x agent turn_context \<Rightarrow> ('x agent turn_update option, 'x agent) hook) option"
  su_toolExecution :: "execution_mode option"
  su_listeners :: "(agent_event \<Rightarrow> 'x agent \<Rightarrow> 'x agent) list"
  su_clock :: "'x agent \<Rightarrow> int"
  su_validate :: "'x agent agent_tool \<Rightarrow> tool_call \<Rightarrow> jstr + json"
  su_schedule :: "nat \<Rightarrow> 'x agent \<Rightarrow> nat"

text \<open>
  The error of a listener that is invoked outside of a run cannot occur: the sink is only used by an active run. Listeners
  do not throw.
\<close>

definition processEvents :: "'x agent_setup \<Rightarrow> agent_event \<Rightarrow> 'x agent \<Rightarrow> 'x agent" where
  "processEvents su ev a = fold (\<lambda>listener. listener ev) (su_listeners su) (a\<lparr>ag_state := reduce_event ev (ag_state a)\<rparr>)"

definition defaultConvertToLlm :: "agent_message list \<Rightarrow> message list" where
  "defaultConvertToLlm messages = List.map_filter (\<lambda>m. case m of LlmMessage l \<Rightarrow> Some l | _ \<Rightarrow> None) messages"

section \<open>The configuration of a run\<close>

definition steering_hook :: "(agent_message list, 'x agent) hook" where
  "steering_hook a = (if ag_skipInitialPoll a then (Inr [], a\<lparr>ag_skipInitialPoll := False\<rparr>)
     else (case drain (ag_steeringQueue a) of (ms, q) \<Rightarrow> (Inr ms, a\<lparr>ag_steeringQueue := q\<rparr>)))"

definition followUp_hook :: "(agent_message list, 'x agent) hook" where
  "followUp_hook a = (case drain (ag_followUpQueue a) of (ms, q) \<Rightarrow> (Inr ms, a\<lparr>ag_followUpQueue := q\<rparr>))"

definition prepare_hook :: "'x agent_setup \<Rightarrow> ('x agent turn_context \<Rightarrow> ('x agent turn_update option, 'x agent) hook) option" where
  "prepare_hook su = (case su_prepareNextTurnWithContext su of
      Some prepare \<Rightarrow> Some prepare
    | None \<Rightarrow> (case su_prepareNextTurn su of None \<Rightarrow> None | Some prepare \<Rightarrow> Some (\<lambda>_. prepare)))"

definition createLoopConfig :: "'x agent_setup \<Rightarrow> 'x agent \<Rightarrow> 'x agent loop_config" where
  "createLoopConfig su a = \<lparr>
     lc_model = as_model (ag_state a),
     lc_reasoning = (if as_thinkingLevel (ag_state a) = jlit ''off'' then None else Some (as_thinkingLevel (ag_state a))),
     lc_apiKey = None,
     lc_toolExecution = Some (case su_toolExecution su of None \<Rightarrow> Parallel | Some mode \<Rightarrow> mode),
     lc_convertToLlm = (case su_convertToLlm su of None \<Rightarrow> (\<lambda>ms a. (Inr (defaultConvertToLlm ms), a)) | Some convert \<Rightarrow> convert),
     lc_transformContext = su_transformContext su,
     lc_getApiKey = su_getApiKey su,
     lc_shouldStopAfterTurn = su_shouldStopAfterTurn su,
     lc_prepareNextTurn = prepare_hook su,
     lc_getSteeringMessages = Some steering_hook,
     lc_getFollowUpMessages = Some followUp_hook,
     lc_beforeToolCall = su_beforeToolCall su,
     lc_afterToolCall = su_afterToolCall su\<rparr>"

definition createContextSnapshot :: "'x agent_setup \<Rightarrow> 'x agent \<Rightarrow> 'x agent agent_context" where
  "createContextSnapshot su a = \<lparr>ctx_systemPrompt = as_systemPrompt (ag_state a), ctx_messages = as_messages (ag_state a),
     ctx_tools = Some (su_tools su)\<rparr>"

definition agent_env :: "'x agent_setup \<Rightarrow> 'x agent loop_env" where
  "agent_env su = \<lparr>le_stream = su_streamFunction su, le_aborted = (\<lambda>a. ag_activeRun a = Some True),
     le_emit = processEvents su, le_clock = su_clock su, le_validate = su_validate su, le_schedule = su_schedule su\<rparr>"

section \<open>The life cycle of a run\<close>

definition begin_lifecycle :: "'x agent \<Rightarrow> 'x agent" where
  "begin_lifecycle a = a\<lparr>ag_activeRun := Some False,
     ag_state := (ag_state a)\<lparr>as_isStreaming := True, as_streamingMessage := None, as_errorMessage := None\<rparr>\<rparr>"

definition finishRun :: "'x agent \<Rightarrow> 'x agent" where
  "finishRun a = a\<lparr>ag_activeRun := None,
     ag_state := (ag_state a)\<lparr>as_isStreaming := False, as_streamingMessage := None, as_pendingToolCalls := {}\<rparr>\<rparr>"

definition EMPTY_USAGE :: usage where
  "EMPTY_USAGE = \<lparr>u_input = 0, u_output = 0, u_cacheRead = 0, u_cacheWrite = 0, u_cacheWrite1h = None, u_reasoning = None,
     u_totalTokens = 0, u_cost = \<lparr>cost_input = 0, cost_output = 0, cost_cacheRead = 0, cost_cacheWrite = 0, cost_total = 0\<rparr>\<rparr>"

definition failure_message :: "int \<Rightarrow> llm_model \<Rightarrow> jstr \<Rightarrow> bool \<Rightarrow> assistant_message" where
  "failure_message now model err wasAborted = \<lparr>am_content = [TextContent [] None], am_api = lm_api model,
     am_provider = lm_provider model, am_model = lm_id model, am_responseModel = None, am_responseId = None,
     am_diagnostics = None, am_usage = EMPTY_USAGE, am_stopReason = (if wasAborted then AbortedStop else ErrorStop),
     am_deferred = None, am_errorMessage = Some err, am_rawStopReason = None, am_endTurn = None, am_timestamp = now\<rparr>"

definition handleRunFailure :: "'x agent_setup \<Rightarrow> jstr \<Rightarrow> 'x agent \<Rightarrow> 'x agent" where
  "handleRunFailure su err a =
     (let m = failure_message (su_clock su a) (as_model (ag_state a)) err (ag_activeRun a = Some True)
      in fold (processEvents su)
           [MessageStart (assistant m), MessageEnd (assistant m), TurnEnd m [], AgentEnd [assistant m]] a)"

definition runWithLifecycle ::
  "'x agent_setup \<Rightarrow> ('x agent run_state \<Rightarrow> ((jstr + agent_message list) \<times> 'x agent run_state) option) \<Rightarrow> 'x agent
    \<Rightarrow> ((jstr + unit) \<times> 'x agent) option" where
  "runWithLifecycle su executor a =
     (if ag_activeRun a \<noteq> None then Some (Inl (jlit ''Agent is already processing.''), a)
      else case executor \<lparr>rs_events = [], rs_world = begin_lifecycle a\<rparr> of
          None \<Rightarrow> None
        | Some (Inl err, s) \<Rightarrow> Some (Inr (), finishRun (handleRunFailure su err (rs_world s)))
        | Some (Inr _, s) \<Rightarrow> Some (Inr (), finishRun (rs_world s)))"

definition runPromptMessages ::
  "'x agent_setup \<Rightarrow> agent_message list \<Rightarrow> bool \<Rightarrow> 'x agent \<Rightarrow> ((jstr + unit) \<times> 'x agent) option" where
  "runPromptMessages su messages skipInitialSteeringPoll a =
     runWithLifecycle su (\<lambda>s.
       let s = s\<lparr>rs_world := (rs_world s)\<lparr>ag_skipInitialPoll := skipInitialSteeringPoll\<rparr>\<rparr>
       in runAgentLoop (agent_env su) messages (createContextSnapshot su (rs_world s)) (createLoopConfig su (rs_world s)) s) a"

definition runContinuation :: "'x agent_setup \<Rightarrow> 'x agent \<Rightarrow> ((jstr + unit) \<times> 'x agent) option" where
  "runContinuation su a =
     runWithLifecycle su (\<lambda>s.
       let s = s\<lparr>rs_world := (rs_world s)\<lparr>ag_skipInitialPoll := False\<rparr>\<rparr>
       in runAgentLoopContinue (agent_env su) (createContextSnapshot su (rs_world s)) (createLoopConfig su (rs_world s)) s) a"

datatype prompt_input = PromptText jstr "content_block list" | PromptMessages "agent_message list"

definition normalizePromptInput :: "int \<Rightarrow> prompt_input \<Rightarrow> agent_message list" where
  "normalizePromptInput now input = (case input of
      PromptMessages ms \<Rightarrow> ms
    | PromptText text images \<Rightarrow>
        [LlmMessage (UserMsg \<lparr>um_content = Blocks (TextContent text None # images), um_timestamp = now\<rparr>)])"

definition already_processing :: jstr where
  "already_processing = jlit ''Agent is already processing a prompt. Use steer() or followUp() to queue messages, or wait for completion.''"

definition prompt :: "'x agent_setup \<Rightarrow> prompt_input \<Rightarrow> 'x agent \<Rightarrow> ((jstr + unit) \<times> 'x agent) option" where
  "prompt su input a =
     (if ag_activeRun a \<noteq> None then Some (Inl already_processing, a)
      else runPromptMessages su (normalizePromptInput (su_clock su a) input) False a)"

definition continue :: "'x agent_setup \<Rightarrow> 'x agent \<Rightarrow> ((jstr + unit) \<times> 'x agent) option" where
  "continue su a =
     (if ag_activeRun a \<noteq> None
      then Some (Inl (jlit ''Agent is already processing. Wait for completion before continuing.''), a)
      else if length (as_messages (ag_state a)) = 0 then Some (Inl (jlit ''No messages to continue from''), a)
      else if is_assistant (last (as_messages (ag_state a)))
      then (case drain (ag_steeringQueue a) of (steering, q) \<Rightarrow>
        (let a = a\<lparr>ag_steeringQueue := q\<rparr>
         in if length steering > 0 then runPromptMessages su steering True a
            else (case drain (ag_followUpQueue a) of (followUps, q) \<Rightarrow>
              (let a = a\<lparr>ag_followUpQueue := q\<rparr>
               in if length followUps > 0 then runPromptMessages su followUps False a
                  else Some (Inl (jlit ''Cannot continue from message role: assistant''), a)))))
      else runContinuation su a)"

end
