(* ===== verification/Agent_Returns.thy ===== *)
theory Agent_Returns
  imports Agent_World
begin

text \<open>
  When a run of the agent loop returns. The loop has two reasons to go on, tool calls and queued messages; a budget that both
  of them spend, and that nothing else fills up, bounds a run.
\<close>

section \<open>A rank for the loop\<close>

lemma loop_from_returns:
  assumes "\<And>again v s again' v' s'. run_reaches env prompts ctx config s0 again v s \<Longrightarrow>
      loop_step env again v s = (Inr (TurnDone again' v'), s') \<Longrightarrow> rank again' v' s' < (rank again v s :: nat)"
  shows "run_reaches env prompts ctx config s0 again v s \<Longrightarrow> \<exists>r. loop_from env again v s = Some r"
proof (induction "rank again v s" arbitrary: again v s rule: less_induct)
  case less
  show ?case
  proof (cases "loop_step env again v s")
    case (Pair r s')
    show ?thesis
    proof (cases "\<exists>again' v'. r = Inr (TurnDone again' v')")
      case True
      then obtain again' v' where "loop_step env again v s = (Inr (TurnDone again' v'), s')" using Pair by blast
      with less.hyps [OF assms [OF less.prems this] reach_step [OF less.prems this]] show ?thesis
        by (simp add: loop_from.simps [of env again v s])
    next
      case False
      with Pair show ?thesis by (auto simp: loop_from.simps [of env again v s] split: sum.splits turn_result.splits)
    qed
  qed
qed

section \<open>Budgets\<close>

definition at_most :: "('w \<Rightarrow> nat) \<Rightarrow> nat \<Rightarrow> 'w run_state \<Rightarrow> bool" where
  "at_most budget n s \<longleftrightarrow> budget (rs_world s) \<le> n"

text \<open>The event sink, the model, the hooks and the tools do not fill the budget up.\<close>

definition never_fills :: "('w \<Rightarrow> nat) \<Rightarrow> 'w loop_env \<Rightarrow> 'w loop_config \<Rightarrow> 'w agent_context \<Rightarrow> bool" where
  "never_fills budget env config ctx \<longleftrightarrow>
     (\<forall>n. loop_world env (at_most budget n) \<and> config_keeps (at_most budget n) config \<and> tools_keep (at_most budget n) ctx)"

text \<open>A response with tool calls that are answered spends some of it.\<close>

definition calls_spend :: "('w \<Rightarrow> nat) \<Rightarrow> 'w loop_env \<Rightarrow> bool" where
  "calls_spend budget env \<longleftrightarrow> (\<forall>model llm key reasoning w evs m w'.
     le_stream env model llm key reasoning w = (Inr (evs, m), w') \<longrightarrow> assistant_calls m \<noteq> [] \<longrightarrow>
     am_stopReason m \<noteq> ErrorStop \<longrightarrow> am_stopReason m \<noteq> AbortedStop \<longrightarrow> budget w' < budget w)"

text \<open>A poll that yields messages spends some of it.\<close>

definition poll_spends :: "('w \<Rightarrow> nat) \<Rightarrow> (agent_message list, 'w) hook option \<Rightarrow> bool" where
  "poll_spends budget hook \<longleftrightarrow> (\<forall>h w ms w'. hook = Some h \<longrightarrow> h w = (Inr ms, w') \<longrightarrow> ms \<noteq> [] \<longrightarrow> budget w' < budget w)"

definition polls_spend :: "('w \<Rightarrow> nat) \<Rightarrow> 'w loop_config \<Rightarrow> bool" where
  "polls_spend budget config \<longleftrightarrow> poll_spends budget (lc_getSteeringMessages config) \<and> poll_spends budget (lc_getFollowUpMessages config)"

lemma polls_spend_update [simp]: "polls_spend budget (lv_config (apply_turn_update u v)) = polls_spend budget (lv_config v)"
  by (simp add: polls_spend_def apply_turn_update_def)

abbreviation left :: "('w \<Rightarrow> nat) \<Rightarrow> 'w run_state \<Rightarrow> nat" where
  "left budget s \<equiv> budget (rs_world s)"

lemma poll_spent:
  assumes "poll_spends budget hook" and "poll hook s = (Inr ms, s')" and "ms \<noteq> []"
  shows "left budget s' < left budget s"
  using assms by (auto simp: poll_def run_hook_def poll_spends_def split: option.splits prod.splits)

lemma poll_left:
  assumes "\<forall>n. option_keeps (at_most budget n) (map_option (\<lambda>h (_ :: unit). h) hook)" and "poll hook s = (r, s')"
  shows "left budget s' \<le> left budget s"
  using poll_keeps [OF assms(1) [rule_format, of "left budget s"] _ assms(2)] by (simp add: at_most_def)

lemma hook_left:
  assumes "(case h of None \<Rightarrow> (Inr a, s) | Some f \<Rightarrow> run_hook (f c) s) = (r, s')" and "\<forall>n. option_keeps (at_most budget n) h"
  shows "left budget s' \<le> left budget s"
proof -
  have "at_most budget (left budget s) s" by (simp add: at_most_def)
  with optional_hook_keeps [where I = "at_most budget (left budget s)" and h = h and a = a and s = s and c = c and r = r and s' = s'] assms
  show ?thesis by (simp add: at_most_def)
qed

section \<open>A turn\<close>

lemma response_spent:
  assumes "\<forall>n. loop_world env (at_most budget n)" and "calls_spend budget env" and "\<forall>n. config_keeps (at_most budget n) config"
    and "streamAssistantResponse env ctx config s = (Inr (m, ctx'), s')"
    and "assistant_calls m \<noteq> []" "am_stopReason m \<noteq> ErrorStop" "am_stopReason m \<noteq> AbortedStop"
  shows "left budget s' < left budget s"
proof -
  obtain llmContext s1 key s2 evs s3 added ctx1 s4 where
    built: "buildProviderContext ctx config s = (Inr llmContext, s1)"
    and key: "(case lc_getApiKey config of None \<Rightarrow> (Inr None, s1)
        | Some getApiKey \<Rightarrow> run_hook (getApiKey (lm_provider (lc_model config))) s1) = (Inr key, s2)"
    and streamed: "run_hook (le_stream env (lc_model config) llmContext
      (if or_text key [] \<noteq> [] then key else lc_apiKey config) (lc_reasoning config)) s2 = (Inr (evs, m), s3)"
    and consumed: "consume_events env evs False False ctx s3 = (added, ctx1, s4)"
    and s': "s' = emit env (MessageEnd (assistant m)) (if added then s4 else emit env (MessageStart (assistant m)) s4)"
    by (rule response_parts [OF assms(4)])
  have world: "loop_world env (at_most budget n)" and config: "config_keeps (at_most budget n) config" for n
    using assms(1,3) by simp_all
  have "at_most budget (left budget s) s1" using loop_world.build_keeps [OF world built _ config] by (simp add: at_most_def)
  moreover have "left budget s2 \<le> left budget s1" by (rule hook_left [OF key]) (use config in \<open>simp add: config_keeps_def\<close>)
  moreover have "left budget s3 < left budget s2"
    using streamed assms(2,5,6,7) by (auto simp: run_hook_def calls_spend_def split: prod.splits)
  moreover have "at_most budget (left budget s3) s'"
    using loop_world.consume_keeps [OF world consumed, of "left budget s3"] loop_world.emit_keeps [OF world, of "left budget s3"]
    unfolding s' by (simp add: at_most_def)
  ultimately show ?thesis by (simp add: at_most_def)
qed

text \<open>The configuration of a run changes in its model and its thinking level only, its tools only by \<open>prepareNextTurn\<close>.\<close>

definition budgeted :: "('w \<Rightarrow> nat) \<Rightarrow> 'w loop_vars \<Rightarrow> bool" where
  "budgeted budget v \<longleftrightarrow> (\<forall>n. vars_keep (at_most budget n) v) \<and> polls_spend budget (lv_config v)"

lemma budgeted_update:
  assumes "budgeted budget v" and "lc_prepareNextTurn (lv_config v) = Some hook" and "hook tc w = (Inr (Some u), w')"
  shows "budgeted budget (apply_turn_update u v)"
proof -
  have "vars_keep (at_most budget n) (apply_turn_update u v)" for n
  proof -
    have keeps: "config_keeps (at_most budget n) (lv_config v)" "tools_keep (at_most budget n) (lv_context v)"
      using assms(1) by (simp_all add: budgeted_def vars_keep_def)
    have "tu_context u = Some ctx \<longrightarrow> tools_keep (at_most budget n) ctx" for ctx
      using keeps(1) assms(2,3) unfolding config_keeps_def by blast
    then show ?thesis using keeps(2) config_keeps_update [OF keeps(1)]
      by (auto simp: vars_keep_def apply_turn_update_def split: option.splits)
  qed
  then show ?thesis using assms(1) by (simp add: budgeted_def)
qed

lemma budgeted_cong: "lv_config v' = lv_config v \<Longrightarrow> ctx_tools (lv_context v') = ctx_tools (lv_context v) \<Longrightarrow> budgeted budget v' = budgeted budget v"
  using tools_keep_cong [of "lv_context v'" "lv_context v"] by (simp add: budgeted_def vars_keep_def)

lemma finish_turn_spent:
  assumes "\<forall>n. loop_world env (at_most budget n)" and "budgeted budget v"
    and "finish_turn env m results again v s = (Inr (TurnDone again' v'), s')"
  shows "again' = again \<and> left budget s' \<le> left budget s \<and> (lv_pending v' \<noteq> [] \<longrightarrow> left budget s' < left budget s) \<and> budgeted budget v'"
proof -
  let ?s = "emit env (TurnEnd m results) s"
  have world: "loop_world env (at_most budget n)" and keeps: "vars_keep (at_most budget n) v" for n
    using assms(1,2) by (simp_all add: budgeted_def)
  have s: "left budget ?s \<le> left budget s" using loop_world.emit_keeps [OF world, of "left budget s" s] by (simp add: at_most_def)
  from assms(3) obtain update s1 stop s2 pending where
    prepared: "(case lc_prepareNextTurn (lv_config v) of None \<Rightarrow> (Inr None, ?s)
      | Some prepare \<Rightarrow> run_hook (prepare (turn_context_of m results v)) ?s) = (Inr update, s1)"
    and stopped: "(case lc_shouldStopAfterTurn (lv_config (case update of None \<Rightarrow> v | Some u \<Rightarrow> apply_turn_update u v)) of
        None \<Rightarrow> (Inr False, s1)
      | Some should_stop \<Rightarrow> run_hook (should_stop (turn_context_of m results (case update of None \<Rightarrow> v | Some u \<Rightarrow> apply_turn_update u v))) s1)
        = (Inr stop, s2)"
    and polled: "poll (lc_getSteeringMessages (lv_config (case update of None \<Rightarrow> v | Some u \<Rightarrow> apply_turn_update u v))) s2 = (Inr pending, s')"
    and out: "again' = again" "v' = (case update of None \<Rightarrow> v | Some u \<Rightarrow> apply_turn_update u v)\<lparr>lv_pending := pending\<rparr>"
    unfolding finish_turn_def Let_def then_result_Inr by (auto simp: then_result_Inr split: if_split_asm)
  define v1 where "v1 = (case update of None \<Rightarrow> v | Some u \<Rightarrow> apply_turn_update u v)"
  have v1: "budgeted budget v1"
  proof (cases update)
    case (Some u)
    with prepared obtain hook w w' where "lc_prepareNextTurn (lv_config v) = Some hook" "hook (turn_context_of m results v) w = (Inr (Some u), w')"
      by (auto dest: run_hook_result split: option.splits)
    with budgeted_update [OF assms(2)] Some show ?thesis by (simp add: v1_def)
  qed (use assms(2) in \<open>simp add: v1_def\<close>)
  have config: "config_keeps (at_most budget n) (lv_config v)" "config_keeps (at_most budget n) (lv_config v1)" for n
    using assms(2) v1 by (simp_all add: budgeted_def vars_keep_def)
  have "left budget s1 \<le> left budget ?s"
    by (rule hook_left [OF prepared]) (use config(1) in \<open>simp add: config_keeps_def\<close>)
  moreover have "left budget s2 \<le> left budget s1"
    by (rule hook_left [OF stopped [folded v1_def]]) (use config(2) in \<open>simp add: config_keeps_def\<close>)
  moreover have "left budget s' \<le> left budget s2"
    using poll_left [OF _ polled [folded v1_def], of budget] config(2) by (simp add: config_keeps_def)
  moreover have "pending \<noteq> [] \<longrightarrow> left budget s' < left budget s2"
    using poll_spent [OF _ polled [folded v1_def], of budget] v1 by (simp add: budgeted_def polls_spend_def)
  moreover have "budgeted budget v'" using v1 budgeted_cong [of v' v1] out(2) by (simp add: v1_def)
  ultimately show ?thesis using out s by (auto simp: v1_def [symmetric])
qed

lemma begin_turn_left:
  assumes "\<forall>n. loop_world env (at_most budget n)" and "begin_turn env v s = (v1, s1)" and "budgeted budget v"
  shows "left budget s1 \<le> left budget s"
proof -
  have world: "loop_world env (at_most budget n)" for n using assms(1) by simp
  let ?s = "if lv_firstTurn v then s else emit env TurnStart s"
  obtain v2 where inj: "fold (inject_message env) (lv_pending v) (v\<lparr>lv_firstTurn := False\<rparr>, ?s) = (v2, s1)"
    using assms(2) by (auto simp: begin_turn_def inject_pending_def split: prod.splits)
  have s: "at_most budget (left budget s) ?s"
    using loop_world.emit_keeps [OF world, of "left budget s" s] by (simp add: at_most_def)
  have "vars_keep (at_most budget (left budget s)) (v\<lparr>lv_firstTurn := False\<rparr>)" using assms(3) by (simp add: budgeted_def vars_keep_def)
  from loop_world.inject_keeps [OF world inj s this] show ?thesis by (simp add: at_most_def)
qed

lemma turn_spent:
  assumes "\<forall>n. loop_world env (at_most budget n)" and "calls_spend budget env" and "budgeted budget v"
    and "loop_turn env v s = (Inr (TurnDone again' v'), s')"
  shows "left budget s' \<le> left budget s \<and> (again' \<or> lv_pending v' \<noteq> [] \<longrightarrow> left budget s' < left budget s) \<and> budgeted budget v'"
proof -
  have world: "loop_world env (at_most budget n)" for n using assms(1) by simp
  obtain v1 s1 where begun: "begin_turn env v s = (v1, s1)" by fastforce
  with assms(4) obtain m ctx s2 where
    response: "streamAssistantResponse env (lv_context v1) (lv_config v1) s1 = (Inr (m, ctx), s2)" and rest:
    "after_response env m (v1\<lparr>lv_context := ctx, lv_newMessages := lv_newMessages v1 @ [assistant m]\<rparr>) s2 = (Inr (TurnDone again' v'), s')"
    by (auto simp: loop_turn_def then_result_Inr)
  let ?v2 = "v1\<lparr>lv_context := ctx, lv_newMessages := lv_newMessages v1 @ [assistant m]\<rparr>"
  have v1: "budgeted budget v1" using begin_turn_spec [OF begun] budgeted_cong [of v1 v] assms(3) by simp
  then have config: "\<forall>n. config_keeps (at_most budget n) (lv_config v1)" by (simp add: budgeted_def vars_keep_def)
  have begun_left: "left budget s1 \<le> left budget s" using begin_turn_left [OF assms(1) begun assms(3)] .
  have kept: "at_most budget (left budget s1) s2" "ctx_tools ctx = ctx_tools (lv_context v1)"
    using loop_world.response_keeps [OF world response, of "left budget s1"] config by (simp_all add: at_most_def)
  then have v2: "budgeted budget ?v2" using v1 budgeted_cong [of ?v2 v1] by simp
  have ok: "am_stopReason m \<noteq> ErrorStop" "am_stopReason m \<noteq> AbortedStop" using rest by (auto simp: after_response_def Let_def split: if_splits)
  show ?thesis
  proof (cases "assistant_calls m = []")
    case True
    with rest ok have "finish_turn env m [] False ?v2 s2 = (Inr (TurnDone again' v'), s')" by (simp add: after_response_def)
    from finish_turn_spent [OF assms(1) v2 this] kept(1) begun_left show ?thesis by (auto simp: at_most_def)
  next
    case False
    from response_spent [OF assms(1,2) config response False ok] have spent: "left budget s2 < left budget s1" .
    obtain batch s3 where batch: "run_tool_calls env m ?v2 s2 = (batch, s3)" by fastforce
    from v2 have "config_keeps (at_most budget n) (lv_config ?v2)" "tools_keep (at_most budget n) (lv_context ?v2)" for n
      by (simp_all add: budgeted_def vars_keep_def)
    from loop_world.batch_keeps [OF world batch _ this, of "left budget s2"] have "left budget s3 \<le> left budget s2" by (simp add: at_most_def)
    moreover have "finish_turn env m (tb_messages batch) (\<not> tb_terminate batch) (add_results (tb_messages batch) ?v2) s3
        = (Inr (TurnDone again' v'), s')" using rest ok False batch by (simp add: after_response_def)
    from finish_turn_spent [OF assms(1) _ this] v2 budgeted_cong [of "add_results (tb_messages batch) ?v2" ?v2 budget]
    have "left budget s' \<le> left budget s3" "budgeted budget v'" by (simp_all add: add_results_def)
    ultimately show ?thesis using spent begun_left by auto
  qed
qed

section \<open>A run\<close>

lemma step_spent:
  assumes "\<forall>n. loop_world env (at_most budget n)" and "calls_spend budget env" and "budgeted budget v"
    and "loop_step env again v s = (Inr (TurnDone again' v'), s')"
  shows "2 * left budget s' + (if again' \<or> lv_pending v' \<noteq> [] then 1 else 0)
      < 2 * left budget s + (if again \<or> lv_pending v \<noteq> [] then 1 else 0) \<and> budgeted budget v'"
proof (cases "again \<or> lv_pending v \<noteq> []")
  case True
  with assms(4) have "loop_turn env v s = (Inr (TurnDone again' v'), s')" by (simp add: loop_step_def)
  from turn_spent [OF assms(1-3) this] True show ?thesis by auto
next
  case False
  with assms(4) have polled: "poll (lc_getFollowUpMessages (lv_config v)) s = (Inr (lv_pending v'), s')"
    and v': "lv_pending v' \<noteq> []" "v' = v\<lparr>lv_pending := lv_pending v'\<rparr>"
    by (auto simp: loop_step_def then_result_Inr split: if_splits)
  have "left budget s' < left budget s" using poll_spent [OF _ polled v'(1)] assms(3) by (simp add: budgeted_def polls_spend_def)
  moreover have "budgeted budget v'" using assms(3) v'(2) budgeted_cong [of v' v] by (metis loop_vars.select_convs(1,2) loop_vars.surjective loop_vars.update_convs(5))
  ultimately show ?thesis using False by auto
qed

text \<open>C34 (liveness). A run of the loop goes on for two reasons only, tool calls and queued messages, and returns when both are bounded: there is a
  budget that every answered response with tool calls and every poll that yields messages spends some of, and
  that nothing else - no event, hook or tool - fills up. Nothing else keeps a run going: neither a failed response, nor one
  without calls, nor a batch of calls, whatever the scheduling of concurrent calls. The hooks of the run may
  replace its context, its model and its thinking level between turns.\<close>

theorem agent_run_returns:
  assumes "never_fills budget env config ctx" and "calls_spend budget env" and "polls_spend budget config"
  shows "\<exists>r. runAgentLoop env prompts ctx config s0 = Some r"
proof (cases "poll (lc_getSteeringMessages config) (begin_run env prompts s0)")
  case (Pair polled s)
  have worlds: "\<forall>n. loop_world env (at_most budget n)" using assms(1) by (simp add: never_fills_def)
  have start: "budgeted budget (initial_vars (ctx\<lparr>ctx_messages := ctx_messages ctx @ prompts\<rparr>) prompts config pending)" for pending
    using assms(1,3) by (simp add: budgeted_def vars_keep_def initial_vars_def never_fills_def tools_keep_def)
  have reached: "budgeted budget v" if "run_reaches env prompts ctx config s0 again v s" for again v s
    using that by (induction rule: run_reaches.induct) (use start step_spent [OF worlds assms(2)] in blast)+
  show ?thesis
  proof (cases polled)
    case (Inl err)
    with Pair show ?thesis by (simp add: runAgentLoop_def runLoop_def)
  next
    case (Inr pending)
    with Pair have "poll (lc_getSteeringMessages config) (begin_run env prompts s0) = (Inr pending, s)" by simp
    from loop_from_returns [of env prompts ctx config s0 "\<lambda>again v s. 2 * left budget s + (if again \<or> lv_pending v \<noteq> [] then 1 else 0)",
        OF conjunct1 [OF step_spent [OF worlds assms(2) reached]] reach_start [OF this]] Pair Inr
    show ?thesis by (simp add: runAgentLoop_def runLoop_def)
  qed
qed

text \<open>The model of the example calls a tool in its first response only.\<close>

definition example_budget :: "nat \<Rightarrow> nat" where
  "example_budget w = (if w = 0 then 1 else 0)"

lemma agent_run_returns_witness:
  "\<exists>r. runAgentLoop example_env [OtherMessage JNull] example_context example_config fresh_run = Some r"
proof (rule agent_run_returns)
  show "never_fills example_budget example_env example_config example_context"
    by (auto simp: never_fills_def loop_world_def at_most_def hook_keeps_def run_hook_def example_budget_def example_defs emit_def
        config_keeps_def option_keeps_def tools_keep_def)
  show "calls_spend example_budget example_env"
    by (auto simp: calls_spend_def example_budget_def example_defs assistant_calls_def map_filter_simps)
  show "polls_spend example_budget example_config" by (simp add: polls_spend_def poll_spends_def example_config_def)
qed

end
