(* ===== verification/Json_Parse.thy ===== *)
theory Json_Parse
  imports Json_Text
begin

text \<open>
  \<open>JSON.parse\<close> as a machine that reads one code unit at a time, with the open arrays and objects on a
  stack. It inverts \<open>JSON.stringify\<close> (\<open>Json_Text\<close>) on JSON trees, and a strict prefix of the text of an object
  is never accepted: the end of the object is its last unit. How the text of a number that is not a
  safe integer is read is the argument \<open>read_double\<close>.
\<close>

section \<open>Numbers\<close>

definition strip_sign :: "jstr \<Rightarrow> jstr" where
  "strip_sign s = (case s of u # r \<Rightarrow> if u = 45 then r else s | [] \<Rightarrow> [])"

definition exponent_syntax :: "jstr \<Rightarrow> bool" where
  "exponent_syntax s = (case s of
      [] \<Rightarrow> True
    | u # r \<Rightarrow> (u = 101 \<or> u = 69) \<and>
        (let ds = (case r of v # t \<Rightarrow> if v = 43 \<or> v = 45 then t else r | [] \<Rightarrow> [])
         in ds \<noteq> [] \<and> list_all is_digit ds))"

definition fraction_syntax :: "jstr \<Rightarrow> bool" where
  "fraction_syntax s = (case s of
      [] \<Rightarrow> True
    | u # r \<Rightarrow> if u = 46 then takeWhile is_digit r \<noteq> [] \<and> exponent_syntax (dropWhile is_digit r) else exponent_syntax s)"

definition number_syntax :: "jstr \<Rightarrow> bool" where
  "number_syntax s =
     (let t = strip_sign s; ds = takeWhile is_digit t
      in ds \<noteq> [] \<and> (hd ds = 48 \<longrightarrow> length ds = 1) \<and> fraction_syntax (dropWhile is_digit t))"

text \<open>The value of a numeral; \<open>-0\<close> is not the integer zero.\<close>

definition number_value :: "(jstr \<Rightarrow> js_number) \<Rightarrow> jstr \<Rightarrow> js_number option" where
  "number_value read_double s =
     (if \<not> number_syntax s then None
      else let t = strip_sign s; n = int (decimal_value t)
           in if list_all is_digit t \<and> n \<le> max_safe \<and> \<not> (t \<noteq> s \<and> n = 0)
              then Some (JInt (if t = s then n else - n)) else Some (read_double s))"

definition number_unit :: "u16 \<Rightarrow> bool" where
  "number_unit u \<longleftrightarrow> is_digit u \<or> u = 43 \<or> u = 45 \<or> u = 46 \<or> u = 69 \<or> u = 101"

section \<open>The machine\<close>

datatype parse_frame = InArray "json list" | InObject "(jstr \<times> json) list" jstr

text \<open>
  The flag of \<open>WantValue\<close> and \<open>WantKey\<close> allows the closing bracket; the one of the text modes tells a key from a
  value. An \<open>InObject\<close> frame keeps the key of the member that is read.
\<close>

datatype parse_mode =
    WantValue bool
  | WantKey bool
  | WantColon
  | AfterValue
  | InText bool jstr
  | InEscape bool jstr
  | InHex bool jstr nat nat
  | InNumber jstr
  | InWord jstr json
  | Finished json

type_synonym parser = "parse_mode \<times> parse_frame list"

definition put_property :: "jstr \<Rightarrow> 'v \<Rightarrow> (jstr \<times> 'v) list \<Rightarrow> (jstr \<times> 'v) list" where
  "put_property k v es = (if k \<in> fst ` set es then AList.update k v es else define_property k v es)"

fun deliver :: "json \<Rightarrow> parse_frame list \<Rightarrow> parser" where
  "deliver v [] = (Finished v, [])"
| "deliver v (InArray vs # S) = (AfterValue, InArray (vs @ [v]) # S)"
| "deliver v (InObject es k # S) = (AfterValue, InObject (put_property k v es) k # S)"

fun deliver_text :: "bool \<Rightarrow> jstr \<Rightarrow> parse_frame list \<Rightarrow> parser" where
  "deliver_text True s (InObject es _ # S) = (WantColon, InObject es s # S)"
| "deliver_text _ s S = deliver (JStr s) S"

fun close_frame :: "u16 \<Rightarrow> parse_frame list \<Rightarrow> parser option" where
  "close_frame u (InArray vs # S) = (if u = 93 then Some (deliver (JArr () PlainArray vs) S) else None)"
| "close_frame u (InObject es k # S) = (if u = 125 then Some (deliver (JObj () plain_object es) S) else None)"
| "close_frame u [] = None"

definition is_space :: "u16 \<Rightarrow> bool" where
  "is_space u \<longleftrightarrow> u = 32 \<or> u = 9 \<or> u = 10 \<or> u = 13"

definition start_value :: "u16 \<Rightarrow> parse_frame list \<Rightarrow> parser option" where
  "start_value u S =
     (if u = 34 then Some (InText False [], S)
      else if u = 91 then Some (WantValue True, InArray [] # S)
      else if u = 123 then Some (WantKey True, InObject [] [] # S)
      else if u = 45 \<or> is_digit u then Some (InNumber [u], S)
      else if u = 116 then Some (InWord (jlit ''rue'') (JBool True), S)
      else if u = 102 then Some (InWord (jlit ''alse'') (JBool False), S)
      else if u = 110 then Some (InWord (jlit ''ull'') JNull, S)
      else None)"

definition hex_value :: "u16 \<Rightarrow> nat option" where
  "hex_value u =
     (if is_digit u then Some (unat u - 48)
      else if 65 \<le> unat u \<and> unat u \<le> 70 then Some (unat u - 55)
      else if 97 \<le> unat u \<and> unat u \<le> 102 then Some (unat u - 87)
      else None)"

definition escaped_unit :: "u16 \<Rightarrow> u16 option" where
  "escaped_unit u =
     (if u = 34 \<or> u = 92 \<or> u = 47 then Some u
      else if u = 98 then Some 8 else if u = 102 then Some 12 else if u = 110 then Some 10
      else if u = 114 then Some 13 else if u = 116 then Some 9 else None)"

fun read_unit :: "u16 \<Rightarrow> parser \<Rightarrow> parser option" where
  "read_unit u (WantValue c, S) =
     (if is_space u then Some (WantValue c, S) else if u = 93 \<and> c then close_frame u S else start_value u S)"
| "read_unit u (WantKey c, S) =
     (if is_space u then Some (WantKey c, S) else if u = 34 then Some (InText True [], S)
      else if u = 125 \<and> c then close_frame u S else None)"
| "read_unit u (WantColon, S) =
     (if is_space u then Some (WantColon, S) else if u = 58 then Some (WantValue False, S) else None)"
| "read_unit u (AfterValue, S) =
     (if is_space u then Some (AfterValue, S)
      else if u = 44 then (case S of
          InArray _ # _ \<Rightarrow> Some (WantValue False, S)
        | InObject _ _ # _ \<Rightarrow> Some (WantKey False, S)
        | [] \<Rightarrow> None)
      else close_frame u S)"
| "read_unit u (InText key acc, S) =
     (if u = 34 then Some (deliver_text key acc S) else if u = 92 then Some (InEscape key acc, S)
      else if unat u < 32 then None else Some (InText key (acc @ [u]), S))"
| "read_unit u (InEscape key acc, S) =
     (if u = 117 then Some (InHex key acc 3 0, S)
      else map_option (\<lambda>v. (InText key (acc @ [v]), S)) (escaped_unit u))"
| "read_unit u (InHex key acc k n, S) = (case hex_value u of
      None \<Rightarrow> None
    | Some d \<Rightarrow> Some (case k of
          0 \<Rightarrow> (InText key (acc @ [word_of_nat (n * 16 + d)]), S)
        | Suc k \<Rightarrow> (InHex key acc k (n * 16 + d), S)))"
| "read_unit u (InWord w v, S) = (case w of
      [] \<Rightarrow> None
    | c # cs \<Rightarrow> if u \<noteq> c then None else if cs = [] then Some (deliver v S) else Some (InWord cs v, S))"
| "read_unit u (InNumber acc, S) = Some (InNumber (acc @ [u]), S)"
| "read_unit u (Finished v, S) = (if is_space u then Some (Finished v, S) else None)"

text \<open>A number ends with the first unit that cannot belong to it, or with the text.\<close>

fun settle :: "(jstr \<Rightarrow> js_number) \<Rightarrow> parser \<Rightarrow> parser option" where
  "settle read_double (InNumber acc, S) = map_option (\<lambda>x. deliver (JNum x) S) (number_value read_double acc)"
| "settle read_double st = Some st"

definition parse_unit :: "(jstr \<Rightarrow> js_number) \<Rightarrow> u16 \<Rightarrow> parser \<Rightarrow> parser option" where
  "parse_unit read_double u st =
     (if number_unit u then read_unit u st
      else (case settle read_double st of None \<Rightarrow> None | Some st \<Rightarrow> read_unit u st))"

fun parse_units :: "(jstr \<Rightarrow> js_number) \<Rightarrow> jstr \<Rightarrow> parser \<Rightarrow> parser option" where
  "parse_units read_double [] st = Some st"
| "parse_units read_double (u # us) st = (case parse_unit read_double u st of
      None \<Rightarrow> None
    | Some st \<Rightarrow> parse_units read_double us st)"

definition accepted :: "(jstr \<Rightarrow> js_number) \<Rightarrow> parser \<Rightarrow> json option" where
  "accepted read_double st = (case settle read_double st of Some (Finished v, []) \<Rightarrow> Some v | _ \<Rightarrow> None)"

definition parse_json :: "(jstr \<Rightarrow> js_number) \<Rightarrow> jstr \<Rightarrow> json option" where
  "parse_json read_double s = (case parse_units read_double s (WantValue False, []) of
      None \<Rightarrow> None
    | Some st \<Rightarrow> accepted read_double st)"

section \<open>Running above a level of the stack\<close>

text \<open>Like \<open>parse_units\<close>, but failing as soon as fewer than \<open>n\<close> frames are open.\<close>

fun run_above :: "nat \<Rightarrow> (jstr \<Rightarrow> js_number) \<Rightarrow> jstr \<Rightarrow> parser \<Rightarrow> parser option" where
  "run_above n rd [] st = Some st"
| "run_above n rd (u # us) st = (case parse_unit rd u st of
      None \<Rightarrow> None
    | Some st \<Rightarrow> if length (snd st) < n then None else run_above n rd us st)"

lemma run_above_append: "run_above n rd (us @ vs) st = (case run_above n rd us st of None \<Rightarrow> None | Some st \<Rightarrow> run_above n rd vs st)"
  by (induction us arbitrary: st) (auto split: option.splits)

lemma run_above_parse: "run_above n rd us st = Some st' \<Longrightarrow> parse_units rd us st = Some st'"
  by (induction us arbitrary: st) (auto split: option.splits if_splits)

lemma run_above_level: "run_above n rd us st = Some st' \<Longrightarrow> n \<le> length (snd st) \<Longrightarrow> n \<le> length (snd st')"
  by (induction us arbitrary: st) (auto split: option.splits if_splits)

lemma run_above_prefix: "run_above n rd (us @ vs) st = Some st' \<Longrightarrow> \<exists>st1. run_above n rd us st = Some st1"
  by (auto simp: run_above_append split: option.splits)

lemma parse_units_append: "parse_units rd (us @ vs) st = (case parse_units rd us st of None \<Rightarrow> None | Some st \<Rightarrow> parse_units rd vs st)"
  by (induction us arbitrary: st) (auto split: option.splits)

lemma deliver_level [simp]: "length (snd (deliver v S)) = length S"
  by (cases "(v, S)" rule: deliver.cases) simp_all

lemma settle_level: "settle rd st = Some st' \<Longrightarrow> length (snd st') = length (snd st)"
  by (cases "(rd, st)" rule: settle.cases) auto

lemma settle_delivered [simp]: "settle rd (deliver v S) = Some (deliver v S)"
  by (cases "(v, S)" rule: deliver.cases) simp_all

text \<open>A value that has been read, up to the end of its number.\<close>

lemma parse_unit_settled: "settle rd st = Some (deliver v S) \<Longrightarrow> \<not> number_unit u \<Longrightarrow> parse_unit rd u st = read_unit u (deliver v S)"
  by (simp add: parse_unit_def)

section \<open>Numerals\<close>

lemma unat_digit: "d < 10 \<Longrightarrow> unat (word_of_nat (48 + d) :: u16) = 48 + d"
  by (subst unat_of_nat) simp

lemma is_digit_of_nat: "d < 10 \<Longrightarrow> is_digit (word_of_nat (48 + d))"
  unfolding is_digit_def unat_digit by simp

lemma decimal_value_snoc: "decimal_value (s @ [u]) = decimal_value s * 10 + (unat u - 48)"
  by (simp add: decimal_value_def)

lemma show_nat_facts: "list_all is_digit (show_nat n) \<and> show_nat n \<noteq> [] \<and> decimal_value (show_nat n) = n
    \<and> (hd (show_nat n) = 48 \<longrightarrow> n = 0)"
proof (induction n rule: show_nat.induct)
  case (1 n)
  show ?case
  proof (cases "n < 10")
    case True
    have "show_nat n = [word_of_nat (48 + n)]" using True by (simp add: show_nat.simps [of n])
    moreover have "(word_of_nat (48 + n) :: u16) = 48 \<longrightarrow> n = 0"
    proof
      assume "(word_of_nat (48 + n) :: u16) = 48"
      then have "unat (word_of_nat (48 + n) :: u16) = unat (48 :: u16)" by (rule arg_cong)
      then show "n = 0" unfolding unat_digit [OF True] by simp
    qed
    ultimately show ?thesis
      using unat_digit [OF True] is_digit_of_nat [OF True] by (simp add: decimal_value_def)
  next
    case False
    have m: "n mod 10 < 10" by simp
    have eq: "show_nat n = show_nat (n div 10) @ [word_of_nat (48 + n mod 10)]" using False by (simp add: show_nat.simps [of n])
    from 1 [OF False] have IH: "list_all is_digit (show_nat (n div 10))" "show_nat (n div 10) \<noteq> []"
      "decimal_value (show_nat (n div 10)) = n div 10" "hd (show_nat (n div 10)) = 48 \<longrightarrow> n div 10 = 0" by simp_all
    have "decimal_value (show_nat n) = n"
      unfolding eq decimal_value_snoc IH(3) unat_digit [OF m] by simp
    moreover have "hd (show_nat n) \<noteq> 48" using IH(2,4) False by (auto simp: eq)
    ultimately show ?thesis using IH(1,2) is_digit_of_nat [OF m] by (simp add: eq)
  qed
qed

lemma digits_not_sign: "list_all is_digit s \<Longrightarrow> s \<noteq> [] \<Longrightarrow> strip_sign s = s"
  by (cases s) (auto simp: strip_sign_def is_digit_def)

lemma strip_minus [simp]: "strip_sign (45 # s) = s"
  by (simp add: strip_sign_def)

lemma takeWhile_digits: "list_all is_digit s \<Longrightarrow> takeWhile is_digit s = s \<and> dropWhile is_digit s = []"
  by (simp add: list_all_iff)

lemma show_nat_hd: "hd (show_nat n) = 48 \<Longrightarrow> length (show_nat n) = 1"
  using show_nat_facts [of n] by (auto simp: show_nat.simps [of 0])

lemma number_syntax_show_nat: "number_syntax (show_nat n)" "number_syntax (45 # show_nat n)"
proof -
  have digits: "list_all is_digit (show_nat n)" "show_nat n \<noteq> []" using show_nat_facts by simp_all
  note tw = takeWhile_digits [OF digits(1)]
  show "number_syntax (show_nat n)" "number_syntax (45 # show_nat n)"
    unfolding number_syntax_def Let_def strip_minus digits_not_sign [OF digits] conjunct1 [OF tw] conjunct2 [OF tw]
    using digits(2) show_nat_hd [of n] by (simp_all add: fraction_syntax_def)
qed

lemma number_value_show_int: "is_safe n \<Longrightarrow> number_value rd (show_int n) = Some (JInt n)"
proof -
  assume safe: "is_safe n"
  have minus: "jlit ''-'' = [45]" by (simp add: jlit_def)
  show ?thesis
  proof (cases "n < 0")
    case True
    let ?t = "show_nat (nat (- n))"
    have "show_int n = 45 # ?t" using True by (simp add: show_int_def minus)
    moreover have "list_all is_digit ?t" "decimal_value ?t = nat (- n)" using show_nat_facts by simp_all
    moreover have "?t \<noteq> 45 # ?t" by simp
    ultimately show ?thesis
      using True safe number_syntax_show_nat [of "nat (- n)"] by (simp add: number_value_def is_safe_def)
  next
    case False
    let ?t = "show_nat (nat n)"
    have t: "list_all is_digit ?t" "decimal_value ?t = nat n" "?t \<noteq> []" using show_nat_facts by simp_all
    have "show_int n = ?t" using False by (simp add: show_int_def)
    with False safe t number_syntax_show_nat [of "nat n"] digits_not_sign [OF t(1,3)] show ?thesis
      by (simp add: number_value_def is_safe_def)
  qed
qed

lemma digits_are_number_units: "list_all is_digit s \<Longrightarrow> list_all number_unit s"
  by (auto simp: list_all_iff number_unit_def)

lemma exponent_units: "exponent_syntax s \<Longrightarrow> list_all number_unit s"
  by (cases s) (auto simp: exponent_syntax_def number_unit_def list_all_iff Let_def split: list.splits if_splits)

lemma digits_then_units: "list_all number_unit (dropWhile is_digit r) \<Longrightarrow> list_all number_unit r"
  by (induction r) (auto simp: number_unit_def split: if_splits)

lemma fraction_units: "fraction_syntax s \<Longrightarrow> list_all number_unit s"
proof (cases s)
  case (Cons u r)
  assume fraction: "fraction_syntax s"
  show ?thesis
  proof (cases "u = 46")
    case True
    with fraction Cons have "exponent_syntax (dropWhile is_digit r)" by (simp add: fraction_syntax_def)
    from digits_then_units [OF exponent_units [OF this]] Cons True show ?thesis by (simp add: number_unit_def)
  next
    case False
    with fraction Cons have "exponent_syntax s" by (simp add: fraction_syntax_def)
    then show ?thesis by (rule exponent_units)
  qed
qed simp

lemma number_units: "number_syntax s \<Longrightarrow> list_all number_unit s"
proof -
  assume num: "number_syntax s"
  then have "fraction_syntax (dropWhile is_digit (strip_sign s))" by (simp add: number_syntax_def Let_def)
  from digits_then_units [OF fraction_units [OF this]] show ?thesis
    by (cases s) (auto simp: strip_sign_def number_unit_def split: if_splits)
qed

lemma number_start: "number_syntax s \<Longrightarrow> \<exists>u r. s = u # r \<and> (u = 45 \<or> is_digit u)"
  by (cases s) (auto simp: number_syntax_def strip_sign_def Let_def split: if_splits list.splits)

text \<open>The numbers that survive \<open>JSON.stringify\<close> and \<open>JSON.parse\<close>.\<close>

definition number_ok :: "(js_number \<Rightarrow> jstr) \<Rightarrow> (jstr \<Rightarrow> js_number) \<Rightarrow> js_number \<Rightarrow> bool" where
  "number_ok sn rd x \<longleftrightarrow> is_finite x \<and> x \<noteq> JDouble (2 ^ 63)
     \<and> ((\<forall>n. x = JInt n \<longrightarrow> \<not> is_safe n) \<longrightarrow> number_value rd (sn x) = Some x)"

lemma number_text_value:
  assumes "number_ok sn rd x"
  shows "number_value rd (number_text sn x) = Some x"
proof (cases x)
  case (JInt n)
  with assms show ?thesis by (auto simp: number_ok_def number_text_def number_value_show_int)
next
  case (JDouble w)
  have "unat w \<noteq> 2 ^ 63"
  proof
    assume "unat w = 2 ^ 63"
    then have "w = 2 ^ 63" by (simp add: word_unat_eq_iff)
    with assms JDouble show False by (simp add: number_ok_def)
  qed
  with assms JDouble show ?thesis by (simp add: number_ok_def number_text_def)
qed

lemma number_value_syntax: "number_value rd s = Some x \<Longrightarrow> number_syntax s"
  by (auto simp: number_value_def split: if_splits)

lemma run_number:
  assumes "list_all number_unit us" and "n \<le> length S"
  shows "run_above n rd us (InNumber acc, S) = Some (InNumber (acc @ us), S)"
  using assms(1) by (induction us arbitrary: acc) (use assms(2) in \<open>simp_all add: parse_unit_def\<close>)

lemma run_number_text:
  assumes "number_value rd t = Some x" and "n \<le> length S"
  shows "run_above n rd t (WantValue b, S) = Some (InNumber t, S)"
proof -
  from number_value_syntax [OF assms(1)] have num: "number_syntax t" .
  from number_start [OF num] obtain u r where t: "t = u # r" and u: "u = 45 \<or> is_digit u" by blast
  have other: "\<not> is_space u" "u \<noteq> 93" "u \<noteq> 34" "u \<noteq> 91" "u \<noteq> 123"
    using u by (auto simp: is_space_def is_digit_def)
  have "number_unit u" using u by (auto simp: number_unit_def)
  with other u have "parse_unit rd u (WantValue b, S) = Some (InNumber [u], S)"
    by (simp add: parse_unit_def start_value_def)
  with run_number [of r n S rd "[u]"] number_units [OF num] assms(2) show ?thesis by (simp add: t)
qed

section \<open>Strings\<close>

lemma parse_unit_direct [simp]:
  "parse_unit rd u (InText key acc, S) = read_unit u (InText key acc, S)"
  "parse_unit rd u (InEscape key acc, S) = read_unit u (InEscape key acc, S)"
  "parse_unit rd u (InHex key acc k n, S) = read_unit u (InHex key acc k n, S)"
  "parse_unit rd u (InWord w v, S) = read_unit u (InWord w v, S)"
  "parse_unit rd u (WantValue b, S) = read_unit u (WantValue b, S)"
  "parse_unit rd u (WantKey b, S) = read_unit u (WantKey b, S)"
  "parse_unit rd u (WantColon, S) = read_unit u (WantColon, S)"
  "parse_unit rd u (AfterValue, S) = read_unit u (AfterValue, S)"
  by (simp_all add: parse_unit_def)

lemma hex_value_digit: "d < 16 \<Longrightarrow> hex_value (hex_digit d) = Some d"
proof -
  assume d: "d < 16"
  have lo: "unat (word_of_nat (48 + d) :: u16) = 48 + d" and hi: "unat (word_of_nat (87 + d) :: u16) = 87 + d"
    using d by (subst unat_of_nat, simp)+
  show ?thesis
  proof (cases "d < 10")
    case True
    then have "hex_digit d = word_of_nat (48 + d)" by (simp add: hex_digit_def)
    with True lo show ?thesis unfolding hex_value_def is_digit_def by (simp only: lo) simp
  next
    case False
    then have "hex_digit d = word_of_nat (87 + d)" by (simp add: hex_digit_def)
    with False hi d show ?thesis unfolding hex_value_def is_digit_def by (simp only: hi) simp
  qed
qed

lemma hex_digits: "((n div 4096 * 16 + n div 256 mod 16) * 16 + n div 16 mod 16) * 16 + n mod 16 = (n :: nat)"
proof -
  have "n div 4096 = n div 256 div 16" "n div 256 = n div 16 div 16" by (simp_all add: div_mult2_eq [symmetric])
  then show ?thesis by (metis div_mult_mod_eq)
qed

lemma run_unicode_escape:
  assumes "n \<le> length S"
  shows "run_above n rd (unicode_escape u) (InText key acc, S) = Some (InText key (acc @ [u]), S)"
proof -
  have lt: "unat u div 4096 < 16" "unat u div 256 mod 16 < 16" "unat u div 16 mod 16 < 16" "unat u mod 16 < 16"
    using unat_u16_less [of u] by simp_all
  have three: "(3 :: nat) = Suc (Suc (Suc 0))" by simp
  show ?thesis
    using assms hex_digits [of "unat u"]
    by (simp add: unicode_escape_def Let_def hex_value_digit [OF lt(1)] hex_value_digit [OF lt(2)] hex_value_digit [OF lt(3)]
        hex_value_digit [OF lt(4)] three)
qed

lemma run_escape_unit:
  assumes "n \<le> length S"
  shows "run_above n rd (escape_unit u) (InText key acc, S) = Some (InText key (acc @ [u]), S)"
  using assms run_unicode_escape [OF assms]
  by (auto simp: escape_unit_def escaped_unit_def not_less)

lemma surrogate_plain: "is_high u \<or> is_low u \<Longrightarrow> u \<noteq> 34 \<and> u \<noteq> 92 \<and> \<not> unat u < 32"
  by (auto simp: is_high_def is_low_def)

lemma run_plain_unit:
  "n \<le> length S \<Longrightarrow> is_high u \<or> is_low u \<Longrightarrow> run_above n rd (u # us) (InText key acc, S) = run_above n rd us (InText key (acc @ [u]), S)"
  by (drule surrogate_plain) simp

lemma run_escape_string:
  assumes "n \<le> length S"
  shows "run_above n rd (escape_string s) (InText key acc, S) = Some (InText key (acc @ s), S)"
proof (induction s arbitrary: acc rule: escape_string.induct)
  case 1
  show ?case by simp
next
  case (2 u)
  show ?case using run_escape_unit [OF assms] by simp
next
  case (3 u v s)
  show ?case
  proof (cases "is_high u \<and> is_low v")
    case True
    with 3(1) [OF True, of "acc @ [u, v]"] assms show ?thesis
      by (simp del: run_above.simps add: run_plain_unit)
  next
    case False
    with 3(2) [OF False, of "acc @ [u]"] show ?thesis
      by (auto simp: run_above_append run_escape_unit [OF assms])
  qed
qed

lemma run_quoted_value:
  "n \<le> length S \<Longrightarrow> run_above n rd (quote_string s) (WantValue b, S) = Some (deliver (JStr s) S)"
  by (simp add: quote_string_def run_above_append run_escape_string is_space_def start_value_def)

lemma run_quoted_key:
  "n \<le> Suc (length S) \<Longrightarrow> run_above n rd (quote_string k) (WantKey b, InObject es k' # S) = Some (WantColon, InObject es k # S)"
  by (simp add: quote_string_def run_above_append run_escape_string is_space_def)

section \<open>Values\<close>

text \<open>JSON trees whose numbers survive and whose objects list their keys in the order of the language.\<close>

fun tree_ok :: "(js_number \<Rightarrow> jstr) \<Rightarrow> (jstr \<Rightarrow> js_number) \<Rightarrow> json \<Rightarrow> bool" where
  "tree_ok sn rd JNull = True"
| "tree_ok sn rd (JBool _) = True"
| "tree_ok sn rd (JStr _) = True"
| "tree_ok sn rd (JNum x) = number_ok sn rd x"
| "tree_ok sn rd (JArr _ k vs) = (k = PlainArray \<and> (\<forall>v \<in> set vs. tree_ok sn rd v))"
| "tree_ok sn rd (JObj _ k es) =
     (k = plain_object \<and> distinct (map fst es) \<and> keys_ordered es \<and> (\<forall>e \<in> set es. tree_ok sn rd (snd e)))"
| "tree_ok sn rd _ = False"

text \<open>The machine reads the text of the value in any context.\<close>

definition reads :: "(js_number \<Rightarrow> jstr) \<Rightarrow> (jstr \<Rightarrow> js_number) \<Rightarrow> json \<Rightarrow> bool" where
  "reads sn rd v \<longleftrightarrow> (\<exists>t. json_text sn v = Inr (Some t) \<and>
     (\<forall>n S b. n \<le> length S \<longrightarrow> (\<exists>st. run_above n rd t (WantValue b, S) = Some st \<and> settle rd st = Some (deliver v S))))"

lemma readsE:
  assumes "reads sn rd v"
  obtains t where "json_text sn v = Inr (Some t)"
    and "\<And>n S b. n \<le> length S \<Longrightarrow> \<exists>st. run_above n rd t (WantValue b, S) = Some st \<and> settle rd st = Some (deliver v S)"
  using assms by (auto simp: reads_def)

text \<open>A separator or a closing bracket ends the number in front of it.\<close>

lemma run_settled:
  assumes "settle rd st = Some (deliver v S)" and "\<not> number_unit u" and "n \<le> length S"
  shows "run_above n rd (u # us) st = run_above n rd (u # us) (deliver v S)"
proof -
  have "parse_unit rd u (deliver v S) = read_unit u (deliver v S)" by (rule parse_unit_settled [OF settle_delivered assms(2)])
  then show ?thesis by (simp add: parse_unit_settled [OF assms(1,2)])
qed

lemma separators [simp]: "\<not> number_unit 44" "\<not> number_unit 93" "\<not> number_unit 125"
  by (simp_all add: number_unit_def is_digit_def)

lemma read_elements:
  assumes "\<forall>v \<in> set vs. reads sn rd v"
  shows "\<exists>ts. json_elements sn vs = Inr ts \<and> length ts = length vs \<and> (\<forall>n S b acc. vs \<noteq> [] \<longrightarrow> n \<le> Suc (length S) \<longrightarrow>
    (\<exists>st. run_above n rd (join_with 44 ts) (WantValue b, InArray acc # S) = Some st
      \<and> settle rd st = Some (AfterValue, InArray (acc @ vs) # S)))"
  using assms
proof (induction vs)
  case Nil
  show ?case by simp
next
  case (Cons v vs)
  from Cons.prems have "reads sn rd v" by simp
  then obtain t where t: "json_text sn v = Inr (Some t)"
    and run: "\<And>n S b. n \<le> length S \<Longrightarrow> \<exists>st. run_above n rd t (WantValue b, S) = Some st \<and> settle rd st = Some (deliver v S)"
    by (elim readsE) (rule that)
  from Cons obtain ts where ts: "json_elements sn vs = Inr ts" "length ts = length vs"
    and rest: "\<And>n S b acc. vs \<noteq> [] \<Longrightarrow> n \<le> Suc (length S) \<Longrightarrow> \<exists>st. run_above n rd (join_with 44 ts) (WantValue b, InArray acc # S) = Some st
      \<and> settle rd st = Some (AfterValue, InArray (acc @ vs) # S)" by auto
  have "\<exists>st. run_above n rd (join_with 44 (t # ts)) (WantValue b, InArray acc # S) = Some st
      \<and> settle rd st = Some (AfterValue, InArray (acc @ v # vs) # S)" if n: "n \<le> Suc (length S)" for n S b acc
  proof -
    from run [of n "InArray acc # S" b] n obtain st where
      st: "run_above n rd t (WantValue b, InArray acc # S) = Some st" "settle rd st = Some (deliver v (InArray acc # S))" by auto
    show ?thesis
    proof (cases vs)
      case Nil
      with st ts show ?thesis by simp
    next
      case vs: (Cons v' vs')
      with ts obtain t' ts' where ts': "ts = t' # ts'" by (cases ts) auto
      have "run_above n rd (join_with 44 (t # ts)) (WantValue b, InArray acc # S)
          = run_above n rd (44 # join_with 44 ts) st" by (simp add: ts' run_above_append st(1) del: run_above.simps)
      also have "\<dots> = run_above n rd (44 # join_with 44 ts) (deliver v (InArray acc # S))"
        using n by (intro run_settled [OF st(2)]) simp_all
      also have "\<dots> = run_above n rd (join_with 44 ts) (WantValue False, InArray (acc @ [v]) # S)"
        using n by (simp add: is_space_def)
      finally show ?thesis using rest [of n S False "acc @ [v]"] n vs by simp
    qed
  qed
  with t ts show ?case by simp
qed

lemma read_members:
  assumes "\<forall>e \<in> set es. reads sn rd (snd e)"
  shows "\<exists>ts. json_members sn es = Inr ts \<and> length ts = length es \<and> (\<forall>n S b acc k0. es \<noteq> [] \<longrightarrow> n \<le> Suc (length S) \<longrightarrow>
    distinct (map fst (acc @ es)) \<longrightarrow> keys_ordered (acc @ es) \<longrightarrow>
    (\<exists>st k1. run_above n rd (join_with 44 ts) (WantKey b, InObject acc k0 # S) = Some st
      \<and> settle rd st = Some (AfterValue, InObject (acc @ es) k1 # S)))"
  using assms
proof (induction es)
  case Nil
  show ?case by simp
next
  case (Cons e es)
  obtain k v where e: "e = (k, v)" by fastforce
  with Cons.prems have "reads sn rd v" by simp
  then obtain t where t: "json_text sn v = Inr (Some t)"
    and run: "\<And>n S b. n \<le> length S \<Longrightarrow> \<exists>st. run_above n rd t (WantValue b, S) = Some st \<and> settle rd st = Some (deliver v S)"
    by (elim readsE) (rule that)
  from Cons obtain ts where ts: "json_members sn es = Inr ts" "length ts = length es"
    and rest: "\<And>n S b acc k0. es \<noteq> [] \<Longrightarrow> n \<le> Suc (length S) \<Longrightarrow> distinct (map fst (acc @ es)) \<Longrightarrow> keys_ordered (acc @ es) \<Longrightarrow>
      \<exists>st k1. run_above n rd (join_with 44 ts) (WantKey b, InObject acc k0 # S) = Some st
        \<and> settle rd st = Some (AfterValue, InObject (acc @ es) k1 # S)" by auto
  let ?m = "quote_string k @ jlit '':'' @ t"
  have "\<exists>st k1. run_above n rd (join_with 44 (?m # ts)) (WantKey b, InObject acc k0 # S) = Some st
      \<and> settle rd st = Some (AfterValue, InObject (acc @ e # es) k1 # S)"
    if n: "n \<le> Suc (length S)" and acc: "distinct (map fst (acc @ e # es))" "keys_ordered (acc @ e # es)" for n S b acc k0
  proof -
    have new: "put_property k v acc = acc @ [(k, v)]"
    proof -
      have "keys_ordered (acc @ [(k, v)])" using acc(2) by (simp add: keys_ordered_def sorted_wrt_append e)
      moreover have "k \<notin> fst ` set acc" using acc(1) by (auto simp: e)
      ultimately show ?thesis by (simp add: put_property_def keys_ordered_snoc)
    qed
    from run [of n "InObject acc k # S" False] n obtain st where
      st: "run_above n rd t (WantValue False, InObject acc k # S) = Some st"
        "settle rd st = Some (deliver v (InObject acc k # S))" by auto
    have colon: "run_above n rd (jlit '':'') (WantColon, InObject acc k # S) = Some (WantValue False, InObject acc k # S)"
      using n by (simp add: jlit_def is_space_def)
    have member: "run_above n rd ?m (WantKey b, InObject acc k0 # S) = Some st"
      using n by (simp add: run_above_append run_quoted_key colon st(1))
    show ?thesis
    proof (cases es)
      case Nil
      with st member ts new show ?thesis by (auto simp: e)
    next
      case es: (Cons e' es')
      with ts obtain t' ts' where ts': "ts = t' # ts'" by (cases ts) auto
      have "run_above n rd (join_with 44 (?m # ts)) (WantKey b, InObject acc k0 # S) = run_above n rd (44 # join_with 44 ts) st"
        using run_above_append [of n rd ?m "44 # join_with 44 ts"] member by (simp add: ts' del: run_above.simps)
      also have "\<dots> = run_above n rd (44 # join_with 44 ts) (deliver v (InObject acc k # S))"
        using n by (intro run_settled [OF st(2)]) simp_all
      also have "\<dots> = run_above n rd (join_with 44 ts) (WantKey False, InObject (acc @ [e]) k # S)"
        using n by (simp add: is_space_def new e)
      finally show ?thesis using rest [of n S "acc @ [e]" False k] n acc es by simp
    qed
  qed
  with t ts show ?case by (auto simp: e)
qed

lemma read_array:
  assumes "\<forall>v \<in> set vs. reads sn rd v"
  shows "reads sn rd (JArr () PlainArray vs)"
proof -
  from read_elements [OF assms] obtain ts where ts: "json_elements sn vs = Inr ts" "length ts = length vs"
    and run: "\<And>n S b acc. vs \<noteq> [] \<Longrightarrow> n \<le> Suc (length S) \<Longrightarrow> \<exists>st. run_above n rd (join_with 44 ts) (WantValue b, InArray acc # S) = Some st
      \<and> settle rd st = Some (AfterValue, InArray (acc @ vs) # S)" by blast
  have brackets: "jlit ''['' = [91]" "jlit '']'' = [93]" by (simp_all add: jlit_def)
  have "\<exists>st. run_above n rd (91 # join_with 44 ts @ [93]) (WantValue b, S) = Some st \<and> settle rd st = Some (deliver (JArr () PlainArray vs) S)"
    if n: "n \<le> length S" for n S b
  proof -
    have start: "run_above n rd (91 # join_with 44 ts @ [93]) (WantValue b, S) = run_above n rd (join_with 44 ts @ [93]) (WantValue True, InArray [] # S)"
      using n by (simp add: is_space_def start_value_def)
    show ?thesis
    proof (cases "vs = []")
      case True
      with ts n show ?thesis unfolding start by (simp add: is_space_def)
    next
      case False
      from run [OF this, of n S True "[]"] n obtain st where
        st: "run_above n rd (join_with 44 ts) (WantValue True, InArray [] # S) = Some st" "settle rd st = Some (AfterValue, InArray vs # S)"
        by auto
      have "parse_unit rd 93 st = read_unit 93 (AfterValue, InArray vs # S)" by (simp add: parse_unit_def st(2))
      with st(1) n show ?thesis unfolding start by (simp add: run_above_append is_space_def)
    qed
  qed
  with ts brackets show ?thesis by (simp add: reads_def)
qed

text \<open>The members of an object and its closing brace, with the object's frame open until the last unit.\<close>

lemma object_text:
  assumes "\<forall>e \<in> set es. reads sn rd (snd e)" and "distinct (map fst es)" and "keys_ordered es"
  obtains body where "json_text sn (JObj () plain_object es) = Inr (Some (123 # body @ [125]))"
    and "\<And>n S. n \<le> Suc (length S) \<Longrightarrow> \<exists>st. run_above n rd body (WantKey True, InObject [] [] # S) = Some st
      \<and> (n \<le> length S \<longrightarrow> run_above n rd (body @ [125]) (WantKey True, InObject [] [] # S) = Some (deliver (JObj () plain_object es) S))"
proof -
  from read_members [OF assms(1)] obtain ts where ts: "json_members sn es = Inr ts" "length ts = length es"
    and run: "\<And>n S b acc k0. es \<noteq> [] \<Longrightarrow> n \<le> Suc (length S) \<Longrightarrow> distinct (map fst (acc @ es)) \<Longrightarrow> keys_ordered (acc @ es) \<Longrightarrow>
      \<exists>st k1. run_above n rd (join_with 44 ts) (WantKey b, InObject acc k0 # S) = Some st
        \<and> settle rd st = Some (AfterValue, InObject (acc @ es) k1 # S)" by blast
  have brackets: "jlit ''{'' = [123]" "jlit ''}'' = [125]" by (simp_all add: jlit_def)
  have whole: "json_text sn (JObj () plain_object es) = Inr (Some (123 # join_with 44 ts @ [125]))" by (simp add: ts brackets)
  have body: "\<exists>st. run_above n rd (join_with 44 ts) (WantKey True, InObject [] [] # S) = Some st
      \<and> (n \<le> length S \<longrightarrow> run_above n rd (join_with 44 ts @ [125]) (WantKey True, InObject [] [] # S) = Some (deliver (JObj () plain_object es) S))"
    if n: "n \<le> Suc (length S)" for n S
  proof (cases "es = []")
    case True
    with ts show ?thesis by (simp add: is_space_def)
  next
    case False
    from run [OF this n, of "[]" True "[]"] assms(2,3) obtain st k1 where
      st: "run_above n rd (join_with 44 ts) (WantKey True, InObject [] [] # S) = Some st" "settle rd st = Some (AfterValue, InObject es k1 # S)"
      by auto
    have "parse_unit rd 125 st = read_unit 125 (AfterValue, InObject es k1 # S)" by (simp add: parse_unit_def st(2))
    with st(1) n show ?thesis by (simp add: run_above_append is_space_def)
  qed
  from whole body show ?thesis by (rule that)
qed

lemma read_object:
  assumes "\<forall>e \<in> set es. reads sn rd (snd e)" and "distinct (map fst es)" and "keys_ordered es"
  shows "reads sn rd (JObj () plain_object es)"
proof -
  from object_text [OF assms] obtain body where whole: "json_text sn (JObj () plain_object es) = Inr (Some (123 # body @ [125]))"
    and run: "\<And>n S. n \<le> Suc (length S) \<Longrightarrow> \<exists>st. run_above n rd body (WantKey True, InObject [] [] # S) = Some st
      \<and> (n \<le> length S \<longrightarrow> run_above n rd (body @ [125]) (WantKey True, InObject [] [] # S) = Some (deliver (JObj () plain_object es) S))"
    by metis
  have "run_above n rd (123 # body @ [125]) (WantValue b, S) = Some (deliver (JObj () plain_object es) S)" if "n \<le> length S" for n S b
    using run [of n S] that by (auto simp: is_space_def start_value_def is_digit_def)
  with whole show ?thesis by (simp add: reads_def del: json_text.simps run_above.simps split_paired_Ex)
qed

theorem tree_reads: "tree_ok sn rd v \<Longrightarrow> reads sn rd v"
proof (induction v)
  case JNull
  show ?case by (simp_all add: reads_def jlit_def is_space_def start_value_def is_digit_def del: split_paired_Ex)
next
  case (JBool b)
  show ?case by (cases b) (simp_all add: reads_def jlit_def is_space_def start_value_def is_digit_def del: split_paired_Ex)
next
  case (JNum x)
  then have "number_value rd (number_text sn x) = Some x" by (simp add: number_text_value)
  then show ?case by (auto simp: reads_def run_number_text simp del: split_paired_Ex)
next
  case (JStr s)
  show ?case by (simp add: reads_def run_quoted_value del: split_paired_Ex)
next
  case (JArr i k vs)
  then have "\<forall>v \<in> set vs. reads sn rd v" by simp
  from read_array [OF this] JArr.prems show ?case by simp
next
  case (JObj i k es)
  then have "\<forall>e \<in> set es. reads sn rd (snd e)" by (auto simp: prod_set_defs)
  from read_object [OF this] JObj.prems show ?case by simp
qed simp_all

text \<open>The text of a tree is read back, and it is a single line.\<close>

theorem parse_stringify:
  assumes "tree_ok sn rd v"
  obtains t where "json_text sn v = Inr (Some t)" and "parse_json rd t = Some v"
proof -
  from tree_reads [OF assms] obtain t where t: "json_text sn v = Inr (Some t)"
    and run: "\<And>n S b. n \<le> length S \<Longrightarrow> \<exists>st. run_above n rd t (WantValue b, S) = Some st \<and> settle rd st = Some (deliver v S)"
    by (elim readsE) (rule that)
  from run [of 0 "[]" False] obtain st where "run_above 0 rd t (WantValue False, []) = Some st" "settle rd st = Some (Finished v, [])"
    by auto
  then have "parse_json rd t = Some v" by (simp add: parse_json_def run_above_parse accepted_def)
  with t show ?thesis by (rule that)
qed

lemma read_unit_level:
  assumes "read_unit u st = Some st'" and "u \<noteq> 93" and "u \<noteq> 125"
  shows "length (snd st) \<le> length (snd st')"
proof -
  have delivered: "length (snd (deliver_text key acc S)) = length S" for key acc S
    by (cases "(key, acc, S)" rule: deliver_text.cases) simp_all
  have close: "close_frame u S = None" for S using assms(2,3) by (cases "(u, S)" rule: close_frame.cases) simp_all
  show ?thesis
    using assms by (cases "(u, st)" rule: read_unit.cases)
      (auto simp: delivered close start_value_def split: if_splits list.splits option.splits nat.splits parse_frame.splits)
qed

lemma not_accepted: "0 < length (snd st) \<Longrightarrow> accepted rd st = None"
  using settle_level [of rd st] by (auto simp: accepted_def split: option.splits parse_mode.splits list.splits)

text \<open>
  A strict prefix of the text of an object is not accepted, not even with the replacement character in place of a
  unit that was cut through.
\<close>

theorem object_prefix_rejected:
  assumes "tree_ok sn rd (JObj () plain_object es)" and "json_text sn (JObj () plain_object es) = Inr (Some t)"
    and "t = p @ q" and "q \<noteq> []" and "junk = [] \<or> junk = [0xFFFD]"
  shows "parse_json rd (p @ junk) = None"
proof -
  have reads: "\<forall>e \<in> set es. reads sn rd (snd e)" using assms(1) tree_reads by auto
  from object_text [OF reads] assms(1) obtain body where whole: "json_text sn (JObj () plain_object es) = Inr (Some (123 # body @ [125]))"
    and run: "\<And>n S. n \<le> Suc (length S) \<Longrightarrow> \<exists>st. run_above n rd body (WantKey True, InObject [] [] # S) = Some st"
    by (metis tree_ok.simps(6))
  show ?thesis
  proof (cases p)
    case Nil
    with assms(5) show ?thesis
      by (auto simp: parse_json_def accepted_def number_unit_def is_digit_def is_space_def start_value_def)
  next
    case (Cons u p')
    with assms(2,3) whole have p: "p = 123 # p'" and "body @ [125] = p' @ q" by simp_all
    with assms(4) obtain q' where body: "body = p' @ q'" by (cases q rule: rev_cases) auto
    from run [of 1 "[]"] obtain st where st: "run_above 1 rd p' (WantKey True, InObject [] [] # []) = Some st"
      by (auto simp: body dest: run_above_prefix)
    from run_above_level [OF this] have level: "0 < length (snd st)" by (cases "snd st") simp_all
    have start: "parse_units rd (p @ junk) (WantValue False, []) = parse_units rd junk st"
      using run_above_parse [OF st] by (simp add: p parse_units_append is_space_def start_value_def is_digit_def)
    have "case parse_units rd junk st of None \<Rightarrow> True | Some st' \<Rightarrow> 0 < length (snd st')"
    proof (cases "junk = []")
      case True
      with level show ?thesis by simp
    next
      case False
      with assms(5) have junk: "junk = [0xFFFD]" by simp
      have "length (snd st) \<le> length (snd st')" if "parse_unit rd 0xFFFD st = Some st'" for st'
      proof -
        have "\<not> number_unit 0xFFFD" by (simp add: number_unit_def is_digit_def)
        with that obtain st1 where st1: "settle rd st = Some st1" "read_unit 0xFFFD st1 = Some st'"
          by (cases "settle rd st") (simp_all add: parse_unit_def)
        from read_unit_level [OF st1(2)] settle_level [OF st1(1)] show ?thesis by simp
      qed
      with level show ?thesis by (auto simp: junk split: option.splits)
    qed
    with start not_accepted show ?thesis by (auto simp: parse_json_def split: option.splits)
  qed
qed

section \<open>One line\<close>

lemma escape_unit_line: "10 \<notin> set (escape_unit u)"
proof -
  have "10 \<notin> set (unicode_escape u)"
  proof -
    have "hex_digit d \<noteq> 10" if "d < 16" for d
      using hex_value_digit [OF that] by (auto simp: hex_value_def is_digit_def)
    then show ?thesis using unat_u16_less [of u] by (auto simp: unicode_escape_def Let_def dest: sym)
  qed
  then show ?thesis by (auto simp: escape_unit_def)
qed

lemma quote_string_line: "10 \<notin> set (quote_string s)"
proof -
  have "10 \<notin> set (escape_string s)"
    by (induction s rule: escape_string.induct) (auto simp: escape_unit_line is_high_def is_low_def)
  then show ?thesis by (simp add: quote_string_def)
qed

lemma join_with_line: "c \<noteq> 10 \<Longrightarrow> \<forall>t \<in> set ts. 10 \<notin> set t \<Longrightarrow> 10 \<notin> set (join_with c ts)"
  by (induction c ts rule: join_with.induct) auto

lemma number_text_line: "number_ok sn rd x \<Longrightarrow> 10 \<notin> set (number_text sn x)"
  using number_units [OF number_value_syntax [OF number_text_value [of sn rd x]]]
  by (auto simp: list_all_iff number_unit_def is_digit_def)

lemma text_is_one_line:
  fixes v :: json and vs :: "json list" and es :: "(jstr \<times> json) list"
  shows "tree_ok sn rd v \<Longrightarrow> json_text sn v = Inr (Some t) \<Longrightarrow> 10 \<notin> set t"
    and "\<forall>v \<in> set vs. tree_ok sn rd v \<Longrightarrow> json_elements sn vs = Inr ts \<Longrightarrow> \<forall>t \<in> set ts. 10 \<notin> set t"
    and "\<forall>e \<in> set es. tree_ok sn rd (snd e) \<Longrightarrow> json_members sn es = Inr ts \<Longrightarrow> \<forall>t \<in> set ts. 10 \<notin> set t"
proof (induction sn v and sn vs and sn es arbitrary: t and ts and ts rule: json_text_json_elements_json_members.induct)
  case (4 show_number b)
  then show ?case by (auto simp: jlit_def split: if_splits)
qed (auto simp: jlit_def quote_string_line number_text_line try_bind_eq_Inr simp: join_with_line split: option.splits)

end
