(* ===== verification/Jsonl_Codec.thy ===== *)
theory Jsonl_Codec
  imports Json_Parse Session_State
begin

text \<open>
  The lines of a session file (\<open>packages/agent/src/harness/session/jsonl/codec.ts\<close> and \<open>errors.ts\<close>): a header and
  one mutation per line, as JSON objects. The code checks the properties it needs of an entry or a record and
  casts the rest unchecked; how a typed entry or record is laid out as an object, and what such a cast makes of an
  object, is the argument \<open>object_views\<close>. \<open>JSON.stringify\<close> only throws on values that
  \<open>assertJsonSerializable\<close> has refused before.
\<close>

section \<open>Objects\<close>

type_synonym json_fields = "(jstr \<times> json) list"

record object_views =
  ov_entry_fields :: "entry \<Rightarrow> json_fields"
  ov_record_fields :: "lane_record \<Rightarrow> json_fields"
  ov_entry :: "json_fields \<Rightarrow> entry"
  ov_record :: "json_fields \<Rightarrow> lane_record"

text \<open>What printing and reading numbers is, for numbers that are not safe integers.\<close>

record number_format =
  nf_show :: "js_number \<Rightarrow> jstr"
  nf_read :: "jstr \<Rightarrow> js_number"

definition stringify_line :: "number_format \<Rightarrow> json_fields \<Rightarrow> jstr" where
  "stringify_line nf fs = (case json_text (nf_show nf) (JObj () plain_object fs) of
      Inr (Some t) \<Rightarrow> t @ [10]
    | _ \<Rightarrow> [10])"

text \<open>A property of an object literal whose value may be undefined, and the spread of an object into a literal.\<close>

definition optional :: "jstr \<Rightarrow> json option \<Rightarrow> json_fields" where
  "optional k v = (case v of None \<Rightarrow> [] | Some x \<Rightarrow> [(k, x)])"

definition spread :: "json_fields \<Rightarrow> json_fields \<Rightarrow> json_fields" where
  "spread fs gs = foldl (\<lambda>es (k, v). put_property k v es) fs gs"

definition nullable_id :: "jstr option \<Rightarrow> json" where
  "nullable_id i = (case i of None \<Rightarrow> JNull | Some s \<Rightarrow> JStr s)"

section \<open>Checks\<close>

definition ENTRY_TYPES :: "jstr list" where
  "ENTRY_TYPES = map jlit [''message'', ''model_change'', ''thinking_level_change'', ''active_tools_change'', ''compaction'',
     ''branch_summary'', ''custom'']"

definition RECORD_TYPES :: "jstr list" where
  "RECORD_TYPES = map jlit [''operation_started'', ''abort_requested'', ''operation_finished'', ''step_attempt'', ''tool_started'',
     ''queue_enqueued'', ''queue_cancelled'', ''write_deferred'', ''usage'']"

definition OPERATION_KINDS :: "jstr list" where
  "OPERATION_KINDS = map jlit [''run'', ''compaction'', ''navigation'']"

definition isObject :: "json \<Rightarrow> bool" where
  "isObject v = (case v of JObj _ _ _ \<Rightarrow> True | _ \<Rightarrow> False)"

definition parseObject :: "number_format \<Rightarrow> jstr \<Rightarrow> decode_fault + json_fields" where
  "parseObject nf line = (case parse_json (nf_read nf) line of
      None \<Rightarrow> Inl (SyntaxFault (jlit ''is not valid JSON''))
    | Some (JObj _ _ fs) \<Rightarrow> Inr fs
    | Some _ \<Rightarrow> Inl (SchemaFault (jlit ''is not a JSON object'')))"

definition invalid_field :: "jstr \<Rightarrow> decode_fault" where
  "invalid_field f = SchemaFault (jlit ''has invalid '' @ f)"

definition requireString :: "json option \<Rightarrow> jstr \<Rightarrow> decode_fault + jstr" where
  "requireString v f = (case v of Some (JStr s) \<Rightarrow> Inr s | _ \<Rightarrow> Inl (invalid_field f))"

text \<open>\<open>Number.isSafeInteger\<close>\<close>

definition safe_integer :: "json option \<Rightarrow> int option" where
  "safe_integer v = (case v of
      Some (JNum x) \<Rightarrow> (case integer_value x of Some n \<Rightarrow> if is_safe n then Some n else None | None \<Rightarrow> None)
    | _ \<Rightarrow> None)"

definition requireSequence :: "json option \<Rightarrow> decode_fault + int" where
  "requireSequence v = (case safe_integer v of
      None \<Rightarrow> Inl (invalid_field (jlit ''seq''))
    | Some n \<Rightarrow> if n \<le> 0 then Inl (invalid_field (jlit ''seq'')) else Inr n)"

definition requireTimestamp :: "json option \<Rightarrow> decode_fault + int" where
  "requireTimestamp v = (case safe_integer v of
      None \<Rightarrow> Inl (invalid_field (jlit ''timestamp''))
    | Some n \<Rightarrow> if n < 0 then Inl (invalid_field (jlit ''timestamp'')) else Inr n)"

definition requireNullableId :: "json option \<Rightarrow> jstr \<Rightarrow> decode_fault + jstr option" where
  "requireNullableId v f = (case v of
      Some JNull \<Rightarrow> Inr None
    | Some (JStr s) \<Rightarrow> Inr (Some s)
    | _ \<Rightarrow> Inl (invalid_field f))"

text \<open>An optional property that must be a string when it is there.\<close>

definition optionalString :: "json option \<Rightarrow> jstr \<Rightarrow> decode_fault + jstr option" where
  "optionalString v f = (case v of
      None \<Rightarrow> Inr None
    | Some (JStr s) \<Rightarrow> Inr (Some s)
    | _ \<Rightarrow> Inl (invalid_field f))"

section \<open>The header\<close>

record jsonl_header =
  jh_id :: jstr
  jh_createdAt :: int
  jh_cwd :: jstr
  jh_parentSessionId :: "jstr option"
  jh_legacyParentSessionPath :: "jstr option"
  jh_metadata :: "json_fields option"

record jsonl_metadata = session_metadata +
  jm_cwd :: jstr
  jm_path :: jstr
  jm_modifiedAt :: int
  jm_sourceFormat :: int
  jm_legacyParentSessionPath :: "jstr option"
  jm_metadata :: "json_fields option"

definition parseHeader :: "number_format \<Rightarrow> jstr \<Rightarrow> decode_fault + jsonl_header" where
  "parseHeader nf line =
     try_bind (parseObject nf line) (\<lambda>fs. let get = map_of fs in
     try_bind (throw_if (get (jlit ''kind'') \<noteq> Some (JStr (jlit ''header''))) (SchemaFault (jlit ''is not a header''))) (\<lambda>_.
     try_bind (throw_if (get (jlit ''version'') \<noteq> Some (JNum (JInt 4))) (SchemaFault (jlit ''has unsupported session version''))) (\<lambda>_.
     try_bind (optionalString (get (jlit ''parentSessionId'')) (jlit ''parentSessionId'')) (\<lambda>parentSessionId.
     try_bind (optionalString (get (jlit ''legacyParentSessionPath'')) (jlit ''legacyParentSessionPath'')) (\<lambda>legacy.
     try_bind (throw_if (parentSessionId \<noteq> None \<and> legacy \<noteq> None)
       (SchemaFault (jlit ''has both parentSessionId and legacyParentSessionPath''))) (\<lambda>_.
     try_bind (case get (jlit ''metadata'') of
         None \<Rightarrow> Inr None
       | Some (JObj _ _ md) \<Rightarrow> Inr (Some md)
       | _ \<Rightarrow> Inl (invalid_field (jlit ''metadata''))) (\<lambda>metadata.
     try_bind (requireString (get (jlit ''id'')) (jlit ''id'')) (\<lambda>i.
     try_bind (requireTimestamp (get (jlit ''createdAt''))) (\<lambda>createdAt.
     try_bind (requireString (get (jlit ''cwd'')) (jlit ''cwd'')) (\<lambda>cwd.
     Inr \<lparr>jh_id = i, jh_createdAt = createdAt, jh_cwd = cwd, jh_parentSessionId = parentSessionId,
       jh_legacyParentSessionPath = legacy, jh_metadata = metadata\<rparr>))))))))))"

definition header_fields :: "jsonl_header \<Rightarrow> json_fields" where
  "header_fields h =
     [(jlit ''kind'', JStr (jlit ''header'')), (jlit ''version'', JNum (JInt 4)), (jlit ''id'', JStr (jh_id h)),
      (jlit ''createdAt'', JNum (JInt (jh_createdAt h))), (jlit ''cwd'', JStr (jh_cwd h))]
     @ optional (jlit ''parentSessionId'') (map_option JStr (jh_parentSessionId h))
     @ optional (jlit ''legacyParentSessionPath'') (map_option JStr (jh_legacyParentSessionPath h))
     @ optional (jlit ''metadata'') (map_option (JObj () plain_object) (jh_metadata h))"

definition encodeHeader :: "number_format \<Rightarrow> jsonl_header \<Rightarrow> jstr" where
  "encodeHeader nf h = stringify_line nf (header_fields h)"

definition metadataFromHeader :: "jsonl_header \<Rightarrow> jstr \<Rightarrow> int \<Rightarrow> jsonl_metadata" where
  "metadataFromHeader h path modifiedAt =
     \<lparr>sm_id = jh_id h, sm_createdAt = jh_createdAt h, sm_parentSessionId = jh_parentSessionId h, jm_cwd = jh_cwd h,
      jm_path = path, jm_modifiedAt = modifiedAt, jm_sourceFormat = 4,
      jm_legacyParentSessionPath = jh_legacyParentSessionPath h, jm_metadata = jh_metadata h\<rparr>"

section \<open>Mutations\<close>

text \<open>\<open>{ ...fields, id, type, parentId, seq, timestamp }\<close>: the properties exist, so they keep their places.\<close>

definition parseEntryMutation :: "object_views \<Rightarrow> json_fields \<Rightarrow> int \<Rightarrow> decode_fault + session_mutation" where
  "parseEntryMutation V fs n = (let get = map_of fs in
     try_bind (case get (jlit ''lane'') of
         None \<Rightarrow> Inr None
       | v \<Rightarrow> try_bind (requireString v (jlit ''lane'')) (\<lambda>s. Inr (Some s))) (\<lambda>lane.
     try_bind (requireString (get (jlit ''id'')) (jlit ''id'')) (\<lambda>i.
     try_bind (requireString (get (jlit ''type'')) (jlit ''entry type'')) (\<lambda>t.
     try_bind (throw_if (t \<notin> set ENTRY_TYPES) (SchemaFault (jlit ''has unknown entry type '' @ t))) (\<lambda>_.
     try_bind (requireNullableId (get (jlit ''parentId'')) (jlit ''parentId'')) (\<lambda>parentId.
     try_bind (requireTimestamp (get (jlit ''timestamp''))) (\<lambda>timestamp.
     try_bind (if t = jlit ''custom'' then requireString (get (jlit ''customType'')) (jlit ''customType'') else Inr []) (\<lambda>_.
     Inr (MutEntry lane (ov_entry V (spread (filter (\<lambda>(k, _). k \<noteq> jlit ''kind'' \<and> k \<noteq> jlit ''lane'') fs)
       [(jlit ''id'', JStr i), (jlit ''type'', JStr t), (jlit ''parentId'', nullable_id parentId), (jlit ''seq'', JNum (JInt n)),
        (jlit ''timestamp'', JNum (JInt timestamp))])))))))))))"

definition parseRecordMutation :: "object_views \<Rightarrow> json_fields \<Rightarrow> int \<Rightarrow> decode_fault + session_mutation" where
  "parseRecordMutation V fs n = (let get = map_of fs in
     try_bind (requireString (get (jlit ''id'')) (jlit ''id'')) (\<lambda>i.
     try_bind (requireString (get (jlit ''lane'')) (jlit ''lane'')) (\<lambda>lane.
     try_bind (requireString (get (jlit ''type'')) (jlit ''record type'')) (\<lambda>t.
     try_bind (throw_if (t \<notin> set RECORD_TYPES) (SchemaFault (jlit ''has unknown record type '' @ t))) (\<lambda>_.
     try_bind (requireTimestamp (get (jlit ''timestamp''))) (\<lambda>timestamp.
     try_bind (if t = jlit ''operation_started'' then (case get (jlit ''intent'') of
         Some (JObj _ _ is) \<Rightarrow> try_bind (requireString (map_of is (jlit ''kind'')) (jlit ''operation kind'')) (\<lambda>k.
           throw_if (k \<notin> set OPERATION_KINDS) (SchemaFault (jlit ''has unknown operation kind '' @ k)))
       | _ \<Rightarrow> Inl (invalid_field (jlit ''intent''))) else Inr ()) (\<lambda>_.
     try_bind (if t = jlit ''operation_finished'' then requireString (get (jlit ''runId'')) (jlit ''runId'') else Inr []) (\<lambda>_.
     Inr (MutRecord (ov_record V (spread (filter (\<lambda>(k, _). k \<noteq> jlit ''kind'') fs)
       [(jlit ''id'', JStr i), (jlit ''lane'', JStr lane), (jlit ''type'', JStr t), (jlit ''seq'', JNum (JInt n)),
        (jlit ''timestamp'', JNum (JInt timestamp))])))))))))))"

definition parseLaneMutation :: "json_fields \<Rightarrow> int \<Rightarrow> decode_fault + session_mutation" where
  "parseLaneMutation fs n = (let get = map_of fs in
     try_bind (requireString (get (jlit ''lane'')) (jlit ''lane'')) (\<lambda>lane.
     try_bind (requireNullableId (get (jlit ''leafId'')) (jlit ''leafId'')) (\<lambda>leaf.
     Inr (MutLane n lane leaf))))"

definition parseFactMutation :: "json_fields \<Rightarrow> int \<Rightarrow> decode_fault + session_mutation" where
  "parseFactMutation fs n = (let get = map_of fs in
     if get (jlit ''fact'') = Some (JStr (jlit ''name''))
     then try_bind (optionalString (get (jlit ''name'')) (jlit ''name'')) (\<lambda>name. Inr (MutName n name))
     else if get (jlit ''fact'') = Some (JStr (jlit ''label''))
     then try_bind (optionalString (get (jlit ''label'')) (jlit ''label'')) (\<lambda>label.
       try_bind (requireString (get (jlit ''targetId'')) (jlit ''targetId'')) (\<lambda>target. Inr (MutLabel n target label)))
     else Inl (SchemaFault (jlit ''has unknown fact type'')))"

definition parseMutation :: "number_format \<Rightarrow> object_views \<Rightarrow> jstr \<Rightarrow> decode_fault + session_mutation" where
  "parseMutation nf V line =
     try_bind (parseObject nf line) (\<lambda>fs.
     try_bind (requireSequence (map_of fs (jlit ''seq''))) (\<lambda>n. let kind = map_of fs (jlit ''kind'') in
       if kind = Some (JStr (jlit ''entry'')) then parseEntryMutation V fs n
       else if kind = Some (JStr (jlit ''record'')) then parseRecordMutation V fs n
       else if kind = Some (JStr (jlit ''lane'')) then parseLaneMutation fs n
       else if kind = Some (JStr (jlit ''fact'')) then parseFactMutation fs n
       else Inl (SchemaFault (jlit ''has unknown mutation kind''))))"

text \<open>The object that \<open>encodeMutation\<close> prints.\<close>

fun mutation_fields :: "object_views \<Rightarrow> session_mutation \<Rightarrow> json_fields" where
  "mutation_fields V (MutEntry lane e) =
     spread ((jlit ''kind'', JStr (jlit ''entry'')) # optional (jlit ''lane'') (map_option JStr lane)) (ov_entry_fields V e)"
| "mutation_fields V (MutRecord r) = spread [(jlit ''kind'', JStr (jlit ''record''))] (ov_record_fields V r)"
| "mutation_fields V (MutLane n lane leaf) =
     [(jlit ''kind'', JStr (jlit ''lane'')), (jlit ''seq'', JNum (JInt n)), (jlit ''lane'', JStr lane), (jlit ''leafId'', nullable_id leaf)]"
| "mutation_fields V (MutName n name) =
     [(jlit ''kind'', JStr (jlit ''fact'')), (jlit ''seq'', JNum (JInt n)), (jlit ''fact'', JStr (jlit ''name''))]
     @ optional (jlit ''name'') (map_option JStr name)"
| "mutation_fields V (MutLabel n target label) =
     [(jlit ''kind'', JStr (jlit ''fact'')), (jlit ''seq'', JNum (JInt n)), (jlit ''fact'', JStr (jlit ''label'')),
      (jlit ''targetId'', JStr target)] @ optional (jlit ''label'') (map_option JStr label)"

definition encodeMutation :: "number_format \<Rightarrow> object_views \<Rightarrow> session_mutation \<Rightarrow> jstr" where
  "encodeMutation nf V m = stringify_line nf (mutation_fields V m)"

end
