(* ===== verification/Jsonl_Codec_Facts.thy ===== *)
theory Jsonl_Codec_Facts
  imports Jsonl_Codec
begin

text \<open>
  The codec of session files: what is written is read back, a line is a line, and a torn line is recognised.
\<close>

section \<open>Property keys\<close>

lemma jlit_inject [simp]: "jlit s = jlit t \<longleftrightarrow> s = t"
proof -
  have "inj (\<lambda>c. word_of_nat (of_char c) :: u16)"
  proof (rule injI)
    fix c d :: char
    assume eq: "(word_of_nat (of_char c) :: u16) = word_of_nat (of_char d)"
    have small: "of_char c < (2 ^ 16 :: nat)" for c :: char
    proof -
      have "of_char c = (of_char c mod 256 :: nat)" by simp
      then have "of_char c < (256 :: nat)" by linarith
      moreover have "(256 :: nat) < 2 ^ 16" by simp
      ultimately show ?thesis by (rule less_trans)
    qed
    from eq have "unat (word_of_nat (of_char c) :: u16) = unat (word_of_nat (of_char d) :: u16)" by simp
    then have "of_char c = (of_char d :: nat)" using small [of c] small [of d] by (simp add: unat_of_nat)
    then show "c = d" by simp
  qed
  then show ?thesis by (simp add: jlit_def inj_map_eq_map)
qed

lemma key_no_index: "\<not> list_all is_digit (jlit s) \<Longrightarrow> array_index (jlit s) = None"
  by (simp add: array_index_def)

lemma keys_no_index: "\<forall>e \<in> set es. array_index (fst e) = None \<Longrightarrow> keys_ordered es"
proof -
  assume no: "\<forall>e \<in> set es. array_index (fst e) = None"
  then have "\<forall>a \<in> set (map fst es). \<forall>b \<in> set (map fst es). key_before a b" by (auto simp: key_before_def)
  moreover have "\<forall>a \<in> set xs. \<forall>b \<in> set xs. P a b \<Longrightarrow> sorted_wrt P xs" for P and xs :: "jstr list"
    by (induction xs) auto
  ultimately show ?thesis by (simp add: keys_ordered_def)
qed

lemma spread_new:
  "distinct (map fst (fs @ gs)) \<Longrightarrow> \<forall>e \<in> set (fs @ gs). array_index (fst e) = None \<Longrightarrow> spread fs gs = fs @ gs"
proof (induction gs arbitrary: fs)
  case Nil
  show ?case by (simp add: spread_def)
next
  case (Cons g gs)
  obtain k v where g: "g = (k, v)" by fastforce
  have "keys_ordered (fs @ [(k, v)])" using Cons.prems(2) by (intro keys_no_index) (auto simp: g)
  moreover have "k \<notin> fst ` set fs" using Cons.prems(1) by (auto simp: g)
  ultimately have "put_property k v fs = fs @ [(k, v)]" by (simp add: put_property_def keys_ordered_snoc)
  moreover have "spread (fs @ [(k, v)]) gs = (fs @ [(k, v)]) @ gs" using Cons.prems by (intro Cons.IH) (auto simp: g)
  ultimately show ?case by (simp add: spread_def g)
qed

lemma update_same: "map_of al k = Some v \<Longrightarrow> AList.update k v al = al"
  by (induction al) (auto split: if_splits)

lemma spread_same: "\<forall>(k, v) \<in> set gs. map_of fs k = Some v \<Longrightarrow> spread fs gs = fs"
proof (induction gs)
  case Nil
  show ?case by (simp add: spread_def)
next
  case (Cons g gs)
  obtain k v where g: "g = (k, v)" by fastforce
  with Cons.prems have k: "map_of fs k = Some v" by simp
  then have "k \<in> fst ` set fs" by (metis domI dom_map_of_conv_image_fst)
  with k have "put_property k v fs = fs" by (simp add: put_property_def update_same)
  with Cons g show ?case by (simp add: spread_def)
qed

section \<open>What can be stored\<close>

definition fields_ok :: "number_format \<Rightarrow> json_fields \<Rightarrow> bool" where
  "fields_ok nf fs \<longleftrightarrow> distinct (map fst fs) \<and> (\<forall>e \<in> set fs. array_index (fst e) = None \<and> tree_ok (nf_show nf) (nf_read nf) (snd e))"

lemma fields_ok_tree: "fields_ok nf fs \<Longrightarrow> tree_ok (nf_show nf) (nf_read nf) (JObj () plain_object fs)"
  by (simp add: fields_ok_def keys_no_index)

fun entry_type_name :: "entry_type \<Rightarrow> jstr" where
  "entry_type_name MessageT = jlit ''message''"
| "entry_type_name ModelChangeT = jlit ''model_change''"
| "entry_type_name ThinkingLevelT = jlit ''thinking_level_change''"
| "entry_type_name ActiveToolsT = jlit ''active_tools_change''"
| "entry_type_name CompactionT = jlit ''compaction''"
| "entry_type_name BranchSummaryT = jlit ''branch_summary''"
| "entry_type_name CustomT = jlit ''custom''"

fun record_type_name :: "record_type \<Rightarrow> jstr" where
  "record_type_name OperationStartedT = jlit ''operation_started''"
| "record_type_name AbortRequestedT = jlit ''abort_requested''"
| "record_type_name OperationFinishedT = jlit ''operation_finished''"
| "record_type_name StepAttemptT = jlit ''step_attempt''"
| "record_type_name ToolStartedT = jlit ''tool_started''"
| "record_type_name QueueEnqueuedT = jlit ''queue_enqueued''"
| "record_type_name QueueCancelledT = jlit ''queue_cancelled''"
| "record_type_name WriteDeferredT = jlit ''write_deferred''"
| "record_type_name UsageT = jlit ''usage''"

definition stamp_ok :: "int \<Rightarrow> int \<Rightarrow> bool" where
  "stamp_ok n timestamp \<longleftrightarrow> 0 < n \<and> is_safe n \<and> 0 \<le> timestamp \<and> is_safe timestamp"

text \<open>
  The views agree on an entry: the object has the properties that the types promise, made of values that JSON can
  hold, and the cast of the object is the entry again.
\<close>

definition entry_storable :: "number_format \<Rightarrow> object_views \<Rightarrow> entry \<Rightarrow> bool" where
  "entry_storable nf V e \<longleftrightarrow> (let fs = ov_entry_fields V e in
     fields_ok nf fs \<and> jlit ''kind'' \<notin> fst ` set fs \<and> jlit ''lane'' \<notin> fst ` set fs
     \<and> map_of fs (jlit ''id'') = Some (JStr (entry_id e))
     \<and> map_of fs (jlit ''type'') = Some (JStr (entry_type_name (entry_type e)))
     \<and> map_of fs (jlit ''parentId'') = Some (nullable_id (entry_parentId e))
     \<and> map_of fs (jlit ''seq'') = Some (JNum (JInt (entry_seq e)))
     \<and> map_of fs (jlit ''timestamp'') = Some (JNum (JInt (entry_timestamp e)))
     \<and> (entry_type e = CustomT \<longrightarrow> (\<exists>s. map_of fs (jlit ''customType'') = Some (JStr s)))
     \<and> ov_entry V fs = e \<and> stamp_ok (entry_seq e) (entry_timestamp e))"

fun intent_name :: "intent_kind \<Rightarrow> jstr" where
  "intent_name RunK = jlit ''run''"
| "intent_name CompactionK = jlit ''compaction''"
| "intent_name NavigationK = jlit ''navigation''"

definition record_storable :: "number_format \<Rightarrow> object_views \<Rightarrow> lane_record \<Rightarrow> bool" where
  "record_storable nf V r \<longleftrightarrow> (let fs = ov_record_fields V r in
     fields_ok nf fs \<and> jlit ''kind'' \<notin> fst ` set fs
     \<and> map_of fs (jlit ''id'') = Some (JStr (rec_id r))
     \<and> map_of fs (jlit ''lane'') = Some (JStr (rec_lane r))
     \<and> map_of fs (jlit ''type'') = Some (JStr (record_type_name (record_type r)))
     \<and> map_of fs (jlit ''seq'') = Some (JNum (JInt (rec_seq r)))
     \<and> map_of fs (jlit ''timestamp'') = Some (JNum (JInt (rec_timestamp r)))
     \<and> (\<forall>source intent. rec_body r = OperationStarted source intent \<longrightarrow> (\<exists>i k is. map_of fs (jlit ''intent'') = Some (JObj i k is)
          \<and> map_of is (jlit ''kind'') = Some (JStr (intent_name (kind_of_intent intent)))))
     \<and> (\<forall>runId outcome err. rec_body r = OperationFinished runId outcome err \<longrightarrow> map_of fs (jlit ''runId'') = Some (JStr runId))
     \<and> ov_record V fs = r \<and> stamp_ok (rec_seq r) (rec_timestamp r))"

definition storable :: "number_format \<Rightarrow> object_views \<Rightarrow> session_mutation \<Rightarrow> bool" where
  "storable nf V m \<longleftrightarrow> 0 < mutation_seq m \<and> is_safe (mutation_seq m) \<and> (case m of
      MutEntry _ e \<Rightarrow> entry_storable nf V e
    | MutRecord r \<Rightarrow> record_storable nf V r
    | _ \<Rightarrow> True)"

lemma number_ok_safe: "is_safe n \<Longrightarrow> number_ok sn rd (JInt n)"
  by (auto simp: number_ok_def)

lemma optional_set: "e \<in> set (optional k v) \<longleftrightarrow> (\<exists>x. v = Some x \<and> e = (k, x))"
  by (auto simp: optional_def split: option.splits)

lemma tree_ok_nullable [simp]: "tree_ok sn rd (nullable_id i)"
  by (cases i) (simp_all add: nullable_id_def)

lemma key_facts [simp]:
  "array_index (jlit ''kind'') = None" "array_index (jlit ''lane'') = None" "array_index (jlit ''seq'') = None"
  "array_index (jlit ''leafId'') = None" "array_index (jlit ''fact'') = None" "array_index (jlit ''name'') = None"
  "array_index (jlit ''label'') = None" "array_index (jlit ''targetId'') = None"
  "array_index (jlit ''version'') = None" "array_index (jlit ''id'') = None" "array_index (jlit ''createdAt'') = None"
  "array_index (jlit ''cwd'') = None" "array_index (jlit ''parentSessionId'') = None"
  "array_index (jlit ''legacyParentSessionPath'') = None" "array_index (jlit ''metadata'') = None"
  by (rule key_no_index, simp add: jlit_def is_digit_def)+

section \<open>The object of a mutation\<close>

lemma entry_object:
  assumes "entry_storable nf V e"
  shows "mutation_fields V (MutEntry lane e)
      = ((jlit ''kind'', JStr (jlit ''entry'')) # optional (jlit ''lane'') (map_option JStr lane)) @ ov_entry_fields V e"
    and "fields_ok nf (mutation_fields V (MutEntry lane e))"
proof -
  let ?head = "(jlit ''kind'', JStr (jlit ''entry'')) # optional (jlit ''lane'') (map_option JStr lane)"
  have fs: "fields_ok nf (ov_entry_fields V e)" "jlit ''kind'' \<notin> fst ` set (ov_entry_fields V e)"
    "jlit ''lane'' \<notin> fst ` set (ov_entry_fields V e)"
    using assms by (simp_all add: entry_storable_def Let_def)
  then have ok: "fields_ok nf (?head @ ov_entry_fields V e)"
    by (cases lane) (auto simp: fields_ok_def optional_def)
  then have "spread ?head (ov_entry_fields V e) = ?head @ ov_entry_fields V e"
    unfolding fields_ok_def by (intro spread_new) auto
  with ok show "mutation_fields V (MutEntry lane e) = ?head @ ov_entry_fields V e" "fields_ok nf (mutation_fields V (MutEntry lane e))"
    by simp_all
qed

lemma record_object:
  assumes "record_storable nf V r"
  shows "mutation_fields V (MutRecord r) = (jlit ''kind'', JStr (jlit ''record'')) # ov_record_fields V r"
    and "fields_ok nf (mutation_fields V (MutRecord r))"
proof -
  let ?head = "[(jlit ''kind'', JStr (jlit ''record''))]"
  have fs: "fields_ok nf (ov_record_fields V r)" "jlit ''kind'' \<notin> fst ` set (ov_record_fields V r)"
    using assms by (simp_all add: record_storable_def Let_def)
  then have ok: "fields_ok nf (?head @ ov_record_fields V r)" by (auto simp: fields_ok_def)
  then have "spread ?head (ov_record_fields V r) = ?head @ ov_record_fields V r"
    unfolding fields_ok_def by (intro spread_new) auto
  with ok show "mutation_fields V (MutRecord r) = (jlit ''kind'', JStr (jlit ''record'')) # ov_record_fields V r"
    "fields_ok nf (mutation_fields V (MutRecord r))" by simp_all
qed

lemma storable_fields: "storable nf V m \<Longrightarrow> fields_ok nf (mutation_fields V m)"
proof (cases m)
  case (MutEntry lane e)
  assume "storable nf V m"
  with MutEntry entry_object(2) [of nf V e lane] show ?thesis by (simp add: storable_def del: mutation_fields.simps)
next
  case (MutRecord r)
  assume "storable nf V m"
  with MutRecord record_object(2) [of nf V r] show ?thesis by (simp add: storable_def del: mutation_fields.simps)
qed (auto simp: storable_def fields_ok_def optional_set number_ok_safe optional_def split: option.splits)

section \<open>Reading the object back\<close>

lemma safe_integer_number [simp]: "safe_integer (Some (JNum (JInt n))) = (if is_safe n then Some n else None)"
  by (simp add: safe_integer_def)

lemma requireNullableId_nullable [simp]: "requireNullableId (Some (nullable_id i)) f = Inr i"
  by (cases i) (simp_all add: requireNullableId_def nullable_id_def)

lemma requireString_text [simp]: "requireString (Some (JStr s)) f = Inr s"
  by (simp add: requireString_def)

lemma map_of_optional: "map_of (optional k v) k' = (if k = k' then v else None)"
  by (simp add: optional_def split: option.splits)

lemma optionalString_text [simp]: "optionalString (map_option JStr s) f = Inr s"
  by (cases s) (simp_all add: optionalString_def)

lemma filter_keys: "\<forall>k \<in> ks. k \<notin> fst ` set fs \<Longrightarrow> filter (\<lambda>(k, _). k \<notin> ks) fs = fs"
  by (rule filter_True) force

lemma parse_entry_fields:
  assumes "entry_storable nf V e"
  shows "parseEntryMutation V (mutation_fields V (MutEntry lane e)) (entry_seq e) = Inr (MutEntry lane e)"
proof -
  let ?fs = "ov_entry_fields V e"
  define all where "all = ((jlit ''kind'', JStr (jlit ''entry'')) # optional (jlit ''lane'') (map_option JStr lane)) @ ?fs"
  have object: "mutation_fields V (MutEntry lane e) = all" unfolding all_def by (rule entry_object(1) [OF assms])
  note e = assms [unfolded entry_storable_def Let_def]
  have fresh: "map_of ?fs (jlit ''lane'') = None" using e by (simp add: map_of_eq_None_iff)
  have lane: "map_of all (jlit ''lane'') = map_option JStr lane"
    by (cases lane) (simp_all add: all_def optional_def fresh)
  have get: "map_of all k = map_of ?fs k" if "k \<noteq> jlit ''kind''" "k \<noteq> jlit ''lane''" for k
    using that by (auto simp: all_def map_add_def map_of_optional split: option.splits)
  have "filter (\<lambda>(k, _). k \<noteq> jlit ''kind'' \<and> k \<noteq> jlit ''lane'') all = filter (\<lambda>(k, _). k \<notin> {jlit ''kind'', jlit ''lane''}) ?fs"
    by (cases lane) (simp_all add: all_def optional_def)
  also have "\<dots> = ?fs" using e by (intro filter_keys) auto
  finally have kept: "filter (\<lambda>(k, _). k \<noteq> jlit ''kind'' \<and> k \<noteq> jlit ''lane'') all = ?fs" .
  have known: "entry_type_name t \<in> set ENTRY_TYPES" for t by (cases t) (simp_all add: ENTRY_TYPES_def)
  have custom: "entry_type_name t = jlit ''custom'' \<longleftrightarrow> t = CustomT" for t by (cases t) simp_all
  have same: "spread ?fs [(jlit ''id'', JStr (entry_id e)), (jlit ''type'', JStr (entry_type_name (entry_type e))),
      (jlit ''parentId'', nullable_id (entry_parentId e)), (jlit ''seq'', JNum (JInt (entry_seq e))),
      (jlit ''timestamp'', JNum (JInt (entry_timestamp e)))] = ?fs"
    using e by (intro spread_same) simp
  have stamp: "is_safe (entry_timestamp e)" "0 \<le> entry_timestamp e" using e by (simp_all add: stamp_ok_def)
  have laned: "(case map_option JStr lane of None \<Rightarrow> Inr None
      | Some x \<Rightarrow> try_bind (requireString (Some x) (jlit ''lane'')) (\<lambda>s. Inr (Some s))) = Inr lane"
    by (cases lane) simp_all
  show ?thesis
    unfolding object parseEntryMutation_def Let_def lane kept
    using e same stamp laned known [of "entry_type e"] custom [of "entry_type e"]
    by (auto simp: get requireTimestamp_def)
qed

lemma parse_record_fields:
  assumes "record_storable nf V r"
  shows "parseRecordMutation V (mutation_fields V (MutRecord r)) (rec_seq r) = Inr (MutRecord r)"
proof -
  let ?fs = "ov_record_fields V r"
  define all where "all = (jlit ''kind'', JStr (jlit ''record'')) # ?fs"
  have object: "mutation_fields V (MutRecord r) = all" unfolding all_def by (rule record_object(1) [OF assms])
  note r = assms [unfolded record_storable_def Let_def]
  have get: "map_of all k = map_of ?fs k" if "k \<noteq> jlit ''kind''" for k
    using that by (simp add: all_def)
  have "filter (\<lambda>(k, _). k \<noteq> jlit ''kind'') all = filter (\<lambda>(k, _). k \<notin> {jlit ''kind''}) ?fs" by (simp add: all_def)
  also have "\<dots> = ?fs" using r by (intro filter_keys) auto
  finally have kept: "filter (\<lambda>(k, _). k \<noteq> jlit ''kind'') all = ?fs" .
  have known: "record_type_name t \<in> set RECORD_TYPES" for t by (cases t) (simp_all add: RECORD_TYPES_def)
  have started: "record_type_name (record_type r) = jlit ''operation_started'' \<longleftrightarrow> (\<exists>source intent. rec_body r = OperationStarted source intent)"
    and finished: "record_type_name (record_type r) = jlit ''operation_finished'' \<longleftrightarrow> (\<exists>runId outcome err. rec_body r = OperationFinished runId outcome err)"
    by (cases "rec_body r"; simp)+
  have kinds: "intent_name k \<in> set OPERATION_KINDS" for k by (cases k) (simp_all add: OPERATION_KINDS_def)
  have same: "spread ?fs [(jlit ''id'', JStr (rec_id r)), (jlit ''lane'', JStr (rec_lane r)),
      (jlit ''type'', JStr (record_type_name (record_type r))), (jlit ''seq'', JNum (JInt (rec_seq r))),
      (jlit ''timestamp'', JNum (JInt (rec_timestamp r)))] = ?fs"
    using r by (intro spread_same) simp
  have stamp: "is_safe (rec_timestamp r)" "0 \<le> rec_timestamp r" using r by (simp_all add: stamp_ok_def)
  show ?thesis
    unfolding object parseRecordMutation_def Let_def kept
    using r same stamp kinds known [of "record_type r"] started finished
    by (auto simp: get requireTimestamp_def)
qed

lemma parse_fields:
  assumes "storable nf V m" and "parseObject nf line = Inr (mutation_fields V m)"
  shows "parseMutation nf V line = Inr m"
proof -
  have n: "is_safe (mutation_seq m)" "0 < mutation_seq m" using assms(1) by (simp_all add: storable_def)
  show ?thesis
  proof (cases m)
    case (MutEntry lane e)
    with assms(1) have e: "entry_storable nf V e" by (simp add: storable_def)
    then have "map_of (ov_entry_fields V e) (jlit ''seq'') = Some (JNum (JInt (entry_seq e)))" by (simp add: entry_storable_def Let_def)
    with entry_object(1) [OF e, of lane] have "map_of (mutation_fields V m) (jlit ''seq'') = Some (JNum (JInt (entry_seq e)))"
      "map_of (mutation_fields V m) (jlit ''kind'') = Some (JStr (jlit ''entry''))"
      unfolding MutEntry by (simp_all add: map_add_def map_of_optional del: mutation_fields.simps)
    with assms(2) n parse_entry_fields [OF e, of lane] show ?thesis
      by (simp add: parseMutation_def requireSequence_def MutEntry del: mutation_fields.simps)
  next
    case (MutRecord r)
    with assms(1) have r: "record_storable nf V r" by (simp add: storable_def)
    then have "map_of (ov_record_fields V r) (jlit ''seq'') = Some (JNum (JInt (rec_seq r)))" by (simp add: record_storable_def Let_def)
    with record_object(1) [OF r] have "map_of (mutation_fields V m) (jlit ''seq'') = Some (JNum (JInt (rec_seq r)))"
      "map_of (mutation_fields V m) (jlit ''kind'') = Some (JStr (jlit ''record''))"
      unfolding MutRecord by (simp_all del: mutation_fields.simps)
    with assms(2) n parse_record_fields [OF r] show ?thesis
      by (simp add: parseMutation_def requireSequence_def MutRecord del: mutation_fields.simps)
  qed (use assms(2) n in \<open>simp_all add: parseMutation_def requireSequence_def parseLaneMutation_def parseFactMutation_def map_of_optional\<close>)
qed

section \<open>Lines\<close>

text \<open>
  What the storage needs of the codec of its lines: a line that was written is one line, it is read back, and
  what is left of it when the write was cut short is a syntax error (\<open>torn\<close>), even with a replacement character in
  place of a unit that was cut through.
\<close>

definition torn_of :: "jstr \<Rightarrow> jstr \<Rightarrow> bool" where
  "torn_of l t \<longleftrightarrow> (\<exists>p q junk. l = p @ q \<and> q \<noteq> [] \<and> (junk = [] \<or> junk = [0xFFFD]) \<and> t = p @ junk)"

locale line_codec =
  fixes encode :: "'m \<Rightarrow> jstr" and decode :: "jstr \<Rightarrow> decode_fault + 'm" and good :: "'m \<Rightarrow> bool"
  assumes good_line: "good m \<Longrightarrow> \<exists>l. encode m = l @ [10] \<and> 10 \<notin> set l \<and> l \<noteq> [] \<and> decode l = Inr m"
    and good_torn: "good m \<Longrightarrow> encode m = l @ [10] \<Longrightarrow> torn_of l t \<Longrightarrow> \<exists>err. decode t = Inl (SyntaxFault err)"

lemma stringify_line_facts:
  assumes "fields_ok nf fs"
  shows "\<exists>l. stringify_line nf fs = l @ [10] \<and> 10 \<notin> set l \<and> l \<noteq> [] \<and> parseObject nf l = Inr fs"
proof -
  note tree = fields_ok_tree [OF assms]
  from parse_stringify [OF tree] obtain t where t: "json_text (nf_show nf) (JObj () plain_object fs) = Inr (Some t)"
    and parsed: "parse_json (nf_read nf) t = Some (JObj () plain_object fs)" .
  have "10 \<notin> set t" by (rule text_is_one_line(1) [OF tree t])
  moreover have "t \<noteq> []" using parsed by (auto simp: parse_json_def accepted_def)
  moreover have "stringify_line nf fs = t @ [10]" by (simp only: stringify_line_def t) simp
  ultimately show ?thesis using parsed by (auto simp: parseObject_def)
qed

lemma stringify_line_torn:
  assumes "fields_ok nf fs" and "stringify_line nf fs = l @ [10]" and "torn_of l t"
  shows "\<exists>err. parseObject nf t = Inl (SyntaxFault err)"
proof -
  note tree = fields_ok_tree [OF assms(1)]
  from parse_stringify [OF tree] obtain u where u: "json_text (nf_show nf) (JObj () plain_object fs) = Inr (Some u)" by metis
  then have "stringify_line nf fs = u @ [10]" by (simp only: stringify_line_def u) simp
  with assms(2) have "u = l" by simp
  with u have whole: "json_text (nf_show nf) (JObj () plain_object fs) = Inr (Some l)" by simp
  from assms(3) obtain p q junk where "l = p @ q" "q \<noteq> []" "junk = [] \<or> junk = [0xFFFD]" "t = p @ junk"
    by (auto simp: torn_of_def)
  with object_prefix_rejected [OF tree whole, of p q junk] have "parse_json (nf_read nf) t = None" by simp
  then show ?thesis by (simp add: parseObject_def)
qed

interpretation mutations: line_codec "encodeMutation nf V" "parseMutation nf V" "storable nf V" for nf V
proof
  fix m
  assume m: "storable nf V m"
  from stringify_line_facts [OF storable_fields [OF m]] obtain l where
    l: "encodeMutation nf V m = l @ [10]" "10 \<notin> set l" "l \<noteq> []" and "parseObject nf l = Inr (mutation_fields V m)"
    by (auto simp: encodeMutation_def)
  from parse_fields [OF m this(4)] l show "\<exists>l. encodeMutation nf V m = l @ [10] \<and> 10 \<notin> set l \<and> l \<noteq> [] \<and> parseMutation nf V l = Inr m"
    by blast
next
  fix m l t
  assume m: "storable nf V m" and line: "encodeMutation nf V m = l @ [10]" "torn_of l t"
  from stringify_line_torn [OF storable_fields [OF m] line(1) [unfolded encodeMutation_def] line(2)]
  show "\<exists>err. parseMutation nf V t = Inl (SyntaxFault err)" by (auto simp: parseMutation_def)
qed

section \<open>The header\<close>

definition header_ok :: "number_format \<Rightarrow> jsonl_header \<Rightarrow> bool" where
  "header_ok nf h \<longleftrightarrow> 0 \<le> jh_createdAt h \<and> is_safe (jh_createdAt h)
     \<and> (jh_parentSessionId h = None \<or> jh_legacyParentSessionPath h = None)
     \<and> (\<forall>md. jh_metadata h = Some md \<longrightarrow> tree_ok (nf_show nf) (nf_read nf) (JObj () plain_object md))"

lemma header_fields_ok: "header_ok nf h \<Longrightarrow> fields_ok nf (header_fields h)"
proof -
  assume h: "header_ok nf h"
  have four: "is_safe 4" by (simp add: is_safe_def max_safe_def)
  show ?thesis
    using h by (auto simp: header_ok_def fields_ok_def header_fields_def optional_def number_ok_safe four simp del: tree_ok.simps(6)
        split: option.splits)
qed

lemma header_get:
  "map_of (header_fields h) (jlit ''kind'') = Some (JStr (jlit ''header''))"
  "map_of (header_fields h) (jlit ''version'') = Some (JNum (JInt 4))"
  "map_of (header_fields h) (jlit ''id'') = Some (JStr (jh_id h))"
  "map_of (header_fields h) (jlit ''createdAt'') = Some (JNum (JInt (jh_createdAt h)))"
  "map_of (header_fields h) (jlit ''cwd'') = Some (JStr (jh_cwd h))"
  "map_of (header_fields h) (jlit ''parentSessionId'') = map_option JStr (jh_parentSessionId h)"
  "map_of (header_fields h) (jlit ''legacyParentSessionPath'') = map_option JStr (jh_legacyParentSessionPath h)"
  "map_of (header_fields h) (jlit ''metadata'') = map_option (JObj () plain_object) (jh_metadata h)"
  by (simp_all add: header_fields_def map_of_optional map_add_def split: option.splits)

lemma parse_header_fields:
  assumes "header_ok nf h" and "parseObject nf line = Inr (header_fields h)"
  shows "parseHeader nf line = Inr h"
proof -
  have metadata: "(case map_option (JObj () plain_object) (jh_metadata h) of
       None \<Rightarrow> Inr None | Some (JObj _ _ md) \<Rightarrow> Inr (Some md) | _ \<Rightarrow> Inl (invalid_field (jlit ''metadata''))) = Inr (jh_metadata h)"
    by (cases "jh_metadata h") simp_all
  have h: "0 \<le> jh_createdAt h" "is_safe (jh_createdAt h)" "jh_parentSessionId h = None \<or> jh_legacyParentSessionPath h = None"
    using assms(1) by (simp_all add: header_ok_def)
  then show ?thesis
    unfolding parseHeader_def assms(2) try_bind_simps Let_def header_get metadata
    by (auto simp: requireTimestamp_def)
qed

interpretation headers: line_codec "encodeHeader nf" "parseHeader nf" "header_ok nf" for nf
proof
  fix h
  assume h: "header_ok nf h"
  from stringify_line_facts [OF header_fields_ok [OF h]] obtain l where
    l: "encodeHeader nf h = l @ [10]" "10 \<notin> set l" "l \<noteq> []" and "parseObject nf l = Inr (header_fields h)"
    by (auto simp: encodeHeader_def)
  from parse_header_fields [OF h this(4)] l show "\<exists>l. encodeHeader nf h = l @ [10] \<and> 10 \<notin> set l \<and> l \<noteq> [] \<and> parseHeader nf l = Inr h"
    by blast
next
  fix h l t
  assume h: "header_ok nf h" and line: "encodeHeader nf h = l @ [10]" "torn_of l t"
  from stringify_line_torn [OF header_fields_ok [OF h] line(1) [unfolded encodeHeader_def] line(2)]
  show "\<exists>err. parseHeader nf t = Inl (SyntaxFault err)" by (auto simp: parseHeader_def)
qed

end
