(* ===== verification/Jsonl_Storage.thy ===== *)
theory Jsonl_Storage
  imports Jsonl_Codec_Facts Session_Facade
begin

text \<open>
  The storage of a session in a file (\<open>packages/agent/src/harness/session/jsonl/storage.ts\<close>): the state is kept in
  memory, every mutation is appended to the file before it is applied, and a file is loaded by replaying its
  lines. The file system is the interface \<open>FileSystem\<close> of \<open>harness/types.ts\<close>, with a world \<open>'w\<close>; the operations of
  one storage run one after the other (\<open>enqueue\<close>), so each is one step.
\<close>

section \<open>The file system\<close>

text \<open>A failed operation reports whether the file was missing; it may have changed the world.\<close>

record 'w file_ops =
  fo_readTextFile :: "jstr \<Rightarrow> 'w \<Rightarrow> (bool + jstr) \<times> 'w"
  fo_writeFile :: "jstr \<Rightarrow> jstr \<Rightarrow> 'w \<Rightarrow> (bool + unit) \<times> 'w"
  fo_appendFile :: "jstr \<Rightarrow> jstr \<Rightarrow> 'w \<Rightarrow> (bool + unit) \<times> 'w"
  fo_renameFile :: "jstr \<Rightarrow> jstr \<Rightarrow> 'w \<Rightarrow> (bool + unit) \<times> 'w"
  fo_remove :: "jstr \<Rightarrow> 'w \<Rightarrow> (bool + unit) \<times> 'w"
  fo_mtime :: "jstr \<Rightarrow> 'w \<Rightarrow> (bool + int) \<times> 'w"

definition fileResult :: "(bool + 'a) \<times> 'w \<Rightarrow> (session_error + 'a) \<times> 'w" where
  "fileResult r = (case r of (Inl missing, w) \<Rightarrow> (Inl (FileFailed missing), w) | (Inr a, w) \<Rightarrow> (Inr a, w))"

definition publishFileAtomically ::
  "'w file_ops \<Rightarrow> jstr \<Rightarrow> (jstr \<Rightarrow> 'w \<Rightarrow> (session_error + unit) \<times> 'w) \<Rightarrow> 'w \<Rightarrow> (session_error + unit) \<times> 'w" where
  "publishFileAtomically fs destination populate w =
     (let temp = destination @ jlit ''.tmp''
      in case then_result (populate temp w) (\<lambda>_ w. fileResult (fo_renameFile fs temp destination w)) of
           (Inl err, w) \<Rightarrow> (Inl err, snd (fo_remove fs temp w))
         | (Inr u, w) \<Rightarrow> (Inr u, w))"

section \<open>The storage\<close>

record jsonl_storage =
  js_metadata :: jsonl_metadata
  js_state :: session_state

definition new_JsonlSessionStorage :: "jsonl_metadata \<Rightarrow> jsonl_storage" where
  "new_JsonlSessionStorage metadata = \<lparr>js_metadata = metadata, js_state = new_SessionState\<rparr>"

definition jsonl_create ::
  "number_format \<Rightarrow> 'w file_ops \<Rightarrow> jstr \<Rightarrow> jsonl_header \<Rightarrow> 'w \<Rightarrow> (session_error + jsonl_storage) \<times> 'w" where
  "jsonl_create nf fs path header w =
     then_result (fileResult (fo_writeFile fs path (encodeHeader nf header) w)) (\<lambda>_ w.
     then_result (fileResult (fo_mtime fs path w)) (\<lambda>mtime w.
     (Inr (new_JsonlSessionStorage (metadataFromHeader header path mtime)), w)))"

text \<open>
  The loop of \<open>load\<close> over the lines behind the header. \<open>seen\<close> are the lines in front of the current one. A last line
  that is not JSON is dropped by publishing the lines in front of it.
\<close>

fun load_lines ::
  "(jstr \<Rightarrow> decode_fault + session_mutation) \<Rightarrow> 'w file_ops \<Rightarrow> jstr \<Rightarrow> jstr \<Rightarrow> jstr list \<Rightarrow> jstr list \<Rightarrow> jsonl_storage \<Rightarrow> 'w
    \<Rightarrow> (session_error + jsonl_storage) \<times> 'w" where
  "load_lines parse fs path content seen [] s w =
     (if content \<noteq> [] \<and> last content = 10 then (Inr s, w)
      else then_result (fileResult (fo_appendFile fs path [10] w)) (\<lambda>_ w. (Inr s, w)))"
| "load_lines parse fs path content seen (line # rest) s w = (case parse line of
      Inl fault \<Rightarrow>
        (case fault of
           SyntaxFault _ \<Rightarrow>
             if rest = [] then then_result (publishFileAtomically fs path (\<lambda>temp w.
                 fileResult (fo_writeFile fs temp (join_with 10 seen @ [10]) w)) w) (\<lambda>_ w. (Inr s, w))
             else (Inl (InvalidFile path (length seen + 1) (BadLine fault)), w)
         | SchemaFault _ \<Rightarrow> (Inl (InvalidFile path (length seen + 1) (BadLine fault)), w))
    | Inr m \<Rightarrow> (case applyMutation id m (js_state s) of
        Inl fault \<Rightarrow> (Inl (InvalidFile path (length seen + 1) (BadStep fault)), w)
      | Inr st \<Rightarrow> load_lines parse fs path content (seen @ [line]) rest (s\<lparr>js_state := st\<rparr>) w))"

definition physical_lines :: "jstr \<Rightarrow> jstr list" where
  "physical_lines content = (let ls = split_at 10 content in if last ls = [] then butlast ls else ls)"

definition jsonl_load ::
  "number_format \<Rightarrow> object_views \<Rightarrow> 'w file_ops \<Rightarrow> jstr \<Rightarrow> 'w \<Rightarrow> (session_error + jsonl_storage) \<times> 'w" where
  "jsonl_load nf V fs path w =
     then_result (fileResult (fo_readTextFile fs path w)) (\<lambda>content w.
       case physical_lines content of
         [] \<Rightarrow> (Inl (InvalidFile path 1 (BadLine (SchemaFault (jlit ''is missing a header'')))), w)
       | first # rest \<Rightarrow>
           if first = [] then (Inl (InvalidFile path 1 (BadLine (SchemaFault (jlit ''is missing a header'')))), w)
           else (case parseHeader nf first of
               Inl fault \<Rightarrow> (Inl (InvalidFile path 1 (BadLine fault)), w)
             | Inr header \<Rightarrow> then_result (fileResult (fo_mtime fs path w)) (\<lambda>mtime w.
                 load_lines (parseMutation nf V) fs path content [first] rest
                   (new_JsonlSessionStorage (metadataFromHeader header path mtime)) w)))"

definition appendMutation ::
  "number_format \<Rightarrow> object_views \<Rightarrow> 'w file_ops \<Rightarrow> session_mutation \<Rightarrow> jsonl_storage \<Rightarrow> 'w \<Rightarrow> (session_error + unit) \<times> 'w" where
  "appendMutation nf V fs m s w = fileResult (fo_appendFile fs (jm_path (js_metadata s)) (encodeMutation nf V m) w)"

text \<open>The end of every operation that changes the session: append, then apply.\<close>

definition jsonl_commit ::
  "number_format \<Rightarrow> object_views \<Rightarrow> 'w file_ops \<Rightarrow> session_mutation \<Rightarrow> jsonl_storage \<Rightarrow> 'w
    \<Rightarrow> (session_error + jsonl_storage) \<times> 'w" where
  "jsonl_commit nf V fs m s w =
     then_result (appendMutation nf V fs m s w) (\<lambda>_ w. case applyMutation' m (js_state s) of
         Inl err \<Rightarrow> (Inl err, w)
       | Inr st \<Rightarrow> (Inr (s\<lparr>js_state := st\<rparr>), w))"

fun write_mutations ::
  "number_format \<Rightarrow> object_views \<Rightarrow> 'w file_ops \<Rightarrow> session_mutation list \<Rightarrow> jsonl_storage \<Rightarrow> 'w \<Rightarrow> (session_error + unit) \<times> 'w" where
  "write_mutations nf V fs [] s w = (Inr (), w)"
| "write_mutations nf V fs (m # ms) s w =
     then_result (jsonl_commit nf V fs m s w) (\<lambda>s w. write_mutations nf V fs ms s w)"

definition jsonl_fork ::
  "number_format \<Rightarrow> object_views \<Rightarrow> 'w file_ops \<Rightarrow> jstr \<Rightarrow> jsonl_header \<Rightarrow> fork_options \<Rightarrow> jsonl_storage \<Rightarrow> 'w
    \<Rightarrow> (session_error + jsonl_storage) \<times> 'w" where
  "jsonl_fork nf V fs path header options s w = (case createForkMutations (js_state s) options of
      Inl err \<Rightarrow> (Inl err, w)
    | Inr ms \<Rightarrow>
        then_result (publishFileAtomically fs path (\<lambda>temp w.
          then_result (jsonl_create nf fs temp header w) (\<lambda>target w. write_mutations nf V fs ms target w)) w) (\<lambda>_ w.
        jsonl_load nf V fs path w))"

section \<open>The operations\<close>

text \<open>The checks of an operation look at the state only.\<close>

definition checked :: "session_error + 'a \<Rightarrow> ('a \<Rightarrow> 'w \<Rightarrow> (session_error + 'b) \<times> 'w) \<Rightarrow> 'w \<Rightarrow> (session_error + 'b) \<times> 'w" where
  "checked m f w = (case m of Inl err \<Rightarrow> (Inl err, w) | Inr a \<Rightarrow> f a w)"

definition jsonl_createLane ::
  "number_format \<Rightarrow> object_views \<Rightarrow> 'w file_ops \<Rightarrow> jstr \<Rightarrow> jstr option \<Rightarrow> jsonl_storage \<Rightarrow> 'w
    \<Rightarrow> (session_error + jsonl_storage) \<times> 'w" where
  "jsonl_createLane nf V fs lane leaf s =
     checked (validateNewLane (js_state s) lane) (\<lambda>_.
     checked (validateTarget (js_state s) leaf) (\<lambda>_.
     jsonl_commit nf V fs (MutLane (nextSequence (js_state s)) lane leaf) s))"

definition jsonl_moveLane ::
  "number_format \<Rightarrow> object_views \<Rightarrow> 'w file_ops \<Rightarrow> jstr \<Rightarrow> jstr option \<Rightarrow> jsonl_storage \<Rightarrow> 'w
    \<Rightarrow> (session_error + jsonl_storage) \<times> 'w" where
  "jsonl_moveLane nf V fs lane to s =
     checked (requireLane (js_state s) lane) (\<lambda>_.
     checked (validateTarget (js_state s) to) (\<lambda>_.
     jsonl_commit nf V fs (MutLane (nextSequence (js_state s)) lane to) s))"

definition jsonl_appendEntry ::
  "number_format \<Rightarrow> object_views \<Rightarrow> 'w file_ops \<Rightarrow> int \<Rightarrow> provisioned_entry \<Rightarrow> jstr \<Rightarrow> jsonl_storage \<Rightarrow> 'w
    \<Rightarrow> (session_error + (entry \<times> jsonl_storage)) \<times> 'w" where
  "jsonl_appendEntry nf V fs now newEntry lane s =
     checked (requireLane (js_state s) lane) (\<lambda>parentId.
     checked (validateUnusedId (js_state s) (entry_id newEntry)) (\<lambda>_ w.
       let e = provisioned_entry.extend newEntry
         \<lparr>entry_seq = nextSequence (js_state s), entry_parentId = parentId, entry_timestamp = now\<rparr>
       in then_result (jsonl_commit nf V fs (MutEntry (Some lane) e) s w) (\<lambda>s w. (Inr (e, s), w))))"

definition jsonl_appendRecord ::
  "number_format \<Rightarrow> object_views \<Rightarrow> 'w file_ops \<Rightarrow> int \<Rightarrow> new_record \<Rightarrow> jsonl_storage \<Rightarrow> 'w
    \<Rightarrow> (session_error + (lane_record \<times> jsonl_storage)) \<times> 'w" where
  "jsonl_appendRecord nf V fs now newRecord s =
     checked (requireLane (js_state s) (rec_lane newRecord)) (\<lambda>_.
     checked (validateUnusedId (js_state s) (rec_id newRecord)) (\<lambda>_.
     checked (findOpenOperations (js_state s) (rec_lane newRecord) (Some (JInt 1))) (\<lambda>open.
     checked (case open of
         op # _ \<Rightarrow> throw_if (record_type newRecord = OperationStartedT) (OpenOperationExists (rec_lane newRecord) (rec_id op))
       | [] \<Rightarrow> Inr ()) (\<lambda>_ w.
       let r = new_record.extend newRecord \<lparr>rec_seq = nextSequence (js_state s), rec_timestamp = now\<rparr>
       in then_result (jsonl_commit nf V fs (MutRecord r) s w) (\<lambda>s w. (Inr (r, s), w))))))"

definition jsonl_setName ::
  "number_format \<Rightarrow> object_views \<Rightarrow> 'w file_ops \<Rightarrow> jstr option \<Rightarrow> jsonl_storage \<Rightarrow> 'w \<Rightarrow> (session_error + jsonl_storage) \<times> 'w" where
  "jsonl_setName nf V fs name s = jsonl_commit nf V fs (MutName (nextSequence (js_state s)) name) s"

definition jsonl_setLabel ::
  "number_format \<Rightarrow> object_views \<Rightarrow> 'w file_ops \<Rightarrow> jstr \<Rightarrow> jstr option \<Rightarrow> jsonl_storage \<Rightarrow> 'w
    \<Rightarrow> (session_error + jsonl_storage) \<times> 'w" where
  "jsonl_setLabel nf V fs i label s =
     checked (validateTarget (js_state s) (Some i)) (\<lambda>_.
     jsonl_commit nf V fs (MutLabel (nextSequence (js_state s)) i label) s)"

text \<open>
  The operations as a \<open>SessionStorage\<close>, whose state is the storage and the world. (The interface has no state behind
  an error; the functions above keep what a failed operation did to the files.)
\<close>

definition with_world :: "(session_error + 's) \<times> 'w \<Rightarrow> session_error + ('s \<times> 'w)" where
  "with_world r = (case r of (Inl err, w) \<Rightarrow> Inl err | (Inr s, w) \<Rightarrow> Inr (s, w))"

definition with_world_result :: "(session_error + ('a \<times> 's)) \<times> 'w \<Rightarrow> session_error + ('a \<times> 's \<times> 'w)" where
  "with_world_result r = (case r of (Inl err, w) \<Rightarrow> Inl err | (Inr (a, s), w) \<Rightarrow> Inr (a, s, w))"

definition jsonl_ops :: "number_format \<Rightarrow> object_views \<Rightarrow> 'w file_ops \<Rightarrow> (jsonl_storage \<times> 'w) storage_ops" where
  "jsonl_ops nf V fs = \<lparr>
     op_getMetadata = (\<lambda>(s, w). session_metadata.truncate (js_metadata s)),
     op_getLanes = (\<lambda>(s, w). getLanes (js_state s)),
     op_createLane = (\<lambda>lane leaf (s, w). with_world (jsonl_createLane nf V fs lane leaf s w)),
     op_moveLane = (\<lambda>lane leaf (s, w). with_world (jsonl_moveLane nf V fs lane leaf s w)),
     op_appendEntry = (\<lambda>now e lane (s, w). with_world_result (jsonl_appendEntry nf V fs now e lane s w)),
     op_appendRecord = (\<lambda>now r (s, w). with_world_result (jsonl_appendRecord nf V fs now r s w)),
     op_getEntry = (\<lambda>(s, w). getEntry (js_state s)),
     op_findEntries = (\<lambda>(s, w). findEntries (js_state s)),
     op_findEntriesOnBranch = (\<lambda>(s, w). findEntriesOnBranch (js_state s)),
     op_findRecords = (\<lambda>(s, w). findRecords (js_state s)),
     op_findOpenOperations = (\<lambda>(s, w). findOpenOperations (js_state s)),
     op_getLog = (\<lambda>(s, w). getLog (js_state s)),
     op_getName = (\<lambda>(s, w). getName (js_state s)),
     op_setName = (\<lambda>name (s, w). with_world (jsonl_setName nf V fs name s w)),
     op_getLabel = (\<lambda>(s, w). getLabel (js_state s)),
     op_setLabel = (\<lambda>i label (s, w). with_world (jsonl_setLabel nf V fs i label s w)),
     op_getStats = (\<lambda>(s, w). getStats (js_state s))\<rparr>"

end
