(* ===== verification/Jsonl_Facts.thy ===== *)
theory Jsonl_Facts
  imports Jsonl_Storage
begin

text \<open>
  What the file-backed storage promises: it behaves like the in-memory storage, its file always replays to its
  state, and a file that a crash cut short loads to the state before or after the last append.
\<close>

section \<open>Operations as mutations\<close>

text \<open>The mutation that a call commits, when its checks pass.\<close>

definition planned :: "storage_call \<Rightarrow> session_state \<Rightarrow> session_error + session_mutation" where
  "planned c st = (case c of
      CreateLane lane leaf \<Rightarrow> try_bind (validateNewLane st lane) (\<lambda>_. try_bind (validateTarget st leaf) (\<lambda>_.
        Inr (MutLane (nextSequence st) lane leaf)))
    | MoveLane lane leaf \<Rightarrow> try_bind (requireLane st lane) (\<lambda>_. try_bind (validateTarget st leaf) (\<lambda>_.
        Inr (MutLane (nextSequence st) lane leaf)))
    | AppendEntry now e lane \<Rightarrow> try_bind (requireLane st lane) (\<lambda>parent. try_bind (validateUnusedId st (entry_id e)) (\<lambda>_.
        Inr (MutEntry (Some lane) (provisioned_entry.extend e
          \<lparr>entry_seq = nextSequence st, entry_parentId = parent, entry_timestamp = now\<rparr>))))
    | AppendRecord now r \<Rightarrow> try_bind (requireLane st (rec_lane r)) (\<lambda>_. try_bind (validateUnusedId st (rec_id r)) (\<lambda>_.
        try_bind (findOpenOperations st (rec_lane r) (Some (JInt 1))) (\<lambda>open.
        try_bind (case open of
            op # _ \<Rightarrow> throw_if (record_type r = OperationStartedT) (OpenOperationExists (rec_lane r) (rec_id op))
          | [] \<Rightarrow> Inr ()) (\<lambda>_.
        Inr (MutRecord (new_record.extend r \<lparr>rec_seq = nextSequence st, rec_timestamp = now\<rparr>))))))
    | SetName name \<Rightarrow> Inr (MutName (nextSequence st) name)
    | SetLabel i label \<Rightarrow> try_bind (validateTarget st (Some i)) (\<lambda>_. Inr (MutLabel (nextSequence st) i label)))"

definition jsonl_step ::
  "number_format \<Rightarrow> object_views \<Rightarrow> 'w file_ops \<Rightarrow> storage_call \<Rightarrow> jsonl_storage \<Rightarrow> 'w \<Rightarrow> (session_error + jsonl_storage) \<times> 'w" where
  "jsonl_step nf V fs c s w = (case c of
      CreateLane lane leaf \<Rightarrow> jsonl_createLane nf V fs lane leaf s w
    | MoveLane lane leaf \<Rightarrow> jsonl_moveLane nf V fs lane leaf s w
    | AppendEntry now e lane \<Rightarrow> then_result (jsonl_appendEntry nf V fs now e lane s w) (\<lambda>(_, s) w. (Inr s, w))
    | AppendRecord now r \<Rightarrow> then_result (jsonl_appendRecord nf V fs now r s w) (\<lambda>(_, s) w. (Inr s, w))
    | SetName name \<Rightarrow> jsonl_setName nf V fs name s w
    | SetLabel i label \<Rightarrow> jsonl_setLabel nf V fs i label s w)"

lemma checked_simps [simp]: "checked (Inl err) f = Pair (Inl err)" "checked (Inr a) f = f a"
  by (simp_all add: checked_def fun_eq_iff)

lemma then_result_last: "then_result m (\<lambda>s w. (Inr s, w)) = m"
  by (cases m) (auto simp: then_result_def split: sum.splits)

lemma checked_bind: "checked (try_bind m f) g = checked m (\<lambda>a. checked (f a) g)"
  by (cases m) simp_all

lemma then_result_checked: "then_result (checked m f w) g = checked m (\<lambda>a w. then_result (f a w) g) w"
  by (cases m) simp_all

lemma then_result_assoc: "then_result (then_result m f) g = then_result m (\<lambda>a w. then_result (f a w) g)"
  by (cases m) (auto simp: then_result_def split: sum.splits prod.splits)

lemma jsonl_step_planned: "jsonl_step nf V fs c s w = checked (planned c (js_state s)) (\<lambda>m. jsonl_commit nf V fs m s) w"
  by (cases c)
    (simp_all add: jsonl_step_def planned_def jsonl_createLane_def jsonl_moveLane_def jsonl_appendEntry_def jsonl_appendRecord_def
      jsonl_setName_def jsonl_setLabel_def checked_bind then_result_checked then_result_assoc then_result_last Let_def)

definition as_memory :: "jsonl_storage \<Rightarrow> memory_storage" where
  "as_memory s = \<lparr>ms_metadata = session_metadata.truncate (js_metadata s), ms_state = js_state s\<rparr>"

lemma as_memory_simps [simp]: "ms_state (as_memory s) = js_state s"
  "as_memory (s\<lparr>js_state := st\<rparr>) = (as_memory s)\<lparr>ms_state := st\<rparr>"
  by (simp_all add: as_memory_def)

lemma try_bind_assoc: "try_bind (try_bind m f) g = try_bind m (\<lambda>a. try_bind (f a) g)"
  by (cases m) simp_all

lemma try_bind_last: "try_bind m Inr = m"
  by (cases m) simp_all

lemma memory_step_planned: "storage_step memory_ops c s = try_bind (planned c (ms_state s)) (\<lambda>m. memory_mutate m s)"
  by (cases c)
    (simp_all add: storage_step_def planned_def memory_createLane_def memory_moveLane_def memory_appendEntry_def memory_appendRecord_def
      memory_setName_def memory_setLabel_def try_bind_assoc try_bind_last Let_def)

text \<open>The checks are enough: what is written to the file is accepted by the state.\<close>

lemma planned_accepted:
  assumes "memory_ok s" and "planned c (ms_state s) = Inr m"
  shows "\<exists>st. applyMutation' m (ms_state s) = Inr st"
proof -
  have wf: "wf_state (ms_state s)" using assms(1) by (simp add: memory_ok_def)
  show ?thesis
  proof (cases c)
    case (CreateLane lane leaf)
    with assms(2) show ?thesis
      by (auto simp: planned_def try_bind_eq_Inr validateTarget_def applyMutation_def apply_lane_def nextSequence_def split: option.splits)
  next
    case (MoveLane lane leaf)
    with assms(2) show ?thesis
      by (auto simp: planned_def try_bind_eq_Inr validateTarget_def applyMutation_def apply_lane_def nextSequence_def split: option.splits)
  next
    case (AppendEntry now e lane)
    with assms(2) obtain parent where parent: "map_of (ss_lanes (ms_state s)) lane = Some parent"
      and fresh: "entry_id e \<notin> ss_usedIds (ms_state s)"
      and m: "m = MutEntry (Some lane) (provisioned_entry.extend e
          \<lparr>entry_seq = nextSequence (ms_state s), entry_parentId = parent, entry_timestamp = now\<rparr>)"
      by (auto simp: planned_def try_bind_eq_Inr requireLane_def validateUnusedId_def split: option.splits)
    have "case parent of None \<Rightarrow> True | Some p \<Rightarrow> \<exists>e. map_of (ss_entriesById (ms_state s)) p = Some e"
    proof (cases parent)
      case (Some p)
      with parent have "(lane, Some p) \<in> set (ss_lanes (ms_state s))" by (simp add: map_of_SomeD)
      with wf have "p \<in> entry_ids (ss_entries (ms_state s))" by (auto simp: wf_state_def lanes_ok_def)
      with wf Some show ?thesis by (simp add: wf_state_def ids_ok_def map_of_ids_ex)
    qed simp
    with parent fresh show ?thesis
      by (auto simp: m applyMutation_def apply_entry_def nextSequence_def provisioned_entry.defs split: option.splits)
  next
    case (AppendRecord now r)
    with assms(2) obtain parent where parent: "map_of (ss_lanes (ms_state s)) (rec_lane r) = Some parent"
      and fresh: "rec_id r \<notin> ss_usedIds (ms_state s)"
      and m: "m = MutRecord (new_record.extend r \<lparr>rec_seq = nextSequence (ms_state s), rec_timestamp = now\<rparr>)"
      by (auto simp: planned_def try_bind_eq_Inr requireLane_def validateUnusedId_def split: option.splits)
    then show ?thesis by (auto simp: m applyMutation_def apply_record_def nextSequence_def new_record.defs)
  next
    case (SetName name)
    with assms(2) show ?thesis by (auto simp: planned_def applyMutation_def apply_name_def nextSequence_def)
  next
    case (SetLabel i label)
    with assms(2) show ?thesis
      by (auto simp: planned_def try_bind_eq_Inr validateTarget_def applyMutation_def apply_label_def nextSequence_def)
  qed
qed

lemma jsonl_ops_step: "storage_step (jsonl_ops nf V fs) c (s, w) = with_world (jsonl_step nf V fs c s w)"
  by (cases c) (simp_all add: storage_step_def jsonl_ops_def jsonl_step_def with_world_def with_world_result_def then_result_def
      split: prod.splits sum.splits)

lemma apply_sequence: "applyMutation' m st = Inr st' \<Longrightarrow> ss_sequence st' = ss_sequence st + 1"
  by (rule applyMutation_cases) (auto simp: apply_entry_iff apply_record_iff add_record_def add_entry_def apply_lane_iff apply_label_iff apply_name_def)

lemma run_sequence: "run_machine applyMutation' ms st = Inr st' \<Longrightarrow> ss_sequence st' = ss_sequence st + int (length ms)"
  by (induction ms arbitrary: st) (auto simp: try_bind_eq_Inr dest: apply_sequence)

section \<open>Lines of a file\<close>

definition line_of :: "number_format \<Rightarrow> object_views \<Rightarrow> session_mutation \<Rightarrow> jstr" where
  "line_of nf V m = butlast (encodeMutation nf V m)"

definition log_text :: "number_format \<Rightarrow> object_views \<Rightarrow> jsonl_header \<Rightarrow> session_mutation list \<Rightarrow> jstr" where
  "log_text nf V h ms = encodeHeader nf h @ concat (map (encodeMutation nf V) ms)"

lemma line_of_facts:
  assumes "storable nf V m"
  shows "encodeMutation nf V m = line_of nf V m @ [10]" "10 \<notin> set (line_of nf V m)" "line_of nf V m \<noteq> []"
    "parseMutation nf V (line_of nf V m) = Inr m"
    "torn_of (line_of nf V m) t \<Longrightarrow> \<exists>err. parseMutation nf V t = Inl (SyntaxFault err)"
proof -
  from mutations.good_line [OF assms] obtain l where l: "encodeMutation nf V m = l @ [10]" "10 \<notin> set l" "l \<noteq> []" "parseMutation nf V l = Inr m"
    by blast
  then have line: "line_of nf V m = l" by (simp add: line_of_def)
  from l show "encodeMutation nf V m = line_of nf V m @ [10]" "10 \<notin> set (line_of nf V m)" "line_of nf V m \<noteq> []"
    "parseMutation nf V (line_of nf V m) = Inr m" by (simp_all add: line)
  assume "torn_of (line_of nf V m) t"
  with mutations.good_torn [OF assms l(1)] show "\<exists>err. parseMutation nf V t = Inl (SyntaxFault err)" by (simp add: line)
qed

lemma split_at_line: "c \<notin> set l \<Longrightarrow> split_at c (l @ c # xs) = l # split_at c xs"
  by (induction l) auto

lemma split_at_one: "c \<notin> set l \<Longrightarrow> split_at c l = [l]"
  by (induction l) auto

lemma physical_lines_concat:
  assumes "\<forall>l \<in> set ls. 10 \<notin> set l" and "10 \<notin> set t" and "ls \<noteq> []"
  shows "physical_lines (concat (map (\<lambda>l. l @ [10]) ls) @ t) = ls @ (if t = [] then [] else [t])"
proof -
  have "split_at 10 (concat (map (\<lambda>l. l @ [10]) ls) @ t) = ls @ [t]"
    using assms(1) by (induction ls) (simp_all add: split_at_line split_at_one [OF assms(2)])
  then show ?thesis by (simp add: physical_lines_def Let_def)
qed

lemma concat_lines: "\<forall>m \<in> set ms. storable nf V m \<Longrightarrow>
    concat (map (encodeMutation nf V) ms) = concat (map (\<lambda>l. l @ [10]) (map (line_of nf V) ms))"
  by (induction ms) (simp_all add: line_of_facts(1))

lemma header_line:
  assumes "header_ok nf h"
  obtains l where "encodeHeader nf h = l @ [10]" and "10 \<notin> set l" and "l \<noteq> []" and "parseHeader nf l = Inr h"
  using headers.good_line [OF assms] by blast

lemma log_text_lines:
  assumes "\<forall>m \<in> set ms. storable nf V m" and "encodeHeader nf h = l @ [10]" and "10 \<notin> set l" and "10 \<notin> set t"
  shows "physical_lines (log_text nf V h ms @ t) = l # map (line_of nf V) ms @ (if t = [] then [] else [t])"
proof -
  have "log_text nf V h ms @ t = concat (map (\<lambda>l. l @ [10]) (l # map (line_of nf V) ms)) @ t"
    by (simp add: log_text_def assms(2) concat_lines [OF assms(1)])
  moreover have "\<forall>l \<in> set (l # map (line_of nf V) ms). 10 \<notin> set l" using assms(1,3) line_of_facts(2) by auto
  ultimately show ?thesis using physical_lines_concat [of "l # map (line_of nf V) ms" t] assms(4) by simp
qed

lemma log_text_end: "header_ok nf h \<Longrightarrow> \<forall>m \<in> set ms. storable nf V m \<Longrightarrow> log_text nf V h ms \<noteq> [] \<and> last (log_text nf V h ms) = 10"
proof -
  assume h: "header_ok nf h" and ms: "\<forall>m \<in> set ms. storable nf V m"
  from header_line [OF h] obtain l where l: "encodeHeader nf h = l @ [10]" .
  show ?thesis
  proof (cases ms rule: rev_cases)
    case Nil
    then show ?thesis by (simp add: log_text_def l)
  next
    case (snoc ms' m)
    with ms line_of_facts(1) [of nf V m] show ?thesis by (simp add: log_text_def)
  qed
qed

lemma join_concat: "ls \<noteq> [] \<Longrightarrow> join_with c ls @ [c] = concat (map (\<lambda>l. l @ [c]) ls)"
  by (induction ls rule: induct_list012) simp_all

lemma log_text_join:
  assumes "\<forall>m \<in> set ms. storable nf V m" and "encodeHeader nf h = l @ [10]"
  shows "join_with 10 (l # map (line_of nf V) ms) @ [10] = log_text nf V h ms"
  by (subst join_concat) (simp_all add: log_text_def assms(2) concat_lines [OF assms(1)] del: map_map)

text \<open>Replaying lines that were written.\<close>

lemma applyMutation_id: "applyMutation' m st = Inr st' \<Longrightarrow> applyMutation id m st = Inr st'"
  by (auto simp: applyMutation_def split: sum.splits)

lemma load_written_lines:
  assumes "\<forall>m \<in> set ms. storable nf V m" and "run_machine applyMutation' ms (js_state s) = Inr st"
  shows "load_lines (parseMutation nf V) fs path text seen (map (line_of nf V) ms @ rest) s w
    = load_lines (parseMutation nf V) fs path text (seen @ map (line_of nf V) ms) rest (s\<lparr>js_state := st\<rparr>) w"
  using assms
proof (induction ms arbitrary: s seen)
  case Nil
  then show ?case by (cases s) simp
next
  case (Cons m ms)
  from Cons.prems(2) obtain st1 where st1: "applyMutation' m (js_state s) = Inr st1" and rest: "run_machine applyMutation' ms st1 = Inr st"
    by (auto simp: try_bind_eq_Inr)
  have m: "storable nf V m" using Cons.prems(1) by simp
  from Cons.IH [of "s\<lparr>js_state := st1\<rparr>" "seen @ [line_of nf V m]"] Cons.prems(1) rest show ?case
    by (simp add: line_of_facts(4) [OF m] applyMutation_id [OF st1])
qed

text \<open>How the file of a session can look after a crash during an append: the last line is complete, cut or absent.\<close>

definition crash_tail :: "jstr \<Rightarrow> jstr \<Rightarrow> bool" where
  "crash_tail l tail \<longleftrightarrow> tail = [] \<or> torn_of l tail \<or> tail = l \<or> tail = l @ [10]"

text \<open>The file of a storage holds a header and mutations that replay to its state.\<close>

definition logged ::
  "number_format \<Rightarrow> object_views \<Rightarrow> ('w \<Rightarrow> jstr \<Rightarrow> jstr option) \<Rightarrow> jsonl_header \<Rightarrow> session_mutation list \<Rightarrow> jsonl_storage \<Rightarrow> 'w \<Rightarrow> bool" where
  "logged nf V files h ms s w \<longleftrightarrow> header_ok nf h \<and> (\<forall>m \<in> set ms. storable nf V m)
     \<and> run_machine applyMutation' ms new_SessionState = Inr (js_state s)
     \<and> files w (jm_path (js_metadata s)) = Some (log_text nf V h ms)"

section \<open>The laws of the file system\<close>

text \<open>
  What \<open>FileSystem\<close> documents, for the contents of the text files; a failed operation on a file may leave that file in
  any state, but a failed rename changes nothing.
\<close>

locale file_system =
  fixes fs :: "'w file_ops" and files :: "'w \<Rightarrow> jstr \<Rightarrow> jstr option"
  assumes read_files: "fo_readTextFile fs p w = (rt, w') \<Longrightarrow> files w' = files w \<and> (\<forall>t. rt = Inr t \<longrightarrow> files w p = Some t)"
    and write_files: "fo_writeFile fs p t w = (ru, w') \<Longrightarrow>
      (\<forall>q. q \<noteq> p \<longrightarrow> files w' q = files w q) \<and> (\<forall>u. ru = Inr u \<longrightarrow> files w' p = Some t)"
    and append_files: "fo_appendFile fs p t w = (ru, w') \<Longrightarrow> (\<forall>q. q \<noteq> p \<longrightarrow> files w' q = files w q)
      \<and> (\<forall>u. ru = Inr u \<longrightarrow> files w' p = Some ((case files w p of None \<Rightarrow> [] | Some old \<Rightarrow> old) @ t))"
    and rename_files: "p \<noteq> q \<Longrightarrow> fo_renameFile fs p q w = (ru, w') \<Longrightarrow>
      files w' = (case ru of Inl _ \<Rightarrow> files w | Inr _ \<Rightarrow> (files w)(q := files w p, p := None))"
    and remove_files: "fo_remove fs p w = (ru, w') \<Longrightarrow> q \<noteq> p \<Longrightarrow> files w' q = files w q"
    and mtime_files: "fo_mtime fs p w = (rn, w') \<Longrightarrow> files w' = files w"
begin

lemma fileResult_cases:
  assumes "fileResult m = (r, w')"
  obtains (failed) missing where "m = (Inl missing, w')" and "r = Inl (FileFailed missing)"
    | (worked) a where "m = (Inr a, w')" and "r = Inr a"
  using assms by (auto simp: fileResult_def split: prod.splits sum.splits)

lemma temp_differs: "(p :: jstr) @ jlit ''.tmp'' \<noteq> p"
  by (simp add: jlit_def)

text \<open>Publishing writes next to the destination, which only the rename touches.\<close>

lemma publish_cases:
  assumes "publishFileAtomically fs p populate w = (r, w')"
  obtains (failed) err w1 where "populate (p @ jlit ''.tmp'') w = (Inl err, w1)" and "r = Inl err" and "files w' p = files w1 p"
    | (stuck) missing u w1 where "populate (p @ jlit ''.tmp'') w = (Inr u, w1)" and "r = Inl (FileFailed missing)" and "files w' p = files w1 p"
    | (published) u w1 where "populate (p @ jlit ''.tmp'') w = (Inr u, w1)" and "r = Inr ()" and "files w' p = files w1 (p @ jlit ''.tmp'')"
proof -
  let ?temp = "p @ jlit ''.tmp''"
  obtain r1 w1 where populated: "populate ?temp w = (r1, w1)" by fastforce
  have removed: "files (snd (fo_remove fs ?temp w2)) p = files w2 p" for w2
    using remove_files [of ?temp w2 "fst (fo_remove fs ?temp w2)" "snd (fo_remove fs ?temp w2)" p] temp_differs by (metis prod.collapse)
  show thesis
  proof (cases r1)
    case (Inl err)
    with assms populated removed show thesis by (intro failed [of err w1]) (auto simp: publishFileAtomically_def Let_def)
  next
    case (Inr u)
    obtain r2 w2 where renamed: "fo_renameFile fs ?temp p w1 = (r2, w2)" by fastforce
    show thesis
    proof (cases r2)
      case (Inl missing)
      with assms populated renamed Inr removed [of w2] rename_files [OF temp_differs renamed] show thesis
        by (intro stuck [of u w1 missing]) (auto simp: publishFileAtomically_def Let_def fileResult_def)
    next
      case r2: (Inr u2)
      with assms populated renamed Inr rename_files [OF temp_differs renamed] temp_differs [of p] show thesis
        by (intro published [of u w1]) (auto simp: publishFileAtomically_def Let_def fileResult_def)
    qed
  qed
qed

lemma publish_text:
  assumes "publishFileAtomically fs p (\<lambda>temp w. fileResult (fo_writeFile fs temp t w)) w = (r, w')"
  shows "(\<exists>missing. r = Inl (FileFailed missing) \<and> files w' p = files w p) \<or> (r = Inr () \<and> files w' p = Some t)"
proof -
  obtain r1 w1 where written: "fo_writeFile fs (p @ jlit ''.tmp'') t w = (r1, w1)" by fastforce
  have "files w1 p = files w p" "\<And>u. r1 = Inr u \<Longrightarrow> files w1 (p @ jlit ''.tmp'') = Some t"
    using write_files [OF written] temp_differs [of p] by auto
  with assms written show ?thesis by (cases rule: publish_cases) (auto simp: fileResult_def split: sum.splits)
qed

lemma load_read:
  assumes "jsonl_load nf V fs path w = (r, w')" and "files w path = Some text"
    and "physical_lines text = l # ls" and "l \<noteq> []" and "parseHeader nf l = Inr h"
  shows "(\<exists>missing. r = Inl (FileFailed missing) \<and> files w' = files w)
    \<or> (\<exists>mtime w1. files w1 = files w \<and> load_lines (parseMutation nf V) fs path text [l] ls
          (new_JsonlSessionStorage (metadataFromHeader h path mtime)) w1 = (r, w'))"
proof -
  obtain r1 w1 where read: "fo_readTextFile fs path w = (r1, w1)" by fastforce
  from read_files [OF read] have w1: "files w1 = files w" by simp
  show ?thesis
  proof (cases r1)
    case (Inl missing)
    with assms(1) read w1 show ?thesis by (auto simp: jsonl_load_def fileResult_def)
  next
    case (Inr t)
    with read_files [OF read] assms(2) have "t = text" by simp
    obtain r2 w2 where mtime: "fo_mtime fs path w1 = (r2, w2)" by fastforce
    from mtime_files [OF mtime] w1 have "files w2 = files w" by simp
    with assms(1,3,4,5) read Inr \<open>t = text\<close> mtime show ?thesis
      by (cases r2) (auto simp: jsonl_load_def fileResult_def)
  qed
qed

text \<open>Loading a complete log.\<close>

lemma load_clean:
  assumes "header_ok nf h" and "\<forall>m \<in> set ms. storable nf V m" and "run_machine applyMutation' ms new_SessionState = Inr st"
    and "files w path = Some (log_text nf V h ms)" and "jsonl_load nf V fs path w = (r, w')"
  shows "files w' = files w \<and> (case r of
      Inl err \<Rightarrow> \<exists>missing. err = FileFailed missing
    | Inr s \<Rightarrow> js_state s = st \<and> (\<exists>mtime. js_metadata s = metadataFromHeader h path mtime))"
proof -
  from header_line [OF assms(1)] obtain l where l: "encodeHeader nf h = l @ [10]" "10 \<notin> set l" "l \<noteq> []" "parseHeader nf l = Inr h" .
  have lines: "physical_lines (log_text nf V h ms) = l # map (line_of nf V) ms @ []"
    using log_text_lines [OF assms(2) l(1,2), of "[]"] by simp
  have start: "run_machine applyMutation' ms (js_state (new_JsonlSessionStorage md)) = Inr st" for md
    using assms(3) by (simp add: new_JsonlSessionStorage_def)
  from load_read [OF assms(5,4) lines l(3,4), unfolded load_written_lines [OF assms(2) start]] log_text_end [OF assms(1,2)] show ?thesis
    by (auto simp: new_JsonlSessionStorage_def split: sum.splits)
qed

text \<open>Loading a log with a last line that is not JSON, ended or not: the line is dropped.\<close>

lemma load_torn:
  assumes "header_ok nf h" and "\<forall>m \<in> set ms. storable nf V m" and "run_machine applyMutation' ms new_SessionState = Inr st"
    and "files w path = Some (log_text nf V h ms @ t @ final)" and "final = [] \<or> final = [10]"
    and "t \<noteq> []" and "10 \<notin> set t" and "parseMutation nf V t = Inl (SyntaxFault err)"
    and "jsonl_load nf V fs path w = (r, w')"
  shows "(\<exists>missing. r = Inl (FileFailed missing))
    \<or> (\<exists>mtime. r = Inr ((new_JsonlSessionStorage (metadataFromHeader h path mtime))\<lparr>js_state := st\<rparr>)
        \<and> files w' path = Some (log_text nf V h ms))"
proof -
  from header_line [OF assms(1)] obtain l where l: "encodeHeader nf h = l @ [10]" "10 \<notin> set l" "l \<noteq> []" "parseHeader nf l = Inr h" .
  have "log_text nf V h ms @ t @ [10] = concat (map (\<lambda>l. l @ [10]) (l # map (line_of nf V) ms @ [t])) @ []"
    by (simp add: log_text_def l(1) concat_lines [OF assms(2)] del: map_map)
  moreover have "\<forall>l \<in> set (l # map (line_of nf V) ms @ [t]). 10 \<notin> set l" using assms(2,7) l(2) line_of_facts(2) by auto
  ultimately have "physical_lines (log_text nf V h ms @ t @ [10]) = l # map (line_of nf V) ms @ [t]"
    using physical_lines_concat [of "l # map (line_of nf V) ms @ [t]" "[]"] by simp
  then have lines: "physical_lines (log_text nf V h ms @ t @ final) = l # map (line_of nf V) ms @ [t]"
    using log_text_lines [OF assms(2) l(1,2) assms(7)] assms(5,6) by auto
  have start: "run_machine applyMutation' ms (js_state (new_JsonlSessionStorage md)) = Inr st" for md
    using assms(3) by (simp add: new_JsonlSessionStorage_def)
  from load_read [OF assms(9,4) lines l(3,4), unfolded load_written_lines [OF assms(2) start]] show ?thesis
  proof (elim disjE exE conjE)
    fix mtime w1
    obtain r2 w2 where published: "publishFileAtomically fs path (\<lambda>temp w.
        fileResult (fo_writeFile fs temp (join_with 10 (l # map (line_of nf V) ms) @ [10]) w)) w1 = (r2, w2)" by fastforce
    assume "load_lines (parseMutation nf V) fs path (log_text nf V h ms @ t @ final) ([l] @ map (line_of nf V) ms) [t]
      (new_JsonlSessionStorage (metadataFromHeader h path mtime)\<lparr>js_state := st\<rparr>) w1 = (r, w')"
    with publish_text [OF published] published log_text_join [OF assms(2) l(1)] show ?thesis by (auto simp: assms(8))
  qed auto
qed

text \<open>Loading a log whose last append may have been cut.\<close>

lemma load_log:
  assumes "header_ok nf h" and "\<forall>m \<in> set ms. storable nf V m" and "storable nf V m"
    and "run_machine applyMutation' ms new_SessionState = Inr st" and "applyMutation' m st = Inr st'"
    and "files w path = Some (log_text nf V h ms @ tail)" and "crash_tail (line_of nf V m) tail"
    and "jsonl_load nf V fs path w = (Inr s, w')"
  shows "\<exists>mtime. js_metadata s = metadataFromHeader h path mtime"
    and "if tail = line_of nf V m \<or> tail = line_of nf V m @ [10]
      then js_state s = st' \<and> files w' path = Some (log_text nf V h (ms @ [m]))
      else js_state s = st \<and> files w' path = Some (log_text nf V h ms)"
proof -
  let ?line = "line_of nf V m"
  note line = line_of_facts [OF assms(3)]
  from header_line [OF assms(1)] obtain l where l: "encodeHeader nf h = l @ [10]" "10 \<notin> set l" "l \<noteq> []" "parseHeader nf l = Inr h" .
  have whole: "log_text nf V h (ms @ [m]) = log_text nf V h ms @ ?line @ [10]" by (simp add: log_text_def line(1))
  have lines: "physical_lines (log_text nf V h ms @ t) = l # map (line_of nf V) ms @ (if t = [] then [] else [t])" if "10 \<notin> set t" for t
    by (rule log_text_lines [OF assms(2) l(1,2) that])
  have ms_m: "\<forall>m' \<in> set (ms @ [m]). storable nf V m'" using assms(2,3) by auto
  have lines_m: "physical_lines (log_text nf V h ms @ ?line @ [10]) = l # map (line_of nf V) ms @ [?line]"
    using log_text_lines [OF ms_m l(1,2), of "[]"] by (simp add: whole)
  have torn_line: "10 \<notin> set tail" if "torn_of ?line tail" using that line(2) by (auto simp: torn_of_def)
  have start: "run_machine applyMutation' ms (js_state (new_JsonlSessionStorage md)) = Inr st" for md
    using assms(4) by (simp add: new_JsonlSessionStorage_def)
  have loaded: "\<exists>mtime w1. files w1 = files w \<and> load_lines (parseMutation nf V) fs path (log_text nf V h ms @ tail) (l # map (line_of nf V) ms) rest
      ((new_JsonlSessionStorage (metadataFromHeader h path mtime))\<lparr>js_state := st\<rparr>) w1 = (Inr s, w')"
    if "physical_lines (log_text nf V h ms @ tail) = l # map (line_of nf V) ms @ rest" for rest
  proof -
    from load_read [OF assms(8,6) that l(3,4)] obtain mtime w1 where w1: "files w1 = files w"
      and load: "load_lines (parseMutation nf V) fs path (log_text nf V h ms @ tail) [l] (map (line_of nf V) ms @ rest)
        (new_JsonlSessionStorage (metadataFromHeader h path mtime)) w1 = (Inr s, w')" by auto
    show ?thesis
      using w1 load [unfolded load_written_lines [OF assms(2) start]] by (intro exI [of _ mtime] exI [of _ w1]) simp
  qed
  consider (absent) "tail = []" | (torn) "torn_of ?line tail" "tail \<noteq> []" "tail \<noteq> ?line" | (open_line) "tail = ?line" | (complete) "tail = ?line @ [10]"
    using assms(7) by (auto simp: crash_tail_def)
  then have "(\<exists>mtime. js_metadata s = metadataFromHeader h path mtime) \<and> (if tail = ?line \<or> tail = ?line @ [10]
      then js_state s = st' \<and> files w' path = Some (log_text nf V h (ms @ [m]))
      else js_state s = st \<and> files w' path = Some (log_text nf V h ms))"
  proof cases
    case absent
    from loaded [of "[]"] lines [of tail] absent obtain mtime w1 where w1: "files w1 = files w"
      and load: "load_lines (parseMutation nf V) fs path (log_text nf V h ms) (l # map (line_of nf V) ms) []
        ((new_JsonlSessionStorage (metadataFromHeader h path mtime))\<lparr>js_state := st\<rparr>) w1 = (Inr s, w')" by auto
    from load log_text_end [OF assms(1,2)] have "s = (new_JsonlSessionStorage (metadataFromHeader h path mtime))\<lparr>js_state := st\<rparr>" "w' = w1"
      by simp_all
    with w1 absent assms(6) line(3) show ?thesis by (auto simp: new_JsonlSessionStorage_def)
  next
    case torn
    from line(5) [OF torn(1)] obtain err where err: "parseMutation nf V tail = Inl (SyntaxFault err)" by blast
    have "files w path = Some (log_text nf V h ms @ tail @ [])" using assms(6) by simp
    from load_torn [OF assms(1,2,4) this _ torn(2) torn_line [OF torn(1)] err assms(8)] torn(3) torn_line [OF torn(1)] show ?thesis
      by (auto simp: new_JsonlSessionStorage_def)
  next
    case open_line
    from loaded [of "[?line]"] lines [of tail] open_line line(2,3) obtain mtime w1 where w1: "files w1 = files w"
      and load: "load_lines (parseMutation nf V) fs path (log_text nf V h ms @ ?line) (l # map (line_of nf V) ms) [?line]
        ((new_JsonlSessionStorage (metadataFromHeader h path mtime))\<lparr>js_state := st\<rparr>) w1 = (Inr s, w')" by auto
    have last: "last (log_text nf V h ms @ ?line) \<noteq> 10" using line(2,3) by (metis last_appendR last_in_set)
    obtain r2 w2 where appended: "fo_appendFile fs path [10] w1 = (r2, w2)" by fastforce
    from load last appended have "\<exists>u. r2 = Inr u" "w' = w2" "s = (new_JsonlSessionStorage (metadataFromHeader h path mtime))\<lparr>js_state := st'\<rparr>"
      by (cases r2; simp add: line(4) applyMutation_id [OF assms(5)] fileResult_def)+
    with append_files [OF appended] w1 assms(6) open_line whole show ?thesis by (auto simp: new_JsonlSessionStorage_def)
  next
    case complete
    from loaded [of "[?line]"] lines_m complete obtain mtime w1 where w1: "files w1 = files w"
      and load: "load_lines (parseMutation nf V) fs path (log_text nf V h ms @ ?line @ [10]) (l # map (line_of nf V) ms) [?line]
        ((new_JsonlSessionStorage (metadataFromHeader h path mtime))\<lparr>js_state := st\<rparr>) w1 = (Inr s, w')" by auto
    from load have "w' = w1" "s = (new_JsonlSessionStorage (metadataFromHeader h path mtime))\<lparr>js_state := st'\<rparr>"
      by (simp_all add: line(4) applyMutation_id [OF assms(5)])
    with w1 assms(6) complete whole show ?thesis by (auto simp: new_JsonlSessionStorage_def)
  qed
  then show "\<exists>mtime. js_metadata s = metadataFromHeader h path mtime"
    and "if tail = ?line \<or> tail = ?line @ [10]
      then js_state s = st' \<and> files w' path = Some (log_text nf V h (ms @ [m]))
      else js_state s = st \<and> files w' path = Some (log_text nf V h ms)" by blast+
qed

text \<open>Such a file is never rejected: only the file system can make loading fail.\<close>

lemma load_log_fails:
  assumes "header_ok nf h" and "\<forall>m \<in> set ms. storable nf V m" and "storable nf V m"
    and "run_machine applyMutation' ms new_SessionState = Inr st" and "applyMutation' m st = Inr st'"
    and "files w path = Some (log_text nf V h ms @ tail)" and "crash_tail (line_of nf V m) tail"
    and "jsonl_load nf V fs path w = (Inl err, w')"
  shows "\<exists>missing. err = FileFailed missing"
proof -
  let ?line = "line_of nf V m"
  note line = line_of_facts [OF assms(3)]
  from header_line [OF assms(1)] obtain l where l: "encodeHeader nf h = l @ [10]" "10 \<notin> set l" "l \<noteq> []" "parseHeader nf l = Inr h" .
  have whole: "log_text nf V h (ms @ [m]) = log_text nf V h ms @ ?line @ [10]" by (simp add: log_text_def line(1))
  have ms_m: "\<forall>m' \<in> set (ms @ [m]). storable nf V m'" using assms(2,3) by auto
  have start: "run_machine applyMutation' ms (js_state (new_JsonlSessionStorage md)) = Inr st" for md
    using assms(4) by (simp add: new_JsonlSessionStorage_def)
  define rest where "rest = (if tail = [] then [] else if tail = ?line @ [10] then [?line] else [tail])"
  have lines: "physical_lines (log_text nf V h ms @ tail) = l # map (line_of nf V) ms @ rest"
  proof (cases "tail = ?line @ [10]")
    case True
    then show ?thesis using log_text_lines [OF ms_m l(1,2), of "[]"] by (simp add: whole rest_def)
  next
    case False
    with assms(7) line(2) have "10 \<notin> set tail" by (auto simp: crash_tail_def torn_of_def)
    from log_text_lines [OF assms(2) l(1,2) this] False show ?thesis by (simp add: rest_def)
  qed
  from load_read [OF assms(8,6) lines l(3,4)] show ?thesis
  proof (elim disjE exE conjE)
    fix missing
    assume "Inl err = Inl (FileFailed missing)"
    then show ?thesis by simp
  next
    fix mtime w1
    assume "load_lines (parseMutation nf V) fs path (log_text nf V h ms @ tail) [l] (map (line_of nf V) ms @ rest)
      (new_JsonlSessionStorage (metadataFromHeader h path mtime)) w1 = (Inl err, w')"
    then have load: "load_lines (parseMutation nf V) fs path (log_text nf V h ms @ tail) (l # map (line_of nf V) ms) rest
      ((new_JsonlSessionStorage (metadataFromHeader h path mtime))\<lparr>js_state := st\<rparr>) w1 = (Inl err, w')"
      unfolding load_written_lines [OF assms(2) start] by simp
    consider (absent) "tail = []" | (torn) "torn_of ?line tail" "tail \<noteq> []" "tail \<noteq> ?line" | (full) "tail = ?line \<or> tail = ?line @ [10]"
      using assms(7) by (auto simp: crash_tail_def)
    then show ?thesis
    proof cases
      case absent
      with load log_text_end [OF assms(1,2)] show ?thesis by (simp add: rest_def)
    next
      case torn
      from line(5) [OF torn(1)] obtain f where f: "parseMutation nf V tail = Inl (SyntaxFault f)" by blast
      have "10 \<notin> set tail" "files w path = Some (log_text nf V h ms @ tail @ [])"
        using torn(1) line(2) assms(6) by (auto simp: torn_of_def)
      from load_torn [OF assms(1,2,4) this(2) _ torn(2) this(1) f assms(8)] show ?thesis by auto
    next
      case full
      then have rest: "rest = [?line]" using line(3) by (auto simp: rest_def)
      from load show ?thesis
        by (auto simp: rest line(4) applyMutation_id [OF assms(5)] then_result_def fileResult_def split: if_splits prod.splits sum.splits)
    qed
  qed
qed

section \<open>The log follows the state\<close>

lemma create_logged:
  assumes "jsonl_create nf fs path h w = (Inr s, w')" and "header_ok nf h"
  shows "logged nf V files h [] s w'" and "js_state s = new_SessionState" and "jm_path (js_metadata s) = path"
proof -
  from assms(1) obtain u w1 mtime where written: "fo_writeFile fs path (encodeHeader nf h) w = (Inr u, w1)"
    and mtime: "fo_mtime fs path w1 = (Inr mtime, w')" and s: "s = new_JsonlSessionStorage (metadataFromHeader h path mtime)"
    by (auto simp: jsonl_create_def then_result_def fileResult_def split: prod.splits sum.splits)
  from write_files [OF written] mtime_files [OF mtime] have "files w' path = Some (encodeHeader nf h)" by simp
  with assms(2) s show "logged nf V files h [] s w'" "js_state s = new_SessionState" "jm_path (js_metadata s) = path"
    by (simp_all add: logged_def log_text_def new_JsonlSessionStorage_def metadataFromHeader_def)
qed

lemma commit_logged:
  assumes "logged nf V files h ms s w" and "storable nf V m" and "applyMutation' m (js_state s) = Inr st"
    and "jsonl_commit nf V fs m s w = (r, w')"
  shows "(\<exists>missing. r = Inl (FileFailed missing)) \<or> (r = Inr (s\<lparr>js_state := st\<rparr>) \<and> logged nf V files h (ms @ [m]) (s\<lparr>js_state := st\<rparr>) w')"
proof -
  obtain r1 w1 where appended: "fo_appendFile fs (jm_path (js_metadata s)) (encodeMutation nf V m) w = (r1, w1)" by fastforce
  show ?thesis
  proof (cases r1)
    case (Inl missing)
    with assms(4) appended show ?thesis by (auto simp: jsonl_commit_def appendMutation_def fileResult_def)
  next
    case (Inr u)
    with assms(3,4) appended have r: "r = Inr (s\<lparr>js_state := st\<rparr>)" "w' = w1"
      by (simp_all add: jsonl_commit_def appendMutation_def fileResult_def)
    from append_files [OF appended] Inr assms(1) have "files w1 (jm_path (js_metadata s)) = Some (log_text nf V h (ms @ [m]))"
      by (simp add: logged_def log_text_def)
    with r assms(1,2,3) show ?thesis by (auto simp: logged_def run_machine_append)
  qed
qed

lemma step_logged:
  assumes "logged nf V files h ms s w" and "memory_ok (as_memory s)" and "\<And>m. planned c (js_state s) = Inr m \<Longrightarrow> storable nf V m"
    and "jsonl_step nf V fs c s w = (r, w')"
  shows "case r of
      Inr s' \<Rightarrow> storage_step memory_ops c (as_memory s) = Inr (as_memory s') \<and> (\<exists>m. logged nf V files h (ms @ [m]) s' w')
        \<and> js_metadata s' = js_metadata s
    | Inl err \<Rightarrow> (storage_step memory_ops c (as_memory s) = Inl err \<and> w' = w) \<or> (\<exists>missing. err = FileFailed missing)"
proof (cases "planned c (js_state s)")
  case (Inl err)
  with assms(4) show ?thesis by (auto simp: jsonl_step_planned memory_step_planned)
next
  case (Inr m)
  from planned_accepted [OF assms(2)] Inr obtain st where st: "applyMutation' m (js_state s) = Inr st" by auto
  from assms(4) Inr have "jsonl_commit nf V fs m s w = (r, w')" by (simp add: jsonl_step_planned)
  from commit_logged [OF assms(1) assms(3) [OF Inr] st this] show ?thesis
  proof
    assume "\<exists>missing. r = Inl (FileFailed missing)"
    then show ?thesis by auto
  next
    assume written: "r = Inr (s\<lparr>js_state := st\<rparr>) \<and> logged nf V files h (ms @ [m]) (s\<lparr>js_state := st\<rparr>) w'"
    have "storage_step memory_ops c (as_memory s) = Inr (as_memory (s\<lparr>js_state := st\<rparr>))"
      using Inr st by (simp add: memory_step_planned memory_mutate_def)
    with written show ?thesis by auto
  qed
qed

lemma run_logged:
  assumes "logged nf V files h ms s w" and "memory_ok (as_memory s)"
    and "\<And>c st m. c \<in> set calls \<Longrightarrow> planned c st = Inr m \<Longrightarrow> ss_sequence st < int (length ms + length calls) \<Longrightarrow> 0 \<le> ss_sequence st
        \<Longrightarrow> storable nf V m"
  shows "case run_machine (storage_step (jsonl_ops nf V fs)) calls (s, w) of
      Inl err \<Rightarrow> run_machine (storage_step memory_ops) calls (as_memory s) = Inl err \<or> (\<exists>missing. err = FileFailed missing)
    | Inr (s', w') \<Rightarrow> run_machine (storage_step memory_ops) calls (as_memory s) = Inr (as_memory s')
        \<and> (\<exists>ms'. logged nf V files h ms' s' w' \<and> length ms' = length ms + length calls) \<and> js_metadata s' = js_metadata s"
  using assms
proof (induction calls arbitrary: ms s w)
  case Nil
  then show ?case by auto
next
  case (Cons c calls)
  have sequence: "ss_sequence (js_state s) = int (length ms)"
    using Cons.prems(1) run_sequence [of ms new_SessionState "js_state s"] by (simp add: logged_def new_SessionState_def)
  obtain r1 w1 where step: "jsonl_step nf V fs c s w = (r1, w1)" by fastforce
  have c: "storable nf V m" if "planned c (js_state s) = Inr m" for m
    using Cons.prems(3) [of c "js_state s" m] sequence that by simp
  note stepped = step_logged [OF Cons.prems(1,2) c step]
  show ?case
  proof (cases r1)
    case (Inl err)
    with stepped step show ?thesis by (auto simp: jsonl_ops_step with_world_def)
  next
    case (Inr s1)
    with stepped obtain m where memory: "storage_step memory_ops c (as_memory s) = Inr (as_memory s1)"
      and logged1: "logged nf V files h (ms @ [m]) s1 w1" and metadata: "js_metadata s1 = js_metadata s" by auto
    have ok1: "memory_ok (as_memory s1)" by (rule memory_step_ok [OF Cons.prems(2) memory])
    have "storable nf V m'" if "c' \<in> set calls" "planned c' st = Inr m'" "ss_sequence st < int (length (ms @ [m]) + length calls)"
        "0 \<le> ss_sequence st" for c' st m'
      using Cons.prems(3) [of c' st m'] that by simp
    from Cons.IH [OF logged1 ok1 this] show ?thesis
      using step Inr memory metadata
      by (auto simp: jsonl_ops_step with_world_def split: sum.splits)
  qed
qed

section \<open>Forks\<close>

lemma commit_only: "jsonl_commit nf V fs m s w = (r, w') \<Longrightarrow> q \<noteq> jm_path (js_metadata s) \<Longrightarrow> files w' q = files w q"
  by (auto simp: jsonl_commit_def appendMutation_def fileResult_def then_result_def dest!: append_files split: prod.splits sum.splits)

lemma create_only: "jsonl_create nf fs path h w = (r, w') \<Longrightarrow> q \<noteq> path \<Longrightarrow> files w' q = files w q"
  by (auto simp: jsonl_create_def fileResult_def then_result_def dest!: write_files mtime_files split: prod.splits sum.splits)

lemma write_logged:
  assumes "logged nf V files h ms0 s w" and "\<forall>m \<in> set ms. storable nf V m"
    and "run_machine applyMutation' ms (js_state s) = Inr st" and "write_mutations nf V fs ms s w = (r, w')"
  shows "(\<forall>q. q \<noteq> jm_path (js_metadata s) \<longrightarrow> files w' q = files w q)
    \<and> ((\<exists>missing. r = Inl (FileFailed missing))
      \<or> (r = Inr () \<and> files w' (jm_path (js_metadata s)) = Some (log_text nf V h (ms0 @ ms))))"
  using assms
proof (induction ms arbitrary: ms0 s w)
  case Nil
  then show ?case by (simp add: logged_def)
next
  case (Cons m ms)
  from Cons.prems(3) obtain st1 where st1: "applyMutation' m (js_state s) = Inr st1" "run_machine applyMutation' ms st1 = Inr st"
    by (auto simp: try_bind_eq_Inr)
  have m: "storable nf V m" using Cons.prems(2) by simp
  obtain r1 w1 where commit: "jsonl_commit nf V fs m s w = (r1, w1)" by fastforce
  note only = commit_only [OF commit]
  from commit_logged [OF Cons.prems(1) m st1(1) commit] show ?case
  proof
    assume "\<exists>missing. r1 = Inl (FileFailed missing)"
    with Cons.prems(4) commit only show ?thesis by auto
  next
    assume done_one: "r1 = Inr (s\<lparr>js_state := st1\<rparr>) \<and> logged nf V files h (ms0 @ [m]) (s\<lparr>js_state := st1\<rparr>) w1"
    with Cons.prems(4) commit have "write_mutations nf V fs ms (s\<lparr>js_state := st1\<rparr>) w1 = (r, w')" by simp
    with Cons.IH [of "ms0 @ [m]" "s\<lparr>js_state := st1\<rparr>" w1] done_one Cons.prems(2) st1(2) only show ?thesis by simp
  qed
qed

lemma fork_logged:
  assumes "header_ok nf h" and "createForkMutations (js_state s) options = Inr ms" and "\<forall>m \<in> set ms. storable nf V m"
    and "run_machine applyMutation' ms new_SessionState = Inr st" and "jsonl_fork nf V fs path h options s w = (r, w')"
  shows "(files w' path = files w path \<or> files w' path = Some (log_text nf V h ms)) \<and> (case r of
      Inl err \<Rightarrow> \<exists>missing. err = FileFailed missing
    | Inr t \<Rightarrow> js_state t = st \<and> files w' path = Some (log_text nf V h ms) \<and> (\<exists>mtime. js_metadata t = metadataFromHeader h path mtime))"
proof -
  let ?temp = "path @ jlit ''.tmp''"
  let ?populate = "\<lambda>temp w. then_result (jsonl_create nf fs temp h w) (\<lambda>target w. write_mutations nf V fs ms target w)"
  obtain r1 w1 where published: "publishFileAtomically fs path ?populate w = (r1, w1)" by fastforce
  have fork: "jsonl_fork nf V fs path h options s w = then_result (r1, w1) (\<lambda>_ w. jsonl_load nf V fs path w)"
    by (simp add: jsonl_fork_def assms(2) published)
  have populated: "files w2 path = files w path \<and> ((\<exists>missing. r2 = Inl (FileFailed missing)) \<or> (r2 = Inr () \<and> files w2 ?temp = Some (log_text nf V h ms)))"
    if "?populate ?temp w = (r2, w2)" for r2 w2
  proof -
    obtain r3 w3 where create: "jsonl_create nf fs ?temp h w = (r3, w3)" by fastforce
    have keep: "files w3 path = files w path" using create_only [OF create] temp_differs by metis
    show ?thesis
    proof (cases r3)
      case (Inl err)
      with create have "\<exists>missing. err = FileFailed missing"
        by (auto simp: jsonl_create_def fileResult_def then_result_def split: prod.splits sum.splits)
      with Inl that create keep show ?thesis by auto
    next
      case (Inr target)
      note created = create_logged [OF create [unfolded Inr] assms(1)]
      from that create Inr have "write_mutations nf V fs ms target w3 = (r2, w2)" by simp
      from write_logged [OF created(1) assms(3) _ this, of st] assms(4) created(2,3) keep temp_differs [of path] show ?thesis by auto
    qed
  qed
  from published show ?thesis
  proof (cases rule: publish_cases)
    case (failed err w2)
    with populated [OF failed(1)] assms(5) show ?thesis by (auto simp: fork)
  next
    case (stuck missing u w2)
    with populated [OF stuck(1)] assms(5) show ?thesis by (auto simp: fork)
  next
    case (published u w2)
    with populated [OF published(1)] have "files w1 path = Some (log_text nf V h ms)" by auto
    moreover from published(2) assms(5) have "jsonl_load nf V fs path w1 = (r, w')" by (simp add: fork)
    ultimately show ?thesis using load_clean [OF assms(1,3,4), of w1 path r w'] by (auto split: sum.splits)
  qed
qed

end

end
