(* ===== verification/Jsonl_Recovery.thy ===== *)
theory Jsonl_Recovery
  imports Jsonl_Facts Session_Repo
begin

text \<open>
  The promises of the file-backed storage for whole runs: it behaves as the in-memory storage does, it obeys the laws
  of a \<open>SessionStorage\<close>, and what a restart or a crash leaves on the disk is read back. The file system is any that obeys
  the laws of \<open>file_system\<close>; a disk whose operations fail by a schedule shows that there is one.
\<close>

section \<open>A disk\<close>

text \<open>Every operation takes the next item of the schedule: \<open>Some n\<close> makes it fail, a write after \<open>n\<close> units.\<close>

record disk =
  dk_files :: "(jstr \<times> jstr) list"
  dk_clock :: int
  dk_faults :: "nat option list"

definition disk_files :: "disk \<Rightarrow> jstr \<Rightarrow> jstr option" where
  "disk_files d p = map_of (dk_files d) p"

definition disk_fault :: "disk \<Rightarrow> nat option \<times> disk" where
  "disk_fault d = (case dk_faults d of [] \<Rightarrow> (None, d) | f # fs \<Rightarrow> (f, d\<lparr>dk_faults := fs\<rparr>))"

definition disk_store :: "jstr \<Rightarrow> jstr \<Rightarrow> disk \<Rightarrow> disk" where
  "disk_store p t d = d\<lparr>dk_files := AList.update p t (dk_files d), dk_clock := dk_clock d + 1\<rparr>"

definition disk_read :: "jstr \<Rightarrow> disk \<Rightarrow> (bool + jstr) \<times> disk" where
  "disk_read p d = (case disk_fault d of
      (Some _, d) \<Rightarrow> (Inl False, d)
    | (None, d) \<Rightarrow> (case disk_files d p of None \<Rightarrow> (Inl True, d) | Some t \<Rightarrow> (Inr t, d)))"

definition disk_write :: "jstr \<Rightarrow> jstr \<Rightarrow> disk \<Rightarrow> (bool + unit) \<times> disk" where
  "disk_write p t d = (case disk_fault d of
      (Some n, d) \<Rightarrow> (Inl False, disk_store p (take n t) d)
    | (None, d) \<Rightarrow> (Inr (), disk_store p t d))"

definition disk_append :: "jstr \<Rightarrow> jstr \<Rightarrow> disk \<Rightarrow> (bool + unit) \<times> disk" where
  "disk_append p t d = (let old = (case disk_files d p of None \<Rightarrow> [] | Some old \<Rightarrow> old) in case disk_fault d of
      (Some n, d) \<Rightarrow> (Inl False, disk_store p (old @ take n t) d)
    | (None, d) \<Rightarrow> (Inr (), disk_store p (old @ t) d))"

definition disk_remove :: "jstr \<Rightarrow> disk \<Rightarrow> (bool + unit) \<times> disk" where
  "disk_remove p d = (case disk_fault d of
      (Some _, d) \<Rightarrow> (Inl False, d)
    | (None, d) \<Rightarrow> (Inr (), d\<lparr>dk_files := AList.delete p (dk_files d)\<rparr>))"

definition disk_rename :: "jstr \<Rightarrow> jstr \<Rightarrow> disk \<Rightarrow> (bool + unit) \<times> disk" where
  "disk_rename p q d = (case disk_fault d of
      (Some _, d') \<Rightarrow> (Inl False, d')
    | (None, d') \<Rightarrow> (case disk_files d p of
          None \<Rightarrow> (Inl True, d')
        | Some t \<Rightarrow> (Inr (), d'\<lparr>dk_files := AList.delete p (AList.update q t (dk_files d))\<rparr>)))"

definition disk_mtime :: "jstr \<Rightarrow> disk \<Rightarrow> (bool + int) \<times> disk" where
  "disk_mtime p d = (case disk_fault d of
      (Some _, d) \<Rightarrow> (Inl False, d)
    | (None, d) \<Rightarrow> (case disk_files d p of None \<Rightarrow> (Inl True, d) | Some _ \<Rightarrow> (Inr (dk_clock d), d)))"

definition disk_fs :: "disk file_ops" where
  "disk_fs = \<lparr>fo_readTextFile = disk_read, fo_writeFile = disk_write, fo_appendFile = disk_append,
     fo_renameFile = disk_rename, fo_remove = disk_remove, fo_mtime = disk_mtime\<rparr>"

lemma disk_fs_simps [simp]:
  "fo_readTextFile disk_fs = disk_read" "fo_writeFile disk_fs = disk_write" "fo_appendFile disk_fs = disk_append"
  "fo_renameFile disk_fs = disk_rename" "fo_remove disk_fs = disk_remove" "fo_mtime disk_fs = disk_mtime"
  by (simp_all add: disk_fs_def)

lemma disk_fault_files: "disk_fault d = (f, d') \<Longrightarrow> dk_files d' = dk_files d"
  by (auto simp: disk_fault_def split: list.splits)

lemma disk_store_files [simp]: "disk_files (disk_store p t d) = (disk_files d)(p \<mapsto> t)"
  by (simp add: disk_store_def disk_files_def [abs_def] update_conv')

lemma disk_files_cong: "dk_files d' = dk_files d \<Longrightarrow> disk_files d' = disk_files d"
  by (simp add: disk_files_def [abs_def])

lemma disk_files_delete: "disk_files (d\<lparr>dk_files := AList.delete p al\<rparr>) = (map_of al)(p := None)"
  by (simp add: disk_files_def [abs_def] delete_conv')

interpretation disk: file_system disk_fs disk_files
proof
  fix p t w and rt :: "bool + jstr" and w'
  assume "fo_readTextFile disk_fs p w = (rt, w')"
  then show "disk_files w' = disk_files w \<and> (\<forall>t. rt = Inr t \<longrightarrow> disk_files w p = Some t)"
    by (auto simp: disk_read_def dest!: disk_fault_files [THEN disk_files_cong] split: prod.splits option.splits)
next
  fix p t w and ru :: "bool + unit" and w'
  assume "fo_writeFile disk_fs p t w = (ru, w')"
  then show "(\<forall>q. q \<noteq> p \<longrightarrow> disk_files w' q = disk_files w q) \<and> (\<forall>u. ru = Inr u \<longrightarrow> disk_files w' p = Some t)"
    by (auto simp: disk_write_def dest!: disk_fault_files [THEN disk_files_cong] split: prod.splits option.splits)
next
  fix p t w and ru :: "bool + unit" and w'
  assume "fo_appendFile disk_fs p t w = (ru, w')"
  then show "(\<forall>q. q \<noteq> p \<longrightarrow> disk_files w' q = disk_files w q)
      \<and> (\<forall>u. ru = Inr u \<longrightarrow> disk_files w' p = Some ((case disk_files w p of None \<Rightarrow> [] | Some old \<Rightarrow> old) @ t))"
    by (auto simp: disk_append_def Let_def dest!: disk_fault_files [THEN disk_files_cong] split: prod.splits option.splits)
next
  fix p q w and ru :: "bool + unit" and w'
  assume "p \<noteq> q" and "fo_renameFile disk_fs p q w = (ru, w')"
  then show "disk_files w' = (case ru of Inl _ \<Rightarrow> disk_files w | Inr _ \<Rightarrow> (disk_files w)(q := disk_files w p, p := None))"
    by (auto simp: disk_rename_def disk_files_delete update_conv' disk_files_def [abs_def] dest!: disk_fault_files split: prod.splits option.splits)
next
  fix p q w and ru :: "bool + unit" and w'
  assume "fo_remove disk_fs p w = (ru, w')" and "q \<noteq> p"
  then show "disk_files w' q = disk_files w q"
    by (auto simp: disk_remove_def disk_files_def delete_conv' dest!: disk_fault_files split: prod.splits option.splits)
next
  fix p w and rn :: "bool + int" and w'
  assume "fo_mtime disk_fs p w = (rn, w')"
  then show "disk_files w' = disk_files w"
    by (auto simp: disk_mtime_def dest!: disk_fault_files [THEN disk_files_cong] split: prod.splits option.splits)
qed

section \<open>The laws of a storage\<close>

lemma jsonl_append_planned:
  "op_appendEntry (jsonl_ops nf V fs) now e lane (s, w) = Inr (e', s', w') \<Longrightarrow>
    memory_appendEntry now e lane (as_memory s) = Inr (e', as_memory s')"
  by (cases "requireLane (js_state s) lane"; cases "validateUnusedId (js_state s) (entry_id e)")
    (auto simp: jsonl_ops_def with_world_result_def jsonl_appendEntry_def jsonl_commit_def memory_appendEntry_def then_result_def
      memory_mutate_def Let_def split: prod.splits sum.splits)

interpretation jsonl_session: session_storage "jsonl_ops nf V fs" "\<lambda>(s, w). memory_ok (as_memory s)" for nf V and fs :: "'w file_ops"
proof
  fix s :: "jsonl_storage \<times> 'w" and s' now e e' lane q es bq i
  obtain st w where s: "s = (st, w)" by fastforce
  assume "case s of (s, w) \<Rightarrow> memory_ok (as_memory s)"
  then have ok: "memory_ok (as_memory st)" by (simp add: s)
  have lanes: "op_getLanes (jsonl_ops nf V fs) (x, y) = op_getLanes memory_ops (as_memory x)" for x y
    by (simp add: jsonl_ops_def getLanes_def)
  have entries: "op_getEntry (jsonl_ops nf V fs) (x, y) = op_getEntry memory_ops (as_memory x)" for x y
    by (simp add: jsonl_ops_def)
  show "distinct (map fst (op_getLanes (jsonl_ops nf V fs) s))"
    using memory_session.lanes_distinct [OF ok] by (simp add: s lanes)
  show "op_findEntries (jsonl_ops nf V fs) s (q\<lparr>eq_limit := Some (JInt 1)\<rparr>) = Inr (take 1 es)"
    if "op_findEntries (jsonl_ops nf V fs) s q = Inr es"
    using memory_session.find_limited [OF ok, of q es] that by (simp add: s jsonl_ops_def)
  show "op_findEntriesOnBranch (jsonl_ops nf V fs) s (bq\<lparr>eq_limit := Some (JInt 1)\<rparr>) i = Inr (take 1 es)"
    if "op_findEntriesOnBranch (jsonl_ops nf V fs) s bq i = Inr es"
    using memory_session.branch_limited [OF ok, of bq i es] that by (simp add: s jsonl_ops_def)
  assume app: "op_appendEntry (jsonl_ops nf V fs) now e lane s = Inr (e', s')"
  obtain st' w' where s': "s' = (st', w')" by fastforce
  from app have memory: "op_appendEntry memory_ops now e lane (as_memory st) = Inr (e', as_memory st')"
    by (simp add: s s' jsonl_append_planned)
  show "case s' of (s, w) \<Rightarrow> memory_ok (as_memory s)"
    using memory_session.append_ok [OF ok memory] by (simp add: s')
  show "\<exists>n parent. map_of (op_getLanes (jsonl_ops nf V fs) s) lane = Some parent
      \<and> e' = provisioned_entry.extend e \<lparr>entry_seq = n, entry_parentId = parent, entry_timestamp = now\<rparr>"
    using memory_session.append_entry [OF ok memory] by (simp only: s lanes)
  show "map_of (op_getLanes (jsonl_ops nf V fs) s') = (map_of (op_getLanes (jsonl_ops nf V fs) s))(lane \<mapsto> Some (entry_id e'))"
    using memory_session.append_lanes [OF ok memory] by (simp only: s s' lanes)
  show "op_getEntry (jsonl_ops nf V fs) s (entry_id e') = None
      \<and> op_getEntry (jsonl_ops nf V fs) s' = (op_getEntry (jsonl_ops nf V fs) s)(entry_id e' \<mapsto> e')"
    using memory_session.append_entries [OF ok memory] by (simp only: s s' entries)
qed

section \<open>Runs\<close>

text \<open>The data of a call can be stored, whatever number and parent the storage assigns.\<close>

definition call_storable :: "number_format \<Rightarrow> object_views \<Rightarrow> storage_call \<Rightarrow> bool" where
  "call_storable nf V c \<longleftrightarrow> (\<forall>n. 0 < n \<and> is_safe n \<longrightarrow> (case c of
      AppendEntry now e _ \<Rightarrow> \<forall>parent. entry_storable nf V (provisioned_entry.extend e
        \<lparr>entry_seq = n, entry_parentId = parent, entry_timestamp = now\<rparr>)
    | AppendRecord now r \<Rightarrow> record_storable nf V (new_record.extend r \<lparr>rec_seq = n, rec_timestamp = now\<rparr>)
    | _ \<Rightarrow> True))"

lemma planned_storable:
  assumes "call_storable nf V c" and "planned c st = Inr m" and "0 \<le> ss_sequence st" and "ss_sequence st < max_safe"
  shows "storable nf V m"
proof -
  have n: "0 < nextSequence st" "is_safe (nextSequence st)" using assms(3,4) by (simp_all add: nextSequence_def is_safe_def)
  show ?thesis
    using assms(1,2) n
    by (cases c) (auto simp: planned_def try_bind_eq_Inr storable_def call_storable_def provisioned_entry.defs new_record.defs)
qed

lemma memory_ok_created: "js_state s = new_SessionState \<Longrightarrow> memory_ok (as_memory s)"
  using memory_ok_new [of md] by (simp add: memory_ok_def new_InMemorySessionStorage_def)

text \<open>Everything that is known of a storage that was created and used.\<close>

lemma jsonl_reached:
  assumes "file_system fs files" and "header_ok nf h" and "\<forall>c \<in> set calls. call_storable nf V c"
    and "int (length calls) \<le> max_safe" and "jsonl_create nf fs path h w0 = (Inr s0, w1)"
  shows "case run_machine (storage_step (jsonl_ops nf V fs)) calls (s0, w1) of
      Inl err \<Rightarrow> run_machine (storage_step memory_ops) calls (as_memory s0) = Inl err \<or> (\<exists>missing. err = FileFailed missing)
    | Inr (s, w) \<Rightarrow> run_machine (storage_step memory_ops) calls (as_memory s0) = Inr (as_memory s)
        \<and> (\<exists>ms. logged nf V files h ms s w \<and> length ms = length calls) \<and> js_metadata s = js_metadata s0"
    and "as_memory s0 = new_InMemorySessionStorage \<lparr>sm_id = jh_id h, sm_createdAt = jh_createdAt h, sm_parentSessionId = jh_parentSessionId h\<rparr>"
    and "jm_path (js_metadata s0) = path"
proof -
  note created = file_system.create_logged [OF assms(1,5,2)]
  have "storable nf V m" if "c \<in> set calls" "planned c st = Inr m" "ss_sequence st < int (length calls)" "0 \<le> ss_sequence st" for c st m
    using planned_storable [of nf V c st m] that assms(3,4) by auto
  then show "case run_machine (storage_step (jsonl_ops nf V fs)) calls (s0, w1) of
      Inl err \<Rightarrow> run_machine (storage_step memory_ops) calls (as_memory s0) = Inl err \<or> (\<exists>missing. err = FileFailed missing)
    | Inr (s, w) \<Rightarrow> run_machine (storage_step memory_ops) calls (as_memory s0) = Inr (as_memory s)
        \<and> (\<exists>ms. logged nf V files h ms s w \<and> length ms = length calls) \<and> js_metadata s = js_metadata s0"
    using file_system.run_logged [OF assms(1) created(1) memory_ok_created [OF created(2)], of calls V]
    by (cases "run_machine (storage_step (jsonl_ops nf V fs)) calls (s0, w1)") auto
  from assms(5) obtain mtime where "s0 = new_JsonlSessionStorage (metadataFromHeader h path mtime)"
    by (auto simp: jsonl_create_def then_result_def fileResult_def split: prod.splits sum.splits)
  then show "as_memory s0 = new_InMemorySessionStorage \<lparr>sm_id = jh_id h, sm_createdAt = jh_createdAt h, sm_parentSessionId = jh_parentSessionId h\<rparr>"
    by (simp add: as_memory_def new_JsonlSessionStorage_def new_InMemorySessionStorage_def metadataFromHeader_def session_metadata.defs)
  show "jm_path (js_metadata s0) = path" by (rule created(3))
qed

lemma logged_sequence: "logged nf V files h ms s w \<Longrightarrow> ss_sequence (js_state s) = int (length ms)"
  using run_sequence [of ms new_SessionState "js_state s"] by (simp add: logged_def new_SessionState_def)

lemma loaded_metadata: "session_metadata.truncate (metadataFromHeader h path a) = session_metadata.truncate (metadataFromHeader h path b)"
  by (simp add: metadataFromHeader_def session_metadata.defs)

lemma created_metadata:
  "jsonl_create nf fs path h w0 = (Inr s0, w1) \<Longrightarrow> \<exists>mtime. js_metadata s0 = metadataFromHeader h path mtime"
  by (auto simp: jsonl_create_def new_JsonlSessionStorage_def then_result_def fileResult_def split: prod.splits sum.splits)

text \<open>A mutation survives its line: whatever the objects of entries and records hold, a mutation that JSON can hold is
  encoded as one line without a newline inside, that line is parsed back into the same mutation, and a strict
  prefix of it, even with a replacement character for a broken last one, is rejected as a syntax error, the mark
  by which the loader knows a torn tail.\<close>

theorem jsonl_mutation_roundtrip:
  assumes "storable nf V m"
  shows "\<exists>l. encodeMutation nf V m = l @ [10] \<and> 10 \<notin> set l \<and> parseMutation nf V l = Inr m
    \<and> (\<forall>p q junk. l = p @ q \<and> q \<noteq> [] \<and> (junk = [] \<or> junk = [0xFFFD]) \<longrightarrow>
        (\<exists>err. parseMutation nf V (p @ junk) = Inl (SyntaxFault err)))"
proof (rule exI [of _ "line_of nf V m"], intro conjI allI impI)
  note line = line_of_facts [OF assms]
  show "encodeMutation nf V m = line_of nf V m @ [10]" "10 \<notin> set (line_of nf V m)" "parseMutation nf V (line_of nf V m) = Inr m"
    by (rule line)+
  fix p q junk :: jstr
  assume "line_of nf V m = p @ q \<and> q \<noteq> [] \<and> (junk = [] \<or> junk = [0xFFFD])"
  then have "torn_of (line_of nf V m) (p @ junk)" by (auto simp: torn_of_def)
  then show "\<exists>err. parseMutation nf V (p @ junk) = Inl (SyntaxFault err)" by (rule line(5))
qed

text \<open>C12 (refinement). The file-backed storage refines the in-memory one: a storage that is created in a file and then used by any calls
  whose data JSON can hold answers every call as an in-memory storage of the same metadata does, with the same
  state behind it and the same errors; only the file system adds errors of its own.\<close>

theorem jsonl_refines_memory:
  assumes "file_system fs files" and "header_ok nf h" and "\<forall>c \<in> set calls. call_storable nf V c"
    and "int (length calls) \<le> max_safe" and "jsonl_create nf fs path h w0 = (Inr s0, w1)"
  shows "case run_machine (storage_step (jsonl_ops nf V fs)) calls (s0, w1) of
      Inr (s, w) \<Rightarrow> run_machine (storage_step memory_ops) calls (new_InMemorySessionStorage
          \<lparr>sm_id = jh_id h, sm_createdAt = jh_createdAt h, sm_parentSessionId = jh_parentSessionId h\<rparr>) = Inr (as_memory s)
    | Inl err \<Rightarrow> run_machine (storage_step memory_ops) calls (new_InMemorySessionStorage
          \<lparr>sm_id = jh_id h, sm_createdAt = jh_createdAt h, sm_parentSessionId = jh_parentSessionId h\<rparr>) = Inl err
        \<or> (\<exists>missing. err = FileFailed missing)"
  using jsonl_reached(1) [OF assms, unfolded jsonl_reached(2) [OF assms]]
  by (auto split: sum.splits prod.splits)

lemma loaded_state:
  assumes "file_system fs files" and "logged nf V files h ms s w" and "js_metadata s = metadataFromHeader h path mtime0"
    and "storable nf V m" and "applyMutation' m (js_state s) = Inr st"
    and "files w path = Some text" and "files wc path = Some (text @ cut_line)" and "crash_tail (line_of nf V m) cut_line"
    and "jsonl_load nf V fs path wc = (Inr s', w')"
  shows "if cut_line = line_of nf V m \<or> cut_line = line_of nf V m @ [10]
    then as_memory s' = as_memory (s\<lparr>js_state := st\<rparr>) \<and> files w' path = Some (text @ encodeMutation nf V m)
    else as_memory s' = as_memory s \<and> files w' path = Some text"
proof -
  have path: "jm_path (js_metadata s) = path" by (simp add: assms(3) metadataFromHeader_def)
  have logs: "header_ok nf h" "\<forall>m \<in> set ms. storable nf V m" "run_machine applyMutation' ms new_SessionState = Inr (js_state s)"
    "text = log_text nf V h ms"
    using assms(2,6) path by (simp_all add: logged_def)
  note load = file_system.load_log [OF assms(1) logs(1,2) assms(4) logs(3) assms(5) _ assms(8,9)]
  from load(1) assms(7) logs(4) obtain mtime where "js_metadata s' = metadataFromHeader h path mtime" by auto
  then have metadata: "session_metadata.truncate (js_metadata s') = session_metadata.truncate (js_metadata s)"
    using assms(3) loaded_metadata [of h path mtime mtime0] by simp
  show ?thesis
    using load(2) assms(7) logs(4) metadata by (auto simp: as_memory_def log_text_def split: if_splits)
qed

lemma load_fails:
  assumes "file_system fs files" and "logged nf V files h ms s w" and "jm_path (js_metadata s) = path"
    and "storable nf V m" and "applyMutation' m (js_state s) = Inr st"
    and "files w path = Some text" and "files wc path = Some (text @ cut_line)" and "crash_tail (line_of nf V m) cut_line"
    and "jsonl_load nf V fs path wc = (Inl err, w')"
  shows "\<exists>missing. err = FileFailed missing"
  using assms file_system.load_log_fails [OF assms(1) _ _ assms(4) _ assms(5) _ assms(8,9), of h ms]
  by (simp add: logged_def)

text \<open>C14 (roundtrip). A session survives a restart: after any successful run of calls on a storage in a file, loading that file
  gives a storage with the same metadata and the same state and leaves the file as it is; the file system
  failing is the only way loading can fail.\<close>

theorem jsonl_session_survives_restart:
  assumes "file_system fs files" and "header_ok nf h" and "\<forall>c \<in> set calls. call_storable nf V c"
    and "int (length calls) \<le> max_safe" and "jsonl_create nf fs path h w0 = (Inr s0, w1)"
    and "run_machine (storage_step (jsonl_ops nf V fs)) calls (s0, w1) = Inr (s, w)"
    and "files w2 path = files w path" and "jsonl_load nf V fs path w2 = (r, w')"
  shows "case r of
      Inr s' \<Rightarrow> as_memory s' = as_memory s \<and> files w' path = files w path
    | Inl err \<Rightarrow> \<exists>missing. err = FileFailed missing"
proof -
  note reached = jsonl_reached [OF assms(1-5), unfolded assms(6)]
  from reached(1) obtain ms where ms: "logged nf V files h ms s w" "length ms = length calls" and metadata: "js_metadata s = js_metadata s0"
    by auto
  from created_metadata [OF assms(5)] metadata obtain mtime where md: "js_metadata s = metadataFromHeader h path mtime" by metis
  then have path: "jm_path (js_metadata s) = path" by (simp add: metadataFromHeader_def)
  from ms(1) path have log: "header_ok nf h" "\<forall>m \<in> set ms. storable nf V m"
    "run_machine applyMutation' ms new_SessionState = Inr (js_state s)" "files w2 path = Some (log_text nf V h ms)"
    using assms(7) by (simp_all add: logged_def)
  show ?thesis
  proof (cases r)
    case (Inl err)
    with file_system.load_clean [OF assms(1) log assms(8)] show ?thesis by simp
  next
    case (Inr s')
    with file_system.load_clean [OF assms(1) log assms(8)] md assms(7) show ?thesis by (auto simp: as_memory_def intro: loaded_metadata)
  qed
qed

text \<open>C13 (safety). A crash in the middle of an append loses nothing that was acknowledged: let a storage in a file have been used by
  any calls and let the process die while a further call appends its line, so that of the line nothing, a part
  (perhaps with a broken last character), all but its end or everything has reached the file. Loading the file
  then yields the state before or behind that call, the latter exactly when the line is complete, and repairs the
  file so that it is the log of that state; it never reports the file as corrupt.\<close>

theorem jsonl_crash_recovery:
  assumes "file_system fs files" and "header_ok nf h" and "\<forall>c \<in> set (c # calls). call_storable nf V c"
    and "int (length calls) < max_safe" and "jsonl_create nf fs path h w0 = (Inr s0, w1)"
    and "run_machine (storage_step (jsonl_ops nf V fs)) calls (s0, w1) = Inr (s, w)"
    and "planned c (js_state s) = Inr m"
    and "files w path = Some text" and "files wc path = Some (text @ cut_line)" and "crash_tail (line_of nf V m) cut_line"
    and "jsonl_load nf V fs path wc = (r, w')"
  shows "case r of
      Inl err \<Rightarrow> \<exists>missing. err = FileFailed missing
    | Inr s' \<Rightarrow> if cut_line = line_of nf V m \<or> cut_line = line_of nf V m @ [10]
        then storage_step memory_ops c (as_memory s) = Inr (as_memory s') \<and> files w' path = Some (text @ encodeMutation nf V m)
        else as_memory s' = as_memory s \<and> files w' path = Some text"
proof -
  have few: "int (length calls) \<le> max_safe" and calls: "\<forall>c \<in> set calls. call_storable nf V c" using assms(3,4) by auto
  note reached = jsonl_reached [OF assms(1,2) calls few assms(5), unfolded assms(6)]
  from reached(1) obtain ms where ms: "logged nf V files h ms s w" "length ms = length calls" and metadata: "js_metadata s = js_metadata s0"
    and memory: "run_machine (storage_step memory_ops) calls (as_memory s0) = Inr (as_memory s)"
    by auto
  from created_metadata [OF assms(5)] metadata obtain mtime where md: "js_metadata s = metadataFromHeader h path mtime" by metis
  then have path: "jm_path (js_metadata s) = path" by (simp add: metadataFromHeader_def)
  have ok: "memory_ok (as_memory s)" using memory.reachable_inv [OF memory [unfolded reached(2)]] .
  from planned_accepted [OF ok, of c m] assms(7) obtain st where st: "applyMutation' m (js_state s) = Inr st" by auto
  have m: "storable nf V m"
    using planned_storable [of nf V c "js_state s" m] assms(3,4,7) logged_sequence [OF ms(1)] ms(2) by auto
  have step: "storage_step memory_ops c (as_memory s) = Inr (as_memory (s\<lparr>js_state := st\<rparr>))"
    using assms(7) st by (simp add: memory_step_planned memory_mutate_def)
  show ?thesis
  proof (cases r)
    case (Inl err)
    with load_fails [OF assms(1) ms(1) path m st assms(8-10)] assms(11) show ?thesis by simp
  next
    case (Inr s')
    with loaded_state [OF assms(1) ms(1) md m st assms(8-10)] assms(11) step show ?thesis by (auto split: if_splits)
  qed
qed

text \<open>Forking into a file is all or nothing: from any well-formed state, the destination is either untouched or
  holds the complete log of the fork, whatever the file system does on the way; a fork that returns is the fork of
  the in-memory storage, and the file system is the only source of errors once the selection has succeeded.\<close>

theorem jsonl_fork_is_atomic:
  assumes "file_system fs files" and "header_ok nf h" and "memory_ok (as_memory s)"
    and "createForkMutations (js_state s) options = Inr ms" and "\<forall>m \<in> set ms. storable nf V m"
    and "jsonl_fork nf V fs path h options s w = (r, w')"
  shows "(files w' path = files w path \<or> files w' path = Some (encodeHeader nf h @ concat (map (encodeMutation nf V) ms)))
    \<and> (case r of
        Inl err \<Rightarrow> \<exists>missing. err = FileFailed missing
      | Inr t \<Rightarrow> memory_fork \<lparr>sm_id = jh_id h, sm_createdAt = jh_createdAt h, sm_parentSessionId = jh_parentSessionId h\<rparr>
            options (as_memory s) = Inr (as_memory t)
          \<and> files w' path = Some (encodeHeader nf h @ concat (map (encodeMutation nf V) ms)))"
proof -
  let ?md = "\<lparr>sm_id = jh_id h, sm_createdAt = jh_createdAt h, sm_parentSessionId = jh_parentSessionId h\<rparr>"
  have "wf_state (js_state s)" using assms(3) by (simp add: memory_ok_def)
  from fork_applies [OF this assms(4)] obtain st where st: "run_machine applyMutation' ms new_SessionState = Inr st" by blast
  have "run_machine memory_mutate ms (new_InMemorySessionStorage ?md) = Inr (new_InMemorySessionStorage ?md\<lparr>ms_state := st\<rparr>)"
    by (rule run_memory_mutate) (simp add: new_InMemorySessionStorage_def st)
  then have memory: "memory_fork ?md options (as_memory s) = Inr (new_InMemorySessionStorage ?md\<lparr>ms_state := st\<rparr>)"
    by (simp add: memory_fork_def assms(4))
  have fork: "as_memory t = new_InMemorySessionStorage ?md\<lparr>ms_state := st\<rparr>"
    if "js_state t = st" "js_metadata t = metadataFromHeader h path mtime" for t mtime
    using that by (simp add: as_memory_def new_InMemorySessionStorage_def metadataFromHeader_def session_metadata.defs)
  from file_system.fork_logged [OF assms(1,2,4,5) st assms(6)] memory fork show ?thesis
    by (auto simp: log_text_def split: sum.splits)
qed

section \<open>A failed append\<close>

text \<open>
  An append that fails after a part of its line leaves that part in the file, and nothing removes it: the next append
  goes behind it. That append is reported as done, and is dropped as a torn tail when the file is loaded again.
\<close>

lemma line_is_object: "storable nf V m \<Longrightarrow> \<exists>rest. line_of nf V m = 123 # rest"
proof -
  assume m: "storable nf V m"
  note line = line_of_facts(1) [OF m] line_of_facts(3) [OF m]
  from line obtain t where "json_text (nf_show nf) (JObj () plain_object (mutation_fields V m)) = Inr (Some t)" and t: "line_of nf V m = t"
    by (auto simp: encodeMutation_def stringify_line_def simp del: json_text.simps split: sum.splits option.splits)
  then have "\<exists>a. 123 # join_with 44 a @ [125] = t" by (auto simp: jlit_def try_bind_eq_Inr)
  then show ?thesis unfolding t by metis
qed

lemma two_braces_rejected: "parse_json rd (123 # 123 # rest) = None"
  by (simp add: parse_json_def parse_unit_def number_unit_def is_digit_def is_space_def start_value_def)

lemma failed_append_hides_the_next:
  assumes "file_system fs files" and "logged nf V files h ms s w" and "jm_path (js_metadata s) = path"
    and "files w path = Some content" and "files w1 path = Some (content @ [123])"
    and "storable nf V m" and "applyMutation' m (js_state s) = Inr st"
    and "jsonl_commit nf V fs m s w1 = (Inr s2, w2)" and "jsonl_load nf V fs path w2 = (Inr s3, w3)"
  shows "js_state s2 = st \<and> js_state s3 = js_state s"
proof -
  note line = line_of_facts [OF assms(6)]
  from line_is_object [OF assms(6)] obtain rest where rest: "line_of nf V m = 123 # rest" by blast
  have syntax_fault: "parseMutation nf V (123 # line_of nf V m) = Inl (SyntaxFault (jlit ''is not valid JSON''))"
    by (simp add: rest parseMutation_def parseObject_def two_braces_rejected)
  obtain u where appended: "fo_appendFile fs path (encodeMutation nf V m) w1 = (Inr u, w2)" and s2: "js_state s2 = st"
    using assms(3,7,8) by (auto simp: jsonl_commit_def appendMutation_def then_result_def fileResult_def split: prod.splits sum.splits)
  have log: "header_ok nf h" "\<forall>m \<in> set ms. storable nf V m" "run_machine applyMutation' ms new_SessionState = Inr (js_state s)"
    "content = log_text nf V h ms"
    using assms(2-4) by (simp_all add: logged_def)
  have "files w2 path = Some (log_text nf V h ms @ (123 # line_of nf V m) @ [10])"
    using file_system.append_files [OF assms(1) appended] assms(5) log(4) line(1) by simp
  from file_system.load_torn [OF assms(1) log(1-3) this _ _ _ syntax_fault assms(9)] line(2) s2 show ?thesis by auto
qed

section \<open>A session on a disk\<close>

text \<open>The layout of custom entries without data, and of abort requests.\<close>

definition read_text :: "json_fields \<Rightarrow> string \<Rightarrow> jstr" where
  "read_text fs k = (case map_of fs (jlit k) of Some (JStr s) \<Rightarrow> s | _ \<Rightarrow> [])"

definition read_number :: "json_fields \<Rightarrow> string \<Rightarrow> int" where
  "read_number fs k = (case map_of fs (jlit k) of Some (JNum (JInt n)) \<Rightarrow> n | _ \<Rightarrow> 0)"

definition sample_views :: object_views where
  "sample_views = \<lparr>
     ov_entry_fields = (\<lambda>e. [(jlit ''id'', JStr (entry_id e)), (jlit ''type'', JStr (entry_type_name (entry_type e))),
       (jlit ''parentId'', nullable_id (entry_parentId e)), (jlit ''seq'', JNum (JInt (entry_seq e))),
       (jlit ''timestamp'', JNum (JInt (entry_timestamp e))),
       (jlit ''customType'', JStr (case entry_body e of CustomBody t _ \<Rightarrow> t | _ \<Rightarrow> []))]),
     ov_record_fields = (\<lambda>r. [(jlit ''id'', JStr (rec_id r)), (jlit ''lane'', JStr (rec_lane r)),
       (jlit ''type'', JStr (record_type_name (record_type r))), (jlit ''seq'', JNum (JInt (rec_seq r))),
       (jlit ''timestamp'', JNum (JInt (rec_timestamp r))), (jlit ''runId'', JStr (case rec_body r of AbortRequested i \<Rightarrow> i | _ \<Rightarrow> []))]),
     ov_entry = (\<lambda>fs. \<lparr>entry_id = read_text fs ''id'', entry_body = CustomBody (read_text fs ''customType'') None,
       entry_seq = read_number fs ''seq'',
       entry_parentId = (case map_of fs (jlit ''parentId'') of Some (JStr s) \<Rightarrow> Some s | _ \<Rightarrow> None),
       entry_timestamp = read_number fs ''timestamp''\<rparr>),
     ov_record = (\<lambda>fs. \<lparr>rec_id = read_text fs ''id'', rec_lane = read_text fs ''lane'',
       rec_body = AbortRequested (read_text fs ''runId''), rec_seq = read_number fs ''seq'', rec_timestamp = read_number fs ''timestamp''\<rparr>)\<rparr>"

definition sample_format :: number_format where
  "sample_format = \<lparr>nf_show = (\<lambda>_. jlit ''0.5''), nf_read = (\<lambda>_. JDouble 0)\<rparr>"

definition sample_header :: jsonl_header where
  "sample_header = \<lparr>jh_id = jlit ''s'', jh_createdAt = 5, jh_cwd = jlit ''/w'', jh_parentSessionId = None,
     jh_legacyParentSessionPath = None, jh_metadata = None\<rparr>"

definition sample_note :: provisioned_entry where
  "sample_note = \<lparr>entry_id = jlit ''a'', entry_body = CustomBody (jlit ''note'') None\<rparr>"

definition sample_file_calls :: "storage_call list" where
  "sample_file_calls = [AppendEntry 6 sample_note main_lane, SetLabel (jlit ''a'') (Some (jlit ''start''))]"

definition empty_disk :: disk where
  "empty_disk = \<lparr>dk_files = [], dk_clock = 0, dk_faults = []\<rparr>"

lemma sample_keys [simp]:
  "array_index (jlit ''type'') = None" "array_index (jlit ''parentId'') = None" "array_index (jlit ''timestamp'') = None"
  "array_index (jlit ''customType'') = None" "array_index (jlit ''runId'') = None"
  by (rule key_no_index, simp add: jlit_def is_digit_def)+

lemma sample_entry_storable:
  assumes "0 < n" and "is_safe n" and "0 \<le> now" and "is_safe now"
  shows "entry_storable nf sample_views \<lparr>entry_id = i, entry_body = CustomBody t None, entry_seq = n, entry_parentId = parent, entry_timestamp = now\<rparr>"
proof -
  have "case parent of None \<Rightarrow> nullable_id parent = JNull | Some s \<Rightarrow> nullable_id parent = JStr s"
    by (cases parent) (simp_all add: nullable_id_def)
  with assms show ?thesis
    by (cases parent)
      (simp_all add: entry_storable_def sample_views_def fields_ok_def stamp_ok_def number_ok_safe read_text_def read_number_def nullable_id_def)
qed

lemma sample_calls_storable: "\<forall>c \<in> set sample_file_calls. call_storable nf sample_views c"
  by (simp add: sample_file_calls_def call_storable_def sample_note_def provisioned_entry.defs sample_entry_storable is_safe_def max_safe_def)

lemma sample_header_ok: "header_ok nf sample_header"
  by (simp add: header_ok_def sample_header_def is_safe_def max_safe_def)

definition sample_created :: "(session_error + jsonl_storage) \<times> disk" where
  "sample_created = jsonl_create sample_format disk_fs (jlit ''f'') sample_header empty_disk"

lemma sample_created_ok: "\<exists>s w. sample_created = (Inr s, w) \<and> js_metadata s = metadataFromHeader sample_header (jlit ''f'') 1
    \<and> js_state s = new_SessionState \<and> dk_files w = [(jlit ''f'', encodeHeader sample_format sample_header)] \<and> dk_faults w = []"
  by (simp add: sample_created_def jsonl_create_def disk_write_def disk_fault_def disk_store_def empty_disk_def disk_mtime_def
      disk_files_def fileResult_def new_JsonlSessionStorage_def)

lemmas disk_eval =
  disk_write_def disk_append_def disk_store_def disk_fault_def disk_files_def disk_mtime_def fileResult_def

lemma sample_run:
  assumes "js_metadata s = metadataFromHeader sample_header (jlit ''f'') 1" and "js_state s = new_SessionState"
    and "dk_files w = [(jlit ''f'', content)]" and "dk_faults w = []"
  shows "\<exists>s' w'. run_machine (storage_step (jsonl_ops sample_format sample_views disk_fs)) sample_file_calls (s, w) = Inr (s', w')
    \<and> getLabel (js_state s') (jlit ''a'') = Some (jlit ''start'')
    \<and> js_metadata s' = js_metadata s \<and> dk_faults w' = [] \<and> (\<exists>content'. dk_files w' = [(jlit ''f'', content')])
    \<and> createForkMutations (js_state s') ForkTree = Inr [MutEntry None \<lparr>entry_id = jlit ''a'', entry_body = CustomBody (jlit ''note'') None,
        entry_seq = 1, entry_parentId = None, entry_timestamp = 6\<rparr>, MutLane 2 main_lane (Some (jlit ''a'')),
        MutLabel 3 (jlit ''a'') (Some (jlit ''start''))]"
  using assms
  by (simp add: sample_file_calls_def sample_note_def jsonl_ops_step jsonl_step_planned planned_def jsonl_commit_def appendMutation_def disk_eval
      metadataFromHeader_def with_world_def requireLane_def validateUnusedId_def validateTarget_def nextSequence_def
      provisioned_entry.defs getLabel_def createForkMutations_def fork_selection_def all_entries_eq getLanes_def Let_def mutation_eval)

text \<open>What the samples above give: a session on a disk, used and ready to be read again.\<close>

lemma sample_session:
  obtains s0 w1 s w content where "jsonl_create sample_format disk_fs (jlit ''f'') sample_header empty_disk = (Inr s0, w1)"
    and "run_machine (storage_step (jsonl_ops sample_format sample_views disk_fs)) sample_file_calls (s0, w1) = Inr (s, w)"
    and "getLabel (js_state s) (jlit ''a'') = Some (jlit ''start'')" and "disk_files w (jlit ''f'') = Some content"
    and "memory_ok (as_memory s)"
    and "createForkMutations (js_state s) ForkTree = Inr [MutEntry None \<lparr>entry_id = jlit ''a'', entry_body = CustomBody (jlit ''note'') None,
        entry_seq = 1, entry_parentId = None, entry_timestamp = 6\<rparr>, MutLane 2 main_lane (Some (jlit ''a'')),
        MutLabel 3 (jlit ''a'') (Some (jlit ''start''))]"
proof -
  from sample_created_ok obtain s0 w1 where created: "jsonl_create sample_format disk_fs (jlit ''f'') sample_header empty_disk = (Inr s0, w1)"
    and md: "js_metadata s0 = metadataFromHeader sample_header (jlit ''f'') 1" and st: "js_state s0 = new_SessionState"
    and files: "dk_files w1 = [(jlit ''f'', encodeHeader sample_format sample_header)]" "dk_faults w1 = []"
    by (auto simp: sample_created_def)
  from sample_run [OF md st files] obtain s w content where
    ran: "run_machine (storage_step (jsonl_ops sample_format sample_views disk_fs)) sample_file_calls (s0, w1) = Inr (s, w)"
    and rest: "getLabel (js_state s) (jlit ''a'') = Some (jlit ''start'')" "dk_files w = [(jlit ''f'', content)]"
      "createForkMutations (js_state s) ForkTree = Inr [MutEntry None \<lparr>entry_id = jlit ''a'', entry_body = CustomBody (jlit ''note'') None,
        entry_seq = 1, entry_parentId = None, entry_timestamp = 6\<rparr>, MutLane 2 main_lane (Some (jlit ''a'')),
        MutLabel 3 (jlit ''a'') (Some (jlit ''start''))]" by blast
  have few: "int (length sample_file_calls) \<le> max_safe" by (simp add: sample_file_calls_def max_safe_def)
  note reached = jsonl_reached [OF disk.file_system_axioms sample_header_ok sample_calls_storable few created, unfolded ran]
  from reached(1) have "run_machine (storage_step memory_ops) sample_file_calls (as_memory s0) = Inr (as_memory s)" by simp
  from memory.reachable_inv [OF this [unfolded reached(2)]] have "memory_ok (as_memory s)" .
  with created ran rest show thesis by (intro that [of s0 w1 s w content]) (simp_all add: disk_files_def)
qed

lemma jsonl_mutation_roundtrip_witness:
  "\<exists>l. encodeMutation sample_format sample_views (MutEntry (Some main_lane) \<lparr>entry_id = jlit ''a'', entry_body = CustomBody (jlit ''note'') None,
      entry_seq = 1, entry_parentId = None, entry_timestamp = 6\<rparr>) = l @ [10] \<and> 10 \<notin> set l"
proof -
  have "storable sample_format sample_views (MutEntry (Some main_lane) \<lparr>entry_id = jlit ''a'', entry_body = CustomBody (jlit ''note'') None,
      entry_seq = 1, entry_parentId = None, entry_timestamp = 6\<rparr>)"
    by (simp add: storable_def sample_entry_storable is_safe_def max_safe_def)
  from jsonl_mutation_roundtrip [OF this] show ?thesis by blast
qed

lemma jsonl_refines_memory_witness:
  "\<exists>s w. run_machine (storage_step memory_ops) sample_file_calls (new_InMemorySessionStorage
      \<lparr>sm_id = jlit ''s'', sm_createdAt = 5, sm_parentSessionId = None\<rparr>) = Inr (as_memory s)
    \<and> getLabel (js_state s) (jlit ''a'') = Some (jlit ''start'') \<and> disk_files w (jlit ''f'') \<noteq> None"
proof -
  obtain s0 w1 s w content where session: "jsonl_create sample_format disk_fs (jlit ''f'') sample_header empty_disk = (Inr s0, w1)"
    "run_machine (storage_step (jsonl_ops sample_format sample_views disk_fs)) sample_file_calls (s0, w1) = Inr (s, w)"
    "getLabel (js_state s) (jlit ''a'') = Some (jlit ''start'')" "disk_files w (jlit ''f'') = Some content" by (rule sample_session)
  have few: "int (length sample_file_calls) \<le> max_safe" by (simp add: sample_file_calls_def max_safe_def)
  from jsonl_refines_memory [OF disk.file_system_axioms sample_header_ok sample_calls_storable few session(1)] session(2-4) show ?thesis
    by (auto simp: sample_header_def)
qed

lemma jsonl_session_survives_restart_witness:
  "\<exists>s w r w'. getLabel (js_state s) (jlit ''a'') = Some (jlit ''start'')
    \<and> jsonl_load sample_format sample_views disk_fs (jlit ''f'') w = (r, w')
    \<and> (case r of Inr s' \<Rightarrow> as_memory s' = as_memory s \<and> disk_files w' (jlit ''f'') = disk_files w (jlit ''f'')
       | Inl err \<Rightarrow> \<exists>missing. err = FileFailed missing)"
proof -
  obtain s0 w1 s w content where session: "jsonl_create sample_format disk_fs (jlit ''f'') sample_header empty_disk = (Inr s0, w1)"
    "run_machine (storage_step (jsonl_ops sample_format sample_views disk_fs)) sample_file_calls (s0, w1) = Inr (s, w)"
    "getLabel (js_state s) (jlit ''a'') = Some (jlit ''start'')" "disk_files w (jlit ''f'') = Some content" by (rule sample_session)
  have few: "int (length sample_file_calls) \<le> max_safe" by (simp add: sample_file_calls_def max_safe_def)
  obtain r w' where load: "jsonl_load sample_format sample_views disk_fs (jlit ''f'') w = (r, w')" by fastforce
  from jsonl_session_survives_restart [OF disk.file_system_axioms sample_header_ok sample_calls_storable few session(1,2) refl load] session(3) load
  show ?thesis by blast
qed

lemma jsonl_crash_recovery_witness:
  "\<exists>s m content wc r w'. planned (SetName None) (js_state s) = Inr m
    \<and> disk_files wc (jlit ''f'') = Some (content @ butlast (line_of sample_format sample_views m))
    \<and> jsonl_load sample_format sample_views disk_fs (jlit ''f'') wc = (r, w')
    \<and> (case r of Inl err \<Rightarrow> \<exists>missing. err = FileFailed missing
       | Inr s' \<Rightarrow> as_memory s' = as_memory s \<and> disk_files w' (jlit ''f'') = Some content)"
proof -
  obtain s0 w1 s w content where session: "jsonl_create sample_format disk_fs (jlit ''f'') sample_header empty_disk = (Inr s0, w1)"
    "run_machine (storage_step (jsonl_ops sample_format sample_views disk_fs)) sample_file_calls (s0, w1) = Inr (s, w)"
    "getLabel (js_state s) (jlit ''a'') = Some (jlit ''start'')" and content: "disk_files w (jlit ''f'') = Some content" by (rule sample_session)
  have few: "int (length sample_file_calls) < max_safe" by (simp add: sample_file_calls_def max_safe_def)
  define m where "m = MutName (nextSequence (js_state s)) None"
  define l where "l = line_of sample_format sample_views m"
  define wc where "wc = disk_store (jlit ''f'') (content @ butlast l) w"
  have planned: "planned (SetName None) (js_state s) = Inr m" by (simp add: planned_def m_def)
  have calls: "\<forall>c \<in> set (SetName None # sample_file_calls). call_storable sample_format sample_views c"
    using sample_calls_storable by (simp add: call_storable_def)
  have few': "int (length sample_file_calls) \<le> max_safe" using few by simp
  from jsonl_reached(1) [OF disk.file_system_axioms sample_header_ok sample_calls_storable few' session(1), unfolded session(2)]
  obtain ms where ms: "logged sample_format sample_views disk_files sample_header ms s w" "length ms = length sample_file_calls" by auto
  have "storable sample_format sample_views m"
    using planned_storable [OF _ planned, of sample_format sample_views] logged_sequence [OF ms(1)] ms(2) few by (simp add: call_storable_def)
  then have l: "l \<noteq> []" "10 \<notin> set l" by (simp_all add: l_def line_of_facts)
  then have cut_line: "butlast l \<noteq> l" "butlast l \<noteq> l @ [10]"
    by (metis append_butlast_last_id not_Cons_self2 self_append_conv, metis in_set_butlastD in_set_conv_decomp)
  have "torn_of l (butlast l)"
    unfolding torn_of_def using l(1) by (intro exI [of _ "butlast l"] exI [of _ "[last l]"] exI [of _ "[]"]) simp
  then have tail: "crash_tail l (butlast l)" by (simp add: crash_tail_def)
  have wc: "disk_files wc (jlit ''f'') = Some (content @ butlast l)" by (simp add: wc_def)
  obtain r w' where load: "jsonl_load sample_format sample_views disk_fs (jlit ''f'') wc = (r, w')" by fastforce
  have "case r of Inl err \<Rightarrow> \<exists>missing. err = FileFailed missing
      | Inr s' \<Rightarrow> as_memory s' = as_memory s \<and> disk_files w' (jlit ''f'') = Some content"
    using jsonl_crash_recovery [OF disk.file_system_axioms sample_header_ok calls few session(1,2) planned content wc [unfolded l_def] tail [unfolded l_def] load]
      cut_line by (simp add: l_def split: sum.splits)
  with planned wc load show ?thesis unfolding l_def by blast
qed

lemma jsonl_fork_is_atomic_witness:
  "\<exists>s w r w'. jsonl_fork sample_format sample_views disk_fs (jlit ''g'') sample_header ForkTree s w = (r, w')
    \<and> getLabel (js_state s) (jlit ''a'') = Some (jlit ''start'')
    \<and> (case r of Inl err \<Rightarrow> \<exists>missing. err = FileFailed missing
       | Inr t \<Rightarrow> memory_fork \<lparr>sm_id = jlit ''s'', sm_createdAt = 5, sm_parentSessionId = None\<rparr> ForkTree (as_memory s) = Inr (as_memory t))"
proof -
  obtain s0 w1 s w content where session: "jsonl_create sample_format disk_fs (jlit ''f'') sample_header empty_disk = (Inr s0, w1)"
    "run_machine (storage_step (jsonl_ops sample_format sample_views disk_fs)) sample_file_calls (s0, w1) = Inr (s, w)"
    "getLabel (js_state s) (jlit ''a'') = Some (jlit ''start'')" "disk_files w (jlit ''f'') = Some content" and ok: "memory_ok (as_memory s)"
    and ms: "createForkMutations (js_state s) ForkTree = Inr [MutEntry None \<lparr>entry_id = jlit ''a'', entry_body = CustomBody (jlit ''note'') None,
        entry_seq = 1, entry_parentId = None, entry_timestamp = 6\<rparr>, MutLane 2 main_lane (Some (jlit ''a'')),
        MutLabel 3 (jlit ''a'') (Some (jlit ''start''))]" by (rule sample_session)
  obtain r w' where fork: "jsonl_fork sample_format sample_views disk_fs (jlit ''g'') sample_header ForkTree s w = (r, w')" by fastforce
  have "\<forall>m \<in> set [MutEntry None \<lparr>entry_id = jlit ''a'', entry_body = CustomBody (jlit ''note'') None,
        entry_seq = 1, entry_parentId = None, entry_timestamp = 6\<rparr>, MutLane 2 main_lane (Some (jlit ''a'')),
        MutLabel 3 (jlit ''a'') (Some (jlit ''start''))]. storable sample_format sample_views m"
    by (simp add: storable_def sample_entry_storable is_safe_def max_safe_def)
  note atomic = jsonl_fork_is_atomic [OF disk.file_system_axioms sample_header_ok ok ms this fork]
  have header: "jh_id sample_header = jlit ''s''" "jh_createdAt sample_header = 5" "jh_parentSessionId sample_header = None"
    by (simp_all add: sample_header_def)
  from atomic [THEN conjunct2, unfolded header] have "case r of Inl err \<Rightarrow> \<exists>missing. err = FileFailed missing
      | Inr t \<Rightarrow> memory_fork \<lparr>sm_id = jlit ''s'', sm_createdAt = 5, sm_parentSessionId = None\<rparr> ForkTree (as_memory s) = Inr (as_memory t)"
    by (cases r) auto
  with fork session(3) show ?thesis by blast
qed

end
