(* ===== verification/Protocol_Messages.thy ===== *)
theory Protocol_Messages
  imports Protocol_Codec Json_Text
begin

text \<open>
  The messages of the protocol (\<open>packages/protocol/src/schemas.ts\<close>), as the types that the schemas give them, down to
  what the client and the server look at: transcript items and progress stay JSON data. Reading a validated value
  at its type and writing a message as a value are arguments of the model (\<open>wire\<close>), like the schema check itself.
\<close>

section \<open>Snapshots\<close>

datatype thinking_level = ThinkOff | ThinkMinimal | ThinkLow | ThinkMedium | ThinkHigh | ThinkXhigh | ThinkMax

datatype session_phase = IdlePhase | TurnPhase | CompactionPhase | BranchSummaryPhase | RetryPhase

record model_ref =
  mr_provider :: jstr
  mr_id :: jstr

record listed_session =
  ls_id :: jstr
  ls_createdAt :: int
  ls_updatedAt :: "int option"
  ls_parentSessionId :: "jstr option"
  ls_sessionName :: "jstr option"
  ls_cwd :: "jstr option"

record session_snapshot =
  sn_id :: jstr
  sn_name :: "jstr option"
  sn_cwd :: jstr
  sn_createdAt :: int
  sn_updatedAt :: int
  sn_phase :: session_phase
  sn_model :: model_ref
  sn_thinkingLevel :: thinking_level
  sn_attached :: bool
  sn_locked :: bool
  sn_revision :: int
  sn_transcript :: "unit jsv list"
  sn_queuedSteer :: "unit jsv list"
  sn_queuedSteerCount :: int

record server_snapshot =
  sv_serverId :: jstr
  sv_protocolVersion :: int
  sv_revision :: int
  sv_sessions :: "listed_session list"
  sv_models :: "unit jsv list"

definition PROTOCOL_VERSION :: int where "PROTOCOL_VERSION = 1"

definition isSupportedProtocolVersion :: "js_number \<Rightarrow> bool" where
  "isSupportedProtocolVersion version \<longleftrightarrow> version = JInt PROTOCOL_VERSION"

section \<open>Errors, commands and results\<close>

datatype protocol_error_code =
    VersionError | BusyError | SessionLockedError | NotFoundError | InvalidRequestError | NotImplementedError | InternalError

record protocol_fault =
  pf_code :: protocol_error_code
  pf_message :: jstr
  pf_details :: "unit jsv option"

record create_options =
  co_cwd :: "jstr option"
  co_name :: "jstr option"
  co_model :: "model_ref option"
  co_thinkingLevel :: "thinking_level option"

datatype command =
    ListCommand
  | CreateCommand create_options
  | AttachCommand jstr
  | DetachCommand jstr
  | PromptCommand jstr jstr
  | SteerCommand jstr jstr
  | AbortCommand jstr
  | SetModelCommand jstr model_ref
  | SetThinkingCommand jstr thinking_level

datatype command_name =
    ListC | CreateC | AttachC | DetachC | PromptC | SteerC | AbortC | SetModelC | SetThinkingC

fun command_of :: "command \<Rightarrow> command_name" where
  "command_of ListCommand = ListC"
| "command_of (CreateCommand _) = CreateC"
| "command_of (AttachCommand _) = AttachC"
| "command_of (DetachCommand _) = DetachC"
| "command_of (PromptCommand _ _) = PromptC"
| "command_of (SteerCommand _ _) = SteerC"
| "command_of (AbortCommand _) = AbortC"
| "command_of (SetModelCommand _ _) = SetModelC"
| "command_of (SetThinkingCommand _ _) = SetThinkingC"

text \<open>\<open>SessionResult\<close> stands for the results that carry a snapshot: create, attach, prompt, steer, abort and the two settings.\<close>

datatype command_result =
    ListResult "listed_session list"
  | DetachResult jstr
  | SessionResult command_name session_snapshot

fun result_command :: "command_result \<Rightarrow> command_name" where
  "result_command (ListResult _) = ListC"
| "result_command (DetachResult _) = DetachC"
| "result_command (SessionResult c _) = c"

section \<open>Messages\<close>

datatype client_message =
    ClientHello js_number
  | Request jstr command

datatype server_event =
    ServerSnapshotEvent server_snapshot
  | SessionSnapshotEvent session_snapshot
  | SessionProgress jstr "unit jsv"
  | SessionRemoved jstr

datatype server_message =
    ServerHello jstr server_snapshot
  | HelloError protocol_fault
  | Response jstr "protocol_fault + command_result"
  | Event server_event

record wire =
  wr_check_client :: "nat jsv \<Rightarrow> bool"
  wr_check_server :: "nat jsv \<Rightarrow> bool"
  wr_accept_client :: "unit jsv \<Rightarrow> bool"
  wr_accept_server :: "unit jsv \<Rightarrow> bool"
  wr_client_value :: "client_message \<Rightarrow> nat jsv"
  wr_server_value :: "server_message \<Rightarrow> nat jsv"
  wr_read_client :: "unit jsv \<Rightarrow> client_message"
  wr_read_server :: "unit jsv \<Rightarrow> server_message"

definition encodeClientMessage :: "wire \<Rightarrow> js_number option \<Rightarrow> client_message \<Rightarrow> protocol_error + bytes" where
  "encodeClientMessage W options m = encodeProtocolMessage (wr_check_client W) ClientMessages options (wr_client_value W m)"

definition encodeServerMessage :: "wire \<Rightarrow> js_number option \<Rightarrow> server_message \<Rightarrow> protocol_error + bytes" where
  "encodeServerMessage W options m = encodeProtocolMessage (wr_check_server W) ServerMessages options (wr_server_value W m)"

definition push_client :: "wire \<Rightarrow> message_decoder \<Rightarrow> bytes \<Rightarrow> (message_decoder \<times> (protocol_error + client_message list)) option" where
  "push_client W d chunk = map_option (\<lambda>(d, r). (d, map_sum id (map (wr_read_client W)) r)) (push_messages (wr_accept_client W) d chunk)"

definition push_server :: "wire \<Rightarrow> message_decoder \<Rightarrow> bytes \<Rightarrow> (message_decoder \<times> (protocol_error + server_message list)) option" where
  "push_server W d chunk = map_option (\<lambda>(d, r). (d, map_sum id (map (wr_read_server W)) r)) (push_messages (wr_accept_server W) d chunk)"

text \<open>
  What a wire must satisfy: the schemas accept the data of what they accept, messages have no other properties than
  data, and reading what was written gives the message back.
\<close>

definition wire_ok :: "wire \<Rightarrow> bool" where
  "wire_ok W \<longleftrightarrow> (\<forall>m. proper_value (wr_server_value W m)) \<and> (\<forall>m. proper_value (wr_client_value W m))
     \<and> (\<forall>v. wr_check_server W v \<longrightarrow> wr_accept_server W (value_data v)) \<and> (\<forall>v. wr_check_client W v \<longrightarrow> wr_accept_client W (value_data v))
     \<and> (\<forall>m. wr_check_server W (wr_server_value W m) \<longrightarrow> wr_read_server W (value_data (wr_server_value W m)) = m)
     \<and> (\<forall>m. wr_check_client W (wr_client_value W m) \<longrightarrow> wr_read_client W (value_data (wr_client_value W m)) = m)"

section \<open>Decoders that return\<close>

definition decoder_ok :: "message_decoder \<Rightarrow> bool" where
  "decoder_ok d \<longleftrightarrow> md_failed d \<or> wf_decoder (md_frames d)"

lemma push_returns:
  assumes "wf_decoder f"
  shows "\<exists>f' r. push f chunk = Some (f', r) \<and> (\<forall>fs. r = Inr fs \<longrightarrow> wf_decoder f')"
proof (cases "split_frames (maxFrameLength f) (pending f @ chunk)")
  case (Inl e)
  with push_follows [OF assms, of chunk] show ?thesis by (auto simp: follows_def)
next
  case (Inr a)
  with push_follows [OF assms, of chunk] show ?thesis by (cases a) (auto simp: follows_def)
qed

lemma push_messages_returns:
  assumes "decoder_ok d"
  obtains d' r where "push_messages check d chunk = Some (d', r)" and "decoder_ok d'"
proof (cases "md_failed d")
  case True
  then show ?thesis using that by (simp add: push_messages_def decoder_ok_def)
next
  case False
  with assms push_returns [of "md_frames d" chunk] obtain f r where "push (md_frames d) chunk = Some (f, r)"
    and "\<forall>fs. r = Inr fs \<longrightarrow> wf_decoder f" by (auto simp: decoder_ok_def)
  with False have "\<exists>d' r. push_messages check d chunk = Some (d', r) \<and> decoder_ok d'"
    by (cases r; cases "parse_frames check (md_kind d) (md_options d) (projr r)") (auto simp: push_messages_def decoder_ok_def)
  with that show ?thesis by blast
qed

lemma new_decoder_ok: "new_ValidatedMessageDecoder kind options = Inr d \<Longrightarrow> decoder_ok d"
  by (auto simp: new_ValidatedMessageDecoder_def try_bind_eq_Inr decoder_ok_def dest: new_FrameDecoder_wf)

section \<open>Sample messages\<close>

definition sample_model :: model_ref where
  "sample_model = \<lparr>mr_provider = jlit ''p'', mr_id = jlit ''m''\<rparr>"

definition sample_session :: "jstr \<Rightarrow> int \<Rightarrow> session_snapshot" where
  "sample_session i r = \<lparr>sn_id = i, sn_name = None, sn_cwd = [], sn_createdAt = 0, sn_updatedAt = 0, sn_phase = IdlePhase,
     sn_model = sample_model, sn_thinkingLevel = ThinkOff, sn_attached = True, sn_locked = True, sn_revision = r,
     sn_transcript = [], sn_queuedSteer = [], sn_queuedSteerCount = 0\<rparr>"

text \<open>A wire that knows three messages.\<close>

definition sample_value :: "int \<Rightarrow> nat jsv" where
  "sample_value n = JObj 1 plain_object [(jlit ''id'', JNum (JInt n))]"

definition sample_server :: server_snapshot where
  "sample_server = \<lparr>sv_serverId = [], sv_protocolVersion = 1, sv_revision = 0, sv_sessions = [], sv_models = []\<rparr>"

definition sample_event :: server_event where
  "sample_event = SessionSnapshotEvent (sample_session [65] 1)"

definition sample_wire :: wire where
  "sample_wire = \<lparr>wr_check_client = (\<lambda>v. v = sample_value 7), wr_check_server = (\<lambda>v. v = sample_value 7 \<or> v = sample_value 8),
     wr_accept_client = (\<lambda>_. True), wr_accept_server = (\<lambda>_. True),
     wr_client_value = (\<lambda>m. if m = ClientHello (JInt PROTOCOL_VERSION) then sample_value 7 else JNull),
     wr_server_value = (\<lambda>m. if m = ServerHello [] sample_server then sample_value 7 else if m = Event sample_event then sample_value 8 else JNull),
     wr_read_client = (\<lambda>_. ClientHello (JInt PROTOCOL_VERSION)),
     wr_read_server = (\<lambda>v. if v = value_data (sample_value 7) then ServerHello [] sample_server else Event sample_event)\<rparr>"

end
