(* ===== verification/Client_Connection.thy ===== *)
theory Client_Connection
  imports Protocol_Messages
begin

text \<open>
  The connection of a client (\<open>packages/client/src/connection.ts\<close>). Its methods run without interruption, but the callbacks
  they make - to the client, to listeners and to the transport - may call methods of the connection again before
  they return: a callback is any function of the whole state. What the transport reports later are events.
  Transports and connection attempts are numbered; the promise of an attempt has the attempt's number.
\<close>

section \<open>State\<close>

text \<open>\<open>ForeignError\<close> is an error that a transport or a listener throws.\<close>

datatype client_error =
    DisconnectedError disconnect_reason
  | ServerFault protocol_fault
  | ProtocolFault jstr
  | CodecFault protocol_error
  | ClientDisposed
  | SessionOwned jstr bool
  | SessionDetached jstr
  | ForeignError jstr
and disconnect_reason = Reason jstr | CausedBy client_error

definition toDisconnectedError :: "client_error \<Rightarrow> client_error" where
  "toDisconnectedError err = (case err of DisconnectedError _ \<Rightarrow> err | _ \<Rightarrow> DisconnectedError (CausedBy err))"

datatype connection_change = ChangeConnecting | ChangeConnected | ChangeDisconnected client_error

text \<open>The attempt, its decoder and its transport; the flag tells whether the promise of the handshake is still held.\<close>

datatype lifecycle =
    Disconnected
  | Connecting nat message_decoder "nat option"
  | Connected nat message_decoder nat bool

text \<open>\<open>cn_promises\<close> are the settled attempts and \<open>cn_notified\<close> the changes that were reported, the latest first.\<close>

record 'w connection =
  cn_maxFrameLength :: js_number
  cn_lifecycle :: lifecycle
  cn_sequence :: nat
  cn_promises :: "(nat \<times> (client_error + server_snapshot)) list"
  cn_notified :: "connection_change list"
  cn_world :: 'w

record 'w connection_hooks =
  ch_onHandshake :: "server_snapshot \<Rightarrow> 'w connection \<Rightarrow> (client_error + unit) \<times> 'w connection"
  ch_onMessage :: "server_message \<Rightarrow> 'w connection \<Rightarrow> 'w connection"
  ch_onStateChange :: "connection_change \<Rightarrow> 'w connection \<Rightarrow> 'w connection"
  ch_open :: "nat \<Rightarrow> 'w connection \<Rightarrow> (client_error + unit) \<times> 'w connection"
  ch_send :: "nat \<Rightarrow> bytes \<Rightarrow> 'w connection \<Rightarrow> (client_error + unit) \<times> 'w connection"
  ch_close :: "nat \<Rightarrow> 'w connection \<Rightarrow> 'w connection"

definition new_Connection :: "js_number option \<Rightarrow> 'w \<Rightarrow> client_error + 'w connection" where
  "new_Connection options w =
     (let mx = case options of None \<Rightarrow> JInt (int DEFAULT_MAX_FRAME_LENGTH) | Some m \<Rightarrow> m
      in case mx of
           JInt n \<Rightarrow> if n \<le> 0 \<or> n > 0xFFFFFFFF then Inl (ForeignError (jlit ''PiClient maxFrameLength must be an integer''))
             else Inr \<lparr>cn_maxFrameLength = mx, cn_lifecycle = Disconnected, cn_sequence = 0, cn_promises = [], cn_notified = [], cn_world = w\<rparr>
         | JDouble _ \<Rightarrow> Inl (ForeignError (jlit ''PiClient maxFrameLength must be an integer'')))"

section \<open>Operations\<close>

fun current_attempt :: "lifecycle \<Rightarrow> nat option" where
  "current_attempt Disconnected = None"
| "current_attempt (Connecting i _ _) = Some i"
| "current_attempt (Connected i _ _ _) = Some i"

fun current_transport :: "lifecycle \<Rightarrow> nat option" where
  "current_transport Disconnected = None"
| "current_transport (Connecting _ _ t) = t"
| "current_transport (Connected _ _ t _) = Some t"

fun current_decoder :: "lifecycle \<Rightarrow> message_decoder option" where
  "current_decoder Disconnected = None"
| "current_decoder (Connecting _ d _) = Some d"
| "current_decoder (Connected _ d _ _) = Some d"

fun with_decoder :: "message_decoder \<Rightarrow> lifecycle \<Rightarrow> lifecycle" where
  "with_decoder d Disconnected = Disconnected"
| "with_decoder d (Connecting i _ t) = Connecting i d t"
| "with_decoder d (Connected i _ t h) = Connected i d t h"

text \<open>The promise of the handshake, when the lifecycle still holds it.\<close>

fun held_handshake :: "lifecycle \<Rightarrow> nat option" where
  "held_handshake (Connecting i _ _) = Some i"
| "held_handshake (Connected i _ _ True) = Some i"
| "held_handshake _ = None"

definition is_connected :: "'w connection \<Rightarrow> bool" where
  "is_connected s \<longleftrightarrow> (case cn_lifecycle s of Connected _ _ _ _ \<Rightarrow> True | _ \<Rightarrow> False)"

text \<open>A promise keeps its first settlement.\<close>

definition settle_attempt :: "nat \<Rightarrow> client_error + server_snapshot \<Rightarrow> 'w connection \<Rightarrow> 'w connection" where
  "settle_attempt i r s = (if i \<in> fst ` set (cn_promises s) then s else s\<lparr>cn_promises := (i, r) # cn_promises s\<rparr>)"

definition report_change :: "'w connection_hooks \<Rightarrow> connection_change \<Rightarrow> 'w connection \<Rightarrow> 'w connection" where
  "report_change H c s = ch_onStateChange H c (s\<lparr>cn_notified := c # cn_notified s\<rparr>)"

text \<open>\<open>#fail\<close>, \<open>#failAndClose\<close> and \<open>#isCurrent\<close>\<close>

definition fail_connection :: "'w connection_hooks \<Rightarrow> client_error \<Rightarrow> 'w connection \<Rightarrow> 'w connection" where
  "fail_connection H err s =
     (if cn_lifecycle s = Disconnected then s
      else let held = held_handshake (cn_lifecycle s); s = s\<lparr>cn_lifecycle := Disconnected\<rparr>
        in report_change H (ChangeDisconnected err) (case held of Some i \<Rightarrow> settle_attempt i (Inl err) s | None \<Rightarrow> s))"

definition failAndClose :: "'w connection_hooks \<Rightarrow> client_error \<Rightarrow> 'w connection \<Rightarrow> 'w connection" where
  "failAndClose H err s = (case current_transport (cn_lifecycle s) of
      None \<Rightarrow> fail_connection H err s
    | Some t \<Rightarrow> ch_close H t (fail_connection H err s))"

definition isCurrent :: "nat \<Rightarrow> 'w connection \<Rightarrow> bool" where
  "isCurrent i s \<longleftrightarrow> current_attempt (cn_lifecycle s) = Some i"

text \<open>\<open>connect\<close> up to the first wait of \<open>#openTransport\<close>; it returns the number of the attempt.\<close>

definition connection_connect :: "'w connection_hooks \<Rightarrow> 'w connection \<Rightarrow> (client_error + nat) \<times> 'w connection" where
  "connection_connect H s = (case cn_lifecycle s of
      Connecting _ _ _ \<Rightarrow> (Inl (DisconnectedError (Reason (jlit ''PiClient is already connecting''))), s)
    | Connected _ _ _ _ \<Rightarrow> (Inl (DisconnectedError (Reason (jlit ''PiClient is already connected''))), s)
    | Disconnected \<Rightarrow>
        (let i = Suc (cn_sequence s); s = s\<lparr>cn_sequence := i\<rparr>
         in case new_ValidatedMessageDecoder ServerMessages (Some (cn_maxFrameLength s)) of
              Inl err \<Rightarrow> (Inl (ForeignError (jlit ''maxFrameLength'')), s)
            | Inr d \<Rightarrow>
                (let s = report_change H ChangeConnecting (s\<lparr>cn_lifecycle := Connecting i d None\<rparr>)
                 in case ch_open H i s of
                      (Inl err, s) \<Rightarrow> (Inr i, if isCurrent i s then fail_connection H (toDisconnectedError err) s else s)
                    | (Inr _, s) \<Rightarrow> (Inr i, s))))"

definition connection_disconnect :: "'w connection_hooks \<Rightarrow> client_error \<Rightarrow> 'w connection \<Rightarrow> 'w connection" where
  "connection_disconnect H reason s = (if cn_lifecycle s = Disconnected then s else failAndClose H reason s)"

definition connection_send :: "'w connection_hooks \<Rightarrow> bytes \<Rightarrow> 'w connection \<Rightarrow> (client_error + unit) \<times> 'w connection" where
  "connection_send H frame s = (case cn_lifecycle s of
      Connected _ _ t _ \<Rightarrow> (case ch_send H t frame s of
          (Inl err, s) \<Rightarrow> (Inr (), failAndClose H (toDisconnectedError err) s)
        | (Inr _, s) \<Rightarrow> (Inr (), s))
    | _ \<Rightarrow> (Inl (DisconnectedError (Reason (jlit ''Pi client is disconnected''))), s))"

text \<open>The rejected promise of a \<open>send\<close> on the transport \<open>t\<close>.\<close>

definition send_rejected :: "'w connection_hooks \<Rightarrow> nat \<Rightarrow> client_error \<Rightarrow> 'w connection \<Rightarrow> 'w connection" where
  "send_rejected H t err s =
     (if cn_lifecycle s \<noteq> Disconnected \<and> current_transport (cn_lifecycle s) = Some t
      then failAndClose H (toDisconnectedError err) s else s)"

text \<open>\<open>#openTransport\<close> behind its first wait, and the rejected promise of the hello it sends.\<close>

definition transport_opened :: "wire \<Rightarrow> 'w connection_hooks \<Rightarrow> nat \<Rightarrow> client_error + nat \<Rightarrow> 'w connection \<Rightarrow> 'w connection" where
  "transport_opened W H i r s = (case r of
      Inl err \<Rightarrow> if isCurrent i s then fail_connection H (toDisconnectedError err) s else s
    | Inr t \<Rightarrow> (case cn_lifecycle s of
          Connecting j d _ \<Rightarrow>
            if j \<noteq> i then ch_close H t s
            else let s = s\<lparr>cn_lifecycle := Connecting j d (Some t)\<rparr>;
                sent = (case encodeClientMessage W (Some (cn_maxFrameLength s)) (ClientHello (JInt PROTOCOL_VERSION)) of
                    Inl err \<Rightarrow> (Inl (CodecFault err), s)
                  | Inr frame \<Rightarrow> ch_send H t frame s)
              in (case sent of
                    (Inl err, s) \<Rightarrow> if isCurrent i s then failAndClose H (toDisconnectedError err) s else s
                  | (Inr _, s) \<Rightarrow> s)
        | _ \<Rightarrow> ch_close H t s))"

definition hello_rejected :: "'w connection_hooks \<Rightarrow> nat \<Rightarrow> client_error \<Rightarrow> 'w connection \<Rightarrow> 'w connection" where
  "hello_rejected H i err s = (if isCurrent i s then failAndClose H (toDisconnectedError err) s else s)"

text \<open>
  \<open>#handleMessage\<close>. The lifecycle object that the code compares with is the one of the attempt in its connected
  state: an attempt enters that state once.
\<close>

definition still_connected :: "nat \<Rightarrow> 'w connection \<Rightarrow> bool" where
  "still_connected i s \<longleftrightarrow> is_connected s \<and> isCurrent i s"

fun release_handshake :: "lifecycle \<Rightarrow> lifecycle" where
  "release_handshake (Connected i d t _) = Connected i d t False"
| "release_handshake l = l"

definition complete_handshake :: "'w connection_hooks \<Rightarrow> nat \<Rightarrow> server_snapshot \<Rightarrow> 'w connection \<Rightarrow> 'w connection" where
  "complete_handshake H i snapshot s = (case ch_onHandshake H snapshot s of
      (Inl err, s) \<Rightarrow> if still_connected i s then failAndClose H err s else s
    | (Inr _, s) \<Rightarrow>
        if \<not> still_connected i s then s
        else let s = report_change H ChangeConnected s
          in if \<not> still_connected i s then s
             else settle_attempt i (Inr snapshot) (s\<lparr>cn_lifecycle := release_handshake (cn_lifecycle s)\<rparr>))"

definition connection_message :: "'w connection_hooks \<Rightarrow> server_message \<Rightarrow> 'w connection \<Rightarrow> 'w connection" where
  "connection_message H m s = (case cn_lifecycle s of
      Connecting i d transport \<Rightarrow> (case m of
          HelloError err \<Rightarrow> failAndClose H (ServerFault err) s
        | ServerHello _ snapshot \<Rightarrow> (case transport of
              None \<Rightarrow> failAndClose H (ProtocolFault (jlit ''Received server hello before the client hello was sent'')) s
            | Some t \<Rightarrow> complete_handshake H i snapshot (s\<lparr>cn_lifecycle := Connected i d t True\<rparr>))
        | _ \<Rightarrow> failAndClose H (ProtocolFault (jlit ''Expected server hello as first message'')) s)
    | Connected _ _ _ _ \<Rightarrow> (case m of
          ServerHello _ _ \<Rightarrow> failAndClose H (ProtocolFault (jlit ''Unexpected handshake message'')) s
        | HelloError _ \<Rightarrow> failAndClose H (ProtocolFault (jlit ''Unexpected handshake message'')) s
        | _ \<Rightarrow> ch_onMessage H m s)
    | Disconnected \<Rightarrow> s)"

fun connection_messages :: "'w connection_hooks \<Rightarrow> server_message list \<Rightarrow> 'w connection \<Rightarrow> 'w connection" where
  "connection_messages H [] s = s"
| "connection_messages H (m # ms) s =
     (if cn_lifecycle s = Disconnected then s else connection_messages H ms (connection_message H m s))"

text \<open>\<open>#handleData\<close>. A decoder of the connection always returns (\<open>push_server_returns\<close> below).\<close>

definition handleData :: "wire \<Rightarrow> 'w connection_hooks \<Rightarrow> nat \<Rightarrow> bytes \<Rightarrow> 'w connection \<Rightarrow> 'w connection" where
  "handleData W H i chunk s =
     (if \<not> isCurrent i s then s
      else if \<not> is_connected s \<and> current_transport (cn_lifecycle s) = None
      then failAndClose H (ProtocolFault (jlit ''Received server data before the client hello was sent'')) s
      else case Option.bind (current_decoder (cn_lifecycle s)) (\<lambda>d. push_server W d chunk) of
          None \<Rightarrow> s
        | Some (d, r) \<Rightarrow>
            (let s = s\<lparr>cn_lifecycle := with_decoder d (cn_lifecycle s)\<rparr>
             in case r of
                  Inl err \<Rightarrow> failAndClose H (CodecFault err) s
                | Inr messages \<Rightarrow> connection_messages H messages s))"

definition handleClose :: "'w connection_hooks \<Rightarrow> 'w connection \<Rightarrow> 'w connection" where
  "handleClose H s = (case current_decoder (cn_lifecycle s) of
      None \<Rightarrow> s
    | Some d \<Rightarrow> fail_connection H (case snd (end_messages d) of
          Inl err \<Rightarrow> CodecFault err
        | Inr _ \<Rightarrow> DisconnectedError (Reason (jlit ''Byte transport closed''))) s)"

text \<open>The handlers that an attempt gives to its transport, and what the transport settles later.\<close>

datatype transport_event =
    Opened nat "client_error + nat"
  | HelloRejected nat client_error
  | SendRejected nat client_error
  | DataReceived nat bytes
  | TransportClosed nat
  | TransportFailed nat client_error

definition transport_step :: "wire \<Rightarrow> 'w connection_hooks \<Rightarrow> transport_event \<Rightarrow> 'w connection \<Rightarrow> 'w connection" where
  "transport_step W H e s = (case e of
      Opened i r \<Rightarrow> transport_opened W H i r s
    | HelloRejected i err \<Rightarrow> hello_rejected H i err s
    | SendRejected t err \<Rightarrow> send_rejected H t err s
    | DataReceived i chunk \<Rightarrow> handleData W H i chunk s
    | TransportClosed i \<Rightarrow> if isCurrent i s then handleClose H s else s
    | TransportFailed i err \<Rightarrow> if isCurrent i s then failAndClose H (toDisconnectedError err) s else s)"

end
