(* ===== verification/Connection_Facts.thy ===== *)
theory Connection_Facts
  imports Client_Connection
begin

text \<open>
  What holds of a connection whatever its callbacks do, as long as they only use its methods: the interface is the
  locale \<open>connection_client\<close>, whose laws the client satisfies, and its results are the invariant \<open>conn_ok\<close> and the
  order \<open>evolves\<close> of what can happen to an attempt.
\<close>

section \<open>Decoders return\<close>

lemma push_server_returns:
  assumes "decoder_ok d"
  obtains d' r where "push_server W d chunk = Some (d', r)" and "decoder_ok d'"
proof -
  obtain d' r where "push_messages (wr_accept_server W) d chunk = Some (d', r)" "decoder_ok d'"
    by (rule push_messages_returns [OF assms])
  with that show thesis by (simp add: push_server_def)
qed

section \<open>The invariant\<close>

fun change_follows :: "connection_change list \<Rightarrow> connection_change \<Rightarrow> bool" where
  "change_follows [] c \<longleftrightarrow> c = ChangeConnecting"
| "change_follows (ChangeConnecting # _) c \<longleftrightarrow> c \<noteq> ChangeConnecting"
| "change_follows (ChangeConnected # _) c \<longleftrightarrow> c \<noteq> ChangeConnecting \<and> c \<noteq> ChangeConnected"
| "change_follows (ChangeDisconnected _ # _) c \<longleftrightarrow> c = ChangeConnecting"

fun legal_changes :: "connection_change list \<Rightarrow> bool" where
  "legal_changes [] \<longleftrightarrow> True"
| "legal_changes (c # cs) \<longleftrightarrow> change_follows cs c \<and> legal_changes cs"

fun last_change_fits :: "lifecycle \<Rightarrow> connection_change list \<Rightarrow> bool" where
  "last_change_fits Disconnected cs \<longleftrightarrow> change_follows cs ChangeConnecting"
| "last_change_fits (Connecting _ _ _) cs \<longleftrightarrow> (\<exists>r. cs = ChangeConnecting # r)"
| "last_change_fits (Connected _ _ _ True) cs \<longleftrightarrow> (\<exists>r. cs = ChangeConnecting # r \<or> cs = ChangeConnected # r)"
| "last_change_fits (Connected _ _ _ False) cs \<longleftrightarrow> (\<exists>r. cs = ChangeConnected # r)"

definition frame_limit_ok :: "js_number \<Rightarrow> bool" where
  "frame_limit_ok mx \<longleftrightarrow> (\<exists>n. mx = JInt n \<and> 0 < n \<and> n \<le> 0xFFFFFFFF)"

text \<open>The attempts that are settled are all but the one whose handshake is held.\<close>

definition conn_ok :: "'w connection \<Rightarrow> bool" where
  "conn_ok s \<longleftrightarrow> frame_limit_ok (cn_maxFrameLength s)
     \<and> distinct (map fst (cn_promises s))
     \<and> fst ` set (cn_promises s) = {i. 1 \<le> i \<and> i \<le> cn_sequence s \<and> held_handshake (cn_lifecycle s) \<noteq> Some i}
     \<and> (\<forall>i. current_attempt (cn_lifecycle s) = Some i \<longrightarrow> i = cn_sequence s \<and> 1 \<le> i)
     \<and> (\<forall>d. current_decoder (cn_lifecycle s) = Some d \<longrightarrow> decoder_ok d)
     \<and> legal_changes (cn_notified s) \<and> last_change_fits (cn_lifecycle s) (cn_notified s)"

text \<open>An attempt is connecting, then connected, then over; a connected one keeps its transport and is reported once.\<close>

fun stage_of :: "lifecycle \<Rightarrow> nat" where
  "stage_of (Connecting _ _ _) = 0"
| "stage_of (Connected _ _ _ _) = 1"
| "stage_of Disconnected = 2"

definition evolves :: "'w connection \<Rightarrow> 'w connection \<Rightarrow> bool" where
  "evolves s s' \<longleftrightarrow> cn_maxFrameLength s' = cn_maxFrameLength s \<and> cn_sequence s \<le> cn_sequence s'
     \<and> (\<forall>p \<in> set (cn_promises s). p \<in> set (cn_promises s'))
     \<and> (cn_sequence s' = cn_sequence s \<longrightarrow> stage_of (cn_lifecycle s) \<le> stage_of (cn_lifecycle s')
         \<and> (is_connected s \<and> is_connected s' \<longrightarrow> cn_notified s' = cn_notified s
              \<and> held_handshake (cn_lifecycle s') = held_handshake (cn_lifecycle s)
              \<and> current_transport (cn_lifecycle s') = current_transport (cn_lifecycle s)))"

lemma evolves_refl [simp]: "evolves s s"
  by (simp add: evolves_def)

lemma connected_stage: "is_connected s \<longleftrightarrow> stage_of (cn_lifecycle s) = 1"
  by (cases "cn_lifecycle s") (simp_all add: is_connected_def)

lemma stage_bound [simp]: "stage_of l \<le> 2"
  by (cases l) simp_all

lemma evolves_trans: "evolves s s' \<Longrightarrow> evolves s' s'' \<Longrightarrow> evolves s s''"
proof -
  assume a: "evolves s s'" and b: "evolves s' s''"
  have "stage_of (cn_lifecycle s) \<le> stage_of (cn_lifecycle s'')
      \<and> (is_connected s \<and> is_connected s'' \<longrightarrow> cn_notified s'' = cn_notified s
          \<and> held_handshake (cn_lifecycle s'') = held_handshake (cn_lifecycle s)
          \<and> current_transport (cn_lifecycle s'') = current_transport (cn_lifecycle s))"
    if "cn_sequence s'' = cn_sequence s"
  proof -
    have "cn_sequence s' = cn_sequence s" "cn_sequence s'' = cn_sequence s'"
      using a b that unfolding evolves_def by linarith+
    with a b show ?thesis by (auto simp: evolves_def connected_stage)
  qed
  with a b show ?thesis unfolding evolves_def by auto
qed

section \<open>The interface\<close>

text \<open>
  What the owner of a connection promises: \<open>J\<close> is a property of its own data that may need the connection to be
  connected; a callback keeps the connection and \<open>J\<close>, and when it is told of a lost connection it restores \<open>J\<close>.
\<close>

definition conn_keeps :: "('w connection \<Rightarrow> bool) \<Rightarrow> 'w connection \<Rightarrow> 'w connection \<Rightarrow> bool" where
  "conn_keeps J s s' \<longleftrightarrow> conn_ok s' \<and> J s' \<and> evolves s s'"

lemma conn_keeps_refl: "conn_ok s \<Longrightarrow> J s \<Longrightarrow> conn_keeps J s s"
  by (simp add: conn_keeps_def)

lemma conn_keeps_trans: "conn_keeps J s s' \<Longrightarrow> conn_keeps J s' s'' \<Longrightarrow> conn_keeps J s s''"
  by (auto simp: conn_keeps_def intro: evolves_trans)

locale connection_client =
  fixes H :: "'w connection_hooks" and J :: "'w connection \<Rightarrow> bool"
  assumes quiet: "J s \<Longrightarrow> cn_world s' = cn_world s \<Longrightarrow> is_connected s \<longrightarrow> is_connected s' \<Longrightarrow> J s'"
    and lost: "J s \<Longrightarrow> cn_world s' = cn_world s \<Longrightarrow> conn_ok s' \<Longrightarrow> cn_lifecycle s' = Disconnected \<Longrightarrow>
        conn_keeps J s' (ch_onStateChange H (ChangeDisconnected err) s')"
    and onHandshake: "conn_ok s \<Longrightarrow> J s \<Longrightarrow> conn_keeps J s (snd (ch_onHandshake H snapshot s))"
    and onMessage: "conn_ok s \<Longrightarrow> J s \<Longrightarrow> conn_keeps J s (ch_onMessage H m s)"
    and onChange: "conn_ok s \<Longrightarrow> J s \<Longrightarrow> conn_keeps J s (ch_onStateChange H c s)"
    and open_keeps: "conn_ok s \<Longrightarrow> J s \<Longrightarrow> conn_keeps J s (snd (ch_open H i s))"
    and send_keeps: "conn_ok s \<Longrightarrow> J s \<Longrightarrow> conn_keeps J s (snd (ch_send H t frame s))"
    and close_keeps: "conn_ok s \<Longrightarrow> J s \<Longrightarrow> conn_keeps J s (ch_close H t s)"
begin

lemma fail_keeps:
  assumes "conn_ok s" and "J s"
  shows "conn_keeps J s (fail_connection H err s) \<and> (cn_lifecycle s \<noteq> Disconnected \<longrightarrow> \<not> still_connected (cn_sequence s) (fail_connection H err s))"
proof (cases "cn_lifecycle s = Disconnected")
  case True
  with assms show ?thesis by (simp add: fail_connection_def conn_keeps_refl)
next
  case False
  define s1 where "s1 = (case held_handshake (cn_lifecycle s) of
      Some i \<Rightarrow> settle_attempt i (Inl err) (s\<lparr>cn_lifecycle := Disconnected\<rparr>) | None \<Rightarrow> s\<lparr>cn_lifecycle := Disconnected\<rparr>)"
  define s2 where "s2 = s1\<lparr>cn_notified := ChangeDisconnected err # cn_notified s1\<rparr>"
  have fail: "fail_connection H err s = ch_onStateChange H (ChangeDisconnected err) s2"
    using False by (simp add: fail_connection_def report_change_def s1_def s2_def Let_def)
  have s1: "cn_lifecycle s1 = Disconnected" "cn_world s1 = cn_world s" "cn_notified s1 = cn_notified s" "cn_sequence s1 = cn_sequence s"
    "cn_maxFrameLength s1 = cn_maxFrameLength s"
    "set (cn_promises s) \<subseteq> set (cn_promises s1)"
    by (auto simp: s1_def settle_attempt_def split: option.split)
  have "legal_changes (ChangeDisconnected err # cn_notified s)"
    using assms(1) False by (cases "cn_lifecycle s" rule: held_handshake.cases) (auto simp: conn_ok_def)
  moreover have "fst ` set (cn_promises s1) = {i. 1 \<le> i \<and> i \<le> cn_sequence s}" "distinct (map fst (cn_promises s1))"
    using assms(1) False by (cases "cn_lifecycle s" rule: held_handshake.cases; auto simp: conn_ok_def s1_def settle_attempt_def)+
  ultimately have s2: "conn_ok s2" using assms(1) s1 by (simp add: conn_ok_def s2_def)
  have "cn_world s2 = cn_world s" "cn_lifecycle s2 = Disconnected" using s1 by (simp_all add: s2_def)
  from lost [OF assms(2) this(1) s2 this(2), of err] have keeps: "conn_keeps J s2 (fail_connection H err s)" by (simp add: fail)
  have "evolves s s2"
    using s1 by (auto simp: evolves_def s2_def is_connected_def)
  moreover have "\<not> still_connected (cn_sequence s) (fail_connection H err s)"
  proof
    assume c: "still_connected (cn_sequence s) (fail_connection H err s)"
    with keeps have "cn_sequence (fail_connection H err s) = cn_sequence s2"
      by (auto simp: conn_keeps_def conn_ok_def still_connected_def isCurrent_def s2_def s1)
    with keeps c show False
      by (auto simp: conn_keeps_def evolves_def still_connected_def connected_stage s2_def s1)
  qed
  ultimately show ?thesis using keeps by (auto simp: conn_keeps_def intro: evolves_trans)
qed

lemma failAndClose_keeps: "conn_ok s \<Longrightarrow> J s \<Longrightarrow> conn_keeps J s (failAndClose H err s)"
proof -
  assume s: "conn_ok s" "J s"
  from fail_keeps [OF this, of err] have f: "conn_keeps J s (fail_connection H err s)" by simp
  then have "conn_ok (fail_connection H err s)" "J (fail_connection H err s)" by (simp_all add: conn_keeps_def)
  from close_keeps [OF this] f show ?thesis by (auto simp: failAndClose_def intro: conn_keeps_trans split: option.split)
qed

lemma close_transport: "conn_ok s \<Longrightarrow> J s \<Longrightarrow> conn_keeps J s (ch_close H t s)"
  by (rule close_keeps)

lemma report_keeps:
  assumes "conn_ok s" and "J s" and "legal_changes (c # cn_notified s)" and "last_change_fits (cn_lifecycle s) (c # cn_notified s)"
  shows "conn_keeps J (s\<lparr>cn_notified := c # cn_notified s\<rparr>) (report_change H c s)"
proof -
  have "conn_ok (s\<lparr>cn_notified := c # cn_notified s\<rparr>)" using assms by (simp add: conn_ok_def)
  moreover have "J (s\<lparr>cn_notified := c # cn_notified s\<rparr>)" by (rule quiet [OF assms(2)]) (simp_all add: is_connected_def)
  ultimately show ?thesis unfolding report_change_def by (rule onChange)
qed

lemma send_frame_keeps:
  assumes "conn_ok s" and "J s" and "ch_send H t frame s = (r, s')"
  shows "conn_keeps J s s'"
  using send_keeps [OF assms(1,2), of t frame] assms(3) by simp

lemma disconnect_keeps: "conn_ok s \<Longrightarrow> J s \<Longrightarrow> conn_keeps J s (connection_disconnect H reason s)"
  by (simp add: connection_disconnect_def failAndClose_keeps conn_keeps_refl)

lemma then_fail_keeps:
  assumes "conn_keeps J s s'"
  shows "conn_keeps J s (failAndClose H err s')" and "conn_keeps J s (fail_connection H err s')"
proof -
  have s': "conn_ok s'" "J s'" using assms by (simp_all add: conn_keeps_def)
  show "conn_keeps J s (failAndClose H err s')" by (rule conn_keeps_trans [OF assms failAndClose_keeps [OF s']])
  show "conn_keeps J s (fail_connection H err s')" using conn_keeps_trans [OF assms] fail_keeps [OF s'] by blast
qed

lemma connection_send_keeps: "conn_ok s \<Longrightarrow> J s \<Longrightarrow> conn_keeps J s (snd (connection_send H frame s))"
  by (auto simp: connection_send_def conn_keeps_refl intro: send_frame_keeps then_fail_keeps
      split: lifecycle.split prod.split sum.split)

lemma send_rejected_keeps: "conn_ok s \<Longrightarrow> J s \<Longrightarrow> conn_keeps J s (send_rejected H t err s)"
  by (simp add: send_rejected_def failAndClose_keeps conn_keeps_refl)

lemma hello_rejected_keeps: "conn_ok s \<Longrightarrow> J s \<Longrightarrow> conn_keeps J s (hello_rejected H i err s)"
  by (simp add: hello_rejected_def failAndClose_keeps conn_keeps_refl)

lemma new_decoder:
  assumes "frame_limit_ok mx"
  obtains d where "new_ValidatedMessageDecoder ServerMessages (Some mx) = Inr d" and "decoder_ok d"
proof -
  have "\<exists>d. new_ValidatedMessageDecoder ServerMessages (Some mx) = Inr d"
    using assms by (auto simp: frame_limit_ok_def new_ValidatedMessageDecoder_def new_FrameDecoder_def resolveMaxFrameLength_def
        is_safe_def max_safe_def MAX_UINT32_frame_def)
  with that new_decoder_ok show thesis by blast
qed

lemma connect_keeps:
  assumes "conn_ok s" and "J s"
  shows "conn_keeps J s (snd (connection_connect H s))"
proof (cases "cn_lifecycle s")
  case Disconnected
  let ?i = "Suc (cn_sequence s)"
  have limit: "frame_limit_ok (cn_maxFrameLength s)" using assms(1) by (simp add: conn_ok_def)
  obtain d where d: "new_ValidatedMessageDecoder ServerMessages (Some (cn_maxFrameLength s)) = Inr d" "decoder_ok d"
    by (rule new_decoder [OF limit])
  define s1 where "s1 = s\<lparr>cn_sequence := ?i, cn_lifecycle := Connecting ?i d None, cn_notified := ChangeConnecting # cn_notified s\<rparr>"
  have "conn_ok s1"
    using assms(1) d(2) Disconnected by (auto simp: s1_def conn_ok_def)
  moreover have "J s1" by (rule quiet [OF assms(2)]) (simp_all add: s1_def is_connected_def Disconnected)
  ultimately have "conn_keeps J s1 (ch_onStateChange H ChangeConnecting s1)" by (rule onChange)
  moreover have "evolves s s1" by (simp add: s1_def evolves_def)
  ultimately have started: "conn_keeps J s (ch_onStateChange H ChangeConnecting s1)"
    by (auto simp: conn_keeps_def intro: evolves_trans)
  then have "conn_ok (ch_onStateChange H ChangeConnecting s1)" "J (ch_onStateChange H ChangeConnecting s1)" by (simp_all add: conn_keeps_def)
  from open_keeps [OF this, of ?i] have opened: "conn_keeps J s (snd (ch_open H ?i (ch_onStateChange H ChangeConnecting s1)))"
    by (rule conn_keeps_trans [OF started])
  have "connection_connect H s = (case ch_open H ?i (ch_onStateChange H ChangeConnecting s1) of
      (Inl err, s) \<Rightarrow> (Inr ?i, if isCurrent ?i s then fail_connection H (toDisconnectedError err) s else s)
    | (Inr _, s) \<Rightarrow> (Inr ?i, s))"
    using d(1) by (simp add: connection_connect_def Disconnected report_change_def s1_def Let_def)
  then show ?thesis using opened then_fail_keeps(2) [OF opened] by (auto split: prod.split sum.split)
qed (use assms in \<open>simp_all add: connection_connect_def conn_keeps_refl\<close>)

lemma transport_opened_keeps:
  assumes "conn_ok s" and "J s"
  shows "conn_keeps J s (transport_opened W H i r s)"
proof (cases "\<exists>t d t0. r = Inr t \<and> cn_lifecycle s = Connecting i d t0")
  case False
  then show ?thesis
    using assms fail_keeps [OF assms] close_keeps [OF assms]
    by (auto simp: transport_opened_def conn_keeps_refl Let_def split: sum.split lifecycle.split)
next
  case True
  then obtain t d t0 where r: "r = Inr t" and l: "cn_lifecycle s = Connecting i d t0" by blast
  define s1 where "s1 = s\<lparr>cn_lifecycle := Connecting i d (Some t)\<rparr>"
  have s1: "conn_ok s1" "J s1" "evolves s s1"
    using assms(1) l quiet [OF assms(2), of s1] by (simp_all add: s1_def conn_ok_def evolves_def is_connected_def)
  then have k1: "conn_keeps J s s1" by (simp add: conn_keeps_def)
  define sent where "sent = (case encodeClientMessage W (Some (cn_maxFrameLength s1)) (ClientHello (JInt PROTOCOL_VERSION)) of
      Inl err \<Rightarrow> (Inl (CodecFault err), s1) | Inr frame \<Rightarrow> ch_send H t frame s1)"
  have k2: "conn_keeps J s (snd sent)"
    using k1 conn_keeps_trans [OF k1 send_keeps [OF s1(1,2)]] by (simp add: sent_def split: sum.split)
  have "transport_opened W H i r s = (case sent of
      (Inl err, s) \<Rightarrow> if isCurrent i s then failAndClose H (toDisconnectedError err) s else s | (Inr _, s) \<Rightarrow> s)"
    unfolding sent_def s1_def by (simp add: transport_opened_def r l Let_def)
  then show ?thesis using k2 then_fail_keeps(1) [OF k2] by (auto split: prod.split sum.split)
qed

text \<open>A completed handshake: the callbacks in between may have ended the attempt.\<close>

lemma complete_keeps:
  assumes "conn_ok s" and "J s" and "cn_lifecycle s = Connecting i d (Some t)"
  shows "conn_keeps J s (complete_handshake H i snapshot (s\<lparr>cn_lifecycle := Connected i d t True\<rparr>))"
proof -
  define s1 where "s1 = s\<lparr>cn_lifecycle := Connected i d t True\<rparr>"
  have i: "i = cn_sequence s" and last: "\<exists>cs. cn_notified s = ChangeConnecting # cs" using assms(1,3) by (simp_all add: conn_ok_def)
  have s1: "conn_ok s1" "J s1" "evolves s s1"
    using assms(1,3) last quiet [OF assms(2), of s1] by (auto simp: s1_def conn_ok_def evolves_def is_connected_def)
  obtain r s2 where handshake: "ch_onHandshake H snapshot s1 = (r, s2)" by fastforce
  have k2: "conn_keeps J s1 s2" using onHandshake [OF s1(1,2), of snapshot] handshake by simp
  then have s2: "conn_ok s2" "J s2" "evolves s1 s2" by (simp_all add: conn_keeps_def)
  have start: "conn_keeps J s s2" using s1(3) k2 by (auto simp: conn_keeps_def intro: evolves_trans)
  have same: "cn_sequence s2 = cn_sequence s1 \<and> cn_notified s2 = cn_notified s \<and> held_handshake (cn_lifecycle s2) = Some i"
    if "still_connected i s2"
  proof -
    from that s2(1) i have "cn_sequence s2 = cn_sequence s1" by (auto simp: still_connected_def isCurrent_def conn_ok_def s1_def)
    moreover have "is_connected s1" by (simp add: s1_def is_connected_def)
    ultimately show ?thesis using s2(3) that by (auto simp: evolves_def still_connected_def s1_def)
  qed
  show ?thesis
  proof (cases "r = Inr () \<and> still_connected i s2")
    case False
    then show ?thesis
      using handshake start then_fail_keeps(1) [OF start]
      by (cases r) (auto simp: complete_handshake_def s1_def [symmetric])
  next
    case True
    then have r: "r = Inr ()" and on2: "still_connected i s2" by simp_all
    note same2 = same [OF on2]
    from last same2 obtain cs where cs: "cn_notified s2 = ChangeConnecting # cs" by auto
    have shape: "\<exists>d t. cn_lifecycle s2 = Connected i d t True"
      using on2 same2 by (cases "cn_lifecycle s2" rule: held_handshake.cases) (auto simp: still_connected_def is_connected_def isCurrent_def)
    have "legal_changes (ChangeConnected # cn_notified s2)" using s2(1) cs by (auto simp: conn_ok_def)
    moreover have "last_change_fits (cn_lifecycle s2) (ChangeConnected # cn_notified s2)" using shape by auto
    ultimately have k3: "conn_keeps J (s2\<lparr>cn_notified := ChangeConnected # cn_notified s2\<rparr>) (report_change H ChangeConnected s2)"
      by (rule report_keeps [OF s2(1,2)])
    define s3 where "s3 = report_change H ChangeConnected s2"
    from k3 have s3: "conn_ok s3" "J s3" and e3: "evolves (s2\<lparr>cn_notified := ChangeConnected # cn_notified s2\<rparr>) s3"
      by (simp_all add: conn_keeps_def s3_def)
    have connecting: "stage_of (cn_lifecycle s) = 0" by (simp add: assms(3))
    have e: "evolves s s3"
    proof -
      have "evolves s s2" using start by (simp add: conn_keeps_def)
      with e3 connecting show ?thesis by (auto simp: evolves_def is_connected_def assms(3))
    qed
    show ?thesis
    proof (cases "still_connected i s3")
      case False
      then show ?thesis
        using handshake r on2 s3 e by (simp add: complete_handshake_def s1_def [symmetric] s3_def [symmetric] conn_keeps_def)
    next
      case True
      have "cn_sequence s3 = cn_sequence s2"
        using True on2 s3(1) s2(1) by (simp add: still_connected_def isCurrent_def conn_ok_def)
      moreover have "is_connected s2" "is_connected s3" using True on2 by (simp_all add: still_connected_def)
      ultimately have same3: "cn_notified s3 = ChangeConnected # cn_notified s2" "held_handshake (cn_lifecycle s3) = Some i"
        using e3 same2 by (simp_all add: evolves_def is_connected_def)
      then obtain d3 t3 where l3: "cn_lifecycle s3 = Connected i d3 t3 True"
        using True by (cases "cn_lifecycle s3" rule: held_handshake.cases) (auto simp: still_connected_def is_connected_def)
      have unsettled: "i \<notin> fst ` set (cn_promises s3)" using s3(1) l3 by (auto simp: conn_ok_def)
      define s4 where "s4 = settle_attempt i (Inr snapshot) (s3\<lparr>cn_lifecycle := release_handshake (cn_lifecycle s3)\<rparr>)"
      have s4: "s4 = s3\<lparr>cn_lifecycle := Connected i d3 t3 False, cn_promises := (i, Inr snapshot) # cn_promises s3\<rparr>"
        using unsettled by (simp add: s4_def settle_attempt_def l3)
      have "conn_ok s4" using s3(1) l3 same3(1) unsettled by (auto simp: conn_ok_def s4)
      moreover have "J s4" by (rule quiet [OF s3(2)]) (simp_all add: s4 is_connected_def)
      moreover have "evolves s s4" using e connecting by (auto simp: evolves_def s4 is_connected_def assms(3))
      ultimately have "conn_keeps J s s4" by (simp add: conn_keeps_def)
      then show ?thesis
        using handshake r on2 True by (simp add: complete_handshake_def s1_def [symmetric] s3_def [symmetric] s4_def [symmetric])
    qed
  qed
qed

lemma connection_message_keeps:
  assumes "conn_ok s" and "J s"
  shows "conn_keeps J s (connection_message H m s)"
proof (cases "\<exists>i d t c snapshot. cn_lifecycle s = Connecting i d (Some t) \<and> m = ServerHello c snapshot")
  case True
  with complete_keeps [OF assms] show ?thesis by (auto simp: connection_message_def)
next
  case False
  then show ?thesis
    using failAndClose_keeps [OF assms] onMessage [OF assms] conn_keeps_refl [of s J] assms
    by (auto simp: connection_message_def split: lifecycle.split server_message.split option.split)
qed

lemma messages_keep: "conn_ok s \<Longrightarrow> J s \<Longrightarrow> conn_keeps J s (connection_messages H ms s)"
proof (induction ms arbitrary: s)
  case Nil
  then show ?case by (simp add: conn_keeps_refl)
next
  case (Cons m ms)
  from connection_message_keeps [OF Cons.prems, of m] have k: "conn_keeps J s (connection_message H m s)" .
  then have "conn_keeps J (connection_message H m s) (connection_messages H ms (connection_message H m s))"
    by (intro Cons.IH) (simp_all add: conn_keeps_def)
  with k show ?case using Cons.prems by (auto simp: conn_keeps_refl intro: conn_keeps_trans)
qed

lemma data_keeps:
  assumes "conn_ok s" and "J s"
  shows "conn_keeps J s (handleData W H i chunk s)"
proof (cases "isCurrent i s \<and> (is_connected s \<or> current_transport (cn_lifecycle s) \<noteq> None)")
  case False
  then show ?thesis using assms failAndClose_keeps [OF assms] by (auto simp: handleData_def conn_keeps_refl)
next
  case True
  then obtain d where d: "current_decoder (cn_lifecycle s) = Some d"
    by (cases "cn_lifecycle s") (auto simp: isCurrent_def)
  have "decoder_ok d" using assms(1) d by (simp add: conn_ok_def)
  then obtain d' r where push: "push_server W d chunk = Some (d', r)" and d': "decoder_ok d'" by (rule push_server_returns)
  define s1 where "s1 = s\<lparr>cn_lifecycle := with_decoder d' (cn_lifecycle s)\<rparr>"
  have "conn_ok s1"
  proof (cases "cn_lifecycle s")
    case (Connected j e t h)
    with assms(1) d' show ?thesis by (cases h) (simp_all add: conn_ok_def s1_def)
  qed (use assms(1) d' in \<open>auto simp: conn_ok_def s1_def\<close>)
  moreover have "J s1" by (rule quiet [OF assms(2)]) (cases "cn_lifecycle s"; simp add: s1_def is_connected_def)+
  moreover have "evolves s s1"
  proof (cases "cn_lifecycle s")
    case (Connected j e t h)
    then show ?thesis by (cases h) (simp_all add: evolves_def s1_def)
  qed (auto simp: evolves_def s1_def is_connected_def)
  ultimately have k: "conn_keeps J s s1" by (simp add: conn_keeps_def)
  have "handleData W H i chunk s = (case r of Inl err \<Rightarrow> failAndClose H (CodecFault err) s1 | Inr ms \<Rightarrow> connection_messages H ms s1)"
    using True unfolding s1_def by (auto simp: handleData_def d push Let_def)
  then show ?thesis
    using then_fail_keeps(1) [OF k] conn_keeps_trans [OF k messages_keep [OF \<open>conn_ok s1\<close> \<open>J s1\<close>]] by (simp split: sum.split)
qed

lemma handleClose_keeps: "conn_ok s \<Longrightarrow> J s \<Longrightarrow> conn_keeps J s (handleClose H s)"
  using fail_keeps [of s] by (auto simp: handleClose_def conn_keeps_refl split: option.split)

lemma transport_step_keeps: "conn_ok s \<Longrightarrow> J s \<Longrightarrow> conn_keeps J s (transport_step W H e s)"
  by (cases e) (simp_all add: transport_step_def transport_opened_keeps hello_rejected_keeps send_rejected_keeps data_keeps
      handleClose_keeps failAndClose_keeps conn_keeps_refl)

end

end
