(* ===== verification/Client_State.thy ===== *)
theory Client_State
  imports Connection_Facts
begin

text \<open>
  The client's copy of the server's state (\<open>packages/client/src/state.ts\<close>) and the client that keeps it
  (\<open>packages/client/src/client.ts\<close>): requests and their responses, the lost connection and the accounting of leases.
  The listeners of the program and the transport are one function \<open>'u outside\<close> of the whole state: it is told of an
  effect, and may call the client again before it returns.
\<close>

section \<open>State\<close>

record client_state =
  cs_snapshot :: "server_snapshot option"
  cs_sessions :: "(jstr \<times> session_snapshot) list"
  cs_attached :: "jstr set"

text \<open>
  \<open>cl_settled\<close> are the promises of requests that are settled, \<open>cl_requests\<close> all requests that were made, the latest first.
  Lease tokens are numbers. \<open>cl_listening\<close> is false once all listeners are removed.
\<close>

record 'u client_data =
  cl_state :: client_state
  cl_listening :: bool
  cl_disposed :: bool
  cl_requestSequence :: nat
  cl_pending :: "(jstr \<times> command) list"
  cl_requests :: "(jstr \<times> command) list"
  cl_settled :: "(jstr \<times> (client_error + command_result)) list"
  cl_tokens :: nat
  cl_leaseCounts :: "(jstr \<times> nat) list"
  cl_exclusive :: "(jstr \<times> nat) list"
  cl_generations :: "(jstr \<times> nat) list"
  cl_cleanup :: "jstr set"
  cl_user :: 'u

type_synonym 'u client = "'u client_data connection"

datatype client_effect =
    TellSnapshot server_snapshot
  | TellEvent server_event
  | TellSession jstr session_snapshot
  | TellSessionEvent jstr server_event
  | TellChange connection_change
  | OpenTransport nat
  | SendFrame nat bytes
  | CloseTransport nat

type_synonym 'u outside = "client_effect \<Rightarrow> 'u client \<Rightarrow> (client_error + unit) \<times> 'u client"

definition empty_state :: client_state where
  "empty_state = \<lparr>cs_snapshot = None, cs_sessions = [], cs_attached = {}\<rparr>"

definition new_client_data :: "'u \<Rightarrow> 'u client_data" where
  "new_client_data u = \<lparr>cl_state = empty_state, cl_listening = True, cl_disposed = False, cl_requestSequence = 0, cl_pending = [],
     cl_requests = [], cl_settled = [], cl_tokens = 0, cl_leaseCounts = [], cl_exclusive = [], cl_generations = [], cl_cleanup = {},
     cl_user = u\<rparr>"

definition new_PiClient :: "js_number option \<Rightarrow> 'u \<Rightarrow> client_error + 'u client" where
  "new_PiClient options u = new_Connection options (new_client_data u)"

abbreviation state_of :: "'u client \<Rightarrow> client_state" where
  "state_of s \<equiv> cl_state (cn_world s)"

definition in_client :: "('u client_data \<Rightarrow> 'u client_data) \<Rightarrow> 'u client \<Rightarrow> 'u client" where
  "in_client f s = s\<lparr>cn_world := f (cn_world s)\<rparr>"

definition in_state :: "(client_state \<Rightarrow> client_state) \<Rightarrow> 'u client \<Rightarrow> 'u client" where
  "in_state f = in_client (\<lambda>c. c\<lparr>cl_state := f (cl_state c)\<rparr>)"

text \<open>\<open>#notify\<close>: what a listener throws is caught and only reported.\<close>

definition tell :: "'u outside \<Rightarrow> client_effect \<Rightarrow> 'u client \<Rightarrow> 'u client" where
  "tell env e s = (if cl_listening (cn_world s) then snd (env e s) else s)"

section \<open>The copy of the server's state\<close>

definition applyServerSnapshot :: "'u outside \<Rightarrow> server_snapshot \<Rightarrow> 'u client \<Rightarrow> 'u client" where
  "applyServerSnapshot env snapshot s =
     (if (case cs_snapshot (state_of s) of Some current \<Rightarrow> sv_revision snapshot < sv_revision current | None \<Rightarrow> False) then s
      else tell env (TellSnapshot snapshot) (in_state (\<lambda>c. c\<lparr>cs_snapshot := Some snapshot\<rparr>) s))"

definition applySessionSnapshot :: "'u outside \<Rightarrow> session_snapshot \<Rightarrow> bool \<Rightarrow> 'u client \<Rightarrow> 'u client" where
  "applySessionSnapshot env snapshot force s =
     (if \<not> force \<and> (case map_of (cs_sessions (state_of s)) (sn_id snapshot) of
          Some current \<Rightarrow> sn_revision snapshot < sn_revision current | None \<Rightarrow> False) then s
      else tell env (TellSession (sn_id snapshot) snapshot) (in_state (\<lambda>c. c\<lparr>
        cs_sessions := AList.update (sn_id snapshot) snapshot (cs_sessions c),
        cs_attached := (if sn_attached snapshot then insert (sn_id snapshot) (cs_attached c) else cs_attached c - {sn_id snapshot})\<rparr>) s))"

definition applyResult :: "'u outside \<Rightarrow> command_result \<Rightarrow> 'u client \<Rightarrow> 'u client" where
  "applyResult env result s = (case result of
      ListResult _ \<Rightarrow> s
    | DetachResult i \<Rightarrow>
        (let s = in_state (\<lambda>c. c\<lparr>cs_attached := cs_attached c - {i}\<rparr>) s
         in case map_of (cs_sessions (state_of s)) i of
              Some snapshot \<Rightarrow> applySessionSnapshot env (snapshot\<lparr>sn_attached := False\<rparr>) True s
            | None \<Rightarrow> s)
    | SessionResult _ snapshot \<Rightarrow> applySessionSnapshot env snapshot False s)"

fun getEventSessionId :: "server_event \<Rightarrow> jstr option" where
  "getEventSessionId (SessionSnapshotEvent snapshot) = Some (sn_id snapshot)"
| "getEventSessionId (SessionProgress i _) = Some i"
| "getEventSessionId (SessionRemoved i) = Some i"
| "getEventSessionId (ServerSnapshotEvent _) = None"

definition applyEvent :: "'u outside \<Rightarrow> server_event \<Rightarrow> 'u client \<Rightarrow> 'u client" where
  "applyEvent env event s =
     (let s = (case event of
          ServerSnapshotEvent snapshot \<Rightarrow> applyServerSnapshot env snapshot s
        | SessionSnapshotEvent snapshot \<Rightarrow> applySessionSnapshot env snapshot False s
        | SessionRemoved i \<Rightarrow> in_state (\<lambda>c. c\<lparr>cs_sessions := AList.delete i (cs_sessions c), cs_attached := cs_attached c - {i}\<rparr>) s
        | SessionProgress _ _ \<Rightarrow> s);
        s = tell env (TellEvent event) s
      in case getEventSessionId event of
           Some i \<Rightarrow> tell env (TellSessionEvent i event) s
         | None \<Rightarrow> s)"

definition clearAttachments :: "'u client \<Rightarrow> 'u client" where
  "clearAttachments = in_state (\<lambda>c. c\<lparr>cs_attached := {}\<rparr>)"

definition reset_state :: "'u client \<Rightarrow> 'u client" where
  "reset_state = in_state (\<lambda>_. empty_state)"

definition forgetSessionSnapshot :: "jstr \<Rightarrow> 'u client \<Rightarrow> session_snapshot option \<times> 'u client" where
  "forgetSessionSnapshot i s =
     (map_of (cs_sessions (state_of s)) i, in_state (\<lambda>c. c\<lparr>cs_sessions := AList.delete i (cs_sessions c)\<rparr>) s)"

definition restoreSessionSnapshot :: "session_snapshot \<Rightarrow> 'u client \<Rightarrow> 'u client" where
  "restoreSessionSnapshot snapshot = in_state (\<lambda>c.
     if map_of (cs_sessions c) (sn_id snapshot) = None
     then c\<lparr>cs_sessions := AList.update (sn_id snapshot) snapshot (cs_sessions c)\<rparr> else c)"

section \<open>Leases\<close>

definition lease_count :: "'u client \<Rightarrow> jstr \<Rightarrow> nat" where
  "lease_count s i = (case map_of (cl_leaseCounts (cn_world s)) i of None \<Rightarrow> 0 | Some n \<Rightarrow> n)"

definition reserveSessionLease :: "jstr \<Rightarrow> bool \<Rightarrow> 'u client \<Rightarrow> (client_error + nat) \<times> 'u client" where
  "reserveSessionLease i exclusive s =
     (let n = lease_count s i
      in if exclusive \<and> n > 0 then (Inl (SessionOwned i False), s)
         else if \<not> exclusive \<and> map_of (cl_exclusive (cn_world s)) i \<noteq> None then (Inl (SessionOwned i True), s)
         else (Inr (cl_tokens (cn_world s)), in_client (\<lambda>c. c\<lparr>
           cl_tokens := Suc (cl_tokens c), cl_leaseCounts := AList.update i (n + 1) (cl_leaseCounts c),
           cl_exclusive := (if exclusive then AList.update i (cl_tokens c) (cl_exclusive c) else cl_exclusive c)\<rparr>) s))"

definition releaseSessionLease :: "jstr \<Rightarrow> nat \<Rightarrow> 'u client \<Rightarrow> 'u client" where
  "releaseSessionLease i token s =
     (let n = lease_count s i
      in in_client (\<lambda>c. c\<lparr>
        cl_leaseCounts := (if n \<le> 1 then AList.delete i (cl_leaseCounts c) else AList.update i (n - 1) (cl_leaseCounts c)),
        cl_exclusive := (if map_of (cl_exclusive c) i = Some token then AList.delete i (cl_exclusive c) else cl_exclusive c)\<rparr>) s)"

definition invalidateSessionLeases :: "jstr \<Rightarrow> 'u client \<Rightarrow> 'u client" where
  "invalidateSessionLeases i = in_client (\<lambda>c. c\<lparr>
     cl_leaseCounts := AList.delete i (cl_leaseCounts c), cl_exclusive := AList.delete i (cl_exclusive c),
     cl_cleanup := cl_cleanup c - {i},
     cl_generations := AList.update i ((case map_of (cl_generations c) i of None \<Rightarrow> 0 | Some g \<Rightarrow> g) + 1) (cl_generations c)\<rparr>)"

definition invalidateAllSessionLeases :: "'u client \<Rightarrow> 'u client" where
  "invalidateAllSessionLeases s =
     in_client (\<lambda>c. c\<lparr>cl_cleanup := {}\<rparr>) (fold invalidateSessionLeases (map fst (cl_leaseCounts (cn_world s))) s)"

section \<open>Requests\<close>

definition request_id :: "nat \<Rightarrow> jstr" where
  "request_id n = jlit ''request-'' @ show_nat n"

definition settle_request :: "jstr \<Rightarrow> client_error + command_result \<Rightarrow> 'u client \<Rightarrow> 'u client" where
  "settle_request i r = in_client (\<lambda>c. if i \<in> fst ` set (cl_settled c) then c else c\<lparr>cl_settled := (i, r) # cl_settled c\<rparr>)"

definition takePendingRequest :: "jstr \<Rightarrow> 'u client \<Rightarrow> command option \<times> 'u client" where
  "takePendingRequest i s = (map_of (cl_pending (cn_world s)) i, in_client (\<lambda>c. c\<lparr>cl_pending := AList.delete i (cl_pending c)\<rparr>) s)"

definition rejectPendingRequests :: "client_error \<Rightarrow> 'u client \<Rightarrow> 'u client" where
  "rejectPendingRequests err s =
     fold (\<lambda>(i, _). settle_request i (Inl err)) (cl_pending (cn_world s)) (in_client (\<lambda>c. c\<lparr>cl_pending := []\<rparr>) s)"

definition handleConnectionStateChange :: "'u outside \<Rightarrow> connection_change \<Rightarrow> 'u client \<Rightarrow> 'u client" where
  "handleConnectionStateChange env change s =
     (let s = (case change of
          ChangeDisconnected err \<Rightarrow> rejectPendingRequests err (invalidateAllSessionLeases (clearAttachments s))
        | _ \<Rightarrow> s)
      in tell env (TellChange change) s)"

text \<open>
  The hooks that the client gives to its connection. \<open>handleMessage\<close> may fail the connection, which does not look
  at the hook for messages, so that hook is added last.
\<close>

definition base_hooks :: "'u outside \<Rightarrow> 'u client_data connection_hooks" where
  "base_hooks env = \<lparr>ch_onHandshake = (\<lambda>snapshot s. (Inr (), applyServerSnapshot env snapshot s)), ch_onMessage = (\<lambda>_ s. s),
     ch_onStateChange = handleConnectionStateChange env, ch_open = (\<lambda>i. env (OpenTransport i)),
     ch_send = (\<lambda>t frame. env (SendFrame t frame)), ch_close = (\<lambda>t s. snd (env (CloseTransport t) s))\<rparr>"

definition handleMessage :: "'u outside \<Rightarrow> server_message \<Rightarrow> 'u client \<Rightarrow> 'u client" where
  "handleMessage env m s = (case m of
      Event event \<Rightarrow>
        applyEvent env event (case event of SessionRemoved i \<Rightarrow> invalidateSessionLeases i s | _ \<Rightarrow> s)
    | Response i r \<Rightarrow> (case takePendingRequest i s of
          (None, s) \<Rightarrow> failAndClose (base_hooks env) (ProtocolFault (jlit ''Response has no matching request'')) s
        | (Some command, s) \<Rightarrow> (case r of
              Inl err \<Rightarrow> settle_request i (Inl (ServerFault err)) s
            | Inr result \<Rightarrow>
                if result_command result \<noteq> command_of command
                then (let err = ProtocolFault (jlit ''Response command does not match'')
                  in failAndClose (base_hooks env) err (settle_request i (Inl err) s))
                else settle_request i (Inr result) (applyResult env result s)))
    | _ \<Rightarrow> s)"

definition client_hooks :: "'u outside \<Rightarrow> 'u client_data connection_hooks" where
  "client_hooks env = (base_hooks env)\<lparr>ch_onMessage := handleMessage env\<rparr>"

text \<open>\<open>#request\<close>: a promise that is rejected at once, or the id of the request whose promise is returned.\<close>

definition client_request :: "wire \<Rightarrow> 'u outside \<Rightarrow> command \<Rightarrow> 'u client \<Rightarrow> (client_error + jstr) \<times> 'u client" where
  "client_request W env command s =
     (if cl_disposed (cn_world s) then (Inl ClientDisposed, s)
      else if \<not> is_connected s then (Inl (DisconnectedError (Reason (jlit ''Pi client is disconnected''))), s)
      else let n = Suc (cl_requestSequence (cn_world s)); i = request_id n;
          s = in_client (\<lambda>c. c\<lparr>cl_requestSequence := n, cl_pending := AList.update i command (cl_pending c),
            cl_requests := (i, command) # cl_requests c\<rparr>) s
        in case encodeClientMessage W (Some (cn_maxFrameLength s)) (Request i command) of
             Inl err \<Rightarrow> (Inr i, settle_request i (Inl (CodecFault err)) (snd (takePendingRequest i s)))
           | Inr frame \<Rightarrow> (Inr i, snd (connection_send (client_hooks env) frame s)))"

definition client_connect :: "'u outside \<Rightarrow> 'u client \<Rightarrow> (client_error + nat) \<times> 'u client" where
  "client_connect env s =
     (if cl_disposed (cn_world s) then (Inl ClientDisposed, s)
      else connection_connect (client_hooks env) (if cn_lifecycle s = Disconnected then reset_state s else s))"

definition client_disconnect :: "'u outside \<Rightarrow> jstr \<Rightarrow> 'u client \<Rightarrow> 'u client" where
  "client_disconnect env reason s = connection_disconnect (client_hooks env) (DisconnectedError (Reason reason)) s"

definition client_dispose :: "'u outside \<Rightarrow> 'u client \<Rightarrow> 'u client" where
  "client_dispose env s =
     (if cl_disposed (cn_world s) then s
      else let s = in_client (\<lambda>c. c\<lparr>cl_disposed := True\<rparr>) s; s = rejectPendingRequests ClientDisposed s;
          s = connection_disconnect (client_hooks env) ClientDisposed s;
          s = in_client (\<lambda>c. c\<lparr>cl_listening := False\<rparr>) (reset_state s)
        in invalidateAllSessionLeases s)"

section \<open>Calls from outside\<close>

datatype client_call =
    CallConnect
  | CallDisconnect jstr
  | CallRequest command
  | CallReserve jstr bool
  | CallRelease jstr nat
  | CallDispose
  | CallTransport transport_event

definition client_step :: "wire \<Rightarrow> 'u outside \<Rightarrow> client_call \<Rightarrow> 'u client \<Rightarrow> 'u client" where
  "client_step W env c s = (case c of
      CallConnect \<Rightarrow> snd (client_connect env s)
    | CallDisconnect reason \<Rightarrow> client_disconnect env reason s
    | CallRequest command \<Rightarrow> snd (client_request W env command s)
    | CallReserve i exclusive \<Rightarrow> snd (reserveSessionLease i exclusive s)
    | CallRelease i token \<Rightarrow> releaseSessionLease i token s
    | CallDispose \<Rightarrow> client_dispose env s
    | CallTransport e \<Rightarrow> transport_step W (client_hooks env) e s)"

text \<open>
  A program around the client: told of an effect, it changes its own state, makes some calls and returns, where the
  effects of these calls may lead to calls again. Every chain of calls that returns has a depth.
\<close>

type_synonym 'u reaction = "'u \<Rightarrow> client_effect \<Rightarrow> 'u \<times> client_call list \<times> (client_error + unit)"

primrec outside_at :: "nat \<Rightarrow> wire \<Rightarrow> 'u reaction \<Rightarrow> 'u outside" where
  "outside_at 0 W react = (\<lambda>e s. let (u, calls, r) = react (cl_user (cn_world s)) e in (r, in_client (\<lambda>c. c\<lparr>cl_user := u\<rparr>) s))"
| "outside_at (Suc k) W react = (\<lambda>e s. let (u, calls, r) = react (cl_user (cn_world s)) e
     in (r, fold (client_step W (outside_at k W react)) calls (in_client (\<lambda>c. c\<lparr>cl_user := u\<rparr>) s)))"

end
