(* ===== verification/Client_Facts.thy ===== *)
theory Client_Facts
  imports Client_State Session_Invariant Json_Parse
begin

text \<open>
  What a client promises, whatever its listeners and its transport do while it calls them: every promise is settled once,
  with a result of its own command, and its copy of the server's state is the newest it was sent.
\<close>

section \<open>Data and connection\<close>

lemma in_client_conn [simp]:
  "conn_ok (in_client f s) = conn_ok s" "is_connected (in_client f s) = is_connected s"
  "cn_lifecycle (in_client f s) = cn_lifecycle s" "cn_sequence (in_client f s) = cn_sequence s"
  "cn_maxFrameLength (in_client f s) = cn_maxFrameLength s" "cn_promises (in_client f s) = cn_promises s"
  "cn_notified (in_client f s) = cn_notified s" "cn_world (in_client f s) = f (cn_world s)"
  by (simp_all add: in_client_def conn_ok_def is_connected_def)

lemma evolves_in_client [simp]: "evolves s (in_client f s)"
  by (simp add: evolves_def is_connected_def in_client_def)

section \<open>Requests\<close>

lemma request_id_inject [simp]: "request_id m = request_id n \<longleftrightarrow> m = n"
proof
  assume "request_id m = request_id n"
  then have "decimal_value (show_nat m) = decimal_value (show_nat n)" by (simp add: request_id_def)
  moreover have "decimal_value (show_nat k) = k" for k using show_nat_facts [of k] by blast
  ultimately show "m = n" by metis
qed simp

definition made_ids :: "'u client_data \<Rightarrow> jstr set" where
  "made_ids c = request_id ` {1..cl_requestSequence c}"

text \<open>
  Every request is pending or settled, but for the requests \<open>X\<close> whose response is being handled. Requests are pending
  only while connected, and a result belongs to the command that was sent.
\<close>

definition client_data_ok :: "(jstr \<times> command) set \<Rightarrow> 'u client_data \<Rightarrow> bool" where
  "client_data_ok X c \<longleftrightarrow> distinct (map fst (cl_pending c)) \<and> distinct (map fst (cl_settled c))
     \<and> fst ` set (cl_pending c) \<inter> fst ` set (cl_settled c) = {}
     \<and> fst ` X \<inter> (fst ` set (cl_pending c) \<union> fst ` set (cl_settled c)) = {}
     \<and> fst ` set (cl_pending c) \<union> fst ` set (cl_settled c) \<union> fst ` X = made_ids c
     \<and> fst ` set (cl_requests c) = made_ids c
     \<and> (\<forall>(i, command) \<in> set (cl_pending c) \<union> X. map_of (cl_requests c) i = Some command)
     \<and> (\<forall>(i, r) \<in> set (cl_settled c). \<forall>result. r = Inr result \<longrightarrow>
          (\<exists>command. map_of (cl_requests c) i = Some command \<and> result_command result = command_of command))"

definition client_ok :: "(jstr \<times> command) set \<Rightarrow> 'u client \<Rightarrow> bool" where
  "client_ok X s \<longleftrightarrow> client_data_ok X (cn_world s) \<and> (cl_pending (cn_world s) \<noteq> [] \<longrightarrow> is_connected s)"

lemma client_data_facts:
  assumes "client_data_ok X c"
  shows "distinct (map fst (cl_pending c))" "distinct (map fst (cl_settled c))"
    "fst ` set (cl_pending c) \<inter> fst ` set (cl_settled c) = {}"
    "fst ` X \<inter> (fst ` set (cl_pending c) \<union> fst ` set (cl_settled c)) = {}"
    "fst ` set (cl_pending c) \<union> fst ` set (cl_settled c) \<union> fst ` X = made_ids c"
    "fst ` set (cl_requests c) = made_ids c"
    "\<forall>(i, command) \<in> set (cl_pending c) \<union> X. map_of (cl_requests c) i = Some command"
    "\<forall>(i, r) \<in> set (cl_settled c). \<forall>result. r = Inr result \<longrightarrow>
       (\<exists>command. map_of (cl_requests c) i = Some command \<and> result_command result = command_of command)"
  using assms by (simp_all add: client_data_ok_def)

lemma client_ok_quiet:
  "client_ok X s \<Longrightarrow> cn_world s' = cn_world s \<Longrightarrow> is_connected s \<longrightarrow> is_connected s' \<Longrightarrow> client_ok X s'"
  by (simp add: client_ok_def)

text \<open>Changes of data that requests do not depend on.\<close>

definition other_data :: "('u client_data \<Rightarrow> 'u client_data) \<Rightarrow> bool" where
  "other_data f \<longleftrightarrow> (\<forall>c. cl_pending (f c) = cl_pending c \<and> cl_settled (f c) = cl_settled c
     \<and> cl_requests (f c) = cl_requests c \<and> cl_requestSequence (f c) = cl_requestSequence c)"

lemma client_data_other [simp]: "other_data f \<Longrightarrow> client_data_ok X (f c) = client_data_ok X c"
  by (simp add: client_data_ok_def other_data_def made_ids_def)

lemma client_ok_other [simp]: "other_data f \<Longrightarrow> client_ok X (in_client f s) = client_ok X s"
  by (simp add: client_ok_def) (simp add: other_data_def)

lemma other_data_keeps:
  "other_data f \<Longrightarrow> conn_ok s \<Longrightarrow> client_ok X s \<Longrightarrow> conn_keeps (client_ok X) s (in_client f s)"
  by (simp add: conn_keeps_def)

lemma in_state_other [simp]: "other_data (\<lambda>c. c\<lparr>cl_state := f (cl_state c)\<rparr>)"
  by (simp add: other_data_def)

lemma in_state_keeps: "conn_ok s \<Longrightarrow> client_ok X s \<Longrightarrow> conn_keeps (client_ok X) s (in_state f s)"
  by (simp add: in_state_def other_data_keeps)

lemma take_pending_ok:
  assumes "client_ok X s" and "takePendingRequest i s = (Some command, s')"
  shows "client_ok (insert (i, command) X) s'" and "i \<notin> fst ` X"
    and "\<exists>f. s' = in_client f s" and "i \<notin> fst ` set (cl_settled (cn_world s'))"
proof -
  have pending: "map_of (cl_pending (cn_world s)) i = Some command"
    and s': "s' = in_client (\<lambda>c. c\<lparr>cl_pending := AList.delete i (cl_pending c)\<rparr>) s"
    using assms(2) by (auto simp: takePendingRequest_def)
  then have mem: "(i, command) \<in> set (cl_pending (cn_world s))" by (simp add: map_of_SomeD)
  then have ids: "i \<in> fst ` set (cl_pending (cn_world s))" by force
  note ok = client_data_facts [OF assms(1) [unfolded client_ok_def, THEN conjunct1]]
  have connected: "cl_pending (cn_world s) \<noteq> [] \<longrightarrow> is_connected s" using assms(1) by (simp add: client_ok_def)
  have pending': "cl_pending (cn_world s') = AList.delete i (cl_pending (cn_world s))"
    "cl_settled (cn_world s') = cl_settled (cn_world s)" "cl_requests (cn_world s') = cl_requests (cn_world s)"
    "made_ids (cn_world s') = made_ids (cn_world s)" "is_connected s' = is_connected s"
    by (simp_all add: s' made_ids_def)
  have keys: "fst ` set (cl_pending (cn_world s')) = fst ` set (cl_pending (cn_world s)) - {i}"
    and sub: "set (cl_pending (cn_world s')) \<subseteq> set (cl_pending (cn_world s))"
    by (auto simp: pending' AList.delete_eq image_iff)
  show "client_ok (insert (i, command) X) s'"
    unfolding client_ok_def client_data_ok_def
  proof (intro conjI)
    show "distinct (map fst (cl_pending (cn_world s')))" using ok(1) by (simp add: pending' distinct_delete)
    show "distinct (map fst (cl_settled (cn_world s')))" using ok(2) by (simp add: pending')
    show "fst ` set (cl_pending (cn_world s')) \<inter> fst ` set (cl_settled (cn_world s')) = {}" using ok(3) keys pending'(2) by auto
    show "fst ` insert (i, command) X \<inter> (fst ` set (cl_pending (cn_world s')) \<union> fst ` set (cl_settled (cn_world s'))) = {}"
      using ok(3,4) ids keys pending'(2) by auto
    show "fst ` set (cl_pending (cn_world s')) \<union> fst ` set (cl_settled (cn_world s')) \<union> fst ` insert (i, command) X = made_ids (cn_world s')"
      using ok(5) ids keys pending'(2,4) by auto
    show "fst ` set (cl_requests (cn_world s')) = made_ids (cn_world s')" using ok(6) pending' by simp
    show "\<forall>(i, command) \<in> set (cl_pending (cn_world s')) \<union> insert (i, command) X. map_of (cl_requests (cn_world s')) i = Some command"
      using ok(7) sub pending'(3) mem by auto
    show "\<forall>(i, r) \<in> set (cl_settled (cn_world s')). \<forall>result. r = Inr result \<longrightarrow>
       (\<exists>command. map_of (cl_requests (cn_world s')) i = Some command \<and> result_command result = command_of command)"
      using ok(8) pending' by simp
    show "cl_pending (cn_world s') \<noteq> [] \<longrightarrow> is_connected s'" using connected sub pending'(5) by auto
  qed
  show "i \<notin> fst ` X" using ok(4) ids by blast
  show "\<exists>f. s' = in_client f s" using s' by blast
  show "i \<notin> fst ` set (cl_settled (cn_world s'))" using ok(3) ids pending' by auto
qed

lemma settle_data_ok:
  assumes "client_data_ok (insert (i, command) X) (cn_world s)" and "i \<notin> fst ` X"
    and "\<And>result. r = Inr result \<Longrightarrow> result_command result = command_of command"
  shows "client_data_ok X (cn_world (settle_request i r s)) \<and> cl_pending (cn_world (settle_request i r s)) = cl_pending (cn_world s)"
proof -
  have i: "i \<notin> fst ` set (cl_settled (cn_world s))" "i \<notin> fst ` set (cl_pending (cn_world s))"
    using assms(1) by (auto simp: client_data_ok_def)
  then have s: "cn_world (settle_request i r s) = (cn_world s)\<lparr>cl_settled := (i, r) # cl_settled (cn_world s)\<rparr>"
    by (simp add: settle_request_def)
  from assms i show ?thesis unfolding client_data_ok_def s by (auto simp: made_ids_def)
qed

lemma settle_ok:
  assumes "client_ok (insert (i, command) X) s" and "i \<notin> fst ` X"
    and "\<And>result. r = Inr result \<Longrightarrow> result_command result = command_of command"
  shows "client_ok X (settle_request i r s)"
proof -
  have "is_connected (settle_request i r s) = is_connected s" by (simp add: settle_request_def)
  with settle_data_ok [of i command X s r] assms show ?thesis by (auto simp: client_ok_def)
qed

lemma settle_request_in_client: "\<exists>f. settle_request i r s = in_client f s"
  by (auto simp: settle_request_def)

lemma rejected_all:
  assumes "client_data_ok X (cn_world s)"
  shows "client_ok X (rejectPendingRequests err s)" and "cl_pending (cn_world (rejectPendingRequests err s)) = []"
    and "\<exists>f. rejectPendingRequests err s = in_client f s"
proof -
  have fold: "client_data_ok X (cn_world (fold (\<lambda>(i, _). settle_request i (Inl err)) ps t))
      \<and> cl_pending (cn_world (fold (\<lambda>(i, _). settle_request i (Inl err)) ps t)) = []
      \<and> (\<exists>f. fold (\<lambda>(i, _). settle_request i (Inl err)) ps t = in_client f t)"
    if "client_data_ok (set ps \<union> X) (cn_world t)" "cl_pending (cn_world t) = []" "distinct (map fst ps)" "fst ` set ps \<inter> fst ` X = {}"
    for ps and t :: "'a client"
    using that
  proof (induction ps arbitrary: t)
    case Nil
    then show ?case by (auto simp: in_client_def intro: exI [of _ id])
  next
    case (Cons p ps)
    obtain i command where p: "p = (i, command)" by fastforce
    let ?t = "settle_request i (Inl err) t"
    have "client_data_ok (set ps \<union> X) (cn_world ?t) \<and> cl_pending (cn_world ?t) = cl_pending (cn_world t)"
      using Cons.prems by (intro settle_data_ok [where command = command]) (auto simp: p)
    with Cons.IH [of ?t] Cons.prems(2-4) obtain f where rest:
      "client_data_ok X (cn_world (fold (\<lambda>(i, _). settle_request i (Inl err)) ps ?t))"
      "cl_pending (cn_world (fold (\<lambda>(i, _). settle_request i (Inl err)) ps ?t)) = []"
      "fold (\<lambda>(i, _). settle_request i (Inl err)) ps ?t = in_client f ?t" by (auto simp: p)
    obtain g where "?t = in_client g t" using settle_request_in_client by blast
    then have "in_client f ?t = in_client (f \<circ> g) t" by (simp add: in_client_def)
    with rest show ?case by (auto simp: p)
  qed
  let ?t = "in_client (\<lambda>c. c\<lparr>cl_pending := []\<rparr>) s"
  note ok = client_data_facts [OF assms]
  have "client_data_ok (set (cl_pending (cn_world s)) \<union> X) (cn_world ?t)"
    unfolding client_data_ok_def
  proof (intro conjI)
    show "fst ` (set (cl_pending (cn_world s)) \<union> X) \<inter> (fst ` set (cl_pending (cn_world ?t)) \<union> fst ` set (cl_settled (cn_world ?t))) = {}"
      using ok(3,4) by auto
    show "fst ` set (cl_pending (cn_world ?t)) \<union> fst ` set (cl_settled (cn_world ?t)) \<union> fst ` (set (cl_pending (cn_world s)) \<union> X)
        = made_ids (cn_world ?t)"
      using ok(5) by (auto simp: made_ids_def)
  qed (use ok(2,6,7,8) in \<open>simp_all add: made_ids_def\<close>)
  from fold [OF this] have all: "client_data_ok X (cn_world (rejectPendingRequests err s))"
    "cl_pending (cn_world (rejectPendingRequests err s)) = []" "\<exists>f. rejectPendingRequests err s = in_client f ?t"
    using ok(1,4) by (simp_all add: rejectPendingRequests_def Int_Un_distrib Int_commute)
  then show "client_ok X (rejectPendingRequests err s)" "cl_pending (cn_world (rejectPendingRequests err s)) = []"
    by (simp_all add: client_ok_def)
  from all(3) show "\<exists>f. rejectPendingRequests err s = in_client f s" by (auto simp: in_client_def intro: exI [of _ "_ \<circ> _"])
qed

lemma invalidate_all_data: "\<exists>f. other_data f \<and> invalidateAllSessionLeases s = in_client f s"
proof -
  have step: "\<exists>f. other_data f \<and> fold invalidateSessionLeases ks t = in_client f t" for ks and t :: "'a client"
  proof (induction ks arbitrary: t)
    case Nil
    show ?case by (intro exI [of _ id]) (simp add: other_data_def in_client_def)
  next
    case (Cons k ks)
    obtain g where g: "other_data g" "fold invalidateSessionLeases ks (invalidateSessionLeases k t) = in_client g (invalidateSessionLeases k t)"
      using Cons.IH by blast
    have "\<exists>f. other_data f \<and> invalidateSessionLeases k t = in_client f t"
      unfolding invalidateSessionLeases_def by (rule exI, rule conjI, rule_tac [2] refl) (simp add: other_data_def)
    then obtain f where "other_data f" "invalidateSessionLeases k t = in_client f t" by blast
    with g show ?case by (intro exI [of _ "g \<circ> f"]) (simp add: other_data_def in_client_def)
  qed
  from step [of "map fst (cl_leaseCounts (cn_world s))" s] obtain f where
    "other_data f" "fold invalidateSessionLeases (map fst (cl_leaseCounts (cn_world s))) s = in_client f s" by blast
  then show ?thesis
    by (intro exI [of _ "(\<lambda>c. c\<lparr>cl_cleanup := {}\<rparr>) \<circ> f"]) (simp add: invalidateAllSessionLeases_def other_data_def in_client_def)
qed

section \<open>Calls that return to the client\<close>

definition outside_ok :: "'u outside \<Rightarrow> bool" where
  "outside_ok env \<longleftrightarrow> (\<forall>X e s. conn_ok s \<longrightarrow> client_ok X s \<longrightarrow> conn_keeps (client_ok X) s (snd (env e s)))"

lemma outside_keeps: "outside_ok env \<Longrightarrow> conn_ok s \<Longrightarrow> client_ok X s \<Longrightarrow> conn_keeps (client_ok X) s (snd (env e s))"
  by (simp add: outside_ok_def)

lemma tell_keeps: "outside_ok env \<Longrightarrow> conn_ok s \<Longrightarrow> client_ok X s \<Longrightarrow> conn_keeps (client_ok X) s (tell env e s)"
  by (simp add: tell_def outside_keeps conn_keeps_refl)

text \<open>A step that keeps the client, then another one.\<close>

lemma conn_keeps_then:
  assumes "conn_keeps J s s'" and "\<And>t. conn_ok t \<Longrightarrow> J t \<Longrightarrow> conn_keeps J t (f t)"
  shows "conn_keeps J s (f s')"
  using assms(1) assms(2) [of s'] by (auto simp: conn_keeps_def intro: evolves_trans)

lemma tell_after:
  assumes "outside_ok env" and "conn_keeps (client_ok X) s s'"
  shows "conn_keeps (client_ok X) s (tell env e s')"
  using assms(2) tell_keeps [OF assms(1)] by (rule conn_keeps_then)

lemma applyServerSnapshot_keeps:
  "outside_ok env \<Longrightarrow> conn_ok s \<Longrightarrow> client_ok X s \<Longrightarrow> conn_keeps (client_ok X) s (applyServerSnapshot env snapshot s)"
  by (simp add: applyServerSnapshot_def conn_keeps_refl tell_after in_state_keeps)

lemma applySessionSnapshot_keeps:
  "outside_ok env \<Longrightarrow> conn_ok s \<Longrightarrow> client_ok X s \<Longrightarrow> conn_keeps (client_ok X) s (applySessionSnapshot env snapshot force s)"
  unfolding applySessionSnapshot_def by (auto simp: conn_keeps_refl intro: tell_after in_state_keeps)

lemma applyResult_keeps:
  assumes "outside_ok env" and "conn_ok s" and "client_ok X s"
  shows "conn_keeps (client_ok X) s (applyResult env result s)"
proof (cases result)
  case (DetachResult i)
  let ?s = "in_state (\<lambda>c. c\<lparr>cs_attached := cs_attached c - {i}\<rparr>) s"
  have k: "conn_keeps (client_ok X) s ?s" by (rule in_state_keeps [OF assms(2,3)])
  have "conn_keeps (client_ok X) s (applySessionSnapshot env snapshot True ?s)" for snapshot
    by (rule conn_keeps_then [OF k applySessionSnapshot_keeps [OF assms(1)]])
  with k show ?thesis by (simp add: applyResult_def DetachResult Let_def split: option.split)
qed (use assms in \<open>simp_all add: applyResult_def conn_keeps_refl applySessionSnapshot_keeps\<close>)

lemma applyEvent_keeps:
  assumes "outside_ok env" and "conn_ok s" and "client_ok X s"
  shows "conn_keeps (client_ok X) s (applyEvent env event s)"
proof -
  define s1 where "s1 = (case event of
      ServerSnapshotEvent snapshot \<Rightarrow> applyServerSnapshot env snapshot s
    | SessionSnapshotEvent snapshot \<Rightarrow> applySessionSnapshot env snapshot False s
    | SessionRemoved i \<Rightarrow> in_state (\<lambda>c. c\<lparr>cs_sessions := AList.delete i (cs_sessions c), cs_attached := cs_attached c - {i}\<rparr>) s
    | SessionProgress _ _ \<Rightarrow> s)"
  have "conn_keeps (client_ok X) s s1"
    unfolding s1_def
    by (cases event) (simp_all add: assms applyServerSnapshot_keeps applySessionSnapshot_keeps in_state_keeps conn_keeps_refl)
  then have k: "conn_keeps (client_ok X) s (tell env (TellEvent event) s1)" by (rule tell_after [OF assms(1)])
  have "applyEvent env event s = (case getEventSessionId event of
      Some i \<Rightarrow> tell env (TellSessionEvent i event) (tell env (TellEvent event) s1) | None \<Rightarrow> tell env (TellEvent event) s1)"
    unfolding s1_def by (simp add: applyEvent_def Let_def)
  then show ?thesis using k tell_after [OF assms(1) k] by (simp split: option.split)
qed

text \<open>The connection is gone: nothing stays pending.\<close>

lemma lost_keeps:
  assumes "outside_ok env" and "client_data_ok X (cn_world s)" and "conn_ok s"
  shows "conn_keeps (client_ok X) s (handleConnectionStateChange env (ChangeDisconnected err) s)"
proof -
  obtain f where f: "other_data f" "invalidateAllSessionLeases (clearAttachments s) = in_client f (clearAttachments s)"
    using invalidate_all_data by blast
  let ?s = "in_client f (clearAttachments s)"
  have "client_data_ok X (cn_world ?s)"
    using assms(2) f(1) by (simp add: clearAttachments_def in_state_def client_data_ok_def made_ids_def other_data_def)
  note rejected = rejected_all [OF this, of err]
  from rejected(3) obtain g where g: "rejectPendingRequests err ?s = in_client g ?s" by blast
  have s: "conn_ok ?s" "evolves s ?s"
    using assms(3) by (auto simp: clearAttachments_def in_state_def intro: evolves_trans [OF evolves_in_client evolves_in_client])
  then have "conn_ok (rejectPendingRequests err ?s)" by (simp only: g in_client_conn)
  moreover have "evolves s (rejectPendingRequests err ?s)"
    unfolding g by (rule evolves_trans [OF s(2) evolves_in_client])
  ultimately have "conn_keeps (client_ok X) s (rejectPendingRequests err ?s)" using rejected(1) by (simp add: conn_keeps_def)
  then show ?thesis by (simp add: handleConnectionStateChange_def f(2) tell_after [OF assms(1)])
qed

lemma change_keeps:
  assumes "outside_ok env" and "conn_ok s" and "client_ok X s"
  shows "conn_keeps (client_ok X) s (handleConnectionStateChange env change s)"
proof (cases change)
  case (ChangeDisconnected err)
  then show ?thesis using lost_keeps [OF assms(1) _ assms(2)] assms(3) by (simp add: client_ok_def)
qed (simp_all add: handleConnectionStateChange_def tell_keeps [OF assms])

lemma base_hooks_ok: "outside_ok env \<Longrightarrow> connection_client (base_hooks env) (client_ok X)"
proof
  fix s s' :: "'a client" and err
  assume env: "outside_ok env" and "client_ok X s" "cn_world s' = cn_world s" "conn_ok s'"
  then have "client_data_ok X (cn_world s')" by (simp add: client_ok_def)
  from lost_keeps [OF env this \<open>conn_ok s'\<close>]
  show "conn_keeps (client_ok X) s' (ch_onStateChange (base_hooks env) (ChangeDisconnected err) s')" by (simp add: base_hooks_def)
qed (auto simp: base_hooks_def client_ok_quiet applyServerSnapshot_keeps change_keeps outside_keeps conn_keeps_refl)

lemma handleMessage_keeps:
  assumes "outside_ok env" and "conn_ok s" and "client_ok X s"
  shows "conn_keeps (client_ok X) s (handleMessage env m s)"
proof (cases m)
  case (Event event)
  have inv: "conn_keeps (client_ok X) s (invalidateSessionLeases i s)" for i
    unfolding invalidateSessionLeases_def by (rule other_data_keeps [OF _ assms(2,3)]) (simp add: other_data_def)
  have "conn_keeps (client_ok X) s (case event of SessionRemoved i \<Rightarrow> invalidateSessionLeases i s | _ \<Rightarrow> s)"
    using inv assms by (simp add: conn_keeps_refl split: server_event.split)
  from conn_keeps_then [OF this applyEvent_keeps [OF assms(1)]] show ?thesis by (simp add: handleMessage_def Event)
next
  case (Response i r)
  obtain command s1 where take: "takePendingRequest i s = (command, s1)" by fastforce
  show ?thesis
  proof (cases command)
    case None
    have "AList.delete i (cl_pending (cn_world s)) = cl_pending (cn_world s)"
      using take None by (force simp: takePendingRequest_def AList.delete_eq map_of_eq_None_iff intro!: filter_True)
    then have "s1 = s" using take by (simp add: takePendingRequest_def in_client_def)
    with take None show ?thesis
      by (simp add: handleMessage_def Response connection_client.failAndClose_keeps [OF base_hooks_ok [OF assms(1)] assms(2,3)])
  next
    case (Some command)
    note taken = take_pending_ok [OF assms(3) take [unfolded Some]]
    from taken(3) obtain f where s1: "s1 = in_client f s" by blast
    have conn1: "conn_ok s1" "evolves s s1" using assms(2) by (simp_all add: s1)
    have settled: "conn_keeps (client_ok X) s (settle_request i r' t)"
      if t: "conn_keeps (client_ok (insert (i, command) X)) s1 t" and r': "\<And>result. r' = Inr result \<Longrightarrow> result_command result = command_of command"
      for r' t
    proof -
      obtain g where g: "settle_request i r' t = in_client g t" using settle_request_in_client by blast
      have "client_ok X (settle_request i r' t)"
        using t by (intro settle_ok [OF _ taken(2) r']) (simp_all add: conn_keeps_def)
      moreover have "evolves s t" using t conn1(2) by (auto simp: conn_keeps_def intro: evolves_trans)
      ultimately show ?thesis
        using t by (auto simp: conn_keeps_def g intro: evolves_trans [OF _ evolves_in_client])
    qed
    have k1: "conn_keeps (client_ok (insert (i, command) X)) s1 s1" using conn1(1) taken(1) by (rule conn_keeps_refl)
    show ?thesis
    proof (cases r)
      case (Inl err)
      with settled [OF k1, of "Inl (ServerFault err)"] take Some show ?thesis by (simp add: handleMessage_def Response)
    next
      case (Inr result)
      show ?thesis
      proof (cases "result_command result = command_of command")
        case False
        have "conn_keeps (client_ok X) s (settle_request i (Inl (ProtocolFault (jlit ''Response command does not match''))) s1)"
          by (rule settled [OF k1]) simp
        from conn_keeps_then [OF this connection_client.failAndClose_keeps [OF base_hooks_ok [OF assms(1)]]] False Inr take Some
        show ?thesis by (simp add: handleMessage_def Response Let_def)
      next
        case True
        have k2: "conn_keeps (client_ok (insert (i, command) X)) s1 (applyResult env result s1)"
          by (rule applyResult_keeps [OF assms(1) conn1(1) taken(1)])
        from settled [OF k2, of "Inr result"] True Inr take Some show ?thesis by (simp add: handleMessage_def Response)
      qed
    qed
  qed
qed (simp_all add: handleMessage_def conn_keeps_refl assms)

lemma fail_hooks: "fail_connection (client_hooks env) = fail_connection (base_hooks env)"
  "failAndClose (client_hooks env) = failAndClose (base_hooks env)"
proof -
  show f: "fail_connection (client_hooks env) = fail_connection (base_hooks env)"
    by (simp add: fun_eq_iff fail_connection_def report_change_def client_hooks_def)
  show "failAndClose (client_hooks env) = failAndClose (base_hooks env)"
    unfolding failAndClose_def [abs_def] f by (simp add: client_hooks_def cong: option.case_cong)
qed

lemma client_hooks_ok:
  assumes "outside_ok env"
  shows "connection_client (client_hooks env) (client_ok X)"
proof
  note base = base_hooks_ok [OF assms, of X]
  fix s s' :: "'a client" and err
  assume "client_ok X s" "cn_world s' = cn_world s" "conn_ok s'" "cn_lifecycle s' = Disconnected"
  then show "conn_keeps (client_ok X) s' (ch_onStateChange (client_hooks env) (ChangeDisconnected err) s')"
    using connection_client.lost [OF base] by (simp add: client_hooks_def)
qed (auto simp: client_hooks_def base_hooks_def client_ok_quiet applyServerSnapshot_keeps change_keeps outside_keeps
    handleMessage_keeps assms)

section \<open>Every call keeps the client\<close>

lemma request_keeps:
  assumes "outside_ok env" and "conn_ok s" and "client_ok X s"
  shows "conn_keeps (client_ok X) s (snd (client_request W env command s))"
proof (cases "cl_disposed (cn_world s) \<or> \<not> is_connected s")
  case True
  with assms(2,3) show ?thesis by (auto simp: client_request_def conn_keeps_refl)
next
  case False
  let ?n = "Suc (cl_requestSequence (cn_world s))"
  let ?i = "request_id ?n"
  note ok = client_data_facts [OF assms(3) [unfolded client_ok_def, THEN conjunct1]]
  define s1 where "s1 = in_client (\<lambda>c. c\<lparr>cl_requestSequence := ?n, cl_pending := AList.update ?i command (cl_pending c),
    cl_requests := (?i, command) # cl_requests c\<rparr>) s"
  have fresh: "?i \<notin> made_ids (cn_world s)" by (auto simp: made_ids_def)
  then have new: "?i \<notin> fst ` set (cl_pending (cn_world s))" "?i \<notin> fst ` set (cl_settled (cn_world s))" "?i \<notin> fst ` X"
    "?i \<notin> fst ` set (cl_requests (cn_world s))"
    using ok(5,6) by auto
  have s1: "cl_pending (cn_world s1) = cl_pending (cn_world s) @ [(?i, command)]" "cl_settled (cn_world s1) = cl_settled (cn_world s)"
    "cl_requests (cn_world s1) = (?i, command) # cl_requests (cn_world s)"
    using new(1) by (simp_all add: s1_def update_fresh)
  have made: "made_ids (cn_world s1) = insert ?i (made_ids (cn_world s))"
    by (simp add: s1_def made_ids_def atLeastAtMostSuc_conv)
  have "client_data_ok X (cn_world s1)"
    unfolding client_data_ok_def s1 made
  proof (intro conjI)
    show "\<forall>(i, c) \<in> set (cl_pending (cn_world s) @ [(?i, command)]) \<union> X. map_of ((?i, command) # cl_requests (cn_world s)) i = Some c"
    proof (clarify)
      fix i c
      assume "(i, c) \<in> set (cl_pending (cn_world s) @ [(?i, command)]) \<union> X"
      then consider "i = ?i" "c = command" | "(i, c) \<in> set (cl_pending (cn_world s)) \<union> X" by auto
      then show "map_of ((?i, command) # cl_requests (cn_world s)) i = Some c"
      proof cases
        case 2
        with ok(7) have "map_of (cl_requests (cn_world s)) i = Some c" by blast
        moreover have "i \<noteq> ?i" using 2 new(1,3) by force
        ultimately show ?thesis by simp
      qed simp
    qed
    show "\<forall>(i, r) \<in> set (cl_settled (cn_world s)). \<forall>result. r = Inr result \<longrightarrow>
        (\<exists>c. map_of ((?i, command) # cl_requests (cn_world s)) i = Some c \<and> result_command result = command_of c)"
    proof (clarify)
      fix i result
      assume mem: "(i, Inr result) \<in> set (cl_settled (cn_world s))"
      then have "i \<noteq> ?i" using new(2) by force
      with mem ok(8) show "\<exists>c. map_of ((?i, command) # cl_requests (cn_world s)) i = Some c \<and> result_command result = command_of c" by auto
    qed
  qed (use ok(1-6) new in auto)
  moreover have conn1: "is_connected s1" "conn_ok s1" "evolves s s1" using False assms(2) by (simp_all add: s1_def)
  ultimately have k1: "conn_keeps (client_ok X) s s1" and ok1: "client_ok X s1" by (simp_all add: conn_keeps_def client_ok_def)
  have step: "client_request W env command s = (case encodeClientMessage W (Some (cn_maxFrameLength s1)) (Request ?i command) of
      Inl err \<Rightarrow> (Inr ?i, settle_request ?i (Inl (CodecFault err)) (snd (takePendingRequest ?i s1)))
    | Inr frame \<Rightarrow> (Inr ?i, snd (connection_send (client_hooks env) frame s1)))"
    using False unfolding client_request_def Let_def s1_def by (simp only: de_Morgan_disj if_False simp_thms split: if_splits)
  show ?thesis
  proof (cases "encodeClientMessage W (Some (cn_maxFrameLength s1)) (Request ?i command)")
    case (Inl err)
    obtain c s2 where take: "takePendingRequest ?i s1 = (c, s2)" by fastforce
    have "map_of (cl_pending (cn_world s)) ?i = None" using new(1) by (simp add: map_of_eq_None_iff)
    with take have c: "c = Some command" by (simp add: takePendingRequest_def s1 map_add_def)
    note taken = take_pending_ok [OF ok1 take [unfolded c]]
    from taken(3) obtain f where f: "s2 = in_client f s1" by blast
    obtain g where g: "settle_request ?i (Inl (CodecFault err)) s2 = in_client g s2" using settle_request_in_client by blast
    have "client_ok X (settle_request ?i (Inl (CodecFault err)) s2)" by (rule settle_ok [OF taken(1,2)]) simp
    moreover have "conn_ok (settle_request ?i (Inl (CodecFault err)) s2)" using conn1(2) by (subst g) (simp add: f)
    moreover have "evolves s (settle_request ?i (Inl (CodecFault err)) s2)"
      by (subst g, subst f) (intro evolves_trans [OF _ evolves_in_client] conn1(3))
    ultimately show ?thesis
      unfolding step using Inl take by (simp add: conn_keeps_def)
  next
    case (Inr frame)
    have "conn_keeps (client_ok X) s (snd (connection_send (client_hooks env) frame s1))"
      by (rule conn_keeps_then [OF k1 connection_client.connection_send_keeps [OF client_hooks_ok [OF assms(1)]]])
    with Inr show ?thesis unfolding step by simp
  qed
qed

lemma reset_keeps: "conn_ok s \<Longrightarrow> client_ok X s \<Longrightarrow> conn_keeps (client_ok X) s (reset_state s)"
  unfolding reset_state_def by (rule in_state_keeps)

lemma client_connect_keeps:
  assumes "outside_ok env" and "conn_ok s" and "client_ok X s"
  shows "conn_keeps (client_ok X) s (snd (client_connect env s))"
proof -
  have k: "conn_keeps (client_ok X) s (if cn_lifecycle s = Disconnected then reset_state s else s)"
    using assms(2,3) by (simp add: reset_keeps conn_keeps_refl)
  from conn_keeps_then [OF k connection_client.connect_keeps [OF client_hooks_ok [OF assms(1)]]] show ?thesis
    using assms(2,3) by (simp add: client_connect_def conn_keeps_refl)
qed

lemma invalidate_all_keeps: "conn_ok s \<Longrightarrow> client_ok X s \<Longrightarrow> conn_keeps (client_ok X) s (invalidateAllSessionLeases s)"
  using invalidate_all_data [of s] by (auto simp: other_data_keeps)

lemma reject_keeps:
  assumes "conn_ok s" and "client_ok X s"
  shows "conn_keeps (client_ok X) s (rejectPendingRequests err s)"
proof -
  have "client_data_ok X (cn_world s)" using assms(2) by (simp add: client_ok_def)
  note rejected = rejected_all [OF this, of err]
  from rejected(3) obtain f where "rejectPendingRequests err s = in_client f s" by blast
  with rejected(1) assms(1) show ?thesis by (simp add: conn_keeps_def)
qed

lemma dispose_keeps:
  assumes "outside_ok env" and "conn_ok s" and "client_ok X s"
  shows "conn_keeps (client_ok X) s (client_dispose env s)"
proof -
  note hooks = client_hooks_ok [OF assms(1)]
  have "conn_keeps (client_ok X) s (in_client (\<lambda>c. c\<lparr>cl_disposed := True\<rparr>) s)"
    by (rule other_data_keeps [OF _ assms(2,3)]) (simp add: other_data_def)
  note a = conn_keeps_then [OF this reject_keeps [where err = ClientDisposed]]
  note b = conn_keeps_then [OF a connection_client.disconnect_keeps [OF hooks, where reason = ClientDisposed]]
  note c = conn_keeps_then [OF b reset_keeps]
  have "conn_keeps (client_ok X) t (in_client (\<lambda>c. c\<lparr>cl_listening := False\<rparr>) t)" if "conn_ok t" "client_ok X t" for t :: "'a client"
    by (rule other_data_keeps [OF _ that]) (simp add: other_data_def)
  note d = conn_keeps_then [OF c this]
  note e = conn_keeps_then [OF d invalidate_all_keeps]
  from e show ?thesis using assms(2,3) by (simp add: client_dispose_def Let_def conn_keeps_refl)
qed

lemma client_step_keeps:
  assumes "outside_ok env" and "conn_ok s" and "client_ok X s"
  shows "conn_keeps (client_ok X) s (client_step W env c s)"
proof (cases c)
  case (CallReserve i exclusive)
  have "conn_keeps (client_ok X) s (in_client f s)" if "other_data f" for f by (rule other_data_keeps [OF that assms(2,3)])
  then show ?thesis using assms(2,3)
    by (auto simp: client_step_def CallReserve reserveSessionLease_def Let_def conn_keeps_refl other_data_def)
next
  case (CallRelease i token)
  show ?thesis
    unfolding client_step_def CallRelease client_call.case releaseSessionLease_def Let_def
    by (rule other_data_keeps [OF _ assms(2,3)]) (simp add: other_data_def)
next
  case (CallTransport e)
  with connection_client.transport_step_keeps [OF client_hooks_ok [OF assms(1)] assms(2,3)] show ?thesis by (simp add: client_step_def)
next
  case (CallDisconnect reason)
  with connection_client.disconnect_keeps [OF client_hooks_ok [OF assms(1)] assms(2,3)] show ?thesis
    by (simp add: client_step_def client_disconnect_def)
qed (simp_all add: client_step_def client_connect_keeps request_keeps dispose_keeps assms)

lemma client_steps_keep:
  assumes "outside_ok env" and "conn_ok s" and "client_ok X s"
  shows "conn_keeps (client_ok X) s (fold (client_step W env) cs s)"
  using assms(2,3)
proof (induction cs arbitrary: s)
  case Nil
  then show ?case by (simp add: conn_keeps_refl)
next
  case (Cons c cs)
  from conn_keeps_then [OF client_step_keeps [OF assms(1) Cons.prems, of W c] Cons.IH] show ?case by simp
qed

lemma outside_at_ok: "outside_ok (outside_at k W react)"
proof (induction k)
  case 0
  show ?case
    unfolding outside_ok_def by (auto simp: Let_def other_data_def split: prod.split intro!: other_data_keeps)
next
  case (Suc k)
  show ?case
    unfolding outside_ok_def
  proof (intro allI impI)
    fix X e and s :: "'a client"
    assume s: "conn_ok s" "client_ok X s"
    obtain u calls r where react: "react (cl_user (cn_world s)) e = (u, calls, r)" by (metis prod_cases3)
    have "conn_keeps (client_ok X) s (in_client (\<lambda>c. c\<lparr>cl_user := u\<rparr>) s)"
      by (rule other_data_keeps [OF _ s]) (simp add: other_data_def)
    from conn_keeps_then [OF this client_steps_keep [OF Suc]] show "conn_keeps (client_ok X) s (snd (outside_at (Suc k) W react e s))"
      by (simp add: react)
  qed
qed

interpretation client: connection_client "client_hooks (outside_at k W react)" "client_ok X" for k W react X
  by (rule client_hooks_ok [OF outside_at_ok])

section \<open>Every promise is settled\<close>

lemma new_client_ok:
  assumes "new_PiClient options u = Inr s"
  shows "conn_ok s" and "client_ok {} s"
proof -
  obtain n where "frame_limit_ok (JInt n)" and s: "s = \<lparr>cn_maxFrameLength = JInt n, cn_lifecycle = Disconnected, cn_sequence = 0,
      cn_promises = [], cn_notified = [], cn_world = new_client_data u\<rparr>"
    using assms unfolding new_PiClient_def new_Connection_def Let_def
    by (cases "case options of None \<Rightarrow> JInt (int DEFAULT_MAX_FRAME_LENGTH) | Some m \<Rightarrow> m") (auto simp: frame_limit_ok_def split: if_splits)
  then show "conn_ok s" "client_ok {} s"
    by (auto simp: conn_ok_def client_ok_def client_data_ok_def new_client_data_def made_ids_def)
qed

lemma client_run_keeps:
  assumes "new_PiClient options u = Inr s0"
  shows "conn_keeps (client_ok {}) s0 (fold (client_step W (outside_at k W react)) calls s0)"
  by (rule client_steps_keep [OF outside_at_ok new_client_ok [OF assms]])

definition sample_client :: "unit client" where
  "sample_client = \<lparr>cn_maxFrameLength = JInt 1024, cn_lifecycle = Disconnected, cn_sequence = 0, cn_promises = [], cn_notified = [],
     cn_world = new_client_data ()\<rparr>"

lemma new_sample_client: "new_PiClient (Some (JInt 1024)) () = Inr sample_client"
  by (simp add: sample_client_def new_PiClient_def new_Connection_def)

text \<open>C4 (liveness). No request of a client is left hanging: whatever the server sends, however the transport fails and
  whatever listeners call back (to any depth \<open>k\<close>), each request that was made is either pending or settled, never both
  and settled once; a result that a request is given is a result of its own command; and pending requests need the
  connection, so that once it is lost all of them are settled.\<close>

theorem client_requests_settle:
  assumes "new_PiClient options u = Inr s0"
    and "s = fold (client_step W (outside_at k W react)) calls s0"
  shows "distinct (map fst (cl_settled (cn_world s)))
    \<and> (\<forall>(i, command) \<in> set (cl_requests (cn_world s)).
         i \<in> fst ` set (cl_pending (cn_world s)) \<longleftrightarrow> i \<notin> fst ` set (cl_settled (cn_world s)))
    \<and> (\<forall>(i, r) \<in> set (cl_settled (cn_world s)). \<forall>result. r = Inr result \<longrightarrow>
         (\<exists>command. map_of (cl_requests (cn_world s)) i = Some command \<and> result_command result = command_of command))
    \<and> (\<not> is_connected s \<longrightarrow> fst ` set (cl_settled (cn_world s)) = fst ` set (cl_requests (cn_world s)))"
proof -
  have "client_ok {} s" using client_run_keeps [OF assms(1)] by (simp add: conn_keeps_def assms(2))
  then have ok: "client_data_ok {} (cn_world s)" and lost: "\<not> is_connected s \<longrightarrow> cl_pending (cn_world s) = []"
    by (auto simp: client_ok_def)
  note facts = client_data_facts [OF ok]
  have "i \<in> fst ` set (cl_pending (cn_world s)) \<longleftrightarrow> i \<notin> fst ` set (cl_settled (cn_world s))"
    if "(i, command) \<in> set (cl_requests (cn_world s))" for i command
  proof -
    have "i \<in> made_ids (cn_world s)" using that facts(6) by (metis fst_conv image_eqI)
    with facts(3,5) show ?thesis by blast
  qed
  moreover have "fst ` set (cl_settled (cn_world s)) = fst ` set (cl_requests (cn_world s))" if "\<not> is_connected s"
    using that lost facts(5,6) by simp
  ultimately show ?thesis using facts(2,8) by blast
qed

lemma client_requests_settle_witness:
  "distinct (map fst (cl_settled (cn_world (fold (client_step sample_wire (outside_at 1 sample_wire (\<lambda>u e. (u, [CallDisconnect (jlit ''bye'')], Inr ()))))
     [CallConnect, CallTransport (Opened 1 (Inr 0)), CallRequest ListCommand] sample_client))))"
  by (rule conjunct1 [OF client_requests_settle [OF new_sample_client refl]])

text \<open>C5 (invariant). Connection attempts are settled once, and reports tell the truth: at every moment the promises of all
  attempts but the one in its handshake are settled; none changes its outcome later; and the reports are a sequence of
  connecting, optionally connected, and disconnected, that ends as the connection is, also when listeners disconnect and
  connect again while they are told.\<close>

theorem connection_attempts_settle_once:
  assumes "new_PiClient options u = Inr s0"
    and "s = fold (client_step W (outside_at k W react)) calls s0"
    and "s' = fold (client_step W (outside_at k W react)) later s"
  shows "distinct (map fst (cn_promises s)) \<and> set (cn_promises s) \<subseteq> set (cn_promises s')
    \<and> fst ` set (cn_promises s) = {i. 1 \<le> i \<and> i \<le> cn_sequence s \<and> held_handshake (cn_lifecycle s) \<noteq> Some i}
    \<and> legal_changes (cn_notified s) \<and> last_change_fits (cn_lifecycle s) (cn_notified s)"
proof -
  have ok: "conn_ok s" "client_ok {} s" using client_run_keeps [OF assms(1)] by (simp_all add: conn_keeps_def assms(2))
  have "evolves s s'" using client_steps_keep [OF outside_at_ok ok] by (simp add: conn_keeps_def assms(3))
  with ok(1) show ?thesis by (auto simp: conn_ok_def evolves_def)
qed

lemma connection_attempts_settle_once_witness:
  "distinct (map fst (cn_promises (fold (client_step sample_wire (outside_at 1 sample_wire (\<lambda>u e. (u, [CallDisconnect (jlit ''bye''), CallConnect], Inr ()))))
     [CallConnect, CallTransport (TransportClosed 1)] sample_client)))"
  by (rule conjunct1 [OF connection_attempts_settle_once [OF new_sample_client refl refl]])

end
