(* ===== verification/Client_Mirror.thy ===== *)
theory Client_Mirror
  imports Client_Facts "HOL-Library.Multiset"
begin

text \<open>
  What a client whose listeners do not call back knows of the server: its copy is a function of the events that the
  server sent, it keeps the newest snapshots, and the events arrive over the wire however the bytes are chunked.
\<close>

section \<open>The copy as a function of the events\<close>

definition newer_or_equal :: "int option \<Rightarrow> int \<Rightarrow> bool" where
  "newer_or_equal current revision \<longleftrightarrow> (case current of None \<Rightarrow> True | Some r \<Rightarrow> r \<le> revision)"

fun mirror_event :: "server_event \<Rightarrow> client_state \<Rightarrow> client_state" where
  "mirror_event (ServerSnapshotEvent snapshot) c =
     (if newer_or_equal (map_option sv_revision (cs_snapshot c)) (sv_revision snapshot) then c\<lparr>cs_snapshot := Some snapshot\<rparr> else c)"
| "mirror_event (SessionSnapshotEvent snapshot) c =
     (if newer_or_equal (map_option sn_revision (map_of (cs_sessions c) (sn_id snapshot))) (sn_revision snapshot)
      then c\<lparr>cs_sessions := AList.update (sn_id snapshot) snapshot (cs_sessions c),
        cs_attached := (if sn_attached snapshot then insert (sn_id snapshot) (cs_attached c) else cs_attached c - {sn_id snapshot})\<rparr>
      else c)"
| "mirror_event (SessionRemoved i) c = c\<lparr>cs_sessions := AList.delete i (cs_sessions c), cs_attached := cs_attached c - {i}\<rparr>"
| "mirror_event (SessionProgress _ _) c = c"

text \<open>Listeners and a transport that make no calls and never fail.\<close>

definition silent :: "'u reaction \<Rightarrow> bool" where
  "silent react \<longleftrightarrow> (\<forall>u e. \<exists>v. react u e = (v, [], Inr ()))"

definition inert :: "'u outside \<Rightarrow> bool" where
  "inert env \<longleftrightarrow> (\<forall>e s. \<exists>v. env e s = (Inr (), in_client (\<lambda>c. c\<lparr>cl_user := v\<rparr>) s))"

lemma silent_inert:
  assumes "silent react"
  shows "inert (outside_at k W react)"
  unfolding inert_def
proof (intro allI)
  fix e and s :: "'a client"
  obtain v where "react (cl_user (cn_world s)) e = (v, [], Inr ())" using assms unfolding silent_def by blast
  then show "\<exists>v. outside_at k W react e s = (Inr (), in_client (\<lambda>c. c\<lparr>cl_user := v\<rparr>) s)" by (cases k) auto
qed

text \<open>The parts of a client that an inert listener leaves alone.\<close>

definition same_conn :: "'u client \<Rightarrow> 'u client \<Rightarrow> bool" where
  "same_conn s s' \<longleftrightarrow> cn_maxFrameLength s' = cn_maxFrameLength s \<and> cn_lifecycle s' = cn_lifecycle s \<and> cn_sequence s' = cn_sequence s
     \<and> cn_promises s' = cn_promises s \<and> cn_notified s' = cn_notified s"

lemma same_conn_facts [simp]: "same_conn s s" "same_conn s (in_client f s)" "same_conn s (in_state g s)"
  by (simp_all add: same_conn_def in_state_def)

lemma same_conn_trans: "same_conn s s' \<Longrightarrow> same_conn s' s'' \<Longrightarrow> same_conn s s''"
  by (simp add: same_conn_def)

lemma state_of_in_state [simp]: "state_of (in_state f s) = f (state_of s)"
  by (simp add: in_state_def)

lemma inert_env:
  assumes "inert env"
  obtains v where "env e s = (Inr (), in_client (\<lambda>c. c\<lparr>cl_user := v\<rparr>) s)"
  using assms by (auto simp: inert_def)

lemma inert_tell: "inert env \<Longrightarrow> same_conn s (tell env e s) \<and> state_of (tell env e s) = state_of s"
  by (rule inert_env [of env e s]) (simp_all add: tell_def)

lemma apply_server_mirrors:
  assumes "inert env"
  shows "same_conn s (applyServerSnapshot env snapshot s)
    \<and> state_of (applyServerSnapshot env snapshot s) = mirror_event (ServerSnapshotEvent snapshot) (state_of s)"
  using inert_tell [OF assms, of "in_state (\<lambda>c. c\<lparr>cs_snapshot := Some snapshot\<rparr>) s" "TellSnapshot snapshot"]
  by (auto simp: applyServerSnapshot_def newer_or_equal_def same_conn_def in_state_def split: option.splits)

lemma apply_session_mirrors:
  assumes "inert env"
  shows "same_conn s (applySessionSnapshot env snapshot False s)
    \<and> state_of (applySessionSnapshot env snapshot False s) = mirror_event (SessionSnapshotEvent snapshot) (state_of s)"
proof -
  have "same_conn s (tell env e (in_state f s)) \<and> state_of (tell env e (in_state f s)) = f (state_of s)" for e f
    using inert_tell [OF assms, of "in_state f s" e] same_conn_trans [OF same_conn_facts(3)] by auto
  then show ?thesis
    by (cases "map_of (cs_sessions (state_of s)) (sn_id snapshot)") (simp_all add: applySessionSnapshot_def newer_or_equal_def)
qed

lemma event_mirrors:
  assumes "inert env"
  shows "same_conn s (applyEvent env event s) \<and> state_of (applyEvent env event s) = mirror_event event (state_of s)"
proof -
  have told: "same_conn s (tell env e t) \<and> state_of (tell env e t) = c" if "same_conn s t" "state_of t = c" for e t c
    using inert_tell [OF assms, of t e] that same_conn_trans by metis
  define t where "t = (case event of
          ServerSnapshotEvent snapshot \<Rightarrow> applyServerSnapshot env snapshot s
        | SessionSnapshotEvent snapshot \<Rightarrow> applySessionSnapshot env snapshot False s
        | SessionRemoved i \<Rightarrow> in_state (\<lambda>c. c\<lparr>cs_sessions := AList.delete i (cs_sessions c), cs_attached := cs_attached c - {i}\<rparr>) s
        | SessionProgress _ _ \<Rightarrow> s)"
  have "same_conn s t \<and> state_of t = mirror_event event (state_of s)"
    by (cases event) (simp_all add: t_def apply_server_mirrors [OF assms] apply_session_mirrors [OF assms])
  then have once: "same_conn s (tell env (TellEvent event) t)" "state_of (tell env (TellEvent event) t) = mirror_event event (state_of s)"
    using told by blast+
  have "applyEvent env event s = (case getEventSessionId event of
      Some i \<Rightarrow> tell env (TellSessionEvent i event) (tell env (TellEvent event) t) | None \<Rightarrow> tell env (TellEvent event) t)"
    unfolding applyEvent_def t_def Let_def by simp
  with once told [OF once] show ?thesis by (cases "getEventSessionId event") simp_all
qed

lemma message_mirrors:
  assumes "inert env"
  shows "same_conn s (handleMessage env (Event event) s) \<and> state_of (handleMessage env (Event event) s) = mirror_event event (state_of s)"
proof -
  define t where "t = (case event of SessionRemoved i \<Rightarrow> invalidateSessionLeases i s | _ \<Rightarrow> s)"
  have "same_conn s t" "state_of t = state_of s" by (simp_all add: t_def invalidateSessionLeases_def split: server_event.split)
  moreover have "handleMessage env (Event event) s = applyEvent env event t" by (simp add: handleMessage_def t_def)
  ultimately show ?thesis using event_mirrors [OF assms, of t event] same_conn_trans by metis
qed

lemma events_mirror:
  assumes "inert env"
  shows "state_of (fold (applyEvent env) events s) = fold mirror_event events (state_of s)"
  by (induction events arbitrary: s) (simp_all add: event_mirrors [OF assms])

section \<open>The newest snapshot\<close>

text \<open>The snapshots of the session \<open>i\<close> that some events carry.\<close>

fun sent_snapshots :: "jstr \<Rightarrow> server_event list \<Rightarrow> session_snapshot list" where
  "sent_snapshots i [] = []"
| "sent_snapshots i (SessionSnapshotEvent snapshot # es) =
     (if sn_id snapshot = i then snapshot # sent_snapshots i es else sent_snapshots i es)"
| "sent_snapshots i (_ # es) = sent_snapshots i es"

lemma set_sent_snapshots [simp]: "set (sent_snapshots i es) = {v. SessionSnapshotEvent v \<in> set es \<and> sn_id v = i}"
  by (induction i es rule: sent_snapshots.induct) auto

definition known_snapshots :: "jstr \<Rightarrow> client_state \<Rightarrow> server_event list \<Rightarrow> session_snapshot list" where
  "known_snapshots i c events = (case map_of (cs_sessions c) i of None \<Rightarrow> [] | Some v \<Rightarrow> [v]) @ sent_snapshots i events"

lemma mirror_newest:
  assumes "SessionRemoved i \<notin> set events" and "known_snapshots i c events \<noteq> []"
  shows "\<exists>v. map_of (cs_sessions (fold mirror_event events c)) i = Some v \<and> v \<in> set (known_snapshots i c events)
    \<and> (\<forall>w \<in> set (known_snapshots i c events). sn_revision w \<le> sn_revision v)"
  using assms
proof (induction events arbitrary: c)
  case Nil
  then show ?case by (auto simp: known_snapshots_def split: option.splits)
next
  case (Cons e es)
  let ?c = "mirror_event e c"
  have rest: "known_snapshots i ?c es \<noteq> [] \<Longrightarrow> \<exists>v. map_of (cs_sessions (fold mirror_event es ?c)) i = Some v
      \<and> v \<in> set (known_snapshots i ?c es) \<and> (\<forall>w \<in> set (known_snapshots i ?c es). sn_revision w \<le> sn_revision v)"
    using Cons.IH [of ?c] Cons.prems(1) by simp
  show ?case
  proof (cases "\<exists>v. e = SessionSnapshotEvent v \<and> sn_id v = i")
    case False
    with Cons.prems(1) have "map_of (cs_sessions ?c) i = map_of (cs_sessions c) i" "sent_snapshots i (e # es) = sent_snapshots i es"
      by (cases e; auto simp: update_conv' AList.delete_conv')+
    with rest Cons.prems(2) show ?thesis by (simp add: known_snapshots_def)
  next
    case True
    then obtain v where e: "e = SessionSnapshotEvent v" "sn_id v = i" by blast
    show ?thesis
    proof (cases "newer_or_equal (map_option sn_revision (map_of (cs_sessions c) i)) (sn_revision v)")
      case True
      then have "map_of (cs_sessions ?c) i = Some v" using e by (simp add: update_conv')
      moreover have "\<forall>w \<in> set (known_snapshots i c []). sn_revision w \<le> sn_revision v"
        using True by (auto simp: known_snapshots_def newer_or_equal_def split: option.splits)
      ultimately show ?thesis using rest e by (force simp: known_snapshots_def)
    next
      case False
      then obtain u where "map_of (cs_sessions c) i = Some u" "sn_revision v < sn_revision u" "?c = c"
        using e by (auto simp: newer_or_equal_def split: option.splits)
      with rest e show ?thesis by (force simp: known_snapshots_def)
    qed
  qed
qed

text \<open>C6 (functional). The newest snapshot of a session wins, in whatever order the snapshots arrive: as long as the
  session is not removed, the client holds one of greatest revision among the snapshot it had and those it was sent; and when
  revisions differ, every order of the same events leaves the same snapshot.\<close>

theorem newest_snapshot_wins:
  assumes "inert env" and "SessionRemoved i \<notin> set events" and "known_snapshots i (state_of s) events \<noteq> []"
  shows "\<exists>v. map_of (cs_sessions (state_of (fold (applyEvent env) events s))) i = Some v
    \<and> v \<in> set (known_snapshots i (state_of s) events)
    \<and> (\<forall>w \<in> set (known_snapshots i (state_of s) events). sn_revision w \<le> sn_revision v)
    \<and> (\<forall>events'. mset events' = mset events \<longrightarrow> inj_on sn_revision (set (known_snapshots i (state_of s) events)) \<longrightarrow>
         map_of (cs_sessions (state_of (fold (applyEvent env) events' s))) i = Some v)"
proof -
  obtain v where v: "map_of (cs_sessions (fold mirror_event events (state_of s))) i = Some v"
      "v \<in> set (known_snapshots i (state_of s) events)" "\<forall>w \<in> set (known_snapshots i (state_of s) events). sn_revision w \<le> sn_revision v"
    using mirror_newest [OF assms(2,3)] by blast
  have "map_of (cs_sessions (fold mirror_event events' (state_of s))) i = Some v"
    if same: "mset events' = mset events" and inj: "inj_on sn_revision (set (known_snapshots i (state_of s) events))" for events'
  proof -
    have set: "set (known_snapshots i (state_of s) events') = set (known_snapshots i (state_of s) events)"
      by (simp add: known_snapshots_def mset_eq_setD [OF same])
    with assms(3) have "known_snapshots i (state_of s) events' \<noteq> []" by force
    moreover have "SessionRemoved i \<notin> set events'" using assms(2) mset_eq_setD [OF same] by simp
    ultimately obtain w where w: "map_of (cs_sessions (fold mirror_event events' (state_of s))) i = Some w"
        "w \<in> set (known_snapshots i (state_of s) events)" "\<forall>x \<in> set (known_snapshots i (state_of s) events). sn_revision x \<le> sn_revision w"
      using mirror_newest [of i events' "state_of s"] unfolding set by blast
    from v(2,3) w(2,3) have "sn_revision w = sn_revision v" by (meson order_antisym)
    with inj v(2) w(2) have "w = v" by (auto dest: inj_onD)
    with w(1) show ?thesis by simp
  qed
  with v show ?thesis by (auto simp: events_mirror [OF assms(1)])
qed

lemma newest_snapshot_wins_witness:
  "\<exists>v. map_of (cs_sessions (state_of (fold (applyEvent (outside_at 1 sample_wire (\<lambda>u e. (u, [], Inr ()))))
       [SessionSnapshotEvent (sample_session [65] 2), SessionSnapshotEvent (sample_session [65] 1)] sample_client))) [65] = Some v
     \<and> v \<in> set (known_snapshots [65] (state_of sample_client)
         [SessionSnapshotEvent (sample_session [65] 2), SessionSnapshotEvent (sample_session [65] 1)])"
proof -
  have "inert (outside_at 1 sample_wire (\<lambda>u e. (u, [], Inr ())))" by (rule silent_inert) (simp add: silent_def)
  from newest_snapshot_wins [OF this, of "[65]" "[SessionSnapshotEvent (sample_session [65] 2), SessionSnapshotEvent (sample_session [65] 1)]"
      sample_client]
  show ?thesis by (auto simp: known_snapshots_def sample_session_def)
qed

section \<open>The wire\<close>

lemma feed_all_server:
  "feed_all (push_messages (wr_accept_server W)) d chunks = Some (d', Inr vs) \<Longrightarrow>
     feed_all (push_server W) d chunks = Some (d', Inr (map (wr_read_server W) vs))"
proof (induction chunks arbitrary: d vs)
  case (Cons c cs)
  then obtain d1 ws us where "push_messages (wr_accept_server W) d c = Some (d1, Inr ws)"
    "feed_all (push_messages (wr_accept_server W)) d1 cs = Some (d', Inr us)" "vs = ws @ us"
    by (auto split: option.splits prod.splits sum.splits)
  with Cons.IH [of d1 us] show ?case by (simp add: push_server_def)
qed simp

text \<open>The messages that open a connection and bring events.\<close>

fun greeted :: "server_message list \<Rightarrow> bool" where
  "greeted [] \<longleftrightarrow> True"
| "greeted (m # ms) \<longleftrightarrow> (\<exists>i v. m = ServerHello i v) \<and> (\<forall>m \<in> set ms. \<exists>e. m = Event e)"

lemma greeted_append: "greeted (ms @ ns) \<Longrightarrow> greeted ms"
  by (cases ms) auto

fun mirror_message :: "server_message \<Rightarrow> client_state \<Rightarrow> client_state" where
  "mirror_message (ServerHello _ snapshot) = mirror_event (ServerSnapshotEvent snapshot)"
| "mirror_message (Event e) = mirror_event e"
| "mirror_message _ = id"

text \<open>A client of the attempt \<open>i\<close> that has handled the messages \<open>ms\<close> and has the decoder \<open>d\<close>.\<close>

definition follows_stream :: "nat \<Rightarrow> nat \<Rightarrow> client_state \<Rightarrow> message_decoder \<Rightarrow> server_message list \<Rightarrow> 'u client \<Rightarrow> bool" where
  "follows_stream i t c d ms s \<longleftrightarrow> greeted ms \<and> state_of s = fold mirror_message ms c
     \<and> (case ms of
          [] \<Rightarrow> cn_lifecycle s = Connecting i d (Some t) \<and> cn_promises s = []
        | m # _ \<Rightarrow> cn_lifecycle s = Connected i d t False \<and> (\<exists>server v. m = ServerHello server v \<and> cn_promises s = [(i, Inr v)]))"

lemma connected_hooks [simp]:
  "ch_onHandshake (client_hooks env) = (\<lambda>snapshot s. (Inr (), applyServerSnapshot env snapshot s))"
  "ch_onMessage (client_hooks env) = handleMessage env"
  "ch_onStateChange (client_hooks env) = handleConnectionStateChange env"
  "ch_open (client_hooks env) = (\<lambda>i. env (OpenTransport i))"
  "ch_send (client_hooks env) = (\<lambda>t frame. env (SendFrame t frame))"
  by (simp_all add: client_hooks_def base_hooks_def)

lemma report_mirrors:
  assumes "inert env" and "\<nexists>err. change = ChangeDisconnected err"
  shows "cn_lifecycle (report_change (client_hooks env) change s) = cn_lifecycle s"
    "cn_promises (report_change (client_hooks env) change s) = cn_promises s"
    "cn_sequence (report_change (client_hooks env) change s) = cn_sequence s"
    "cn_maxFrameLength (report_change (client_hooks env) change s) = cn_maxFrameLength s"
    "state_of (report_change (client_hooks env) change s) = state_of s"
proof -
  have "report_change (client_hooks env) change s = tell env (TellChange change) (s\<lparr>cn_notified := change # cn_notified s\<rparr>)"
    using assms(2) by (cases change) (simp_all add: report_change_def handleConnectionStateChange_def)
  with inert_tell [OF assms(1), of "s\<lparr>cn_notified := change # cn_notified s\<rparr>" "TellChange change"]
  show "cn_lifecycle (report_change (client_hooks env) change s) = cn_lifecycle s"
    "cn_promises (report_change (client_hooks env) change s) = cn_promises s"
    "cn_sequence (report_change (client_hooks env) change s) = cn_sequence s"
    "cn_maxFrameLength (report_change (client_hooks env) change s) = cn_maxFrameLength s"
    "state_of (report_change (client_hooks env) change s) = state_of s" by (simp_all add: same_conn_def)
qed

lemma hello_followed:
  assumes "inert env" and "follows_stream i t c d [] s"
  shows "follows_stream i t c d [ServerHello server v] (connection_message (client_hooks env) (ServerHello server v) s)"
proof -
  have s: "cn_lifecycle s = Connecting i d (Some t)" "cn_promises s = []" "state_of s = c"
    using assms(2) by (simp_all add: follows_stream_def)
  define s1 where "s1 = applyServerSnapshot env v (s\<lparr>cn_lifecycle := Connected i d t True\<rparr>)"
  have s1: "cn_lifecycle s1 = Connected i d t True" "cn_promises s1 = []" "state_of s1 = mirror_event (ServerSnapshotEvent v) c"
    using apply_server_mirrors [OF assms(1), of "s\<lparr>cn_lifecycle := Connected i d t True\<rparr>" v] s by (simp_all add: s1_def same_conn_def)
  define s2 where "s2 = report_change (client_hooks env) ChangeConnected s1"
  have s2: "cn_lifecycle s2 = Connected i d t True" "cn_promises s2 = []" "state_of s2 = mirror_event (ServerSnapshotEvent v) c"
    unfolding s2_def by (simp_all add: report_mirrors [OF assms(1)] s1 del: mirror_event.simps)
  have "connection_message (client_hooks env) (ServerHello server v) s
      = settle_attempt i (Inr v) (s2\<lparr>cn_lifecycle := Connected i d t False\<rparr>)"
    using s1(1) s2(1)
    by (simp add: connection_message_def s(1) complete_handshake_def s1_def [symmetric] s2_def [symmetric] still_connected_def
        is_connected_def isCurrent_def Let_def)
  with s2 show ?thesis by (simp add: follows_stream_def settle_attempt_def)
qed

lemma event_followed:
  assumes "inert env" and "follows_stream i t c d ms s" and "ms \<noteq> []"
  shows "follows_stream i t c d (ms @ [Event e]) (connection_message (client_hooks env) (Event e) s)"
proof -
  obtain m ns where ms: "ms = m # ns" using assms(3) by (cases ms) auto
  with assms(2) have "connection_message (client_hooks env) (Event e) s = handleMessage env (Event e) s"
    by (simp add: connection_message_def follows_stream_def)
  with message_mirrors [OF assms(1), of s e] assms(2) show ?thesis by (auto simp: follows_stream_def ms same_conn_def)
qed

lemma messages_followed:
  assumes "inert env"
  shows "follows_stream i t c d seen s \<Longrightarrow> greeted (seen @ ms) \<Longrightarrow>
    follows_stream i t c d (seen @ ms) (connection_messages (client_hooks env) ms s)"
proof (induction ms arbitrary: seen s)
  case (Cons m ms)
  have live: "cn_lifecycle s \<noteq> Disconnected" using Cons.prems(1) by (auto simp: follows_stream_def split: list.splits)
  have "follows_stream i t c d (seen @ [m]) (connection_message (client_hooks env) m s)"
  proof (cases "seen = []")
    case True
    with Cons.prems(2) obtain server v where "m = ServerHello server v" by auto
    with hello_followed [OF assms] Cons.prems(1) True show ?thesis by simp
  next
    case False
    with Cons.prems(2) obtain e where "m = Event e" by (cases seen) auto
    with event_followed [OF assms Cons.prems(1) False] show ?thesis by simp
  qed
  from Cons.IH [OF this] Cons.prems(2) live show ?case by simp
qed simp

lemma data_followed:
  assumes "inert env" and "follows_stream i t c d seen s" and "push_server W d chunk = Some (d', Inr ms)" and "greeted (seen @ ms)"
  shows "follows_stream i t c d' (seen @ ms) (handleData W (client_hooks env) i chunk s)"
proof -
  have "follows_stream i t c d' seen (s\<lparr>cn_lifecycle := with_decoder d' (cn_lifecycle s)\<rparr>)"
    using assms(2) by (auto simp: follows_stream_def split: list.splits)
  from messages_followed [OF assms(1) this assms(4)] assms(2,3) show ?thesis
    by (auto simp: handleData_def follows_stream_def isCurrent_def is_connected_def split: list.splits)
qed

lemma stream_followed:
  assumes "inert env"
  shows "follows_stream i t c d seen s \<Longrightarrow> feed_all (push_server W) d chunks = Some (d', Inr ms) \<Longrightarrow> greeted (seen @ ms) \<Longrightarrow>
    follows_stream i t c d' (seen @ ms) (fold (handleData W (client_hooks env) i) chunks s)"
proof (induction chunks arbitrary: d seen s ms)
  case (Cons chunk chunks)
  then obtain d1 ws us where push: "push_server W d chunk = Some (d1, Inr ws)"
    and feed: "feed_all (push_server W) d1 chunks = Some (d', Inr us)" and ms: "ms = ws @ us"
    by (auto split: option.splits prod.splits sum.splits)
  have "follows_stream i t c d1 (seen @ ws) (handleData W (client_hooks env) i chunk s)"
    using Cons.prems ms by (intro data_followed [OF assms _ push]) (auto intro: greeted_append)
  from Cons.IH [OF this feed] Cons.prems(3) show ?case by (simp add: ms)
qed simp

lemma new_decoder_exists: "frame_limit_ok mx \<Longrightarrow> \<exists>d. new_ValidatedMessageDecoder kind (Some mx) = Inr d"
  by (auto simp: frame_limit_ok_def new_ValidatedMessageDecoder_def new_FrameDecoder_def resolveMaxFrameLength_def is_safe_def max_safe_def
      MAX_UINT32_frame_def)

lemma data_step: "client_step W env (CallTransport (DataReceived i chunk)) = handleData W (client_hooks env) i chunk"
  by (simp add: fun_eq_iff client_step_def transport_step_def)

lemma opened_client:
  assumes "inert env" and "new_PiClient options u = Inr s0" and "new_ValidatedMessageDecoder ServerMessages (Some (cn_maxFrameLength s0)) = Inr d"
    and "encodeClientMessage W (Some (cn_maxFrameLength s0)) (ClientHello (JInt PROTOCOL_VERSION)) = Inr hello"
  shows "follows_stream 1 t empty_state d [] (fold (client_step W env) [CallConnect, CallTransport (Opened 1 (Inr t))] s0)"
proof -
  have s0: "cn_lifecycle s0 = Disconnected" "cn_sequence s0 = 0" "cn_promises s0 = []" "\<not> cl_disposed (cn_world s0)"
    using assms(2) unfolding new_PiClient_def new_Connection_def Let_def
    by (auto simp: new_client_data_def split: js_number.splits if_splits)
  define s1 where "s1 = (reset_state s0)\<lparr>cn_sequence := Suc 0, cn_lifecycle := Connecting (Suc 0) d None\<rparr>"
  define s2 where "s2 = report_change (client_hooks env) ChangeConnecting s1"
  have s2: "cn_lifecycle s2 = Connecting (Suc 0) d None" "cn_promises s2 = []" "state_of s2 = empty_state"
    "cn_maxFrameLength s2 = cn_maxFrameLength s0"
    unfolding s2_def by (simp_all add: report_mirrors [OF assms(1)] s1_def reset_state_def in_state_def s0)
  obtain v where v: "env (OpenTransport (Suc 0)) s2 = (Inr (), in_client (\<lambda>c. c\<lparr>cl_user := v\<rparr>) s2)" by (rule inert_env [OF assms(1)])
  define s3 where "s3 = in_client (\<lambda>c. c\<lparr>cl_user := v\<rparr>) s2"
  have "client_step W env CallConnect s0 = s3"
    using s0 assms(3) v
    by (simp add: client_step_def client_connect_def connection_connect_def reset_state_def in_state_def s1_def s2_def s3_def Let_def)
  moreover have "follows_stream 1 t empty_state d [] (client_step W env (CallTransport (Opened 1 (Inr t))) s3)"
  proof -
    let ?s = "s3\<lparr>cn_lifecycle := Connecting 1 d (Some t)\<rparr>"
    obtain v where v: "env (SendFrame t hello) ?s = (Inr (), in_client (\<lambda>c. c\<lparr>cl_user := v\<rparr>) ?s)" by (rule inert_env [OF assms(1)])
    have "client_step W env (CallTransport (Opened 1 (Inr t))) s3 = in_client (\<lambda>c. c\<lparr>cl_user := v\<rparr>) ?s"
      using v assms(4) s2 by (simp add: client_step_def transport_step_def transport_opened_def s3_def Let_def)
    with s2 show ?thesis by (simp add: follows_stream_def s3_def)
  qed
  ultimately show ?thesis by simp
qed

text \<open>C3 (roundtrip). What the server says is what the client shows: when a new client connects, and the transport delivers
  the bytes of a hello and of any events, as the protocol encodes them and cut into any chunks, the client is connected, its
  promise has the snapshot of the hello, and its copy is that snapshot with the events applied in their order. Reading and
  writing messages as values is the wire's; listeners only look, and the transport accepts what it is given.\<close>

theorem client_mirrors_server_over_the_wire:
  assumes "silent react" and "wire_ok W"
    and client: "new_PiClient options u = Inr s0"
    and hello: "encodeClientMessage W (Some (cn_maxFrameLength s0)) (ClientHello (JInt PROTOCOL_VERSION)) = Inr hello"
    and frames: "list_all2 (\<lambda>m f. encodeServerMessage W (Some (cn_maxFrameLength s0)) m = Inr f)
      (ServerHello server snapshot # map Event events) frames"
    and chunks: "concat chunks = concat frames"
    and s: "s = fold (client_step W (outside_at k W react))
      ([CallConnect, CallTransport (Opened 1 (Inr t))] @ map (\<lambda>chunk. CallTransport (DataReceived 1 chunk)) chunks) s0"
  shows "is_connected s \<and> cn_promises s = [(1, Inr snapshot)]
    \<and> state_of s = fold mirror_event events (empty_state\<lparr>cs_snapshot := Some snapshot\<rparr>)"
proof -
  let ?messages = "ServerHello server snapshot # map Event events" and ?mx = "Some (cn_maxFrameLength s0)"
  note inert = silent_inert [OF assms(1), of k W]
  have "frame_limit_ok (cn_maxFrameLength s0)" using new_client_ok(1) [OF client] by (simp add: conn_ok_def)
  then obtain d where d: "new_ValidatedMessageDecoder ServerMessages ?mx = Inr d" using new_decoder_exists by blast
  have accepted: "\<forall>m \<in> set ?messages. wr_check_server W (wr_server_value W m)"
  proof
    fix m assume "m \<in> set ?messages"
    then obtain f where "encodeServerMessage W ?mx m = Inr f" using frames unfolding list_all2_conv_all_nth in_set_conv_nth by blast
    then show "wr_check_server W (wr_server_value W m)" by (auto simp: encodeServerMessage_def elim: encodeProtocolMessage_Inr)
  qed
  have "list_all2 (\<lambda>m f. encodeProtocolMessage (wr_check_server W) ServerMessages ?mx m = Inr f) (map (wr_server_value W) ?messages) frames"
    using frames by (simp only: list_all2_map1 encodeServerMessage_def)
  from encoded_stream_decodes [OF this _ _ d chunks, of "wr_accept_server W"] assms(2)
  obtain d' where "feed_all (push_messages (wr_accept_server W)) d chunks = Some (d', Inr (map value_data (map (wr_server_value W) ?messages)))"
    by (auto simp: wire_ok_def)
  from feed_all_server [OF this] have "feed_all (push_server W) d chunks
      = Some (d', Inr (map (wr_read_server W \<circ> value_data \<circ> wr_server_value W) ?messages))" by simp
  moreover have "map (wr_read_server W \<circ> value_data \<circ> wr_server_value W) ?messages = ?messages"
    by (rule map_idI) (use accepted assms(2) in \<open>auto simp: wire_ok_def\<close>)
  ultimately have "feed_all (push_server W) d chunks = Some (d', Inr ?messages)" by (simp only:)
  from stream_followed [OF inert opened_client [OF inert client d hello] this]
  have "follows_stream 1 t empty_state d' ?messages (fold (handleData W (client_hooks (outside_at k W react)) 1) chunks
      (fold (client_step W (outside_at k W react)) [CallConnect, CallTransport (Opened 1 (Inr t))] s0))" by auto
  then have "follows_stream 1 t empty_state d' ?messages s" by (simp add: s fold_map comp_def data_step)
  moreover have "fold mirror_message (map Event es) c = fold mirror_event es c" for es c by (simp add: fold_map comp_def)
  ultimately show ?thesis
    by (auto simp: follows_stream_def is_connected_def newer_or_equal_def empty_state_def)
qed

lemma sample_wire_ok: "wire_ok sample_wire"
  by (simp add: wire_ok_def sample_wire_def) (simp add: sample_value_def cbor_eval plain_object_def)

lemma sample_value_encoded:
  assumes "check (sample_value n)" and "0 \<le> n" and "n < 24"
  shows "encodeProtocolMessage check kind (Some (JInt 1024)) (sample_value n) = Inr [0, 0, 0, 5, 0xA1, 0x62, 0x69, 0x64, word_of_int n]"
proof -
  have "resolveOptions (cbor_limit (Some (JInt 1024))) = Inr \<lparr>maxByteLength = 1024, maxContainerLength = 1000000, maxDepth = 64\<rparr>"
    by (simp add: cbor_limit_def resolveOptions_def resolveLimit_def is_safe_def max_safe_def
        DEFAULT_MAX_CBOR_CONTAINER_LENGTH_def DEFAULT_MAX_CBOR_DEPTH_def MAX_UINT32_def MAX_CONFIGURED_DEPTH_def)
  then have "encodeCbor (sample_value n) (cbor_limit (Some (JInt 1024))) = Inr [0xA1, 0x62, 0x69, 0x64, word_of_int n]"
    using assms(2,3) by (simp add: encodeCbor_iff sample_value_def cbor_eval)
  moreover have "encodeFrame [0xA1, 0x62, 0x69, 0x64, word_of_int n] = Inr [0, 0, 0, 5, 0xA1, 0x62, 0x69, 0x64, word_of_int n]"
    by (simp add: encodeFrame_bytes MAX_UINT32_frame_def be_bytes_4)
  moreover have "assertCompleteFrame [0, 0, 0, 5, 0xA1, 0x62, 0x69, 0x64, word_of_int n] (frame_limit (Some (JInt 1024))) = Inr ()"
    by (simp add: assertCompleteFrame_def FRAME_HEADER_LENGTH_def header_length_def frame_limit_def
        resolveMaxFrameLength_def is_safe_def max_safe_def MAX_UINT32_frame_def)
  ultimately show ?thesis using assms(1) by (simp add: encodeProtocolMessage_def parseMessage_def) (simp add: sample_value_def plain_object_def)
qed

lemma client_mirrors_server_over_the_wire_witness:
  "let s = fold (client_step sample_wire (outside_at 1 sample_wire (\<lambda>u e. (u, [], Inr ()))))
     ([CallConnect, CallTransport (Opened 1 (Inr 0))] @ map (\<lambda>chunk. CallTransport (DataReceived 1 chunk))
       [[0, 0], [0, 5, 0xA1, 0x62, 0x69, 0x64, 7, 0], [0, 0, 5, 0xA1, 0x62, 0x69, 0x64, 8]]) sample_client
   in is_connected s \<and> cn_promises s = [(1, Inr sample_server)]
     \<and> state_of s = fold mirror_event [sample_event] (empty_state\<lparr>cs_snapshot := Some sample_server\<rparr>)"
proof -
  have frames: "encodeServerMessage sample_wire (Some (JInt 1024)) (ServerHello [] sample_server) = Inr [0, 0, 0, 5, 0xA1, 0x62, 0x69, 0x64, 7]"
      "encodeServerMessage sample_wire (Some (JInt 1024)) (Event sample_event) = Inr [0, 0, 0, 5, 0xA1, 0x62, 0x69, 0x64, 8]"
      "encodeClientMessage sample_wire (Some (JInt 1024)) (ClientHello (JInt PROTOCOL_VERSION)) = Inr [0, 0, 0, 5, 0xA1, 0x62, 0x69, 0x64, 7]"
    by (simp_all add: encodeServerMessage_def encodeClientMessage_def sample_wire_def sample_value_encoded)
  show ?thesis
    unfolding Let_def
    by (rule client_mirrors_server_over_the_wire [OF _ sample_wire_ok new_sample_client _ _ _ refl,
          where server = "[]" and frames = "[[0, 0, 0, 5, 0xA1, 0x62, 0x69, 0x64, 7], [0, 0, 0, 5, 0xA1, 0x62, 0x69, 0x64, 8]]"])
      (simp_all add: frames silent_def sample_client_def)
qed

section \<open>The rest of a chunk\<close>

text \<open>
  When a listener that is told of an event disconnects and connects again, the messages behind it in the same chunk - of the
  old attempt - are handled in the new attempt, and fail it.
\<close>

lemma rest_of_chunk_fails_next_attempt:
  assumes "cn_lifecycle s = Connected i d t held" and "cn_lifecycle (handleMessage env (Event e) s) = Connecting j d' t'"
  shows "connection_messages (client_hooks env) [Event e, Event e'] s = failAndClose (client_hooks env)
    (ProtocolFault (jlit ''Expected server hello as first message'')) (handleMessage env (Event e) s)"
  using assms by (simp add: connection_message_def)

end
