(* ===== verification/Edit_Text.thy ===== *)
theory Edit_Text
  imports Json_Text
begin

text \<open>
  The text replacement of the edit tool (\<open>packages/agent/src/harness/tools/edit-diff.ts\<close>): line endings, matching with and
  without normalisation, replacements and the lines they touch. The Unicode normalisation NFKC of the platform is the
  argument \<open>nfkc\<close>. Texts of errors are not modelled, an error has its cause and the edits it is about.
\<close>

section \<open>Strings of the platform\<close>

text \<open>\<open>indexOf\<close>, and \<open>split(sep).length - 1\<close>, which counts code units when the separator is empty.\<close>

fun index_of :: "jstr \<Rightarrow> jstr \<Rightarrow> nat option" where
  "index_of p [] = (if p = [] then Some 0 else None)"
| "index_of p (u # s) = (if take (length p) (u # s) = p then Some 0 else map_option Suc (index_of p s))"

function occurrences :: "jstr \<Rightarrow> jstr \<Rightarrow> nat" where
  "occurrences p s =
     (if s = [] \<or> p = [] then 0
      else if take (length p) s = p then Suc (occurrences p (drop (length p) s))
      else occurrences p (tl s))"
  by pat_completeness auto

termination
  by (relation "measure (\<lambda>(p, s). length s)") (auto simp: length_greater_0_conv [symmetric] simp del: length_greater_0_conv)

declare occurrences.simps [simp del]

definition split_count :: "jstr \<Rightarrow> jstr \<Rightarrow> int" where
  "split_count p s = (if p = [] then int (length s) - 1 else int (occurrences p s))"

text \<open>\<open>trimEnd\<close>: white space and line terminators of the language.\<close>

definition is_trimmed :: "u16 \<Rightarrow> bool" where
  "is_trimmed u \<longleftrightarrow> u \<in> {0x09, 0x0A, 0x0B, 0x0C, 0x0D, 0x20, 0xA0, 0x1680, 0x2028, 0x2029, 0x202F, 0x205F, 0x3000, 0xFEFF}
     \<or> 0x2000 \<le> u \<and> u \<le> 0x200A"

definition trim_end :: "jstr \<Rightarrow> jstr" where
  "trim_end s = rev (dropWhile is_trimmed (rev s))"

section \<open>Line endings\<close>

datatype line_ending = CrLf | Lf

definition detectLineEnding :: "jstr \<Rightarrow> line_ending" where
  "detectLineEnding content = (case index_of [10] content of
      None \<Rightarrow> Lf
    | Some lfIdx \<Rightarrow> (case index_of [13, 10] content of
          None \<Rightarrow> Lf
        | Some crlfIdx \<Rightarrow> if crlfIdx < lfIdx then CrLf else Lf))"

fun replace_crlf :: "jstr \<Rightarrow> jstr" where
  "replace_crlf [] = []"
| "replace_crlf [u] = [u]"
| "replace_crlf (u # v # s) = (if u = 13 \<and> v = 10 then 10 # replace_crlf s else u # replace_crlf (v # s))"

definition normalizeToLF :: "jstr \<Rightarrow> jstr" where
  "normalizeToLF text = map (\<lambda>u. if u = 13 then 10 else u) (replace_crlf text)"

definition restoreLineEndings :: "jstr \<Rightarrow> line_ending \<Rightarrow> jstr" where
  "restoreLineEndings text ending =
     (case ending of CrLf \<Rightarrow> concat (map (\<lambda>u. if u = 10 then [13, 10] else [u]) text) | Lf \<Rightarrow> text)"

definition stripBom :: "jstr \<Rightarrow> jstr \<times> jstr" where
  "stripBom content = (case content of u # s \<Rightarrow> if u = 0xFEFF then ([0xFEFF], s) else ([], content) | [] \<Rightarrow> ([], content))"

section \<open>Normalised text\<close>

definition fuzzy_unit :: "u16 \<Rightarrow> u16" where
  "fuzzy_unit u =
     (if 0x2018 \<le> u \<and> u \<le> 0x201B then 0x27
      else if 0x201C \<le> u \<and> u \<le> 0x201F then 0x22
      else if 0x2010 \<le> u \<and> u \<le> 0x2015 \<or> u = 0x2212 then 0x2D
      else if u = 0xA0 \<or> 0x2002 \<le> u \<and> u \<le> 0x200A \<or> u = 0x202F \<or> u = 0x205F \<or> u = 0x3000 then 0x20
      else u)"

definition normalizeForFuzzyMatch :: "(jstr \<Rightarrow> jstr) \<Rightarrow> jstr \<Rightarrow> jstr" where
  "normalizeForFuzzyMatch nfkc text = map fuzzy_unit (join_with 10 (map trim_end (split_at 10 (nfkc text))))"

section \<open>Lines\<close>

function splitLinesWithEndings :: "jstr \<Rightarrow> jstr list" where
  "splitLinesWithEndings [] = []"
| "splitLinesWithEndings (u # s) =
     (let line = takeWhile (\<lambda>v. v \<noteq> 10) (u # s); rest = dropWhile (\<lambda>v. v \<noteq> 10) (u # s)
      in if rest = [] then [line] else (line @ [10]) # splitLinesWithEndings (tl rest))"
  by pat_completeness auto

termination
proof (relation "measure length")
  fix u :: u16 and s line rest :: jstr
  assume "rest = dropWhile (\<lambda>v. v \<noteq> 10) (u # s)" and "rest \<noteq> []"
  then have "length (tl rest) < length rest" and "length rest \<le> length (u # s)"
    using length_dropWhile_le [of "\<lambda>v. v \<noteq> 10" "u # s"] by auto
  then show "(tl rest, u # s) \<in> measure length" by simp
qed simp

record line_span =
  ls_start :: nat
  ls_end :: nat

fun spans_from :: "nat \<Rightarrow> jstr list \<Rightarrow> line_span list" where
  "spans_from offset [] = []"
| "spans_from offset (line # lines) =
     \<lparr>ls_start = offset, ls_end = offset + length line\<rparr> # spans_from (offset + length line) lines"

definition getLineSpans :: "jstr \<Rightarrow> line_span list" where
  "getLineSpans content = spans_from 0 (splitLinesWithEndings content)"

section \<open>Replacements\<close>

record matched_edit =
  me_editIndex :: nat
  me_matchIndex :: nat
  me_matchLength :: nat
  me_newText :: jstr

datatype edit_error =
    OutsideBase
  | LineCountDiffers
  | EmptyOldText nat
  | NotFoundText nat
  | DuplicateText nat int
  | OverlappingEdits nat nat
  | NoChange

text \<open>The first line that contains the start of the replacement, and the line behind the one that contains its end.\<close>

fun find_start :: "nat \<Rightarrow> nat \<Rightarrow> line_span list \<Rightarrow> nat option" where
  "find_start start i [] = None"
| "find_start start i (line # lines) =
     (if ls_start line \<le> start \<and> start < ls_end line then Some i else find_start start (Suc i) lines)"

fun find_end :: "nat \<Rightarrow> nat \<Rightarrow> line_span list \<Rightarrow> nat option" where
  "find_end stop i [] = None"
| "find_end stop i (line # lines) = (if ls_end line < stop then find_end stop (Suc i) lines else Some i)"

definition getReplacementLineRange :: "line_span list \<Rightarrow> matched_edit \<Rightarrow> edit_error + nat \<times> nat" where
  "getReplacementLineRange lines r = (case find_start (me_matchIndex r) 0 lines of
      None \<Rightarrow> Inl OutsideBase
    | Some startLine \<Rightarrow> (case find_end (me_matchIndex r + me_matchLength r) startLine (drop startLine lines) of
          None \<Rightarrow> Inl OutsideBase
        | Some endLine \<Rightarrow> Inr (startLine, Suc endLine)))"

text \<open>\<open>substring\<close> takes a negative index for zero.\<close>

definition replace_one :: "nat \<Rightarrow> matched_edit \<Rightarrow> jstr \<Rightarrow> jstr" where
  "replace_one offset r result =
     (let matchIndex = int (me_matchIndex r) - int offset
      in take (nat matchIndex) result @ me_newText r @ drop (nat (matchIndex + int (me_matchLength r))) result)"

definition applyReplacements :: "jstr \<Rightarrow> matched_edit list \<Rightarrow> nat \<Rightarrow> jstr" where
  "applyReplacements content replacements offset = foldr (replace_one offset) replacements content"

record line_group =
  lg_startLine :: nat
  lg_endLine :: nat
  lg_replacements :: "matched_edit list"

text \<open>The groups so far, the latest first.\<close>

fun group_replacements :: "line_span list \<Rightarrow> matched_edit list \<Rightarrow> line_group list \<Rightarrow> edit_error + line_group list" where
  "group_replacements lines [] groups = Inr (rev groups)"
| "group_replacements lines (r # rs) groups = try_bind (getReplacementLineRange lines r) (\<lambda>(startLine, endLine).
     case groups of
       current # others \<Rightarrow>
         if startLine < lg_endLine current
         then group_replacements lines rs (\<lparr>lg_startLine = lg_startLine current, lg_endLine = max (lg_endLine current) endLine,
           lg_replacements = lg_replacements current @ [r]\<rparr> # others)
         else group_replacements lines rs (\<lparr>lg_startLine = startLine, lg_endLine = endLine, lg_replacements = [r]\<rparr> # groups)
     | [] \<Rightarrow> group_replacements lines rs [\<lparr>lg_startLine = startLine, lg_endLine = endLine, lg_replacements = [r]\<rparr>])"

definition sub_list :: "nat \<Rightarrow> nat \<Rightarrow> 'a list \<Rightarrow> 'a list" where
  "sub_list from until xs = take (until - from) (drop from xs)"

fun rewrite_groups :: "jstr list \<Rightarrow> jstr \<Rightarrow> line_span list \<Rightarrow> nat \<Rightarrow> line_group list \<Rightarrow> jstr" where
  "rewrite_groups originalLines base baseLines originalLineIndex [] = concat (drop originalLineIndex originalLines)"
| "rewrite_groups originalLines base baseLines originalLineIndex (g # gs) =
     (let groupStartOffset = ls_start (baseLines ! lg_startLine g); groupEndOffset = ls_end (baseLines ! (lg_endLine g - 1))
      in concat (sub_list originalLineIndex (lg_startLine g) originalLines)
         @ applyReplacements (sub_list groupStartOffset groupEndOffset base) (lg_replacements g) groupStartOffset
         @ rewrite_groups originalLines base baseLines (lg_endLine g) gs)"

definition applyReplacementsPreservingUnchangedLines :: "jstr \<Rightarrow> jstr \<Rightarrow> matched_edit list \<Rightarrow> edit_error + jstr" where
  "applyReplacementsPreservingUnchangedLines originalContent baseContent replacements =
     (let originalLines = splitLinesWithEndings originalContent; baseLines = getLineSpans baseContent
      in if length originalLines \<noteq> length baseLines then Inl LineCountDiffers
         else try_bind (group_replacements baseLines (sort_key me_matchIndex replacements) []) (\<lambda>groups.
           Inr (rewrite_groups originalLines baseContent baseLines 0 groups)))"

section \<open>Matching\<close>

record fuzzy_match =
  fm_index :: "nat option"
  fm_matchLength :: nat
  fm_usedFuzzyMatch :: bool
  fm_contentForReplacement :: jstr

definition fuzzyFindText :: "(jstr \<Rightarrow> jstr) \<Rightarrow> jstr \<Rightarrow> jstr \<Rightarrow> fuzzy_match" where
  "fuzzyFindText nfkc content oldText = (case index_of oldText content of
      Some exactIndex \<Rightarrow> \<lparr>fm_index = Some exactIndex, fm_matchLength = length oldText, fm_usedFuzzyMatch = False,
        fm_contentForReplacement = content\<rparr>
    | None \<Rightarrow>
        (let fuzzyContent = normalizeForFuzzyMatch nfkc content; fuzzyOldText = normalizeForFuzzyMatch nfkc oldText
         in case index_of fuzzyOldText fuzzyContent of
              None \<Rightarrow> \<lparr>fm_index = None, fm_matchLength = 0, fm_usedFuzzyMatch = False, fm_contentForReplacement = content\<rparr>
            | Some fuzzyIndex \<Rightarrow> \<lparr>fm_index = Some fuzzyIndex, fm_matchLength = length fuzzyOldText, fm_usedFuzzyMatch = True,
                fm_contentForReplacement = fuzzyContent\<rparr>))"

definition countOccurrences :: "(jstr \<Rightarrow> jstr) \<Rightarrow> jstr \<Rightarrow> jstr \<Rightarrow> int" where
  "countOccurrences nfkc content oldText = split_count (normalizeForFuzzyMatch nfkc oldText) (normalizeForFuzzyMatch nfkc content)"

record edit =
  oldText :: jstr
  newText :: jstr

fun check_old_texts :: "nat \<Rightarrow> edit list \<Rightarrow> edit_error + unit" where
  "check_old_texts i [] = Inr ()"
| "check_old_texts i (e # es) = try_bind (throw_if (length (oldText e) = 0) (EmptyOldText i)) (\<lambda>_. check_old_texts (Suc i) es)"

fun match_edits :: "(jstr \<Rightarrow> jstr) \<Rightarrow> jstr \<Rightarrow> nat \<Rightarrow> edit list \<Rightarrow> edit_error + matched_edit list" where
  "match_edits nfkc base i [] = Inr []"
| "match_edits nfkc base i (e # es) =
     (let m = fuzzyFindText nfkc base (oldText e)
      in case fm_index m of
           None \<Rightarrow> Inl (NotFoundText i)
         | Some index \<Rightarrow>
             (let occurrences = countOccurrences nfkc base (oldText e)
              in if occurrences > 1 then Inl (DuplicateText i occurrences)
                 else try_bind (match_edits nfkc base (Suc i) es) (\<lambda>ms.
                   Inr (\<lparr>me_editIndex = i, me_matchIndex = index, me_matchLength = fm_matchLength m, me_newText = newText e\<rparr> # ms))))"

fun check_overlap :: "matched_edit list \<Rightarrow> edit_error + unit" where
  "check_overlap (previous # current # ms) =
     (if me_matchIndex previous + me_matchLength previous > me_matchIndex current
      then Inl (OverlappingEdits (me_editIndex previous) (me_editIndex current)) else check_overlap (current # ms))"
| "check_overlap _ = Inr ()"

definition normalized_edits :: "edit list \<Rightarrow> edit list" where
  "normalized_edits edits = map (\<lambda>e. \<lparr>oldText = normalizeToLF (oldText e), newText = normalizeToLF (newText e)\<rparr>) edits"

definition replacement_base :: "(jstr \<Rightarrow> jstr) \<Rightarrow> jstr \<Rightarrow> edit list \<Rightarrow> bool \<times> jstr" where
  "replacement_base nfkc content es =
     (let usedFuzzyMatch = list_ex (\<lambda>e. fm_usedFuzzyMatch (fuzzyFindText nfkc content (oldText e))) es
      in (usedFuzzyMatch, if usedFuzzyMatch then normalizeForFuzzyMatch nfkc content else content))"

text \<open>The two results are the content that was edited and the new one.\<close>

definition applyEditsToNormalizedContent :: "(jstr \<Rightarrow> jstr) \<Rightarrow> jstr \<Rightarrow> edit list \<Rightarrow> edit_error + jstr \<times> jstr" where
  "applyEditsToNormalizedContent nfkc normalizedContent edits =
     (let es = normalized_edits edits; (usedFuzzyMatch, base) = replacement_base nfkc normalizedContent es
      in try_bind (check_old_texts 0 es) (\<lambda>_.
         try_bind (match_edits nfkc base 0 es) (\<lambda>ms.
         (let matchedEdits = sort_key me_matchIndex ms
          in try_bind (check_overlap matchedEdits) (\<lambda>_.
             try_bind (if usedFuzzyMatch then applyReplacementsPreservingUnchangedLines normalizedContent base matchedEdits
                       else Inr (applyReplacements base matchedEdits 0)) (\<lambda>newContent.
             if normalizedContent = newContent then Inl NoChange else Inr (normalizedContent, newContent)))))))"

section \<open>The diff that is shown\<close>

text \<open>The parts that \<open>Diff.diffLines\<close> of the package \<open>diff\<close> returns are an argument.\<close>

record diff_part =
  dp_value :: jstr
  dp_added :: bool
  dp_removed :: bool

datatype diff_line = AddedLine nat jstr | RemovedLine nat jstr | ContextLine nat jstr | SkippedLines

record diff_state =
  ds_output :: "diff_line list"
  ds_oldLineNum :: nat
  ds_newLineNum :: nat
  ds_lastWasChange :: bool
  ds_firstChangedLine :: "nat option"

definition raw_lines :: "jstr \<Rightarrow> jstr list" where
  "raw_lines v = (let raw = split_at 10 v in if last raw = [] then butlast raw else raw)"

definition is_change :: "diff_part \<Rightarrow> bool" where
  "is_change part \<longleftrightarrow> dp_added part \<or> dp_removed part"

fun show_added :: "jstr list \<Rightarrow> diff_state \<Rightarrow> diff_state" where
  "show_added [] s = s"
| "show_added (line # raw) s = show_added raw (s\<lparr>ds_output := ds_output s @ [AddedLine (ds_newLineNum s) line],
     ds_newLineNum := Suc (ds_newLineNum s)\<rparr>)"

fun show_removed :: "jstr list \<Rightarrow> diff_state \<Rightarrow> diff_state" where
  "show_removed [] s = s"
| "show_removed (line # raw) s = show_removed raw (s\<lparr>ds_output := ds_output s @ [RemovedLine (ds_oldLineNum s) line],
     ds_oldLineNum := Suc (ds_oldLineNum s)\<rparr>)"

fun show_context :: "jstr list \<Rightarrow> diff_state \<Rightarrow> diff_state" where
  "show_context [] s = s"
| "show_context (line # raw) s = show_context raw (s\<lparr>ds_output := ds_output s @ [ContextLine (ds_oldLineNum s) line],
     ds_oldLineNum := Suc (ds_oldLineNum s), ds_newLineNum := Suc (ds_newLineNum s)\<rparr>)"

definition skip_context :: "nat \<Rightarrow> diff_state \<Rightarrow> diff_state" where
  "skip_context n s = s\<lparr>ds_oldLineNum := ds_oldLineNum s + n, ds_newLineNum := ds_newLineNum s + n\<rparr>"

definition show_skipped :: "nat \<Rightarrow> diff_state \<Rightarrow> diff_state" where
  "show_skipped n s = skip_context n (s\<lparr>ds_output := ds_output s @ [SkippedLines]\<rparr>)"

definition diff_change :: "diff_part \<Rightarrow> diff_state \<Rightarrow> diff_state" where
  "diff_change part s =
     (let s = (if ds_firstChangedLine s = None then s\<lparr>ds_firstChangedLine := Some (ds_newLineNum s)\<rparr> else s);
          s = (if dp_added part then show_added (raw_lines (dp_value part)) s else show_removed (raw_lines (dp_value part)) s)
      in s\<lparr>ds_lastWasChange := True\<rparr>)"

definition diff_context :: "nat \<Rightarrow> bool \<Rightarrow> diff_part \<Rightarrow> diff_state \<Rightarrow> diff_state" where
  "diff_context contextLines nextPartIsChange part s =
     (let raw = raw_lines (dp_value part);
          s = (if ds_lastWasChange s \<and> nextPartIsChange then
                 (if length raw \<le> contextLines * 2 then show_context raw s
                  else let leadingLines = take contextLines raw; trailingLines = drop (length raw - contextLines) raw
                    in show_context trailingLines
                      (show_skipped (length raw - length leadingLines - length trailingLines) (show_context leadingLines s)))
               else if ds_lastWasChange s then
                 (let shownLines = take contextLines raw; skippedLines = length raw - length shownLines; s = show_context shownLines s
                  in if skippedLines > 0 then show_skipped skippedLines s else s)
               else if nextPartIsChange then
                 (let skippedLines = length raw - contextLines
                  in show_context (drop skippedLines raw) (if skippedLines > 0 then show_skipped skippedLines s else s))
               else skip_context (length raw) s)
      in s\<lparr>ds_lastWasChange := False\<rparr>)"

fun diff_parts :: "nat \<Rightarrow> diff_part list \<Rightarrow> diff_state \<Rightarrow> diff_state" where
  "diff_parts contextLines [] s = s"
| "diff_parts contextLines (part # parts) s = diff_parts contextLines parts
     (if is_change part then diff_change part s
      else diff_context contextLines (case parts of [] \<Rightarrow> False | next # _ \<Rightarrow> is_change next) part s)"

definition pad_start :: "nat \<Rightarrow> jstr \<Rightarrow> jstr" where
  "pad_start n s = replicate (n - length s) 32 @ s"

fun render_line :: "nat \<Rightarrow> diff_line \<Rightarrow> jstr" where
  "render_line width (AddedLine n line) = [43] @ pad_start width (show_nat n) @ [32] @ line"
| "render_line width (RemovedLine n line) = [45] @ pad_start width (show_nat n) @ [32] @ line"
| "render_line width (ContextLine n line) = [32] @ pad_start width (show_nat n) @ [32] @ line"
| "render_line width SkippedLines = [32] @ pad_start width [] @ jlit '' ...''"

definition new_diff_state :: diff_state where
  "new_diff_state = \<lparr>ds_output = [], ds_oldLineNum = 1, ds_newLineNum = 1, ds_lastWasChange = False, ds_firstChangedLine = None\<rparr>"

definition generateDiffString :: "(jstr \<Rightarrow> jstr \<Rightarrow> diff_part list) \<Rightarrow> jstr \<Rightarrow> jstr \<Rightarrow> nat \<Rightarrow> jstr \<times> nat option" where
  "generateDiffString diffLines oldContent newContent contextLines =
     (let maxLineNum = max (length (split_at 10 oldContent)) (length (split_at 10 newContent));
          s = diff_parts contextLines (diffLines oldContent newContent) new_diff_state
      in (join_with 10 (map (render_line (length (show_nat maxLineNum))) (ds_output s)), ds_firstChangedLine s))"

end
