(* ===== verification/File_Tools.thy ===== *)
theory File_Tools
  imports Edit_Text
begin

text \<open>
  The file tools of the agent (\<open>packages/agent/src/harness/tools\<close>: \<open>path-utils.ts\<close>, \<open>write.ts\<close>, \<open>edit.ts\<close>, \<open>read.ts\<close>, \<open>image.ts\<close>)
  over an execution environment, which is a record of operations on a world. A tool that runs alone passes the mutation
  queue at once, when its key is known; \<open>Mutation_Queue\<close> has several of them. The platform's \<open>TextDecoder\<close> and Unicode normalisations are arguments.
\<close>

section \<open>The environment\<close>

datatype file_error =
    AbortedFile | NotFoundFile | PermissionDenied | NotDirectory | IsDirectory | InvalidFile | NotSupportedFile | UnknownFile

datatype file_kind = FileKind | DirectoryKind | SymlinkKind

record 'w tool_env =
  te_absolutePath :: "jstr \<Rightarrow> 'w \<Rightarrow> (file_error + jstr) \<times> 'w"
  te_canonicalPath :: "jstr \<Rightarrow> 'w \<Rightarrow> (file_error + jstr) \<times> 'w"
  te_exists :: "jstr \<Rightarrow> 'w \<Rightarrow> (file_error + bool) \<times> 'w"
  te_fileInfo :: "jstr \<Rightarrow> 'w \<Rightarrow> (file_error + file_kind) \<times> 'w"
  te_readTextFile :: "jstr \<Rightarrow> 'w \<Rightarrow> (file_error + jstr) \<times> 'w"
  te_readBinaryFile :: "jstr \<Rightarrow> 'w \<Rightarrow> (file_error + bytes) \<times> 'w"
  te_writeFile :: "jstr \<Rightarrow> jstr \<Rightarrow> 'w \<Rightarrow> (file_error + unit) \<times> 'w"
  te_aborted :: "'w \<Rightarrow> bool"

datatype tool_error =
    FileFault file_error
  | EditAccess file_error
  | NotAFile
  | OperationAborted
  | NoEdits
  | EditFault edit_error
  | OffsetBeyondEnd int nat

definition getOrThrow :: "(file_error + 'a) \<times> 'w \<Rightarrow> (tool_error + 'a) \<times> 'w" where
  "getOrThrow r = (case r of (Inl err, w) \<Rightarrow> (Inl (FileFault err), w) | (Inr a, w) \<Rightarrow> (Inr a, w))"

definition edit_access :: "(file_error + 'a) \<times> 'w \<Rightarrow> (tool_error + 'a) \<times> 'w" where
  "edit_access r = (case r of (Inl err, w) \<Rightarrow> (Inl (EditAccess err), w) | (Inr a, w) \<Rightarrow> (Inr a, w))"

lemma getOrThrow_Inr: "getOrThrow r = (Inr a, w) \<longleftrightarrow> r = (Inr a, w)"
  by (auto simp: getOrThrow_def split: prod.splits sum.splits)

lemma edit_access_Inr: "edit_access r = (Inr a, w) \<longleftrightarrow> r = (Inr a, w)"
  by (auto simp: edit_access_def split: prod.splits sum.splits)

definition unless_aborted :: "'w tool_env \<Rightarrow> ('w \<Rightarrow> (tool_error + 'a) \<times> 'w) \<Rightarrow> 'w \<Rightarrow> (tool_error + 'a) \<times> 'w" where
  "unless_aborted env f w = (if te_aborted env w then (Inl OperationAborted, w) else f w)"

text \<open>An environment with one file, whose content is the world; witnesses use it.\<close>

definition one_file :: "jstr tool_env" where
  "one_file = \<lparr>te_absolutePath = (\<lambda>path w. (Inr path, w)), te_canonicalPath = (\<lambda>path w. (Inr path, w)),
     te_exists = (\<lambda>path w. (Inr True, w)), te_fileInfo = (\<lambda>path w. (Inr FileKind, w)), te_readTextFile = (\<lambda>path w. (Inr w, w)),
     te_readBinaryFile = (\<lambda>path w. (Inr (utf8_encode w), w)), te_writeFile = (\<lambda>path content w. (Inr (), content)),
     te_aborted = (\<lambda>w. False)\<rparr>"

section \<open>Paths\<close>

definition unicode_space :: "u16 \<Rightarrow> bool" where
  "unicode_space u \<longleftrightarrow> u = 0xA0 \<or> 0x2000 \<le> u \<and> u \<le> 0x200A \<or> u = 0x202F \<or> u = 0x205F \<or> u = 0x3000"

definition normalizeToolPath :: "jstr \<Rightarrow> jstr" where
  "normalizeToolPath path =
     (let normalized = map (\<lambda>u. if unicode_space u then 32 else u) path
      in case normalized of u # s \<Rightarrow> if u = 64 then s else normalized | [] \<Rightarrow> [])"

definition resolveToolPath :: "'w tool_env \<Rightarrow> jstr \<Rightarrow> 'w \<Rightarrow> (tool_error + jstr) \<times> 'w" where
  "resolveToolPath env path w = getOrThrow (te_absolutePath env (normalizeToolPath path) w)"

text \<open>A space in front of \<open>AM.\<close> or \<open>PM.\<close>, in any case, becomes a narrow no-break space.\<close>

fun narrow_spaces :: "jstr \<Rightarrow> jstr" where
  "narrow_spaces (a # b # c # d # s) =
     (if a = 32 \<and> (b = 65 \<or> b = 97 \<or> b = 80 \<or> b = 112) \<and> (c = 77 \<or> c = 109) \<and> d = 46
      then 0x202F # b # c # d # narrow_spaces s else a # narrow_spaces (b # c # d # s))"
| "narrow_spaces s = s"

definition curly_quotes :: "jstr \<Rightarrow> jstr" where
  "curly_quotes = map (\<lambda>u. if u = 39 then 0x2019 else u)"

definition distinct_in_order :: "'a list \<Rightarrow> 'a list" where
  "distinct_in_order xs = rev (remdups (rev xs))"

fun first_existing :: "'w tool_env \<Rightarrow> jstr \<Rightarrow> jstr list \<Rightarrow> 'w \<Rightarrow> (tool_error + jstr) \<times> 'w" where
  "first_existing env resolved [] w = (Inr resolved, w)"
| "first_existing env resolved (v # vs) w =
     then_result (getOrThrow (te_exists env v w)) (\<lambda>found w. if found then (Inr v, w) else first_existing env resolved vs w)"

definition resolveReadToolPath :: "(jstr \<Rightarrow> jstr) \<Rightarrow> 'w tool_env \<Rightarrow> jstr \<Rightarrow> 'w \<Rightarrow> (tool_error + jstr) \<times> 'w" where
  "resolveReadToolPath nfd env path w = then_result (resolveToolPath env path w) (\<lambda>resolved w.
     first_existing env resolved (distinct_in_order
       [resolved, narrow_spaces resolved, nfd resolved, curly_quotes resolved, curly_quotes (nfd resolved)]) w)"

section \<open>Writing\<close>

definition getMutationQueueKey :: "'w tool_env \<Rightarrow> jstr \<Rightarrow> 'w \<Rightarrow> (tool_error + jstr) \<times> 'w" where
  "getMutationQueueKey env path w = then_result (getOrThrow (te_absolutePath env path w)) (\<lambda>absolutePath w.
     case te_canonicalPath env absolutePath w of
       (Inr canonical, w) \<Rightarrow> (Inr canonical, w)
     | (Inl err, w) \<Rightarrow> if err = NotFoundFile \<or> err = NotSupportedFile then (Inr absolutePath, w) else (Inl (FileFault err), w))"

definition in_free_queue :: "'w tool_env \<Rightarrow> jstr \<Rightarrow> ('w \<Rightarrow> (tool_error + 'a) \<times> 'w) \<Rightarrow> 'w \<Rightarrow> (tool_error + 'a) \<times> 'w" where
  "in_free_queue env path fn w = then_result (getMutationQueueKey env path w) (\<lambda>_. fn)"

definition write_execute :: "'w tool_env \<Rightarrow> jstr \<Rightarrow> jstr \<Rightarrow> 'w \<Rightarrow> (tool_error + jstr) \<times> 'w" where
  "write_execute env path content w = then_result (resolveToolPath env path w) (\<lambda>absolutePath.
     in_free_queue env absolutePath (unless_aborted env (\<lambda>w.
       then_result (getOrThrow (te_writeFile env absolutePath content w)) (\<lambda>_. unless_aborted env (\<lambda>w.
         (Inr (jlit ''Successfully wrote '' @ show_nat (length content) @ jlit '' bytes to '' @ path), w))))))"

section \<open>Editing\<close>

record edit_details =
  ed_diff :: jstr
  ed_patch :: jstr
  ed_firstChangedLine :: "nat option"

definition validateEditInput :: "edit list \<Rightarrow> tool_error + edit list" where
  "validateEditInput edits = (if length edits = 0 then Inl NoEdits else Inr edits)"

text \<open>The unified patch and the parts of the diff come from the package \<open>diff\<close>.\<close>

definition edit_write ::
  "(jstr \<Rightarrow> jstr \<Rightarrow> diff_part list) \<Rightarrow> (jstr \<Rightarrow> jstr \<Rightarrow> jstr \<Rightarrow> nat \<Rightarrow> jstr) \<Rightarrow> 'w tool_env \<Rightarrow> jstr \<Rightarrow> nat \<Rightarrow> jstr \<Rightarrow> jstr \<Rightarrow> jstr \<Rightarrow> jstr
    \<Rightarrow> 'w \<Rightarrow> (tool_error + jstr \<times> edit_details) \<times> 'w" where
  "edit_write diffLines generateUnifiedPatch env path n absolutePath baseContent newContent finalContent =
     unless_aborted env (\<lambda>w.
     then_result (edit_access (te_writeFile env absolutePath finalContent w)) (\<lambda>_. unless_aborted env (\<lambda>w.
       let (diff, firstChangedLine) = generateDiffString diffLines baseContent newContent 4
       in (Inr (jlit ''Successfully replaced '' @ show_nat n @ jlit '' block(s) in '' @ path @ jlit ''.'',
            \<lparr>ed_diff = diff, ed_patch = generateUnifiedPatch path baseContent newContent 4, ed_firstChangedLine = firstChangedLine\<rparr>), w))))"

definition edit_execute ::
  "(jstr \<Rightarrow> jstr) \<Rightarrow> (jstr \<Rightarrow> jstr \<Rightarrow> diff_part list) \<Rightarrow> (jstr \<Rightarrow> jstr \<Rightarrow> jstr \<Rightarrow> nat \<Rightarrow> jstr) \<Rightarrow> 'w tool_env \<Rightarrow> jstr \<Rightarrow> edit list \<Rightarrow> 'w
    \<Rightarrow> (tool_error + jstr \<times> edit_details) \<times> 'w" where
  "edit_execute nfkc diffLines generateUnifiedPatch env path edits w =
     then_result (validateEditInput edits, w) (\<lambda>edits w.
     then_result (resolveToolPath env path w) (\<lambda>absolutePath.
     in_free_queue env absolutePath (unless_aborted env (\<lambda>w.
     then_result (edit_access (te_fileInfo env absolutePath w)) (\<lambda>kind w.
     if kind \<noteq> FileKind \<and> kind \<noteq> SymlinkKind then (Inl NotAFile, w)
     else then_result (edit_access (te_readTextFile env absolutePath w)) (\<lambda>raw. unless_aborted env (\<lambda>w.
       let (bom, content) = stripBom raw; originalEnding = detectLineEnding content; normalizedContent = normalizeToLF content
       in case applyEditsToNormalizedContent nfkc normalizedContent edits of
            Inl err \<Rightarrow> (Inl (EditFault err), w)
          | Inr (baseContent, newContent) \<Rightarrow> edit_write diffLines generateUnifiedPatch env path (length edits) absolutePath
              baseContent newContent (bom @ restoreLineEndings newContent originalEnding) w)))))))"

section \<open>Reading\<close>

text \<open>The notice behind a page of text: how many lines are shown, and from where to go on.\<close>

datatype read_notice =
    NoNotice
  | LineTooLong nat
  | ShownLines nat nat nat bool nat
  | MoreLines int int

text \<open>\<open>slice\<close> with a possibly negative end.\<close>

definition slice_lines :: "nat \<Rightarrow> int \<Rightarrow> 'a list \<Rightarrow> 'a list" where
  "slice_lines start stop xs =
     (let stop = if stop < 0 then max 0 (int (length xs) + stop) else min stop (int (length xs))
      in take (nat stop - start) (drop start xs))"

definition start_line :: "int option \<Rightarrow> nat" where
  "start_line offset = (case offset of None \<Rightarrow> 0 | Some n \<Rightarrow> if n = 0 then 0 else nat (n - 1))"

text \<open>The page: the text that is shown, the notice, and whether the details tell of truncation. Offsets and limits are integers.\<close>

definition read_page :: "bool \<Rightarrow> jstr \<Rightarrow> int option \<Rightarrow> int option \<Rightarrow> tool_error + jstr \<times> read_notice \<times> truncation_result option" where
  "read_page runtime textContent offset limit =
     (let allLines = split_at 10 textContent; totalFileLines = length allLines; startLine = start_line offset; display = startLine + 1
      in if startLine \<ge> length allLines then Inl (OffsetBeyondEnd (case offset of Some n \<Rightarrow> n | None \<Rightarrow> 0) (length allLines))
         else let (selectedContent, userLimitedLines) = (case limit of
                Some n \<Rightarrow> (let endLine = min (int startLine + n) (int (length allLines))
                  in (join_with 10 (slice_lines startLine endLine allLines), Some (endLine - int startLine)))
              | None \<Rightarrow> (join_with 10 (drop startLine allLines), None));
            truncation = truncateHead runtime selectedContent \<lparr>to_maxLines = None, to_maxBytes = None\<rparr>
          in if tr_firstLineExceedsLimit truncation then Inr ([], LineTooLong display, Some truncation)
             else if tr_truncated truncation then
               (let endLineDisplay = display + tr_outputLines truncation - 1; nextOffset = endLineDisplay + 1
                in Inr (tr_text truncation,
                     ShownLines display endLineDisplay totalFileLines (tr_truncatedBy truncation = Some ByLines) nextOffset, Some truncation))
             else case userLimitedLines of
                    Some n \<Rightarrow>
                      if int startLine + n < int (length allLines)
                      then Inr (tr_text truncation,
                        MoreLines (int (length allLines) - (int startLine + n)) (int startLine + n + 1), None)
                      else Inr (tr_text truncation, NoNotice, None)
                  | None \<Rightarrow> Inr (tr_text truncation, NoNotice, None))"

definition notice_text :: "jstr \<Rightarrow> jstr \<Rightarrow> read_notice \<Rightarrow> jstr" where
  "notice_text path firstLineSize notice = (case notice of
      NoNotice \<Rightarrow> []
    | LineTooLong display \<Rightarrow> jlit ''[Line '' @ show_nat display @ jlit '' is '' @ firstLineSize @ jlit '', exceeds ''
        @ formatSize DEFAULT_MAX_BYTES @ jlit '' limit. Use bash: sed -n '' @ [39] @ show_nat display @ jlit ''p'' @ [39] @ [32] @ path
        @ jlit '' | head -c '' @ show_nat DEFAULT_MAX_BYTES @ jlit '']''
    | ShownLines fromLine toLine totalLines byLines nextOffset \<Rightarrow> [10, 10] @ jlit ''[Showing lines '' @ show_nat fromLine @ jlit ''-'' @ show_nat toLine
        @ jlit '' of '' @ show_nat totalLines @ (if byLines then [] else jlit '' ('' @ formatSize DEFAULT_MAX_BYTES @ jlit '' limit)'')
        @ jlit ''. Use offset='' @ show_nat nextOffset @ jlit '' to continue.]''
    | MoreLines remaining nextOffset \<Rightarrow> [10, 10] @ jlit ''['' @ show_int remaining @ jlit '' more lines in file. Use offset=''
        @ show_int nextOffset @ jlit '' to continue.]'')"

section \<open>Images\<close>

definition byte_at :: "bytes \<Rightarrow> nat \<Rightarrow> nat" where
  "byte_at buffer i = (if i < length buffer then unat (buffer ! i) else 0)"

definition startsWith :: "bytes \<Rightarrow> nat list \<Rightarrow> bool" where
  "startsWith buffer bs \<longleftrightarrow> length bs \<le> length buffer \<and> (\<forall>i \<in> set [0..<length bs]. unat (buffer ! i) = bs ! i)"

definition startsWithAscii :: "bytes \<Rightarrow> nat \<Rightarrow> string \<Rightarrow> bool" where
  "startsWithAscii buffer offset s \<longleftrightarrow> offset + length s \<le> length buffer
     \<and> (\<forall>i \<in> set [0..<length s]. unat (buffer ! (offset + i)) = of_char (s ! i))"

definition readUint16LE :: "bytes \<Rightarrow> nat \<Rightarrow> nat" where
  "readUint16LE buffer offset = byte_at buffer offset + byte_at buffer (offset + 1) * 256"

definition readUint32BE :: "bytes \<Rightarrow> nat \<Rightarrow> nat" where
  "readUint32BE buffer offset = byte_at buffer offset * 0x1000000 + byte_at buffer (offset + 1) * 0x10000
     + byte_at buffer (offset + 2) * 256 + byte_at buffer (offset + 3)"

definition readUint32LE :: "bytes \<Rightarrow> nat \<Rightarrow> nat" where
  "readUint32LE buffer offset = byte_at buffer offset + byte_at buffer (offset + 1) * 256
     + byte_at buffer (offset + 2) * 0x10000 + byte_at buffer (offset + 3) * 0x1000000"

definition PNG_SIGNATURE :: "nat list" where
  "PNG_SIGNATURE = [0x89, 0x50, 0x4E, 0x47, 0x0D, 0x0A, 0x1A, 0x0A]"

definition isPng :: "bytes \<Rightarrow> bool" where
  "isPng buffer \<longleftrightarrow> length buffer \<ge> 16 \<and> readUint32BE buffer (length PNG_SIGNATURE) = 13 \<and> startsWithAscii buffer 12 ''IHDR''"

function animation_chunk :: "bytes \<Rightarrow> nat \<Rightarrow> bool" where
  "animation_chunk buffer offset =
     (if offset + 8 \<le> length buffer then
        let chunkLength = readUint32BE buffer offset; chunkTypeOffset = offset + 4
        in if startsWithAscii buffer chunkTypeOffset ''acTL'' then True
           else if startsWithAscii buffer chunkTypeOffset ''IDAT'' then False
           else let nextOffset = offset + 8 + chunkLength + 4
                in if nextOffset \<le> offset \<or> nextOffset > length buffer then False else animation_chunk buffer nextOffset
      else False)"
  by pat_completeness auto

termination
  by (relation "measure (\<lambda>(buffer, offset). length buffer - offset)") auto

declare animation_chunk.simps [simp del]

definition isAnimatedPng :: "bytes \<Rightarrow> bool" where
  "isAnimatedPng buffer = animation_chunk buffer (length PNG_SIGNATURE)"

definition isBmp :: "bytes \<Rightarrow> bool" where
  "isBmp buffer \<longleftrightarrow>
     (if length buffer < 26 then False
      else let declaredFileSize = readUint32LE buffer 2; pixelDataOffset = readUint32LE buffer 10; dibHeaderSize = readUint32LE buffer 14
        in if declaredFileSize \<noteq> 0 \<and> declaredFileSize < 26 then False
           else if pixelDataOffset < 14 + dibHeaderSize then False
           else if declaredFileSize \<noteq> 0 \<and> pixelDataOffset \<ge> declaredFileSize then False
           else if dibHeaderSize = 12 then readUint16LE buffer 22 = 1 \<and> readUint16LE buffer 24 \<in> {1, 4, 8, 16, 24, 32}
           else if dibHeaderSize \<ge> 40 \<and> dibHeaderSize \<le> 124 then
             (if length buffer < 30 then False else readUint16LE buffer 26 = 1 \<and> readUint16LE buffer 28 \<in> {1, 4, 8, 16, 24, 32})
           else False)"

datatype image_type = Jpeg | Png | Gif | Webp | Bmp

fun mime_text :: "image_type \<Rightarrow> jstr" where
  "mime_text Jpeg = jlit ''image/jpeg''"
| "mime_text Png = jlit ''image/png''"
| "mime_text Gif = jlit ''image/gif''"
| "mime_text Webp = jlit ''image/webp''"
| "mime_text Bmp = jlit ''image/bmp''"

definition detectSupportedImageMimeType :: "bytes \<Rightarrow> image_type option" where
  "detectSupportedImageMimeType buffer =
     (if startsWith buffer [0xFF, 0xD8, 0xFF] then if 3 < length buffer \<and> unat (buffer ! 3) = 0xF7 then None else Some Jpeg
      else if startsWith buffer PNG_SIGNATURE then if isPng buffer \<and> \<not> isAnimatedPng buffer then Some Png else None
      else if startsWithAscii buffer 0 ''GIF'' then Some Gif
      else if startsWithAscii buffer 0 ''RIFF'' \<and> startsWithAscii buffer 8 ''WEBP'' then Some Webp
      else if startsWithAscii buffer 0 ''BM'' \<and> isBmp buffer then Some Bmp
      else None)"

definition base64_digit :: "nat \<Rightarrow> u16" where
  "base64_digit n = word_of_nat (if n < 26 then 65 + n else if n < 52 then 71 + n else if n < 62 then n - 4 else if n = 62 then 43 else 47)"

fun encodeBase64 :: "bytes \<Rightarrow> jstr" where
  "encodeBase64 [] = []"
| "encodeBase64 [a] = [base64_digit (unat a div 4), base64_digit (unat a mod 4 * 16), 61, 61]"
| "encodeBase64 [a, b] =
     [base64_digit (unat a div 4), base64_digit (unat a mod 4 * 16 + unat b div 16), base64_digit (unat b mod 16 * 4), 61]"
| "encodeBase64 (a # b # c # bs) =
     [base64_digit (unat a div 4), base64_digit (unat a mod 4 * 16 + unat b div 16),
      base64_digit (unat b mod 16 * 4 + unat c div 64), base64_digit (unat c mod 64)] @ encodeBase64 bs"

section \<open>The read tool\<close>

text \<open>What an injected processor returns: the data, its type and hints, or a message.\<close>

type_synonym 'w image_processor = "bytes \<Rightarrow> jstr \<Rightarrow> bool \<Rightarrow> 'w \<Rightarrow> (jstr + jstr \<times> jstr \<times> jstr list) \<times> 'w"

record 'w read_options =
  ro_autoResizeImages :: "bool option"
  ro_imageProcessor :: "'w image_processor option"

definition read_image :: "'w read_options \<Rightarrow> bytes \<Rightarrow> image_type \<Rightarrow> 'w \<Rightarrow> content_block list \<times> 'w" where
  "read_image options bs t w =
     (let header = (\<lambda>m. jlit ''Read image file ['' @ m @ jlit '']''); mime = mime_text t
      in case ro_imageProcessor options of
           Some process \<Rightarrow> (case process bs mime (case ro_autoResizeImages options of None \<Rightarrow> True | Some b \<Rightarrow> b) w of
               (Inl message, w) \<Rightarrow> ([TextContent (header mime @ [10] @ message) None], w)
             | (Inr (data, mimeType, hints), w) \<Rightarrow>
                 ([TextContent (header mimeType @ (if length hints > 0 then [10] @ join_with 10 hints else [])) None,
                   ImageContent data mimeType], w))
         | None \<Rightarrow>
             if t = Bmp then ([TextContent (header mime @ [10]
               @ jlit ''[Image omitted: configure an imageProcessor to convert BMP images.]'') None], w)
             else ([TextContent (header mime) None, ImageContent (encodeBase64 bs) mime], w))"

definition read_execute ::
  "(jstr \<Rightarrow> jstr) \<Rightarrow> (bytes \<Rightarrow> jstr) \<Rightarrow> bool \<Rightarrow> 'w read_options \<Rightarrow> 'w tool_env \<Rightarrow> jstr \<Rightarrow> int option \<Rightarrow> int option \<Rightarrow> 'w
    \<Rightarrow> (tool_error + content_block list \<times> truncation_result option) \<times> 'w" where
  "read_execute nfd decode runtime options env path offset limit w =
     then_result (resolveReadToolPath nfd env path w) (\<lambda>absolutePath w.
     then_result (getOrThrow (te_readBinaryFile env absolutePath w)) (\<lambda>bs w.
       case detectSupportedImageMimeType bs of
         Some t \<Rightarrow> (let (content, w) = read_image options bs t w in (Inr (content, None), w))
       | None \<Rightarrow> (case read_page runtime (decode bs) offset limit of
             Inl err \<Rightarrow> (Inl err, w)
           | Inr (shown, notice, details) \<Rightarrow>
               (Inr ([TextContent (shown @ notice_text path
                  (formatSize (length (utf8_encode (split_at 10 (decode bs) ! start_line offset)))) notice) None], details), w))))"

end
