(* ===== verification/Edit_Facts.thy ===== *)
theory Edit_Facts
  imports Edit_Text "HOL-Library.Multiset"
begin

text \<open>
  What an accepted edit does: every old text is replaced where it was found and nothing else changes; when texts were matched
  after normalisation, the lines that no replacement touches keep their bytes.
\<close>

section \<open>Searching\<close>

lemma index_of_Some:
  "index_of p s = Some i \<Longrightarrow> take (length p) (drop i s) = p \<and> i + length p \<le> length s"
proof (induction p s arbitrary: i rule: index_of.induct)
  case (2 p u s)
  show ?case
  proof (cases "take (length p) (u # s) = p")
    case True
    then have "length p \<le> length (u # s)" by (metis length_take min.cobounded1)
    with 2 True show ?thesis by auto
  next
    case False
    with 2 show ?thesis by auto
  qed
qed (simp split: if_splits)

section \<open>Disjoint replacements\<close>

abbreviation me_stop :: "matched_edit \<Rightarrow> nat" where
  "me_stop m \<equiv> me_matchIndex m + me_matchLength m"

abbreviation in_front :: "matched_edit \<Rightarrow> matched_edit \<Rightarrow> bool" where
  "in_front m m' \<equiv> me_stop m \<le> me_matchIndex m'"

definition fits :: "nat \<Rightarrow> nat \<Rightarrow> matched_edit list \<Rightarrow> bool" where
  "fits a b ms \<longleftrightarrow> sorted_wrt in_front ms \<and> (\<forall>m \<in> set ms. a \<le> me_matchIndex m \<and> me_stop m \<le> b)"

lemma fits_Nil [simp]: "fits a b []"
  by (simp add: fits_def)

lemma fits_Cons: "fits a b (m # ms) \<longleftrightarrow> a \<le> me_matchIndex m \<and> me_stop m \<le> b \<and> fits (me_stop m) b ms"
  by (auto simp: fits_def)

lemma check_overlap_sorted: "check_overlap ms = Inr () \<Longrightarrow> sorted_wrt in_front ms"
proof (induction ms rule: check_overlap.induct)
  case (1 m m' ms)
  then have first: "in_front m m'" and rest: "sorted_wrt in_front (m' # ms)" by (auto split: if_splits)
  moreover have "in_front m x" if "x \<in> set ms" for x using first rest that by force
  ultimately show ?case by simp
qed simp_all

text \<open>A text cut into pieces: what stands in front of a replaced text, that text, and what replaces it.\<close>

type_synonym piece = "jstr \<times> jstr \<times> jstr"

definition old_side :: "piece list \<Rightarrow> jstr \<Rightarrow> jstr" where
  "old_side ps tail = concat (map (\<lambda>(gap, old, new). gap @ old) ps) @ tail"

definition new_side :: "piece list \<Rightarrow> jstr \<Rightarrow> jstr" where
  "new_side ps tail = concat (map (\<lambda>(gap, old, new). gap @ new) ps) @ tail"

definition matched_text :: "jstr \<Rightarrow> matched_edit \<Rightarrow> jstr" where
  "matched_text base m = take (me_matchLength m) (drop (me_matchIndex m) base)"

lemma replacements_from:
  assumes "fits (offset + k) (offset + length content) ms" and "k \<le> length content"
  shows "\<exists>ps tail. drop k content = old_side ps tail \<and> applyReplacements content ms offset = take k content @ new_side ps tail
    \<and> map snd ps = map (\<lambda>m. (take (me_matchLength m) (drop (me_matchIndex m - offset) content), me_newText m)) ms"
  using assms
proof (induction ms arbitrary: k)
  case Nil
  show ?case by (rule exI [of _ "[]"]) (simp add: applyReplacements_def old_side_def new_side_def)
next
  case (Cons m ms)
  let ?i = "me_matchIndex m - offset" and ?n = "me_matchLength m"
  have m: "offset + k \<le> me_matchIndex m" "me_stop m \<le> offset + length content" "fits (me_stop m) (offset + length content) ms"
    using Cons.prems(1) by (simp_all add: fits_Cons)
  then have stop: "offset + (?i + ?n) = me_stop m" "k \<le> ?i" "?i + ?n \<le> length content" by linarith+
  obtain ps tail where rest: "drop (?i + ?n) content = old_side ps tail"
      "applyReplacements content ms offset = take (?i + ?n) content @ new_side ps tail"
      "map snd ps = map (\<lambda>m. (take (me_matchLength m) (drop (me_matchIndex m - offset) content), me_newText m)) ms"
    using Cons.IH [of "?i + ?n"] m(3) stop by auto
  let ?gap = "take (?i - k) (drop k content)" and ?old = "take ?n (drop ?i content)"
  have nats: "nat (int (me_matchIndex m) - int offset) = ?i" "nat (int (me_matchIndex m) - int offset + int ?n) = ?i + ?n"
    using m(1) by linarith+
  have front: "take k content @ ?gap = take ?i content"
    using take_add [of k "?i - k" content] le_add_diff_inverse [OF stop(2)] by metis
  have "applyReplacements content (m # ms) offset = replace_one offset m (take (?i + ?n) content @ new_side ps tail)"
    using rest(2) by (simp add: applyReplacements_def)
  also have "\<dots> = take ?i content @ me_newText m @ new_side ps tail"
    using stop by (simp add: replace_one_def nats min_absorb1 min_absorb2)
  also have "\<dots> = take k content @ new_side ((?gap, ?old, me_newText m) # ps) tail"
    by (simp add: new_side_def front [symmetric])
  finally have new: "applyReplacements content (m # ms) offset = take k content @ new_side ((?gap, ?old, me_newText m) # ps) tail" .
  have "drop k content = ?gap @ drop ?i content"
    using append_take_drop_id [of "?i - k" "drop k content"] le_add_diff_inverse2 [OF stop(2)] by (metis drop_drop)
  also have "drop ?i content = ?old @ drop (?i + ?n) content"
    using append_take_drop_id [of ?n "drop ?i content"] by (simp add: add.commute)
  finally have "drop k content = old_side ((?gap, ?old, me_newText m) # ps) tail"
    using rest(1) by (simp add: old_side_def)
  with new rest(3) show ?case by (intro exI [of _ "(?gap, ?old, me_newText m) # ps"] exI [of _ tail]) simp
qed

lemma replacements_in_place:
  assumes "fits offset (offset + length content) ms"
  obtains ps tail where "content = old_side ps tail" and "applyReplacements content ms offset = new_side ps tail"
    and "map snd ps = map (\<lambda>m. (take (me_matchLength m) (drop (me_matchIndex m - offset) content), me_newText m)) ms"
  using replacements_from [of offset 0 content ms] assms by auto

section \<open>Matches\<close>

definition match_of :: "(jstr \<Rightarrow> jstr) \<Rightarrow> jstr \<Rightarrow> edit \<Rightarrow> matched_edit \<Rightarrow> bool" where
  "match_of nfkc base e m \<longleftrightarrow> me_newText m = newText e \<and> me_stop m \<le> length base
     \<and> matched_text base m = (if index_of (oldText e) base = None then normalizeForFuzzyMatch nfkc (oldText e) else oldText e)"

lemma match_edits_found:
  assumes "match_edits nfkc base i es = Inr ms"
    and "\<forall>e \<in> set es. index_of (oldText e) base \<noteq> None \<or> normalizeForFuzzyMatch nfkc base = base"
  shows "list_all2 (match_of nfkc base) es ms"
  using assms
proof (induction es arbitrary: i ms)
  case (Cons e es)
  let ?m = "fuzzyFindText nfkc base (oldText e)"
  from Cons.prems(1) obtain index ns where found: "fm_index ?m = Some index" "match_edits nfkc base (Suc i) es = Inr ns"
      "ms = \<lparr>me_editIndex = i, me_matchIndex = index, me_matchLength = fm_matchLength ?m, me_newText = newText e\<rparr> # ns"
    by (auto simp: Let_def try_bind_eq_Inr split: option.splits if_splits)
  have "match_of nfkc base e (hd ms)"
  proof (cases "index_of (oldText e) base")
    case None
    with Cons.prems(2) have "normalizeForFuzzyMatch nfkc base = base" by simp
    with None found(1) have "index_of (normalizeForFuzzyMatch nfkc (oldText e)) base = Some index"
      "fm_matchLength ?m = length (normalizeForFuzzyMatch nfkc (oldText e))"
      by (auto simp: fuzzyFindText_def Let_def split: option.splits)
    with None found(3) index_of_Some show ?thesis by (simp add: match_of_def matched_text_def)
  next
    case (Some k)
    with found(1,3) index_of_Some [OF Some] show ?thesis by (auto simp: match_of_def matched_text_def fuzzyFindText_def)
  qed
  with Cons.IH [OF found(2)] Cons.prems(2) found(3) show ?case by auto
qed simp

lemma matched_each:
  "match_edits nfkc base i es = Inr ms \<Longrightarrow> e \<in> set es \<Longrightarrow> \<exists>index. fm_index (fuzzyFindText nfkc base (oldText e)) = Some index"
  by (induction es arbitrary: i ms) (auto simp: Let_def try_bind_eq_Inr split: option.splits if_splits)

lemma placed_edits:
  assumes "match_edits nfkc base 0 es = Inr ms" and "check_overlap (sort_key me_matchIndex ms) = Inr ()"
    and "replacement_base nfkc content es = (fuzzy, base)" and "fuzzy \<Longrightarrow> normalizeForFuzzyMatch nfkc base = base"
  shows "list_all2 (match_of nfkc base) es ms" and "fits 0 (length base) (sort_key me_matchIndex ms)"
proof -
  have found: "index_of (oldText e) base \<noteq> None \<or> normalizeForFuzzyMatch nfkc base = base" if e: "e \<in> set es" for e
  proof (cases fuzzy)
    case False
    then have base: "base = content" "\<not> fm_usedFuzzyMatch (fuzzyFindText nfkc content (oldText e))"
      using assms(3) e by (auto simp: replacement_base_def list_ex_iff Let_def split: if_splits)
    with base matched_each [OF assms(1) e] show ?thesis by (auto simp: fuzzyFindText_def Let_def split: option.splits)
  qed (use assms(4) in simp)
  show matches: "list_all2 (match_of nfkc base) es ms" using match_edits_found [OF assms(1)] found by blast
  then have "\<forall>m \<in> set ms. me_stop m \<le> length base" by (auto simp: list_all2_conv_all_nth in_set_conv_nth match_of_def)
  then show "fits 0 (length base) (sort_key me_matchIndex ms)" using assms(2) check_overlap_sorted by (simp add: fits_def)
qed

lemma accepted_edits:
  assumes "applyEditsToNormalizedContent nfkc content edits = Inr (base', new)"
    and "replacement_base nfkc content (normalized_edits edits) = (fuzzy, base)"
    and "fuzzy \<Longrightarrow> normalizeForFuzzyMatch nfkc base = base"
  obtains ms where "base' = content" and "new \<noteq> content"
    and "list_all2 (match_of nfkc base) (normalized_edits edits) ms" and "fits 0 (length base) (sort_key me_matchIndex ms)"
    and "if fuzzy then applyReplacementsPreservingUnchangedLines content base (sort_key me_matchIndex ms) = Inr new
      else new = applyReplacements base (sort_key me_matchIndex ms) 0"
proof -
  let ?es = "normalized_edits edits"
  from assms(1,2) obtain ms where ms: "match_edits nfkc base 0 ?es = Inr ms" "check_overlap (sort_key me_matchIndex ms) = Inr ()"
      "if fuzzy then applyReplacementsPreservingUnchangedLines content base (sort_key me_matchIndex ms) = Inr new
       else new = applyReplacements base (sort_key me_matchIndex ms) 0" and "base' = content" "new \<noteq> content"
    by (auto simp: applyEditsToNormalizedContent_def Let_def try_bind_eq_Inr split: if_splits)
  from placed_edits [OF ms(1,2) assms(2,3)] that ms(3) \<open>base' = content\<close> \<open>new \<noteq> content\<close> show thesis by simp
qed

section \<open>Exact edits\<close>

lemma match_texts:
  assumes "list_all2 (match_of nfkc base) es ms"
  shows "map (\<lambda>m. (matched_text base m, me_newText m)) ms
    = map (\<lambda>e. (if index_of (oldText e) base = None then normalizeForFuzzyMatch nfkc (oldText e) else oldText e, newText e)) es"
  using assms by (induction rule: list_all2_induct) (auto simp: match_of_def)

lemma sorted_matches: "image_mset f (mset (sort_key me_matchIndex ms)) = image_mset f (mset ms)"
  by simp

lemma exact_edit_pieces:
  assumes "applyEditsToNormalizedContent nfkc content edits = Inr (base, new)"
    and "\<forall>e \<in> set edits. index_of (normalizeToLF (oldText e)) content \<noteq> None"
  shows "\<exists>ps tail. content = old_side ps tail \<and> new = new_side ps tail
    \<and> mset (map snd ps) = mset (map (\<lambda>e. (normalizeToLF (oldText e), normalizeToLF (newText e))) edits)"
proof -
  have "\<not> fm_usedFuzzyMatch (fuzzyFindText nfkc content (oldText e))" if "e \<in> set (normalized_edits edits)" for e
    using assms(2) that by (auto simp: normalized_edits_def fuzzyFindText_def)
  then have base: "replacement_base nfkc content (normalized_edits edits) = (False, content)"
    by (auto simp: replacement_base_def list_ex_iff Let_def)
  obtain ms where ms: "list_all2 (match_of nfkc content) (normalized_edits edits) ms"
      "fits 0 (length content) (sort_key me_matchIndex ms)" "new = applyReplacements content (sort_key me_matchIndex ms) 0"
    by (rule accepted_edits [OF assms(1) base]) simp_all
  from ms(2) obtain ps tail where ps: "content = old_side ps tail" "new = new_side ps tail"
      "map snd ps = map (\<lambda>m. (matched_text content m, me_newText m)) (sort_key me_matchIndex ms)"
    using replacements_in_place [of 0 content] unfolding ms(3) matched_text_def by auto
  have "mset (map snd ps) = mset (map (\<lambda>m. (matched_text content m, me_newText m)) ms)" by (simp add: ps(3))
  also have "map (\<lambda>m. (matched_text content m, me_newText m)) ms
      = map (\<lambda>e. (normalizeToLF (oldText e), normalizeToLF (newText e))) edits"
    unfolding match_texts [OF ms(1)] using assms(2) by (auto simp: normalized_edits_def)
  finally show ?thesis using ps(1,2) by blast
qed

text \<open>Edits whose old texts are all in the file are carried out exactly: the content is cut into pieces,
  every old text once among them, and the new content consists of the same pieces with each old text replaced by its
  new text; whatever lies between them is untouched. Edits are given in any order.\<close>

theorem exact_edits_replace_in_place:
  assumes "applyEditsToNormalizedContent nfkc content edits = Inr (base, new)"
    and "\<forall>e \<in> set edits. index_of (normalizeToLF (oldText e)) content \<noteq> None"
  shows "\<exists>ps tail. content = old_side ps tail \<and> new = new_side ps tail
    \<and> mset (map snd ps) = mset (map (\<lambda>e. (normalizeToLF (oldText e), normalizeToLF (newText e))) edits)"
  using assms by (rule exact_edit_pieces)

lemma exact_edits_replace_in_place_witness:
  "\<exists>ps tail. jlit ''one two'' = old_side ps tail \<and> jlit ''1 2'' = new_side ps tail
    \<and> mset (map snd ps) = mset [(jlit ''two'', jlit ''2''), (jlit ''one'', jlit ''1'')]"
proof -
  let ?edits = "[\<lparr>oldText = jlit ''two'', newText = jlit ''2''\<rparr>, \<lparr>oldText = jlit ''one'', newText = jlit ''1''\<rparr>]"
  have "applyEditsToNormalizedContent id (jlit ''one two'') ?edits = Inr (jlit ''one two'', jlit ''1 2'')"
    by code_simp
  from exact_edits_replace_in_place [OF this] show ?thesis by (simp add: jlit_def normalizeToLF_def)
qed

section \<open>Lines that are not touched\<close>

lemma concat_splitLines [simp]: "concat (splitLinesWithEndings s) = s"
proof (induction s rule: splitLinesWithEndings.induct)
  case (2 u s)
  let ?line = "takeWhile (\<lambda>v. v \<noteq> 10) (u # s)" and ?rest = "dropWhile (\<lambda>v. v \<noteq> 10) (u # s)"
  have all: "u # s = ?line @ ?rest" by simp
  show ?case
  proof (cases "?rest = []")
    case False
    then have "hd ?rest = 10" using hd_dropWhile [of "\<lambda>v. v \<noteq> 10" "u # s"] by simp
    then have "?rest = 10 # tl ?rest" using False by (metis list.collapse)
    then have "?line @ 10 # tl ?rest = u # s" by simp
    with 2 [OF refl refl False] show ?thesis
      by (simp only: splitLinesWithEndings.simps Let_def False if_False concat.simps append.assoc append.simps)
  next
    case True
    then have "u # s = ?line" using all by (metis append_Nil2)
    with True show ?thesis by (simp only: splitLinesWithEndings.simps Let_def if_True concat.simps append_Nil2 refl)
  qed
qed simp

lemma splitLines_nonempty: "l \<in> set (splitLinesWithEndings s) \<Longrightarrow> l \<noteq> []"
  by (induction s rule: splitLinesWithEndings.induct) (auto simp: Let_def split: if_splits)

text \<open>Where the line \<open>j\<close> begins.\<close>

definition line_start :: "jstr list \<Rightarrow> nat \<Rightarrow> nat" where
  "line_start lines j = length (concat (take j lines))"

lemma line_start_simps [simp]: "line_start lines 0 = 0" "line_start (l # lines) (Suc j) = length l + line_start lines j"
  "line_start lines (length lines) = length (concat lines)"
  by (simp_all add: line_start_def)

lemma line_start_Suc: "j < length lines \<Longrightarrow> line_start lines (Suc j) = line_start lines j + length (lines ! j)"
  by (simp add: line_start_def take_Suc_conv_app_nth)

lemma line_start_mono: "i \<le> j \<Longrightarrow> line_start lines i \<le> line_start lines j"
  by (auto simp: line_start_def le_iff_add take_add)

lemma line_start_less:
  assumes "\<forall>l \<in> set lines. l \<noteq> []" and "i < j" and "j \<le> length lines"
  shows "line_start lines i < line_start lines j"
proof -
  have "line_start lines i < line_start lines (Suc i)" using assms by (simp add: line_start_Suc)
  also have "\<dots> \<le> line_start lines j" using assms(2) by (simp add: line_start_mono)
  finally show ?thesis .
qed

lemma length_spans [simp]: "length (spans_from k lines) = length lines"
  by (induction lines arbitrary: k) simp_all

lemma nth_spans: "j < length lines \<Longrightarrow>
    spans_from k lines ! j = \<lparr>ls_start = k + line_start lines j, ls_end = k + line_start lines (Suc j)\<rparr>"
  by (induction lines arbitrary: j k) (auto simp: nth_Cons split: nat.split)

lemma sub_list_lines: "i \<le> j \<Longrightarrow> concat (sub_list i j lines) = sub_list (line_start lines i) (line_start lines j) (concat lines)"
proof -
  assume "i \<le> j"
  then have "take j lines = take i lines @ sub_list i j lines" by (metis le_add_diff_inverse sub_list_def take_add)
  then have j: "concat (take j lines) = concat (take i lines) @ concat (sub_list i j lines)" by (metis concat_append)
  have "concat lines = concat (take j lines) @ concat (drop j lines)" by (metis append_take_drop_id concat_append)
  then show ?thesis by (simp add: j sub_list_def line_start_def)
qed

text \<open>A replacement touches the line that it starts in and those that begin inside of it.\<close>

definition touches :: "jstr list \<Rightarrow> matched_edit \<Rightarrow> nat \<Rightarrow> bool" where
  "touches lines m j \<longleftrightarrow> j < length lines \<and>
     (line_start lines j \<le> me_matchIndex m \<and> me_matchIndex m < line_start lines (Suc j)
      \<or> me_matchIndex m < line_start lines j \<and> line_start lines j < me_stop m)"

lemma find_start_Some: "find_start a i lines = Some k \<Longrightarrow>
    i \<le> k \<and> k - i < length lines \<and> ls_start (lines ! (k - i)) \<le> a \<and> a < ls_end (lines ! (k - i))"
proof (induction a i lines rule: find_start.induct)
  case (2 a i line lines)
  then show ?case by (auto split: if_splits simp: Suc_diff_Suc [symmetric] dest!: Suc_le_lessD)
qed simp

lemma find_end_Some: "find_end b i lines = Some k \<Longrightarrow>
    i \<le> k \<and> k - i < length lines \<and> b \<le> ls_end (lines ! (k - i)) \<and> (\<forall>j < k - i. ls_end (lines ! j) < b)"
proof (induction b i lines rule: find_end.induct)
  case (2 b i line lines)
  then show ?case
    by (auto split: if_splits simp: Suc_diff_Suc [symmetric] less_Suc_eq_0_disj dest!: Suc_le_lessD)
qed simp

lemma line_range:
  assumes "getReplacementLineRange (spans_from 0 lines) m = Inr (a, b)" and "\<forall>l \<in> set lines. l \<noteq> []"
  shows "a < b" "b \<le> length lines" "line_start lines a \<le> me_matchIndex m" "me_matchIndex m < line_start lines (Suc a)"
    "me_stop m \<le> line_start lines b" "{j. touches lines m j} = {a..<b}"
proof -
  from assms(1) obtain c where c: "find_start (me_matchIndex m) 0 (spans_from 0 lines) = Some a"
      "find_end (me_stop m) a (drop a (spans_from 0 lines)) = Some c" "b = Suc c"
    by (auto simp: getReplacementLineRange_def split: option.splits)
  from find_start_Some [OF c(1)] have a: "a < length lines" "line_start lines a \<le> me_matchIndex m"
      "me_matchIndex m < line_start lines (Suc a)"
    by (auto simp: nth_spans)
  from find_end_Some [OF c(2)] a(1) have "a \<le> c" "c < length lines"
      and stop: "me_stop m \<le> ls_end (drop a (spans_from 0 lines) ! (c - a))"
      and before: "\<forall>j < c - a. ls_end (drop a (spans_from 0 lines) ! j) < me_stop m" by auto
  then show b: "a < b" "b \<le> length lines" using c(3) by simp_all
  show "line_start lines a \<le> me_matchIndex m" "me_matchIndex m < line_start lines (Suc a)" by fact+
  show last: "me_stop m \<le> line_start lines b" using stop \<open>a \<le> c\<close> \<open>c < length lines\<close> by (simp add: nth_spans c(3))
  have inside: "line_start lines (Suc j) < me_stop m" if "a \<le> j" "j < c" for j
    using before [rule_format, of "j - a"] that \<open>c < length lines\<close> by (simp add: nth_spans)
  have less: "line_start lines i < line_start lines j \<longleftrightarrow> i < j" if "i \<le> length lines" "j \<le> length lines" for i j
    using line_start_less [OF assms(2), of i j] line_start_mono [of j i lines] that by (meson leD linorder_le_less_linear)
  show "{j. touches lines m j} = {a..<b}"
  proof (intro equalityI subsetI; clarsimp)
    fix j assume t: "touches lines m j"
    then have j: "j < length lines" by (simp add: touches_def)
    show "a \<le> j \<and> j < b"
    proof (cases "line_start lines j \<le> me_matchIndex m")
      case True
      with t have "me_matchIndex m < line_start lines (Suc j)" by (auto simp: touches_def)
      with True a have "line_start lines a < line_start lines (Suc j)" "line_start lines j < line_start lines (Suc a)" by linarith+
      with less a(1) j have "a = j" by simp
      with b(1) show ?thesis by simp
    next
      case False
      with t have "me_matchIndex m < line_start lines j" "line_start lines j < me_stop m" by (auto simp: touches_def)
      with a(2) last have "line_start lines a < line_start lines j" "line_start lines j < line_start lines b" by linarith+
      with less a(1) j b(2) show ?thesis by simp
    qed
  next
    fix j assume j: "a \<le> j" "j < b"
    show "touches lines m j"
    proof (cases "j = a")
      case True
      with a show ?thesis by (simp add: touches_def)
    next
      case False
      then obtain i where i: "j = Suc i" "a \<le> i" using j(1) by (cases j) auto
      with j(2) c(3) have "line_start lines j < me_stop m" using inside [of i] by simp
      moreover have "me_matchIndex m < line_start lines j" using a(3) line_start_mono [of "Suc a" j lines] i by simp
      ultimately show ?thesis using j b(2) by (simp add: touches_def)
    qed
  qed
qed

definition group_ok :: "jstr list \<Rightarrow> line_group \<Rightarrow> bool" where
  "group_ok lines g \<longleftrightarrow> lg_startLine g < lg_endLine g \<and> lg_endLine g \<le> length lines \<and> lg_replacements g \<noteq> []
     \<and> fits (line_start lines (lg_startLine g)) (line_start lines (lg_endLine g)) (lg_replacements g)
     \<and> {j. \<exists>m \<in> set (lg_replacements g). touches lines m j} = {lg_startLine g..<lg_endLine g}"

definition behind :: "line_group \<Rightarrow> line_group \<Rightarrow> bool" where
  "behind g g' \<longleftrightarrow> lg_endLine g' \<le> lg_startLine g"

lemma single_group_ok:
  assumes "getReplacementLineRange (spans_from 0 lines) m = Inr (a, b)" and "\<forall>l \<in> set lines. l \<noteq> []"
  shows "group_ok lines \<lparr>lg_startLine = a, lg_endLine = b, lg_replacements = [m]\<rparr>"
  using line_range [OF assms] by (simp add: group_ok_def fits_def)

lemma larger_group_ok:
  assumes "getReplacementLineRange (spans_from 0 lines) m = Inr (a, b)" and "\<forall>l \<in> set lines. l \<noteq> []"
    and "group_ok lines g" and "a < lg_endLine g" and "sorted_wrt in_front (lg_replacements g @ [m])"
  shows "group_ok lines \<lparr>lg_startLine = lg_startLine g, lg_endLine = max (lg_endLine g) b, lg_replacements = lg_replacements g @ [m]\<rparr>"
proof -
  note range = line_range [OF assms(1,2)]
  have g: "lg_startLine g < lg_endLine g" "lg_endLine g \<le> length lines"
    "fits (line_start lines (lg_startLine g)) (line_start lines (lg_endLine g)) (lg_replacements g)"
    "{j. \<exists>m \<in> set (lg_replacements g). touches lines m j} = {lg_startLine g..<lg_endLine g}"
    using assms(3) by (auto simp: group_ok_def)
  obtain m0 where m0: "m0 \<in> set (lg_replacements g)" using assms(3) by (auto simp: group_ok_def neq_Nil_conv)
  with g(3) have "line_start lines (lg_startLine g) \<le> me_matchIndex m0" by (simp add: fits_def)
  moreover have "me_stop m0 \<le> me_matchIndex m" using assms(5) m0 by (simp add: sorted_wrt_append)
  ultimately have idx: "line_start lines (lg_startLine g) \<le> me_matchIndex m" by linarith
  with range(4) have "line_start lines (lg_startLine g) < line_start lines (Suc a)" by linarith
  then have a: "lg_startLine g \<le> a" using line_start_mono [of "Suc a" "lg_startLine g" lines] by (meson leD not_less_eq_eq)
  have "line_start lines (lg_endLine g) \<le> line_start lines (max (lg_endLine g) b)" "line_start lines b \<le> line_start lines (max (lg_endLine g) b)"
    by (simp_all add: line_start_mono)
  with g(3) idx range(5) assms(5)
  have "fits (line_start lines (lg_startLine g)) (line_start lines (max (lg_endLine g) b)) (lg_replacements g @ [m])"
    by (auto simp: fits_def)
  moreover have "{j. \<exists>x \<in> set (lg_replacements g @ [m]). touches lines x j} = {lg_startLine g..<lg_endLine g} \<union> {a..<b}"
    using g(4) range(6) by auto
  moreover have "{lg_startLine g..<lg_endLine g} \<union> {a..<b} = {lg_startLine g..<max (lg_endLine g) b}"
    using a assms(4) g(1) by auto
  ultimately show ?thesis using g range(1,2) by (simp add: group_ok_def)
qed

lemma group_replacements_ok:
  assumes "\<forall>l \<in> set lines. l \<noteq> []"
  shows "group_replacements (spans_from 0 lines) ms gs = Inr result \<Longrightarrow> \<forall>g \<in> set gs. group_ok lines g \<Longrightarrow> sorted_wrt behind gs \<Longrightarrow>
    sorted_wrt in_front (concat (map lg_replacements (rev gs)) @ ms) \<Longrightarrow>
    (\<forall>g \<in> set result. group_ok lines g) \<and> sorted_wrt behind (rev result)
    \<and> concat (map lg_replacements result) = concat (map lg_replacements (rev gs)) @ ms"
proof (induction ms arbitrary: gs)
  case Nil
  then show ?case by auto
next
  case (Cons m ms)
  from Cons.prems(1) obtain a b where range: "getReplacementLineRange (spans_from 0 lines) m = Inr (a, b)"
    by (auto simp: try_bind_eq_Inr)
  note single = single_group_ok [OF range assms]
  show ?case
  proof (cases gs)
    case Nil
    with Cons.prems range have "group_replacements (spans_from 0 lines) ms
        [\<lparr>lg_startLine = a, lg_endLine = b, lg_replacements = [m]\<rparr>] = Inr result" by simp
    from Cons.IH [OF this] single Cons.prems(4) Nil show ?thesis by simp
  next
    case (Cons g others)
    have later: "sorted_wrt in_front (concat (map lg_replacements (rev others)) @ lg_replacements g @ [m] @ ms)"
      using Cons.prems(4) Cons by simp
    show ?thesis
    proof (cases "a < lg_endLine g")
      case True
      let ?g = "\<lparr>lg_startLine = lg_startLine g, lg_endLine = max (lg_endLine g) b, lg_replacements = lg_replacements g @ [m]\<rparr>"
      have run: "group_replacements (spans_from 0 lines) ms (?g # others) = Inr result"
        using Cons.prems(1) range Cons True by simp
      have "group_ok lines ?g"
        by (rule larger_group_ok [OF range assms _ True]) (use Cons.prems(2) Cons later in \<open>auto simp: sorted_wrt_append\<close>)
      then have ok: "\<forall>x \<in> set (?g # others). group_ok lines x" using Cons.prems(2) Cons by simp
      have order: "sorted_wrt behind (?g # others)" using Cons.prems(3) Cons by simp (simp add: behind_def)
      have "sorted_wrt in_front (concat (map lg_replacements (rev (?g # others))) @ ms)" using later by simp
      from Cons.IH [OF run ok order this] show ?thesis unfolding Cons by simp
    next
      case False
      let ?g = "\<lparr>lg_startLine = a, lg_endLine = b, lg_replacements = [m]\<rparr>"
      have run: "group_replacements (spans_from 0 lines) ms (?g # gs) = Inr result"
        using Cons.prems(1) range Cons False by simp
      have "lg_endLine x \<le> lg_endLine g" if "x \<in> set gs" for x
        using that Cons.prems(2,3) Cons by (auto simp: behind_def group_ok_def)
      with False have "\<forall>x \<in> set gs. lg_endLine x \<le> a" by force
      then have order: "sorted_wrt behind (?g # gs)" using Cons.prems(3) by simp (simp add: behind_def)
      have ok: "\<forall>x \<in> set (?g # gs). group_ok lines x" using Cons.prems(2) single by simp
      have "sorted_wrt in_front (concat (map lg_replacements (rev (?g # gs))) @ ms)" using later unfolding Cons by simp
      from Cons.IH [OF run ok order this] show ?thesis by simp
    qed
  qed
qed

section \<open>The new content by lines\<close>

type_synonym rewritten = "nat \<times> nat \<times> piece list \<times> jstr"

text \<open>The lines \<open>a\<close> to \<open>b\<close> are replaced by a text, the others are kept.\<close>

fun assemble :: "jstr list \<Rightarrow> nat \<Rightarrow> (nat \<times> nat \<times> jstr) list \<Rightarrow> jstr" where
  "assemble lines k [] = concat (drop k lines)"
| "assemble lines k ((a, b, t) # gs) = concat (sub_list k a lines) @ t @ assemble lines b gs"

fun ordered_groups :: "nat \<Rightarrow> nat \<Rightarrow> rewritten list \<Rightarrow> bool" where
  "ordered_groups k n [] \<longleftrightarrow> k \<le> n"
| "ordered_groups k n ((a, b, ps, tail) # gs) \<longleftrightarrow> k \<le> a \<and> a < b \<and> ordered_groups b n gs"

definition rewritten_as :: "jstr list \<Rightarrow> jstr list \<Rightarrow> nat \<Rightarrow> line_group list \<Rightarrow> rewritten list \<Rightarrow> bool" where
  "rewritten_as lines originalLines k gs rs \<longleftrightarrow>
     rewrite_groups originalLines (concat lines) (spans_from 0 lines) k gs
        = assemble originalLines k (map (\<lambda>(a, b, ps, tail). (a, b, new_side ps tail)) rs)
     \<and> ordered_groups k (length lines) rs
     \<and> (\<forall>(a, b, ps, tail) \<in> set rs. concat (sub_list a b lines) = old_side ps tail)
     \<and> (\<Union>(a, b, ps, tail) \<in> set rs. {a..<b}) = {j. \<exists>m \<in> set (concat (map lg_replacements gs)). touches lines m j}
     \<and> concat (map (\<lambda>(a, b, ps, tail). map snd ps) rs)
        = map (\<lambda>m. (matched_text (concat lines) m, me_newText m)) (concat (map lg_replacements gs))"

lemma rewritten_groups:
  assumes "\<forall>l \<in> set lines. l \<noteq> []"
  shows "\<forall>g \<in> set gs. group_ok lines g \<Longrightarrow> sorted_wrt (\<lambda>g g'. behind g' g) gs \<Longrightarrow> k \<le> length lines \<Longrightarrow> \<forall>g \<in> set gs. k \<le> lg_startLine g \<Longrightarrow>
    \<exists>rs. rewritten_as lines originalLines k gs rs"
proof (induction gs arbitrary: k)
  case Nil
  then show ?case by (intro exI [of _ "[]"]) (simp add: rewritten_as_def)
next
  case (Cons g gs)
  let ?a = "lg_startLine g" and ?b = "lg_endLine g"
  let ?i = "line_start lines ?a" and ?j = "line_start lines ?b"
  have g: "?a < ?b" "?b \<le> length lines" "fits ?i ?j (lg_replacements g)"
      "{j. \<exists>m \<in> set (lg_replacements g). touches lines m j} = {?a..<?b}"
    using Cons.prems(1) by (simp_all add: group_ok_def)
  have "\<forall>h \<in> set gs. ?b \<le> lg_startLine h" using Cons.prems(2) by (simp add: behind_def)
  moreover have "\<forall>h \<in> set gs. group_ok lines h" "sorted_wrt (\<lambda>g g'. behind g' g) gs" using Cons.prems(1,2) by simp_all
  ultimately obtain rs where "rewritten_as lines originalLines ?b gs rs" using Cons.IH [of ?b] g(2) by blast
  note rs = this [unfolded rewritten_as_def, THEN conjunct1] this [unfolded rewritten_as_def, THEN conjunct2]
  have le: "?i \<le> ?j" "?j \<le> length (concat lines)"
    using line_start_mono [of ?a ?b lines] line_start_mono [of ?b "length lines" lines] g(1,2) by simp_all
  then have len: "length (sub_list ?i ?j (concat lines)) = ?j - ?i" by (simp add: sub_list_def)
  with g(3) le have "fits ?i (?i + length (sub_list ?i ?j (concat lines))) (lg_replacements g)" by simp
  then obtain ps tail where ps:
      "sub_list ?i ?j (concat lines) = old_side ps tail"
      "applyReplacements (sub_list ?i ?j (concat lines)) (lg_replacements g) ?i = new_side ps tail"
      "map snd ps = map (\<lambda>m. (take (me_matchLength m) (drop (me_matchIndex m - ?i) (sub_list ?i ?j (concat lines))), me_newText m)) (lg_replacements g)"
    by (rule replacements_in_place)
  have "take (me_matchLength m) (drop (me_matchIndex m - ?i) (sub_list ?i ?j (concat lines))) = matched_text (concat lines) m"
    if "m \<in> set (lg_replacements g)" for m
  proof -
    have m: "?i \<le> me_matchIndex m" "me_stop m \<le> ?j" using g(3) that by (simp_all add: fits_def)
    then show ?thesis by (simp add: sub_list_def matched_text_def drop_take min_absorb1)
  qed
  with ps(3) have snds: "map snd ps = map (\<lambda>m. (matched_text (concat lines) m, me_newText m)) (lg_replacements g)" by simp
  have "rewrite_groups originalLines (concat lines) (spans_from 0 lines) k (g # gs)
      = concat (sub_list k ?a originalLines) @ new_side ps tail
        @ assemble originalLines ?b (map (\<lambda>(a, b, ps, tail). (a, b, new_side ps tail)) rs)"
    using g(1,2) by (simp add: Let_def nth_spans ps(2) rs(1))
  moreover have "concat (sub_list ?a ?b lines) = old_side ps tail" using sub_list_lines [of ?a ?b lines] g(1) ps(1) by simp
  moreover have "(\<Union>(a, b, ps, tail) \<in> set ((?a, ?b, ps, tail) # rs). {a..<b})
      = {j. \<exists>m \<in> set (concat (map lg_replacements (g # gs))). touches lines m j}"
    using rs(2) g(4) by auto
  ultimately have "rewritten_as lines originalLines k (g # gs) ((?a, ?b, ps, tail) # rs)"
    unfolding rewritten_as_def using Cons.prems(4) g(1) rs(2) snds by simp
  then show ?case ..
qed

text \<open>The result of replacements in a normalised text, by lines.\<close>

lemma preserved_lines:
  assumes "applyReplacementsPreservingUnchangedLines content base (sort_key me_matchIndex ms) = Inr new"
    and "fits 0 (length base) (sort_key me_matchIndex ms)"
  shows "length (splitLinesWithEndings base) = length (splitLinesWithEndings content) \<and> (\<exists>rs.
    new = assemble (splitLinesWithEndings content) 0 (map (\<lambda>(a, b, ps, tail). (a, b, new_side ps tail)) rs)
    \<and> ordered_groups 0 (length (splitLinesWithEndings content)) rs
    \<and> (\<forall>(a, b, ps, tail) \<in> set rs. concat (sub_list a b (splitLinesWithEndings base)) = old_side ps tail)
    \<and> (\<Union>(a, b, ps, tail) \<in> set rs. {a..<b}) = {j. \<exists>m \<in> set ms. touches (splitLinesWithEndings base) m j}
    \<and> mset (concat (map (\<lambda>(a, b, ps, tail). map snd ps) rs)) = mset (map (\<lambda>m. (matched_text base m, me_newText m)) ms))"
proof -
  let ?lines = "splitLinesWithEndings base"
  let ?sorted = "sort_key me_matchIndex ms"
  from assms(1) obtain groups where len: "length ?lines = length (splitLinesWithEndings content)"
      and groups: "group_replacements (spans_from 0 ?lines) ?sorted [] = Inr groups"
      and new: "new = rewrite_groups (splitLinesWithEndings content) base (spans_from 0 ?lines) 0 groups"
    by (auto simp: applyReplacementsPreservingUnchangedLines_def getLineSpans_def sorted_sort_key Let_def try_bind_eq_Inr
        sort_key_id_if_sorted split: if_splits)
  have nonempty: "\<forall>l \<in> set ?lines. l \<noteq> []" using splitLines_nonempty by blast
  have "sorted_wrt in_front ?sorted" using assms(2) by (simp add: fits_def)
  with group_replacements_ok [OF nonempty groups]
  have ok: "\<forall>g \<in> set groups. group_ok ?lines g" "sorted_wrt behind (rev groups)" "concat (map lg_replacements groups) = ?sorted" by auto
  then have "sorted_wrt (\<lambda>g g'. behind g' g) groups" by (simp add: sorted_wrt_rev)
  with rewritten_groups [OF nonempty ok(1), of 0] obtain rs where "rewritten_as ?lines (splitLinesWithEndings content) 0 groups rs" by auto
  note rs = this [unfolded rewritten_as_def concat_splitLines ok(3)]
  note parts = rs [THEN conjunct1] rs [THEN conjunct2, THEN conjunct1] rs [THEN conjunct2, THEN conjunct2, THEN conjunct1]
    rs [THEN conjunct2, THEN conjunct2, THEN conjunct2, THEN conjunct1] rs [THEN conjunct2, THEN conjunct2, THEN conjunct2, THEN conjunct2]
  have all: "mset (concat (map (\<lambda>(a, b, ps, tail). map snd ps) rs)) = mset (map (\<lambda>m. (matched_text base m, me_newText m)) ms)"
    unfolding parts(5) by (simp only: mset_map mset_sort)
  show ?thesis
    by (intro exI [of _ rs] conjI)
      (rule len trans [OF new parts(1)] parts(2) [unfolded len] parts(3) parts(4) [unfolded set_sort] all)+
qed

text \<open>C18 (safety). Edits that were matched after normalisation leave the lines they do not touch alone: the new content
  consists of the original lines, in their order and with their bytes, but for groups of consecutive lines; the lines of
  these groups are exactly those that a matched range touches, and the text of a group is the normalised text of its lines
  with the matched texts replaced in place, every edit once. NFKC is assumed to have nothing left to do in the
  normalised content.\<close>

theorem untouched_lines_keep_their_bytes:
  assumes "applyEditsToNormalizedContent nfkc content edits = Inr (base', new)"
    and "replacement_base nfkc content (normalized_edits edits) = (True, base)"
    and "normalizeForFuzzyMatch nfkc base = base"
  shows "\<exists>rs ms. length (splitLinesWithEndings base) = length (splitLinesWithEndings content)
    \<and> list_all2 (match_of nfkc base) (normalized_edits edits) ms
    \<and> new = assemble (splitLinesWithEndings content) 0 (map (\<lambda>(a, b, ps, tail). (a, b, new_side ps tail)) rs)
    \<and> ordered_groups 0 (length (splitLinesWithEndings content)) rs
    \<and> (\<forall>(a, b, ps, tail) \<in> set rs. concat (sub_list a b (splitLinesWithEndings base)) = old_side ps tail)
    \<and> (\<Union>(a, b, ps, tail) \<in> set rs. {a..<b}) = {j. \<exists>m \<in> set ms. touches (splitLinesWithEndings base) m j}
    \<and> mset (concat (map (\<lambda>(a, b, ps, tail). map snd ps) rs)) = mset (map (\<lambda>m. (matched_text base m, me_newText m)) ms)"
proof -
  obtain ms where ms: "list_all2 (match_of nfkc base) (normalized_edits edits) ms" "fits 0 (length base) (sort_key me_matchIndex ms)"
      "applyReplacementsPreservingUnchangedLines content base (sort_key me_matchIndex ms) = Inr new"
    by (rule accepted_edits [OF assms(1,2)]) (use assms(3) in simp_all)
  from preserved_lines [OF ms(3,2)] ms(1) show ?thesis by blast
qed

definition trailing_blanks :: "jstr \<times> edit" where
  "trailing_blanks = (jlit ''a '' @ [10] @ jlit ''b '' @ [10] @ jlit ''c '' @ [10], \<lparr>oldText = jlit ''a'' @ [10] @ jlit ''b'', newText = jlit ''x''\<rparr>)"

lemma untouched_lines_keep_their_bytes_witness:
  "\<exists>rs ms. jlit ''x'' @ [10] @ jlit ''c '' @ [10]
      = assemble (splitLinesWithEndings (fst trailing_blanks)) 0 (map (\<lambda>(a, b, ps, tail). (a, b, new_side ps tail)) rs)
    \<and> list_all2 (match_of id (jlit ''a'' @ [10] @ jlit ''b'' @ [10] @ jlit ''c'' @ [10])) (normalized_edits [snd trailing_blanks]) ms"
proof -
  have a: "applyEditsToNormalizedContent id (fst trailing_blanks) [snd trailing_blanks]
      = Inr (fst trailing_blanks, jlit ''x'' @ [10] @ jlit ''c '' @ [10])" by code_simp
  have b: "replacement_base id (fst trailing_blanks) (normalized_edits [snd trailing_blanks])
      = (True, jlit ''a'' @ [10] @ jlit ''b'' @ [10] @ jlit ''c'' @ [10])" by code_simp
  have c: "normalizeForFuzzyMatch id (jlit ''a'' @ [10] @ jlit ''b'' @ [10] @ jlit ''c'' @ [10])
      = jlit ''a'' @ [10] @ jlit ''b'' @ [10] @ jlit ''c'' @ [10]" by code_simp
  from untouched_lines_keep_their_bytes [OF a b c] show ?thesis by blast
qed

text \<open>
  An old text of white space alone normalises to the empty text, which is found at the start of every file; in a file of one
  or two characters it counts as unique, and the new text is inserted there.
\<close>

lemma blank_old_text_matches_anything:
  assumes "nfkc [97] = [97]" and "nfkc [32, 32] = [32, 32]"
  shows "applyEditsToNormalizedContent nfkc [97] [\<lparr>oldText = [32, 32], newText = [120]\<rparr>] = Inr ([97], [120, 97])"
  using assms
  by (simp add: applyEditsToNormalizedContent_def normalized_edits_def replacement_base_def normalizeToLF_def fuzzyFindText_def
      normalizeForFuzzyMatch_def trim_end_def is_trimmed_def fuzzy_unit_def countOccurrences_def split_count_def
      applyReplacementsPreservingUnchangedLines_def getLineSpans_def getReplacementLineRange_def applyReplacements_def
      replace_one_def sub_list_def)

text \<open>A last line of blanks, without a newline, is no line of the normalised text: every edit that needs normalisation is refused.\<close>

lemma blank_last_line_refuses_normalised_edits:
  "applyEditsToNormalizedContent id (jlit ''a '' @ [10] @ jlit '' '') [\<lparr>oldText = jlit ''a'' @ [10], newText = jlit ''b'' @ [10]\<rparr>] = Inl LineCountDiffers"
  by code_simp

section \<open>Line endings\<close>

lemma replace_crlf_clean: "13 \<notin> set s \<Longrightarrow> replace_crlf s = s"
  by (induction s rule: replace_crlf.induct) auto

lemma normalizeToLF_no_cr: "13 \<notin> set (normalizeToLF s)"
  by (auto simp: normalizeToLF_def)

lemma normalizeToLF_clean: "13 \<notin> set s \<Longrightarrow> normalizeToLF s = s"
  by (auto simp: normalizeToLF_def replace_crlf_clean intro: map_idI)

abbreviation with_crlf :: "jstr \<Rightarrow> jstr" where
  "with_crlf s \<equiv> restoreLineEndings s CrLf"

lemma with_crlf_simps [simp]:
  "with_crlf [] = []" "with_crlf (u # s) = (if u = 10 then [13, 10] else [u]) @ with_crlf s" "restoreLineEndings s Lf = s"
  by (simp_all add: restoreLineEndings_def)

lemma restoreLineEndings_append: "restoreLineEndings (s @ t) e = restoreLineEndings s e @ restoreLineEndings t e"
  by (cases e) (simp_all add: restoreLineEndings_def)

lemma replace_crlf_with_crlf: "13 \<notin> set s \<Longrightarrow> replace_crlf (with_crlf s) = s"
proof (induction s)
  case (Cons u s)
  show ?case
  proof (cases "u = 10")
    case False
    then have "replace_crlf (u # with_crlf s) = u # replace_crlf (with_crlf s)" using Cons.prems by (cases "with_crlf s") auto
    with Cons False show ?thesis by simp
  qed (use Cons in simp)
qed simp

lemma normalizeToLF_with_crlf: "13 \<notin> set s \<Longrightarrow> normalizeToLF (with_crlf s) = s"
  by (auto simp: normalizeToLF_def replace_crlf_with_crlf intro: map_idI)

lemma index_of_crlf: "13 \<notin> set s \<Longrightarrow> 10 \<in> set s \<Longrightarrow>
    \<exists>i. index_of [13, 10] (with_crlf s) = Some i \<and> index_of [10] (with_crlf s) = Some (Suc i)"
  by (induction s) (auto split: if_splits)

lemma index_of_absent: "\<not> set p \<subseteq> set s \<Longrightarrow> index_of p s = None"
proof (induction p s rule: index_of.induct)
  case (2 p u s)
  have "take (length p) (u # s) \<noteq> p"
  proof
    assume "take (length p) (u # s) = p"
    then have "set p \<subseteq> set (u # s)" by (metis set_take_subset)
    with "2.prems" show False by simp
  qed
  moreover have "\<not> set p \<subseteq> set s" using "2.prems" by auto
  ultimately show ?case using 2 by simp
qed auto

text \<open>Files in which every line ends the same way.\<close>

definition uniform_endings :: "jstr \<Rightarrow> bool" where
  "uniform_endings s \<longleftrightarrow> 13 \<notin> set s \<or> (\<exists>t. 13 \<notin> set t \<and> s = with_crlf t)"

theorem line_endings_restored: "restoreLineEndings (normalizeToLF s) (detectLineEnding s) = s \<longleftrightarrow> uniform_endings s"
proof
  assume same: "restoreLineEndings (normalizeToLF s) (detectLineEnding s) = s"
  show "uniform_endings s"
  proof (cases "detectLineEnding s")
    case CrLf
    with same normalizeToLF_no_cr show ?thesis unfolding uniform_endings_def by metis
  next
    case Lf
    with same normalizeToLF_no_cr [of s] show ?thesis by (simp add: uniform_endings_def)
  qed
next
  have clean: "restoreLineEndings (normalizeToLF s) (detectLineEnding s) = s" if "13 \<notin> set s" for s
    using that by (auto simp: detectLineEnding_def normalizeToLF_clean index_of_absent split: option.split)
  assume "uniform_endings s"
  then consider "13 \<notin> set s" | t where "13 \<notin> set t" "s = with_crlf t" by (auto simp: uniform_endings_def)
  then show "restoreLineEndings (normalizeToLF s) (detectLineEnding s) = s"
  proof cases
    case 2
    show ?thesis
    proof (cases "10 \<in> set t")
      case True
      with 2 index_of_crlf [of t] have "detectLineEnding s = CrLf" by (auto simp: detectLineEnding_def)
      with 2 show ?thesis by (simp add: normalizeToLF_with_crlf)
    next
      case False
      then have "with_crlf t = t" by (induction t) auto
      with 2 clean [of t] show ?thesis by simp
    qed
  qed (rule clean)
qed

end
