(* ===== verification/File_Tools_Facts.thy ===== *)
theory File_Tools_Facts
  imports File_Tools Edit_Facts Truncate_Facts
begin

text \<open>
  What the file tools promise: an edit keeps every byte of the file that it does not replace, the diff that is shown carries
  true line numbers, reading page by page yields the whole file, and images are encoded without loss.
\<close>

section \<open>Editing a file\<close>

lemma then_result_Inr': "then_result m f = (Inr b, w') \<Longrightarrow> \<exists>a w. m = (Inr a, w) \<and> f a w = (Inr b, w')"
  by (simp add: then_result_Inr)

lemma unless_aborted_Inr: "unless_aborted env f w = (Inr a, w') \<longleftrightarrow> \<not> te_aborted env w \<and> f w = (Inr a, w')"
  by (simp add: unless_aborted_def)

lemma edited_Inr: "(case m of Inl err \<Rightarrow> (Inl (EditFault err), w) | Inr p \<Rightarrow> g p) = (Inr r, w') \<longleftrightarrow> (\<exists>p. m = Inr p \<and> g p = (Inr r, w'))"
  by (cases m) simp_all

lemmas tool_steps = edited_Inr then_result_Inr getOrThrow_Inr edit_access_Inr unless_aborted_Inr

lemma old_side_append: "bom @ old_side ps tail = old_side (case ps of [] \<Rightarrow> [] | (g, x) # qs \<Rightarrow> (bom @ g, x) # qs)
    (if ps = [] then bom @ tail else tail)"
  "bom @ new_side ps tail = new_side (case ps of [] \<Rightarrow> [] | (g, x) # qs \<Rightarrow> (bom @ g, x) # qs) (if ps = [] then bom @ tail else tail)"
  by (cases ps; auto simp: old_side_def new_side_def split: prod.splits)+

lemma restore_sides:
  "restoreLineEndings (old_side ps tail) e
     = old_side (map (\<lambda>(g, x, y). (restoreLineEndings g e, restoreLineEndings x e, restoreLineEndings y e)) ps) (restoreLineEndings tail e)"
  "restoreLineEndings (new_side ps tail) e
     = new_side (map (\<lambda>(g, x, y). (restoreLineEndings g e, restoreLineEndings x e, restoreLineEndings y e)) ps) (restoreLineEndings tail e)"
  by (induction ps) (auto simp: old_side_def new_side_def restoreLineEndings_append)

text \<open>C15 (functional). The edit tool keeps every code unit that it does not replace: when it succeeds, it has written the file
  once; if the lines of the file end uniformly and the old texts are in it, the text written is the text read with each
  old text replaced in place - the byte order mark and all that lies between kept - where old and new texts have the line
  endings of the file.\<close>

theorem edit_tool_keeps_the_rest:
  assumes "edit_execute nfkc diffLines patch env path edits w = (Inr r, w')"
  shows "\<exists>absolutePath raw new w1 w2. te_writeFile env absolutePath new w1 = (Inr (), w2) \<and> w' = w2
    \<and> (\<exists>w0. te_readTextFile env absolutePath w0 = (Inr raw, w1))
    \<and> (uniform_endings (snd (stripBom raw))
        \<and> (\<forall>e \<in> set edits. index_of (normalizeToLF (oldText e)) (normalizeToLF (snd (stripBom raw))) \<noteq> None) \<longrightarrow>
       (\<exists>ps tail ending. raw = fst (stripBom raw) @ old_side ps tail \<and> new = fst (stripBom raw) @ new_side ps tail
         \<and> mset (map snd ps) = mset (map (\<lambda>e. (restoreLineEndings (normalizeToLF (oldText e)) ending,
              restoreLineEndings (normalizeToLF (newText e)) ending)) edits)))"
proof -
  from assms obtain absolutePath raw w0 w1 base new where read: "te_readTextFile env absolutePath w0 = (Inr raw, w1)"
      and edited: "applyEditsToNormalizedContent nfkc (normalizeToLF (snd (stripBom raw))) edits = Inr (base, new)"
      and written: "edit_write diffLines patch env path (length edits) absolutePath base new
        (fst (stripBom raw) @ restoreLineEndings new (detectLineEnding (snd (stripBom raw)))) w1 = (Inr r, w')"
    by (auto simp: edit_execute_def validateEditInput_def in_free_queue_def tool_steps Let_def split_beta
        split: if_split_asm)
  from written have "te_writeFile env absolutePath (fst (stripBom raw) @ restoreLineEndings new (detectLineEnding (snd (stripBom raw)))) w1
      = (Inr (), w')"
    by (auto simp: edit_write_def tool_steps Let_def split_beta)
  moreover have "\<exists>ps tail ending. raw = fst (stripBom raw) @ old_side ps tail
      \<and> fst (stripBom raw) @ restoreLineEndings new (detectLineEnding (snd (stripBom raw))) = fst (stripBom raw) @ new_side ps tail
      \<and> mset (map snd ps) = mset (map (\<lambda>e. (restoreLineEndings (normalizeToLF (oldText e)) ending,
           restoreLineEndings (normalizeToLF (newText e)) ending)) edits)"
    if uniform: "uniform_endings (snd (stripBom raw))"
      and exact: "\<forall>e \<in> set edits. index_of (normalizeToLF (oldText e)) (normalizeToLF (snd (stripBom raw))) \<noteq> None"
  proof -
    let ?e = "detectLineEnding (snd (stripBom raw))"
    let ?f = "\<lambda>(g, x, y). (restoreLineEndings g ?e, restoreLineEndings x ?e, restoreLineEndings y ?e)"
    obtain ps tail where ps: "normalizeToLF (snd (stripBom raw)) = old_side ps tail" "new = new_side ps tail"
        "mset (map snd ps) = mset (map (\<lambda>e. (normalizeToLF (oldText e), normalizeToLF (newText e))) edits)"
      using exact_edit_pieces [OF edited exact] by blast
    have "restoreLineEndings (old_side ps tail) ?e = snd (stripBom raw)"
      using uniform line_endings_restored ps(1) by metis
    moreover have "raw = fst (stripBom raw) @ snd (stripBom raw)" by (simp add: stripBom_def split: list.split)
    ultimately have raw: "raw = fst (stripBom raw) @ old_side (map ?f ps) (restoreLineEndings tail ?e)" by (simp add: restore_sides)
    have "map snd (map ?f ps) = map (\<lambda>(x, y). (restoreLineEndings x ?e, restoreLineEndings y ?e)) (map snd ps)" by auto
    then have "mset (map snd (map ?f ps)) = image_mset (\<lambda>(x, y). (restoreLineEndings x ?e, restoreLineEndings y ?e)) (mset (map snd ps))"
      by (simp only: mset_map)
    also have "\<dots> = mset (map (\<lambda>e. (restoreLineEndings (normalizeToLF (oldText e)) ?e, restoreLineEndings (normalizeToLF (newText e)) ?e)) edits)"
      by (simp only: ps(3) mset_map [symmetric] map_map comp_def prod.case)
    finally show ?thesis using raw by (intro exI conjI) (assumption | simp add: ps(2) restore_sides)+
  qed
  ultimately show ?thesis using read by blast
qed

lemma edit_tool_keeps_the_rest_witness:
  "\<exists>raw. (\<exists>w0 absolutePath. te_readTextFile one_file absolutePath w0 = (Inr raw, jlit ''a'' @ [13, 10] @ jlit ''b''))
    \<and> (\<exists>new w2. te_writeFile one_file (jlit ''f'') new (jlit ''a'' @ [13, 10] @ jlit ''b'') = (Inr (), w2) \<and> w2 = jlit ''x'' @ [13, 10] @ jlit ''b'')"
proof -
  have "edit_execute id (\<lambda>_ _. []) (\<lambda>_ _ _ _. []) one_file (jlit ''f'') [\<lparr>oldText = jlit ''a'', newText = jlit ''x''\<rparr>] (jlit ''a'' @ [13, 10] @ jlit ''b'')
      = (Inr (jlit ''Successfully replaced 1 block(s) in f.'', \<lparr>ed_diff = [], ed_patch = [], ed_firstChangedLine = None\<rparr>),
         jlit ''x'' @ [13, 10] @ jlit ''b'')" by code_simp
  from edit_tool_keeps_the_rest [OF this] show ?thesis by (auto simp: one_file_def)
qed

section \<open>The diff\<close>

fun shows_true :: "jstr list \<Rightarrow> jstr list \<Rightarrow> diff_line \<Rightarrow> bool" where
  "shows_true old new (AddedLine n t) \<longleftrightarrow> 1 \<le> n \<and> n \<le> length new \<and> new ! (n - 1) = t"
| "shows_true old new (RemovedLine n t) \<longleftrightarrow> 1 \<le> n \<and> n \<le> length old \<and> old ! (n - 1) = t"
| "shows_true old new (ContextLine n t) \<longleftrightarrow> 1 \<le> n \<and> n \<le> length old \<and> old ! (n - 1) = t"
| "shows_true old new SkippedLines \<longleftrightarrow> True"

fun added_text :: "diff_line \<Rightarrow> jstr list" where
  "added_text (AddedLine _ t) = [t]"
| "added_text _ = []"

fun removed_text :: "diff_line \<Rightarrow> jstr list" where
  "removed_text (RemovedLine _ t) = [t]"
| "removed_text _ = []"

definition part_lines :: "(diff_part \<Rightarrow> bool) \<Rightarrow> diff_part list \<Rightarrow> jstr list" where
  "part_lines P parts = concat (map (\<lambda>p. raw_lines (dp_value p)) (filter P parts))"

text \<open>The output is true, and the counters stand behind the lines \<open>po\<close> and \<open>pn\<close>.\<close>

definition counts :: "jstr list \<Rightarrow> jstr list \<Rightarrow> jstr list \<Rightarrow> jstr list \<Rightarrow> diff_state \<Rightarrow> bool" where
  "counts old new po pn s \<longleftrightarrow> ds_oldLineNum s = Suc (length po) \<and> ds_newLineNum s = Suc (length pn)
     \<and> (\<forall>d \<in> set (ds_output s). shows_true old new d)"

lemma show_added_facts:
  "counts old new po pn s \<Longrightarrow> new = pn @ raw @ rest \<Longrightarrow> counts old new po (pn @ raw) (show_added raw s)
    \<and> concat (map added_text (ds_output (show_added raw s))) = concat (map added_text (ds_output s)) @ raw
    \<and> concat (map removed_text (ds_output (show_added raw s))) = concat (map removed_text (ds_output s))
    \<and> ds_firstChangedLine (show_added raw s) = ds_firstChangedLine s"
proof (induction raw arbitrary: pn s)
  case (Cons l raw)
  let ?s = "s\<lparr>ds_output := ds_output s @ [AddedLine (ds_newLineNum s) l], ds_newLineNum := Suc (ds_newLineNum s)\<rparr>"
  have "counts old new po (pn @ [l]) ?s" using Cons.prems by (auto simp: counts_def)
  from Cons.IH [OF this] Cons.prems(2) show ?case by simp
qed simp

lemma show_removed_facts:
  "counts old new po pn s \<Longrightarrow> old = po @ raw @ rest \<Longrightarrow> counts old new (po @ raw) pn (show_removed raw s)
    \<and> concat (map added_text (ds_output (show_removed raw s))) = concat (map added_text (ds_output s))
    \<and> concat (map removed_text (ds_output (show_removed raw s))) = concat (map removed_text (ds_output s)) @ raw
    \<and> ds_firstChangedLine (show_removed raw s) = ds_firstChangedLine s"
proof (induction raw arbitrary: po s)
  case (Cons l raw)
  let ?s = "s\<lparr>ds_output := ds_output s @ [RemovedLine (ds_oldLineNum s) l], ds_oldLineNum := Suc (ds_oldLineNum s)\<rparr>"
  have "counts old new (po @ [l]) pn ?s" using Cons.prems by (auto simp: counts_def)
  from Cons.IH [OF this] Cons.prems(2) show ?case by simp
qed simp

text \<open>What context leaves alone.\<close>

definition same_changes :: "diff_state \<Rightarrow> diff_state \<Rightarrow> bool" where
  "same_changes s s' \<longleftrightarrow> concat (map added_text (ds_output s')) = concat (map added_text (ds_output s))
     \<and> concat (map removed_text (ds_output s')) = concat (map removed_text (ds_output s))
     \<and> ds_firstChangedLine s' = ds_firstChangedLine s"

lemma show_context_facts:
  "counts old new po pn s \<Longrightarrow> old = po @ raw @ rest \<Longrightarrow> counts old new (po @ raw) (pn @ raw) (show_context raw s) \<and> same_changes s (show_context raw s)"
proof (induction raw arbitrary: po pn s)
  case (Cons l raw)
  let ?s = "s\<lparr>ds_output := ds_output s @ [ContextLine (ds_oldLineNum s) l], ds_oldLineNum := Suc (ds_oldLineNum s), ds_newLineNum := Suc (ds_newLineNum s)\<rparr>"
  have "counts old new (po @ [l]) (pn @ [l]) ?s" using Cons.prems by (auto simp: counts_def)
  from Cons.IH [OF this] Cons.prems(2) show ?case by (simp add: same_changes_def)
qed (simp add: same_changes_def)

lemma show_skipped_facts:
  "counts old new po pn s \<Longrightarrow> counts old new (po @ raw) (pn @ raw) (show_skipped (length raw) s) \<and> same_changes s (show_skipped (length raw) s)"
  "counts old new po pn s \<Longrightarrow> counts old new (po @ raw) (pn @ raw) (skip_context (length raw) s) \<and> same_changes s (skip_context (length raw) s)"
  by (auto simp: counts_def show_skipped_def skip_context_def same_changes_def)

lemma same_changes_trans: "same_changes s s' \<Longrightarrow> same_changes s' s'' \<Longrightarrow> same_changes s s''"
  by (simp add: same_changes_def)

lemma diff_context_facts:
  assumes "counts old new po pn s" and "old = po @ raw_lines (dp_value part) @ rest"
  shows "counts old new (po @ raw_lines (dp_value part)) (pn @ raw_lines (dp_value part)) (diff_context n nextChange part s)
    \<and> same_changes s (diff_context n nextChange part s)"
proof -
  let ?raw = "raw_lines (dp_value part)"
  have flag: "counts old new a b (t\<lparr>ds_lastWasChange := False\<rparr>) = counts old new a b t"
    "same_changes s (t\<lparr>ds_lastWasChange := False\<rparr>) = same_changes s t" for a b t
    by (simp_all add: counts_def same_changes_def)
  have split: "?raw = take k ?raw @ drop k ?raw" for k by simp
  have shown: "counts old new (po @ take k ?raw) (pn @ take k ?raw) (show_context (take k ?raw) s) \<and> same_changes s (show_context (take k ?raw) s)" for k
    using show_context_facts [OF assms(1), of "take k ?raw" "drop k ?raw @ rest"] assms(2) by simp
  have skipped: "counts old new (po @ take k ?raw) (pn @ take k ?raw) (show_skipped k s) \<and> same_changes s (show_skipped k s)"
    if "k \<le> length ?raw" for k
    using show_skipped_facts(1) [OF assms(1), of "take k ?raw"] that by (simp add: min_absorb2)
  have tail: "counts old new (po @ ?raw) (pn @ ?raw) (show_context (drop k ?raw) t) \<and> same_changes t (show_context (drop k ?raw) t)"
    if "counts old new (po @ take k ?raw) (pn @ take k ?raw) t" for k t
    using show_context_facts [OF that, of "drop k ?raw" rest] assms(2) by simp
  consider (all) "ds_lastWasChange s" "nextChange" "length ?raw \<le> n * 2" | (middle) "ds_lastWasChange s" "nextChange" "\<not> length ?raw \<le> n * 2"
    | (leading) "ds_lastWasChange s" "\<not> nextChange" | (trailing) "\<not> ds_lastWasChange s" "nextChange" | (none) "\<not> ds_lastWasChange s" "\<not> nextChange"
    by blast
  then show ?thesis
  proof cases
    case all
    then show ?thesis using shown [of "length ?raw"] by (simp add: diff_context_def flag)
  next
    case middle
    let ?k = "length ?raw - n"
    define t where "t = show_context (take n ?raw) s"
    define u where "u = show_skipped (length ?raw - n - n) t"
    have t: "counts old new (po @ take n ?raw) (pn @ take n ?raw) t" "same_changes s t" using shown [of n] by (simp_all add: t_def)
    have mid: "take ?k ?raw = take n ?raw @ take (length ?raw - n - n) (drop n ?raw)"
      using middle(3) take_add [of n "length ?raw - n - n" ?raw] by simp
    have "length (take (length ?raw - n - n) (drop n ?raw)) = length ?raw - n - n" by simp
    then have u: "counts old new (po @ take ?k ?raw) (pn @ take ?k ?raw) u" "same_changes t u"
      using show_skipped_facts(1) [OF t(1), of "take (length ?raw - n - n) (drop n ?raw)"] by (simp_all add: mid u_def)
    have lens: "length (take n ?raw) = n" "length (drop ?k ?raw) = n" using middle(3) by simp_all
    have "diff_context n nextChange part s = (show_context (drop ?k ?raw) u)\<lparr>ds_lastWasChange := False\<rparr>"
      using middle by (simp add: diff_context_def Let_def lens t_def u_def)
    moreover have "same_changes s (show_context (drop ?k ?raw) u)"
      by (rule same_changes_trans [OF t(2) same_changes_trans [OF u(2)]]) (use tail [OF u(1)] in blast)
    ultimately show ?thesis using tail [OF u(1)] by (simp only: flag)
  next
    case leading
    let ?k = "length ?raw - length (take n ?raw)"
    define t where "t = show_context (take n ?raw) s"
    have t: "counts old new (po @ take n ?raw) (pn @ take n ?raw) t" "same_changes s t" using shown [of n] by (simp_all add: t_def)
    have eq: "diff_context n nextChange part s = (if ?k > 0 then show_skipped ?k t else t)\<lparr>ds_lastWasChange := False\<rparr>"
      using leading by (simp add: diff_context_def Let_def t_def)
    show ?thesis
    proof (cases "?k > 0")
      case True
      have "length (drop n ?raw) = ?k" by simp
      then have "counts old new (po @ ?raw) (pn @ ?raw) (show_skipped ?k t) \<and> same_changes t (show_skipped ?k t)"
        using show_skipped_facts(1) [OF t(1), of "drop n ?raw"] by (metis append.assoc append_take_drop_id)
      with same_changes_trans [OF t(2)] show ?thesis unfolding eq if_P [OF True] flag by blast
    next
      case False
      then have "take n ?raw = ?raw" by simp
      with t False show ?thesis unfolding eq by (simp only: flag if_False)
    qed
  next
    case trailing
    let ?k = "length ?raw - n"
    have "counts old new (po @ take ?k ?raw) (pn @ take ?k ?raw) (if ?k > 0 then show_skipped ?k s else s)
        \<and> same_changes s (if ?k > 0 then show_skipped ?k s else s)"
      using skipped [of ?k] assms(1) by (auto simp: same_changes_def)
    moreover have "diff_context n nextChange part s
        = (show_context (drop ?k ?raw) (if ?k > 0 then show_skipped ?k s else s))\<lparr>ds_lastWasChange := False\<rparr>"
      using trailing by (simp add: diff_context_def Let_def)
    ultimately show ?thesis using tail [of ?k] by (simp only: flag) (blast intro: same_changes_trans)
  next
    case none
    with show_skipped_facts(2) [OF assms(1), of ?raw] show ?thesis by (simp add: diff_context_def Let_def flag)
  qed
qed

lemma diff_change_facts:
  assumes "counts old new po pn s" and "\<not> (dp_added part \<and> dp_removed part)" and "is_change part"
    and "old = po @ (if dp_added part then [] else raw_lines (dp_value part)) @ rest"
    and "new = pn @ (if dp_removed part then [] else raw_lines (dp_value part)) @ rest'"
  shows "counts old new (po @ (if dp_added part then [] else raw_lines (dp_value part)))
      (pn @ (if dp_removed part then [] else raw_lines (dp_value part))) (diff_change part s)
    \<and> concat (map added_text (ds_output (diff_change part s)))
        = concat (map added_text (ds_output s)) @ (if dp_added part then raw_lines (dp_value part) else [])
    \<and> concat (map removed_text (ds_output (diff_change part s)))
        = concat (map removed_text (ds_output s)) @ (if dp_removed part then raw_lines (dp_value part) else [])
    \<and> ds_firstChangedLine (diff_change part s) = (case ds_firstChangedLine s of None \<Rightarrow> Some (Suc (length pn)) | Some n \<Rightarrow> Some n)"
proof -
  define t where "t = (if ds_firstChangedLine s = None then s\<lparr>ds_firstChangedLine := Some (ds_newLineNum s)\<rparr> else s)"
  have t: "counts old new po pn t" "ds_output t = ds_output s"
      "ds_firstChangedLine t = (case ds_firstChangedLine s of None \<Rightarrow> Some (Suc (length pn)) | Some n \<Rightarrow> Some n)"
    using assms(1) by (auto simp: t_def counts_def)
  have eq: "diff_change part s = (if dp_added part then show_added (raw_lines (dp_value part)) t
      else show_removed (raw_lines (dp_value part)) t)\<lparr>ds_lastWasChange := True\<rparr>"
    by (simp add: diff_change_def t_def Let_def)
  have flag: "counts x y a b (t\<lparr>ds_lastWasChange := True\<rparr>) = counts x y a b t" for x y a b t by (simp add: counts_def)
  show ?thesis
  proof (cases "dp_added part")
    case True
    with assms(2,5) show_added_facts [OF t(1), of "raw_lines (dp_value part)" rest'] t(2,3) show ?thesis
      by (simp add: eq flag)
  next
    case False
    with assms(3) have "dp_removed part" by (simp add: is_change_def)
    with False assms(4) show_removed_facts [OF t(1), of "raw_lines (dp_value part)" rest] t(2,3) show ?thesis
      by (simp add: eq flag)
  qed
qed

abbreviation kept_old :: "diff_part \<Rightarrow> bool" where "kept_old p \<equiv> \<not> dp_added p"
abbreviation kept_new :: "diff_part \<Rightarrow> bool" where "kept_new p \<equiv> \<not> dp_removed p"

text \<open>The first change is reported where the two texts begin to differ in their parts.\<close>

definition first_ok :: "jstr list \<Rightarrow> jstr list \<Rightarrow> jstr list \<Rightarrow> jstr list \<Rightarrow> nat option \<Rightarrow> bool" where
  "first_ok old new po pn f \<longleftrightarrow> (case f of None \<Rightarrow> po = pn | Some n \<Rightarrow> 1 \<le> n \<and> n \<le> Suc (length pn) \<and> take (n - 1) old = take (n - 1) new
     \<and> n \<le> Suc (length po))"

lemma diff_parts_facts:
  "counts old new po pn s \<Longrightarrow> old = po @ part_lines kept_old parts \<Longrightarrow> new = pn @ part_lines kept_new parts \<Longrightarrow>
    \<forall>p \<in> set parts. \<not> (dp_added p \<and> dp_removed p) \<Longrightarrow> first_ok old new po pn (ds_firstChangedLine s) \<Longrightarrow>
    counts old new old new (diff_parts n parts s)
    \<and> concat (map added_text (ds_output (diff_parts n parts s))) = concat (map added_text (ds_output s)) @ part_lines dp_added parts
    \<and> concat (map removed_text (ds_output (diff_parts n parts s))) = concat (map removed_text (ds_output s)) @ part_lines dp_removed parts
    \<and> first_ok old new old new (ds_firstChangedLine (diff_parts n parts s))"
proof (induction parts arbitrary: po pn s)
  case Nil
  then show ?case by (simp add: part_lines_def)
next
  case (Cons p parts)
  let ?raw = "raw_lines (dp_value p)"
  let ?o = "if dp_added p then [] else ?raw" and ?n = "if dp_removed p then [] else ?raw"
  have old: "old = po @ ?o @ part_lines kept_old parts" and new: "new = pn @ ?n @ part_lines kept_new parts"
    using Cons.prems(2,3) by (simp_all add: part_lines_def)
  have old': "old = (po @ ?o) @ part_lines kept_old parts" and new': "new = (pn @ ?n) @ part_lines kept_new parts"
    using old new by simp_all
  show ?case
  proof (cases "is_change p")
    case True
    have single: "\<not> (dp_added p \<and> dp_removed p)" using Cons.prems(4) by simp
    note step = diff_change_facts [OF Cons.prems(1) single True old new]
    have "first_ok old new (po @ ?o) (pn @ ?n) (ds_firstChangedLine (diff_change p s))"
    proof (cases "ds_firstChangedLine s")
      case None
      with Cons.prems(5) have "po = pn" by (simp add: first_ok_def)
      with step None old new show ?thesis by (simp add: first_ok_def)
    next
      case (Some k)
      with Cons.prems(5) step show ?thesis by (simp add: first_ok_def)
    qed
    with Cons.IH [OF _ old' new'] step Cons.prems(4) True single show ?thesis
      by (simp add: part_lines_def is_change_def)
  next
    case False
    then have plain: "\<not> dp_added p" "\<not> dp_removed p" by (simp_all add: is_change_def)
    define t where "t = diff_context n (case parts of [] \<Rightarrow> False | next # _ \<Rightarrow> is_change next) p s"
    have step: "counts old new (po @ ?raw) (pn @ ?raw) t" "same_changes s t"
      unfolding t_def using diff_context_facts [OF Cons.prems(1), of p] old plain by auto
    have "first_ok old new (po @ ?raw) (pn @ ?raw) (ds_firstChangedLine t)"
      using Cons.prems(5) step(2) by (auto simp: first_ok_def same_changes_def split: option.splits)
    with Cons.IH [of "po @ ?raw" "pn @ ?raw" t] step Cons.prems(4) old' new' plain
    have "counts old new old new (diff_parts n parts t)
        \<and> concat (map added_text (ds_output (diff_parts n parts t))) = concat (map added_text (ds_output t)) @ part_lines dp_added parts
        \<and> concat (map removed_text (ds_output (diff_parts n parts t))) = concat (map removed_text (ds_output t)) @ part_lines dp_removed parts
        \<and> first_ok old new old new (ds_firstChangedLine (diff_parts n parts t))" by auto
    moreover have "diff_parts n (p # parts) s = diff_parts n parts t" using False by (simp add: t_def)
    ultimately show ?thesis using step(2) plain by (simp add: same_changes_def part_lines_def)
  qed
qed

text \<open>C21 (safety). The diff that is shown tells the truth: a removed or a context line carries the number that the line has in the
  old text, an added line the number it has in the new text; all added and all removed lines are shown, in their order, whatever is
  skipped between them; and the first changed line has only unchanged lines in front of it, where none is reported only for
  equal texts. The package that computes the parts is assumed to split both texts into their lines.\<close>

theorem diff_shows_true_lines:
  assumes "\<forall>p \<in> set parts. \<not> (dp_added p \<and> dp_removed p)"
    and "part_lines kept_old parts = old" and "part_lines kept_new parts = new"
    and "s = diff_parts contextLines parts new_diff_state"
  shows "(\<forall>d \<in> set (ds_output s). shows_true old new d)
    \<and> concat (map added_text (ds_output s)) = part_lines dp_added parts
    \<and> concat (map removed_text (ds_output s)) = part_lines dp_removed parts
    \<and> (case ds_firstChangedLine s of None \<Rightarrow> old = new
       | Some n \<Rightarrow> 1 \<le> n \<and> n \<le> Suc (length new) \<and> n \<le> Suc (length old) \<and> take (n - 1) old = take (n - 1) new)"
proof -
  have "counts old new [] [] new_diff_state" by (simp add: counts_def new_diff_state_def)
  from diff_parts_facts [OF this _ _ assms(1), of contextLines] assms(2,3) show ?thesis
    unfolding assms(4) by (auto simp: counts_def first_ok_def new_diff_state_def split: option.splits)
qed

definition sample_parts :: "diff_part list" where
  "sample_parts = [\<lparr>dp_value = [97, 10], dp_added = False, dp_removed = False\<rparr>, \<lparr>dp_value = [98, 10], dp_added = False, dp_removed = True\<rparr>,
     \<lparr>dp_value = [99, 10], dp_added = True, dp_removed = False\<rparr>]"

lemma diff_shows_true_lines_witness:
  "list_all (shows_true [[97], [98]] [[97], [99]]) [ContextLine 1 [97], RemovedLine 2 [98], AddedLine 2 [99]]"
proof -
  have "ds_output (diff_parts 4 sample_parts new_diff_state) = [ContextLine 1 [97], RemovedLine 2 [98], AddedLine 2 [99]]"
    by code_simp
  with diff_shows_true_lines [of sample_parts "[[97], [98]]" "[[97], [99]]" _ 4, OF _ _ _ refl] show ?thesis
    by (simp add: sample_parts_def part_lines_def raw_lines_def del: shows_true.simps)
qed

section \<open>Images\<close>

text \<open>The decoder of RFC 4648 for padded text.\<close>

definition base64_value :: "u16 \<Rightarrow> nat option" where
  "base64_value u = (let n = unat u in
     if 65 \<le> n \<and> n \<le> 90 then Some (n - 65) else if 97 \<le> n \<and> n \<le> 122 then Some (n - 71)
     else if 48 \<le> n \<and> n \<le> 57 then Some (n + 4) else if n = 43 then Some 62 else if n = 47 then Some 63 else None)"

fun decodeBase64 :: "jstr \<Rightarrow> bytes option" where
  "decodeBase64 [] = Some []"
| "decodeBase64 (a # b # c # d # s) = (case (base64_value a, base64_value b) of
      (Some x, Some y) \<Rightarrow>
        if c = 61 then if d = 61 \<and> s = [] then Some [word_of_nat (x * 4 + y div 16)] else None
        else (case base64_value c of
            None \<Rightarrow> None
          | Some z \<Rightarrow>
              if d = 61 then if s = [] then Some [word_of_nat (x * 4 + y div 16), word_of_nat (y mod 16 * 16 + z div 4)] else None
              else (case (base64_value d, decodeBase64 s) of
                  (Some w, Some bs) \<Rightarrow> Some (word_of_nat (x * 4 + y div 16) # word_of_nat (y mod 16 * 16 + z div 4) # word_of_nat (z mod 4 * 64 + w) # bs)
                | _ \<Rightarrow> None))
    | _ \<Rightarrow> None)"
| "decodeBase64 _ = None"

lemma base64_value_digit [simp]: "n < 64 \<Longrightarrow> base64_value (base64_digit n) = Some n"
  by (auto simp: base64_value_def base64_digit_def Let_def unat_of_nat)

lemma base64_digit_padding [simp]: "n < 64 \<Longrightarrow> base64_digit n \<noteq> 61"
  using base64_value_digit [of n] by (auto simp: base64_value_def)

lemma byte_div:
  "unat (a :: u8) div 4 < 64" "unat a div 16 < 16" "unat a div 64 < 4"
  using unat_u8_less [of a] by (auto intro!: less_mult_imp_div_less simp del: unat_u8_less)

lemma base64_bounds [simp]:
  "unat (a :: u8) div 4 < 64" "unat a mod 4 * 16 < 64" "unat b mod 16 * 4 < 64" "unat a mod 4 * 16 + unat (b :: u8) div 16 < 64"
  "unat b mod 16 * 4 + unat (c :: u8) div 64 < 64"
proof -
  have "unat a mod 4 \<le> 3" "unat b mod 16 \<le> 15" using less_Suc_eq_le by fastforce+
  then show "unat a mod 4 * 16 < 64" "unat b mod 16 * 4 < 64" "unat a mod 4 * 16 + unat b div 16 < 64" "unat b mod 16 * 4 + unat c div 64 < 64"
    using byte_div(2) [of b] byte_div(3) [of c] by linarith+
qed (rule byte_div)

lemma base64_join [simp]:
  "unat (a :: u8) div 4 * 4 + (unat a mod 4 * 16 + unat (b :: u8) div 16) div 16 = unat a"
  "(unat a mod 4 * 16 + unat b div 16) mod 16 * 16 + unat b mod 16 = unat b"
  "(unat a mod 4 * 16 + unat b div 16) mod 16 * 16 + (unat b mod 16 * 4 + unat (c :: u8) div 64) div 4 = unat b"
  "(unat b mod 16 * 4 + unat c div 64) mod 4 * 64 + unat c mod 64 = unat c"
proof -
  have "(unat a mod 4 * 16 + unat b div 16) div 16 = unat a mod 4" "(unat a mod 4 * 16 + unat b div 16) mod 16 = unat b div 16"
    "(unat b mod 16 * 4 + unat c div 64) div 4 = unat b mod 16" "(unat b mod 16 * 4 + unat c div 64) mod 4 = unat c div 64"
    using byte_div(2) [of b] byte_div(3) [of c] by simp_all
  then show "unat a div 4 * 4 + (unat a mod 4 * 16 + unat b div 16) div 16 = unat a"
    "(unat a mod 4 * 16 + unat b div 16) mod 16 * 16 + unat b mod 16 = unat b"
    "(unat a mod 4 * 16 + unat b div 16) mod 16 * 16 + (unat b mod 16 * 4 + unat c div 64) div 4 = unat b"
    "(unat b mod 16 * 4 + unat c div 64) mod 4 * 64 + unat c mod 64 = unat c"
    by simp_all
qed

text \<open>C22 (roundtrip). Images are attached without loss: the text that stands for a file's bytes consists of groups of four
  characters, and a standard base64 decoder gives exactly those bytes back.\<close>

theorem base64_roundtrip: "decodeBase64 (encodeBase64 bs) = Some bs \<and> length (encodeBase64 bs) = 4 * ((length bs + 2) div 3)"
proof (induction bs rule: encodeBase64.induct)
  case (2 a)
  have "unat a div 4 * 4 + unat a mod 4 * 16 div 16 = unat a" by simp
  then show ?case by simp
next
  case (3 a b)
  have "unat b mod 16 * 4 div 4 = unat b mod 16" by simp
  then show ?case using byte_div(2) [of b] by (simp del: of_nat_add of_nat_mult)
next
  case (4 a b c bs)
  have "length (a # b # c # bs) + 2 = 3 + (length bs + 2)" by simp
  then have "(length (a # b # c # bs) + 2) div 3 = Suc ((length bs + 2) div 3)" by (simp only: div_add_self1)
  moreover have "decodeBase64 (encodeBase64 (a # b # c # bs)) = Some (a # b # c # bs)"
    using 4 byte_div(2) [of b] byte_div(3) [of c] by (simp del: of_nat_add of_nat_mult)
  moreover have "length (encodeBase64 (a # b # c # bs)) = 4 + length (encodeBase64 bs)" by simp
  ultimately show ?case using 4 by (simp only: mult_Suc_right)
qed simp

section \<open>Reading page by page\<close>

lemma split_join_lines: "ls \<noteq> [] \<Longrightarrow> \<forall>l \<in> set ls. c \<notin> set l \<Longrightarrow> split_at c (join_with c ls) = ls"
proof (induction c ls rule: join_with.induct)
  case (2 c l)
  then show ?case by (induction l) auto
next
  case (3 c l l' ls)
  then have "split_at c (join_with c (l' # ls)) = l' # ls" by simp
  moreover have "split_at c (l @ c # xs) = l # split_at c xs" if "c \<notin> set l" for l xs
    using that by (induction l) auto
  ultimately show ?case using 3 by simp
qed simp

lemma counted_lines:
  assumes "ls \<noteq> []" and "\<forall>l \<in> set ls. 10 \<notin> set l"
  shows "splitLinesForCounting (join_with 10 ls) = (if last ls = [] then butlast ls else ls)"
proof (cases "join_with 10 ls = []")
  case True
  with split_join_lines [OF assms] have "ls = [[]]" by simp
  then show ?thesis by (simp add: splitLinesForCounting_def)
next
  case False
  with last_split_at [of 10 "join_with 10 ls"] show ?thesis by (simp add: splitLinesForCounting_def split_join_lines [OF assms])
qed

text \<open>What a reader sees that follows the notices: each page, and the next one from the offset that is offered.\<close>

inductive read_pages :: "bool \<Rightarrow> jstr \<Rightarrow> nat \<Rightarrow> jstr list \<Rightarrow> bool" for runtime content where
  last_page: "read_page runtime content (Some (int offset)) None = Inr (t, NoNotice, d) \<Longrightarrow> read_pages runtime content offset [t]"
| next_page: "read_page runtime content (Some (int offset)) None = Inr (t, ShownLines a b n byLines next, d) \<Longrightarrow>
    read_pages runtime content next ts \<Longrightarrow> read_pages runtime content offset (t # ts)"

inductive_cases read_pagesE: "read_pages runtime content offset ts"

lemma page_cases:
  assumes "k < length (split_at 10 content)" and "\<forall>l \<in> set (split_at 10 content). length (utf8_encode l) \<le> DEFAULT_MAX_BYTES"
  obtains "read_page runtime content (Some (int (Suc k))) None = Inr (join_with 10 (drop k (split_at 10 content)), NoNotice, None)"
  | j a b n byLines d where "0 < j" and "k + j < length (split_at 10 content)"
      and "read_page runtime content (Some (int (Suc k))) None
        = Inr (join_with 10 (take j (drop k (split_at 10 content))), ShownLines a b n byLines (Suc (k + j)), d)"
proof -
  let ?L = "drop k (split_at 10 content)"
  let ?sel = "join_with 10 ?L" and ?options = "\<lparr>to_maxLines = None, to_maxBytes = None\<rparr>"
  let ?r = "truncateHead runtime ?sel ?options" and ?ls = "splitLinesForCounting ?sel"
  have clean: "?L \<noteq> []" "\<forall>l \<in> set ?L. 10 \<notin> set l" using assms(1) split_at_clean in_set_dropD by (force, metis)
  note ls = counted_lines [OF clean]
  have limits: "max_lines ?options = 2000" "max_bytes ?options = DEFAULT_MAX_BYTES"
    by (simp_all add: max_lines_def max_bytes_def DEFAULT_MAX_LINES_def)
  have short: "length (utf8_encode (hd ?ls)) \<le> DEFAULT_MAX_BYTES" if "?ls \<noteq> []"
  proof -
    have "set ?ls \<subseteq> set ?L" unfolding ls by (auto dest: in_set_butlastD)
    with hd_in_set [OF that] have "hd ?ls \<in> set ?L" by blast
    with assms(2) show ?thesis by (auto dest: in_set_dropD)
  qed
  have page: "read_page runtime content (Some (int (Suc k))) None =
      (if tr_firstLineExceedsLimit ?r then Inr ([], LineTooLong (Suc k), Some ?r)
       else if tr_truncated ?r then Inr (tr_text ?r, ShownLines (Suc k) (k + tr_outputLines ?r) (length (split_at 10 content))
         (tr_truncatedBy ?r = Some ByLines) (Suc (k + tr_outputLines ?r)), Some ?r)
       else Inr (tr_text ?r, NoNotice, None))"
    using assms(1) by (simp add: read_page_def start_line_def Let_def)
  note spec = truncateHead_spec [OF refl refl, of runtime ?sel ?options, unfolded limits]
  show thesis
  proof (cases "tr_truncated ?r")
    case False
    then have "\<not> tr_firstLineExceedsLimit ?r" by (auto simp: truncateHead_def Let_def split: if_splits prod.splits)
    with False spec page that(1) show thesis by simp
  next
    case True
    with spec obtain j rest where j: "tr_text ?r = join_with 10 (take j ?ls)" "?sel = tr_text ?r @ rest" "tr_outputLines ?r = j" "j \<le> length ?ls"
        "j \<le> 2000" "length (utf8_encode (tr_text ?r)) \<le> DEFAULT_MAX_BYTES"
        "j < length ?ls \<longrightarrow> j = 2000 \<or> length (utf8_encode (join_with 10 (take (Suc j) ?ls))) > DEFAULT_MAX_BYTES"
      by auto
    have untruncated: "\<not> (length ?ls \<le> 2000 \<and> length (utf8_encode ?sel) \<le> DEFAULT_MAX_BYTES)"
      using True limits by (auto simp: truncateHead_def Let_def utf8ByteLength_eq count_bytes_encode split: if_splits)
    have nonempty: "?ls \<noteq> []"
    proof
      assume "?ls = []"
      then have "?L = [[]]" using ls clean(1) by (cases ?L rule: rev_cases) (auto split: if_splits)
      then have "?sel = []" by simp
      with untruncated show False by (simp add: splitLinesForCounting_def utf8_encode_def)
    qed
    have "j \<noteq> 0"
    proof
      assume "j = 0"
      with j(7) nonempty have "length (utf8_encode (hd ?ls)) > DEFAULT_MAX_BYTES" by (cases ?ls) auto
      with short nonempty show False by simp
    qed
    moreover have fewer: "j < length ?L"
    proof (cases "last ?L = []")
      case True
      with ls j(4) clean(1) show ?thesis by (cases ?L rule: rev_cases) auto
    next
      case False
      then have "?ls = ?L" using ls by simp
      moreover have "j \<noteq> length ?L"
      proof
        assume "j = length ?L"
        with \<open>?ls = ?L\<close> j(1) have "tr_text ?r = ?sel" by simp
        with j(5,6) untruncated \<open>?ls = ?L\<close> \<open>j = length ?L\<close> show False by simp
      qed
      ultimately show ?thesis using j(4) by simp
    qed
    moreover have "take j ?ls = take j ?L" using fewer unfolding ls by (simp add: take_butlast)
    moreover have "\<not> tr_firstLineExceedsLimit ?r"
    proof
      assume "tr_firstLineExceedsLimit ?r"
      then have "length (utf8_encode (hd ?ls)) > DEFAULT_MAX_BYTES"
        using limits by (auto simp: truncateHead_def Let_def utf8ByteLength_eq count_bytes_encode split: if_splits prod.splits)
      with short [OF nonempty] show False by simp
    qed
    ultimately show thesis using that(2) [of j] True page j(1,3) by simp
  qed
qed

text \<open>C20 (liveness). A reader that follows the notices reads the whole file: if no single line is over the byte limit, reading from
  the first line, and again from each offset that a page offers, ends after finitely many pages, every page but the last
  has at least one line, and the pages put together are the text of the file.\<close>

theorem paging_reads_the_whole_file:
  assumes "\<forall>l \<in> set (split_at 10 content). length (utf8_encode l) \<le> DEFAULT_MAX_BYTES"
  shows "\<exists>ts. read_pages runtime content 1 ts \<and> join_with 10 ts = content"
proof -
  let ?L = "split_at 10 content"
  have "\<exists>ts. read_pages runtime content (Suc k) ts \<and> ts \<noteq> [] \<and> join_with 10 ts = join_with 10 (drop k ?L)" if "k < length ?L" for k
    using that
  proof (induction "length ?L - k" arbitrary: k rule: less_induct)
    case less
    show ?case
    proof (rule page_cases [OF less.prems assms, of runtime])
      assume "read_page runtime content (Some (int (Suc k))) None = Inr (join_with 10 (drop k ?L), NoNotice, None)"
      from last_page [OF this] show ?thesis by (intro exI [of _ "[join_with 10 (drop k ?L)]"]) simp
    next
      fix j a b n byLines d
      assume j: "0 < j" "k + j < length ?L"
        and page: "read_page runtime content (Some (int (Suc k))) None = Inr (join_with 10 (take j (drop k ?L)), ShownLines a b n byLines (Suc (k + j)), d)"
      have "length ?L - (k + j) < length ?L - k" using j by linarith
      from less.hyps [OF this j(2)] obtain ts where ts: "read_pages runtime content (Suc (k + j)) ts" "ts \<noteq> []"
          "join_with 10 ts = join_with 10 (drop (k + j) ?L)" by blast
      have "join_with 10 (join_with 10 (take j (drop k ?L)) # ts) = join_with 10 (take j (drop k ?L)) @ 10 # join_with 10 (drop (k + j) ?L)"
        using ts(2,3) by (cases ts) auto
      also have "\<dots> = join_with 10 (take j (drop k ?L) @ drop (k + j) ?L)"
        using j by (subst join_with_append) (auto simp: less.prems)
      also have "take j (drop k ?L) @ drop (k + j) ?L = drop k ?L" by (metis add.commute append_take_drop_id drop_drop)
      finally show ?thesis using next_page [OF page ts(1)] by blast
    qed
  qed
  from this [of 0] show ?thesis by (auto simp: join_split_at)
qed

lemma paging_reads_the_whole_file_witness:
  "\<exists>ts. read_pages True (jlit ''a'' @ [10] @ jlit ''b'') 1 ts \<and> join_with 10 ts = jlit ''a'' @ [10] @ jlit ''b''"
proof -
  have "\<forall>l \<in> set (split_at 10 (jlit ''a'' @ [10] @ jlit ''b'')). length (utf8_encode l) \<le> DEFAULT_MAX_BYTES"
    by (simp add: jlit_def DEFAULT_MAX_BYTES_def utf8_encode_def scalar_bytes_def is_high_def is_low_def)
  from paging_reads_the_whole_file [OF this] show ?thesis .
qed

end
