(* ===== verification/Edit_Errors.thy ===== *)
theory Edit_Errors
  imports File_Tools Edit_Facts Agent_Types
begin

text \<open>
  The failures of the edit tool: why an edit is refused, and that a refused edit leaves the file alone.
\<close>

section \<open>Refusals\<close>

text \<open>
  The text that the edits of a content make, as a specification: the content is cut into pieces with every old text once among
  them and each old text replaced, or, when the edits were matched in the normalised text \<open>base\<close>, its lines are kept but for those that a
  match touches, which are replaced by their normalised text with the old texts replaced.
\<close>

definition edits_make :: "(jstr \<Rightarrow> jstr) \<Rightarrow> jstr \<Rightarrow> edit list \<Rightarrow> jstr \<Rightarrow> bool" where
  "edits_make nfkc content edits new =
     (let es = normalized_edits edits; (fuzzy, base) = replacement_base nfkc content es
      in \<exists>ms. list_all2 (match_of nfkc base) es ms \<and>
        (if fuzzy then \<exists>rs. new = assemble (splitLinesWithEndings content) 0 (map (\<lambda>(a, b, ps, tail). (a, b, new_side ps tail)) rs)
           \<and> ordered_groups 0 (length (splitLinesWithEndings content)) rs
           \<and> (\<forall>(a, b, ps, tail) \<in> set rs. concat (sub_list a b (splitLinesWithEndings base)) = old_side ps tail)
           \<and> (\<Union>(a, b, ps, tail) \<in> set rs. {a..<b}) = {j. \<exists>m \<in> set ms. touches (splitLinesWithEndings base) m j}
           \<and> mset (concat (map (\<lambda>(a, b, ps, tail). map snd ps) rs)) = mset (map (\<lambda>m. (matched_text base m, me_newText m)) ms)
         else \<exists>ps tail. content = old_side ps tail \<and> new = new_side ps tail
           \<and> mset (map snd ps) = mset (map (\<lambda>e. (normalizeToLF (oldText e), normalizeToLF (newText e))) edits)))"

text \<open>What is wrong with the edits of a content, for each error. The text in which the old texts are looked for is the content, or its
  normalised form as soon as one of them needs it. That the text made by edits in the normalised form is the content is said for a
  normalisation that has nothing left to do there.\<close>

definition refused_for :: "(jstr \<Rightarrow> jstr) \<Rightarrow> jstr \<Rightarrow> edit list \<Rightarrow> edit_error \<Rightarrow> bool" where
  "refused_for nfkc content edits err =
     (let es = normalized_edits edits; (fuzzy, base) = replacement_base nfkc content es;
          place = (\<lambda>i. fuzzyFindText nfkc base (oldText (es ! i)))
      in case err of
           EmptyOldText i \<Rightarrow> i < length edits \<and> oldText (edits ! i) = []
         | NotFoundText i \<Rightarrow> i < length edits \<and> index_of (oldText (es ! i)) base = None
             \<and> index_of (normalizeForFuzzyMatch nfkc (oldText (es ! i))) (normalizeForFuzzyMatch nfkc base) = None
         | DuplicateText i n \<Rightarrow> i < length edits \<and> n > 1 \<and> n = countOccurrences nfkc base (oldText (es ! i))
         | OverlappingEdits i j \<Rightarrow> i < length edits \<and> j < length edits \<and> i \<noteq> j \<and> (\<exists>a b. fm_index (place i) = Some a
             \<and> fm_index (place j) = Some b \<and> a \<le> b \<and> b < a + fm_matchLength (place i))
         | NoChange \<Rightarrow> (fuzzy \<longrightarrow> normalizeForFuzzyMatch nfkc base = base) \<longrightarrow> edits_make nfkc content edits content
         | LineCountDiffers \<Rightarrow> fuzzy \<and> length (splitLinesWithEndings content) \<noteq> length (splitLinesWithEndings base)
         | OutsideBase \<Rightarrow> fuzzy \<and> (\<exists>i < length edits. \<exists>a. fm_index (place i) = Some a
             \<and> (length base \<le> a \<or> length base < a + fm_matchLength (place i))))"

lemma replace_crlf_Nil: "replace_crlf s = [] \<longleftrightarrow> s = []"
  by (induction s rule: replace_crlf.induct) auto

lemma check_old_texts_Inl: "check_old_texts k es = Inl err \<Longrightarrow> \<exists>i < length es. err = EmptyOldText (k + i) \<and> oldText (es ! i) = []"
proof (induction es arbitrary: k)
  case (Cons e es)
  show ?case
  proof (cases "oldText e = []")
    case True
    then show ?thesis using Cons.prems by (auto simp: throw_if_def intro!: exI [of _ 0])
  next
    case False
    then have "check_old_texts (Suc k) es = Inl err" using Cons.prems by (simp add: throw_if_def)
    from Cons.IH [OF this] obtain i where "i < length es" "err = EmptyOldText (Suc k + i)" "oldText (es ! i) = []" by blast
    then show ?thesis by (intro exI [of _ "Suc i"]) simp
  qed
qed simp

lemma match_edits_Inl: "match_edits nfkc base k es = Inl err \<Longrightarrow>
   \<exists>i < length es. (err = NotFoundText (k + i) \<and> fm_index (fuzzyFindText nfkc base (oldText (es ! i))) = None) \<or>
     (err = DuplicateText (k + i) (countOccurrences nfkc base (oldText (es ! i))) \<and> countOccurrences nfkc base (oldText (es ! i)) > 1)"
proof (induction es arbitrary: k)
  case (Cons e es)
  show ?case
  proof (cases "match_edits nfkc base (Suc k) es = Inl err \<and> fm_index (fuzzyFindText nfkc base (oldText e)) \<noteq> None
      \<and> \<not> countOccurrences nfkc base (oldText e) > 1")
    case True
    then obtain i where "i < length es" "(err = NotFoundText (Suc k + i) \<and> fm_index (fuzzyFindText nfkc base (oldText (es ! i))) = None) \<or>
     (err = DuplicateText (Suc k + i) (countOccurrences nfkc base (oldText (es ! i))) \<and> countOccurrences nfkc base (oldText (es ! i)) > 1)"
      using Cons.IH by blast
    then show ?thesis by (intro exI [of _ "Suc i"]) simp
  next
    case False
    then show ?thesis using Cons.prems
      by (intro exI [of _ 0]) (auto simp: Let_def try_bind_def split: option.splits if_split_asm sum.split_asm)
  qed
qed simp

lemma match_edits_Inr: "match_edits nfkc base k es = Inr ms \<Longrightarrow> m \<in> set ms \<Longrightarrow>
   \<exists>i < length es. me_editIndex m = k + i \<and> fm_index (fuzzyFindText nfkc base (oldText (es ! i))) = Some (me_matchIndex m)
     \<and> me_matchLength m = fm_matchLength (fuzzyFindText nfkc base (oldText (es ! i)))"
proof (induction es arbitrary: k ms)
  case (Cons e es)
  from Cons.prems(1) obtain ms' index where ms: "match_edits nfkc base (Suc k) es = Inr ms'"
      "fm_index (fuzzyFindText nfkc base (oldText e)) = Some index"
      "ms = \<lparr>me_editIndex = k, me_matchIndex = index, me_matchLength = fm_matchLength (fuzzyFindText nfkc base (oldText e)), me_newText = newText e\<rparr> # ms'"
    by (auto simp: Let_def try_bind_eq_Inr split: option.splits if_split_asm)
  show ?case
  proof (cases "m \<in> set ms'")
    case True
    from Cons.IH [OF ms(1) this] obtain i where "i < length es" "me_editIndex m = Suc k + i"
      "fm_index (fuzzyFindText nfkc base (oldText (es ! i))) = Some (me_matchIndex m)"
      "me_matchLength m = fm_matchLength (fuzzyFindText nfkc base (oldText (es ! i)))" by blast
    then show ?thesis by (intro exI [of _ "Suc i"]) simp
  next
    case False
    then show ?thesis using ms Cons.prems(2) by (intro exI [of _ 0]) simp
  qed
qed simp

lemma match_edits_index: "match_edits nfkc base k es = Inr ms \<Longrightarrow> map me_editIndex ms = [k..<k + length es]"
proof (induction es arbitrary: k ms)
  case (Cons e es)
  then show ?case by (auto simp: Let_def try_bind_eq_Inr upt_conv_Cons simp del: upt_Suc split: option.splits if_split_asm)
qed simp

lemma check_overlap_Inl: "check_overlap ms = Inl err \<Longrightarrow> sorted (map me_matchIndex ms) \<Longrightarrow> distinct (map me_editIndex ms) \<Longrightarrow>
   \<exists>m \<in> set ms. \<exists>m' \<in> set ms. err = OverlappingEdits (me_editIndex m) (me_editIndex m') \<and> me_editIndex m \<noteq> me_editIndex m'
     \<and> me_matchIndex m \<le> me_matchIndex m' \<and> me_matchIndex m' < me_matchIndex m + me_matchLength m"
proof (induction ms rule: check_overlap.induct)
  case (1 a b ms)
  show ?case
  proof (cases "me_matchIndex a + me_matchLength a > me_matchIndex b")
    case True
    then show ?thesis using 1 by (intro bexI [of _ a] bexI [of _ b]) auto
  next
    case False
    then show ?thesis using 1 by fastforce
  qed
qed simp_all

lemma find_start_None: "find_start x i (spans_from k lines) = None \<Longrightarrow> k \<le> x \<Longrightarrow> k + length (concat lines) \<le> x"
proof (induction lines arbitrary: i k)
  case (Cons line lines)
  from Cons.prems have "find_start x (Suc i) (spans_from (k + length line) lines) = None" "k + length line \<le> x"
    by (auto split: if_splits)
  from Cons.IH [OF this] show ?case by simp
qed simp

lemma find_end_None: "find_end x i lines = None \<Longrightarrow> l \<in> set lines \<Longrightarrow> ls_end l < x"
  by (induction x i lines rule: find_end.induct) (auto split: if_splits)

lemma in_drop: "a \<le> k \<Longrightarrow> k < length xs \<Longrightarrow> xs ! k \<in> set (drop a xs)"
  using nth_mem [of "k - a" "drop a xs"] by simp

lemma line_range_errors:
  assumes "getReplacementLineRange (getLineSpans base) m = Inl err"
  shows "err = OutsideBase \<and> (length base \<le> me_matchIndex m \<or> length base < me_matchIndex m + me_matchLength m)"
proof (cases "find_start (me_matchIndex m) 0 (getLineSpans base)")
  case None
  then have "length base \<le> me_matchIndex m" using find_start_None [of _ 0 0 "splitLinesWithEndings base"] by (simp add: getLineSpans_def)
  then show ?thesis using assms None by (simp add: getReplacementLineRange_def)
next
  case (Some a)
  let ?lines = "splitLinesWithEndings base" let ?spans = "getLineSpans base"
  have a: "a < length ?lines" using find_start_Some [OF Some] by (simp add: getLineSpans_def)
  have ended: "find_end (me_matchIndex m + me_matchLength m) a (drop a ?spans) = None" and err: "err = OutsideBase"
    using assms Some by (auto simp: getReplacementLineRange_def split: option.splits)
  let ?k = "length ?lines - 1"
  have k: "?spans ! ?k = \<lparr>ls_start = line_start ?lines ?k, ls_end = line_start ?lines (Suc ?k)\<rparr>"
    using a by (simp add: getLineSpans_def nth_spans)
  have len: "a \<le> ?k" "?k < length ?spans" using a by (simp_all add: getLineSpans_def)
  note in_drop [OF len]
  with find_end_None [OF ended] have "ls_end (?spans ! ?k) < me_matchIndex m + me_matchLength m" by blast
  moreover have "Suc ?k = length ?lines" using a by simp
  ultimately show ?thesis using k err by simp
qed

lemma group_errors: "group_replacements (getLineSpans base) rs groups = Inl err \<Longrightarrow>
    err = OutsideBase \<and> (\<exists>m \<in> set rs. length base \<le> me_matchIndex m \<or> length base < me_matchIndex m + me_matchLength m)"
proof (induction rs arbitrary: groups)
  case (Cons r rs)
  show ?case
  proof (cases "getReplacementLineRange (getLineSpans base) r")
    case (Inl e)
    then show ?thesis using Cons.prems line_range_errors [OF Inl] by simp
  next
    case (Inr range)
    then obtain groups' where "group_replacements (getLineSpans base) rs groups' = Inl err"
      using Cons.prems by (auto split: list.splits if_split_asm prod.splits)
    from Cons.IH [OF this] show ?thesis by auto
  qed
qed simp

lemma outside_errors: "applyReplacementsPreservingUnchangedLines content base (sort_key me_matchIndex ms) = Inl err \<Longrightarrow>
    (err = LineCountDiffers \<and> length (splitLinesWithEndings content) \<noteq> length (splitLinesWithEndings base))
    \<or> (err = OutsideBase \<and> (\<exists>m \<in> set ms. length base \<le> me_matchIndex m \<or> length base < me_matchIndex m + me_matchLength m))"
  by (auto simp: applyReplacementsPreservingUnchangedLines_def Let_def try_bind_def getLineSpans_def [of base, symmetric]
      split: if_split_asm sum.split_asm dest!: group_errors) (simp_all add: getLineSpans_def)

text \<open>What the edits make when they were all placed.\<close>

lemma placed_edits_make:
  assumes "replacement_base nfkc content (normalized_edits edits) = (fuzzy, base)"
    and "match_edits nfkc base 0 (normalized_edits edits) = Inr ms" and "check_overlap (sort_key me_matchIndex ms) = Inr ()"
    and "fuzzy \<longrightarrow> normalizeForFuzzyMatch nfkc base = base"
    and "if fuzzy then applyReplacementsPreservingUnchangedLines content base (sort_key me_matchIndex ms) = Inr new
      else new = applyReplacements base (sort_key me_matchIndex ms) 0"
  shows "edits_make nfkc content edits new"
proof -
  have ms: "list_all2 (match_of nfkc base) (normalized_edits edits) ms" "fits 0 (length base) (sort_key me_matchIndex ms)"
    using placed_edits [OF assms(2,3,1)] assms(4) by simp_all
  show ?thesis
  proof (cases fuzzy)
    case True
    with assms(5) have "applyReplacementsPreservingUnchangedLines content base (sort_key me_matchIndex ms) = Inr new" by simp
    from preserved_lines [OF this ms(2)] ms(1) True assms(1) show ?thesis
      unfolding edits_make_def Let_def by (simp only: prod.case if_True) blast
  next
    case False
    with assms(1) have base: "base = content" by (auto simp: replacement_base_def Let_def split: if_splits)
    have exact: "index_of (normalizeToLF (oldText e)) content \<noteq> None" if "e \<in> set edits" for e
    proof -
      let ?e = "\<lparr>oldText = normalizeToLF (oldText e), newText = normalizeToLF (newText e)\<rparr>"
      have e: "?e \<in> set (normalized_edits edits)" using that by (auto simp: normalized_edits_def)
      with assms(1) False have "\<not> fm_usedFuzzyMatch (fuzzyFindText nfkc content (oldText ?e))"
        by (auto simp: replacement_base_def list_ex_iff Let_def split: if_splits)
      with matched_each [OF assms(2) e] show ?thesis unfolding base by (auto simp: fuzzyFindText_def Let_def split: option.splits)
    qed
    from ms(2) obtain ps tail where ps: "content = old_side ps tail" "new = new_side ps tail"
        "map snd ps = map (\<lambda>m. (matched_text content m, me_newText m)) (sort_key me_matchIndex ms)"
      using replacements_in_place [of 0 content] assms(5) False base unfolding matched_text_def by auto
    have "mset (map snd ps) = mset (map (\<lambda>m. (matched_text content m, me_newText m)) ms)" by (simp add: ps(3))
    also have "map (\<lambda>m. (matched_text content m, me_newText m)) ms
        = map (\<lambda>e. (normalizeToLF (oldText e), normalizeToLF (newText e))) edits"
      unfolding match_texts [OF ms(1) [unfolded base]] using exact by (fastforce simp: normalized_edits_def)
    finally show ?thesis using ps(1,2) ms(1) False assms(1)
      unfolding edits_make_def Let_def by (simp only: prod.case if_False) blast
  qed
qed

lemma refusal:
  assumes "applyEditsToNormalizedContent nfkc content edits = Inl err"
  shows "refused_for nfkc content edits err"
proof -
  let ?es = "normalized_edits edits"
  obtain fuzzy base where base: "replacement_base nfkc content ?es = (fuzzy, base)" by fastforce
  have len: "length ?es = length edits" by (simp add: normalized_edits_def)
  let ?rest = "\<lambda>ms. (let matchedEdits = sort_key me_matchIndex ms in try_bind (check_overlap matchedEdits) (\<lambda>_.
     try_bind (if fuzzy then applyReplacementsPreservingUnchangedLines content base matchedEdits
       else Inr (applyReplacements base matchedEdits 0)) (\<lambda>newContent. if content = newContent then Inl NoChange else Inr (content, newContent))))"
  have all: "try_bind (check_old_texts 0 ?es) (\<lambda>_. try_bind (match_edits nfkc base 0 ?es) ?rest) = Inl err"
    using assms by (simp add: applyEditsToNormalizedContent_def base Let_def)
  show ?thesis
  proof (cases "check_old_texts 0 ?es")
    case (Inl e)
    then obtain i where "i < length edits" "err = EmptyOldText i" "oldText (?es ! i) = []"
      using all check_old_texts_Inl [of 0 ?es e] len by auto
    then show ?thesis by (simp add: refused_for_def normalized_edits_def normalizeToLF_def replace_crlf_Nil)
  next
    case checked: (Inr u)
    show ?thesis
    proof (cases "match_edits nfkc base 0 ?es")
      case (Inl e)
      then have "match_edits nfkc base 0 ?es = Inl err" using all checked by simp
      from match_edits_Inl [OF this] show ?thesis
        by (auto simp: refused_for_def base len Let_def fuzzyFindText_def split: option.splits)
    next
      case (Inr ms)
      let ?sorted = "sort_key me_matchIndex ms"
      show ?thesis
      proof (cases "check_overlap ?sorted")
        case (Inl e)
        have "distinct (map me_editIndex ms)" using match_edits_index [OF Inr] by simp
        then have "distinct (map me_editIndex ?sorted)"
          by (metis distinct_map distinct_sort set_sort)
        moreover have "check_overlap ?sorted = Inl err" using all checked Inr Inl by (simp add: Let_def)
        ultimately obtain m m' where m: "m \<in> set ms" "m' \<in> set ms" "err = OverlappingEdits (me_editIndex m) (me_editIndex m')"
            "me_editIndex m \<noteq> me_editIndex m'" "me_matchIndex m \<le> me_matchIndex m'" "me_matchIndex m' < me_matchIndex m + me_matchLength m"
          using check_overlap_Inl [of ?sorted err] by auto
        show ?thesis using match_edits_Inr [OF Inr m(1)] match_edits_Inr [OF Inr m(2)] m(3-)
          by (auto simp: refused_for_def base len Let_def)
      next
        case passed: (Inr u)
        have finish: "(if fuzzy then applyReplacementsPreservingUnchangedLines content base ?sorted = Inr content
              else content = applyReplacements base ?sorted 0) \<and> err = NoChange
            \<or> fuzzy \<and> applyReplacementsPreservingUnchangedLines content base ?sorted = Inl err"
          using all checked Inr passed by (auto simp: Let_def try_bind_def split: if_split_asm sum.split_asm)
        then show ?thesis
        proof
          assume "fuzzy \<and> applyReplacementsPreservingUnchangedLines content base ?sorted = Inl err"
          then show ?thesis using outside_errors [of content base ms err] match_edits_Inr [OF Inr]
            by (auto simp: refused_for_def base len Let_def) metis+
        next
          assume same: "(if fuzzy then applyReplacementsPreservingUnchangedLines content base ?sorted = Inr content
              else content = applyReplacements base ?sorted 0) \<and> err = NoChange"
          have "check_overlap ?sorted = Inr ()" using passed by simp
          with same placed_edits_make [OF base Inr, of content] show ?thesis by (simp add: refused_for_def base Let_def)
        qed
      qed
    qed
  qed
qed

section \<open>A refused edit leaves the file alone\<close>

text \<open>Looking up paths and reading do not change the world.\<close>

definition reads_only :: "'w tool_env \<Rightarrow> bool" where
  "reads_only env \<longleftrightarrow> (\<forall>p w. snd (te_absolutePath env p w) = w \<and> snd (te_canonicalPath env p w) = w
     \<and> snd (te_fileInfo env p w) = w \<and> snd (te_readTextFile env p w) = w)"

lemma then_result_Inl: "then_result m f = (Inl e, w') \<longleftrightarrow> m = (Inl e, w') \<or> (\<exists>a w. m = (Inr a, w) \<and> f a w = (Inl e, w'))"
  by (cases m; cases "fst m") (auto simp: then_result_def)

lemma getOrThrow_Inl: "getOrThrow r = (Inl e, w) \<longleftrightarrow> (\<exists>err. e = FileFault err \<and> r = (Inl err, w))"
  by (auto simp: getOrThrow_def split: prod.splits sum.splits)

lemma edit_access_Inl: "edit_access r = (Inl e, w) \<longleftrightarrow> (\<exists>err. e = EditAccess err \<and> r = (Inl err, w))"
  by (auto simp: edit_access_def split: prod.splits sum.splits)

lemma unless_aborted_Inl: "unless_aborted env f w = (Inl e, w') \<longleftrightarrow> (if te_aborted env w then e = OperationAborted \<and> w' = w else f w = (Inl e, w'))"
  by (auto simp: unless_aborted_def)

lemma edited_Inl: "(case m of Inl err \<Rightarrow> (Inl (EditFault err), w) | Inr p \<Rightarrow> g p) = (Inl e, w')
    \<longleftrightarrow> (\<exists>x. m = Inl x \<and> e = EditFault x \<and> w' = w) \<or> (\<exists>p. m = Inr p \<and> g p = (Inl e, w'))"
  by (cases m) auto

lemmas failed_steps = then_result_Inl then_result_Inr edit_access_Inl edit_access_Inr unless_aborted_Inl edited_Inl

lemma reads:
  assumes "reads_only env"
  shows "te_absolutePath env p w = (r1, w') \<longleftrightarrow> w' = w \<and> fst (te_absolutePath env p w) = r1"
    "te_canonicalPath env p w = (r1, w') \<longleftrightarrow> w' = w \<and> fst (te_canonicalPath env p w) = r1"
    "te_fileInfo env p w = (r2, w') \<longleftrightarrow> w' = w \<and> fst (te_fileInfo env p w) = r2"
    "te_readTextFile env p w = (r3, w') \<longleftrightarrow> w' = w \<and> fst (te_readTextFile env p w) = r3"
  using assms by (metis reads_only_def prod.collapse prod.inject)+

lemma resolved_reads:
  assumes "reads_only env" "resolveToolPath env p w = (r, w')"
  shows "w' = w \<and> (\<forall>e. r = Inl e \<longrightarrow> (\<exists>f. e = FileFault f))"
  using assms(2) by (auto simp: resolveToolPath_def getOrThrow_def reads [OF assms(1)] split: prod.splits sum.splits)

lemma key_reads:
  assumes "reads_only env" "getMutationQueueKey env p w = (r, w')"
  shows "w' = w \<and> (\<forall>e. r = Inl e \<longrightarrow> (\<exists>f. e = FileFault f))"
  using assms(2) unfolding getMutationQueueKey_def getOrThrow_def
  by (auto simp: reads [OF assms(1)] split: prod.splits sum.splits if_splits)

lemma edit_write_Inl:
  "edit_write diffLines patch env path n p base new final w = (Inl err, w') \<Longrightarrow>
    (err = OperationAborted \<and> w' = w) \<or> (w' = snd (te_writeFile env p final w)
      \<and> (err = OperationAborted \<or> (\<exists>e. err = EditAccess e \<and> fst (te_writeFile env p final w) = Inl e)))"
  by (auto simp: edit_write_def unless_aborted_def then_result_Inl edit_access_Inl edit_access_Inr split_beta Let_def split: if_split_asm)

text \<open>What a failed edit has left behind.\<close>

definition harmless :: "'w tool_env \<Rightarrow> 'w \<Rightarrow> tool_error \<Rightarrow> 'w \<Rightarrow> bool" where
  "harmless env w err w' \<longleftrightarrow> w' = w \<or> (\<exists>p final. w' = snd (te_writeFile env p final w)
     \<and> (err = OperationAborted \<or> (\<exists>e. err = EditAccess e \<and> fst (te_writeFile env p final w) = Inl e)))"

lemma harmless_same: "harmless env w err w"
  by (simp add: harmless_def)

text \<open>C17 (error). A failing edit tool does no harm and tells the truth: it leaves the world as it was, unless the write itself failed or the
  call was aborted behind it; and when an edit is refused, the reason that is given holds for the text that was read.\<close>

theorem failed_edit_leaves_the_file:
  assumes "reads_only env"
    and "edit_execute nfkc diffLines patch env path edits w = (Inl err, w')"
  shows "harmless env w err w' \<and> (\<forall>fault. err = EditFault fault \<longrightarrow> (\<exists>p raw. w' = w \<and> te_readTextFile env p w = (Inr raw, w)
    \<and> refused_for nfkc (normalizeToLF (snd (stripBom raw))) edits fault))"
proof -
  note reads = reads [OF assms(1)]
  have written: "harmless env w e w2 \<and> (\<forall>fault. e \<noteq> EditFault fault)"
    if "edit_write diffLines patch env path n p base new final w = (Inl e, w2)" for n p base new final e w2
    using edit_write_Inl [OF that] unfolding harmless_def by auto
  have body: ?thesis if "unless_aborted env (\<lambda>w.
     then_result (edit_access (te_fileInfo env p w)) (\<lambda>kind w.
     if kind \<noteq> FileKind \<and> kind \<noteq> SymlinkKind then (Inl NotAFile, w)
     else then_result (edit_access (te_readTextFile env p w)) (\<lambda>raw. unless_aborted env (\<lambda>w.
       let (bom, content) = stripBom raw; originalEnding = detectLineEnding content; normalizedContent = normalizeToLF content
       in case applyEditsToNormalizedContent nfkc normalizedContent edits of
            Inl err \<Rightarrow> (Inl (EditFault err), w)
          | Inr (baseContent, newContent) \<Rightarrow> edit_write diffLines patch env path (length edits) p
              baseContent newContent (bom @ restoreLineEndings newContent originalEnding) w)))) w = (Inl err, w')" for p
    using that unfolding Let_def split_beta failed_steps
    by (auto simp: failed_steps reads harmless_same split: if_split_asm dest!: written refusal)
  show ?thesis
  proof (cases "edits = []")
    case True
    then show ?thesis using assms(2) by (auto simp: edit_execute_def validateEditInput_def harmless_same)
  next
    case False
    obtain r where resolved: "resolveToolPath env path w = (r, w)" using resolved_reads [OF assms(1)] by (metis prod.collapse)
    show ?thesis
    proof (cases r)
      case (Inl e)
      then show ?thesis using False assms(2) resolved resolved_reads [OF assms(1) resolved]
        by (auto simp: edit_execute_def validateEditInput_def harmless_same)
    next
      case (Inr p)
      obtain k where key: "getMutationQueueKey env p w = (k, w)" using key_reads [OF assms(1)] by (metis prod.collapse)
      then show ?thesis
      proof (cases k)
        case (Inl e)
        then show ?thesis using False assms(2) resolved Inr key key_reads [OF assms(1) key]
          by (auto simp: edit_execute_def validateEditInput_def in_free_queue_def harmless_same)
      next
        case (Inr _)
        show ?thesis using False assms(2) resolved \<open>r = Inr p\<close> key Inr
          by (intro body [of p]) (simp add: edit_execute_def validateEditInput_def in_free_queue_def)
      qed
    qed
  qed
qed

definition sample_file :: jstr where
  "sample_file = jlit ''a'' @ [10] @ jlit ''b''"

theorem failed_edit_leaves_the_file_witness:
  "refused_for id sample_file [\<lparr>oldText = jlit ''c'', newText = []\<rparr>] (NotFoundText 0)"
proof -
  have "edit_execute id (\<lambda>_ _. []) (\<lambda>_ _ _ _. []) one_file (jlit ''f'') [\<lparr>oldText = jlit ''c'', newText = []\<rparr>] sample_file
      = (Inl (EditFault (NotFoundText 0)), sample_file)" by code_simp
  moreover have "reads_only one_file" by (simp add: reads_only_def one_file_def)
  moreover have "normalizeToLF (snd (stripBom sample_file)) = sample_file" by code_simp
  ultimately show ?thesis using failed_edit_leaves_the_file [of one_file id] by (fastforce simp: one_file_def)
qed

end
