(* ===== verification/Mutation_Queue.thy ===== *)
theory Mutation_Queue
  imports File_Tools
begin

text \<open>
  Several tools at once on the files of one environment (\<open>packages/agent/src/harness/tools/file-mutation-queue.ts\<close>). The promises of
  the code are the phases of a call; an event is what the host may do next: a tool calls \<open>withFileMutationQueue\<close>, a
  registration finds its key, a call that waited starts its body, a body reads its file, a body ends. The host chooses the
  order of the events. A body reads the file of its key and then writes it, or throws (\<open>None\<close>).
\<close>

section \<open>Calls and events\<close>

text \<open>A queued call knows the call whose \<open>chainedQueue\<close> it waits for, if there is one; a running one knows what it has read.\<close>

datatype 'c call_phase =
    Registering
  | Queued jstr "nat option"
  | Running jstr "'c option"
  | Finished jstr
  | Refused tool_error

record 'c mutation_call =
  mc_phase :: "'c call_phase"
  mc_body :: "'c \<Rightarrow> 'c option"

record 'c queue_state =
  qs_calls :: "'c mutation_call list"
  qs_queues :: "jstr \<rightharpoonup> nat"
  qs_files :: "jstr \<Rightarrow> 'c"

datatype 'c queue_event =
    Call "'c \<Rightarrow> 'c option"
  | Register nat "tool_error + jstr"
  | Start nat
  | ReadFile nat
  | EndBody nat

definition phase_of :: "'c queue_state \<Rightarrow> nat \<Rightarrow> 'c call_phase" where
  "phase_of s t = mc_phase (qs_calls s ! t)"

definition set_phase :: "nat \<Rightarrow> 'c call_phase \<Rightarrow> 'c queue_state \<Rightarrow> 'c queue_state" where
  "set_phase t p s = s\<lparr>qs_calls := (qs_calls s)[t := (qs_calls s ! t)\<lparr>mc_phase := p\<rparr>]\<rparr>"

text \<open>A call: its registration is chained behind those of all earlier calls, refused ones included.\<close>

definition enter_call :: "('c \<Rightarrow> 'c option) \<Rightarrow> 'c queue_state \<Rightarrow> 'c queue_state" where
  "enter_call fn s = s\<lparr>qs_calls := qs_calls s @ [\<lparr>mc_phase = Registering, mc_body = fn\<rparr>]\<rparr>"

definition may_register :: "'c queue_state \<Rightarrow> nat \<Rightarrow> bool" where
  "may_register s t \<longleftrightarrow> t < length (qs_calls s) \<and> phase_of s t = Registering \<and> (\<forall>i \<in> set [0..<t]. phase_of s i \<noteq> Registering)"

text \<open>The registration, when \<open>getMutationQueueKey\<close> has an answer.\<close>

definition register_call :: "nat \<Rightarrow> tool_error + jstr \<Rightarrow> 'c queue_state \<Rightarrow> 'c queue_state" where
  "register_call t answer s = (case answer of
      Inl err \<Rightarrow> set_phase t (Refused err) s
    | Inr key \<Rightarrow> (set_phase t (Queued key (qs_queues s key)) s)\<lparr>qs_queues := (qs_queues s)(key \<mapsto> t)\<rparr>)"

text \<open>The promise \<open>chainedQueue\<close> of a call has settled: the call has released it, for which it had to wait for its own
  \<open>currentQueue\<close>.\<close>

definition chain_settled :: "'c queue_state \<Rightarrow> nat option \<Rightarrow> bool" where
  "chain_settled s chain = (case chain of None \<Rightarrow> True | Some i \<Rightarrow> (case phase_of s i of Finished _ \<Rightarrow> True | _ \<Rightarrow> False))"

text \<open>The end of a body: \<open>releaseNext\<close>, and the entry of the map is deleted if it is still the call's own.\<close>

definition release_call :: "nat \<Rightarrow> jstr \<Rightarrow> 'c queue_state \<Rightarrow> 'c queue_state" where
  "release_call t key s =
     (let s = set_phase t (Finished key) s
      in if qs_queues s key = Some t then s\<lparr>qs_queues := (qs_queues s)(key := None)\<rparr> else s)"

text \<open>\<open>Inl ()\<close>: the host cannot do that now.\<close>

fun queue_step :: "'c queue_event \<Rightarrow> 'c queue_state \<Rightarrow> unit + 'c queue_state" where
  "queue_step (Call fn) s = Inr (enter_call fn s)"
| "queue_step (Register t answer) s = (if may_register s t then Inr (register_call t answer s) else Inl ())"
| "queue_step (Start t) s = (if t < length (qs_calls s) then
     case phase_of s t of
       Queued key chain \<Rightarrow> if chain_settled s chain then Inr (set_phase t (Running key None) s) else Inl ()
     | _ \<Rightarrow> Inl () else Inl ())"
| "queue_step (ReadFile t) s = (if t < length (qs_calls s) then
     case phase_of s t of
       Running key None \<Rightarrow> Inr (set_phase t (Running key (Some (qs_files s key))) s)
     | _ \<Rightarrow> Inl () else Inl ())"
| "queue_step (EndBody t) s = (if t < length (qs_calls s) then
     case phase_of s t of
       Running key (Some content) \<Rightarrow> Inr (release_call t key (case mc_body (qs_calls s ! t) content of
           None \<Rightarrow> s
         | Some new \<Rightarrow> s\<lparr>qs_files := (qs_files s)(key := new)\<rparr>))
     | _ \<Rightarrow> Inl () else Inl ())"

definition new_mutation_queue :: "(jstr \<Rightarrow> 'c) \<Rightarrow> 'c queue_state" where
  "new_mutation_queue files = \<lparr>qs_calls = [], qs_queues = Map.empty, qs_files = files\<rparr>"

section \<open>The invariant\<close>

fun key_of :: "'c call_phase \<Rightarrow> jstr option" where
  "key_of (Queued key _) = Some key"
| "key_of (Running key _) = Some key"
| "key_of (Finished key) = Some key"
| "key_of _ = None"

definition has_key :: "'c queue_state \<Rightarrow> jstr \<Rightarrow> nat \<Rightarrow> bool" where
  "has_key s key i \<longleftrightarrow> i < length (qs_calls s) \<and> key_of (phase_of s i) = Some key"

definition finished_before :: "'c queue_state \<Rightarrow> jstr \<Rightarrow> nat \<Rightarrow> bool" where
  "finished_before s key t \<longleftrightarrow> (\<forall>i<t. has_key s key i \<longrightarrow> phase_of s i = Finished key)"

text \<open>What the phase of a call says about the calls before it.\<close>

definition phase_ok :: "'c queue_state \<Rightarrow> nat \<Rightarrow> bool" where
  "phase_ok s t \<longleftrightarrow> (case phase_of s t of
      Registering \<Rightarrow> True
    | Queued key None \<Rightarrow> finished_before s key t
    | Queued key (Some p) \<Rightarrow> p < t \<and> has_key s key p \<and> (\<forall>i. p < i \<and> i < t \<longrightarrow> \<not> has_key s key i)
    | Running key held \<Rightarrow> finished_before s key t \<and> held \<in> {None, Some (qs_files s key)}
    | Finished key \<Rightarrow> finished_before s key t
    | Refused _ \<Rightarrow> True)"

definition chain_key_ok :: "'c queue_state \<Rightarrow> jstr \<Rightarrow> bool" where
  "chain_key_ok s key \<longleftrightarrow> (case qs_queues s key of
      None \<Rightarrow> finished_before s key (length (qs_calls s))
    | Some t \<Rightarrow> has_key s key t \<and> phase_of s t \<noteq> Finished key \<and> (\<forall>i. t < i \<longrightarrow> \<not> has_key s key i))"

definition chain_ok :: "'c queue_state \<Rightarrow> bool" where
  "chain_ok s \<longleftrightarrow> (\<forall>key. chain_key_ok s key)"

definition order_ok :: "'c queue_state \<Rightarrow> bool" where
  "order_ok s \<longleftrightarrow> (\<forall>i j. i < j \<and> j < length (qs_calls s) \<and> phase_of s i = Registering \<longrightarrow> phase_of s j = Registering)"

text \<open>The file of a key: the bodies of its finished calls, carried out in the order of the calls.\<close>

definition run_body :: "('c \<Rightarrow> 'c option) \<Rightarrow> 'c \<Rightarrow> 'c" where
  "run_body fn content = (case fn content of None \<Rightarrow> content | Some new \<Rightarrow> new)"

definition finished_bodies :: "'c queue_state \<Rightarrow> jstr \<Rightarrow> ('c \<Rightarrow> 'c option) list" where
  "finished_bodies s key = map mc_body (filter (\<lambda>c. case mc_phase c of Finished k \<Rightarrow> k = key | _ \<Rightarrow> False) (qs_calls s))"

definition serial_content :: "(jstr \<Rightarrow> 'c) \<Rightarrow> 'c queue_state \<Rightarrow> jstr \<Rightarrow> 'c" where
  "serial_content files s key = fold run_body (finished_bodies s key) (files key)"

definition queue_ok :: "(jstr \<Rightarrow> 'c) \<Rightarrow> 'c queue_state \<Rightarrow> bool" where
  "queue_ok files s \<longleftrightarrow> (\<forall>t < length (qs_calls s). phase_ok s t) \<and> chain_ok s \<and> order_ok s \<and> (\<forall>key. qs_files s key = serial_content files s key)"

lemma calls_set_phase [simp]: "length (qs_calls (set_phase t p s)) = length (qs_calls s)"
  "qs_queues (set_phase t p s) = qs_queues s" "qs_files (set_phase t p s) = qs_files s"
  by (simp_all add: set_phase_def)

lemma phase_set_phase: "t < length (qs_calls s) \<Longrightarrow> phase_of (set_phase t p s) i = (if i = t then p else phase_of s i)"
  by (simp add: phase_of_def set_phase_def nth_list_update)

lemma phase_enter_call: "i < length (qs_calls s) \<Longrightarrow> phase_of (enter_call fn s) i = phase_of s i"
  "phase_of (enter_call fn s) (length (qs_calls s)) = Registering"
  by (simp_all add: phase_of_def enter_call_def nth_append)

lemma has_key_set_phase: "t < length (qs_calls s) \<Longrightarrow> has_key (set_phase t p s) key i \<longleftrightarrow> (if i = t then key_of p = Some key else has_key s key i)"
  by (auto simp: has_key_def phase_set_phase)

lemma phase_ok_frame:
  assumes "phase_ok s t" "phase_of s' t = phase_of s t"
    and "\<And>key i. i < t \<Longrightarrow> has_key s' key i \<longleftrightarrow> has_key s key i"
    and "\<And>key i. i < t \<Longrightarrow> phase_of s i = Finished key \<Longrightarrow> phase_of s' i = Finished key"
    and "\<And>key c. phase_of s t = Running key (Some c) \<Longrightarrow> qs_files s' key = qs_files s key"
  shows "phase_ok s' t"
proof -
  have "finished_before s' key t" if "finished_before s key t" for key
    using that assms(3,4) by (auto simp: finished_before_def)
  then show ?thesis using assms by (auto simp: phase_ok_def split: call_phase.splits option.splits)
qed

lemma split_calls:
  assumes "t < length (qs_calls s)"
  obtains before c after where "qs_calls s = before @ c # after" "length before = t"
proof
  show "qs_calls s = take t (qs_calls s) @ qs_calls s ! t # drop (Suc t) (qs_calls s)" by (rule id_take_nth_drop [OF assms])
qed (use assms in simp)

lemma finished_bodies_same:
  assumes "t < length (qs_calls s)" "\<And>key. phase_of s t \<noteq> Finished key" "\<And>key. p \<noteq> Finished key"
  shows "finished_bodies (set_phase t p s) key = finished_bodies s key"
proof -
  obtain before c after where calls: "qs_calls s = before @ c # after" "length before = t" using split_calls assms(1) by blast
  moreover have "\<not> (case p of Finished k \<Rightarrow> k = key | _ \<Rightarrow> False)" "\<not> (case mc_phase c of Finished k \<Rightarrow> k = key | _ \<Rightarrow> False)"
    using assms(2) [of key] assms(3) [of key] calls by (auto simp: phase_of_def split: call_phase.splits)
  ultimately show ?thesis by (auto simp: finished_bodies_def set_phase_def)
qed

lemma finished_bodies_end:
  assumes t: "t < length (qs_calls s)" and now: "phase_of s t = Running key held"
    and later: "\<And>i. t < i \<Longrightarrow> i < length (qs_calls s) \<Longrightarrow> phase_of s i \<noteq> Finished key"
  shows "finished_bodies (set_phase t (Finished key) s) k =
    (if k = key then finished_bodies s k @ [mc_body (qs_calls s ! t)] else finished_bodies s k)"
proof -
  obtain before c after where calls: "qs_calls s = before @ c # after" "length before = t" using split_calls t by blast
  have "mc_phase d \<noteq> Finished key" if "d \<in> set after" for d
  proof -
    obtain i where "i < length after" "d = after ! i" using \<open>d \<in> set after\<close> by (auto simp: in_set_conv_nth)
    then show ?thesis using later [of "Suc t + i"] calls by (simp add: phase_of_def nth_append)
  qed
  then have "filter (\<lambda>c. case mc_phase c of Finished k' \<Rightarrow> k' = key | _ \<Rightarrow> False) after = []"
    by (auto simp: filter_empty_conv split: call_phase.splits)
  then show ?thesis using now calls by (auto simp: finished_bodies_def set_phase_def phase_of_def)
qed

text \<open>Starting, reading and ending do not change the key of a call, and a registration changes only its own.\<close>

lemma has_key_same: "t < length (qs_calls s) \<Longrightarrow> key_of p = key_of (phase_of s t) \<Longrightarrow> has_key (set_phase t p s) key i \<longleftrightarrow> has_key s key i"
  by (cases "i = t") (simp_all add: has_key_def phase_set_phase)

lemma phase_ok_other:
  assumes "phase_ok s i" "t < length (qs_calls s)" "i \<noteq> t" "key_of p = key_of (phase_of s t)"
    and "\<And>key. phase_of s t \<noteq> Finished key"
  shows "phase_ok (set_phase t p s) i"
  using assms(2-) by (intro phase_ok_frame [OF assms(1)]) (auto simp: phase_set_phase has_key_same)

lemma order_ok_set:
  assumes t: "t < length (qs_calls s)" and ok: "order_ok s" and p: "p \<noteq> Registering"
    and first: "phase_of s t \<noteq> Registering \<or> may_register s t"
  shows "order_ok (set_phase t p s)"
proof -
  have "i \<noteq> t \<and> j \<noteq> t \<and> phase_of s j = Registering" if "i < j" "j < length (qs_calls s)" "phase_of (set_phase t p s) i = Registering" for i j
  proof -
    have i: "i \<noteq> t" "phase_of s i = Registering" using that(3) p by (auto simp: phase_set_phase [OF t] split: if_splits)
    then have j: "phase_of s j = Registering" using ok that unfolding order_ok_def by blast
    then have "j \<noteq> t" using first i that(1) by (auto simp: may_register_def)
    then show ?thesis using i j by simp
  qed
  then show ?thesis unfolding order_ok_def by (metis calls_set_phase(1) phase_set_phase [OF t])
qed

lemma ok_more_files: "phase_of (s\<lparr>qs_files := f\<rparr>) = phase_of s" "has_key (s\<lparr>qs_files := f\<rparr>) = has_key s"
  "phase_of (s\<lparr>qs_queues := q\<rparr>) = phase_of s" "has_key (s\<lparr>qs_queues := q\<rparr>) = has_key s"
  by (auto simp: phase_of_def has_key_def fun_eq_iff)

lemma ok_more_queues: "phase_ok (s\<lparr>qs_queues := q\<rparr>) t \<longleftrightarrow> phase_ok s t" "order_ok (s\<lparr>qs_queues := q\<rparr>) \<longleftrightarrow> order_ok s"
  "serial_content files (s\<lparr>qs_queues := q\<rparr>) key = serial_content files s key"
  by (simp_all add: phase_ok_def order_ok_def serial_content_def finished_bodies_def finished_before_def ok_more_files split: call_phase.split option.split)

lemma finished_before_same:
  "t < length (qs_calls s) \<Longrightarrow> key_of p = key_of (phase_of s t) \<Longrightarrow> (\<And>key. phase_of s t \<noteq> Finished key)
    \<Longrightarrow> finished_before s key i \<Longrightarrow> finished_before (set_phase t p s) key i"
  by (auto simp: finished_before_def has_key_same phase_set_phase)

lemma chain_ok_set:
  assumes "chain_ok s" "t < length (qs_calls s)" "key_of p = key_of (phase_of s t)" "\<And>key. phase_of s t \<noteq> Finished key"
    "\<And>key. p \<noteq> Finished key"
  shows "chain_ok (set_phase t p s)"
  unfolding chain_ok_def
proof
  fix key
  have "chain_key_ok s key" using assms(1) by (simp add: chain_ok_def)
  then show "chain_key_ok (set_phase t p s) key" using finished_before_same [OF assms(2-4)] assms(2-)
    by (auto simp: chain_key_ok_def has_key_same phase_set_phase split: option.splits)
qed

text \<open>A step of a call that neither registers nor ends.\<close>

lemma queue_ok_progress:
  assumes "queue_ok files s" "t < length (qs_calls s)" "phase_ok (set_phase t p s) t" "key_of p = key_of (phase_of s t)"
    and "p \<noteq> Registering" "phase_of s t \<noteq> Registering" "\<And>key. phase_of s t \<noteq> Finished key" "\<And>key. p \<noteq> Finished key"
  shows "queue_ok files (set_phase t p s)"
proof -
  have "phase_ok (set_phase t p s) i" if "i < length (qs_calls s)" for i
    using assms that phase_ok_other [of s i t p] by (cases "i = t") (auto simp: queue_ok_def)
  moreover have "chain_ok (set_phase t p s)" using assms by (intro chain_ok_set) (auto simp: queue_ok_def)
  moreover have "order_ok (set_phase t p s)" using assms by (intro order_ok_set) (auto simp: queue_ok_def)
  moreover have "serial_content files (set_phase t p s) key = serial_content files s key" for key
    using assms by (simp add: serial_content_def finished_bodies_same)
  ultimately show ?thesis using assms(1) by (simp add: queue_ok_def)
qed

lemma queue_ok_start:
  assumes "queue_ok files s" "t < length (qs_calls s)" "phase_of s t = Queued key chain" "chain_settled s chain"
  shows "queue_ok files (set_phase t (Running key None) s)"
proof -
  have ok: "phase_ok s i" if "i < length (qs_calls s)" for i using assms(1) that by (simp add: queue_ok_def)
  have "finished_before s key t"
  proof (cases chain)
    case None
    then show ?thesis using ok [of t] assms by (simp add: phase_ok_def)
  next
    case (Some p)
    then have p: "p < t" "has_key s key p" "\<And>i. p < i \<Longrightarrow> i < t \<Longrightarrow> \<not> has_key s key i" using ok [of t] assms by (auto simp: phase_ok_def)
    have ended: "phase_of s p = Finished key"
      using Some assms(4) p(2) by (auto simp: chain_settled_def has_key_def split: call_phase.splits)
    then have "finished_before s key p" using ok [of p] p(1) assms(2) by (simp add: phase_ok_def)
    then show ?thesis using p ended unfolding finished_before_def by (metis linorder_neqE_nat)
  qed
  then show ?thesis using assms
    by (intro queue_ok_progress) (auto simp: phase_ok_def phase_set_phase intro!: finished_before_same)
qed

lemma queue_ok_read:
  assumes "queue_ok files s" "t < length (qs_calls s)" "phase_of s t = Running key held"
  shows "queue_ok files (set_phase t (Running key (Some (qs_files s key))) s)"
proof -
  have "finished_before s key t" using assms by (auto simp: queue_ok_def phase_ok_def dest!: spec [of _ t])
  then show ?thesis using assms
    by (intro queue_ok_progress) (auto simp: phase_ok_def phase_set_phase intro!: finished_before_same)
qed

lemma queue_ok_refuse:
  assumes "queue_ok files s" "may_register s t"
  shows "queue_ok files (set_phase t (Refused err) s)"
proof -
  have t: "t < length (qs_calls s)" "phase_of s t = Registering" using assms(2) by (auto simp: may_register_def)
  have "phase_ok (set_phase t (Refused err) s) i" if "i < length (qs_calls s)" for i
    using assms t that phase_ok_other [of s i t "Refused err"] by (cases "i = t") (auto simp: queue_ok_def phase_ok_def phase_set_phase)
  moreover have "chain_ok (set_phase t (Refused err) s)" using assms t by (intro chain_ok_set) (auto simp: queue_ok_def)
  moreover have "order_ok (set_phase t (Refused err) s)" using assms t by (intro order_ok_set) (auto simp: queue_ok_def)
  moreover have "serial_content files (set_phase t (Refused err) s) key = serial_content files s key" for key
    using t by (simp add: serial_content_def finished_bodies_same)
  ultimately show ?thesis using assms(1) by (simp add: queue_ok_def)
qed

lemma queue_ok_register:
  assumes ok: "queue_ok files s" and may: "may_register s t"
  shows "queue_ok files (register_call t (Inr key) s)"
proof -
  let ?s = "set_phase t (Queued key (qs_queues s key)) s"
  have t: "t < length (qs_calls s)" "phase_of s t = Registering" using may by (auto simp: may_register_def)
  have later: "phase_of s i = Registering" if "t < i" "i < length (qs_calls s)" for i
    using ok t that by (auto simp: queue_ok_def order_ok_def)
  have none: "\<not> has_key s k i" if "t \<le> i" for k i
    using later [of i] t that by (cases "i = t") (auto simp: has_key_def)
  have has: "has_key ?s k i \<longleftrightarrow> (if i = t then k = key else has_key s k i)" for k i
    using t by (auto simp: has_key_set_phase)
  have chain: "chain_key_ok s k" for k using ok by (simp add: queue_ok_def chain_ok_def)
  have phases: "phase_ok ?s i" if "i < length (qs_calls s)" for i
  proof (cases i t rule: linorder_cases)
    case less
    have "phase_ok s i" using ok that by (simp add: queue_ok_def)
    then show ?thesis
    proof (rule phase_ok_frame)
      show "has_key ?s k j \<longleftrightarrow> has_key s k j" if "j < i" for k j using less that by (simp add: has)
    qed (use less t in \<open>auto simp: phase_set_phase\<close>)
  next
    case equal
    show ?thesis
    proof (cases "qs_queues s key")
      case None
      then have "finished_before s key (length (qs_calls s))" using chain [of key] by (simp add: chain_key_ok_def)
      then have "finished_before ?s key t" using t by (auto simp: finished_before_def has phase_set_phase)
      then show ?thesis using None equal t by (simp add: phase_ok_def phase_set_phase)
    next
      case (Some u)
      then have u: "has_key s key u" "\<forall>i. u < i \<longrightarrow> \<not> has_key s key i" using chain [of key] by (simp_all add: chain_key_ok_def)
      then have "u < t" using none [of u key] by (meson not_le)
      then show ?thesis using Some u equal t by (auto simp: phase_ok_def phase_set_phase has_key_set_phase)
    qed
  next
    case greater
    then show ?thesis using later [OF greater that] t by (simp add: phase_ok_def phase_set_phase)
  qed
  have "chain_ok (?s\<lparr>qs_queues := (qs_queues s)(key \<mapsto> t)\<rparr>)"
    unfolding chain_ok_def
  proof
    fix k
    show "chain_key_ok (?s\<lparr>qs_queues := (qs_queues s)(key \<mapsto> t)\<rparr>) k"
    proof (cases "k = key")
      case True
      then show ?thesis using t none [of _ key] by (auto simp: chain_key_ok_def ok_more_files has phase_set_phase)
    next
      case False
      then show ?thesis using t chain [of k] none [of t k] none [of _ k]
        by (auto simp: chain_key_ok_def ok_more_files has phase_set_phase finished_before_def split: option.splits)
    qed
  qed
  moreover have "order_ok ?s" using ok t may by (intro order_ok_set) (auto simp: queue_ok_def)
  moreover have "serial_content files ?s k = serial_content files s k" for k
    using t by (simp add: serial_content_def finished_bodies_same)
  ultimately show ?thesis using ok phases by (simp add: queue_ok_def register_call_def ok_more_queues)
qed

lemma queue_ok_call:
  assumes ok: "queue_ok files s"
  shows "queue_ok files (enter_call fn s)"
proof -
  let ?s = "enter_call fn s" let ?n = "length (qs_calls s)"
  have len: "length (qs_calls ?s) = Suc ?n" by (simp add: enter_call_def)
  have has: "has_key ?s k i \<longleftrightarrow> has_key s k i" for k i
    by (cases "i = ?n") (auto simp: has_key_def len phase_enter_call less_Suc_eq)
  have fin: "finished_before ?s k t \<longleftrightarrow> finished_before s k t" for k t
    unfolding finished_before_def has by (auto simp: has_key_def phase_enter_call)
  have phases: "phase_ok ?s i" if "i < Suc ?n" for i
  proof (cases "i = ?n")
    case True
    then show ?thesis by (simp add: phase_ok_def phase_enter_call)
  next
    case False
    then have "phase_ok s i" using ok that by (simp add: queue_ok_def)
    then show ?thesis
      by (rule phase_ok_frame) (use False that in \<open>auto simp: has phase_enter_call, auto simp: enter_call_def\<close>)
  qed
  have "chain_key_ok ?s k" for k
  proof -
    have "chain_key_ok s k" using ok by (simp add: queue_ok_def chain_ok_def)
    then show ?thesis unfolding chain_key_ok_def fin has len
      by (auto simp: enter_call_def [of fn s] phase_of_def nth_append has_key_def finished_before_def split: option.splits)
  qed
  then have "chain_ok ?s" by (simp add: chain_ok_def)
  moreover have "order_ok ?s"
    using ok by (auto simp: queue_ok_def order_ok_def enter_call_def phase_of_def nth_append less_Suc_eq)
  moreover have "serial_content files ?s k = serial_content files s k" for k
    by (simp add: serial_content_def finished_bodies_def enter_call_def)
  ultimately show ?thesis using ok phases by (simp add: queue_ok_def len) (simp add: enter_call_def)
qed

lemma queue_ok_end:
  assumes ok: "queue_ok files s" and t: "t < length (qs_calls s)" and now: "phase_of s t = Running key (Some content)"
  shows "queue_ok files (release_call t key (case mc_body (qs_calls s ! t) content of None \<Rightarrow> s | Some new \<Rightarrow> s\<lparr>qs_files := (qs_files s)(key := new)\<rparr>))"
proof -
  let ?s = "set_phase t (Finished key) s"
  have phases: "phase_ok s i" if "i < length (qs_calls s)" for i using ok that by (simp add: queue_ok_def)
  have content: "content = qs_files s key" "finished_before s key t" using phases [OF t] now by (auto simp: phase_ok_def)
  have later: "phase_of s i \<noteq> Finished key" if "t < i" "i < length (qs_calls s)" for i
  proof
    assume "phase_of s i = Finished key"
    then have "finished_before s key i" using phases [OF that(2)] by (simp add: phase_ok_def)
    then show False using that now t by (auto simp: finished_before_def has_key_def)
  qed
  have alone: "k \<noteq> key" if "phase_of s i = Running k held" "i < length (qs_calls s)" "i \<noteq> t" for i k held
  proof
    assume "k = key"
    then have "finished_before s key i" using phases [OF that(2)] that(1) by (auto simp: phase_ok_def)
    then have "t < i \<Longrightarrow> phase_of s t = Finished key" using t now by (simp add: finished_before_def has_key_def)
    moreover have "i < t \<Longrightarrow> phase_of s i = Finished key" using content(2) that \<open>k = key\<close> by (simp add: finished_before_def has_key_def)
    ultimately show False using that now by (cases i t rule: linorder_cases) auto
  qed
  have same: "has_key ?s k i \<longleftrightarrow> has_key s k i" for k i using t now by (simp add: has_key_same)
  let ?s' = "release_call t key (case mc_body (qs_calls s ! t) content of None \<Rightarrow> s | Some new \<Rightarrow> s\<lparr>qs_files := (qs_files s)(key := new)\<rparr>)"
  have shape: "qs_calls ?s' = qs_calls ?s" "qs_files ?s' = (qs_files s)(key := run_body (mc_body (qs_calls s ! t)) content)"
    "qs_queues ?s' = (if qs_queues s key = Some t then (qs_queues s)(key := None) else qs_queues s)"
    using content(1) by (auto simp: release_call_def Let_def set_phase_def run_body_def split: option.splits)
  then have view: "phase_of ?s' = phase_of ?s" "has_key ?s' = has_key ?s" by (auto simp: phase_of_def has_key_def fun_eq_iff)
  have "phase_ok ?s' i" if i: "i < length (qs_calls s)" for i
  proof (cases "i = t")
    case True
    then show ?thesis using content(2) t by (auto simp: phase_ok_def view finished_before_def phase_set_phase same)
  next
    case False
    show ?thesis using phases [OF i]
    proof (rule phase_ok_frame)
      show "qs_files ?s' k = qs_files s k" if "phase_of s i = Running k (Some c)" for k c
        using alone [OF that i False] by (simp add: shape)
    qed (use t now False in \<open>auto simp: view same phase_set_phase\<close>)
  qed
  moreover have "chain_ok ?s'"
  proof -
    have old: "chain_key_ok s k" for k using ok by (simp add: queue_ok_def chain_ok_def)
    have "chain_key_ok ?s' k" for k
    proof (cases "k = key \<and> qs_queues s key = Some t")
      case True
      then have "\<forall>i. t < i \<longrightarrow> \<not> has_key s key i" using old [of key] by (simp add: chain_key_ok_def)
      then have "finished_before ?s' key (length (qs_calls s))" using content(2) t
        by (auto simp: finished_before_def view same phase_set_phase) (metis linorder_neqE_nat)
      then show ?thesis using True by (simp add: chain_key_ok_def shape)
    next
      case False
      then show ?thesis using old [of k] t now
        by (auto simp: chain_key_ok_def shape view same phase_set_phase finished_before_def has_key_def split: option.splits)
    qed
    then show ?thesis unfolding chain_ok_def by blast
  qed
  moreover have "order_ok ?s'" using ok t now order_ok_set [of t s "Finished key"] by (auto simp: queue_ok_def order_ok_def view shape)
  moreover have "qs_files ?s' k = serial_content files ?s' k" for k
  proof -
    have "serial_content files ?s' k = serial_content files ?s k" by (simp add: serial_content_def finished_bodies_def shape)
    also have "\<dots> = (if k = key then run_body (mc_body (qs_calls s ! t)) (serial_content files s k) else serial_content files s k)"
      using later by (simp add: serial_content_def finished_bodies_end [OF t now])
    finally have serial: "serial_content files ?s' k = \<dots>" .
    have old: "serial_content files s k = qs_files s k" "k = key \<Longrightarrow> content = serial_content files s k"
      using ok content(1) by (simp_all add: queue_ok_def)
    show ?thesis unfolding shape(2) serial using old by simp
  qed
  ultimately show ?thesis by (simp add: queue_ok_def shape)
qed

lemma queue_step_ok:
  assumes "queue_ok files s" "queue_step e s = Inr s'"
  shows "queue_ok files s'"
proof (cases e)
  case (Register t answer)
  then show ?thesis using assms queue_ok_register queue_ok_refuse by (cases answer) (auto simp: register_call_def split: if_splits)
next
  case (Start t)
  then show ?thesis using assms queue_ok_start by (auto split: if_splits call_phase.splits)
next
  case (ReadFile t)
  then show ?thesis using assms queue_ok_read by (auto split: if_splits call_phase.splits option.splits)
next
  case (EndBody t)
  then obtain key content where t: "t < length (qs_calls s)" "phase_of s t = Running key (Some content)"
    using assms(2) by (auto split: if_splits call_phase.splits option.splits)
  then show ?thesis using assms(2) queue_ok_end [OF assms(1) t] EndBody by simp
qed (use assms queue_ok_call in auto)

lemma queue_ok_new: "queue_ok files (new_mutation_queue files)"
  by (simp add: queue_ok_def new_mutation_queue_def chain_ok_def chain_key_ok_def order_ok_def finished_before_def serial_content_def finished_bodies_def)

interpretation mutation_queue: guarded_machine queue_step "new_mutation_queue files" "queue_ok files" for files
  by unfold_locales (auto intro: queue_ok_new queue_step_ok)

section \<open>One after the other\<close>

text \<open>C16 (safety). Tools that work on the same file at once do not disturb each other, however the host orders their steps: at most
  one body runs for a file, a body starts only when the bodies of all earlier calls for the file have ended, and the
  file always is what these bodies make of it when they are carried out one after the other in the order of the calls, so
  that no update is lost. A file is identified with its key, the canonical path.\<close>

theorem file_mutations_are_serial:
  assumes "run_machine queue_step es (new_mutation_queue files) = Inr s"
  shows "qs_files s key = fold run_body (finished_bodies s key) (files key)
    \<and> (\<forall>i j held. i < j \<and> j < length (qs_calls s) \<and> has_key s key i \<and> phase_of s j \<in> {Running key held, Finished key} \<longrightarrow> phase_of s i = Finished key)"
proof -
  have ok: "queue_ok files s" by (rule mutation_queue.reachable_inv [OF assms])
  have "finished_before s key j" if "j < length (qs_calls s)" "phase_of s j \<in> {Running key held, Finished key}" for j held
  proof -
    have "phase_ok s j" using ok that(1) by (simp add: queue_ok_def)
    then show ?thesis using that(2) by (auto simp: phase_ok_def)
  qed
  then have "\<forall>i j held. i < j \<and> j < length (qs_calls s) \<and> has_key s key i \<and> phase_of s j \<in> {Running key held, Finished key} \<longrightarrow> phase_of s i = Finished key"
    unfolding finished_before_def by blast
  moreover have "qs_files s key = fold run_body (finished_bodies s key) (files key)" using ok by (simp add: queue_ok_def serial_content_def)
  ultimately show ?thesis by blast
qed

text \<open>Two calls for one file and one, that fails, for another, in an order that the host chose: the second call for the file waits.\<close>

definition sample_events :: "nat list queue_event list" where
  "sample_events =
     [Call (\<lambda>c. Some (c @ [1])), Call (\<lambda>c. Some (2 # c)), Register 0 (Inr [47]), Register 1 (Inr [47]), Call (\<lambda>c. None), Start 0, ReadFile 0,
      Register 2 (Inr [46]), Start 2, ReadFile 2, EndBody 0, Start 1, ReadFile 1, EndBody 2, EndBody 1]"

definition sample_queue :: "nat list queue_state" where
  "sample_queue = (case run_machine queue_step sample_events (new_mutation_queue (\<lambda>k. [])) of Inr s \<Rightarrow> s | Inl _ \<Rightarrow> new_mutation_queue (\<lambda>_. []))"

lemma sample_queue_run: "run_machine queue_step sample_events (new_mutation_queue (\<lambda>_. [])) = Inr sample_queue"
  "qs_files sample_queue [47] = [2, 1]" "map mc_phase (qs_calls sample_queue) = [Finished [47], Finished [47], Finished [46]]"
proof -
  have "case run_machine queue_step sample_events (new_mutation_queue (\<lambda>_. [])) of Inl _ \<Rightarrow> False
    | Inr s \<Rightarrow> qs_files s [47] = [2, 1] \<and> map mc_phase (qs_calls s) = [Finished [47], Finished [47], Finished [46]]"
    by code_simp
  then show "run_machine queue_step sample_events (new_mutation_queue (\<lambda>_. [])) = Inr sample_queue"
    "qs_files sample_queue [47] = [2, 1]" "map mc_phase (qs_calls sample_queue) = [Finished [47], Finished [47], Finished [46]]"
    unfolding sample_queue_def by (simp_all split: sum.splits)
qed

theorem file_mutations_are_serial_witness:
  "[2, 1] = fold run_body (finished_bodies sample_queue [47]) []"
  using conjunct1 [OF file_mutations_are_serial [OF sample_queue_run(1), of "[47]"]] sample_queue_run(2) by simp

section \<open>Every call ends\<close>

text \<open>How many events a call still needs.\<close>

fun phase_steps :: "'c call_phase \<Rightarrow> nat" where
  "phase_steps Registering = 4"
| "phase_steps (Queued _ _) = 3"
| "phase_steps (Running _ None) = 2"
| "phase_steps (Running _ (Some _)) = 1"
| "phase_steps _ = 0"

definition steps_left :: "'c queue_state \<Rightarrow> nat" where
  "steps_left s = (\<Sum>c \<leftarrow> qs_calls s. phase_steps (mc_phase c))"

fun is_call :: "'c queue_event \<Rightarrow> bool" where
  "is_call (Call _) = True"
| "is_call _ = False"

lemma steps_set_phase:
  assumes "t < length (qs_calls s)" "phase_steps p < phase_steps (phase_of s t)"
  shows "steps_left (set_phase t p s) < steps_left s"
proof -
  obtain before c after where "qs_calls s = before @ c # after" "length before = t" using split_calls assms(1) by blast
  then show ?thesis using assms(2) by (auto simp: steps_left_def set_phase_def phase_of_def)
qed

lemma steps_more [simp]: "steps_left (s\<lparr>qs_files := f\<rparr>) = steps_left s" "steps_left (s\<lparr>qs_queues := q\<rparr>) = steps_left s"
  by (simp_all add: steps_left_def)

lemma steps_release: "steps_left (release_call t key s) = steps_left (set_phase t (Finished key) s)"
  by (simp add: release_call_def Let_def)

lemma steps_end: "t < length (qs_calls s) \<Longrightarrow> phase_of s t = Running key (Some c) \<Longrightarrow> steps_left (release_call t key (s\<lparr>qs_files := f\<rparr>)) < steps_left s"
  using steps_set_phase [of t "s\<lparr>qs_files := f\<rparr>" "Finished key"] by (simp add: steps_release ok_more_files)

lemma steps_step: "queue_step e s = Inr s' \<Longrightarrow> \<not> is_call e \<Longrightarrow> steps_left s' < steps_left s"
  by (cases e) (auto simp: may_register_def register_call_def steps_release ok_more_files intro!: steps_set_phase steps_end [unfolded steps_release]
    split: if_splits call_phase.splits option.splits sum.splits)

lemma steps_run: "run_machine queue_step es s = Inr s' \<Longrightarrow> list_all (\<lambda>e. \<not> is_call e) es \<Longrightarrow> length es + steps_left s' \<le> steps_left s"
proof (induction es arbitrary: s)
  case (Cons e es)
  then obtain s1 where "queue_step e s = Inr s1" "run_machine queue_step es s1 = Inr s'" by (auto simp: try_bind_eq_Inr)
  then show ?case using Cons.IH [of s1] Cons.prems(2) steps_step [of e s s1] by fastforce
qed simp

text \<open>Every call that has not ended, or one before it, can go on.\<close>

definition has_ended :: "'c call_phase \<Rightarrow> bool" where
  "has_ended p \<longleftrightarrow> (case p of Finished _ \<Rightarrow> True | Refused _ \<Rightarrow> True | _ \<Rightarrow> False)"

lemma some_event_possible:
  assumes ok: "queue_ok files s" and t: "t < length (qs_calls s)" "\<not> has_ended (phase_of s t)"
    and least: "\<And>i. i < t \<Longrightarrow> has_ended (phase_of s i)"
  shows "\<exists>e s'. \<not> is_call e \<and> queue_step e s = Inr s'"
proof (cases "phase_of s t")
  case Registering
  have "phase_of s i \<noteq> Registering" if "i < t" for i using least [OF that] by (auto simp: has_ended_def)
  then have "queue_step (Register t (Inr [])) s = Inr (register_call t (Inr []) s)" using t(1) Registering by (simp add: may_register_def)
  then show ?thesis by (metis is_call.simps(2))
next
  case (Queued key chain)
  have "chain_settled s chain"
  proof (cases chain)
    case (Some p)
    then have "p < t" "has_key s key p" using ok t(1) Queued by (auto simp: queue_ok_def phase_ok_def)
    then show ?thesis using least [of p] Some by (auto simp: chain_settled_def has_ended_def has_key_def split: call_phase.splits)
  qed (simp add: chain_settled_def)
  then have "queue_step (Start t) s = Inr (set_phase t (Running key None) s)" using t(1) Queued by simp
  then show ?thesis by (metis is_call.simps(3))
next
  case (Running key held)
  show ?thesis
  proof (cases held)
    case None
    then have "queue_step (ReadFile t) s = Inr (set_phase t (Running key (Some (qs_files s key))) s)" using t(1) Running by simp
    then show ?thesis by (metis is_call.simps(4))
  next
    case (Some c)
    then have "\<exists>s'. queue_step (EndBody t) s = Inr s'" using t(1) Running by simp
    then show ?thesis by (metis is_call.simps(5))
  qed
qed (use t(2) in \<open>auto simp: has_ended_def\<close>)

text \<open>C19 (liveness). No call is left behind: in every state that can be reached, some step is possible as long as a call has
  not ended, the host can take no more than four steps per call, and when no step is left every call has ended and
  the map of queues is empty again, refused registrations and failing bodies included.\<close>

theorem mutation_queue_drains:
  assumes "run_machine queue_step es (new_mutation_queue files) = Inr s"
  shows "(\<forall>es' s'. run_machine queue_step es' s = Inr s' \<and> list_all (\<lambda>e. \<not> is_call e) es' \<longrightarrow> length es' \<le> 4 * length (qs_calls s)) \<and>
    ((\<forall>e s'. \<not> is_call e \<longrightarrow> queue_step e s \<noteq> Inr s') \<longrightarrow> (\<forall>t < length (qs_calls s). has_ended (phase_of s t)) \<and> qs_queues s = Map.empty)"
proof (intro conjI impI allI)
  fix es' s' assume "run_machine queue_step es' s = Inr s' \<and> list_all (\<lambda>e. \<not> is_call e) es'"
  then have "length es' \<le> steps_left s" using steps_run [of es' s s'] by auto
  also have "phase_steps p \<le> 4" for p :: "'a call_phase" by (cases p rule: phase_steps.cases) auto
  then have "steps_left s \<le> 4 * length (qs_calls s)"
    unfolding steps_left_def using sum_list_mono [of "qs_calls s" "\<lambda>c. phase_steps (mc_phase c)" "\<lambda>_. 4"] by (simp add: sum_list_triv)
  finally show "length es' \<le> 4 * length (qs_calls s)" .
next
  assume stuck: "\<forall>e s'. \<not> is_call e \<longrightarrow> queue_step e s \<noteq> Inr s'"
  have ok: "queue_ok files s" by (rule mutation_queue.reachable_inv [OF assms])
  have ended: "has_ended (phase_of s t)" if "t < length (qs_calls s)" for t
    using that
  proof (induction t rule: less_induct)
    case (less t)
    then have "has_ended (phase_of s i)" if "i < t" for i using that by simp
    then show ?case using some_event_possible [OF ok less.prems] stuck by blast
  qed
  then show "has_ended (phase_of s t)" if "t < length (qs_calls s)" for t using that .
  have "qs_queues s key = None" for key
  proof (cases "qs_queues s key")
    case (Some u)
    then have "has_key s key u" "phase_of s u \<noteq> Finished key" using ok by (auto simp: queue_ok_def chain_ok_def chain_key_ok_def split: option.splits dest!: spec [of _ key])
    then show ?thesis using ended [of u] by (auto simp: has_key_def has_ended_def split: call_phase.splits)
  qed
  then show "qs_queues s = Map.empty" by auto
qed

theorem mutation_queue_drains_witness: "qs_queues sample_queue = Map.empty"
proof -
  have "steps_left sample_queue = sum_list (map phase_steps (map mc_phase (qs_calls sample_queue)))" by (simp add: steps_left_def comp_def)
  then have "steps_left sample_queue = 0" by (simp add: sample_queue_run(3))
  then have "\<forall>e s'. \<not> is_call e \<longrightarrow> queue_step e sample_queue \<noteq> Inr s'" using steps_step by force
  then show ?thesis using mutation_queue_drains [OF sample_queue_run(1)] by blast
qed

end
