(* ===== verification/Spec2Isabelle.thy ===== *)
theory Spec2Isabelle
  imports Protocol_Codec Lane_Recovery Session_Repo Truncate_Facts Branch_Summary Agent_Facts Agent_Returns Jsonl_Recovery Client_Mirror File_Tools_Facts Edit_Errors Mutation_Queue
begin

text \<open>
  A verification library for the core of pi: the wire protocol of \<open>packages/protocol\<close>, the client of \<open>packages/client\<close>, the agent loop and the
  \<open>Agent\<close> class of \<open>packages/agent/src\<close>, and the session layer and file tools of the agent harness, \<open>packages/agent/src/harness\<close>.

  \<^bold>\<open>The program.\<close> Client and server exchange messages: a message is a JavaScript value, encoded by a strict
  subset of CBOR, put into a frame with a four-byte length and sent over a byte stream that arrives in
  arbitrary chunks. The client keeps a connection, matches responses with its requests and copies what the server tells it of
  its sessions. The server hosts sessions. A session is a log of mutations: entries that form a tree,
  lanes that point at leaves of the tree, records of the operations that run in a lane, labels and a
  name; it is kept in memory, or appended line by line to a file that is replayed when it is loaded. The agent
  loop asks a model for responses, runs the tools they call and emits events, from which the \<open>Agent\<close> class keeps its
  state; the harness appends messages and records through the session; after a crash the reducer
  reads a lane's open operation back from the log; a branch is turned into the context of the next
  request; a long branch is compacted; a branch that is left is summarised; long tool output is cut.

  \<^bold>\<open>Theories and the code.\<close>
  \<^item> \<open>Prelude\<close>: errors as sums (\<open>try_bind\<close>, \<open>throw_if\<close>), big-endian bytes, lemmas on lists, and the locale
    \<open>guarded_machine\<close> of a step function that keeps an invariant; it is interpreted on the session state,
    the storage, the repository and the mutation queue.
  \<^item> \<open>Js_Text\<close>, \<open>Js_Values\<close>, \<open>Json_Text\<close>: the language. Strings are lists of 16-bit units, with the conversion to
    UTF-8; numbers are safe integers or doubles by their bits; values carry object identities and what
    the property descriptors show; \<open>JSON.stringify\<close> and \<open>ai/src/utils/text.ts\<close>.
  \<^item> \<open>Cbor_Encoder\<close>, \<open>Cbor_Format\<close>, \<open>Cbor_Decoder\<close>, \<open>Cbor_Reader_Bounds\<close>, \<open>Cbor_Codec\<close>: \<open>protocol/src/cbor\<close>, with a
    specification of the format that the growing writer refines.
  \<^item> \<open>Framing\<close>, \<open>Frame_Stream\<close>: \<open>protocol/src/framing.ts\<close>, the decoder with its header buffer and payload
    blocks, and the plain specification of a framed stream.
  \<^item> \<open>Protocol_Codec\<close>, \<open>Protocol_Messages\<close>: \<open>protocol/src/codec.ts\<close> and the types of \<open>schemas.ts\<close>; the schema check and the reading
    and writing of typed messages as values are the argument \<open>wire\<close>.
  \<^item> \<open>Client_Connection\<close>, \<open>Connection_Facts\<close>: \<open>client/src/connection.ts\<close>. Callbacks are functions of the whole state, since a
    listener may call the connection again before it returns; what they promise is the locale \<open>connection_client\<close>.
  \<^item> \<open>Client_State\<close>, \<open>Client_Facts\<close>, \<open>Client_Mirror\<close>: \<open>client/src/state.ts\<close> and \<open>client.ts\<close>. The program around the client is a
    function that answers an effect with calls (\<open>outside_at k\<close>, for chains of calls up to any depth \<open>k\<close>); the client is shown
    to be a \<open>connection_client\<close> for all of them.
  \<^item> \<open>Messages\<close>, \<open>Session_Types\<close>: \<open>ai/src/types.ts\<close> (messages only), \<open>harness/messages.ts\<close>, \<open>session/types.ts\<close>.
  \<^item> \<open>Session_State\<close>, \<open>Session_Invariant\<close>, \<open>Session_Queries\<close>, \<open>Session_Fork\<close>: \<open>session/state.ts\<close>: mutations with their
    guards, the invariant they keep, what the queries return, forks.
  \<^item> \<open>Session_Storage\<close>, \<open>Session_Facade\<close>, \<open>Session_Repo\<close>, \<open>Json_Check\<close>: \<open>session/memory.ts\<close> and \<open>session/session.ts\<close>.
    The interface \<open>SessionStorage\<close> is the record \<open>storage_ops\<close>, its laws are the locale \<open>session_storage\<close>, and
    the in-memory storage is shown to obey them.
  \<^item> \<open>Json_Parse\<close>, \<open>Jsonl_Codec\<close>, \<open>Jsonl_Codec_Facts\<close>, \<open>Jsonl_Storage\<close>, \<open>Jsonl_Facts\<close>, \<open>Jsonl_Recovery\<close>: \<open>JSON.parse\<close> and
    \<open>session/jsonl\<close>, the storage of a session in a file. The file system is the record \<open>file_ops\<close> with the laws of the locale
    \<open>file_system\<close>, in which a failed operation may leave any content behind; a disk with a schedule of faults is an
    instance. How typed entries and records are laid out as objects, which the code reads back by unchecked casts, is
    the argument \<open>object_views\<close>; numbers that are not safe integers go through \<open>number_format\<close>.
  \<^item> \<open>Session_Context\<close>: \<open>session/context.ts\<close>.
  \<^item> \<open>Record_Log\<close>, \<open>Record_Log_Facts\<close>, \<open>Lane_Reducer\<close>, \<open>Lane_Recovery\<close>: \<open>harness/reducer.ts\<close>, the validation of a
    lane's record log and the state recovered from it.
  \<^item> \<open>Compaction_Prompts\<close>, \<open>Compaction_Plan\<close>, \<open>Compaction_Facts\<close>, \<open>Compaction_Run\<close>, \<open>Branch_Summary\<close>:
    \<open>harness/compaction\<close>.
  \<^item> \<open>Truncate\<close>, \<open>Truncate_Facts\<close>: \<open>harness/utils/truncate.ts\<close>.
  \<^item> \<open>Edit_Text\<close>, \<open>Edit_Facts\<close>: \<open>harness/tools/edit-diff.ts\<close>: where old texts are found, replacement, the lines that stay, the diff
    that is shown. Unicode normalisation and the package \<open>diff\<close> are arguments.
  \<^item> \<open>File_Tools\<close>, \<open>File_Tools_Facts\<close>, \<open>Edit_Errors\<close>: \<open>edit.ts\<close>, \<open>write.ts\<close>, \<open>read.ts\<close>, \<open>path-utils.ts\<close> and \<open>image.ts\<close> over an
    environment, the record \<open>tool_env\<close>: what a successful edit writes, why an edit is refused, reading page by page, base64.
  \<^item> \<open>Mutation_Queue\<close>: \<open>file-mutation-queue.ts\<close>, several tools at once, as a machine whose next event the host chooses.
  \<^item> \<open>Agent_Types\<close>, \<open>Agent_Loop\<close>, \<open>Agent_Run\<close>, \<open>Agent_Events\<close>, \<open>Agent_Run_Facts\<close>, \<open>Agent_Returns\<close>: \<open>agent/src/types.ts\<close> and \<open>agent-loop.ts\<close>: streaming
    of a response, the batches of tool calls, turns, hooks and the event protocol. The tool calls of a concurrent batch are
    threads; the order in which the host resumes them is the schedule \<open>le_schedule\<close>, an argument, and the properties
    hold for every schedule. The model, the tools, the hooks and the validation of arguments are functions of a world. Where a property
    is about the phases of events or the partial message in the context, the model's streams start a message at most once (\<open>one_start\<close>);
    the journal, the exchanges and the end of a run do not depend on it.
  \<^item> \<open>Agent_State\<close>, \<open>Agent_World\<close>, \<open>Agent_Facts\<close>: \<open>agent.ts\<close>: the state, the queues of steering and follow-up messages, and the life
    cycle of a run. Its environment for the loop is shown to satisfy the locale \<open>loop_world\<close>, so the agent's state is the
    fold of the events the loop emits.

  \<^bold>\<open>State and operations.\<close> A class is a record of its fields; a method is a function that takes the record
  and returns it updated. A thrown error is the left side of a sum. A \<open>Map\<close> is an association list, in the
  order of insertion. The clock and the generator of ids are arguments. \<open>structuredClone\<close> is the identity:
  the data of the model cannot be modified. Functions are named as in the source; a local function
  or the body of a loop has a name of its own and is listed with its lines in the manifest.

  \<^bold>\<open>Lemma groups.\<close> Each component has its invariant or specification first (\<open>wf_state\<close>, \<open>memory_ok\<close>, \<open>repo_ok\<close>; the
  format relations of CBOR; the split of a stream into frames; the inductive \<open>branch\<close>, \<open>attempt_series\<close>), then the
  lemmas that each operation keeps it, then the properties, every one with a witness on concrete data.
  Properties across components: a message survives encoding, framing and any chunking
  (\<open>Protocol_Codec\<close>); the storage never produces a log that the reducer calls corrupt for several open
  operations, and the reducer's configuration is the context's (\<open>Lane_Recovery\<close>); the storage in a file refines the one
  in memory, and a crash in any append is repaired by the next load (\<open>Jsonl_Recovery\<close>); the agent's state mirrors the
  loop's events (\<open>Agent_Facts\<close>); a client shows what the server said, through frames and chunks (\<open>Client_Mirror\<close>); rounds of compaction
  compose through the stored entry (\<open>Compaction_Run\<close>); the entries of a left branch are those below the
  deepest common ancestor, on every reachable storage (\<open>Branch_Summary\<close>); a file is read page by page through the truncation of
  long output (\<open>File_Tools_Facts\<close>).

  \<^bold>\<open>Bounds and loops.\<close> No fuel is used. Loops are structural recursions or come with a termination proof; the loops whose
  end depends on data (doubling the writer's capacity, the push loop of the frame decoder, following parent
  links) are partial functions with values in \<open>option\<close>, and the properties show that they return. The agent loop itself ends
  only when the model stops calling tools and no messages are queued: it is a partial function too, and a property says that it returns
  as soon as both are bounded. Bytes and string units are
  words; lengths, offsets and token counts are unbounded, the checks against \<open>MAX_SAFE_INTEGER\<close>
  and the 32-bit header are kept.

  \<^bold>\<open>Not modelled.\<close> TypeBox validation of protocol messages (a parameter), the requests to model providers (a
  parameter that answers in a state of the world), abort signals outside the agent loop, listeners of agent events that
  throw, calls on an \<open>Agent\<close> from outside while it runs, the session handles of the client, the bash tool, the schemas of the tools and
  the repair of their arguments, texts of error messages, sockets, terminals, and the
  applications built on this core.
\<close>

end
